(* ===== verification/Prelude.thy ===== *)
theory Prelude
  imports Main "HOL-Library.Word" "HOL-Library.Monad_Syntax"
begin

unbundle bit_operations_syntax

text \<open>
  Shared vocabulary of the development: the C integer types of \<^verbatim>\<open>nvtypes.h\<close>, the checked
  C operations whose misuse is undefined behaviour (division by zero, reading past an array),
  the arithmetic macros of \<^verbatim>\<open>nvt_dsc_pps.c\<close> and \<^verbatim>\<open>nvmisc.h\<close>, and the generic lemmas on words,
  options and lists the component theories share.

  A C function that can reach undefined behaviour is a function into \<^typ>\<open>'a option\<close>: \<^const>\<open>None\<close>
  is undefined behaviour, \<^const>\<open>Some\<close> is a normal return. Error statuses are values inside \<^const>\<open>Some\<close>.
\<close>

named_theorems c_simps \<open>unfolding rules of the checked C operations\<close>
named_theorems nowrap \<open>readings of machine arithmetic that does not wrap\<close>

section \<open>C integer types\<close>

type_synonym NvU8 = "8 word"
type_synonym NvU16 = "16 word"
type_synonym NvU32 = "32 word"
type_synonym NvU64 = "64 word"
type_synonym NvBool = "8 word"

abbreviation (input) NV_TRUE :: NvBool where "NV_TRUE \<equiv> 1"
abbreviation (input) NV_FALSE :: NvBool where "NV_FALSE \<equiv> 0"

section \<open>Checked C operations\<close>

definition c_div :: "'a::len word \<Rightarrow> 'a word \<Rightarrow> 'a word option" where
  "c_div a b = (if b = 0 then None else Some (a div b))"

definition c_mod :: "'a::len word \<Rightarrow> 'a word \<Rightarrow> 'a word option" where
  "c_mod a b = (if b = 0 then None else Some (a mod b))"

definition c_nth :: "'a list \<Rightarrow> nat \<Rightarrow> 'a option" where
  "c_nth xs i = (if i < length xs then Some (xs ! i) else None)"

definition c_shl :: "NvU32 \<Rightarrow> NvU32 \<Rightarrow> NvU32 option" where
  "c_shl a n = (if unat n < 32 then Some (push_bit (unat n) a) else None)"

lemma c_div_Some [c_simps, simp]: "b \<noteq> 0 \<Longrightarrow> c_div a b = Some (a div b)"
  by (simp add: c_div_def)

lemma c_div_0 [simp]: "c_div a 0 = None"
  by (simp add: c_div_def)

lemma c_mod_Some [c_simps, simp]: "b \<noteq> 0 \<Longrightarrow> c_mod a b = Some (a mod b)"
  by (simp add: c_mod_def)

lemma c_mod_0 [simp]: "c_mod a 0 = None"
  by (simp add: c_mod_def)

lemma c_nth_Some [c_simps, simp]: "i < length xs \<Longrightarrow> c_nth xs i = Some (xs ! i)"
  by (simp add: c_nth_def)

lemma c_nth_eq_None_iff: "c_nth xs i = None \<longleftrightarrow> length xs \<le> i"
  by (simp add: c_nth_def)

section \<open>Arithmetic macros\<close>

text \<open>
  \<open>RANGE_CHECK\<close>, \<open>ENUM2_CHECK\<close> and \<open>ENUM3_CHECK\<close> return \<^verbatim>\<open>NVT_STATUS_ERR\<close> from the enclosing
  function unless the condition named here holds; the comparison is on the value read as a signed
  32-bit integer.
\<close>

definition RANGE_CHECK :: "NvU32 \<Rightarrow> NvU32 \<Rightarrow> NvU32 \<Rightarrow> bool" where
  "RANGE_CHECK a b c \<longleftrightarrow> \<not> (sint a < sint b \<or> sint a > sint c)"

definition ENUM2_CHECK :: "NvU32 \<Rightarrow> NvU32 \<Rightarrow> NvU32 \<Rightarrow> bool" where
  "ENUM2_CHECK a b c \<longleftrightarrow> \<not> (a \<noteq> b \<and> a \<noteq> c)"

definition ENUM3_CHECK :: "NvU32 \<Rightarrow> NvU32 \<Rightarrow> NvU32 \<Rightarrow> NvU32 \<Rightarrow> bool" where
  "ENUM3_CHECK a b c d \<longleftrightarrow> \<not> (a \<noteq> b \<and> a \<noteq> c \<and> a \<noteq> d)"

definition C_MAX :: "NvU32 \<Rightarrow> NvU32 \<Rightarrow> NvU32" where
  "C_MAX a b = (if a \<ge> b \<or> b = 0xffffffff then a else b)"

definition C_MIN :: "NvU32 \<Rightarrow> NvU32 \<Rightarrow> NvU32" where
  "C_MIN a b = (if a \<ge> b then b else a)"

definition CLAMP :: "NvU32 \<Rightarrow> NvU32 \<Rightarrow> NvU32 \<Rightarrow> NvU32" where
  "CLAMP a b c = (if a \<le> b then b else if a > c then c else a)"

definition MSB :: "NvU32 \<Rightarrow> NvU32" where
  "MSB a = drop_bit 8 a AND 0xFF"

definition LSB :: "NvU32 \<Rightarrow> NvU32" where
  "LSB a = a AND 0xFF"

definition NV_CEIL :: "'a::len word \<Rightarrow> 'a word \<Rightarrow> 'a word option" where
  "NV_CEIL a b = c_div (a + b - 1) b"

definition ONEBITSET :: "NvU32 \<Rightarrow> bool" where
  "ONEBITSET x \<longleftrightarrow> x \<noteq> 0 \<and> x AND (x - 1) = 0"

definition NVBIT32 :: "NvU32 \<Rightarrow> NvU32" where
  "NVBIT32 b = push_bit (unat b) 1"

section \<open>Words read as naturals\<close>

text \<open>Machine arithmetic that does not wrap, read through \<^const>\<open>unat\<close>.\<close>

lemma unat_add_nowrap [nowrap]:
  "unat a + unat b < 2 ^ LENGTH('a) \<Longrightarrow> unat (a + b) = unat a + unat (b :: 'a::len word)"
  by (simp add: unat_word_ariths)

lemma unat_mult_nowrap [nowrap]:
  "unat a * unat b < 2 ^ LENGTH('a) \<Longrightarrow> unat (a * b) = unat a * unat (b :: 'a::len word)"
  by (simp add: unat_word_ariths)

lemma unat_sub_nowrap [nowrap]:
  "unat b \<le> unat a \<Longrightarrow> unat (a - b) = unat a - unat (b :: 'a::len word)"
  by (simp add: unat_sub word_le_nat_alt)

lemma unat_div_word [nowrap, simp]: "unat (a div b) = unat a div unat (b :: 'a::len word)"
  by (rule unat_div_distrib)

lemma unat_mod_word [nowrap, simp]: "unat (a mod b) = unat a mod unat (b :: 'a::len word)"
  by (rule unat_mod_distrib)

lemma unat_eq_zero_iff: "unat (w :: 'a::len word) = 0 \<longleftrightarrow> w = 0"
  by (simp add: unat_eq_zero)

lemma unat_lt_2p32: "unat (w :: NvU32) < 4294967296"
  using unsigned_less [of w, where 'a = nat] by simp

lemma unat_lt_2p64: "unat (w :: NvU64) < 18446744073709551616"
  using unsigned_less [of w, where 'a = nat] by simp

lemma bit_31_unat: "bit (w :: NvU32) 31 \<longleftrightarrow> 2147483648 \<le> unat w"
proof -
  have "bit w 31 \<longleftrightarrow> odd (unat w div 2 ^ 31)"
    using bit_unsigned_iff [of w 31, where 'a = nat]
    by (simp only: bit_iff_odd) (simp add: possible_bit_def)
  moreover have "unat w div 2 ^ 31 = (if 2147483648 \<le> unat w then 1 else 0)"
    using unat_lt_2p32 [of w] by (auto intro: div_nat_eqI)
  ultimately show ?thesis by simp
qed

lemma sint_32_eq:
  "sint (w :: NvU32) = int (unat w) - (if 2147483648 \<le> unat w then 4294967296 else 0)"
proof -
  have "sint w = signed_take_bit 31 (uint w)"
    by (simp add: sint_uint)
  also have "\<dots> = take_bit 32 (uint w) - 4294967296 * of_bool (bit (uint w) 31)"
    by (simp add: signed_take_bit_eq_take_bit_minus)
  also have "take_bit 32 (uint w) = uint w"
    by (rule take_bit_int_eq_self) (use uint_lt2p [of w] in simp_all)
  also have "bit (uint w) 31 \<longleftrightarrow> 2147483648 \<le> unat w"
    by (simp add: bit_uint_iff bit_31_unat)
  finally show ?thesis by simp
qed

text \<open>Between non-negative bounds, the signed range check is the unsigned one.\<close>

lemma RANGE_CHECK_unat:
  assumes "unat b < 2147483648" and "unat c < 2147483648"
  shows "RANGE_CHECK a b c \<longleftrightarrow> unat b \<le> unat a \<and> unat a \<le> unat c"
  unfolding RANGE_CHECK_def sint_32_eq using assms unat_lt_2p32 [of a]
  by (auto simp del: of_nat_unat split: if_splits)

lemma RANGE_CHECK_0 [simp]:
  "unat c < 2147483648 \<Longrightarrow> RANGE_CHECK a 0 c \<longleftrightarrow> unat a \<le> unat c"
  by (simp add: RANGE_CHECK_unat)

lemma C_MIN_unat [simp]: "unat (C_MIN a b) = min (unat a) (unat b)"
  by (simp add: C_MIN_def word_le_nat_alt)

lemma C_MAX_unat: "b \<noteq> 0xffffffff \<Longrightarrow> unat (C_MAX a b) = max (unat a) (unat b)"
  by (simp add: C_MAX_def word_le_nat_alt)

lemma CLAMP_unat: "unat (CLAMP a 0 c) = min (unat a) (unat c)"
  by (auto simp: CLAMP_def word_le_nat_alt word_less_nat_alt unat_eq_zero)

section \<open>Lists\<close>

lemma find_filter_conj: "find P (filter Q xs) = find (\<lambda>x. Q x \<and> P x) xs"
  by (induction xs) auto

lemma find_sorted_least:
  "sorted xs \<Longrightarrow> find P xs = Some (n :: 'a::linorder) \<longleftrightarrow>
     n \<in> set xs \<and> P n \<and> (\<forall>k \<in> set xs. P k \<longrightarrow> n \<le> k)"
  by (induction xs) (auto intro: antisym)

lemma those_map_Some: "those (map (\<lambda>x. Some (f x)) xs) = Some (map f xs)"
  by (induction xs) simp_all

section \<open>Rounding and bit tests\<close>

lemma ceil_div_le_iff: "0 < b \<Longrightarrow> (a + b - 1) div b \<le> n \<longleftrightarrow> a \<le> n * (b :: nat)"
proof -
  assume "0 < b"
  have "(a + b - 1) div b \<le> n \<longleftrightarrow> (a + b - 1) div b < Suc n" by auto
  also have "\<dots> \<longleftrightarrow> a + b - 1 < Suc n * b"
    using \<open>0 < b\<close> by (rule div_less_iff_less_mult)
  also have "\<dots> \<longleftrightarrow> a \<le> n * b"
    using \<open>0 < b\<close> by auto
  finally show ?thesis .
qed

lemma unat_ceil_div:
  fixes a b :: "'a::len word"
  assumes "b \<noteq> 0" "unat a + unat b < 2 ^ LENGTH('a)"
  shows "unat ((a + b - 1) div b) = (unat a + unat b - 1) div unat b"
proof -
  have "0 < unat b" using assms(1) by (simp add: unat_gt_0)
  then have "unat (a + b - 1) = unat a + unat b - 1"
    using assms(2) by (simp add: unat_sub_nowrap unat_add_nowrap)
  then show ?thesis by simp
qed

lemma unat_ceil_div_le_iff:
  fixes a b :: "'a::len word"
  assumes "b \<noteq> 0" "unat a + unat b < 2 ^ LENGTH('a)"
  shows "unat ((a + b - 1) div b) \<le> k \<longleftrightarrow> unat a \<le> k * unat b"
  unfolding unat_ceil_div [OF assms] using assms(1) by (intro ceil_div_le_iff) (simp add: unat_gt_0)

lemma unat_drop_bit_1: "unat (drop_bit (Suc 0) w) = unat (w :: NvU32) div 2"
  by (simp add: unat_drop_bit_eq drop_bit_eq_div)

lemma and_bit_test: "(m :: NvU32) AND 1 = 0 \<longleftrightarrow> \<not> bit m 0"
  "m AND 2 = 0 \<longleftrightarrow> \<not> bit m 1" "m AND 8 = 0 \<longleftrightarrow> \<not> bit m 3" "m AND 16 = 0 \<longleftrightarrow> \<not> bit m 4"
  "m AND 32 = 0 \<longleftrightarrow> \<not> bit m 5" "m AND 64 = 0 \<longleftrightarrow> \<not> bit m 6" "m AND 128 = 0 \<longleftrightarrow> \<not> bit m 7"
  "m AND 256 = 0 \<longleftrightarrow> \<not> bit m 8" "m AND 512 = 0 \<longleftrightarrow> \<not> bit m 9" "m AND 1024 = 0 \<longleftrightarrow> \<not> bit m 10"
  using and_exp_eq_0_iff_not_bit [of m 0] and_exp_eq_0_iff_not_bit [of m 1] and_exp_eq_0_iff_not_bit [of m 3]
    and_exp_eq_0_iff_not_bit [of m 4] and_exp_eq_0_iff_not_bit [of m 5] and_exp_eq_0_iff_not_bit [of m 6]
    and_exp_eq_0_iff_not_bit [of m 7] and_exp_eq_0_iff_not_bit [of m 8] and_exp_eq_0_iff_not_bit [of m 9]
    and_exp_eq_0_iff_not_bit [of m 10]
  by simp_all

lemma and_bit_test': "1 AND (m :: NvU32) = 0 \<longleftrightarrow> \<not> bit m 0"
  "2 AND m = 0 \<longleftrightarrow> \<not> bit m 1" "8 AND m = 0 \<longleftrightarrow> \<not> bit m 3" "16 AND m = 0 \<longleftrightarrow> \<not> bit m 4"
  "32 AND m = 0 \<longleftrightarrow> \<not> bit m 5" "64 AND m = 0 \<longleftrightarrow> \<not> bit m 6" "128 AND m = 0 \<longleftrightarrow> \<not> bit m 7"
  "256 AND m = 0 \<longleftrightarrow> \<not> bit m 8" "512 AND m = 0 \<longleftrightarrow> \<not> bit m 9" "1024 AND m = 0 \<longleftrightarrow> \<not> bit m 10"
  by (simp_all add: and.commute [of _ m] and_bit_test)

lemma distance_to_multiple_step:
  fixes r m :: nat
  assumes "a mod m \<noteq> 0" "0 < m"
  shows "(m - Suc a mod m) mod m = (m - a mod m) mod m - 1" and "0 < (m - a mod m) mod m"
proof -
  have a: "0 < a mod m" "a mod m < m" using assms by auto
  then have d: "(m - a mod m) mod m = m - a mod m" by simp
  then show "0 < (m - a mod m) mod m" using a by simp
  show "(m - Suc a mod m) mod m = (m - a mod m) mod m - 1"
  proof (cases "Suc (a mod m) = m")
    case True
    then show ?thesis using d by (simp add: mod_Suc)
  next
    case False
    then show ?thesis using d a by (simp add: mod_Suc)
  qed
qed

lemma dvd_round_down:
  assumes "0 < (k :: nat)"
  shows "k dvd (n - n mod k) \<and> n - n mod k \<le> n \<and> n < n - n mod k + k"
proof -
  have "n mod k < k" "n mod k \<le> n" using assms by simp_all
  then have "n < n - n mod k + k" by linarith
  then show ?thesis by (simp add: dvd_minus_mod)
qed

lemma and_not_mask_unat: "unat (w AND NOT (2 ^ k - 1) :: NvU32) = unat w - unat w mod 2 ^ k"
proof -
  have "w AND NOT (mask k) = push_bit k (drop_bit k w)"
    by (rule bit_word_eqI) (auto simp: bit_simps not_less)
  also have "\<dots> = w - take_bit k w"
    using bits_ident [of k w] by (simp add: eq_diff_eq)
  finally have "w AND NOT (2 ^ k - 1) = w - take_bit k w"
    by (simp add: mask_eq_exp_minus_1)
  moreover have "unat (take_bit k w) = unat w mod 2 ^ k"
    by (subst unsigned_take_bit_eq) (rule take_bit_eq_mod)
  ultimately show ?thesis
    by (simp add: unat_sub_nowrap)
qed

lemma unat_push_bit_11:
  "unat (w :: NvU32) \<le> 2097151 \<Longrightarrow> unat (push_bit 11 w) = 2048 * unat w"
  by (simp add: push_bit_eq_mult unat_mult_nowrap mult.commute)

lemma unat_ucast_NvU32: "unat (ucast (w :: NvU32) :: NvU64) = unat w"
  using unsigned_less [of w, where 'a = nat] by (simp add: unsigned_ucast_eq take_bit_nat_eq_self)

lemma unat_ucast_NvU8: "unat (ucast (x :: NvU8) :: NvU32) = unat x"
  using unsigned_less [of x, where 'a = nat]
  by (simp add: unsigned_ucast_eq take_bit_nat_eq_self)

section \<open>Reasoning about programs in the option type\<close>

text \<open>
  \<open>ensures m P\<close>: if \<open>m\<close> returns, its value satisfies \<open>P\<close>. \<open>returns m P\<close>: \<open>m\<close> returns, and its value
  satisfies \<open>P\<close>; it is the claim that no undefined behaviour is reached. The rules follow the syntax
  of a program, one per construct, and keep \<open>let\<close>-bound values named instead of copying them.
\<close>

definition ensures :: "'a option \<Rightarrow> ('a \<Rightarrow> bool) \<Rightarrow> bool" where
  "ensures m P \<longleftrightarrow> (\<forall>x. m = Some x \<longrightarrow> P x)"

definition returns :: "'a option \<Rightarrow> ('a \<Rightarrow> bool) \<Rightarrow> bool" where
  "returns m P \<longleftrightarrow> (\<exists>x. m = Some x \<and> P x)"

lemma ensuresD: "ensures m P \<Longrightarrow> m = Some x \<Longrightarrow> P x"
  by (simp add: ensures_def)

lemma returns_ensures: "returns m P \<Longrightarrow> ensures m P"
  by (auto simp: returns_def ensures_def)

lemma returnsE: "returns m P \<Longrightarrow> (\<And>x. m = Some x \<Longrightarrow> P x \<Longrightarrow> R) \<Longrightarrow> R"
  by (auto simp: returns_def)

lemma returns_weaken: "returns m P \<Longrightarrow> (\<And>x. P x \<Longrightarrow> Q x) \<Longrightarrow> returns m Q"
  by (auto simp: returns_def)

lemma ensures_weaken: "ensures m P \<Longrightarrow> (\<And>x. P x \<Longrightarrow> Q x) \<Longrightarrow> ensures m Q"
  by (auto simp: ensures_def)

lemma returns_conj: "returns m P \<Longrightarrow> ensures m Q \<Longrightarrow> returns m (\<lambda>x. P x \<and> Q x)"
  by (auto simp: returns_def ensures_def)

lemma returns_ensures_bind:
  "returns m Q \<Longrightarrow> (\<And>x. Q x \<Longrightarrow> m = Some x \<Longrightarrow> returns (f x) P) \<Longrightarrow> returns (Option.bind m f) P"
  by (auto simp: returns_def)

lemma ensures_Some: "P x \<Longrightarrow> ensures (Some x) P"
  by (simp add: ensures_def)

lemma ensures_If: "(b \<Longrightarrow> ensures x P) \<Longrightarrow> (\<not> b \<Longrightarrow> ensures y P) \<Longrightarrow> ensures (if b then x else y) P"
  by simp

lemma ensures_Let: "(\<And>y. y = t \<Longrightarrow> ensures (f y) P) \<Longrightarrow> ensures (Let t f) P"
  by simp

lemma ensures_bind: "(\<And>x. m = Some x \<Longrightarrow> ensures (f x) P) \<Longrightarrow> ensures (Option.bind m f) P"
  by (cases m) (auto simp: ensures_def)

lemma ensures_prod: "(\<And>a b. p = (a, b) \<Longrightarrow> ensures (f a b) P) \<Longrightarrow> ensures (case p of (a, b) \<Rightarrow> f a b) P"
  by (cases p) simp

lemma ensures_sum:
  "(\<And>a. s = Inl a \<Longrightarrow> ensures (f a) P) \<Longrightarrow> (\<And>b. s = Inr b \<Longrightarrow> ensures (g b) P) \<Longrightarrow>
   ensures (case s of Inl a \<Rightarrow> f a | Inr b \<Rightarrow> g b) P"
  by (cases s) simp_all

lemmas ensures_rules = ensures_Some ensures_If ensures_Let ensures_bind ensures_prod ensures_sum

lemma returns_Some: "P x \<Longrightarrow> returns (Some x) P"
  by (simp add: returns_def)

lemma returns_If: "(b \<Longrightarrow> returns x P) \<Longrightarrow> (\<not> b \<Longrightarrow> returns y P) \<Longrightarrow> returns (if b then x else y) P"
  by simp

lemma returns_Let: "(\<And>y. y = t \<Longrightarrow> returns (f y) P) \<Longrightarrow> returns (Let t f) P"
  by simp

lemma returns_div: "b \<noteq> 0 \<Longrightarrow> returns (f (a div b)) P \<Longrightarrow> returns (Option.bind (c_div a b) f) P"
  by simp

lemma returns_mod: "b \<noteq> 0 \<Longrightarrow> returns (f (a mod b)) P \<Longrightarrow> returns (Option.bind (c_mod a b) f) P"
  by simp

lemma returns_prod: "(\<And>a b. p = (a, b) \<Longrightarrow> returns (f a b) P) \<Longrightarrow> returns (case p of (a, b) \<Rightarrow> f a b) P"
  by (cases p) simp

lemma returns_bind: "returns m Q \<Longrightarrow> (\<And>x. Q x \<Longrightarrow> returns (f x) P) \<Longrightarrow> returns (Option.bind m f) P"
  by (auto simp: returns_def)

lemma returns_sum:
  "(\<And>a. s = Inl a \<Longrightarrow> returns (f a) P) \<Longrightarrow> (\<And>b. s = Inr b \<Longrightarrow> returns (g b) P) \<Longrightarrow>
   returns (case s of Inl a \<Rightarrow> f a | Inr b \<Rightarrow> g b) P"
  by (cases s) simp_all

lemmas returns_rules = returns_Some returns_If returns_Let returns_div returns_mod returns_prod

section \<open>Encoders and decoders\<close>

text \<open>
  The contract of an encoder: on the values that fit, the decoder recovers everything the encoding is
  meant to carry (\<open>view\<close>).
\<close>

locale codec =
  fixes enc :: "'a \<Rightarrow> 'b" and dec :: "'b \<Rightarrow> 'c" and ok :: "'a \<Rightarrow> bool" and view :: "'a \<Rightarrow> 'c"
  assumes round_trip: "ok x \<Longrightarrow> dec (enc x) = view x"
begin

lemma enc_inj: "ok x \<Longrightarrow> ok y \<Longrightarrow> enc x = enc y \<Longrightarrow> view x = view y"
  by (metis round_trip)

lemma dec_image: "dec ` enc ` {x. ok x} = view ` {x. ok x}"
  by (auto simp: round_trip image_iff)

end

end
