(* ===== verification/Dsc_Types.thy ===== *)
theory Dsc_Types
  imports Prelude
begin

text \<open>
  Data of the DSC picture-parameter-set generator: the statuses of \<^verbatim>\<open>nvtiming.h\<close>, the capability,
  mode and workaround structs of \<^verbatim>\<open>nvt_dsc_pps.h\<close>, and the private input and output parameter
  structs of \<^verbatim>\<open>nvt_dsc_pps.c\<close>. A C struct is a record with the same fields in the same order; a
  name used by two structs keeps a prefix in one of them (\<open>in_\<close> for \<open>DSC_INPUT_PARAMS\<close>, \<open>gpu_\<close> for
  \<open>GPU_DSC_CAPS\<close>, \<open>forced_\<close> for \<open>FORCED_DSC_PARAMS\<close>). Enumerations whose value the code range-checks
  stay 32-bit words.
\<close>

section \<open>Statuses and enumerations\<close>

datatype NVT_STATUS =
    NVT_STATUS_SUCCESS
  | NVT_STATUS_ERR
  | NVT_STATUS_INVALID_PARAMETER
  | NVT_STATUS_NO_MEMORY
  | NVT_STATUS_COLOR_FORMAT_NOT_SUPPORTED
  | NVT_STATUS_INVALID_HBLANK
  | NVT_STATUS_INVALID_BPC
  | NVT_STATUS_INVALID_BPP
  | NVT_STATUS_MAX_LINE_BUFFER_ERROR
  | NVT_STATUS_OVERALL_THROUGHPUT_ERROR
  | NVT_STATUS_DSC_SLICE_ERROR
  | NVT_STATUS_PPS_SLICE_COUNT_ERROR
  | NVT_STATUS_PPS_SLICE_HEIGHT_ERROR
  | NVT_STATUS_PPS_SLICE_WIDTH_ERROR
  | NVT_STATUS_INVALID_PEAK_THROUGHPUT
  | NVT_STATUS_MIN_SLICE_COUNT_ERROR

text \<open>The numeric value of a status as the C enumeration assigns it.\<close>

primrec nvt_status_code :: "NVT_STATUS \<Rightarrow> NvU32" where
  "nvt_status_code NVT_STATUS_SUCCESS = 0"
| "nvt_status_code NVT_STATUS_ERR = 0x80000000"
| "nvt_status_code NVT_STATUS_INVALID_PARAMETER = 0x80000001"
| "nvt_status_code NVT_STATUS_NO_MEMORY = 0x80000002"
| "nvt_status_code NVT_STATUS_COLOR_FORMAT_NOT_SUPPORTED = 0x80000003"
| "nvt_status_code NVT_STATUS_INVALID_HBLANK = 0x80000004"
| "nvt_status_code NVT_STATUS_INVALID_BPC = 0x80000005"
| "nvt_status_code NVT_STATUS_INVALID_BPP = 0x80000006"
| "nvt_status_code NVT_STATUS_MAX_LINE_BUFFER_ERROR = 0x80000007"
| "nvt_status_code NVT_STATUS_OVERALL_THROUGHPUT_ERROR = 0x80000008"
| "nvt_status_code NVT_STATUS_DSC_SLICE_ERROR = 0x80000009"
| "nvt_status_code NVT_STATUS_PPS_SLICE_COUNT_ERROR = 0x8000000a"
| "nvt_status_code NVT_STATUS_PPS_SLICE_HEIGHT_ERROR = 0x8000000b"
| "nvt_status_code NVT_STATUS_PPS_SLICE_WIDTH_ERROR = 0x8000000c"
| "nvt_status_code NVT_STATUS_INVALID_PEAK_THROUGHPUT = 0x8000000d"
| "nvt_status_code NVT_STATUS_MIN_SLICE_COUNT_ERROR = 0x8000000e"

datatype NVT_COLOR_FORMAT =
    NVT_COLOR_FORMAT_RGB
  | NVT_COLOR_FORMAT_YCbCr422
  | NVT_COLOR_FORMAT_YCbCr444
  | NVT_COLOR_FORMAT_YCbCr420
  | NVT_COLOR_FORMAT_Y
  | NVT_COLOR_FORMAT_RAW
  | NVT_COLOR_FORMAT_INVALID

abbreviation (input) DSC_DP :: NvU32 where "DSC_DP \<equiv> 0"
abbreviation (input) DSC_HDMI :: NvU32 where "DSC_HDMI \<equiv> 1"
abbreviation (input) DSC_DP_SST :: NvU32 where "DSC_DP_SST \<equiv> 0"
abbreviation (input) DSC_DP_MST :: NvU32 where "DSC_DP_MST \<equiv> 1"

section \<open>Capability bits\<close>

abbreviation (input) DSC_DECODER_COLOR_FORMAT_RGB :: NvU32 where "DSC_DECODER_COLOR_FORMAT_RGB \<equiv> 1"
abbreviation (input) DSC_DECODER_COLOR_FORMAT_Y_CB_CR_444 :: NvU32 where "DSC_DECODER_COLOR_FORMAT_Y_CB_CR_444 \<equiv> 2"
abbreviation (input) DSC_DECODER_COLOR_FORMAT_Y_CB_CR_SIMPLE_422 :: NvU32 where "DSC_DECODER_COLOR_FORMAT_Y_CB_CR_SIMPLE_422 \<equiv> 4"
abbreviation (input) DSC_DECODER_COLOR_FORMAT_Y_CB_CR_NATIVE_422 :: NvU32 where "DSC_DECODER_COLOR_FORMAT_Y_CB_CR_NATIVE_422 \<equiv> 8"
abbreviation (input) DSC_DECODER_COLOR_FORMAT_Y_CB_CR_NATIVE_420 :: NvU32 where "DSC_DECODER_COLOR_FORMAT_Y_CB_CR_NATIVE_420 \<equiv> 16"
abbreviation (input) DSC_BITS_PER_PIXEL_PRECISION_1_16 :: NvU32 where "DSC_BITS_PER_PIXEL_PRECISION_1_16 \<equiv> 1"
abbreviation (input) DSC_BITS_PER_PIXEL_PRECISION_1_8 :: NvU32 where "DSC_BITS_PER_PIXEL_PRECISION_1_8 \<equiv> 2"
abbreviation (input) DSC_BITS_PER_PIXEL_PRECISION_1_4 :: NvU32 where "DSC_BITS_PER_PIXEL_PRECISION_1_4 \<equiv> 4"
abbreviation (input) DSC_BITS_PER_PIXEL_PRECISION_1_2 :: NvU32 where "DSC_BITS_PER_PIXEL_PRECISION_1_2 \<equiv> 8"
abbreviation (input) DSC_BITS_PER_PIXEL_PRECISION_1 :: NvU32 where "DSC_BITS_PER_PIXEL_PRECISION_1 \<equiv> 16"
abbreviation (input) DSC_DECODER_SLICES_PER_SINK_INVALID :: NvU32 where "DSC_DECODER_SLICES_PER_SINK_INVALID \<equiv> 0"
abbreviation (input) DSC_DECODER_SLICES_PER_SINK_1 :: NvU32 where "DSC_DECODER_SLICES_PER_SINK_1 \<equiv> 1"
abbreviation (input) DSC_DECODER_SLICES_PER_SINK_2 :: NvU32 where "DSC_DECODER_SLICES_PER_SINK_2 \<equiv> 2"
abbreviation (input) DSC_DECODER_SLICES_PER_SINK_4 :: NvU32 where "DSC_DECODER_SLICES_PER_SINK_4 \<equiv> 8"
abbreviation (input) DSC_DECODER_SLICES_PER_SINK_6 :: NvU32 where "DSC_DECODER_SLICES_PER_SINK_6 \<equiv> 16"
abbreviation (input) DSC_DECODER_SLICES_PER_SINK_8 :: NvU32 where "DSC_DECODER_SLICES_PER_SINK_8 \<equiv> 32"
abbreviation (input) DSC_DECODER_SLICES_PER_SINK_10 :: NvU32 where "DSC_DECODER_SLICES_PER_SINK_10 \<equiv> 64"
abbreviation (input) DSC_DECODER_SLICES_PER_SINK_12 :: NvU32 where "DSC_DECODER_SLICES_PER_SINK_12 \<equiv> 128"
abbreviation (input) DSC_DECODER_SLICES_PER_SINK_16 :: NvU32 where "DSC_DECODER_SLICES_PER_SINK_16 \<equiv> 256"
abbreviation (input) DSC_DECODER_SLICES_PER_SINK_20 :: NvU32 where "DSC_DECODER_SLICES_PER_SINK_20 \<equiv> 512"
abbreviation (input) DSC_DECODER_SLICES_PER_SINK_24 :: NvU32 where "DSC_DECODER_SLICES_PER_SINK_24 \<equiv> 1024"
abbreviation (input) DSC_DECODER_LINE_BUFFER_BIT_DEPTH_MIN :: NvU32 where "DSC_DECODER_LINE_BUFFER_BIT_DEPTH_MIN \<equiv> 8"
abbreviation (input) DSC_DECODER_LINE_BUFFER_BIT_DEPTH_MAX :: NvU32 where "DSC_DECODER_LINE_BUFFER_BIT_DEPTH_MAX \<equiv> 13"
abbreviation (input) DSC_DECODER_COLOR_DEPTH_CAPS_8_BITS :: NvU32 where "DSC_DECODER_COLOR_DEPTH_CAPS_8_BITS \<equiv> 1"
abbreviation (input) DSC_DECODER_COLOR_DEPTH_CAPS_10_BITS :: NvU32 where "DSC_DECODER_COLOR_DEPTH_CAPS_10_BITS \<equiv> 2"
abbreviation (input) DSC_DECODER_COLOR_DEPTH_CAPS_12_BITS :: NvU32 where "DSC_DECODER_COLOR_DEPTH_CAPS_12_BITS \<equiv> 4"
abbreviation (input) DSC_DECODER_COLOR_DEPTH_CAPS_16_BITS :: NvU32 where "DSC_DECODER_COLOR_DEPTH_CAPS_16_BITS \<equiv> 8"
abbreviation (input) DSC_ENCODER_COLOR_FORMAT_RGB :: NvU32 where "DSC_ENCODER_COLOR_FORMAT_RGB \<equiv> 1"
abbreviation (input) DSC_ENCODER_COLOR_FORMAT_Y_CB_CR_444 :: NvU32 where "DSC_ENCODER_COLOR_FORMAT_Y_CB_CR_444 \<equiv> 2"
abbreviation (input) DSC_ENCODER_COLOR_FORMAT_Y_CB_CR_NATIVE_422 :: NvU32 where "DSC_ENCODER_COLOR_FORMAT_Y_CB_CR_NATIVE_422 \<equiv> 4"
abbreviation (input) DSC_ENCODER_COLOR_FORMAT_Y_CB_CR_NATIVE_420 :: NvU32 where "DSC_ENCODER_COLOR_FORMAT_Y_CB_CR_NATIVE_420 \<equiv> 8"

abbreviation (input) NUM_BUF_RANGES :: nat where "NUM_BUF_RANGES \<equiv> 15"
abbreviation (input) BPP_UNIT :: "'a::len word" where "BPP_UNIT \<equiv> 16"
abbreviation (input) OFFSET_FRACTIONAL_BITS :: nat where "OFFSET_FRACTIONAL_BITS \<equiv> 11"
abbreviation (input) PIXELS_PER_GROUP :: NvU32 where "PIXELS_PER_GROUP \<equiv> 3"

section \<open>Public structs\<close>

record DSC_ALGORITHM_REV =
  versionMajor :: NvU32
  versionMinor :: NvU32

record MODESET_INFO =
  pixelClockHz :: NvU64
  activeWidth :: NvU32
  activeHeight :: NvU32
  bitsPerComponent :: NvU32
  colorFormat :: NVT_COLOR_FORMAT
  bDualMode :: NvBool
  bDropMode :: NvBool

record SINK_DSC_CAPS =
  decoderColorFormatMask :: NvU32
  bitsPerPixelPrecision :: NvU32
  maxSliceWidth :: NvU32
  maxNumHztSlices :: NvU32
  sliceCountSupportedMask :: NvU32
  lineBufferBitDepth :: NvU32
  decoderColorDepthCaps :: NvU32
  decoderColorDepthMask :: NvU32
  algorithmRevision :: DSC_ALGORITHM_REV
  bBlockPrediction :: NvBool
  peakThroughputMode0 :: NvU32
  peakThroughputMode1 :: NvU32
  maxBitsPerPixelX16 :: NvU32

record BRANCH_DSC_CAPS =
  overallThroughputMode0 :: NvU32
  overallThroughputMode1 :: NvU32
  maxLineBufferWidth :: NvU32

record GPU_DSC_CAPS =
  encoderColorFormatMask :: NvU32
  lineBufferSize :: NvU32
  gpu_bitsPerPixelPrecision :: NvU32
  gpu_maxNumHztSlices :: NvU32
  gpu_lineBufferBitDepth :: NvU32

record FORCED_DSC_PARAMS =
  forced_sliceCount :: NvU32
  forced_sliceWidth :: NvU32
  forced_sliceHeight :: NvU32
  forced_dscRevision :: DSC_ALGORITHM_REV

record DSC_INFO =
  sinkCaps :: SINK_DSC_CAPS
  branchCaps :: BRANCH_DSC_CAPS
  gpuCaps :: GPU_DSC_CAPS
  forcedDscParams :: FORCED_DSC_PARAMS

record DP_DATA =
  linkRateHz :: NvU64
  laneCount :: NvU32
  dpMode :: NvU32
  hBlank :: NvU32
  bIsEdp :: NvBool
  bDisableDscMaxBppLimit :: NvBool
  bIs128b132bChannelCoding :: NvBool

record WAR_DATA =
  connectorType :: NvU32
  dpData :: DP_DATA

section \<open>Private parameter structs\<close>

record DSC_INPUT_PARAMS =
  in_dsc_version_minor :: "NvU32"
  in_bits_per_component :: "NvU32"
  in_linebuf_depth :: "NvU32"
  in_block_pred_enable :: "NvU32"
  in_convert_rgb :: "NvU32"
  in_bits_per_pixel :: "NvU32"
  in_pic_height :: "NvU32"
  in_pic_width :: "NvU32"
  in_slice_height :: "NvU32"
  in_slice_width :: "NvU32"
  in_slice_num :: "NvU32"
  in_slice_count_mask :: "NvU32"
  in_max_slice_num :: "NvU32"
  in_max_slice_width :: "NvU32"
  in_pixel_clkMHz :: "NvU32"
  in_dual_mode :: "NvU32"
  in_simple_422 :: "NvU32"
  in_native_420 :: "NvU32"
  in_native_422 :: "NvU32"
  in_drop_mode :: "NvU32"
  in_multi_tile :: "NvU32"
  in_peak_throughput_mode0 :: "NvU32"
  in_peak_throughput_mode1 :: "NvU32"
  in_eDP :: "NvU32"

record DSC_OUTPUT_PARAMS =
  dsc_version_major :: "NvU32"
  dsc_version_minor :: "NvU32"
  pps_identifier :: "NvU32"
  bits_per_component :: "NvU32"
  linebuf_depth :: "NvU32"
  block_pred_enable :: "NvU32"
  convert_rgb :: "NvU32"
  simple_422 :: "NvU32"
  vbr_enable :: "NvU32"
  bits_per_pixel :: "NvU32"
  pic_height :: "NvU32"
  pic_width :: "NvU32"
  slice_height :: "NvU32"
  slice_width :: "NvU32"
  chunk_size :: "NvU32"
  initial_xmit_delay :: "NvU32"
  initial_dec_delay :: "NvU32"
  initial_scale_value :: "NvU32"
  scale_increment_interval :: "NvU32"
  scale_decrement_interval :: "NvU32"
  first_line_bpg_offset :: "NvU32"
  nfl_bpg_offset :: "NvU32"
  slice_bpg_offset :: "NvU32"
  initial_offset :: "NvU32"
  final_offset :: "NvU32"
  flatness_min_qp :: "NvU32"
  flatness_max_qp :: "NvU32"
  rc_model_size :: "NvU32"
  rc_edge_factor :: "NvU32"
  rc_quant_incr_limit0 :: "NvU32"
  rc_quant_incr_limit1 :: "NvU32"
  rc_tgt_offset_hi :: "NvU32"
  rc_tgt_offset_lo :: "NvU32"
  rc_buf_thresh :: "NvU32 list"
  range_min_qp :: "NvU32 list"
  range_max_qp :: "NvU32 list"
  range_bpg_offset :: "NvU32 list"
  native_420 :: "NvU32"
  native_422 :: "NvU32"
  second_line_bpg_offset :: "NvU32"
  nsl_bpg_offset :: "NvU32"
  second_line_offset_adj :: "NvU32"
  slice_num :: "NvU32"
  groups_per_line :: "NvU32"
  num_extra_mux_bits :: "NvU32"
  flatness_det_thresh :: "NvU32"

text \<open>The caller's scratch area: both halves are cleared before the generator reads them.\<close>

record DSC_GENERATE_PPS_WORKAREA =
  wa_in :: DSC_INPUT_PARAMS
  wa_out :: DSC_OUTPUT_PARAMS

text \<open>The structs after \<^verbatim>\<open>NVMISC_MEMSET(p, 0, sizeof(*p))\<close>.\<close>

definition zero_input :: DSC_INPUT_PARAMS where
  "zero_input = \<lparr> in_dsc_version_minor = 0,
     in_bits_per_component = 0,
     in_linebuf_depth = 0,
     in_block_pred_enable = 0,
     in_convert_rgb = 0,
     in_bits_per_pixel = 0,
     in_pic_height = 0,
     in_pic_width = 0,
     in_slice_height = 0,
     in_slice_width = 0,
     in_slice_num = 0,
     in_slice_count_mask = 0,
     in_max_slice_num = 0,
     in_max_slice_width = 0,
     in_pixel_clkMHz = 0,
     in_dual_mode = 0,
     in_simple_422 = 0,
     in_native_420 = 0,
     in_native_422 = 0,
     in_drop_mode = 0,
     in_multi_tile = 0,
     in_peak_throughput_mode0 = 0,
     in_peak_throughput_mode1 = 0,
     in_eDP = 0\<rparr>"

definition zero_output :: DSC_OUTPUT_PARAMS where
  "zero_output = \<lparr>dsc_version_major = 0,
     dsc_version_minor = 0,
     pps_identifier = 0,
     bits_per_component = 0,
     linebuf_depth = 0,
     block_pred_enable = 0,
     convert_rgb = 0,
     simple_422 = 0,
     vbr_enable = 0,
     bits_per_pixel = 0,
     pic_height = 0,
     pic_width = 0,
     slice_height = 0,
     slice_width = 0,
     chunk_size = 0,
     initial_xmit_delay = 0,
     initial_dec_delay = 0,
     initial_scale_value = 0,
     scale_increment_interval = 0,
     scale_decrement_interval = 0,
     first_line_bpg_offset = 0,
     nfl_bpg_offset = 0,
     slice_bpg_offset = 0,
     initial_offset = 0,
     final_offset = 0,
     flatness_min_qp = 0,
     flatness_max_qp = 0,
     rc_model_size = 0,
     rc_edge_factor = 0,
     rc_quant_incr_limit0 = 0,
     rc_quant_incr_limit1 = 0,
     rc_tgt_offset_hi = 0,
     rc_tgt_offset_lo = 0,
     rc_buf_thresh = replicate 14 0,
     range_min_qp = replicate 15 0,
     range_max_qp = replicate 15 0,
     range_bpg_offset = replicate 15 0,
     native_420 = 0,
     native_422 = 0,
     second_line_bpg_offset = 0,
     nsl_bpg_offset = 0,
     second_line_offset_adj = 0,
     slice_num = 0,
     groups_per_line = 0,
     num_extra_mux_bits = 0,
     flatness_det_thresh = 0\<rparr>"

end
