(* ===== verification/Dsc_Rate.thy ===== *)
theory Dsc_Rate
  imports Dsc_Tables
begin

text \<open>
  Rate-control arithmetic of the picture parameter set: \<open>DSC_AlignDownForBppPrecision\<close>,
  \<open>DSC_PpsCalcExtraBits\<close>, \<open>DSC_PpsCalcRcInitValue\<close>, \<open>DSC_PpsCalcComputeOffset\<close>, \<open>DSC_PpsCalcBpg\<close>,
  \<open>DSC_PpsCalcScaleInterval\<close> and their composition \<open>DSC_PpsCheckSliceHeight\<close>. Each function passes the
  output struct through; every early return hands back the struct as it was at that point.
\<close>

type_synonym pps_step = "DSC_OUTPUT_PARAMS \<Rightarrow> (NVT_STATUS \<times> DSC_OUTPUT_PARAMS) option"

section \<open>Definitions\<close>

definition DSC_AlignDownForBppPrecision :: "NvU32 \<Rightarrow> NvU32 \<Rightarrow> NvU32" where
  "DSC_AlignDownForBppPrecision bpp precision =
     (let alignDown =
        (if precision = DSC_BITS_PER_PIXEL_PRECISION_1_16 then 1
         else if precision = DSC_BITS_PER_PIXEL_PRECISION_1_8 then 2
         else if precision = DSC_BITS_PER_PIXEL_PRECISION_1_4 then 4
         else if precision = DSC_BITS_PER_PIXEL_PRECISION_1_2 then 8
         else if precision = DSC_BITS_PER_PIXEL_PRECISION_1 then 16
         else 16)
      in bpp AND NOT (alignDown - 1))"

definition mux_word_size :: "DSC_OUTPUT_PARAMS \<Rightarrow> NvU32" where
  "mux_word_size out = (if bits_per_component out \<ge> 12 then 64 else 48)"

text \<open>The mux bits a slice needs before they are trimmed to the mux word grid.\<close>

definition extra_bits_budget :: "DSC_OUTPUT_PARAMS \<Rightarrow> NvU32" where
  "extra_bits_budget out =
     (let numSsps = (if native_422 out \<noteq> 0 then 4 else 3);
          bpc = bits_per_component out;
          muxWordSize = mux_word_size out
      in if convert_rgb out \<noteq> 0 then numSsps * (muxWordSize + (4 * bpc + 4) - 2)
         else if native_422 out = 0
              then numSsps * muxWordSize + (4 * bpc + 4) + 2 * (4 * bpc) - 2
         else numSsps * muxWordSize + (4 * bpc + 4) + 3 * (4 * bpc) - 2)"

definition DSC_PpsCalcExtraBits :: pps_step where
  "DSC_PpsCalcExtraBits out =
     (let extra_bits = extra_bits_budget out;
          muxWordSize = mux_word_size out;
          sliceBits = 8 * chunk_size out * slice_height out;
          rest = (sliceBits - extra_bits) mod muxWordSize;
          extra_bits = (if rest \<noteq> 0 then extra_bits - C_MIN extra_bits (muxWordSize - rest)
                        else extra_bits)
      in Some (NVT_STATUS_SUCCESS, out\<lparr>num_extra_mux_bits := extra_bits\<rparr>))"

definition rc_initial_offset :: "NvU32 \<Rightarrow> NvU32 \<Rightarrow> NvU32" where
  "rc_initial_offset native422 bpp =
     (if native422 \<noteq> 0 then
        (if bpp \<ge> 16 * BPP_UNIT then 2048
         else if bpp \<ge> 14 * BPP_UNIT
              then 5632 - ((bpp - 14 * BPP_UNIT) * 1792 + BPP_UNIT div 2) div BPP_UNIT
         else 5632)
      else
        (if bpp \<ge> 12 * BPP_UNIT then 2048
         else if bpp \<ge> 10 * BPP_UNIT
              then 5632 - ((bpp - 10 * BPP_UNIT) * 1792 + BPP_UNIT div 2) div BPP_UNIT
         else if bpp \<ge> 8 * BPP_UNIT
              then 6144 - ((bpp - 8 * BPP_UNIT) * 256 + BPP_UNIT div 2) div BPP_UNIT
         else 6144))"

text \<open>
  The transmission delay before the range check; in the native 4:2:x modes it is moved off the
  pixel position that would split a group.
\<close>

definition rc_xmit_delay :: "DSC_OUTPUT_PARAMS \<Rightarrow> NvU32 option" where
  "rc_xmit_delay out = do {
     let bpp = bits_per_pixel out;
     xmit_delay \<leftarrow> c_div (4096 * BPP_UNIT + bpp div 2) bpp;
     (if native_420 out \<noteq> 0 \<or> native_422 out \<noteq> 0 then do {
        let slicew = slice_width out div 2;
        lines \<leftarrow> c_div xmit_delay slicew;
        let padding_pixels = (if slicew mod 3 \<noteq> 0 then 3 - slicew mod 3 else 0) * lines;
        Some (if 3 * bpp \<ge> ((xmit_delay + 2) div 3) * (if native_422 out \<noteq> 0 then 4 else 3) * BPP_UNIT
                 \<and> (xmit_delay + padding_pixels) mod 3 = 1
              then xmit_delay + 1 else xmit_delay)
      }
      else Some xmit_delay)
   }"

definition DSC_PpsCalcRcInitValue :: pps_step where
  "DSC_PpsCalcRcInitValue out0 =
     (let out = out0\<lparr>rc_model_size := 8192,
                     initial_offset := rc_initial_offset (native_422 out0) (bits_per_pixel out0)\<rparr>
      in if \<not> RANGE_CHECK (initial_offset out) 0 (rc_model_size out) then Some (NVT_STATUS_ERR, out)
      else do {
        scale \<leftarrow> c_div (8 * rc_model_size out) (rc_model_size out - initial_offset out);
        let out = out\<lparr>initial_scale_value :=
          (if groups_per_line out < scale - 8 then groups_per_line out + 8 else scale)\<rparr>;
        if \<not> RANGE_CHECK (initial_scale_value out) 0 63 then Some (NVT_STATUS_ERR, out)
        else do {
          xmit_delay \<leftarrow> rc_xmit_delay out;
          let out = out\<lparr>initial_xmit_delay := xmit_delay\<rparr>;
          Some (if \<not> RANGE_CHECK (initial_xmit_delay out) 0 1023 then (NVT_STATUS_ERR, out)
                else (NVT_STATUS_SUCCESS, out))
        }
      })"

definition DSC_PpsCalcComputeOffset :: "DSC_OUTPUT_PARAMS \<Rightarrow> NvU32 \<Rightarrow> NvU32" where
  "DSC_PpsCalcComputeOffset out grpcnt =
     (let groupsPerLine = groups_per_line out;
          grpcnt_id = (initial_xmit_delay out + PIXELS_PER_GROUP - 1) div PIXELS_PER_GROUP;
          offset =
            (if grpcnt \<le> grpcnt_id
             then (grpcnt * PIXELS_PER_GROUP * bits_per_pixel out + BPP_UNIT - 1) div BPP_UNIT
             else (grpcnt_id * PIXELS_PER_GROUP * bits_per_pixel out + BPP_UNIT - 1) div BPP_UNIT
                  - drop_bit OFFSET_FRACTIONAL_BITS ((grpcnt - grpcnt_id) * slice_bpg_offset out));
          offset = offset +
            (if grpcnt \<le> groupsPerLine then grpcnt * first_line_bpg_offset out
             else groupsPerLine * first_line_bpg_offset out
                  - drop_bit OFFSET_FRACTIONAL_BITS ((grpcnt - groupsPerLine) * nfl_bpg_offset out))
      in if native_420 out \<noteq> 0 then
           (if grpcnt \<le> groupsPerLine
            then offset - drop_bit OFFSET_FRACTIONAL_BITS (grpcnt * nsl_bpg_offset out)
            else if grpcnt \<le> 2 * groupsPerLine
            then offset + ((grpcnt - groupsPerLine) * second_line_bpg_offset out
                   - drop_bit OFFSET_FRACTIONAL_BITS (groupsPerLine * nsl_bpg_offset out))
            else offset + ((grpcnt - groupsPerLine) * second_line_bpg_offset out
                   - drop_bit OFFSET_FRACTIONAL_BITS ((grpcnt - groupsPerLine) * nsl_bpg_offset out)))
         else offset)"

definition bpg_upper_bound :: "DSC_OUTPUT_PARAMS \<Rightarrow> NvU32" where
  "bpg_upper_bound out =
     (let uncompressedBpgRate =
        (if native_422 out \<noteq> 0 then PIXELS_PER_GROUP * bits_per_component out * 4
         else (3 * bits_per_component out + (if convert_rgb out \<noteq> 0 then 2 else 0)) * PIXELS_PER_GROUP)
      in (uncompressedBpgRate * BPP_UNIT - PIXELS_PER_GROUP * bits_per_pixel out) div BPP_UNIT)"

definition bpg_first_line :: "DSC_OUTPUT_PARAMS \<Rightarrow> NvU32" where
  "bpg_first_line out =
     (if slice_height out \<ge> 8 then 12 + C_MIN 34 (slice_height out - 8) * 9 div 100
      else 2 * (slice_height out - 1))"

text \<open>Bits taken back from every group after the line that received \<open>offset\<close> extra bits per group.\<close>

definition bpg_spread :: "DSC_OUTPUT_PARAMS \<Rightarrow> NvU32 \<Rightarrow> NvU32 \<Rightarrow> NvU32 option" where
  "bpg_spread out line offset =
     (if slice_height out > line
      then c_div (push_bit OFFSET_FRACTIONAL_BITS offset + slice_height out - 2) (slice_height out - 1)
      else Some 0)"

text \<open>The smallest rate buffer the stream needs: by sampling in the native 4:2:x modes of DSC 1.2.\<close>

definition bpg_rbs_min :: "DSC_OUTPUT_PARAMS \<Rightarrow> NvU32" where
  "bpg_rbs_min out =
     (if (dsc_version_major out > 1 \<or> (dsc_version_major out = 1 \<and> dsc_version_minor out \<ge> 2))
         \<and> (native_420 out \<noteq> 0 \<or> native_422 out \<noteq> 0) then
        (let maxOffset = DSC_PpsCalcComputeOffset out
               ((initial_xmit_delay out + PIXELS_PER_GROUP - 1) div PIXELS_PER_GROUP);
             maxOffset = C_MAX maxOffset (DSC_PpsCalcComputeOffset out (groups_per_line out));
             maxOffset = C_MAX maxOffset (DSC_PpsCalcComputeOffset out (2 * groups_per_line out))
         in rc_model_size out - initial_offset out + maxOffset)
      else rc_model_size out - initial_offset out
           + (initial_xmit_delay out * bits_per_pixel out + BPP_UNIT - 1) div BPP_UNIT
           + groups_per_line out * first_line_bpg_offset out)"

definition bpg_decode_delay :: pps_step where
  "bpg_decode_delay out = do {
     hrdDelay \<leftarrow> c_div (bpg_rbs_min out * BPP_UNIT + bits_per_pixel out - 1) (bits_per_pixel out);
     let out = out\<lparr>initial_dec_delay := hrdDelay - initial_xmit_delay out\<rparr>;
     Some (if \<not> RANGE_CHECK (initial_dec_delay out) 0 65535 then (NVT_STATUS_ERR, out)
           else (NVT_STATUS_SUCCESS, out))
   }"

definition bpg_slice_offset :: pps_step where
  "bpg_slice_offset out = do {
     let groups_total = groups_per_line out * slice_height out;
     offset \<leftarrow> c_div (push_bit OFFSET_FRACTIONAL_BITS
                 (rc_model_size out - initial_offset out + num_extra_mux_bits out)
               + groups_total - 1) groups_total;
     let out = out\<lparr>slice_bpg_offset := offset\<rparr>;
     if \<not> RANGE_CHECK (slice_bpg_offset out) 0 65535 then Some (NVT_STATUS_ERR, out)
     else if push_bit OFFSET_FRACTIONAL_BITS (PIXELS_PER_GROUP * bits_per_pixel out)
             - (slice_bpg_offset out + nfl_bpg_offset out) * BPP_UNIT
             < push_bit OFFSET_FRACTIONAL_BITS ((1 + 5 * PIXELS_PER_GROUP) * BPP_UNIT)
     then Some (NVT_STATUS_ERR, out)
     else bpg_decode_delay out
   }"

definition DSC_PpsCalcBpg :: pps_step where
  "DSC_PpsCalcBpg out0 =
     (let ub_BpgOfs = bpg_upper_bound out0;
          out = out0\<lparr>first_line_bpg_offset := CLAMP (bpg_first_line out0) 0 ub_BpgOfs\<rparr>
      in if \<not> RANGE_CHECK (first_line_bpg_offset out) 0 31 then Some (NVT_STATUS_ERR, out)
      else do {
        nfl \<leftarrow> bpg_spread out 1 (first_line_bpg_offset out);
        let out = out\<lparr>nfl_bpg_offset := nfl\<rparr>;
        if \<not> RANGE_CHECK (nfl_bpg_offset out) 0 65535 then Some (NVT_STATUS_ERR, out)
        else do {
          let out = out\<lparr>second_line_bpg_offset :=
                CLAMP (if native_420 out \<noteq> 0 then 12 else 0) 0 ub_BpgOfs\<rparr>;
          if \<not> RANGE_CHECK (second_line_bpg_offset out) 0 31 then Some (NVT_STATUS_ERR, out)
          else do {
            nsl \<leftarrow> bpg_spread out 2 (second_line_bpg_offset out);
            let out = out\<lparr>nsl_bpg_offset := nsl\<rparr>;
            if \<not> RANGE_CHECK (nsl_bpg_offset out) 0 65535 then Some (NVT_STATUS_ERR, out)
            else bpg_slice_offset
                   (out\<lparr>second_line_offset_adj := (if native_420 out \<noteq> 0 then 512 else 0)\<rparr>)
          }
        }
      })"

definition DSC_PpsCalcScaleInterval :: pps_step where
  "DSC_PpsCalcScaleInterval out0 =
     (let out = out0\<lparr>final_offset :=
            rc_model_size out0
            - (initial_xmit_delay out0 * bits_per_pixel out0 + 8) div BPP_UNIT
            + num_extra_mux_bits out0\<rparr>
      in if \<not> RANGE_CHECK (final_offset out) 0 (rc_model_size out - 1) then Some (NVT_STATUS_ERR, out)
      else do {
        final_scale \<leftarrow> c_div (8 * rc_model_size out) (rc_model_size out - final_offset out);
        if \<not> RANGE_CHECK final_scale 0 63 then Some (NVT_STATUS_ERR, out)
        else do {
          interval \<leftarrow> (if final_scale > 9
            then c_div (push_bit OFFSET_FRACTIONAL_BITS (final_offset out))
                   ((final_scale - 9) *
                    (nfl_bpg_offset out + slice_bpg_offset out + nsl_bpg_offset out))
            else Some 0);
          let out = out\<lparr>scale_increment_interval := interval\<rparr>;
          if final_scale > 9 \<and> \<not> RANGE_CHECK (scale_increment_interval out) 0 65535
          then Some (NVT_STATUS_ERR, out)
          else do {
            decrement \<leftarrow> (if initial_scale_value out > 8
              then c_div (groups_per_line out) (initial_scale_value out - 8)
              else Some 4095);
            let out = out\<lparr>scale_decrement_interval := decrement\<rparr>;
            Some (if \<not> RANGE_CHECK (scale_decrement_interval out) 1 4095
                  then (NVT_STATUS_ERR, out) else (NVT_STATUS_SUCCESS, out))
          }
        }
      })"

definition DSC_PpsCheckSliceHeight :: pps_step where
  "DSC_PpsCheckSliceHeight out = do {
     (status, out) \<leftarrow> DSC_PpsCalcExtraBits out;
     if status \<noteq> NVT_STATUS_SUCCESS then Some (NVT_STATUS_ERR, out)
     else do {
       (status, out) \<leftarrow> DSC_PpsCalcBpg out;
       if status \<noteq> NVT_STATUS_SUCCESS then Some (NVT_STATUS_ERR, out)
       else DSC_PpsCalcScaleInterval out
     }
   }"

section \<open>Fields the checks leave alone\<close>

text \<open>
  \<open>DSC_PpsCheckSliceHeight\<close> writes derived fields only. The geometry it is called for, the mode bits
  and the initial rate-control values are the same afterwards, on success and on failure, so a
  caller may call it again for another slice height.
\<close>

definition same_basis :: "DSC_OUTPUT_PARAMS \<Rightarrow> DSC_OUTPUT_PARAMS \<Rightarrow> bool" where
  "same_basis a b \<longleftrightarrow>
     dsc_version_major a = dsc_version_major b \<and> dsc_version_minor a = dsc_version_minor b \<and>
     pps_identifier a = pps_identifier b \<and> bits_per_component a = bits_per_component b \<and>
     linebuf_depth a = linebuf_depth b \<and> block_pred_enable a = block_pred_enable b \<and>
     convert_rgb a = convert_rgb b \<and> simple_422 a = simple_422 b \<and> vbr_enable a = vbr_enable b \<and>
     bits_per_pixel a = bits_per_pixel b \<and> pic_height a = pic_height b \<and> pic_width a = pic_width b \<and>
     slice_height a = slice_height b \<and> slice_width a = slice_width b \<and> chunk_size a = chunk_size b \<and>
     initial_xmit_delay a = initial_xmit_delay b \<and> initial_scale_value a = initial_scale_value b \<and>
     initial_offset a = initial_offset b \<and> rc_model_size a = rc_model_size b \<and>
     native_420 a = native_420 b \<and> native_422 a = native_422 b \<and> slice_num a = slice_num b \<and>
     groups_per_line a = groups_per_line b"

lemma same_basis_refl [simp]: "same_basis a a"
  by (simp add: same_basis_def)

lemma same_basis_trans [trans]: "same_basis a b \<Longrightarrow> same_basis b c \<Longrightarrow> same_basis a c"
  by (simp add: same_basis_def)

lemma same_basis_updates [simp]:
  "same_basis a (b\<lparr>num_extra_mux_bits := x\<rparr>) = same_basis a b"
  "same_basis a (b\<lparr>first_line_bpg_offset := x\<rparr>) = same_basis a b"
  "same_basis a (b\<lparr>nfl_bpg_offset := x\<rparr>) = same_basis a b"
  "same_basis a (b\<lparr>second_line_bpg_offset := x\<rparr>) = same_basis a b"
  "same_basis a (b\<lparr>nsl_bpg_offset := x\<rparr>) = same_basis a b"
  "same_basis a (b\<lparr>second_line_offset_adj := x\<rparr>) = same_basis a b"
  "same_basis a (b\<lparr>slice_bpg_offset := x\<rparr>) = same_basis a b"
  "same_basis a (b\<lparr>initial_dec_delay := x\<rparr>) = same_basis a b"
  "same_basis a (b\<lparr>final_offset := x\<rparr>) = same_basis a b"
  "same_basis a (b\<lparr>scale_increment_interval := x\<rparr>) = same_basis a b"
  "same_basis a (b\<lparr>scale_decrement_interval := x\<rparr>) = same_basis a b"
  "same_basis (a\<lparr>num_extra_mux_bits := x\<rparr>) b = same_basis a b"
  "same_basis (a\<lparr>first_line_bpg_offset := x\<rparr>) b = same_basis a b"
  "same_basis (a\<lparr>nfl_bpg_offset := x\<rparr>) b = same_basis a b"
  "same_basis (a\<lparr>second_line_bpg_offset := x\<rparr>) b = same_basis a b"
  "same_basis (a\<lparr>nsl_bpg_offset := x\<rparr>) b = same_basis a b"
  "same_basis (a\<lparr>second_line_offset_adj := x\<rparr>) b = same_basis a b"
  "same_basis (a\<lparr>slice_bpg_offset := x\<rparr>) b = same_basis a b"
  "same_basis (a\<lparr>initial_dec_delay := x\<rparr>) b = same_basis a b"
  "same_basis (a\<lparr>final_offset := x\<rparr>) b = same_basis a b"
  "same_basis (a\<lparr>scale_increment_interval := x\<rparr>) b = same_basis a b"
  "same_basis (a\<lparr>scale_decrement_interval := x\<rparr>) b = same_basis a b"
  by (simp_all add: same_basis_def)

lemma DSC_PpsCalcExtraBits_basis:
  "ensures (DSC_PpsCalcExtraBits out) (\<lambda>r. same_basis out (snd r))"
  unfolding DSC_PpsCalcExtraBits_def by ((rule ensures_rules)+, simp)

lemma bpg_decode_delay_basis: "ensures (bpg_decode_delay out) (\<lambda>r. same_basis out (snd r))"
  unfolding bpg_decode_delay_def by ((rule ensures_rules)+, simp)

lemma bpg_slice_offset_basis: "ensures (bpg_slice_offset out) (\<lambda>r. same_basis out (snd r))"
  unfolding bpg_slice_offset_def
  by (rule ensures_rules ensures_weaken [OF bpg_decode_delay_basis] | simp)+

lemma DSC_PpsCalcBpg_basis: "ensures (DSC_PpsCalcBpg out) (\<lambda>r. same_basis out (snd r))"
  unfolding DSC_PpsCalcBpg_def
  by (rule ensures_rules ensures_weaken [OF bpg_slice_offset_basis] | simp)+

lemma DSC_PpsCalcScaleInterval_basis:
  "ensures (DSC_PpsCalcScaleInterval out) (\<lambda>r. same_basis out (snd r))"
  unfolding DSC_PpsCalcScaleInterval_def by (rule ensures_rules | simp)+

lemma DSC_PpsCheckSliceHeight_basis:
  "ensures (DSC_PpsCheckSliceHeight out) (\<lambda>r. same_basis out (snd r))"
proof -
  have trans: "ensures m (\<lambda>r. same_basis b (snd r)) \<Longrightarrow> same_basis a b \<Longrightarrow>
      ensures m (\<lambda>r. same_basis a (snd r))" for m :: "(NVT_STATUS \<times> DSC_OUTPUT_PARAMS) option" and a b
    by (erule ensures_weaken) (rule same_basis_trans)
  show ?thesis
    unfolding DSC_PpsCheckSliceHeight_def
    by (rule ensures_rules
        | fastforce dest!: ensuresD [OF DSC_PpsCalcExtraBits_basis] ensuresD [OF DSC_PpsCalcBpg_basis]
            intro: trans [OF DSC_PpsCalcScaleInterval_basis] same_basis_trans)+
qed

section \<open>Alignment of bits per pixel\<close>

definition bpp_step :: "NvU32 \<Rightarrow> nat" where
  "bpp_step precision = (if precision \<in> {1, 2, 4, 8} then unat precision else 16)"

lemma DSC_AlignDownForBppPrecision_unat:
  "unat (DSC_AlignDownForBppPrecision bpp precision) = unat bpp - unat bpp mod bpp_step precision"
  using and_not_mask_unat [of bpp 0] and_not_mask_unat [of bpp 1] and_not_mask_unat [of bpp 2]
    and_not_mask_unat [of bpp 3] and_not_mask_unat [of bpp 4]
  by (simp add: DSC_AlignDownForBppPrecision_def bpp_step_def)

section \<open>The mux-bit loop\<close>

text \<open>
  The loop \<^verbatim>\<open>while ((extra_bits>0) && ((sliceBits - extra_bits) % muxWordSize)) extra_bits--\<close> that the
  source keeps as a comment beside its closed form.
\<close>

function extra_bits_loop :: "NvU32 \<Rightarrow> NvU32 \<Rightarrow> NvU32 \<Rightarrow> NvU32" where
  "extra_bits_loop sliceBits muxWordSize extra_bits =
     (if extra_bits > 0 \<and> (sliceBits - extra_bits) mod muxWordSize \<noteq> 0
      then extra_bits_loop sliceBits muxWordSize (extra_bits - 1) else extra_bits)"
  by pat_completeness auto
termination
  by (relation "measure (\<lambda>(s, m, e). unat e)") (auto simp: unat_sub_nowrap word_less_nat_alt Suc_le_eq)

declare extra_bits_loop.simps [simp del]

lemma extra_bits_loop_nat:
  "m \<noteq> 0 \<Longrightarrow> e \<le> s \<Longrightarrow> unat (extra_bits_loop s m e) =
    unat e - min (unat e) ((unat m - (unat s - unat e) mod unat m) mod unat m)"
proof (induction s m e rule: extra_bits_loop.induct)
  case (1 s m e)
  have rest: "unat ((s - e) mod m) = (unat s - unat e) mod unat m"
    using 1(3) by (simp add: unat_sub_nowrap word_le_nat_alt)
  show ?case
  proof (cases "e > 0 \<and> (s - e) mod m \<noteq> 0")
    case True
    then have e: "0 < unat e" and r: "(unat s - unat e) mod unat m \<noteq> 0"
      using rest by (auto simp: word_less_nat_alt unat_eq_zero_iff [symmetric])
    have e1: "unat (e - 1) = unat e - 1"
      using e by (simp add: unat_sub_nowrap)
    then have le: "e - 1 \<le> s"
      using 1(3) by (simp add: word_le_nat_alt)
    have "unat s - (unat e - 1) = Suc (unat s - unat e)"
      using e 1(3) by (simp add: word_le_nat_alt)
    moreover define d where "d = (unat m - (unat s - unat e) mod unat m) mod unat m"
    moreover have "0 < unat m" using 1(2) by (simp add: unat_gt_0)
    ultimately have "unat (extra_bits_loop s m (e - 1)) = (unat e - 1) - min (unat e - 1) (d - 1)"
      and "0 < d"
      using 1(1) [OF True 1(2) le] distance_to_multiple_step [OF r] by (simp_all only: e1)
    moreover have "extra_bits_loop s m e = extra_bits_loop s m (e - 1)"
      using True by (subst extra_bits_loop.simps) (rule if_P)
    ultimately show ?thesis unfolding d_def [symmetric] using e by (simp add: min_def; arith)
  next
    case False
    then have "e = 0 \<or> (unat s - unat e) mod unat m = 0"
      using rest by (metis unat_0 word_gt_0)
    moreover have "extra_bits_loop s m e = e"
      using False by (subst extra_bits_loop.simps) (rule if_not_P)
    ultimately show ?thesis by auto
  qed
qed

lemma mux_word_size_cases: "mux_word_size out = 48 \<or> mux_word_size out = 64"
  by (simp add: mux_word_size_def)

section \<open>The slice-height checks return and bound their results\<close>

text \<open>What the stages before have established, and the ranges of the fields the checks write.\<close>

definition rate_ready :: "DSC_OUTPUT_PARAMS \<Rightarrow> bool" where
  "rate_ready out \<longleftrightarrow>
     bits_per_pixel out \<noteq> 0 \<and> 1 \<le> unat (groups_per_line out) \<and> unat (groups_per_line out) \<le> 21846 \<and>
     1 \<le> unat (slice_height out) \<and> unat (slice_height out) \<le> 16384 \<and> rc_model_size out = 8192 \<and>
     2048 \<le> unat (initial_offset out) \<and> unat (initial_offset out) \<le> 6144 \<and>
     bits_per_component out \<in> {8, 10, 12}"

definition bpg_fields_ok :: "DSC_OUTPUT_PARAMS \<Rightarrow> bool" where
  "bpg_fields_ok out \<longleftrightarrow>
     unat (first_line_bpg_offset out) \<le> 31 \<and> unat (nfl_bpg_offset out) \<le> 65535 \<and>
     unat (second_line_bpg_offset out) \<le> 31 \<and> unat (nsl_bpg_offset out) \<le> 65535 \<and>
     unat (slice_bpg_offset out) \<le> 65535 \<and> unat (initial_dec_delay out) \<le> 65535 \<and>
     unat (second_line_offset_adj out) \<le> 512"

definition scale_fields_ok :: "DSC_OUTPUT_PARAMS \<Rightarrow> bool" where
  "scale_fields_ok out \<longleftrightarrow>
     unat (final_offset out) \<le> 8191 \<and> unat (scale_increment_interval out) \<le> 65535 \<and>
     1 \<le> unat (scale_decrement_interval out) \<and> unat (scale_decrement_interval out) \<le> 4095"

lemma rate_ready_updates [simp]:
  "rate_ready (b\<lparr>num_extra_mux_bits := x\<rparr>) = rate_ready b"
  "rate_ready (b\<lparr>first_line_bpg_offset := x\<rparr>) = rate_ready b"
  "rate_ready (b\<lparr>nfl_bpg_offset := x\<rparr>) = rate_ready b"
  "rate_ready (b\<lparr>second_line_bpg_offset := x\<rparr>) = rate_ready b"
  "rate_ready (b\<lparr>nsl_bpg_offset := x\<rparr>) = rate_ready b"
  "rate_ready (b\<lparr>second_line_offset_adj := x\<rparr>) = rate_ready b"
  "rate_ready (b\<lparr>slice_bpg_offset := x\<rparr>) = rate_ready b"
  by (simp_all add: rate_ready_def)

lemma extra_bits_budget_le:
  "bits_per_component out \<in> {8, 10, 12} \<Longrightarrow> unat (extra_bits_budget out) \<le> 512"
  unfolding extra_bits_budget_def mux_word_size_def by (elim insertE emptyE) (simp_all add: Let_def)

lemma DSC_PpsCalcExtraBits_le:
  assumes "bits_per_component out \<in> {8, 10, 12}"
  shows "returns (DSC_PpsCalcExtraBits out)
    (\<lambda>r. fst r = NVT_STATUS_SUCCESS \<and> unat (num_extra_mux_bits (snd r)) \<le> 512)"
proof -
  have "unat (extra_bits_budget out - C_MIN (extra_bits_budget out) x) \<le> 512" for x
    using extra_bits_budget_le [OF assms] by (subst unat_sub_nowrap) simp_all
  then show ?thesis
    using extra_bits_budget_le [OF assms]
    by (auto simp: DSC_PpsCalcExtraBits_def Let_def intro!: returns_Some)
qed

text \<open>The bits taken from each group are at least one.\<close>

lemma slice_bpg_offset_pos:
  assumes "rate_ready out" "unat (num_extra_mux_bits out) \<le> 512"
  defines "gt \<equiv> groups_per_line out * slice_height out"
  shows "gt \<noteq> 0" and
    "1 \<le> unat ((push_bit 11 (rc_model_size out - initial_offset out + num_extra_mux_bits out) + gt - 1) div gt)"
proof -
  note R = assms(1) [unfolded rate_ready_def]
  have "unat (groups_per_line out) * unat (slice_height out) \<le> 21846 * 16384"
    using R by (intro mult_le_mono) simp_all
  then have t: "unat gt = unat (groups_per_line out) * unat (slice_height out)" "unat gt \<le> 21846 * 16384"
    unfolding gt_def by (subst unat_mult_nowrap; simp)+
  have pos: "1 \<le> unat gt" unfolding t(1) using R by (metis mult_le_mono nat_mult_1)
  then show nz: "gt \<noteq> 0" by auto
  have a: "unat (rc_model_size out - initial_offset out) = 8192 - unat (initial_offset out)"
    using R by (simp add: unat_sub_nowrap)
  then have b: "unat (rc_model_size out - initial_offset out + num_extra_mux_bits out) =
      8192 - unat (initial_offset out) + unat (num_extra_mux_bits out)"
    using assms(2) by (subst unat_add_nowrap) simp_all
  let ?n = "push_bit 11 (rc_model_size out - initial_offset out + num_extra_mux_bits out)"
  have n: "unat ?n = 2048 * (8192 - unat (initial_offset out) + unat (num_extra_mux_bits out))"
    using assms(2) b R by (subst unat_push_bit_11) simp_all
  moreover have "unat (initial_offset out) \<le> 6144" using R by simp
  ultimately have n': "1 \<le> unat ?n" "unat ?n \<le> 2048 * (8192 + 512)" using assms(2) by simp_all
  have "\<not> unat ((?n + gt - 1) div gt) \<le> 0"
    using n' t(2) nz by (subst unat_ceil_div_le_iff) simp_all
  then show "1 \<le> unat ((?n + gt - 1) div gt)" by simp
qed

lemma bpg_spread_returns:
  assumes "l \<noteq> 0"
  shows "returns (bpg_spread out l x) (\<lambda>_. True)"
proof -
  have "slice_height out - 1 \<noteq> 0" if "slice_height out > l"
    using that assms unat_gt_0 [of l] by (auto simp: word_less_nat_alt)
  then show ?thesis
    by (auto simp: bpg_spread_def returns_def)
qed

lemma bpg_decode_delay_ok:
  assumes "bits_per_pixel out \<noteq> 0" "bpg_fields_ok (out\<lparr>initial_dec_delay := 0\<rparr>)" "1 \<le> unat (slice_bpg_offset out)"
  shows "returns (bpg_decode_delay out) (\<lambda>r. fst r = NVT_STATUS_SUCCESS \<longrightarrow>
      bpg_fields_ok (snd r) \<and> 1 \<le> unat (slice_bpg_offset (snd r)))"
  unfolding bpg_decode_delay_def
  by (rule returns_Let returns_div returns_Some | use assms in \<open>simp add: bpg_fields_ok_def\<close>)+

lemma bpg_slice_offset_ok:
  assumes "rate_ready out" "unat (num_extra_mux_bits out) \<le> 512" "unat (first_line_bpg_offset out) \<le> 31"
    "unat (nfl_bpg_offset out) \<le> 65535" "unat (second_line_bpg_offset out) \<le> 31" "unat (nsl_bpg_offset out) \<le> 65535"
    "unat (second_line_offset_adj out) \<le> 512"
  shows "returns (bpg_slice_offset out) (\<lambda>r. fst r = NVT_STATUS_SUCCESS \<longrightarrow>
    bpg_fields_ok (snd r) \<and> 1 \<le> unat (slice_bpg_offset (snd r)))"
proof -
  note P = slice_bpg_offset_pos [OF assms(1,2)]
  have nz: "bits_per_pixel out \<noteq> 0" using assms(1) by (simp add: rate_ready_def)
  show ?thesis
    unfolding bpg_slice_offset_def Let_def
    apply (rule returns_div)
     apply (rule P(1))
    apply (rule returns_If)
     apply (rule returns_Some) apply simp
    apply (rule returns_If)
     apply (rule returns_Some) apply simp
    apply (rule bpg_decode_delay_ok)
    using nz apply simp
    using assms(3-7) apply (simp add: bpg_fields_ok_def)
    using P(2) by simp
qed

lemma DSC_PpsCalcBpg_ok:
  assumes R: "rate_ready out" and X: "unat (num_extra_mux_bits out) \<le> 512"
  shows "returns (DSC_PpsCalcBpg out) (\<lambda>r. fst r = NVT_STATUS_SUCCESS \<longrightarrow>
    bpg_fields_ok (snd r) \<and> 1 \<le> unat (slice_bpg_offset (snd r)))"
  unfolding DSC_PpsCalcBpg_def Let_def
  by (rule returns_If returns_Some returns_bind [OF bpg_spread_returns] bpg_slice_offset_ok
      | use R X in \<open>simp; fail\<close>)+

lemma DSC_PpsCalcScaleInterval_ok:
  assumes R: "rate_ready out" and B: "bpg_fields_ok out" "1 \<le> unat (slice_bpg_offset out)"
  shows "returns (DSC_PpsCalcScaleInterval out) (\<lambda>r. fst r = NVT_STATUS_SUCCESS \<longrightarrow>
    scale_fields_ok (snd r) \<and> bpg_fields_ok (snd r))"
proof -
  have rc: "rc_model_size out = 8192" using R by (simp add: rate_ready_def)
  have sum: "(f - 9) * (nfl_bpg_offset out + slice_bpg_offset out + nsl_bpg_offset out) \<noteq> 0"
    if "9 < f" "unat f \<le> 63" for f :: NvU32
  proof -
    have f: "unat (f - 9) = unat f - 9" "1 \<le> unat f - 9" "unat f - 9 \<le> 54"
      using that by (simp_all add: word_less_nat_alt unat_sub_nowrap)
    define t where "t = nfl_bpg_offset out + slice_bpg_offset out + nsl_bpg_offset out"
    have t: "unat t = unat (nfl_bpg_offset out) + unat (slice_bpg_offset out) + unat (nsl_bpg_offset out)"
    proof -
      have "unat (nfl_bpg_offset out + slice_bpg_offset out) = unat (nfl_bpg_offset out) + unat (slice_bpg_offset out)"
        using B(1) unfolding bpg_fields_ok_def by (subst unat_add_nowrap) simp_all
      then show ?thesis
        using B(1) unfolding t_def bpg_fields_ok_def by (subst unat_add_nowrap) simp_all
    qed
    then have tb: "1 \<le> unat t" "unat t \<le> 196605" using B by (simp_all add: bpg_fields_ok_def)
    have "(unat f - 9) * unat t \<le> 54 * 196605"
      using f tb by (intro mult_le_mono) simp_all
    then have "unat ((f - 9) * t) = (unat f - 9) * unat t"
      using f by (subst unat_mult_nowrap) simp_all
    moreover have "1 \<le> (unat f - 9) * unat t" using f(2) tb(1) by (metis mult_le_mono nat_mult_1)
    ultimately show ?thesis unfolding t_def [symmetric] by auto
  qed
  have inc: "returns (if 9 < f then c_div x ((f - 9) *
        (nfl_bpg_offset out + slice_bpg_offset out + nsl_bpg_offset out)) else Some 0) (\<lambda>i. 9 < f \<or> i = 0)"
    if "unat f \<le> 63" for f x
    using sum that by (auto simp: returns_def)
  have decr: "returns (if 8 < v then c_div x (v - 8) else Some 4095) (\<lambda>_. True)" for x v :: NvU32
    by (auto simp: returns_def)
  have nz: "unat x \<le> 8191 \<Longrightarrow> 8192 - x \<noteq> 0" for x :: NvU32 by auto
  show ?thesis
    unfolding DSC_PpsCalcScaleInterval_def
  proof (rule returns_Let)
    fix o1 assume "o1 = out\<lparr>final_offset := rc_model_size out
      - (initial_xmit_delay out * bits_per_pixel out + 8) div 16 + num_extra_mux_bits out\<rparr>"
    then have f: "rc_model_size o1 = 8192" "nfl_bpg_offset o1 = nfl_bpg_offset out"
      "slice_bpg_offset o1 = slice_bpg_offset out" "nsl_bpg_offset o1 = nsl_bpg_offset out"
      "initial_scale_value o1 = initial_scale_value out" "bpg_fields_ok o1"
      using rc B by (simp_all add: bpg_fields_ok_def)
    show "returns (if \<not> RANGE_CHECK (final_offset o1) 0 (rc_model_size o1 - 1) then Some (NVT_STATUS_ERR, o1)
      else do {
        final_scale \<leftarrow> c_div (8 * rc_model_size o1) (rc_model_size o1 - final_offset o1);
        if \<not> RANGE_CHECK final_scale 0 63 then Some (NVT_STATUS_ERR, o1)
        else do {
          interval \<leftarrow> (if final_scale > 9
            then c_div (push_bit 11 (final_offset o1))
                   ((final_scale - 9) * (nfl_bpg_offset o1 + slice_bpg_offset o1 + nsl_bpg_offset o1))
            else Some 0);
          let o2 = o1\<lparr>scale_increment_interval := interval\<rparr>;
          if final_scale > 9 \<and> \<not> RANGE_CHECK (scale_increment_interval o2) 0 65535
          then Some (NVT_STATUS_ERR, o2)
          else do {
            decrement \<leftarrow> (if initial_scale_value o2 > 8
              then c_div (groups_per_line o2) (initial_scale_value o2 - 8)
              else Some 4095);
            let o3 = o2\<lparr>scale_decrement_interval := decrement\<rparr>;
            Some (if \<not> RANGE_CHECK (scale_decrement_interval o3) 1 4095
                  then (NVT_STATUS_ERR, o3) else (NVT_STATUS_SUCCESS, o3))
          }
        }
      }) (\<lambda>r. fst r = NVT_STATUS_SUCCESS \<longrightarrow> scale_fields_ok (snd r) \<and> bpg_fields_ok (snd r))"
      unfolding Let_def f
      apply (rule returns_If, rule returns_Some, simp)
      apply (rule returns_div, rule nz, simp)
      apply (rule returns_If, rule returns_Some, simp)
      apply (rule returns_bind [OF inc], simp)
      apply (rule returns_If, rule returns_Some, simp)
      apply (rule returns_bind [OF decr])
      apply (rule returns_Some)
      using f(6) by (auto simp: scale_fields_ok_def bpg_fields_ok_def RANGE_CHECK_unat)
  qed
qed

lemma same_basis_rate_ready: "same_basis a b \<Longrightarrow> rate_ready a = rate_ready b"
  by (simp add: same_basis_def rate_ready_def)

lemma DSC_PpsCheckSliceHeight_ok:
  assumes R: "rate_ready out"
  shows "returns (DSC_PpsCheckSliceHeight out) (\<lambda>r. same_basis out (snd r) \<and>
    (fst r = NVT_STATUS_SUCCESS \<longrightarrow> scale_fields_ok (snd r) \<and> bpg_fields_ok (snd r)))"
proof -
  have bpc: "bits_per_component out \<in> {8, 10, 12}" using R by (simp add: rate_ready_def)
  have "returns (DSC_PpsCheckSliceHeight out) (\<lambda>r.
    fst r = NVT_STATUS_SUCCESS \<longrightarrow> scale_fields_ok (snd r) \<and> bpg_fields_ok (snd r))"
    unfolding DSC_PpsCheckSliceHeight_def
  proof (intro returns_bind [OF returns_conj [OF DSC_PpsCalcExtraBits_le [OF bpc] DSC_PpsCalcExtraBits_basis]]
      returns_prod returns_If returns_Some)
    fix r s o1 assume r: "(fst r = NVT_STATUS_SUCCESS \<and> unat (num_extra_mux_bits (snd r)) \<le> 512) \<and> same_basis out (snd r)"
      "r = (s, o1)" 
    then have R1: "rate_ready o1" "unat (num_extra_mux_bits o1) \<le> 512"
      using R same_basis_rate_ready by auto
    show "returns (do { (status, out) \<leftarrow> DSC_PpsCalcBpg o1;
         if status \<noteq> NVT_STATUS_SUCCESS then Some (NVT_STATUS_ERR, out) else DSC_PpsCalcScaleInterval out })
        (\<lambda>r. fst r = NVT_STATUS_SUCCESS \<longrightarrow> scale_fields_ok (snd r) \<and> bpg_fields_ok (snd r))"
    proof (intro returns_bind [OF returns_conj [OF DSC_PpsCalcBpg_ok [OF R1] DSC_PpsCalcBpg_basis]]
      returns_prod returns_If returns_Some)
      fix r s o2 assume "(fst r = NVT_STATUS_SUCCESS \<longrightarrow> bpg_fields_ok (snd r) \<and> 1 \<le> unat (slice_bpg_offset (snd r))) \<and>
        same_basis o1 (snd r)" "r = (s, o2)" "\<not> s \<noteq> NVT_STATUS_SUCCESS"
      then show "returns (DSC_PpsCalcScaleInterval o2)
         (\<lambda>r. fst r = NVT_STATUS_SUCCESS \<longrightarrow> scale_fields_ok (snd r) \<and> bpg_fields_ok (snd r))"
        using R1(1) same_basis_rate_ready by (intro DSC_PpsCalcScaleInterval_ok) auto
    qed simp
  qed simp
  from returns_conj [OF this DSC_PpsCheckSliceHeight_basis] show ?thesis
    by (rule returns_weaken) simp
qed

section \<open>Initial rate-control values\<close>

lemma offset_ramp:
  fixes x k t :: NvU32
  assumes "unat x \<le> 31" "unat k \<le> 1792" "5632 \<le> unat t" "unat t \<le> 6144"
  shows "t - (x * k + 16 div 2) div 16 \<in> {w. 2048 \<le> unat w \<and> unat w \<le> 6144}"
proof -
  have "unat x * unat k \<le> 31 * 1792" using assms(1,2) by (rule mult_le_mono)
  moreover from this have "unat (x * k) = unat x * unat k"
    by (subst unat_mult_nowrap) simp_all
  ultimately have "unat ((x * k + 8) div 16) \<le> 3472"
    by (simp add: unat_add_nowrap)
  moreover from this have "unat (t - (x * k + 8) div 16) = unat t - unat ((x * k + 8) div 16)"
    using assms(3) by (intro unat_sub_nowrap) linarith
  ultimately have "2048 \<le> unat (t - (x * k + 8) div 16)" "unat (t - (x * k + 8) div 16) \<le> 6144"
    using assms(3,4) by linarith+
  then show ?thesis by simp
qed

lemma step_in_ramp: 
  "b \<le> bpp \<Longrightarrow> \<not> c \<le> bpp \<Longrightarrow> unat c \<le> unat b + 32 \<Longrightarrow> unat (bpp - (b :: NvU32)) \<le> 31"
  by (simp add: unat_sub_nowrap word_le_nat_alt)

lemma rc_initial_offset_range:
  "rc_initial_offset n b \<in> {w. 2048 \<le> unat w \<and> unat w \<le> 6144}"
proof -
  have If: "(c \<Longrightarrow> x \<in> A) \<Longrightarrow> (\<not> c \<Longrightarrow> y \<in> A) \<Longrightarrow> (if c then x else y) \<in> A"
    for c and x y :: NvU32 and A
    by simp
  show ?thesis
    unfolding rc_initial_offset_def
    by (rule If offset_ramp step_in_ramp | assumption | simp; fail)+
qed

text \<open>The output struct up to the fields this stage writes.\<close>

definition init_fields :: "DSC_OUTPUT_PARAMS \<Rightarrow> DSC_OUTPUT_PARAMS \<Rightarrow> bool" where
  "init_fields a b \<longleftrightarrow>
     a\<lparr>rc_model_size := 0, initial_offset := 0, initial_scale_value := 0, initial_xmit_delay := 0\<rparr> =
     b\<lparr>rc_model_size := 0, initial_offset := 0, initial_scale_value := 0, initial_xmit_delay := 0\<rparr>"

lemma init_fields_simps [simp]:
  "init_fields a a"
  "init_fields a (b\<lparr>rc_model_size := n\<rparr>) = init_fields a b"
  "init_fields a (b\<lparr>initial_offset := n\<rparr>) = init_fields a b"
  "init_fields a (b\<lparr>initial_scale_value := n\<rparr>) = init_fields a b"
  "init_fields a (b\<lparr>initial_xmit_delay := n\<rparr>) = init_fields a b"
  by (simp_all add: init_fields_def)

definition init_fields_ok :: "DSC_OUTPUT_PARAMS \<Rightarrow> bool" where
  "init_fields_ok out \<longleftrightarrow> rc_model_size out = 8192 \<and>
     2048 \<le> unat (initial_offset out) \<and> unat (initial_offset out) \<le> 6144 \<and>
     unat (initial_scale_value out) \<le> 63 \<and> unat (initial_xmit_delay out) \<le> 1023"

lemma rc_xmit_delay_returns:
  assumes "bits_per_pixel out \<noteq> 0" "2 \<le> unat (slice_width out)"
  shows "returns (rc_xmit_delay out) (\<lambda>_. True)"
proof -
  have "unat (slice_width out div 2) \<noteq> 0" using assms(2) by (simp add: div_greater_zero_iff)
  then have "slice_width out div 2 \<noteq> 0" by (metis unat_0)
  then show ?thesis
    unfolding rc_xmit_delay_def Let_def using assms(1)
    by (intro returns_div returns_If returns_Some) auto
qed

lemma DSC_PpsCalcRcInitValue_ok:
  assumes "bits_per_pixel out \<noteq> 0" "2 \<le> unat (slice_width out)"
  shows "returns (DSC_PpsCalcRcInitValue out)
    (\<lambda>r. init_fields out (snd r) \<and> (fst r = NVT_STATUS_SUCCESS \<longrightarrow> init_fields_ok (snd r)))"
  unfolding DSC_PpsCalcRcInitValue_def
proof (rule returns_Let)
  let ?off = "rc_initial_offset (native_422 out) (bits_per_pixel out)"
  note off = rc_initial_offset_range [of "native_422 out" "bits_per_pixel out", simplified]
  have nz: "8192 - ?off \<noteq> 0"
  proof
    assume "8192 - ?off = 0"
    then have "?off = 8192" by simp
    with off show False by simp
  qed
  fix o1 assume o1: "o1 = out\<lparr>rc_model_size := 8192, initial_offset := ?off\<rparr>"
  then have f: "rc_model_size o1 = 8192" "initial_offset o1 = ?off" by simp_all
  show "returns (if \<not> RANGE_CHECK (initial_offset o1) 0 (rc_model_size o1) then Some (NVT_STATUS_ERR, o1)
      else do {
        scale \<leftarrow> c_div (8 * rc_model_size o1) (rc_model_size o1 - initial_offset o1);
        let o2 = o1\<lparr>initial_scale_value :=
          (if groups_per_line o1 < scale - 8 then groups_per_line o1 + 8 else scale)\<rparr>;
        if \<not> RANGE_CHECK (initial_scale_value o2) 0 63 then Some (NVT_STATUS_ERR, o2)
        else do {
          xmit_delay \<leftarrow> rc_xmit_delay o2;
          let o3 = o2\<lparr>initial_xmit_delay := xmit_delay\<rparr>;
          Some (if \<not> RANGE_CHECK (initial_xmit_delay o3) 0 1023 then (NVT_STATUS_ERR, o3)
                else (NVT_STATUS_SUCCESS, o3))
        }
      }) (\<lambda>r. init_fields out (snd r) \<and> (fst r = NVT_STATUS_SUCCESS \<longrightarrow> init_fields_ok (snd r)))"
    unfolding f
    apply (rule returns_If, rule returns_Some, simp add: o1)
    apply (rule returns_div, rule nz)
    apply (rule returns_Let)
    apply (rule returns_If, rule returns_Some, simp add: o1)
    apply (rule returns_bind [OF rc_xmit_delay_returns])
    using assms(1) apply (simp add: o1)
    using assms(2) apply (simp add: o1)
    apply (rule returns_Let)
    apply (rule returns_Some)
    using off by (simp add: o1 init_fields_ok_def)
qed

section \<open>Properties\<close>

text \<open>
  C22: while the slice holds at least the mux-bit budget, the closed form of \<open>DSC_PpsCalcExtraBits\<close>
  computes what the decrement loop it replaces computes.
\<close>

theorem extra_bits_reference:
  assumes "extra_bits_budget out \<le> 8 * chunk_size out * slice_height out"
  shows "DSC_PpsCalcExtraBits out =
    Some (NVT_STATUS_SUCCESS, out\<lparr>num_extra_mux_bits :=
      extra_bits_loop (8 * chunk_size out * slice_height out) (mux_word_size out) (extra_bits_budget out)\<rparr>)"
proof -
  define s where "s = 8 * chunk_size out * slice_height out"
  define m where "m = mux_word_size out"
  define e where "e = extra_bits_budget out"
  have m: "m \<noteq> 0" "0 < unat m" using mux_word_size_cases [of out] by (auto simp: m_def)
  have rest: "unat ((s - e) mod m) = (unat s - unat e) mod unat m"
    using assms by (simp add: unat_sub_nowrap word_le_nat_alt s_def e_def)
  have lt: "(unat s - unat e) mod unat m < unat m" using m(2) by simp
  have "extra_bits_loop s m e = (if (s - e) mod m \<noteq> 0 then e - C_MIN e (m - (s - e) mod m) else e)"
  proof (cases "(s - e) mod m = 0")
    case True
    then show ?thesis by (subst extra_bits_loop.simps) simp
  next
    case False
    then have r: "0 < (unat s - unat e) mod unat m" using rest by (metis neq0_conv unat_eq_zero)
    have "unat (m - (s - e) mod m) = unat m - (unat s - unat e) mod unat m"
      using lt rest by (subst unat_sub_nowrap) simp_all
    then have "unat (e - C_MIN e (m - (s - e) mod m)) = unat (extra_bits_loop s m e)"
      using extra_bits_loop_nat [of m e s] m assms r lt 
      by (subst unat_sub_nowrap) (simp_all add: e_def s_def)
    then show ?thesis using False by (simp add: word_unat_eq_iff)
  qed
  then show ?thesis
    unfolding DSC_PpsCalcExtraBits_def Let_def s_def m_def e_def by (simp only:)
qed

theorem extra_bits_reference_witness:
  "\<exists>x. DSC_PpsCalcExtraBits
      (zero_output\<lparr>bits_per_component := 8, convert_rgb := 1, chunk_size := 1920, slice_height := 108\<rparr>) =
    Some (NVT_STATUS_SUCCESS,
      zero_output\<lparr>bits_per_component := 8, convert_rgb := 1, chunk_size := 1920, slice_height := 108,
        num_extra_mux_bits := x\<rparr>) \<and> x = extra_bits_loop 1658880 48 246"
  using extra_bits_reference
    [of "zero_output\<lparr>bits_per_component := 8, convert_rgb := 1, chunk_size := 1920, slice_height := 108\<rparr>"]
  by (simp add: extra_bits_budget_def mux_word_size_def zero_output_def)

text \<open>
  once the initial values are set, \<open>DSC_PpsCheckSliceHeight\<close> returns for every slice height up to
  16384: it divides by nothing that is zero, keeps the geometry and initial values, and on success
  every derived field fits its place in the picture parameter set.
\<close>

theorem slice_height_check_sound:
  assumes "rate_ready out"
  shows "\<exists>status out'. DSC_PpsCheckSliceHeight out = Some (status, out') \<and> same_basis out out' \<and>
    (status = NVT_STATUS_SUCCESS \<longrightarrow> scale_fields_ok out' \<and> bpg_fields_ok out')"
  using DSC_PpsCheckSliceHeight_ok [OF assms] by (auto simp: returns_def)

theorem slice_height_check_sound_witness:
  "\<exists>status out'. DSC_PpsCheckSliceHeight
     (zero_output\<lparr>bits_per_component := 8, convert_rgb := 1, bits_per_pixel := 128, slice_width := 1920,
       groups_per_line := 640, chunk_size := 1920, slice_height := 108, rc_model_size := 8192,
       initial_offset := 6144, initial_scale_value := 32, initial_xmit_delay := 512\<rparr>) =
     Some (status, out') \<and> slice_height out' = 108"
proof -
  let ?o = "zero_output\<lparr>bits_per_component := 8, convert_rgb := 1, bits_per_pixel := 128, slice_width := 1920,
    groups_per_line := 640, chunk_size := 1920, slice_height := 108, rc_model_size := 8192,
    initial_offset := 6144, initial_scale_value := 32, initial_xmit_delay := 512\<rparr>"
  have "rate_ready ?o" by (simp add: rate_ready_def)
  from slice_height_check_sound [OF this] show ?thesis by (auto simp: same_basis_def)
qed

text \<open>
  for a non-zero rate and slices at least two pixels wide \<open>DSC_PpsCalcRcInitValue\<close> returns, writes
  only its four fields, and on success leaves the model size at 8192 bits, the initial offset between
  2048 and 6144, the scale within six bits and the transmission delay within ten.
\<close>

theorem rc_init_sound:
  assumes "bits_per_pixel out \<noteq> 0" and "2 \<le> unat (slice_width out)"
  shows "\<exists>status out'. DSC_PpsCalcRcInitValue out = Some (status, out') \<and> init_fields out out' \<and>
    (status = NVT_STATUS_SUCCESS \<longrightarrow> init_fields_ok out')"
  using DSC_PpsCalcRcInitValue_ok [OF assms] by (auto simp: returns_def)

theorem rc_init_sound_witness:
  "\<exists>status out'. DSC_PpsCalcRcInitValue (zero_output\<lparr>bits_per_pixel := 128, slice_width := 1920\<rparr>) =
     Some (status, out')"
  using rc_init_sound [of "zero_output\<lparr>bits_per_pixel := 128, slice_width := 1920\<rparr>"] by auto

text \<open>
  \<open>DSC_AlignDownForBppPrecision\<close> returns the largest multiple of the precision step that does not
  exceed its argument, a step of a whole bit being used for a precision that is no capability bit.
\<close>

theorem align_down_bpp:
  "let r = unat (DSC_AlignDownForBppPrecision bpp precision) in
     bpp_step precision dvd r \<and> r \<le> unat bpp \<and> unat bpp < r + bpp_step precision"
  using dvd_round_down [of "bpp_step precision" "unat bpp"]
  by (auto simp: DSC_AlignDownForBppPrecision_unat Let_def bpp_step_def)

end
