(* ===== verification/Dsc_Slices.thy ===== *)
theory Dsc_Slices
  imports Dsc_Rate
begin

text \<open>
  Slice counts and slice geometry of \<^verbatim>\<open>nvt_dsc_pps.c\<close>: the DPCD slice-count mask
  (\<open>DSC_SliceCountMaskforSliceNum\<close>, \<open>DSC_GetSliceCountMask\<close>, \<open>DSC_GetHigherSliceCount\<close>), the decoder
  throughput codes, the smallest slice count for a mode and \<open>DSC_PpsCalcSliceParams\<close>. A function that
  returns a status and writes a result through a pointer is a sum: \<^const>\<open>Inl\<close> the error status,
  \<^const>\<open>Inr\<close> the value written on success.
\<close>

section \<open>Definitions\<close>

definition DSC_SliceCountMaskforSliceNum :: "NvU32 \<Rightarrow> NvU32" where
  "DSC_SliceCountMaskforSliceNum n =
     (if n = 1 then DSC_DECODER_SLICES_PER_SINK_1
      else if n = 2 then DSC_DECODER_SLICES_PER_SINK_2
      else if n = 4 then DSC_DECODER_SLICES_PER_SINK_4
      else if n = 6 then DSC_DECODER_SLICES_PER_SINK_6
      else if n = 8 then DSC_DECODER_SLICES_PER_SINK_8
      else if n = 10 then DSC_DECODER_SLICES_PER_SINK_10
      else if n = 12 then DSC_DECODER_SLICES_PER_SINK_12
      else if n = 16 then DSC_DECODER_SLICES_PER_SINK_16
      else if n = 20 then DSC_DECODER_SLICES_PER_SINK_20
      else if n = 24 then DSC_DECODER_SLICES_PER_SINK_24
      else DSC_DECODER_SLICES_PER_SINK_INVALID)"

definition DSC_GetPeakThroughputMps :: "NvU32 \<Rightarrow> NvU32" where
  "DSC_GetPeakThroughputMps peak_throughput =
     (if peak_throughput = 1 then 340
      else if peak_throughput = 2 then 400
      else if peak_throughput = 3 then 450
      else if peak_throughput = 4 then 500
      else if peak_throughput = 5 then 550
      else if peak_throughput = 6 then 600
      else if peak_throughput = 7 then 650
      else if peak_throughput = 8 then 700
      else if peak_throughput = 9 then 750
      else if peak_throughput = 10 then 800
      else if peak_throughput = 11 then 850
      else if peak_throughput = 12 then 900
      else if peak_throughput = 13 then 950
      else if peak_throughput = 14 then 1000
      else if peak_throughput = 15 then 170
      else 0)"

text \<open>The slice counts DP 2.0 allows, and the same list in mask bit order (bit 2 is reserved).\<close>

definition validSliceNum :: "NvU32 list" where
  "validSliceNum = [1, 2, 4, 6, 8, 10, 12, 16, 20, 24]"

definition maskSliceNum :: "NvU32 list" where
  "maskSliceNum = [1, 2, 0, 4, 6, 8, 10, 12, 16, 20, 24]"

fun slice_mask_loop :: "NvU32 list \<Rightarrow> NvU32 \<Rightarrow> NvU32 \<Rightarrow> NvU32 \<times> NvU32 list" where
  "slice_mask_loop [] maxSliceNum acc = (acc, [])"
| "slice_mask_loop (n # ns) maxSliceNum acc =
     (if n < maxSliceNum
      then slice_mask_loop ns maxSliceNum (acc OR DSC_SliceCountMaskforSliceNum n)
      else (acc, n # ns))"

definition DSC_GetSliceCountMask :: "NvU32 \<Rightarrow> NvBool \<Rightarrow> NvU32" where
  "DSC_GetSliceCountMask maxSliceNum bInclusive =
     (if maxSliceNum = 0 then 0
      else case slice_mask_loop validSliceNum maxSliceNum 0 of
        (acc, n # _) \<Rightarrow> (if bInclusive \<noteq> 0 then acc OR DSC_SliceCountMaskforSliceNum n else acc)
      | (acc, []) \<Rightarrow> acc)"

fun higher_slice_loop :: "NvU32 list \<Rightarrow> NvU32 \<Rightarrow> NvU32 \<Rightarrow> NVT_STATUS + NvU32" where
  "higher_slice_loop [] sliceMask currentSliceCount = Inl NVT_STATUS_PPS_SLICE_COUNT_ERROR"
| "higher_slice_loop (n # ns) sliceMask currentSliceCount =
     (if sliceMask = 0 then Inl NVT_STATUS_PPS_SLICE_COUNT_ERROR
      else if sliceMask AND 1 \<noteq> 0 \<and> n > currentSliceCount then Inr n
      else higher_slice_loop ns (drop_bit 1 sliceMask) currentSliceCount)"

definition DSC_GetHigherSliceCount :: "NvU32 \<Rightarrow> NvU32 \<Rightarrow> NVT_STATUS + NvU32" where
  "DSC_GetHigherSliceCount commonSliceCountMask currentSliceCount =
     higher_slice_loop maskSliceNum commonSliceCountMask currentSliceCount"

definition DSC_GetMinSliceCountForMode ::
  "NvU32 \<Rightarrow> NvU32 \<Rightarrow> NvU32 \<Rightarrow> NvU32 \<Rightarrow> NvU32 \<Rightarrow> NvU32 \<Rightarrow> (NVT_STATUS + NvU32) option" where
  "DSC_GetMinSliceCountForMode picWidth pixelClkMhz max_width peakThroughPutMps maxSliceCount
       commonSliceCountMask = do {
     minSliceCountPicWidth \<leftarrow> c_div (picWidth + max_width - 1) max_width;
     minsliceCountThroughput \<leftarrow> c_div (pixelClkMhz + peakThroughPutMps - 1) peakThroughPutMps;
     let minSliceCountLocal = C_MAX minSliceCountPicWidth minsliceCountThroughput;
     Some (if maxSliceCount < minSliceCountLocal then Inl NVT_STATUS_MIN_SLICE_COUNT_ERROR
           else if DSC_SliceCountMaskforSliceNum minSliceCountLocal AND commonSliceCountMask = 0
           then (case DSC_GetHigherSliceCount commonSliceCountMask minSliceCountLocal of
                   Inl _ \<Rightarrow> Inl NVT_STATUS_MIN_SLICE_COUNT_ERROR
                 | Inr newMinSliceCount \<Rightarrow> Inr newMinSliceCount)
           else Inr minSliceCountLocal)
   }"

text \<open>
  The four ways to choose slice count and slice width, by which of the two the caller forced.
\<close>

definition slice_select ::
  "NvU32 \<Rightarrow> NvU32 \<Rightarrow> NvU32 \<Rightarrow> NvU32 \<Rightarrow> NvU32 \<Rightarrow> pps_step" where
  "slice_select pixel_clkMHz max_slice_num max_slice_width common_slice_count_mask peak_mps out =
     (if slice_num out = 0 \<and> slice_width out = 0 then do {
        r \<leftarrow> DSC_GetMinSliceCountForMode (pic_width out) pixel_clkMHz max_slice_width peak_mps
               max_slice_num common_slice_count_mask;
        (case r of
           Inl status \<Rightarrow> Some (status, out)
         | Inr min_slice_num \<Rightarrow> do {
             let out = out\<lparr>slice_num := min_slice_num\<rparr>;
             w \<leftarrow> c_div (pic_width out + slice_num out - 1) (slice_num out);
             Some (NVT_STATUS_SUCCESS, out\<lparr>slice_width := w\<rparr>)
           })
      }
      else if slice_num out = 0 then
        (if slice_width out > max_slice_width then Some (NVT_STATUS_PPS_SLICE_WIDTH_ERROR, out)
         else do {
           n \<leftarrow> c_div (pic_width out + slice_width out - 1) (slice_width out);
           let out = out\<lparr>slice_num := n\<rparr>;
           Some (if DSC_SliceCountMaskforSliceNum (slice_num out) AND common_slice_count_mask = 0
                 then (NVT_STATUS_PPS_SLICE_COUNT_ERROR, out) else (NVT_STATUS_SUCCESS, out))
         })
      else if slice_width out = 0 then
        (if DSC_SliceCountMaskforSliceNum (slice_num out) AND common_slice_count_mask = 0
         then Some (NVT_STATUS_PPS_SLICE_COUNT_ERROR, out)
         else do {
           w \<leftarrow> c_div (pic_width out + slice_num out - 1) (slice_num out);
           let w = (if native_420 out \<noteq> 0 \<or> native_422 out \<noteq> 0 then (w + 1) div 2 * 2 else w);
           let out = out\<lparr>slice_width := w\<rparr>;
           Some (if slice_width out > max_slice_width
                 then (NVT_STATUS_PPS_SLICE_WIDTH_ERROR, out) else (NVT_STATUS_SUCCESS, out))
         })
      else
        (if DSC_SliceCountMaskforSliceNum (slice_num out) AND common_slice_count_mask = 0
         then Some (NVT_STATUS_PPS_SLICE_COUNT_ERROR, out)
         else if slice_width out > max_slice_width then Some (NVT_STATUS_PPS_SLICE_WIDTH_ERROR, out)
         else do {
           w \<leftarrow> c_div (pic_width out + slice_num out - 1) (slice_num out);
           Some (if slice_width out \<noteq> w then (NVT_STATUS_PPS_SLICE_WIDTH_ERROR, out)
                 else (NVT_STATUS_SUCCESS, out))
         }))"

text \<open>The checks and derived sizes that follow the choice.\<close>

definition slice_finish :: "NvU32 \<Rightarrow> NvU32 \<Rightarrow> pps_step" where
  "slice_finish pixel_clkMHz peak_mps out = do {
     rate \<leftarrow> c_div pixel_clkMHz (slice_num out);
     if rate > peak_mps then Some (NVT_STATUS_ERR, out)
     else if slice_width out < 32 then Some (NVT_STATUS_PPS_SLICE_WIDTH_ERROR, out)
     else do {
       let slicew = drop_bit (if native_420 out \<noteq> 0 \<or> native_422 out \<noteq> 0 then 1 else 0) (slice_width out);
       let out = out\<lparr>groups_per_line := (slicew + PIXELS_PER_GROUP - 1) div PIXELS_PER_GROUP,
                     chunk_size := (slicew * bits_per_pixel out + 8 * BPP_UNIT - 1) div (8 * BPP_UNIT)\<rparr>;
       Some (if (chunk_size out + 3) div 4 * slice_num out > pic_width out
             then (NVT_STATUS_ERR, out) else (NVT_STATUS_SUCCESS, out))
     }
   }"

definition DSC_PpsCalcSliceParams ::
  "NvU32 \<Rightarrow> NvU32 \<Rightarrow> NvU32 \<Rightarrow> NvU32 \<Rightarrow> NvU32 \<Rightarrow> NvU32 \<Rightarrow> pps_step" where
  "DSC_PpsCalcSliceParams pixel_clkMHz dual_mode max_slice_num max_slice_width slice_count_mask
       peak_throughput out =
     (let gpu_slice_count_mask = DSC_GetSliceCountMask max_slice_num NV_TRUE;
          gpu_slice_count_mask =
            (if dual_mode \<noteq> 0
             then gpu_slice_count_mask AND
                  NOT (DSC_SliceCountMaskforSliceNum 1 OR DSC_SliceCountMaskforSliceNum 6)
             else gpu_slice_count_mask);
          common_slice_count_mask = gpu_slice_count_mask AND slice_count_mask;
          peak_mps = DSC_GetPeakThroughputMps peak_throughput
      in if common_slice_count_mask = 0 then Some (NVT_STATUS_DSC_SLICE_ERROR, out)
      else if peak_mps = 0 then Some (NVT_STATUS_INVALID_PEAK_THROUGHPUT, out)
      else do {
        (status, out) \<leftarrow> slice_select pixel_clkMHz max_slice_num max_slice_width
                            common_slice_count_mask peak_mps out;
        if status \<noteq> NVT_STATUS_SUCCESS then Some (status, out)
        else slice_finish pixel_clkMHz peak_mps out
      })"

section \<open>Slice-count masks\<close>

text \<open>The slice counts a mask stands for.\<close>

definition slice_set :: "NvU32 \<Rightarrow> NvU32 set" where
  "slice_set m = {n \<in> set validSliceNum. m AND DSC_SliceCountMaskforSliceNum n \<noteq> 0}"

text \<open>The loop is a first match over the pairs of mask bit and slice count.\<close>

lemma higher_slice_loop_find:
  "higher_slice_loop ns m c =
     (case find (\<lambda>(i, n). bit m i \<and> c < n) (enumerate 0 ns) of
        None \<Rightarrow> Inl NVT_STATUS_PPS_SLICE_COUNT_ERROR | Some (i, n) \<Rightarrow> Inr n)"
proof -
  have "higher_slice_loop ns (drop_bit k m) c =
     (case find (\<lambda>(i, n). bit m i \<and> c < n) (enumerate k ns) of
        None \<Rightarrow> Inl NVT_STATUS_PPS_SLICE_COUNT_ERROR | Some (i, n) \<Rightarrow> Inr n)" for k
  proof (induction ns arbitrary: k)
    case Nil
    then show ?case by simp
  next
    case (Cons n ns)
    have low: "drop_bit k m AND 1 \<noteq> 0 \<longleftrightarrow> bit m k"
      by (simp add: and_bit_test bit_drop_bit_eq)
    have zero: "\<not> bit m i" if "drop_bit k m = 0" and "k \<le> i" for i
    proof -
      have "bit (drop_bit k m) (i - k) \<longleftrightarrow> bit m i" using that(2) by (simp add: bit_drop_bit_eq)
      then show ?thesis by (simp add: that(1))
    qed
    show ?case
    proof (cases "drop_bit k m = 0")
      case True
      have "find (\<lambda>(i, n). bit m i \<and> c < n) (enumerate k (n # ns)) = None"
        using zero [OF True] by (force simp: find_None_iff in_set_enumerate_eq)
      then show ?thesis using True by simp
    next
      case False
      then show ?thesis
        using low Cons.IH [of "Suc k"] by simp
    qed
  qed
  from this [of 0] show ?thesis by simp
qed

lemma maskSliceNum_enumerate:
  "enumerate 0 maskSliceNum =
     [(0, 1), (1, 2), (2, 0), (3, 4), (4, 6), (5, 8), (6, 10), (7, 12), (8, 16), (9, 20), (10, 24)]"
  by (simp add: maskSliceNum_def numeral_eq_Suc)

lemma slice_mask_values:
  "DSC_SliceCountMaskforSliceNum 1 = 1" "DSC_SliceCountMaskforSliceNum 2 = 2"
  "DSC_SliceCountMaskforSliceNum 4 = 8" "DSC_SliceCountMaskforSliceNum 6 = 16"
  "DSC_SliceCountMaskforSliceNum 8 = 32" "DSC_SliceCountMaskforSliceNum 10 = 64"
  "DSC_SliceCountMaskforSliceNum 12 = 128" "DSC_SliceCountMaskforSliceNum 16 = 256"
  "DSC_SliceCountMaskforSliceNum 20 = 512" "DSC_SliceCountMaskforSliceNum 24 = 1024"
  by (simp_all add: DSC_SliceCountMaskforSliceNum_def)

lemma DSC_GetHigherSliceCount_find:
  "DSC_GetHigherSliceCount m c =
     (case find (\<lambda>n. c < n) (filter (\<lambda>n. m AND DSC_SliceCountMaskforSliceNum n \<noteq> 0) validSliceNum) of
        None \<Rightarrow> Inl NVT_STATUS_PPS_SLICE_COUNT_ERROR | Some n \<Rightarrow> Inr n)"
proof -
  have "map_option snd (find (\<lambda>(i, n). bit m i \<and> c < n) (enumerate 0 maskSliceNum)) =
        find (\<lambda>n. m AND DSC_SliceCountMaskforSliceNum n \<noteq> 0 \<and> c < n) validSliceNum"
    unfolding maskSliceNum_enumerate validSliceNum_def
    by (simp add: slice_mask_values and_bit_test)
  then show ?thesis
    unfolding DSC_GetHigherSliceCount_def higher_slice_loop_find find_filter_conj
    by (auto split: option.splits) (metis option.discI)
qed

definition slice_count_bit :: "NvU32 \<Rightarrow> nat" where
  "slice_count_bit n = (if n = 1 then 0 else if n = 2 then 1 else if n = 4 then 3
      else if n = 6 then 4 else if n = 8 then 5 else if n = 10 then 6
      else if n = 12 then 7 else if n = 16 then 8 else if n = 20 then 9 else 10)"

lemma validSliceNum_cases:
  "n \<in> set validSliceNum \<longleftrightarrow>
     n = 1 \<or> n = 2 \<or> n = 4 \<or> n = 6 \<or> n = 8 \<or> n = 10 \<or> n = 12 \<or> n = 16 \<or> n = 20 \<or> n = 24"
  by (auto simp: validSliceNum_def)

lemma slice_mask_bit: "n \<in> set validSliceNum \<Longrightarrow> m AND DSC_SliceCountMaskforSliceNum n \<noteq> 0 \<longleftrightarrow> bit m (slice_count_bit n)"
  unfolding validSliceNum_cases
  by (elim disjE) (simp_all add: slice_mask_values slice_count_bit_def and_bit_test)

lemma slice_mask_single: "n \<in> set validSliceNum \<Longrightarrow> k \<in> set validSliceNum \<Longrightarrow> 
   bit (DSC_SliceCountMaskforSliceNum k) (slice_count_bit n) \<longleftrightarrow> n = k"
  unfolding validSliceNum_cases
  by (elim disjE) (simp_all add: slice_mask_values slice_count_bit_def  )

lemma slice_mask_nonzero: "DSC_SliceCountMaskforSliceNum n AND m \<noteq> 0 \<longleftrightarrow> n \<in> slice_set m"
proof (cases "n \<in> set validSliceNum")
  case True
  then show ?thesis by (simp add: slice_set_def and.commute)
next
  case False
  then have "DSC_SliceCountMaskforSliceNum n = 0"
    by (simp add: validSliceNum_cases DSC_SliceCountMaskforSliceNum_def)
  with False show ?thesis by (simp add: slice_set_def)
qed

lemma slice_set_bit: "slice_set m = {n \<in> set validSliceNum. bit m (slice_count_bit n)}"
  using slice_mask_bit by (auto simp: slice_set_def)

lemma slice_set_and: "slice_set (a AND b) = slice_set a \<inter> slice_set b"
  by (auto simp: slice_set_bit bit_simps)

lemma slice_set_or: "slice_set (a OR b) = slice_set a \<union> slice_set b"
  by (auto simp: slice_set_bit bit_simps)

lemma slice_set_zero [simp]: "slice_set 0 = {}"
  by (simp add: slice_set_def)

lemma slice_set_single: "n \<in> set validSliceNum \<Longrightarrow> slice_set (DSC_SliceCountMaskforSliceNum n) = {n}"
  by (auto simp: slice_set_bit slice_mask_single)

lemma slice_mask_loop_set:
  assumes "set ns \<subseteq> set validSliceNum" and "sorted ns" 
  shows "case slice_mask_loop ns maxn acc of (acc', rest) \<Rightarrow>
     slice_set acc' = slice_set acc \<union> {n \<in> set ns. n < maxn} \<and> rest = filter (\<lambda>n. \<not> n < maxn) ns"
  using assms
proof (induction ns arbitrary: acc)
  case (Cons n ns)
  show ?case
  proof (cases "n < maxn")
    case True
    with Cons.prems Cons.IH [of "acc OR DSC_SliceCountMaskforSliceNum n"] show ?thesis
      by (auto simp: slice_set_or slice_set_single)
  next
    case False
    with Cons.prems show ?thesis
      by (auto intro!: filter_True [symmetric])
  qed
qed simp

lemma validSliceNum_sorted: "sorted validSliceNum"
  by (simp add: validSliceNum_def)

lemma DSC_GetSliceCountMask_exclusive:
  "slice_set (DSC_GetSliceCountMask maxn 0) = {n \<in> set validSliceNum. n < maxn}"
  using slice_mask_loop_set [OF subset_refl validSliceNum_sorted, where maxn = maxn and acc = 0]
  by (auto simp: DSC_GetSliceCountMask_def split: prod.splits list.splits)

lemma DSC_GetSliceCountMask_inclusive:
  assumes "i \<noteq> 0"
  shows "slice_set (DSC_GetSliceCountMask maxn i) =
    {n \<in> set validSliceNum. maxn \<noteq> 0 \<and> (\<forall>k \<in> set validSliceNum. k < n \<longrightarrow> k < maxn)}"
proof (cases "maxn = 0")
  case False
  obtain acc rest where loop: "slice_mask_loop validSliceNum maxn 0 = (acc, rest)"
    by fastforce
  have acc: "slice_set acc = {n \<in> set validSliceNum. n < maxn}"
    and rest: "rest = filter (\<lambda>n. \<not> n < maxn) validSliceNum"
    using slice_mask_loop_set [OF subset_refl validSliceNum_sorted, where maxn = maxn and acc = 0] loop by auto
  show ?thesis
  proof (cases rest)
    case Nil
    then have "\<forall>n \<in> set validSliceNum. n < maxn"
      using rest by (metis filter_empty_conv)
    then show ?thesis
      using False loop acc Nil by (auto simp: DSC_GetSliceCountMask_def)
  next
    case (Cons n ns)
    then have n: "n \<in> set validSliceNum" "\<not> n < maxn"
      using arg_cong [OF rest, of set] by auto
    have "sorted (n # ns)"
      using sorted_wrt_filter [OF validSliceNum_sorted] rest Cons by metis
    then have least: "n \<le> k" if "k \<in> set validSliceNum" "\<not> k < maxn" for k
      using that arg_cong [OF rest, of set] Cons by auto
    show ?thesis
      using False loop acc Cons n least assms
      by (auto simp: DSC_GetSliceCountMask_def slice_set_or slice_set_single) (meson not_le not_less_iff_gr_or_eq order.strict_trans)+
  qed
qed (simp add: DSC_GetSliceCountMask_def)

lemma DSC_GetHigherSliceCount_iff:
  "DSC_GetHigherSliceCount m c = Inr n \<longleftrightarrow>
     n \<in> slice_set m \<and> c < n \<and> (\<forall>k \<in> slice_set m. c < k \<longrightarrow> n \<le> k)"
proof -
  let ?L = "filter (\<lambda>n. m AND DSC_SliceCountMaskforSliceNum n \<noteq> 0) validSliceNum"
  have "set ?L = slice_set m"
    by (auto simp: slice_set_def)
  moreover have "DSC_GetHigherSliceCount m c = Inr n \<longleftrightarrow> find (\<lambda>n. c < n) ?L = Some n"
    by (simp add: DSC_GetHigherSliceCount_find split: option.splits)
  ultimately show ?thesis
    using find_sorted_least [of ?L "\<lambda>n. c < n" n]
    by (simp add: sorted_wrt_filter validSliceNum_sorted)
qed

section \<open>The smallest slice count\<close>

text \<open>\<open>n\<close> slices carry the mode when they cover its width and its pixel rate.\<close>

definition slices_fit :: "NvU32 \<Rightarrow> NvU32 \<Rightarrow> NvU32 \<Rightarrow> NvU32 \<Rightarrow> NvU32 \<Rightarrow> bool" where
  "slices_fit picWidth pixelClkMhz max_width peakMps n \<longleftrightarrow>
     unat picWidth \<le> unat n * unat max_width \<and> unat pixelClkMhz \<le> unat n * unat peakMps"

definition least_slice_count :: "(NvU32 \<Rightarrow> bool) \<Rightarrow> NvU32 \<Rightarrow> NvU32 \<Rightarrow> bool" where
  "least_slice_count P m n \<longleftrightarrow> n \<in> slice_set m \<and> P n \<and> (\<forall>k \<in> slice_set m. P k \<longrightarrow> n \<le> k)"

lemma min_slice_local:
  fixes w clk maxw peak :: NvU32
  assumes "maxw \<noteq> 0" "peak \<noteq> 0" "unat w + unat maxw < 2 ^ 32" "unat clk + unat peak < 2 ^ 32"
  defines "l \<equiv> C_MAX ((w + maxw - 1) div maxw) ((clk + peak - 1) div peak)"
  shows "l \<le> n \<longleftrightarrow> slices_fit w clk maxw peak n"
proof -
  have a: "unat ((w + maxw - 1) div maxw) \<le> k \<longleftrightarrow> unat w \<le> k * unat maxw" for k
    by (rule unat_ceil_div_le_iff) (use assms in simp_all)
  have b: "unat ((clk + peak - 1) div peak) \<le> k \<longleftrightarrow> unat clk \<le> k * unat peak" for k
    by (rule unat_ceil_div_le_iff) (use assms in simp_all)
  have "unat clk \<le> unat clk * unat peak"
    using unat_gt_0 [of peak] assms(2) by simp
  with b [of "unat clk"] have "unat ((clk + peak - 1) div peak) \<le> unat clk" by simp
  then have "unat ((clk + peak - 1) div peak) \<noteq> unat (0xffffffff :: NvU32)"
    using assms(2,4) unat_gt_0 [of peak] by simp
  then have "(clk + peak - 1) div peak \<noteq> 0xffffffff" by metis
  then have "unat l = max (unat ((w + maxw - 1) div maxw)) (unat ((clk + peak - 1) div peak))"
    unfolding l_def by (rule C_MAX_unat)
  then show ?thesis
    unfolding word_le_nat_alt slices_fit_def by (simp only: max.bounded_iff a b)
qed

lemma DSC_GetMinSliceCountForMode_spec:
  assumes "maxw \<noteq> 0" "peak \<noteq> 0" "unat w + unat maxw < 2 ^ 32" "unat clk + unat peak < 2 ^ 32"
  shows "(\<exists>r. DSC_GetMinSliceCountForMode w clk maxw peak maxCount m = Some r \<and>
      (\<forall>n. r = Inr n \<longleftrightarrow> slices_fit w clk maxw peak maxCount \<and> least_slice_count (slices_fit w clk maxw peak) m n)
    \<and> (\<forall>e. r = Inl e \<longrightarrow> e = NVT_STATUS_MIN_SLICE_COUNT_ERROR))"
proof -
  let ?l = "C_MAX ((w + maxw - 1) div maxw) ((clk + peak - 1) div peak)"
  have fit: "slices_fit w clk maxw peak k \<longleftrightarrow> ?l \<le> k" for k
    using min_slice_local [OF assms] by simp
  have least: "least_slice_count (\<lambda>k. ?l \<le> k) m n \<longleftrightarrow>
     (if DSC_SliceCountMaskforSliceNum ?l AND m = 0 then DSC_GetHigherSliceCount m ?l = Inr n else n = ?l)" for n
  proof (cases "DSC_SliceCountMaskforSliceNum ?l AND m = 0")
    case True
    then have "?l \<notin> slice_set m" using slice_mask_nonzero by blast
    then have "k \<in> slice_set m \<Longrightarrow> ?l \<le> k \<longleftrightarrow> ?l < k" for k
      by (metis order.order_iff_strict)
    then show ?thesis
      using True by (auto simp: DSC_GetHigherSliceCount_iff least_slice_count_def)
  next
    case False
    then have "?l \<in> slice_set m" using slice_mask_nonzero by blast
    then show ?thesis
      using False by (auto simp: least_slice_count_def intro: antisym)
  qed
  show ?thesis
    unfolding fit least using assms(1,2)
    by (auto simp: DSC_GetMinSliceCountForMode_def Let_def split: sum.splits)
qed

section \<open>Slice geometry\<close>

lemma slice_set_valid: "n \<in> slice_set m \<Longrightarrow> n \<noteq> 0 \<and> unat n \<le> 24"
  by (auto simp: slice_set_def validSliceNum_cases)

text \<open>The widths and rates for which the 32-bit arithmetic below does not wrap.\<close>

definition slice_limits :: "NvU32 \<Rightarrow> NvU32 \<Rightarrow> NvU32 \<Rightarrow> DSC_OUTPUT_PARAMS \<Rightarrow> bool" where
  "slice_limits clk maxw peak out \<longleftrightarrow>
     maxw \<noteq> 0 \<and> unat maxw \<le> 65536 \<and> peak \<noteq> 0 \<and> unat clk + unat peak < 2 ^ 32 \<and>
     unat (pic_width out) \<le> 65536 \<and> unat (slice_width out) \<le> 65536 \<and>
     unat (bits_per_pixel out) \<le> 1024 \<and> unat (slice_num out) \<le> 24"

lemma round_up_even: 
  assumes "unat (w :: NvU32) \<le> 65536"
  shows "unat w \<le> unat ((w + 1) div 2 * 2)"
proof -
  have a: "unat (w + 1) = unat w + 1" using assms by (simp add: unat_add_nowrap)
  have "unat ((w + 1) div 2 * 2) = (unat w + 1) div 2 * 2" 
    using assms a by (subst unat_mult_nowrap) auto
  then show ?thesis by simp
qed

lemma ceil_width:
  assumes "unat pw \<le> 65536" "unat n \<le> 65536" "(n :: NvU32) \<noteq> 0"
  shows "unat ((pw + n - 1) div n) \<le> k \<longleftrightarrow> unat (pw :: NvU32) \<le> unat n * k"
  using assms by (subst unat_ceil_div_le_iff) (simp_all add: mult.commute)

lemma ceil_width_covers:
  assumes "unat pw \<le> 65536" "unat n \<le> 65536" "(n :: NvU32) \<noteq> 0"
  shows "unat (pw :: NvU32) \<le> unat n * unat ((pw + n - 1) div n)"
  using ceil_width [OF assms, of "unat ((pw + n - 1) div n)"] by simp

text \<open>Slice count and width cover the picture within the limits.\<close>

definition slices_cover :: "NvU32 \<Rightarrow> NvU32 \<Rightarrow> DSC_OUTPUT_PARAMS \<Rightarrow> bool" where
  "slices_cover m maxw out \<longleftrightarrow>
     slice_num out \<in> slice_set m \<and> unat (slice_width out) \<le> unat maxw \<and>
     unat (pic_width out) \<le> unat (slice_num out) * unat (slice_width out)"

text \<open>What the choice may change, and what it promises on success.\<close>

definition slice_choice :: "NvU32 \<Rightarrow> NvU32 \<Rightarrow> DSC_OUTPUT_PARAMS \<Rightarrow> NVT_STATUS \<times> DSC_OUTPUT_PARAMS \<Rightarrow> bool" where
  "slice_choice m maxw out r \<longleftrightarrow>
     (\<exists>n w. snd r = out\<lparr>slice_num := n, slice_width := w\<rparr>) \<and>
     (fst r = NVT_STATUS_SUCCESS \<longrightarrow> slices_cover m maxw (snd r))"

lemma slice_choice_error [simp]:
  "e \<noteq> NVT_STATUS_SUCCESS \<Longrightarrow> slice_choice m maxw out (e, out)"
  "e \<noteq> NVT_STATUS_SUCCESS \<Longrightarrow> slice_choice m maxw out (e, out\<lparr>slice_num := n\<rparr>)"
  "e \<noteq> NVT_STATUS_SUCCESS \<Longrightarrow> slice_choice m maxw out (e, out\<lparr>slice_width := w\<rparr>)"
proof -
  have "out = out\<lparr>slice_num := slice_num out, slice_width := slice_width out\<rparr>"
    "out\<lparr>slice_num := n\<rparr> = out\<lparr>slice_num := n, slice_width := slice_width out\<rparr>"
    "out\<lparr>slice_width := w\<rparr> = out\<lparr>slice_num := slice_num out, slice_width := w\<rparr>"
    by simp_all
  then show "e \<noteq> NVT_STATUS_SUCCESS \<Longrightarrow> slice_choice m maxw out (e, out)"
    "e \<noteq> NVT_STATUS_SUCCESS \<Longrightarrow> slice_choice m maxw out (e, out\<lparr>slice_num := n\<rparr>)"
    "e \<noteq> NVT_STATUS_SUCCESS \<Longrightarrow> slice_choice m maxw out (e, out\<lparr>slice_width := w\<rparr>)"
    unfolding slice_choice_def fst_conv snd_conv by blast+
qed

lemma slice_choice_success:
  assumes "out' = out\<lparr>slice_num := n, slice_width := w\<rparr>" "n \<in> slice_set m"
    "unat w \<le> unat maxw" "unat (pic_width out) \<le> unat n * unat w"
  shows "slice_choice m maxw out (s, out')"
  using assms by (auto simp: slice_choice_def slices_cover_def)

lemma slice_select_auto:
  assumes L: "slice_limits clk maxw peak out" and "slice_num out = 0" "slice_width out = 0"
  shows "returns (slice_select clk maxn maxw m peak out) (slice_choice m maxw out)"
proof -
  note B = L [unfolded slice_limits_def]
  obtain r where r: "DSC_GetMinSliceCountForMode (pic_width out) clk maxw peak maxn m = Some r"
    and ok: "\<And>n. r = Inr n \<Longrightarrow> least_slice_count (slices_fit (pic_width out) clk maxw peak) m n"
    and bad: "\<And>e. r = Inl e \<Longrightarrow> e = NVT_STATUS_MIN_SLICE_COUNT_ERROR"
    using DSC_GetMinSliceCountForMode_spec [where w = "pic_width out" and clk = clk and maxw = maxw and peak = peak] B
    by fastforce
  show ?thesis
  proof (cases r)
    case (Inl e)
    then show ?thesis using assms r bad by (simp add: slice_select_def returns_Some)
  next
    case (Inr n)
    from ok [OF this] have n: "n \<in> slice_set m" "slices_fit (pic_width out) clk maxw peak n"
      by (simp_all add: least_slice_count_def)
    from slice_set_valid [OF n(1)] B have b: "unat (pic_width out) \<le> 65536" "unat n \<le> 65536" "n \<noteq> 0"
      by simp_all
    let ?w = "(pic_width out + n - 1) div n"
    have "unat ?w \<le> unat maxw"
      using n(2) unfolding ceil_width [OF b] slices_fit_def by simp
    then have "slice_choice m maxw out (NVT_STATUS_SUCCESS, out\<lparr>slice_num := n, slice_width := ?w\<rparr>)"
      by (intro slice_choice_success [OF refl n(1)] ceil_width_covers [OF b])
    then show ?thesis using assms r Inr b(3) by (simp add: slice_select_def returns_Some Let_def)
  qed
qed

lemma slice_select_by_width:
  assumes L: "slice_limits clk maxw peak out" and "slice_num out = 0" "slice_width out \<noteq> 0"
  shows "returns (slice_select clk maxn maxw m peak out) (slice_choice m maxw out)"
proof -
  note B = L [unfolded slice_limits_def]
  let ?n = "(pic_width out + slice_width out - 1) div slice_width out"
  have "unat (pic_width out) \<le> unat ?n * unat (slice_width out)"
    using ceil_width_covers [of "pic_width out" "slice_width out"] B assms(3) by (simp add: mult.commute)
  then have "\<not> maxw < slice_width out \<Longrightarrow> ?n \<in> slice_set m \<Longrightarrow>
    slice_choice m maxw out (NVT_STATUS_SUCCESS, out\<lparr>slice_num := ?n\<rparr>)"
    by (intro slice_choice_success [where n = ?n and w = "slice_width out"]) (auto simp: word_less_nat_alt)
  then show ?thesis
    using assms by (auto simp: slice_select_def Let_def slice_mask_nonzero [symmetric] intro!: returns_Some)
qed

lemma slice_select_by_count:
  assumes L: "slice_limits clk maxw peak out" and "slice_num out \<noteq> 0" "slice_width out = 0"
  shows "returns (slice_select clk maxn maxw m peak out) (slice_choice m maxw out)"
proof -
  note B = L [unfolded slice_limits_def]
  have b: "unat (pic_width out) \<le> 65536" "unat (slice_num out) \<le> 65536" "slice_num out \<noteq> 0"
    using B assms(2) by simp_all
  let ?w = "(pic_width out + slice_num out - 1) div slice_num out"
  let ?v = "if native_420 out \<noteq> 0 \<or> native_422 out \<noteq> 0 then (?w + 1) div 2 * 2 else ?w"
  have "unat (pic_width out) \<le> unat (slice_num out) * unat (pic_width out)"
    using b(3) unat_gt_0 [of "slice_num out"] by simp
  then have "unat ?w \<le> 65536"
    using ceil_width [OF b, of "unat (pic_width out)"] b(1) by linarith
  then have "unat ?w \<le> unat ?v"
    using round_up_even [of ?w] by (simp only: if_split) auto
  then have "unat (pic_width out) \<le> unat (slice_num out) * unat ?v"
    using ceil_width_covers [OF b] mult_le_mono2 order_trans by blast
  then have "slice_num out \<in> slice_set m \<Longrightarrow> \<not> maxw < ?v \<Longrightarrow>
    slice_choice m maxw out (NVT_STATUS_SUCCESS, out\<lparr>slice_width := ?v\<rparr>)"
    by (intro slice_choice_success [where n = "slice_num out" and w = ?v]) (auto simp: word_less_nat_alt)
  then show ?thesis
    using assms unfolding slice_select_def
    by (simp add: Let_def slice_mask_nonzero [symmetric] returns_If returns_Some)
qed

lemma slice_select_check:
  assumes L: "slice_limits clk maxw peak out" and "slice_num out \<noteq> 0" "slice_width out \<noteq> 0"
  shows "returns (slice_select clk maxn maxw m peak out) (slice_choice m maxw out)"
proof -
  note B = L [unfolded slice_limits_def]
  let ?w = "(pic_width out + slice_num out - 1) div slice_num out"
  have "unat (pic_width out) \<le> unat (slice_num out) * unat ?w"
    using ceil_width_covers [of "pic_width out" "slice_num out"] B assms(2) by simp
  then have "slice_num out \<in> slice_set m \<Longrightarrow> \<not> maxw < slice_width out \<Longrightarrow> slice_width out = ?w \<Longrightarrow>
    slice_choice m maxw out (NVT_STATUS_SUCCESS, out)"
    by (intro slice_choice_success [where n = "slice_num out" and w = "slice_width out"]) (auto simp: word_less_nat_alt)
  then show ?thesis
    using assms unfolding slice_select_def
    by (simp add: Let_def slice_mask_nonzero [symmetric] returns_If returns_Some)
qed

lemma slice_select_choice:
  "slice_limits clk maxw peak out \<Longrightarrow>
   returns (slice_select clk maxn maxw m peak out) (slice_choice m maxw out)"
  by (cases "slice_num out = 0"; cases "slice_width out = 0")
    (simp_all only: slice_select_auto slice_select_by_width slice_select_by_count slice_select_check
      not_False_eq_True)

text \<open>The width in container pixels: half the slice width in the native 4:2:x modes.\<close>

definition native_width :: "DSC_OUTPUT_PARAMS \<Rightarrow> nat" where
  "native_width out =
     (if native_420 out \<noteq> 0 \<or> native_422 out \<noteq> 0 then unat (slice_width out) div 2
      else unat (slice_width out))"

definition slice_geometry :: "NvU32 \<Rightarrow> NvU32 \<Rightarrow> DSC_OUTPUT_PARAMS \<Rightarrow> bool" where
  "slice_geometry clk peak out \<longleftrightarrow>
     32 \<le> unat (slice_width out) \<and>
     unat clk div unat (slice_num out) \<le> unat peak \<and>
     unat (groups_per_line out) = (native_width out + 2) div 3 \<and>
     unat (chunk_size out) = (native_width out * unat (bits_per_pixel out) + 127) div 128 \<and>
     (unat (chunk_size out) + 3) div 4 * unat (slice_num out) \<le> unat (pic_width out)"

text \<open>The output struct up to the four fields this stage writes.\<close>

definition slice_fields :: "DSC_OUTPUT_PARAMS \<Rightarrow> DSC_OUTPUT_PARAMS \<Rightarrow> bool" where
  "slice_fields a b \<longleftrightarrow>
     a\<lparr>slice_num := 0, slice_width := 0, groups_per_line := 0, chunk_size := 0\<rparr> =
     b\<lparr>slice_num := 0, slice_width := 0, groups_per_line := 0, chunk_size := 0\<rparr>"

lemma slice_fields_simps [simp]:
  "slice_fields a a"
  "slice_fields a (b\<lparr>slice_num := n\<rparr>) = slice_fields a b"
  "slice_fields a (b\<lparr>slice_width := n\<rparr>) = slice_fields a b"
  "slice_fields a (b\<lparr>groups_per_line := n\<rparr>) = slice_fields a b"
  "slice_fields a (b\<lparr>chunk_size := n\<rparr>) = slice_fields a b"
  by (simp_all add: slice_fields_def)

lemma slice_fields_trans: "slice_fields a b \<Longrightarrow> slice_fields b c \<Longrightarrow> slice_fields a c"
  by (simp add: slice_fields_def)

lemma slice_finish_geometry:
  assumes "slice_num out \<noteq> 0" "unat (slice_num out) \<le> 24"
    "unat (slice_width out) \<le> 65536" "unat (bits_per_pixel out) \<le> 1024"
  shows "returns (slice_finish clk peak out)
    (\<lambda>r. slice_fields out (snd r) \<and> (\<forall>m maxw. slices_cover m maxw (snd r) = slices_cover m maxw out) \<and>
         (fst r = NVT_STATUS_SUCCESS \<longrightarrow> slice_geometry clk peak (snd r)))"
proof -
  define sw where "sw = drop_bit (if native_420 out \<noteq> 0 \<or> native_422 out \<noteq> 0 then 1 else 0) (slice_width out)"
  have sw: "unat sw = native_width out"
    by (simp add: sw_def native_width_def unat_drop_bit_1)
  have swb: "native_width out \<le> 65536"
    using assms(3) by (auto simp: native_width_def)
  have prod: "native_width out * unat (bits_per_pixel out) \<le> 65536 * 1024"
    using swb assms(4) by (rule mult_le_mono)
  define g where "g = (sw + 3 - 1) div 3"
  define c where "c = (sw * bits_per_pixel out + 8 * 16 - 1) div (8 * 16)"
  have g: "unat g = (native_width out + 2) div 3"
    unfolding g_def using swb sw by (subst unat_ceil_div) simp_all
  have m: "unat (sw * bits_per_pixel out) = native_width out * unat (bits_per_pixel out)"
    using prod sw by (subst unat_mult_nowrap) simp_all
  have c: "unat c = (native_width out * unat (bits_per_pixel out) + 127) div 128"
    unfolding c_def using prod m by (subst unat_ceil_div) simp_all
  have cb: "unat c \<le> 524288"
    using prod unfolding c by linarith
  have k: "unat ((c + 3) div 4 * slice_num out) = (unat c + 3) div 4 * unat (slice_num out)"
  proof -
    have "unat ((c + 3) div 4) = (unat c + 3) div 4"
      using cb by (simp add: unat_add_nowrap)
    moreover have "(unat c + 3) div 4 * unat (slice_num out) \<le> 262144 * 24"
      using cb assms(2) by (intro mult_le_mono) simp_all
    ultimately show ?thesis by (subst unat_mult_nowrap) simp_all
  qed
  let ?o = "out\<lparr>groups_per_line := g, chunk_size := c\<rparr>"
  have fin: "slice_finish clk peak out =
     (if clk div slice_num out > peak then Some (NVT_STATUS_ERR, out)
      else if slice_width out < 32 then Some (NVT_STATUS_PPS_SLICE_WIDTH_ERROR, out)
      else Some (if (c + 3) div 4 * slice_num out > pic_width out
             then (NVT_STATUS_ERR, ?o) else (NVT_STATUS_SUCCESS, ?o)))"
    using assms(1) by (simp add: slice_finish_def Let_def g_def c_def sw_def)
  have "slice_geometry clk peak ?o"
    if "\<not> peak < clk div slice_num out" "\<not> slice_width out < 32" "\<not> pic_width out < (c + 3) div 4 * slice_num out"
  proof -
    have "native_width ?o = native_width out" by (simp add: native_width_def)
    then show ?thesis
      using that g c k by (simp add: slice_geometry_def word_less_nat_alt not_less)
  qed
  then show ?thesis
    unfolding fin by (auto intro!: returns_If returns_Some simp: slices_cover_def)
qed

definition slice_stage :: "NvU32 \<Rightarrow> NvU32 \<Rightarrow> NvU32 \<Rightarrow> NvU32 \<Rightarrow> NVT_STATUS \<times> DSC_OUTPUT_PARAMS \<Rightarrow> bool" where
  "slice_stage clk maxw m code r \<longleftrightarrow> (fst r = NVT_STATUS_SUCCESS \<longrightarrow>
     slices_cover m maxw (snd r) \<and> slice_geometry clk (DSC_GetPeakThroughputMps code) (snd r))"

lemma slices_cover_and: "slices_cover (a AND b) w out \<Longrightarrow> slices_cover a w out \<and> slices_cover b w out"
  by (simp add: slices_cover_def slice_set_and)

lemma DSC_PpsCalcSliceParams_stage:
  assumes L: "slice_limits clk maxw (DSC_GetPeakThroughputMps code) out \<or> DSC_GetPeakThroughputMps code = 0"
  shows "returns (DSC_PpsCalcSliceParams clk dual maxn maxw m code out)
    (\<lambda>r. slice_fields out (snd r) \<and>
         slice_stage clk maxw m code r)"
proof (cases "DSC_GetPeakThroughputMps code = 0")
  case True
  then show ?thesis
    by (auto simp: DSC_PpsCalcSliceParams_def Let_def slice_stage_def intro!: returns_If returns_Some)
next
  case False
  then have L: "slice_limits clk maxw (DSC_GetPeakThroughputMps code) out" using L by simp
  have sel: "returns (slice_select clk maxn maxw k (DSC_GetPeakThroughputMps code) out)
      (\<lambda>r. slice_fields out (snd r) \<and> pic_width (snd r) = pic_width out \<and> bits_per_pixel (snd r) = bits_per_pixel out \<and>
           (fst r = NVT_STATUS_SUCCESS \<longrightarrow> slices_cover k maxw (snd r)))" for k
    using slice_select_choice [OF L] 
    by (rule returns_weaken) (auto simp: slice_choice_def)
  have fin: "returns (slice_finish clk (DSC_GetPeakThroughputMps code) out')
     (\<lambda>r. slice_fields out (snd r) \<and> slice_stage clk maxw m code r)"
    if "slice_fields out out'" "bits_per_pixel out' = bits_per_pixel out" "slices_cover (k AND m) maxw out'" for out' k
  proof -
    have c: "slices_cover m maxw out'" using slices_cover_and that(3) by blast
    then have n: "slice_num out' \<noteq> 0" "unat (slice_num out') \<le> 24" "unat (slice_width out') \<le> 65536"
      using slice_set_valid L by (force simp: slices_cover_def slice_limits_def)+
    have b: "unat (bits_per_pixel out') \<le> 1024" using that(2) L by (simp add: slice_limits_def)
    show ?thesis
      by (rule returns_weaken [OF slice_finish_geometry [OF n b]])
        (use c slice_fields_trans [OF that(1)] in \<open>auto simp: slice_stage_def\<close>)
  qed
  show ?thesis
    unfolding DSC_PpsCalcSliceParams_def Let_def
    by (intro returns_If returns_Some returns_bind [OF sel] returns_prod)
      (use False in \<open>auto simp: slice_stage_def intro: fin [unfolded slice_stage_def]\<close>)
qed

section \<open>Properties\<close>

text \<open>
  \<open>DSC_GetHigherSliceCount\<close> returns the least slice count of the mask above the current one, and the
  slice-count error exactly when the mask has none.
\<close>

theorem higher_slice_count_least:
  "(DSC_GetHigherSliceCount m c = Inr n \<longleftrightarrow>
      n \<in> slice_set m \<and> c < n \<and> (\<forall>k \<in> slice_set m. c < k \<longrightarrow> n \<le> k)) \<and>
   (DSC_GetHigherSliceCount m c = Inl NVT_STATUS_PPS_SLICE_COUNT_ERROR \<longleftrightarrow>
      (\<forall>k \<in> slice_set m. k \<le> c))"
proof -
  have "DSC_GetHigherSliceCount m c = Inl NVT_STATUS_PPS_SLICE_COUNT_ERROR \<longleftrightarrow>
      find (\<lambda>n. c < n) (filter (\<lambda>n. m AND DSC_SliceCountMaskforSliceNum n \<noteq> 0) validSliceNum) = None"
    by (simp add: DSC_GetHigherSliceCount_find split: option.splits)
  also have "\<dots> \<longleftrightarrow> (\<forall>k \<in> slice_set m. k \<le> c)"
    by (auto simp: find_None_iff slice_set_def not_less)
  finally show ?thesis by (simp add: DSC_GetHigherSliceCount_iff)
qed

theorem higher_slice_count_least_witness:
  "DSC_GetHigherSliceCount 0x2B 2 = Inr 4 \<and> 4 \<in> slice_set 0x2B"
  using higher_slice_count_least [of "0x2B" 2 4]
  by (simp add: DSC_GetHigherSliceCount_def maskSliceNum_def)

text \<open>
  \<open>DSC_GetSliceCountMask\<close> without the limit stands for the valid slice counts below it. With the
  limit included it adds the first valid count that is not below it, so a limit that is no valid
  count itself (3, say) adds the next one above.
\<close>

theorem slice_count_mask_members:
  "slice_set (DSC_GetSliceCountMask maxn 0) = {n \<in> set validSliceNum. n < maxn} \<and>
   slice_set (DSC_GetSliceCountMask maxn 1) =
     {n \<in> set validSliceNum. maxn \<noteq> 0 \<and> (\<forall>k \<in> set validSliceNum. k < n \<longrightarrow> k < maxn)}"
  by (simp add: DSC_GetSliceCountMask_exclusive DSC_GetSliceCountMask_inclusive)

theorem slice_count_mask_members_witness:
  "4 \<in> slice_set (DSC_GetSliceCountMask 3 1) \<and> 4 \<notin> slice_set (DSC_GetSliceCountMask 3 0)"
  using slice_count_mask_members [of 3] by (simp add: validSliceNum_def)

text \<open>
  C23: where the sums do not wrap, \<open>DSC_GetMinSliceCountForMode\<close> returns, and its result is the least
  slice count of the common mask that carries the picture width and the pixel rate, provided the
  largest permitted count does; otherwise it reports the minimum-slice-count error.
\<close>

theorem min_slice_count_least:
  assumes "maxw \<noteq> 0" and "peak \<noteq> 0"
    and "unat w + unat maxw < 2 ^ 32" and "unat clk + unat peak < 2 ^ 32"
  shows "\<exists>r. DSC_GetMinSliceCountForMode w clk maxw peak maxCount m = Some r \<and>
    (\<forall>n. r = Inr n \<longleftrightarrow> slices_fit w clk maxw peak maxCount \<and>
       n \<in> slice_set m \<and> slices_fit w clk maxw peak n \<and>
       (\<forall>k \<in> slice_set m. slices_fit w clk maxw peak k \<longrightarrow> n \<le> k)) \<and>
    (\<forall>e. r = Inl e \<longrightarrow> e = NVT_STATUS_MIN_SLICE_COUNT_ERROR)"
  using DSC_GetMinSliceCountForMode_spec [OF assms] unfolding least_slice_count_def .

theorem min_slice_count_least_witness:
  "slices_fit 3840 594 2560 340 4 \<and> 2 \<in> slice_set 0x2B \<and> slices_fit 3840 594 2560 340 2"
proof -
  have eval: "DSC_GetMinSliceCountForMode 3840 594 2560 340 4 0x2B = Some (Inr 2)"
    by (simp add: DSC_GetMinSliceCountForMode_def C_MAX_def DSC_SliceCountMaskforSliceNum_def)
  have "\<exists>r. DSC_GetMinSliceCountForMode 3840 594 2560 340 4 0x2B = Some r \<and>
      (\<forall>n. r = Inr n \<longleftrightarrow> slices_fit 3840 594 2560 340 4 \<and> n \<in> slice_set 0x2B \<and>
         slices_fit 3840 594 2560 340 n \<and>
         (\<forall>k \<in> slice_set 0x2B. slices_fit 3840 594 2560 340 k \<longrightarrow> n \<le> k)) \<and>
      (\<forall>e. r = Inl e \<longrightarrow> e = NVT_STATUS_MIN_SLICE_COUNT_ERROR)"
    by (rule min_slice_count_least) simp_all
  then show ?thesis unfolding eval by blast
qed

text \<open>
  C19: for widths up to 65536 and up to 64 bits per pixel, \<open>DSC_PpsCalcSliceParams\<close> returns without a
  division by zero, and on success the slices are a count the sink supports, cover the picture,
  respect the width limit and the decoder rate, are at least 32 pixels wide, and the group count and
  chunk size are the exact ceilings.
\<close>

theorem slice_params_sound:
  assumes "slice_limits clk maxw (DSC_GetPeakThroughputMps code) out"
  shows "\<exists>status out'. DSC_PpsCalcSliceParams clk dual maxn maxw m code out = Some (status, out') \<and>
    slice_fields out out' \<and>
    (status = NVT_STATUS_SUCCESS \<longrightarrow>
       slices_cover m maxw out' \<and> slice_geometry clk (DSC_GetPeakThroughputMps code) out')"
  using DSC_PpsCalcSliceParams_stage [OF disjI1 [OF assms], of dual maxn m]
  by (auto simp: returns_def slice_stage_def)

theorem slice_params_sound_witness:
  "\<exists>out'. DSC_PpsCalcSliceParams 594 0 4 2560 0x2B 1
      (zero_output\<lparr>pic_width := 3840, bits_per_pixel := 128\<rparr>) = Some (NVT_STATUS_SUCCESS, out') \<and>
    slices_cover 0x2B 2560 out' \<and> slice_geometry 594 340 out'"
proof -
  let ?o = "zero_output\<lparr>pic_width := 3840, bits_per_pixel := 128\<rparr>"
  have "slice_limits 594 2560 (DSC_GetPeakThroughputMps 1) ?o"
    by (simp add: slice_limits_def DSC_GetPeakThroughputMps_def zero_output_def)
  from slice_params_sound [OF this, of 0 4 "0x2B"]
  obtain status out' where r: "DSC_PpsCalcSliceParams 594 0 4 2560 0x2B 1 ?o = Some (status, out')"
    and ok: "status = NVT_STATUS_SUCCESS \<longrightarrow>
      slices_cover 0x2B 2560 out' \<and> slice_geometry 594 (DSC_GetPeakThroughputMps 1) out'"
    by auto
  have mask: "DSC_GetSliceCountMask 4 1 = 0xB"
    by (simp add: DSC_GetSliceCountMask_def validSliceNum_def DSC_SliceCountMaskforSliceNum_def)
  have min_n: "DSC_GetMinSliceCountForMode 3840 594 2560 340 4 0xB = Some (Inr 2)"
    by (simp add: DSC_GetMinSliceCountForMode_def C_MAX_def DSC_SliceCountMaskforSliceNum_def)
  have "map_option fst (DSC_PpsCalcSliceParams 594 0 4 2560 0x2B 1 ?o) = Some NVT_STATUS_SUCCESS"
    by (simp add: DSC_PpsCalcSliceParams_def mask min_n slice_select_def zero_output_def
        DSC_GetPeakThroughputMps_def slice_finish_def)
  with r ok show ?thesis by (auto simp: DSC_GetPeakThroughputMps_def)
qed

end
