(* ===== verification/Dsc_RcParam.thy ===== *)
theory Dsc_RcParam
  imports Dsc_Rate
begin

text \<open>
  \<open>DSC_PpsCalcRcParam\<close>: the rate-control parameter set. The quantisation parameters come from the
  tables, selected by bit depth and bits per pixel; reading a table past its row is undefined
  behaviour. The bits-per-group offsets interpolate between constant profiles. The lemmas show that
  the parameters fit the fields of the picture parameter set and that every range is non-empty.
\<close>

section \<open>Definitions\<close>

definition ofs422_und6 :: "NvU32 list" where
  "ofs422_und6 = [2, 0, 0, - 2, - 4, - 6, - 8, - 8, - 8, - 10, - 10, - 12, - 12, - 12, - 12]"
definition ofs422_und7 :: "NvU32 list" where
  "ofs422_und7 = [2, 0, 0, - 2, - 4, - 6, - 8, - 8, - 8, - 10, - 10, - 10, - 12, - 12, - 12]"
definition ofs422_und10 :: "NvU32 list" where
  "ofs422_und10 = [10, 8, 6, 4, 2, 0, - 2, - 4, - 6, - 8, - 10, - 10, - 12, - 12, - 12]"
definition ofs444_und6 :: "NvU32 list" where
  "ofs444_und6 = [0, - 2, - 2, - 4, - 6, - 6, - 8, - 8, - 8, - 10, - 10, - 12, - 12, - 12, - 12]"
definition ofs444_und8 :: "NvU32 list" where
  "ofs444_und8 = [2, 0, 0, - 2, - 4, - 6, - 8, - 8, - 8, - 10, - 10, - 10, - 12, - 12, - 12]"
definition ofs444_und12 :: "NvU32 list" where
  "ofs444_und12 = [2, 0, 0, - 2, - 4, - 6, - 8, - 8, - 8, - 10, - 10, - 10, - 12, - 12, - 12]"
definition ofs444_und15 :: "NvU32 list" where
  "ofs444_und15 = [10, 8, 6, 4, 2, 0, - 2, - 4, - 6, - 8, - 10, - 10, - 12, - 12, - 12]"

text \<open>One interpolated entry: \<open>lo + (steps * (hi - lo) + round) / unit\<close> in unsigned arithmetic.\<close>

definition ofs_interpolate :: "NvU32 \<Rightarrow> NvU32 \<Rightarrow> NvU32 \<Rightarrow> NvU32 list \<Rightarrow> NvU32 list \<Rightarrow> NvU32 list" where
  "ofs_interpolate steps half unit los his =
     map2 (\<lambda>lo hi. lo + (steps * (hi - lo) + half) div unit) los his"

definition range_bpg_offsets_422 :: "NvU32 \<Rightarrow> NvU32 list" where
  "range_bpg_offsets_422 bpp =
     (if bpp \<le> 12 * BPP_UNIT then ofs422_und6
      else if bpp \<le> 14 * BPP_UNIT
           then ofs_interpolate (bpp - 12 * BPP_UNIT) BPP_UNIT (2 * BPP_UNIT) ofs422_und6 ofs422_und7
      else if bpp \<le> 16 * BPP_UNIT then ofs422_und7
      else if bpp \<le> 20 * BPP_UNIT
           then ofs_interpolate (bpp - 16 * BPP_UNIT) (2 * BPP_UNIT) (4 * BPP_UNIT) ofs422_und7 ofs422_und10
      else ofs422_und10)"

definition range_bpg_offsets_444 :: "NvU32 \<Rightarrow> NvU32 list" where
  "range_bpg_offsets_444 bpp =
     (if bpp \<le> 6 * BPP_UNIT then ofs444_und6
      else if bpp \<le> 8 * BPP_UNIT
           then ofs_interpolate (bpp - 6 * BPP_UNIT) BPP_UNIT (2 * BPP_UNIT) ofs444_und6 ofs444_und8
      else if bpp \<le> 12 * BPP_UNIT then ofs444_und8
      else if bpp \<le> 15 * BPP_UNIT
           then ofs_interpolate (bpp - 12 * BPP_UNIT) (3 * BPP_UNIT div 2) (3 * BPP_UNIT)
                  ofs444_und12 ofs444_und15
      else ofs444_und15)"

text \<open>Column \<open>idx\<close> of a table, widened to 32 bits; undefined where a row is shorter.\<close>

definition qp_column :: "NvU8 list list \<Rightarrow> NvU32 \<Rightarrow> NvU32 list option" where
  "qp_column table idx = those (map (\<lambda>row. map_option ucast (c_nth row (unat idx))) table)"

definition qp_tables_422 :: "NvU32 \<Rightarrow> NvU8 list list \<times> NvU8 list list" where
  "qp_tables_422 bpcm8 =
     (if bpcm8 = 0 then (minqp422_8b, maxqp422_8b)
      else if bpcm8 = 2 then (minqp422_10b, maxqp422_10b)
      else (minqp422_12b, maxqp422_12b))"

definition qp_tables_444 :: "NvU32 \<Rightarrow> NvU8 list list \<times> NvU8 list list" where
  "qp_tables_444 bpcm8 =
     (if bpcm8 = 0 then (minqp444_8b, maxqp444_8b)
      else if bpcm8 = 2 then (minqp444_10b, maxqp444_10b)
      else (minqp444_12b, maxqp444_12b))"

definition rc_param_base :: "NvU32 \<Rightarrow> NvU32 \<Rightarrow> DSC_OUTPUT_PARAMS \<Rightarrow> DSC_OUTPUT_PARAMS" where
  "rc_param_base qp_bpc_modifier det_thresh out =
     out\<lparr>flatness_min_qp := 3 + qp_bpc_modifier,
         flatness_max_qp := 12 + qp_bpc_modifier,
         flatness_det_thresh := det_thresh,
         rc_edge_factor := 6,
         rc_quant_incr_limit0 := 11 + qp_bpc_modifier,
         rc_quant_incr_limit1 := 11 + qp_bpc_modifier,
         rc_tgt_offset_hi := 3,
         rc_tgt_offset_lo := 3,
         rc_buf_thresh := map (\<lambda>t. t AND push_bit 6 0xFF) rcBufThresh\<rparr>"

definition DSC_PpsCalcRcParam :: pps_step where
  "DSC_PpsCalcRcParam out0 = do {
     let bpp = bits_per_pixel out0;
     let bpcm8 = bits_per_component out0 - 8;
     let yuv_modifier = (if convert_rgb out0 = 0 \<and> dsc_version_minor out0 = 1 then 1 else 0);
     det_thresh \<leftarrow> c_shl 2 bpcm8;
     let out = rc_param_base (bpcm8 * 2 - yuv_modifier) det_thresh out0;
     if native_422 out \<noteq> 0 then do {
       let idx = bpp div BPP_UNIT - 12;
       mins \<leftarrow> qp_column (fst (qp_tables_422 bpcm8)) idx;
       maxs \<leftarrow> qp_column (snd (qp_tables_422 bpcm8)) idx;
       Some (NVT_STATUS_SUCCESS,
         out\<lparr>range_min_qp := mins, range_max_qp := maxs,
             range_bpg_offset := range_bpg_offsets_422 bpp\<rparr>)
     }
     else do {
       let idx = (2 * (bpp - 6 * BPP_UNIT)) div BPP_UNIT;
       mins \<leftarrow> qp_column (fst (qp_tables_444 bpcm8)) idx;
       maxs \<leftarrow> qp_column (snd (qp_tables_444 bpcm8)) idx;
       Some (NVT_STATUS_SUCCESS,
         out\<lparr>range_min_qp := map (\<lambda>q. C_MAX 0 (q - yuv_modifier)) mins,
             range_max_qp := map (\<lambda>q. C_MAX 0 (q - yuv_modifier)) maxs,
             range_bpg_offset := range_bpg_offsets_444 bpp\<rparr>)
     }
   }"

section \<open>Quantisation parameters\<close>

lemma qp_column_Some:
  assumes "\<And>row. row \<in> set table \<Longrightarrow> unat idx < length row"
  shows "qp_column table idx = Some (map (\<lambda>row. ucast (row ! unat idx)) table)"
proof -
  have "map (\<lambda>row. map_option ucast (c_nth row (unat idx))) table =
        map (\<lambda>row. Some (ucast (row ! unat idx) :: NvU32)) table"
    using assms by simp
  then show ?thesis unfolding qp_column_def by (simp only: those_map_Some)
qed

text \<open>Two lists of fifteen quantisation parameters, every range non-empty and within 0 to 23.\<close>

definition qp_ranges :: "NvU32 list \<Rightarrow> NvU32 list \<Rightarrow> bool" where
  "qp_ranges mins maxs \<longleftrightarrow> length mins = 15 \<and> length maxs = 15 \<and>
     (\<forall>i < 15. unat (mins ! i) \<le> unat (maxs ! i) \<and> unat (maxs ! i) \<le> 23)"

lemma qp_columns_ranges:
  assumes ok: "qp_table_ok cols mn mx" and idx: "unat idx < cols"
  shows "\<exists>mins maxs. qp_column mn idx = Some mins \<and> qp_column mx idx = Some maxs \<and> qp_ranges mins maxs"
proof -
  note T = qp_table_okD [OF ok]
  have "unat idx < length row" if "row \<in> set mn \<or> row \<in> set mx" for row
    using that T idx by (auto simp: in_set_conv_nth)
  then have "qp_column mn idx = Some (map (\<lambda>row. ucast (row ! unat idx)) mn)"
    "qp_column mx idx = Some (map (\<lambda>row. ucast (row ! unat idx)) mx)"
    by (simp_all add: qp_column_Some)
  moreover have "qp_ranges (map (\<lambda>row. ucast (row ! unat idx)) mn) (map (\<lambda>row. ucast (row ! unat idx)) mx)"
    using T idx by (simp add: qp_ranges_def unat_ucast_NvU8 word_le_nat_alt)
  ultimately show ?thesis by blast
qed

text \<open>The \<open>MAX\<close> macro refuses \<open>0xffffffff\<close>, which makes \<open>MAX(0, q - 1)\<close> a saturating subtraction.\<close>

lemma max_zero_saturates:
  assumes "m = 0 \<or> m = 1" and "unat q \<le> 23"
  shows "unat (C_MAX 0 (q - m)) = unat q - unat m"
  using assms(1)
proof
  assume m: "m = 1"
  show ?thesis
  proof (cases "q = 0")
    case True
    then show ?thesis by (simp add: m C_MAX_def)
  next
    case False
    then have q: "unat (q - 1) = unat q - 1" and "0 < unat q"
      by (simp_all add: unat_minus_one unat_gt_0)
    then have "unat (q - 1) \<noteq> unat (0xffffffff :: NvU32)"
      using unat_lt_2p32 [of q] by simp
    then have "q - 1 \<noteq> 0xffffffff" by metis
    with q show ?thesis by (simp add: m C_MAX_unat)
  qed
next
  assume "m = 0"
  moreover have "q \<noteq> 0xffffffff" using assms(2) by auto
  ultimately show ?thesis by (simp add: C_MAX_unat)
qed

lemma qp_ranges_modify:
  assumes "qp_ranges mins maxs" and "m = 0 \<or> m = 1"
  shows "qp_ranges (map (\<lambda>q. C_MAX 0 (q - m)) mins) (map (\<lambda>q. C_MAX 0 (q - m)) maxs)"
proof -
  have *: "unat (mins ! i) \<le> unat (maxs ! i)" "unat (maxs ! i) \<le> 23" "unat (mins ! i) \<le> 23" if "i < 15" for i
    using assms(1) that unfolding qp_ranges_def by (auto intro: le_trans)
  show ?thesis
    using assms(1) * max_zero_saturates [OF assms(2)]
    by (auto simp: qp_ranges_def intro: diff_le_mono le_trans [OF diff_le_self])
qed

section \<open>Interpolated offsets\<close>

definition offset_ok :: "NvU32 \<Rightarrow> bool" where
  "offset_ok x \<longleftrightarrow> - 12 \<le> sint x \<and> sint x \<le> 10"

text \<open>Profiles that an interpolation can join: each entry rises by at most eight.\<close>

definition profile_pair :: "NvU32 list \<Rightarrow> NvU32 list \<Rightarrow> bool" where
  "profile_pair los his \<longleftrightarrow> length los = 15 \<and>
     list_all2 (\<lambda>lo hi. - 12 \<le> sint lo \<and> sint lo + int (unat (hi - lo)) \<le> 10 \<and> unat (hi - lo) \<le> 8) los his"

lemma profile_pairs:
  "profile_pair ofs422_und6 ofs422_und7" "profile_pair ofs422_und7 ofs422_und10"
  "profile_pair ofs444_und6 ofs444_und8" "profile_pair ofs444_und12 ofs444_und15"
  by (simp_all add: profile_pair_def ofs422_und6_def ofs422_und7_def ofs422_und10_def
      ofs444_und6_def ofs444_und8_def ofs444_und12_def ofs444_und15_def)

lemma profiles_ok:
  "list_all offset_ok ofs422_und6" "list_all offset_ok ofs422_und7" "list_all offset_ok ofs422_und10"
  "list_all offset_ok ofs444_und6" "list_all offset_ok ofs444_und8" "list_all offset_ok ofs444_und15"
  by (simp_all add: offset_ok_def ofs422_und6_def ofs422_und7_def ofs422_und10_def
      ofs444_und6_def ofs444_und8_def ofs444_und15_def)

lemma sint_add_small:
  fixes x k :: NvU32
  assumes "- 12 \<le> sint x" and "sint x + int (unat k) \<le> 10" and "unat k \<le> 8"
  shows "sint (x + k) = sint x + int (unat k)"
proof -
  have "sint k = int (unat k)" using assms(3) unfolding sint_32_eq by simp
  then have "sint (x + k) = signed_take_bit 31 (sint x + int (unat k))"
    by (simp add: sint_word_ariths)
  also have "\<dots> = sint x + int (unat k)"
    by (rule signed_take_bit_int_eq_self) (use assms in \<open>simp_all del: of_nat_unat\<close>)
  finally show ?thesis .
qed

lemma interpolated_step:
  fixes steps half unit d :: NvU32
  assumes "unat steps \<le> unat unit" "unat half < unat unit" "unat unit \<le> 64" "unat d \<le> 8"
  shows "unat ((steps * d + half) div unit) \<le> unat d"
proof -
  have "unat steps * unat d \<le> 64 * 8" using assms by (intro mult_le_mono) simp_all
  then have m: "unat (steps * d) = unat steps * unat d" by (subst unat_mult_nowrap) simp_all
  have "unat steps * unat d \<le> unat d * unat unit"
    using mult_le_mono1 [OF assms(1), of "unat d"] by (simp only: mult.commute [of "unat d"])
  then have "unat steps * unat d + unat half < Suc (unat d) * unat unit"
    unfolding mult_Suc using assms(2) by linarith
  moreover have "unat (steps * d + half) = unat steps * unat d + unat half"
    using m \<open>_ \<le> 64 * 8\<close> assms(2,3) by (subst unat_add_nowrap) simp_all
  moreover have "0 < unat unit" using assms(2) by simp
  ultimately have "unat ((steps * d + half) div unit) < Suc (unat d)"
    by (simp only: unat_div_word div_less_iff_less_mult)
  then show ?thesis by simp
qed

lemma ofs_interpolate_ok:
  assumes "profile_pair los his" "unat steps \<le> unat unit" "unat half < unat unit" "unat unit \<le> 64"
  shows "length (ofs_interpolate steps half unit los his) = 15 \<and>
         list_all offset_ok (ofs_interpolate steps half unit los his)"
proof -
  have "offset_ok (lo + (steps * (hi - lo) + half) div unit)"
    if "- 12 \<le> sint lo" "sint lo + int (unat (hi - lo)) \<le> 10" "unat (hi - lo) \<le> 8" for lo hi
  proof -
    let ?k = "(steps * (hi - lo) + half) div unit"
    have k: "unat ?k \<le> unat (hi - lo)"
      using interpolated_step [OF assms(2-4) that(3)] .
    then have "sint (lo + ?k) = sint lo + int (unat ?k)"
      using that by (intro sint_add_small) linarith+
    then show ?thesis
      unfolding offset_ok_def using that k by linarith
  qed
  then show ?thesis
    using assms(1)
    by (auto simp: profile_pair_def ofs_interpolate_def list_all2_conv_all_nth list_all_length)
qed

definition offsets_ok :: "NvU32 list \<Rightarrow> bool" where
  "offsets_ok xs \<longleftrightarrow> length xs = 15 \<and> list_all offset_ok xs"

lemma profile_ok:
  "profile_pair los his \<Longrightarrow> list_all offset_ok los \<Longrightarrow> offsets_ok los"
  "profile_pair los his \<Longrightarrow> list_all offset_ok his \<Longrightarrow> offsets_ok his"
  by (auto simp: profile_pair_def offsets_ok_def dest: list_all2_lengthD)

lemma steps_le:
  "\<not> bpp \<le> a \<Longrightarrow> bpp \<le> b \<Longrightarrow> unat b - unat a \<le> u \<Longrightarrow> unat (bpp - a) \<le> (u :: nat)" for a b bpp :: NvU32
  by (auto simp: unat_sub_nowrap word_le_nat_alt)

lemma range_bpg_offsets_ok:
  "offsets_ok (range_bpg_offsets_422 bpp)" "offsets_ok (range_bpg_offsets_444 bpp)"
proof -
  note P = profile_ok [OF profile_pairs(1)] profile_ok [OF profile_pairs(2)]
    profile_ok [OF profile_pairs(3)] profile_ok [OF profile_pairs(4)]
  have I: "(c \<Longrightarrow> offsets_ok x) \<Longrightarrow> (\<not> c \<Longrightarrow> offsets_ok y) \<Longrightarrow> offsets_ok (if c then x else y)" for c x y
    by simp
  note J = ofs_interpolate_ok [folded offsets_ok_def]
  show "offsets_ok (range_bpg_offsets_422 bpp)"
    unfolding range_bpg_offsets_422_def
    by (rule I P profiles_ok J profile_pairs steps_le | assumption | simp; fail)+
  show "offsets_ok (range_bpg_offsets_444 bpp)"
    unfolding range_bpg_offsets_444_def
    by (rule I P profiles_ok J profile_pairs steps_le | assumption | simp; fail)+
qed

section \<open>The whole parameter set\<close>

text \<open>Bit depths and rates whose table column exists.\<close>

definition rc_index_ok :: "DSC_OUTPUT_PARAMS \<Rightarrow> bool" where
  "rc_index_ok out \<longleftrightarrow> bits_per_component out \<in> {8, 10, 12} \<and>
     (if native_422 out \<noteq> 0
      then 192 \<le> unat (bits_per_pixel out) \<and> unat (bits_per_pixel out) \<le> 64 * unat (bits_per_component out)
      else 96 \<le> unat (bits_per_pixel out) \<and> unat (bits_per_pixel out) \<le> 48 * unat (bits_per_component out))"

definition rc_fields_ok :: "DSC_OUTPUT_PARAMS \<Rightarrow> bool" where
  "rc_fields_ok out \<longleftrightarrow>
     qp_ranges (range_min_qp out) (range_max_qp out) \<and> offsets_ok (range_bpg_offset out) \<and>
     rc_buf_thresh out = rcBufThresh \<and> rc_edge_factor out = 6 \<and>
     rc_tgt_offset_hi out = 3 \<and> rc_tgt_offset_lo out = 3 \<and>
     unat (flatness_min_qp out) \<le> 11 \<and> unat (flatness_max_qp out) \<le> 20 \<and>
     unat (rc_quant_incr_limit0 out) \<le> 19 \<and> unat (rc_quant_incr_limit1 out) \<le> 19"

definition rc_fields :: "DSC_OUTPUT_PARAMS \<Rightarrow> DSC_OUTPUT_PARAMS" where
  "rc_fields out = out\<lparr>flatness_min_qp := 0, flatness_max_qp := 0, flatness_det_thresh := 0, rc_edge_factor := 0,
     rc_quant_incr_limit0 := 0, rc_quant_incr_limit1 := 0, rc_tgt_offset_hi := 0, rc_tgt_offset_lo := 0,
     rc_buf_thresh := [], range_min_qp := [], range_max_qp := [], range_bpg_offset := []\<rparr>"

definition rc_base_ok :: "DSC_OUTPUT_PARAMS \<Rightarrow> bool" where
  "rc_base_ok out \<longleftrightarrow>
     rc_buf_thresh out = rcBufThresh \<and> rc_edge_factor out = 6 \<and>
     rc_tgt_offset_hi out = 3 \<and> rc_tgt_offset_lo out = 3 \<and>
     unat (flatness_min_qp out) \<le> 11 \<and> unat (flatness_max_qp out) \<le> 20 \<and>
     unat (rc_quant_incr_limit0 out) \<le> 19 \<and> unat (rc_quant_incr_limit1 out) \<le> 19"

lemma rcBufThresh_masked: "map (\<lambda>t. t AND push_bit 6 0xFF) rcBufThresh = rcBufThresh"
  by (simp add: rcBufThresh_def)

lemma rc_param_base_ok:
  assumes "bits_per_component out \<in> {8, 10, 12}" and "m = 0 \<or> m = 1"
  shows "rc_base_ok (rc_param_base ((bits_per_component out - 8) * 2 - m) det out)"
  using assms unfolding rc_base_ok_def rc_param_base_def rcBufThresh_masked
  by (elim insertE emptyE disjE) simp_all

lemma index_422:
  assumes "192 \<le> unat (bpp :: NvU32)" "unat bpp \<le> 64 * n"
  shows "unat (bpp div 16 - 12) \<le> 4 * n - 12"
  using assms by (subst unat_sub_nowrap) simp_all

lemma index_444:
  assumes "96 \<le> unat (bpp :: NvU32)" "unat bpp \<le> 48 * n" "n \<le> 12"
  shows "unat ((2 * (bpp - 6 * 16)) div 16) \<le> 6 * n - 12"
proof -
  have a: "unat (bpp - 6 * 16) = unat bpp - 96" using assms(1) by (subst unat_sub_nowrap) simp_all
  then have b: "unat (2 * (bpp - 6 * 16)) = 2 * (unat bpp - 96)"
    using assms(2,3) by (subst unat_mult_nowrap) simp_all
  have "2 * (unat bpp - 96) \<le> 16 * (6 * n - 12)" using assms by simp
  then have "(2 * (unat bpp - 96)) div 16 \<le> 6 * n - 12" by simp
  then show ?thesis using b by simp
qed

lemma qp_tables_shape:
  assumes "bpc \<in> {8, 10, 12 :: NvU32}"
  shows "qp_table_ok (4 * unat bpc - 11) (fst (qp_tables_422 (bpc - 8))) (snd (qp_tables_422 (bpc - 8)))"
    and "qp_table_ok (6 * unat bpc - 11) (fst (qp_tables_444 (bpc - 8))) (snd (qp_tables_444 (bpc - 8)))"
  using assms by (elim insertE emptyE; simp add: qp_tables_422_def qp_tables_444_def qp_tables_ok)+

lemma qp_columns_422:
  assumes "bits_per_component out \<in> {8, 10, 12}" "192 \<le> unat (bits_per_pixel out)"
    "unat (bits_per_pixel out) \<le> 64 * unat (bits_per_component out)"
  defines "t \<equiv> qp_tables_422 (bits_per_component out - 8)" and "idx \<equiv> bits_per_pixel out div 16 - 12"
  shows "\<exists>mins maxs. qp_column (fst t) idx = Some mins \<and> qp_column (snd t) idx = Some maxs \<and> qp_ranges mins maxs"
proof -
  have "unat idx \<le> 4 * unat (bits_per_component out) - 12"
    unfolding idx_def using assms(2,3) by (rule index_422)
  moreover have "8 \<le> unat (bits_per_component out)" using assms(1) by auto
  ultimately show ?thesis
    unfolding t_def by (intro qp_columns_ranges [OF qp_tables_shape(1) [OF assms(1)]]) simp
qed

lemma qp_columns_444:
  assumes "bits_per_component out \<in> {8, 10, 12}" "96 \<le> unat (bits_per_pixel out)"
    "unat (bits_per_pixel out) \<le> 48 * unat (bits_per_component out)"
  defines "t \<equiv> qp_tables_444 (bits_per_component out - 8)" and "idx \<equiv> 2 * (bits_per_pixel out - 6 * 16) div 16"
  shows "\<exists>mins maxs. qp_column (fst t) idx = Some mins \<and> qp_column (snd t) idx = Some maxs \<and> qp_ranges mins maxs"
proof -
  have b: "8 \<le> unat (bits_per_component out)" "unat (bits_per_component out) \<le> 12" using assms(1) by auto
  then have "unat idx \<le> 6 * unat (bits_per_component out) - 12"
    unfolding idx_def using assms(2,3) index_444 by blast
  with b(1) show ?thesis
    unfolding t_def by (intro qp_columns_ranges [OF qp_tables_shape(2) [OF assms(1)]]) simp
qed

lemma rc_fields_updates [simp]:
  "rc_fields (o1\<lparr>range_min_qp := a, range_max_qp := b, range_bpg_offset := c\<rparr>) = rc_fields o1"
  "rc_fields (rc_param_base q d o1) = rc_fields o1"
  by (simp_all add: rc_fields_def rc_param_base_def)

lemma rc_fields_ok_updates:
  "rc_base_ok o1 \<Longrightarrow> qp_ranges a b \<Longrightarrow> offsets_ok c \<Longrightarrow>
   rc_fields_ok (o1\<lparr>range_min_qp := a, range_max_qp := b, range_bpg_offset := c\<rparr>)"
  by (simp add: rc_base_ok_def rc_fields_ok_def)

lemma DSC_PpsCalcRcParam_ok:
  assumes "rc_index_ok out"
  shows "returns (DSC_PpsCalcRcParam out)
    (\<lambda>r. fst r = NVT_STATUS_SUCCESS \<and> rc_fields (snd r) = rc_fields out \<and> rc_fields_ok (snd r))"
proof -
  have bpc: "bits_per_component out \<in> {8, 10, 12}" using assms by (simp add: rc_index_ok_def)
  then have shl: "\<exists>d. c_shl 2 (bits_per_component out - 8) = Some d"
    by (elim insertE emptyE) (simp_all add: c_shl_def)
  define m where "m = (if convert_rgb out = 0 \<and> dsc_version_minor out = 1 then 1 else 0 :: NvU32)"
  have m: "m = 0 \<or> m = 1" by (simp add: m_def)
  have keep: "native_422 (rc_param_base q d out) = native_422 out" for q d by (simp add: rc_param_base_def)
  obtain d where d: "c_shl 2 (bits_per_component out - 8) = Some d" using shl by blast
  note base = rc_param_base_ok [OF bpc m, of d]
  show ?thesis
  proof (cases "native_422 out = 0")
    case False
    then obtain mins maxs where
      q: "qp_column (fst (qp_tables_422 (bits_per_component out - 8))) (bits_per_pixel out div 16 - 12) = Some mins"
        "qp_column (snd (qp_tables_422 (bits_per_component out - 8))) (bits_per_pixel out div 16 - 12) = Some maxs"
        "qp_ranges mins maxs"
      using qp_columns_422 [OF bpc] assms by (auto simp: rc_index_ok_def)
    then show ?thesis
      using False base range_bpg_offsets_ok(1)
      by (simp add: DSC_PpsCalcRcParam_def d m_def [symmetric] keep returns_Some rc_fields_ok_updates)
  next
    case True
    then obtain mins maxs where
      q: "qp_column (fst (qp_tables_444 (bits_per_component out - 8))) (2 * (bits_per_pixel out - 6 * 16) div 16) = Some mins"
        "qp_column (snd (qp_tables_444 (bits_per_component out - 8))) (2 * (bits_per_pixel out - 6 * 16) div 16) = Some maxs"
        "qp_ranges mins maxs"
      using qp_columns_444 [OF bpc] assms by (auto simp: rc_index_ok_def)
    from qp_ranges_modify [OF q(3) m] show ?thesis
      using True base range_bpg_offsets_ok(2) q
      unfolding DSC_PpsCalcRcParam_def d m_def [symmetric] Let_def
      by (simp add:  keep returns_Some rc_fields_ok_updates)
  qed
qed

lemma qp_column_None:
  "qp_table_ok cols mn mx \<Longrightarrow> cols \<le> unat idx \<Longrightarrow> qp_column mn idx = None"
  using qp_table_okD(1) [of cols mn mx] qp_table_okD(3) [of cols mn mx 0]
  by (cases mn) (auto simp: qp_column_def c_nth_def)

lemma index_444_exact:
  assumes "96 \<le> unat (bpp :: NvU32)" "unat bpp \<le> 65535"
  shows "unat (2 * (bpp - 6 * 16) div 16) = (unat bpp - 96) div 8"
proof -
  have a: "unat (bpp - 6 * 16) = unat bpp - 96" using assms(1) by (subst unat_sub_nowrap) simp_all
  then have "unat (2 * (bpp - 6 * 16)) = 2 * (unat bpp - 96)"
    using assms(2) by (subst unat_mult_nowrap) simp_all
  then show ?thesis by simp
qed

section \<open>Properties\<close>

text \<open>
  C20: at the bit depths and rates of \<open>rc_index_ok\<close> \<open>DSC_PpsCalcRcParam\<close> reads every table inside its rows,
  succeeds, changes no field outside the rate-control parameter set, and yields fifteen non-empty
  quantisation ranges up to 23, fifteen offsets between -12 and 10 and the constant thresholds.
\<close>

theorem rc_param_sound:
  assumes "rc_index_ok out"
  shows "\<exists>out'. DSC_PpsCalcRcParam out = Some (NVT_STATUS_SUCCESS, out') \<and>
    rc_fields out' = rc_fields out \<and> rc_fields_ok out'"
  using DSC_PpsCalcRcParam_ok [OF assms] by (auto simp: returns_def)

theorem rc_param_sound_witness:
  "\<exists>out'. DSC_PpsCalcRcParam (zero_output\<lparr>bits_per_component := 8, bits_per_pixel := 128\<rparr>) =
     Some (NVT_STATUS_SUCCESS, out') \<and> rc_fields_ok out'"
  using rc_param_sound [of "zero_output\<lparr>bits_per_component := 8, bits_per_pixel := 128\<rparr>"]
  by (auto simp: rc_index_ok_def zero_output_def)

text \<open>
  C21: outside native 4:2:2 \<open>DSC_PpsCalcRcParam\<close> reads past the end of a table row exactly when the rate
  reaches half a bit above three times the bit depth; nothing in the function itself prevents it.
\<close>

theorem rc_param_table_bound:
  assumes "bits_per_component out \<in> {8, 10, 12}" and "native_422 out = 0"
    and "96 \<le> unat (bits_per_pixel out)" and "unat (bits_per_pixel out) \<le> 65535"
  shows "DSC_PpsCalcRcParam out = None \<longleftrightarrow>
    48 * unat (bits_per_component out) + 8 \<le> unat (bits_per_pixel out)"
proof -
  let ?idx = "2 * (bits_per_pixel out - 6 * 16) div 16"
  let ?t = "qp_tables_444 (bits_per_component out - 8)"
  have bpc: "8 \<le> unat (bits_per_component out)" using assms(1) by auto
  have idx: "unat ?idx < 6 * unat (bits_per_component out) - 11 \<longleftrightarrow>
      unat (bits_per_pixel out) < 48 * unat (bits_per_component out) + 8"
    unfolding index_444_exact [OF assms(3,4)] using bpc assms(3) by (simp add: div_less_iff_less_mult) linarith
  have shape: "qp_table_ok (6 * unat (bits_per_component out) - 11) (fst ?t) (snd ?t)"
    using qp_tables_shape(2) [OF assms(1)] .
  have shl: "\<exists>d. c_shl 2 (bits_per_component out - 8) = Some d"
    using assms(1) by (elim insertE emptyE) (simp_all add: c_shl_def)
  show ?thesis
  proof (cases "unat ?idx < 6 * unat (bits_per_component out) - 11")
    case True
    then obtain mins maxs where "qp_column (fst ?t) ?idx = Some mins" "qp_column (snd ?t) ?idx = Some maxs"
      using qp_columns_ranges [OF shape] by blast
    then show ?thesis
      using shl True idx assms(2) by (auto simp: DSC_PpsCalcRcParam_def Let_def rc_param_base_def)
  next
    case False
    then have "qp_column (fst ?t) ?idx = None"
      using qp_column_None [OF shape] by simp
    then show ?thesis
      using shl False idx assms(2) by (auto simp: DSC_PpsCalcRcParam_def Let_def rc_param_base_def)
  qed
qed

theorem rc_param_table_bound_witness:
  "DSC_PpsCalcRcParam (zero_output\<lparr>bits_per_component := 8, bits_per_pixel := 400\<rparr>) = None"
  using rc_param_table_bound [of "zero_output\<lparr>bits_per_component := 8, bits_per_pixel := 400\<rparr>"]
  by (simp add: zero_output_def)

end
