(* ===== verification/Dsc_Pps.thy ===== *)
theory Dsc_Pps
  imports Dsc_Slices Dsc_RcParam
begin

text \<open>
  Assembly of the picture parameter set: \<open>DSC_PpsCalcBase\<close> validates and copies the input,
  \<open>Dsc_PpsCalcHeight\<close> searches a slice height, \<open>DSC_PpsCalc\<close> runs the stages in order,
  \<open>DSC_PpsConstruct\<close> packs the result into 32 dwords and \<open>DSC_PpsDataGen\<close> does both.
\<close>

section \<open>Definitions\<close>

definition DSC_PpsCalcBase ::
  "DSC_INPUT_PARAMS \<Rightarrow> DSC_OUTPUT_PARAMS \<Rightarrow> NVT_STATUS \<times> DSC_OUTPUT_PARAMS" where
  "DSC_PpsCalcBase inp out0 =
     (let out = out0\<lparr>dsc_version_major := 1\<rparr> in
      if \<not> ENUM2_CHECK (in_dsc_version_minor inp) 1 2 then (NVT_STATUS_ERR, out)
      else let out = out\<lparr>dsc_version_minor := (if in_dsc_version_minor inp = 1 then 1 else 2),
                         pps_identifier := 0\<rparr> in
      if \<not> ENUM3_CHECK (in_bits_per_component inp) 8 10 12 then (NVT_STATUS_ERR, out)
      else let out = out\<lparr>bits_per_component := in_bits_per_component inp,
                         bits_per_pixel := in_bits_per_pixel inp\<rparr> in
      if \<not> RANGE_CHECK (in_linebuf_depth inp) DSC_DECODER_LINE_BUFFER_BIT_DEPTH_MIN
                        DSC_DECODER_LINE_BUFFER_BIT_DEPTH_MAX then (NVT_STATUS_ERR, out)
      else let out = out\<lparr>linebuf_depth := in_linebuf_depth inp\<rparr> in
      if \<not> ENUM2_CHECK (in_block_pred_enable inp) 0 1 then (NVT_STATUS_ERR, out)
      else let out = out\<lparr>block_pred_enable := (if in_block_pred_enable inp \<noteq> 0 then 1 else 0)\<rparr> in
      if \<not> ENUM2_CHECK (in_convert_rgb inp) 0 1 then (NVT_STATUS_ERR, out)
      else let out = out\<lparr>convert_rgb := (if in_convert_rgb inp \<noteq> 0 then 1 else 0)\<rparr> in
      if \<not> (if in_multi_tile inp \<noteq> 0
             then RANGE_CHECK (in_pic_width inp) 64 16384 \<and> RANGE_CHECK (in_pic_height inp) 8 16384
             else RANGE_CHECK (in_pic_height inp) 8 8192 \<and>
                  (if in_dual_mode inp \<noteq> 0 then RANGE_CHECK (in_pic_width inp) 64 8192
                   else RANGE_CHECK (in_pic_width inp) 32 5120))
      then (NVT_STATUS_ERR, out)
      else (NVT_STATUS_SUCCESS,
        out\<lparr>pic_height := in_pic_height inp, pic_width := in_pic_width inp,
            simple_422 := in_simple_422 inp, vbr_enable := 0,
            native_420 := in_native_420 inp, native_422 := in_native_422 inp,
            slice_num := in_slice_num inp, slice_width := in_slice_width inp,
            slice_height := in_slice_height inp\<rparr>))"

text \<open>
  The search upwards from the smallest permitted height (eDP on multi-tile hardware). The result is
  the status the function returned from inside the loop, or \<^const>\<open>None\<close> when the loop ended.
\<close>

lemma check_keeps_geometry:
  "DSC_PpsCheckSliceHeight out = Some (status, out') \<Longrightarrow>
   pic_height out' = pic_height out \<and> slice_height out' = slice_height out"
  using ensuresD [OF DSC_PpsCheckSliceHeight_basis] by (fastforce simp: same_basis_def)

lemma slice_height_step:
  "slice_height out < pic_height (out :: DSC_OUTPUT_PARAMS) \<Longrightarrow>
   unat (pic_height out) - unat (slice_height out + 1) < unat (pic_height out) - unat (slice_height out)"
  using unat_lt_2p32 [of "pic_height out"]
  by (simp add: word_less_nat_alt unat_add_nowrap)

function edp_height_loop :: "DSC_OUTPUT_PARAMS \<Rightarrow> (NVT_STATUS option \<times> DSC_OUTPUT_PARAMS) option" where
  "edp_height_loop out =
     (if pic_height out > slice_height out then do {
        r \<leftarrow> c_mod (pic_height out) (slice_height out);
        (found, out) \<leftarrow>
          (if r = 0 then do {
             (status, out') \<leftarrow> DSC_PpsCheckSliceHeight out;
             Some (status = NVT_STATUS_SUCCESS,
                   if status = NVT_STATUS_SUCCESS then out'
                   else out'\<lparr>slice_height := slice_height out' + 1\<rparr>)
           }
           else Some (False, out\<lparr>slice_height := slice_height out + 1\<rparr>));
        if found then Some (Some NVT_STATUS_SUCCESS, out)
        else if pic_height out = slice_height out then do {
          (status, out) \<leftarrow> DSC_PpsCheckSliceHeight out;
          Some (Some (if status = NVT_STATUS_SUCCESS then NVT_STATUS_SUCCESS
                      else NVT_STATUS_PPS_SLICE_HEIGHT_ERROR), out)
        }
        else edp_height_loop out
      }
      else Some (None, out))"
  by pat_completeness auto
termination
  by (relation "measure (\<lambda>out. unat (pic_height out) - unat (slice_height out))")
    (auto simp: bind_eq_Some_conv slice_height_step split: if_splits dest: check_keeps_geometry)

declare edp_height_loop.simps [simp del]

text \<open>The search over the divisors 1 to 16 of the picture height.\<close>

fun auto_height_loop :: "NvU32 list \<Rightarrow> pps_step" where
  "auto_height_loop [] out = Some (NVT_STATUS_PPS_SLICE_HEIGHT_ERROR, out)"
| "auto_height_loop (i # is) out = do {
     h \<leftarrow> c_div (pic_height out) i;
     let out = out\<lparr>slice_height := h\<rparr>;
     if pic_height out \<noteq> slice_height out * i then auto_height_loop is out
     else do {
       (status, out) \<leftarrow> DSC_PpsCheckSliceHeight out;
       if status = NVT_STATUS_SUCCESS then Some (NVT_STATUS_SUCCESS, out)
       else auto_height_loop is out
     }
   }"

definition forced_height_check :: pps_step where
  "forced_height_check out =
     (if \<not> RANGE_CHECK (slice_height out) 8 (pic_height out) then Some (NVT_STATUS_ERR, out)
      else do {
        r \<leftarrow> c_mod (pic_height out) (slice_height out);
        if r \<noteq> 0 then Some (NVT_STATUS_PPS_SLICE_HEIGHT_ERROR, out)
        else do {
          (status, out) \<leftarrow> DSC_PpsCheckSliceHeight out;
          Some (if status \<noteq> NVT_STATUS_SUCCESS then NVT_STATUS_PPS_SLICE_HEIGHT_ERROR
                else NVT_STATUS_SUCCESS, out)
        }
      })"

definition Dsc_PpsCalcHeight :: "DSC_INPUT_PARAMS \<Rightarrow> pps_step" where
  "Dsc_PpsCalcHeight inp out =
     (if in_multi_tile inp \<noteq> 0 \<and> in_eDP inp \<noteq> 0 then
        (if slice_height out = 0 then do {
           h \<leftarrow> NV_CEIL 15000 (slice_width out);
           (result, out) \<leftarrow> edp_height_loop (out\<lparr>slice_height := h\<rparr>);
           (case result of Some status \<Rightarrow> Some (status, out) | None \<Rightarrow> forced_height_check out)
         }
         else forced_height_check out)
      else if slice_height out = 0 then auto_height_loop (map of_nat [1..<17]) out
      else forced_height_check out)"

definition DSC_PpsCalc :: "DSC_INPUT_PARAMS \<Rightarrow> pps_step" where
  "DSC_PpsCalc inp out =
     (case DSC_PpsCalcBase inp out of (status, out) \<Rightarrow>
      if status \<noteq> NVT_STATUS_SUCCESS then Some (status, out)
      else do {
        let out = (if in_drop_mode inp \<noteq> 0
                   then out\<lparr>bits_per_pixel := 16 * BPP_UNIT, slice_num := 2\<rparr> else out);
        let peak_throughput =
          (if native_420 out \<noteq> 0 \<or> native_422 out \<noteq> 0
           then in_peak_throughput_mode1 inp else in_peak_throughput_mode0 inp);
        (status, out) \<leftarrow> DSC_PpsCalcSliceParams (in_pixel_clkMHz inp) (in_dual_mode inp)
          (in_max_slice_num inp) (in_max_slice_width inp) (in_slice_count_mask inp)
          peak_throughput out;
        if status \<noteq> NVT_STATUS_SUCCESS then Some (status, out)
        else do {
          (status, out) \<leftarrow> DSC_PpsCalcRcInitValue out;
          if status \<noteq> NVT_STATUS_SUCCESS then Some (status, out)
          else do {
            (status, out) \<leftarrow> Dsc_PpsCalcHeight inp out;
            if status \<noteq> NVT_STATUS_SUCCESS then Some (status, out)
            else DSC_PpsCalcRcParam out
          }
        }
      })"

text \<open>The 96 bytes of the picture parameter set, one per 32-bit cell as the code keeps them.\<close>

definition pps_bytes :: "DSC_OUTPUT_PARAMS \<Rightarrow> NvU32 list" where
  "pps_bytes p =
     [push_bit 4 (dsc_version_major p) OR (dsc_version_minor p AND 0xF),
      pps_identifier p,
      0,
      push_bit 4 (bits_per_component p) OR (linebuf_depth p AND 0xF),
      push_bit 5 (block_pred_enable p) OR push_bit 4 (convert_rgb p) OR
        push_bit 3 (simple_422 p) OR push_bit 2 (vbr_enable p) OR MSB (bits_per_pixel p AND 0x3FF),
      LSB (bits_per_pixel p),
      MSB (pic_height p), LSB (pic_height p),
      MSB (pic_width p), LSB (pic_width p),
      MSB (slice_height p), LSB (slice_height p),
      MSB (slice_width p), LSB (slice_width p),
      MSB (chunk_size p), LSB (chunk_size p),
      MSB (initial_xmit_delay p AND 0x3FF), LSB (initial_xmit_delay p),
      MSB (initial_dec_delay p), LSB (initial_dec_delay p),
      0,
      initial_scale_value p AND 0x3F,
      MSB (scale_increment_interval p), LSB (scale_increment_interval p),
      MSB (scale_decrement_interval p AND 0xFFF), LSB (scale_decrement_interval p),
      0,
      first_line_bpg_offset p AND 0x1F,
      MSB (nfl_bpg_offset p), LSB (nfl_bpg_offset p),
      MSB (slice_bpg_offset p), LSB (slice_bpg_offset p),
      MSB (initial_offset p), LSB (initial_offset p),
      MSB (final_offset p), LSB (final_offset p),
      flatness_min_qp p AND 0x1F,
      flatness_max_qp p AND 0x1F,
      MSB (rc_model_size p), LSB (rc_model_size p),
      rc_edge_factor p AND 0xF,
      rc_quant_incr_limit0 p AND 0x1F,
      rc_quant_incr_limit1 p AND 0x1F,
      push_bit 4 (rc_tgt_offset_hi p) OR (rc_tgt_offset_lo p AND 0xF)]
     @ map (\<lambda>i. drop_bit 6 (rc_buf_thresh p ! i)) [0..<14]
     @ concat (map (\<lambda>i.
         let x = push_bit 11 (range_min_qp p ! i AND 0x1F) OR
                 push_bit 6 (range_max_qp p ! i AND 0x1F) OR
                 (range_bpg_offset p ! i AND 0x3F)
         in [MSB x, LSB x]) [0..<15])
     @ [push_bit 1 (native_420 p) OR native_422 p,
        second_line_bpg_offset p AND 0x1F,
        MSB (nsl_bpg_offset p), LSB (nsl_bpg_offset p),
        MSB (second_line_offset_adj p), LSB (second_line_offset_adj p),
        0,
        0]"

definition DSC_PpsConstruct :: "DSC_OUTPUT_PARAMS \<Rightarrow> NvU32 list" where
  "DSC_PpsConstruct p =
     (let pps = pps_bytes p in
      map (\<lambda>i. push_bit 0 (pps ! (i * 4 + 0)) OR push_bit 8 (pps ! (i * 4 + 1)) OR
               push_bit 16 (pps ! (i * 4 + 2)) OR push_bit 24 (pps ! (i * 4 + 3))) [0..<24]
      @ replicate 8 0)"

text \<open>
  The result is the status and the destination array; a null destination stays null, and a failed
  calculation leaves the array alone.
\<close>

definition DSC_PpsDataGen ::
  "DSC_INPUT_PARAMS \<Rightarrow> NvU32 list option \<Rightarrow> (NVT_STATUS \<times> NvU32 list option) option" where
  "DSC_PpsDataGen inp dest = do {
     (ret, out) \<leftarrow> DSC_PpsCalc inp zero_output;
     Some (ret, if ret \<noteq> NVT_STATUS_SUCCESS then dest
                else map_option (\<lambda>_. DSC_PpsConstruct out) dest)
   }"

section \<open>The slice-height search\<close>

text \<open>The basis of the checks apart from the slice height itself.\<close>

definition height_basis :: "DSC_OUTPUT_PARAMS \<Rightarrow> DSC_OUTPUT_PARAMS \<Rightarrow> bool" where
  "height_basis a b \<longleftrightarrow> same_basis (a\<lparr>slice_height := 0\<rparr>) (b\<lparr>slice_height := 0\<rparr>)"

definition height_ready :: "DSC_OUTPUT_PARAMS \<Rightarrow> bool" where
  "height_ready out \<longleftrightarrow> rate_ready (out\<lparr>slice_height := 1\<rparr>) \<and>
     8 \<le> unat (pic_height out) \<and> unat (pic_height out) \<le> 16384"

definition height_ok :: "DSC_OUTPUT_PARAMS \<Rightarrow> bool" where
  "height_ok out \<longleftrightarrow> 1 \<le> unat (slice_height out) \<and> unat (slice_height out) dvd unat (pic_height out) \<and>
     scale_fields_ok out \<and> bpg_fields_ok out"

abbreviation height_post :: "DSC_OUTPUT_PARAMS \<Rightarrow> NVT_STATUS \<times> DSC_OUTPUT_PARAMS \<Rightarrow> bool" where
  "height_post out r \<equiv> height_basis out (snd r) \<and> (fst r = NVT_STATUS_SUCCESS \<longrightarrow> height_ok (snd r))"

lemma height_basis_refl [simp]: "height_basis a a"
  by (simp add: height_basis_def)

lemma height_basis_set [simp]: "height_basis a (b\<lparr>slice_height := h\<rparr>) = height_basis a b"
  by (simp add: height_basis_def)

lemma height_basis_trans [trans]: "height_basis a b \<Longrightarrow> height_basis b c \<Longrightarrow> height_basis a c"
  unfolding height_basis_def by (rule same_basis_trans)

lemma same_basis_height: "same_basis a b \<Longrightarrow> height_basis a b \<and> slice_height b = slice_height a"
  by (simp add: same_basis_def height_basis_def)

lemma height_basis_ready: "height_basis a b \<Longrightarrow> height_ready a \<Longrightarrow> height_ready b"
  by (simp add: height_basis_def same_basis_def height_ready_def rate_ready_def)

lemma height_basis_pic: "height_basis a b \<Longrightarrow> pic_height b = pic_height a"
  by (simp add: height_basis_def same_basis_def)

lemma height_ready_rate:
  "height_ready out \<Longrightarrow> 1 \<le> unat (slice_height out) \<Longrightarrow> unat (slice_height out) \<le> unat (pic_height out) \<Longrightarrow> rate_ready out"
  by (simp add: height_ready_def rate_ready_def)

text \<open>A check at a divisor of the picture height.\<close>

lemma check_at_divisor:
  assumes "height_ready out" "1 \<le> unat (slice_height out)" "unat (slice_height out) dvd unat (pic_height out)"
  shows "returns (DSC_PpsCheckSliceHeight out)
    (\<lambda>r. height_basis out (snd r) \<and> slice_height (snd r) = slice_height out \<and>
         (fst r = NVT_STATUS_SUCCESS \<longrightarrow> height_ok (snd r)))"
proof -
  have "0 < unat (pic_height out)" using assms(1) by (simp add: height_ready_def)
  then have "unat (slice_height out) \<le> unat (pic_height out)" using assms(3) by (intro dvd_imp_le)
  then have "rate_ready out" using height_ready_rate assms by blast
  from DSC_PpsCheckSliceHeight_ok [OF this] show ?thesis
  proof (rule returns_weaken)
    fix r assume r: "same_basis out (snd r) \<and>
      (fst r = NVT_STATUS_SUCCESS \<longrightarrow> scale_fields_ok (snd r) \<and> bpg_fields_ok (snd r))"
    then have "slice_height (snd r) = slice_height out" "pic_height (snd r) = pic_height out"
      by (simp_all add: same_basis_def)
    with r assms(2,3) same_basis_height [of out "snd r"] show "height_basis out (snd r) \<and>
      slice_height (snd r) = slice_height out \<and> (fst r = NVT_STATUS_SUCCESS \<longrightarrow> height_ok (snd r))"
      by (simp add: height_ok_def)
  qed
qed

lemma forced_height_check_ok:
  assumes "height_ready out"
  shows "returns (forced_height_check out) (height_post out)"
proof (cases "RANGE_CHECK (slice_height out) 8 (pic_height out)")
  case False
  then show ?thesis by (simp add: forced_height_check_def returns_Some)
next
  case True
  have "unat (pic_height out) < 2147483648" using assms by (simp add: height_ready_def)
  with True have h: "8 \<le> unat (slice_height out)" "unat (slice_height out) \<le> unat (pic_height out)"
    by (simp_all add: RANGE_CHECK_unat)
  then have nz: "slice_height out \<noteq> 0" by auto
  show ?thesis
  proof (cases "pic_height out mod slice_height out = 0")
    case False
    then show ?thesis using True nz by (simp add: forced_height_check_def returns_Some)
  next
    case dvd: True
    then have "unat (slice_height out) dvd unat (pic_height out)"
      by (metis unat_0 unat_mod_word mod_0_imp_dvd)
    then have "returns (DSC_PpsCheckSliceHeight out) (height_post out)"
      using check_at_divisor [OF assms] h(1) by (auto elim!: returns_weaken)
    then have "returns (do { (status, out) \<leftarrow> DSC_PpsCheckSliceHeight out;
          Some (if status \<noteq> NVT_STATUS_SUCCESS then NVT_STATUS_PPS_SLICE_HEIGHT_ERROR
                else NVT_STATUS_SUCCESS, out) }) (height_post out)"
      by (rule returns_bind) (auto intro!: returns_Some)
    then show ?thesis using True nz dvd by (simp add: forced_height_check_def)
  qed
qed

lemma auto_height_loop_ok:
  "height_ready out \<Longrightarrow> (\<And>i. i \<in> set is \<Longrightarrow> i \<noteq> 0) \<Longrightarrow>
   returns (auto_height_loop is out) (height_post out)"
proof (induction "is" arbitrary: out)
  case Nil
  then show ?case by (simp add: returns_Some)
next
  case (Cons i "is")
  have i: "i \<noteq> 0" using Cons.prems(2) by simp
  define o1 where "o1 = out\<lparr>slice_height := pic_height out div i\<rparr>"
  have loop: "auto_height_loop (i # is) out =
     (if pic_height o1 \<noteq> slice_height o1 * i then auto_height_loop is o1
      else do { (status, out) \<leftarrow> DSC_PpsCheckSliceHeight o1;
        if status = NVT_STATUS_SUCCESS then Some (NVT_STATUS_SUCCESS, out)
        else auto_height_loop is out })"
    using i by (simp add: o1_def Let_def)
  have b: "height_basis out o1" by (simp add: o1_def)
  have ready: "height_ready o1" using height_basis_ready [OF b Cons.prems(1)] .
  have next_ok: "returns (auto_height_loop is o2) (height_post out)" if "height_basis out o2" for o2
  proof (rule returns_weaken [OF Cons.IH])
    show "height_ready o2" using height_basis_ready [OF that Cons.prems(1)] .
    show "\<And>j. j \<in> set is \<Longrightarrow> j \<noteq> 0" using Cons.prems(2) by simp
  qed (use that height_basis_trans in blast)
  show ?case
  proof (cases "pic_height o1 = slice_height o1 * i")
    case False
    then show ?thesis
      unfolding loop using next_ok [OF b] by simp
  next
    case True
    have pic: "pic_height o1 = pic_height out" "slice_height o1 = pic_height out div i" by (simp_all add: o1_def)
    have "unat (pic_height out) div unat i * unat i < 4294967296"
      using le_less_trans [OF div_times_less_eq_dividend unat_lt_2p32] .
    then have m: "unat (slice_height o1 * i) = unat (slice_height o1) * unat i"
      unfolding pic by (subst unat_mult_nowrap) simp_all
    then have dvd: "unat (slice_height o1) dvd unat (pic_height o1)" using True by (metis dvd_triv_left)
    have "0 < unat (pic_height o1)" using ready by (simp add: height_ready_def)
    then have "1 \<le> unat (slice_height o1)" using dvd by (auto intro: Suc_leI dvd_pos_nat)
    from check_at_divisor [OF ready this dvd]
    have "returns (do { (status, out) \<leftarrow> DSC_PpsCheckSliceHeight o1;
        if status = NVT_STATUS_SUCCESS then Some (NVT_STATUS_SUCCESS, out)
        else auto_height_loop is out }) (height_post out)"
      by (rule returns_bind) (use height_basis_trans [OF b] in \<open>auto intro!: returns_Some next_ok\<close>)
    then show ?thesis
      unfolding loop using True by simp
  qed
qed

text \<open>One iteration of the upward search either decides or moves to the next height.\<close>

lemma edp_step:
  assumes "height_ready out" "1 \<le> unat (slice_height out)" "slice_height out < pic_height out"
  shows "returns (if pic_height out mod slice_height out = 0 then do {
             (status, out') \<leftarrow> DSC_PpsCheckSliceHeight out;
             Some (status = NVT_STATUS_SUCCESS,
                   if status = NVT_STATUS_SUCCESS then out'
                   else out'\<lparr>slice_height := slice_height out' + 1\<rparr>)
           }
           else Some (False, out\<lparr>slice_height := slice_height out + 1\<rparr>))
     (\<lambda>(found, out'). height_basis out out' \<and>
        (if found then height_ok out' else slice_height out' = slice_height out + 1))"
proof (cases "pic_height out mod slice_height out = 0")
  case False
  then show ?thesis by (simp add: returns_Some)
next
  case True
  then have "unat (slice_height out) dvd unat (pic_height out)"
    by (metis unat_0 unat_mod_word mod_0_imp_dvd)
  note check = check_at_divisor [OF assms(1,2) this]
  show ?thesis
    by (subst if_P [OF True], rule returns_bind [OF check]) (auto intro!: returns_Some)
qed

lemma edp_height_loop_ok:
  "height_ready out \<Longrightarrow> 1 \<le> unat (slice_height out) \<Longrightarrow>
   returns (edp_height_loop out)
     (\<lambda>r. height_basis out (snd r) \<and> (fst r = Some NVT_STATUS_SUCCESS \<longrightarrow> height_ok (snd r)))"
proof (induction "unat (pic_height out) - unat (slice_height out)" arbitrary: out rule: less_induct)
  case less
  show ?case
  proof (cases "slice_height out < pic_height out")
    case False
    then show ?thesis by (subst edp_height_loop.simps) (simp add: returns_Some)
  next
    case True
    have nz: "slice_height out \<noteq> 0" using less.prems(2) by auto
    have rest: "returns (if found then Some (Some NVT_STATUS_SUCCESS, o1)
        else if pic_height o1 = slice_height o1 then do {
          (status, out) \<leftarrow> DSC_PpsCheckSliceHeight o1;
          Some (Some (if status = NVT_STATUS_SUCCESS then NVT_STATUS_SUCCESS
                      else NVT_STATUS_PPS_SLICE_HEIGHT_ERROR), out)
        }
        else edp_height_loop o1)
       (\<lambda>r. height_basis out (snd r) \<and> (fst r = Some NVT_STATUS_SUCCESS \<longrightarrow> height_ok (snd r)))"
      if b: "height_basis out o1" and o1: "if found then height_ok o1 else slice_height o1 = slice_height out + 1"
      for found o1
    proof -
      have ready: "height_ready o1" using height_basis_ready [OF b less.prems(1)] .
      have pic: "pic_height o1 = pic_height out" using height_basis_pic [OF b] .
      have step: "unat (pic_height o1) - unat (slice_height o1) < unat (pic_height out) - unat (slice_height out)"
        "1 \<le> unat (slice_height o1)" if "\<not> found"
      proof -
        have "slice_height o1 = slice_height out + 1" using o1 that by simp
        then show "unat (pic_height o1) - unat (slice_height o1) < unat (pic_height out) - unat (slice_height out)"
          using slice_height_step [OF True] pic by simp
        show "1 \<le> unat (slice_height o1)"
          using \<open>slice_height o1 = _\<close> True unat_lt_2p32 [of "pic_height out"]
          by (simp add: word_less_nat_alt unat_add_nowrap)
      qed
      have last: "returns (do { (status, out) \<leftarrow> DSC_PpsCheckSliceHeight o1;
          Some (Some (if status = NVT_STATUS_SUCCESS then NVT_STATUS_SUCCESS
                      else NVT_STATUS_PPS_SLICE_HEIGHT_ERROR), out) })
         (\<lambda>r. height_basis out (snd r) \<and> (fst r = Some NVT_STATUS_SUCCESS \<longrightarrow> height_ok (snd r)))"
        if "pic_height o1 = slice_height o1" "\<not> found"
        by (rule returns_bind [OF check_at_divisor [OF ready step(2) [OF that(2)]]])
          (use that(1) height_basis_trans [OF b] in \<open>auto intro!: returns_Some\<close>)
      have again: "returns (edp_height_loop o1)
         (\<lambda>r. height_basis out (snd r) \<and> (fst r = Some NVT_STATUS_SUCCESS \<longrightarrow> height_ok (snd r)))"
        if "\<not> found"
        by (rule returns_weaken [OF less.hyps [OF step(1) [OF that] ready step(2) [OF that]]])
          (use height_basis_trans [OF b] in blast)
      show ?thesis
        using o1 b last again by (auto intro!: returns_If returns_Some)
    qed
    show ?thesis
      by (subst edp_height_loop.simps, subst if_P [OF True], rule returns_mod [OF nz],
          rule returns_bind [OF edp_step [OF less.prems True]], rule returns_prod, rule rest) auto
  qed
qed

lemma Dsc_PpsCalcHeight_ok:
  assumes "height_ready out" "1 \<le> unat (slice_width out)" "unat (slice_width out) \<le> 65536"
  shows "returns (Dsc_PpsCalcHeight inp out) (height_post out)"
proof -
  have w: "slice_width out \<noteq> 0" using assms(2) by auto
  have pos: "1 \<le> unat ((15000 + slice_width out - 1) div slice_width out)"
  proof -
    have "\<not> unat ((15000 + slice_width out - 1) div slice_width out) \<le> 0"
      using w assms(3) by (subst unat_ceil_div_le_iff) simp_all
    then show ?thesis by simp
  qed
  have edp: "returns (do { (result, out) \<leftarrow> edp_height_loop (out\<lparr>slice_height := h\<rparr>);
       (case result of Some status \<Rightarrow> Some (status, out) | None \<Rightarrow> forced_height_check out) }) (height_post out)"
    if "1 \<le> unat h" for h
  proof (rule returns_bind [OF edp_height_loop_ok])
    show "height_ready (out\<lparr>slice_height := h\<rparr>)" using height_basis_ready [OF _ assms(1)] by simp
    show "1 \<le> unat (slice_height (out\<lparr>slice_height := h\<rparr>))" using that by simp
    fix r assume r: "height_basis (out\<lparr>slice_height := h\<rparr>) (snd r) \<and>
        (fst r = Some NVT_STATUS_SUCCESS \<longrightarrow> height_ok (snd r))"
    then have b: "height_basis out (snd r)" using height_basis_trans [of out "out\<lparr>slice_height := h\<rparr>"] by simp
    have "returns (forced_height_check (snd r)) (height_post out)"
      by (rule returns_weaken [OF forced_height_check_ok [OF height_basis_ready [OF b assms(1)]]])
        (use height_basis_trans [OF b] in blast)
    with r b show "returns (case r of (result, out) \<Rightarrow>
        (case result of Some status \<Rightarrow> Some (status, out) | None \<Rightarrow> forced_height_check out)) (height_post out)"
      by (auto split: prod.splits option.splits intro!: returns_Some)
  qed
  have ne: "i \<in> set (map of_nat [1..<17]) \<Longrightarrow> i \<noteq> (0 :: NvU32)" for i
    by (auto simp: upt_rec)
  show ?thesis
    unfolding Dsc_PpsCalcHeight_def NV_CEIL_def
    by (intro returns_If returns_div edp forced_height_check_ok auto_height_loop_ok assms(1) w pos ne)
qed

section \<open>The calculation as a whole\<close>

text \<open>What \<open>DSC_PpsCalcBase\<close> has checked when it succeeds, and what it has copied.\<close>

definition base_ok :: "DSC_INPUT_PARAMS \<Rightarrow> DSC_OUTPUT_PARAMS \<Rightarrow> bool" where
  "base_ok inp out \<longleftrightarrow>
     dsc_version_major out = 1 \<and> dsc_version_minor out \<in> {1, 2} \<and> pps_identifier out = 0 \<and>
     dsc_version_minor out = in_dsc_version_minor inp \<and>
     bits_per_component out \<in> {8, 10, 12} \<and> bits_per_component out = in_bits_per_component inp \<and>
     8 \<le> unat (linebuf_depth out) \<and> unat (linebuf_depth out) \<le> 13 \<and>
     block_pred_enable out = (if in_block_pred_enable inp \<noteq> 0 then 1 else 0) \<and>
     convert_rgb out = (if in_convert_rgb inp \<noteq> 0 then 1 else 0) \<and> vbr_enable out = 0 \<and>
     32 \<le> unat (pic_width out) \<and> unat (pic_width out) \<le> 16384 \<and> pic_width out = in_pic_width inp \<and>
     8 \<le> unat (pic_height out) \<and> unat (pic_height out) \<le> 16384 \<and> pic_height out = in_pic_height inp \<and>
     simple_422 out = in_simple_422 inp \<and> native_420 out = in_native_420 inp \<and>
     native_422 out = in_native_422 inp"

lemma base_okD:
  assumes "base_ok inp out"
  shows "bits_per_component out \<in> {8, 10, 12}" "bits_per_component out = in_bits_per_component inp"
    "in_bits_per_component inp \<in> {8, 10, 12}"
    "32 \<le> unat (pic_width out)" "unat (pic_width out) \<le> 16384"
    "8 \<le> unat (pic_height out)" "unat (pic_height out) \<le> 16384"
    "native_420 out = in_native_420 inp" "native_422 out = in_native_422 inp"
  using assms unfolding base_ok_def by metis+

lemma base_ok_updates [simp]:
  "base_ok inp (out\<lparr>slice_num := x\<rparr>) = base_ok inp out"
  "base_ok inp (out\<lparr>slice_width := x\<rparr>) = base_ok inp out"
  "base_ok inp (out\<lparr>groups_per_line := x\<rparr>) = base_ok inp out"
  "base_ok inp (out\<lparr>chunk_size := x\<rparr>) = base_ok inp out"
  "base_ok inp (out\<lparr>bits_per_pixel := x\<rparr>) = base_ok inp out"
  by (simp_all add: base_ok_def)

lemma err_guard:
  "(if c then (NVT_STATUS_ERR, x) else r) = (NVT_STATUS_SUCCESS, out) \<longleftrightarrow>
   \<not> c \<and> r = (NVT_STATUS_SUCCESS, out)"
  by simp

lemma size_check:
  assumes "if b then RANGE_CHECK w 64 16384 \<and> RANGE_CHECK h 8 16384
           else RANGE_CHECK h 8 8192 \<and> (if d then RANGE_CHECK w 64 8192 else RANGE_CHECK w 32 5120)"
  shows "32 \<le> unat w \<and> unat w \<le> 16384 \<and> 8 \<le> unat h \<and> unat h \<le> 16384"
  using assms by (auto simp: RANGE_CHECK_unat split: if_split_asm)

lemma DSC_PpsCalcBase_success:
  assumes "DSC_PpsCalcBase inp out0 = (NVT_STATUS_SUCCESS, out)"
  shows "base_ok inp out" "bits_per_pixel out = in_bits_per_pixel inp"
    "slice_num out = in_slice_num inp" "slice_width out = in_slice_width inp"
proof -
  note A = assms [unfolded DSC_PpsCalcBase_def Let_def err_guard not_not prod.inject]
  then have checks: "ENUM2_CHECK (in_dsc_version_minor inp) 1 2" "ENUM3_CHECK (in_bits_per_component inp) 8 10 12"
    "RANGE_CHECK (in_linebuf_depth inp) 8 13"
    and size: "if in_multi_tile inp \<noteq> 0
       then RANGE_CHECK (in_pic_width inp) 64 16384 \<and> RANGE_CHECK (in_pic_height inp) 8 16384
       else RANGE_CHECK (in_pic_height inp) 8 8192 \<and>
            (if in_dual_mode inp \<noteq> 0 then RANGE_CHECK (in_pic_width inp) 64 8192
             else RANGE_CHECK (in_pic_width inp) 32 5120)"
    by blast+
  from A have out: "out = out0\<lparr>dsc_version_major := 1,
    dsc_version_minor := (if in_dsc_version_minor inp = 1 then 1 else 2), pps_identifier := 0,
    bits_per_component := in_bits_per_component inp, bits_per_pixel := in_bits_per_pixel inp,
    linebuf_depth := in_linebuf_depth inp,
    block_pred_enable := (if in_block_pred_enable inp \<noteq> 0 then 1 else 0),
    convert_rgb := (if in_convert_rgb inp \<noteq> 0 then 1 else 0),
    pic_height := in_pic_height inp, pic_width := in_pic_width inp,
    simple_422 := in_simple_422 inp, vbr_enable := 0,
    native_420 := in_native_420 inp, native_422 := in_native_422 inp,
    slice_num := in_slice_num inp, slice_width := in_slice_width inp,
    slice_height := in_slice_height inp\<rparr>"
    by simp
  show "base_ok inp out"
    unfolding base_ok_def out using checks size_check [OF size]
    by (auto simp: RANGE_CHECK_unat ENUM2_CHECK_def ENUM3_CHECK_def)
  show "bits_per_pixel out = in_bits_per_pixel inp"
    "slice_num out = in_slice_num inp" "slice_width out = in_slice_width inp"
    unfolding out by simp_all
qed

text \<open>
  The requests the generator hands to the calculation: no forced value outside its range, and a rate
  for which the quantisation tables have a column.
\<close>

definition calc_ready :: "DSC_INPUT_PARAMS \<Rightarrow> bool" where
  "calc_ready inp \<longleftrightarrow>
     in_max_slice_width inp \<noteq> 0 \<and> unat (in_max_slice_width inp) \<le> 65535 \<and>
     unat (in_pixel_clkMHz inp) \<le> 4294966295 \<and> unat (in_slice_width inp) \<le> 65536 \<and>
     unat (in_slice_num inp) \<le> 24 \<and>
     (in_bits_per_component inp \<in> {8, 10, 12} \<longrightarrow>
      (if in_native_422 inp \<noteq> 0
       then 192 \<le> unat (in_bits_per_pixel inp) \<and>
            unat (in_bits_per_pixel inp) \<le> 64 * unat (in_bits_per_component inp)
       else 96 \<le> unat (in_bits_per_pixel inp) \<and>
            unat (in_bits_per_pixel inp) \<le> 48 * unat (in_bits_per_component inp)))"

definition pps_ok :: "DSC_INPUT_PARAMS \<Rightarrow> DSC_OUTPUT_PARAMS \<Rightarrow> bool" where
  "pps_ok inp out \<longleftrightarrow> base_ok inp out \<and> init_fields_ok out \<and> height_ok out \<and> rc_fields_ok out \<and>
     rc_index_ok out \<and> slices_cover (in_slice_count_mask inp) (in_max_slice_width inp) out \<and>
     slice_geometry (in_pixel_clkMHz inp) (DSC_GetPeakThroughputMps
       (if native_420 out \<noteq> 0 \<or> native_422 out \<noteq> 0
        then in_peak_throughput_mode1 inp else in_peak_throughput_mode0 inp)) out \<and>
     bits_per_pixel out = (if in_drop_mode inp \<noteq> 0 then 256 else in_bits_per_pixel inp)"

lemma peak_le: "unat (DSC_GetPeakThroughputMps c) \<le> 1000"
  by (simp add: DSC_GetPeakThroughputMps_def)

text \<open>Facts a stage establishes survive the stages after it, which write other fields.\<close>

lemma frame_transfer: "(\<And>x. P (k x) \<longleftrightarrow> P x) \<Longrightarrow> k a = k b \<Longrightarrow> P a \<Longrightarrow> P b"
  by metis

lemma rc_index_ok_frame:
  "slice_fields a b \<Longrightarrow> rc_index_ok a \<Longrightarrow> rc_index_ok b"
  "init_fields a b \<Longrightarrow> rc_index_ok a \<Longrightarrow> rc_index_ok b"
  "height_basis a b \<Longrightarrow> rc_index_ok a \<Longrightarrow> rc_index_ok b"
  "rc_fields b = rc_fields a \<Longrightarrow> rc_index_ok a \<Longrightarrow> rc_index_ok b"
proof -
  show "slice_fields a b \<Longrightarrow> rc_index_ok a \<Longrightarrow> rc_index_ok b"
    unfolding slice_fields_def
    by (rule frame_transfer [where k = "\<lambda>x. x\<lparr>slice_num := 0, slice_width := 0, groups_per_line := 0, chunk_size := 0\<rparr>"]) (simp_all add: rc_index_ok_def)
  show "init_fields a b \<Longrightarrow> rc_index_ok a \<Longrightarrow> rc_index_ok b"
    unfolding init_fields_def
    by (rule frame_transfer [where k = "\<lambda>x. x\<lparr>rc_model_size := 0, initial_offset := 0, initial_scale_value := 0, initial_xmit_delay := 0\<rparr>"]) (simp_all add: rc_index_ok_def)
  show "height_basis a b \<Longrightarrow> rc_index_ok a \<Longrightarrow> rc_index_ok b"
    by (simp add: height_basis_def same_basis_def rc_index_ok_def cong: if_cong)
  show "rc_fields b = rc_fields a \<Longrightarrow> rc_index_ok a \<Longrightarrow> rc_index_ok b"
    by (rule frame_transfer [of rc_index_ok rc_fields]) (simp_all add: rc_index_ok_def rc_fields_def)
qed

text \<open>The conditions on base, slices and index together, and their survival.\<close>

definition stage_ok :: "DSC_INPUT_PARAMS \<Rightarrow> NvU32 \<Rightarrow> DSC_OUTPUT_PARAMS \<Rightarrow> bool" where
  "stage_ok inp code out \<longleftrightarrow> base_ok inp out \<and> rc_index_ok out \<and>
     slices_cover (in_slice_count_mask inp) (in_max_slice_width inp) out \<and>
     slice_geometry (in_pixel_clkMHz inp) (DSC_GetPeakThroughputMps code) out \<and>
     bits_per_pixel out = (if in_drop_mode inp \<noteq> 0 then 256 else in_bits_per_pixel inp)"

lemmas stage_defs = stage_ok_def base_ok_def rc_index_ok_def slices_cover_def slice_geometry_def native_width_def

lemma stage_ok_frame:
  "init_fields a b \<Longrightarrow> stage_ok inp code a \<Longrightarrow> stage_ok inp code b"
  "height_basis a b \<Longrightarrow> stage_ok inp code a \<Longrightarrow> stage_ok inp code b"
  "rc_fields b = rc_fields a \<Longrightarrow> stage_ok inp code a \<Longrightarrow> stage_ok inp code b"
proof -
  show "init_fields a b \<Longrightarrow> stage_ok inp code a \<Longrightarrow> stage_ok inp code b"
    unfolding init_fields_def
    by (rule frame_transfer [where k = "\<lambda>x. x\<lparr>rc_model_size := 0, initial_offset := 0, initial_scale_value := 0, initial_xmit_delay := 0\<rparr>"]) (simp_all add: stage_defs)
  have same: "same_basis x y \<Longrightarrow> stage_ok inp code x = stage_ok inp code y" for x y
    unfolding same_basis_def stage_defs by (elim conjE) (simp only:)
  have drop: "stage_ok inp code (x\<lparr>slice_height := 0\<rparr>) = stage_ok inp code x" for x
    by (simp add: stage_defs)
  show "height_basis a b \<Longrightarrow> stage_ok inp code a \<Longrightarrow> stage_ok inp code b"
    unfolding height_basis_def by (drule same) (simp only: drop)
  show "rc_fields b = rc_fields a \<Longrightarrow> stage_ok inp code a \<Longrightarrow> stage_ok inp code b"
    by (rule frame_transfer [of "stage_ok inp code" rc_fields]) (simp_all add: stage_defs rc_fields_def)
qed

lemma late_fields_frame:
  "height_basis a b \<Longrightarrow> init_fields_ok a \<Longrightarrow> init_fields_ok b"
  "rc_fields b = rc_fields a \<Longrightarrow> init_fields_ok a \<Longrightarrow> init_fields_ok b"
  "rc_fields b = rc_fields a \<Longrightarrow> height_ok a \<Longrightarrow> height_ok b"
proof -
  show "height_basis a b \<Longrightarrow> init_fields_ok a \<Longrightarrow> init_fields_ok b"
    by (simp add: height_basis_def same_basis_def init_fields_ok_def)
  show "rc_fields b = rc_fields a \<Longrightarrow> init_fields_ok a \<Longrightarrow> init_fields_ok b"
    by (rule frame_transfer [of init_fields_ok rc_fields]) (simp_all add: init_fields_ok_def rc_fields_def)
  show "rc_fields b = rc_fields a \<Longrightarrow> height_ok a \<Longrightarrow> height_ok b"
    by (rule frame_transfer [of height_ok rc_fields])
      (simp_all add: height_ok_def scale_fields_ok_def bpg_fields_ok_def rc_fields_def)
qed

lemma stage_height_ready:
  assumes "stage_ok inp code out" "init_fields_ok out" "unat (in_max_slice_width inp) \<le> 65536"
  shows "height_ready out" "2 \<le> unat (slice_width out)" "unat (slice_width out) \<le> 65536"
proof -
  have w: "32 \<le> unat (slice_width out)" "unat (slice_width out) \<le> 65536"
    using assms(1,3) by (simp_all add: stage_ok_def slices_cover_def slice_geometry_def)
  then show "2 \<le> unat (slice_width out)" "unat (slice_width out) \<le> 65536" by simp_all
  have n: "16 \<le> native_width out" "native_width out \<le> 65536"
    using w by (auto simp: native_width_def)
  then have "1 \<le> (native_width out + 2) div 3" "(native_width out + 2) div 3 \<le> 21846" by simp_all
  moreover have "bits_per_pixel out \<noteq> 0"
    using assms(1) by (auto simp: stage_ok_def rc_index_ok_def split: if_split_asm)
  moreover have "unat (groups_per_line out) = (native_width out + 2) div 3"
    using assms(1) by (simp add: stage_ok_def slice_geometry_def)
  moreover have "base_ok inp out" using assms(1) by (simp add: stage_ok_def)
  note base_okD(1,6,7) [OF this]
  moreover have "rc_model_size out = 8192" "2048 \<le> unat (initial_offset out)" "unat (initial_offset out) \<le> 6144"
    using assms(2) by (simp_all add: init_fields_ok_def)
  ultimately show "height_ready out"
    unfolding height_ready_def rate_ready_def by simp
qed

lemma slice_stage_ok:
  assumes R: "calc_ready inp" and B: "base_ok inp out" and
    bpp: "bits_per_pixel out = (if in_drop_mode inp \<noteq> 0 then 256 else in_bits_per_pixel inp)" and
    n: "unat (slice_num out) \<le> 24" and w: "unat (slice_width out) \<le> 65536"
  shows "returns (DSC_PpsCalcSliceParams (in_pixel_clkMHz inp) (in_dual_mode inp) (in_max_slice_num inp)
      (in_max_slice_width inp) (in_slice_count_mask inp) code out)
    (\<lambda>r. fst r = NVT_STATUS_SUCCESS \<longrightarrow> stage_ok inp code (snd r))"
proof -
  note BD = base_okD [OF B]
  have small: "8 \<le> unat (in_bits_per_component inp)" "unat (in_bits_per_component inp) \<le> 12"
    using BD(3) by auto
  have "if in_native_422 inp \<noteq> 0
    then 192 \<le> unat (in_bits_per_pixel inp) \<and>
         unat (in_bits_per_pixel inp) \<le> 64 * unat (in_bits_per_component inp)
    else 96 \<le> unat (in_bits_per_pixel inp) \<and>
         unat (in_bits_per_pixel inp) \<le> 48 * unat (in_bits_per_component inp)"
    using R BD(3) unfolding calc_ready_def by blast
  then have idx: "rc_index_ok out"
    using bpp small BD(3) unfolding rc_index_ok_def BD(2) BD(9) by (auto split: if_split_asm)
  then have "unat (bits_per_pixel out) \<le> 1024"
    using small unfolding rc_index_ok_def BD(2) by (auto split: if_split_asm)
  then have "slice_limits (in_pixel_clkMHz inp) (in_max_slice_width inp) (DSC_GetPeakThroughputMps code) out \<or>
      DSC_GetPeakThroughputMps code = 0"
    using R BD(5) n w peak_le [of code] by (simp add: slice_limits_def calc_ready_def)
  from DSC_PpsCalcSliceParams_stage [OF this] show ?thesis
  proof (rule returns_weaken, intro impI)
    fix r assume r: "slice_fields out (snd r) \<and>
        slice_stage (in_pixel_clkMHz inp) (in_max_slice_width inp) (in_slice_count_mask inp) code r"
      and "fst r = NVT_STATUS_SUCCESS"
    moreover have "base_ok inp (snd r) \<and> bits_per_pixel (snd r) = bits_per_pixel out"
      by (rule frame_transfer [where P = "\<lambda>x. base_ok inp x \<and> bits_per_pixel x = bits_per_pixel out" and
            a = out and k = "\<lambda>x. x\<lparr>slice_num := 0, slice_width := 0, groups_per_line := 0, chunk_size := 0\<rparr>"])
        (use r B in \<open>simp_all add: slice_fields_def\<close>)
    ultimately show "stage_ok inp code (snd r)"
      using rc_index_ok_frame(1) [OF _ idx] bpp by (simp add: stage_ok_def slice_stage_def)
  qed
qed

lemma DSC_PpsCalc_ok:
  assumes R: "calc_ready inp"
  shows "returns (DSC_PpsCalc inp out0) (\<lambda>r. fst r = NVT_STATUS_SUCCESS \<longrightarrow> pps_ok inp (snd r))"
proof -
  obtain status out where base: "DSC_PpsCalcBase inp out0 = (status, out)" by fastforce
  show ?thesis
  proof (cases "status = NVT_STATUS_SUCCESS")
    case False
    then show ?thesis by (simp add: DSC_PpsCalc_def base returns_Some)
  next
    case True
    note B = DSC_PpsCalcBase_success [OF base [unfolded True]]
    define o1 where "o1 = (if in_drop_mode inp \<noteq> 0 then out\<lparr>bits_per_pixel := 16 * 16, slice_num := 2\<rparr> else out)"
    define code where "code = (if native_420 o1 \<noteq> 0 \<or> native_422 o1 \<noteq> 0
      then in_peak_throughput_mode1 inp else in_peak_throughput_mode0 inp)"
    have o1: "base_ok inp o1" "bits_per_pixel o1 = (if in_drop_mode inp \<noteq> 0 then 256 else in_bits_per_pixel inp)"
      "unat (slice_num o1) \<le> 24" "unat (slice_width o1) \<le> 65536"
      using B R by (simp_all add: o1_def calc_ready_def)
    have calc: "DSC_PpsCalc inp out0 = do {
        (status, out) \<leftarrow> DSC_PpsCalcSliceParams (in_pixel_clkMHz inp) (in_dual_mode inp)
          (in_max_slice_num inp) (in_max_slice_width inp) (in_slice_count_mask inp) code o1;
        if status \<noteq> NVT_STATUS_SUCCESS then Some (status, out)
        else do {
          (status, out) \<leftarrow> DSC_PpsCalcRcInitValue out;
          if status \<noteq> NVT_STATUS_SUCCESS then Some (status, out)
          else do {
            (status, out) \<leftarrow> Dsc_PpsCalcHeight inp out;
            if status \<noteq> NVT_STATUS_SUCCESS then Some (status, out)
            else DSC_PpsCalcRcParam out
          }
        }
      }"
      unfolding DSC_PpsCalc_def base o1_def code_def Let_def using True by simp
    have maxw: "unat (in_max_slice_width inp) \<le> 65536" using R by (simp add: calc_ready_def)
    have last: "returns (DSC_PpsCalcRcParam o4) (\<lambda>r. fst r = NVT_STATUS_SUCCESS \<longrightarrow> pps_ok inp (snd r))"
      if "stage_ok inp code o4" "init_fields_ok o4" "height_ok o4" for o4
    proof (rule returns_weaken [OF DSC_PpsCalcRcParam_ok])
      show "rc_index_ok o4" using that(1) by (simp add: stage_ok_def)
      fix r assume r: "fst r = NVT_STATUS_SUCCESS \<and> rc_fields (snd r) = rc_fields o4 \<and> rc_fields_ok (snd r)"
      then have f: "rc_fields (snd r) = rc_fields o4" by simp
      have code: "code = (if native_420 (snd r) \<noteq> 0 \<or> native_422 (snd r) \<noteq> 0
          then in_peak_throughput_mode1 inp else in_peak_throughput_mode0 inp)"
      proof -
        have "base_ok inp (snd r)" using stage_ok_frame(3) [OF f that(1)] by (simp add: stage_ok_def)
        from base_okD(8,9) [OF this] base_okD(8,9) [OF o1(1)] show ?thesis by (simp add: code_def)
      qed
      show "fst r = NVT_STATUS_SUCCESS \<longrightarrow> pps_ok inp (snd r)"
        unfolding pps_ok_def code [symmetric]
        using r stage_ok_frame(3) [OF f that(1)] late_fields_frame(2) [OF f that(2)] late_fields_frame(3) [OF f that(3)]
        by (simp add: stage_ok_def)
    qed
    have height: "returns (do { (status, out) \<leftarrow> Dsc_PpsCalcHeight inp o3;
            if status \<noteq> NVT_STATUS_SUCCESS then Some (status, out)
            else DSC_PpsCalcRcParam out }) (\<lambda>r. fst r = NVT_STATUS_SUCCESS \<longrightarrow> pps_ok inp (snd r))"
      if "stage_ok inp code o3" "init_fields_ok o3" for o3
    proof (rule returns_bind [OF Dsc_PpsCalcHeight_ok])
      show "height_ready o3" "1 \<le> unat (slice_width o3)" "unat (slice_width o3) \<le> 65536"
        using stage_height_ready [OF that maxw] by simp_all
      fix r assume r: "height_post o3 r"
      show "returns (case r of (status, out) \<Rightarrow> if status \<noteq> NVT_STATUS_SUCCESS then Some (status, out)
            else DSC_PpsCalcRcParam out) (\<lambda>r. fst r = NVT_STATUS_SUCCESS \<longrightarrow> pps_ok inp (snd r))"
        using r stage_ok_frame(2) [OF _ that(1)] late_fields_frame(1) [OF _ that(2)]
        by (auto split: prod.splits intro!: returns_Some last)
    qed
    have init: "returns (do { (status, out) \<leftarrow> DSC_PpsCalcRcInitValue o2;
          if status \<noteq> NVT_STATUS_SUCCESS then Some (status, out)
          else do {
            (status, out) \<leftarrow> Dsc_PpsCalcHeight inp out;
            if status \<noteq> NVT_STATUS_SUCCESS then Some (status, out)
            else DSC_PpsCalcRcParam out
          } }) (\<lambda>r. fst r = NVT_STATUS_SUCCESS \<longrightarrow> pps_ok inp (snd r))"
      if "stage_ok inp code o2" for o2
    proof (rule returns_bind [OF DSC_PpsCalcRcInitValue_ok])
      show "bits_per_pixel o2 \<noteq> 0" "2 \<le> unat (slice_width o2)"
        using that by (auto simp: stage_ok_def rc_index_ok_def slice_geometry_def split: if_split_asm)
      fix r assume "init_fields o2 (snd r) \<and> (fst r = NVT_STATUS_SUCCESS \<longrightarrow> init_fields_ok (snd r))"
      then show "returns (case r of (status, out) \<Rightarrow> if status \<noteq> NVT_STATUS_SUCCESS then Some (status, out)
          else do {
            (status, out) \<leftarrow> Dsc_PpsCalcHeight inp out;
            if status \<noteq> NVT_STATUS_SUCCESS then Some (status, out)
            else DSC_PpsCalcRcParam out
          }) (\<lambda>r. fst r = NVT_STATUS_SUCCESS \<longrightarrow> pps_ok inp (snd r))"
        using stage_ok_frame(1) [OF _ that]
        by (cases r) (simp add: returns_Some height)
    qed
    show ?thesis
      unfolding calc
      by (rule returns_bind [OF slice_stage_ok [OF R o1]], rule returns_prod, rule returns_If)
        (auto intro!: returns_Some init)
  qed
qed

section \<open>Properties\<close>

text \<open>
  C18: for pictures 8 to 16384 lines high \<open>Dsc_PpsCalcHeight\<close> terminates on every path (the upward eDP
  search, the divisors 1 to 16, a forced height) without dividing by zero, changes only the slice
  height and the fields derived from it, and on success the slice height divides the picture height
  and every derived field is in range.
\<close>

theorem slice_height_search_sound:
  assumes "height_ready out" and "1 \<le> unat (slice_width out)" and "unat (slice_width out) \<le> 65536"
  shows "\<exists>status out'. Dsc_PpsCalcHeight inp out = Some (status, out') \<and> height_basis out out' \<and>
    (status = NVT_STATUS_SUCCESS \<longrightarrow>
       1 \<le> unat (slice_height out') \<and> unat (slice_height out') dvd unat (pic_height out') \<and>
       scale_fields_ok out' \<and> bpg_fields_ok out')"
  using Dsc_PpsCalcHeight_ok [OF assms, of inp] by (auto simp: returns_def height_ok_def)

theorem slice_height_search_sound_witness:
  "\<exists>status out'. Dsc_PpsCalcHeight zero_input
     (zero_output\<lparr>bits_per_component := 8, convert_rgb := 1, bits_per_pixel := 128, pic_height := 2160,
       slice_width := 1920, groups_per_line := 640, chunk_size := 1920, rc_model_size := 8192,
       initial_offset := 6144, initial_scale_value := 32, initial_xmit_delay := 512\<rparr>) =
     Some (status, out') \<and> pic_height out' = 2160"
proof -
  let ?o = "zero_output\<lparr>bits_per_component := 8, convert_rgb := 1, bits_per_pixel := 128, pic_height := 2160,
    slice_width := 1920, groups_per_line := 640, chunk_size := 1920, rc_model_size := 8192,
    initial_offset := 6144, initial_scale_value := 32, initial_xmit_delay := 512\<rparr>"
  have "height_ready ?o" by (simp add: height_ready_def rate_ready_def)
  from slice_height_search_sound [OF this, of zero_input] show ?thesis
    by (auto dest: height_basis_pic)
qed

end
