(* ===== verification/Dsc_Codec.thy ===== *)
theory Dsc_Codec
  imports Dsc_Pps
begin

unbundle bit_operations_syntax

text \<open>
  The picture parameter set on the wire: the byte view of \<^verbatim>\<open>gsp_dsc.zig\<close> (\<open>Plan.bytes\<close> and \<open>be\<close>), a
  decoder for every field, and the proof that decoding what \<open>DSC_PpsConstruct\<close> packs gives back the
  parameters. The round trip is the law of the locale \<open>codec\<close>; its consequences are proved there once.
\<close>

section \<open>The picture parameter set as bytes\<close>

text \<open>\<open>fits k x\<close>: \<open>x\<close> has no bit at position \<open>k\<close> or above.\<close>

definition fits :: "nat \<Rightarrow> NvU32 \<Rightarrow> bool" where
  "fits k x \<longleftrightarrow> unat x < 2 ^ k"

lemma fits_take_bit: "fits k x \<longleftrightarrow> take_bit k x = x"
proof -
  have "unat (take_bit k x) = take_bit k (unat x)" by (rule unsigned_take_bit_eq)
  then have "take_bit k x = x \<longleftrightarrow> take_bit k (unat x) = unat x" by (metis word_unat_eq_iff)
  then show ?thesis by (simp add: fits_def take_bit_nat_eq_self_iff)
qed

lemma fits_bit: "fits k x \<Longrightarrow> k \<le> n \<Longrightarrow> \<not> bit x n"
  unfolding fits_take_bit by (metis bit_take_bit_iff not_le)

lemma fits_bitD: "fits k x \<Longrightarrow> bit x n \<Longrightarrow> n < k"
  using fits_bit not_less by blast

lemma fitsI: "(\<And>n. k \<le> n \<Longrightarrow> \<not> bit x n) \<Longrightarrow> fits k x"
  unfolding fits_take_bit by (rule bit_word_eqI) (auto simp: bit_take_bit_iff intro: leI)

lemma fits_mono: "fits k x \<Longrightarrow> k \<le> l \<Longrightarrow> fits l x"
  by (meson fitsI fits_bit order_trans)

lemma and_masks:
  "(x :: NvU32) AND 0xFF = take_bit 8 x" "x AND 0xF = take_bit 4 x" "x AND 0x1F = take_bit 5 x"
  "x AND 0x3F = take_bit 6 x" "x AND 0x3FF = take_bit 10 x" "x AND 0xFFF = take_bit 12 x"
  "x AND 1 = take_bit 1 x" "x AND 3 = take_bit 2 x"
  by (simp_all add: take_bit_eq_mask mask_eq_exp_minus_1)

lemma byte_cells [simp]:
  "fits 8 (MSB x)" "fits 8 (LSB x)" "fits 8 0"
  "fits 8 (x AND 0x1F)" "fits 8 (x AND 0x3F)" "fits 8 (x AND 0xF)"
  by (auto intro!: fitsI simp: MSB_def LSB_def and_masks bit_simps simp del: take_bit_of_mask)

text \<open>The big-endian 16-bit reading of \<^verbatim>\<open>gsp_dsc.zig\<close>, and the byte view of the 32 dwords.\<close>

definition be :: "NvU32 list \<Rightarrow> nat \<Rightarrow> NvU32" where
  "be bytes offset = push_bit 8 (bytes ! offset) OR bytes ! (offset + 1)"

definition little_endian :: "NvU32 \<Rightarrow> NvU32 list" where
  "little_endian w = [w AND 0xFF, drop_bit 8 w AND 0xFF, drop_bit 16 w AND 0xFF, drop_bit 24 w AND 0xFF]"

definition plan_bytes :: "NvU32 list \<Rightarrow> NvU32 list" where
  "plan_bytes pps = concat (map little_endian pps)"

lemma be_join:
  "fits 16 x \<Longrightarrow> push_bit 8 (MSB x) OR LSB x = x"
  by (rule bit_word_eqI) (auto simp: MSB_def LSB_def and_masks bit_simps dest!: fits_bitD)

lemma little_endian_join:
  assumes "fits 8 a" "fits 8 b" "fits 8 c" "fits 8 d"
  shows "little_endian (push_bit 0 a OR push_bit 8 b OR push_bit 16 c OR push_bit 24 d) = [a, b, c, d]"
proof -
  let ?w = "push_bit 0 a OR push_bit 8 b OR push_bit 16 c OR push_bit 24 d"
  have "take_bit 8 ?w = a" "take_bit 8 (drop_bit 8 ?w) = b" "take_bit 8 (drop_bit 16 ?w) = c"
    "take_bit 8 (drop_bit 24 ?w) = d"
    by (rule bit_word_eqI; use assms in \<open>auto simp: bit_simps dest: fits_bitD\<close>)+
  then show ?thesis unfolding little_endian_def and_masks by simp
qed

lemma concat_quads:
  "4 * n \<le> length bs \<Longrightarrow>
   concat (map (\<lambda>i. [bs ! (i * 4), bs ! (i * 4 + 1), bs ! (i * 4 + 2), bs ! (i * 4 + 3)]) [0..<n]) = take (4 * n) bs"
proof (induction n)
  case (Suc n)
  have "take (4 * Suc n) bs = take (4 * n) bs @ [bs ! (n * 4), bs ! (n * 4 + 1), bs ! (n * 4 + 2), bs ! (n * 4 + 3)]"
    using Suc.prems by (simp add: take_Suc_conv_app_nth numeral_eq_Suc mult.commute)
  with Suc show ?case by simp
qed simp

lemma plan_bytes_construct:
  assumes "\<And>b. b \<in> set (pps_bytes p) \<Longrightarrow> fits 8 b"
  shows "plan_bytes (DSC_PpsConstruct p) = pps_bytes p @ replicate 32 0"
proof -
  let ?B = "pps_bytes p"
  have len: "length ?B = 96" by (simp add: pps_bytes_def Let_def length_concat comp_def sum_list_triv)
  then have cell: "fits 8 (?B ! j)" if "j < 96" for j using assms that by simp
  have quad: "little_endian (push_bit 0 (?B ! (i * 4 + 0)) OR push_bit 8 (?B ! (i * 4 + 1)) OR
      push_bit 16 (?B ! (i * 4 + 2)) OR push_bit 24 (?B ! (i * 4 + 3))) =
      [?B ! (i * 4), ?B ! (i * 4 + 1), ?B ! (i * 4 + 2), ?B ! (i * 4 + 3)]" if "i < 24" for i
    using that little_endian_join [OF cell [of "i * 4 + 0"] cell [of "i * 4 + 1"] cell [of "i * 4 + 2"]
      cell [of "i * 4 + 3"]] by simp
  have "little_endian 0 = replicate 4 0" by (simp add: little_endian_def numeral_eq_Suc)
  then have zero: "concat (map little_endian (replicate 8 0)) = replicate 32 0"
    by (simp add: numeral_eq_Suc)
  have "plan_bytes (DSC_PpsConstruct p) =
     concat (map (\<lambda>i. [?B ! (i * 4), ?B ! (i * 4 + 1), ?B ! (i * 4 + 2), ?B ! (i * 4 + 3)]) [0..<24]) @ replicate 32 0"
    unfolding plan_bytes_def DSC_PpsConstruct_def Let_def map_append concat_append zero map_map comp_def
    by (intro arg_cong [where f = "\<lambda>x. concat x @ replicate 32 0"] map_cong refl quad) simp
  also have "\<dots> = ?B @ replicate 32 0"
    using concat_quads [of 24 ?B] len by simp
  finally show ?thesis .
qed

text \<open>A decoder for all fields of the picture parameter set, from the byte layout of the DSC standard.\<close>

definition pps_decode :: "NvU32 list \<Rightarrow> DSC_OUTPUT_PARAMS" where
  "pps_decode B = zero_output\<lparr>
     dsc_version_major := drop_bit 4 (B ! 0), dsc_version_minor := take_bit 4 (B ! 0),
     pps_identifier := B ! 1,
     bits_per_component := drop_bit 4 (B ! 3), linebuf_depth := take_bit 4 (B ! 3),
     block_pred_enable := drop_bit 5 (B ! 4), convert_rgb := take_bit 1 (drop_bit 4 (B ! 4)),
     simple_422 := take_bit 1 (drop_bit 3 (B ! 4)), vbr_enable := take_bit 1 (drop_bit 2 (B ! 4)),
     bits_per_pixel := push_bit 8 (take_bit 2 (B ! 4)) OR B ! 5,
     pic_height := be B 6, pic_width := be B 8, slice_height := be B 10, slice_width := be B 12,
     chunk_size := be B 14, initial_xmit_delay := be B 16, initial_dec_delay := be B 18,
     initial_scale_value := B ! 21, scale_increment_interval := be B 22, scale_decrement_interval := be B 24,
     first_line_bpg_offset := B ! 27, nfl_bpg_offset := be B 28, slice_bpg_offset := be B 30,
     initial_offset := be B 32, final_offset := be B 34, flatness_min_qp := B ! 36, flatness_max_qp := B ! 37,
     rc_model_size := be B 38, rc_edge_factor := B ! 40, rc_quant_incr_limit0 := B ! 41,
     rc_quant_incr_limit1 := B ! 42, rc_tgt_offset_hi := drop_bit 4 (B ! 43), rc_tgt_offset_lo := take_bit 4 (B ! 43),
     rc_buf_thresh := map (\<lambda>i. push_bit 6 (B ! (44 + i))) [0..<14],
     range_min_qp := map (\<lambda>i. drop_bit 11 (be B (58 + 2 * i))) [0..<15],
     range_max_qp := map (\<lambda>i. take_bit 5 (drop_bit 6 (be B (58 + 2 * i)))) [0..<15],
     range_bpg_offset := map (\<lambda>i. signed_take_bit 5 (be B (58 + 2 * i))) [0..<15],
     native_420 := drop_bit 1 (B ! 88), native_422 := take_bit 1 (B ! 88),
     second_line_bpg_offset := B ! 89, nsl_bpg_offset := be B 90, second_line_offset_adj := be B 92\<rparr>"

text \<open>The parameters whose every field fits its place.\<close>

definition pps_encodable :: "DSC_OUTPUT_PARAMS \<Rightarrow> bool" where
  "pps_encodable p \<longleftrightarrow>
     fits 4 (dsc_version_major p) \<and> fits 4 (dsc_version_minor p) \<and> fits 8 (pps_identifier p) \<and>
     fits 4 (bits_per_component p) \<and> fits 4 (linebuf_depth p) \<and>
     fits 1 (block_pred_enable p) \<and> fits 1 (convert_rgb p) \<and> fits 1 (simple_422 p) \<and> fits 1 (vbr_enable p) \<and>
     fits 10 (bits_per_pixel p) \<and> fits 16 (pic_height p) \<and> fits 16 (pic_width p) \<and>
     fits 16 (slice_height p) \<and> fits 16 (slice_width p) \<and> fits 16 (chunk_size p) \<and>
     fits 10 (initial_xmit_delay p) \<and> fits 16 (initial_dec_delay p) \<and> fits 6 (initial_scale_value p) \<and>
     fits 16 (scale_increment_interval p) \<and> fits 12 (scale_decrement_interval p) \<and>
     fits 5 (first_line_bpg_offset p) \<and> fits 16 (nfl_bpg_offset p) \<and> fits 16 (slice_bpg_offset p) \<and>
     fits 16 (initial_offset p) \<and> fits 16 (final_offset p) \<and>
     fits 5 (flatness_min_qp p) \<and> fits 5 (flatness_max_qp p) \<and> fits 16 (rc_model_size p) \<and>
     fits 4 (rc_edge_factor p) \<and> fits 5 (rc_quant_incr_limit0 p) \<and> fits 5 (rc_quant_incr_limit1 p) \<and>
     fits 4 (rc_tgt_offset_hi p) \<and> fits 4 (rc_tgt_offset_lo p) \<and>
     length (rc_buf_thresh p) = 14 \<and>
     (\<forall>i < 14. fits 14 (rc_buf_thresh p ! i) \<and> take_bit 6 (rc_buf_thresh p ! i) = 0) \<and>
     length (range_min_qp p) = 15 \<and> (\<forall>i < 15. fits 5 (range_min_qp p ! i)) \<and>
     length (range_max_qp p) = 15 \<and> (\<forall>i < 15. fits 5 (range_max_qp p ! i)) \<and>
     length (range_bpg_offset p) = 15 \<and>
     (\<forall>i < 15. signed_take_bit 5 (range_bpg_offset p ! i) = range_bpg_offset p ! i) \<and>
     fits 1 (native_420 p) \<and> fits 1 (native_422 p) \<and> fits 5 (second_line_bpg_offset p) \<and>
     fits 16 (nsl_bpg_offset p) \<and> fits 16 (second_line_offset_adj p)"

text \<open>The fields of the output struct that are in the picture parameter set.\<close>

definition pps_view :: "DSC_OUTPUT_PARAMS \<Rightarrow> DSC_OUTPUT_PARAMS" where
  "pps_view p = p\<lparr>slice_num := 0, groups_per_line := 0, num_extra_mux_bits := 0, flatness_det_thresh := 0\<rparr>"

definition range_cell :: "DSC_OUTPUT_PARAMS \<Rightarrow> nat \<Rightarrow> NvU32" where
  "range_cell p i = push_bit 11 (range_min_qp p ! i AND 0x1F) OR push_bit 6 (range_max_qp p ! i AND 0x1F) OR
     (range_bpg_offset p ! i AND 0x3F)"

lemma pps_bytes_header:
  "pps_bytes p ! 0 = push_bit 4 (dsc_version_major p) OR (dsc_version_minor p AND 0xF)"
  "pps_bytes p ! 1 = pps_identifier p"
  "pps_bytes p ! 3 = push_bit 4 (bits_per_component p) OR (linebuf_depth p AND 0xF)"
  "pps_bytes p ! 4 = push_bit 5 (block_pred_enable p) OR push_bit 4 (convert_rgb p) OR
        push_bit 3 (simple_422 p) OR push_bit 2 (vbr_enable p) OR MSB (bits_per_pixel p AND 0x3FF)"
  "pps_bytes p ! 5 = LSB (bits_per_pixel p)"
  "pps_bytes p ! 21 = initial_scale_value p AND 0x3F"
  "pps_bytes p ! 27 = first_line_bpg_offset p AND 0x1F"
  "pps_bytes p ! 36 = flatness_min_qp p AND 0x1F" "pps_bytes p ! 37 = flatness_max_qp p AND 0x1F"
  "pps_bytes p ! 40 = rc_edge_factor p AND 0xF" "pps_bytes p ! 41 = rc_quant_incr_limit0 p AND 0x1F"
  "pps_bytes p ! 42 = rc_quant_incr_limit1 p AND 0x1F"
  "pps_bytes p ! 43 = push_bit 4 (rc_tgt_offset_hi p) OR (rc_tgt_offset_lo p AND 0xF)"
  by (simp_all add: pps_bytes_def)

lemma be_cell: "bs ! n = MSB x \<Longrightarrow> bs ! (n + 1) = LSB y \<Longrightarrow> be bs n = push_bit 8 (MSB x) OR LSB y"
  by (simp add: be_def)

lemma pps_bytes_words:
  "be (pps_bytes p) 6 = push_bit 8 (MSB (pic_height p)) OR LSB (pic_height p)"
  "be (pps_bytes p) 8 = push_bit 8 (MSB (pic_width p)) OR LSB (pic_width p)"
  "be (pps_bytes p) 10 = push_bit 8 (MSB (slice_height p)) OR LSB (slice_height p)"
  "be (pps_bytes p) 12 = push_bit 8 (MSB (slice_width p)) OR LSB (slice_width p)"
  "be (pps_bytes p) 14 = push_bit 8 (MSB (chunk_size p)) OR LSB (chunk_size p)"
  "be (pps_bytes p) 16 = push_bit 8 (MSB (initial_xmit_delay p AND 0x3FF)) OR LSB (initial_xmit_delay p)"
  "be (pps_bytes p) 18 = push_bit 8 (MSB (initial_dec_delay p)) OR LSB (initial_dec_delay p)"
  "be (pps_bytes p) 22 = push_bit 8 (MSB (scale_increment_interval p)) OR LSB (scale_increment_interval p)"
  "be (pps_bytes p) 24 = push_bit 8 (MSB (scale_decrement_interval p AND 0xFFF)) OR LSB (scale_decrement_interval p)"
  "be (pps_bytes p) 28 = push_bit 8 (MSB (nfl_bpg_offset p)) OR LSB (nfl_bpg_offset p)"
  "be (pps_bytes p) 30 = push_bit 8 (MSB (slice_bpg_offset p)) OR LSB (slice_bpg_offset p)"
  "be (pps_bytes p) 32 = push_bit 8 (MSB (initial_offset p)) OR LSB (initial_offset p)"
  "be (pps_bytes p) 34 = push_bit 8 (MSB (final_offset p)) OR LSB (final_offset p)"
  "be (pps_bytes p) 38 = push_bit 8 (MSB (rc_model_size p)) OR LSB (rc_model_size p)"
  unfolding be_def by (simp_all add: pps_bytes_def)

lemma pps_bytes_split:
  "pps_bytes p = take 44 (pps_bytes p) @ map (\<lambda>i. drop_bit 6 (rc_buf_thresh p ! i)) [0..<14]
     @ concat (map (\<lambda>i. [MSB (range_cell p i), LSB (range_cell p i)]) [0..<15])
     @ [push_bit 1 (native_420 p) OR native_422 p, second_line_bpg_offset p AND 0x1F,
        MSB (nsl_bpg_offset p), LSB (nsl_bpg_offset p),
        MSB (second_line_offset_adj p), LSB (second_line_offset_adj p), 0, 0]"
  by (simp add: pps_bytes_def range_cell_def Let_def)

lemma length_pps_bytes: "length (pps_bytes p) = 96"
  by (simp add: pps_bytes_def Let_def length_concat comp_def sum_list_triv)

lemma concat_pairs_nth:
  "i < n \<Longrightarrow> concat (map (\<lambda>i. [f i, g i]) [0..<n]) ! (2 * i) = f i"
  "i < n \<Longrightarrow> concat (map (\<lambda>i. [f i, g i]) [0..<n]) ! (2 * i + 1) = g i"
proof -
  have len: "length (concat (map (\<lambda>i. [f i, g i]) [0..<n])) = 2 * n" for n
    by (simp add: length_concat comp_def sum_list_triv)
  have "i < n \<Longrightarrow> concat (map (\<lambda>i. [f i, g i]) [0..<n]) ! (2 * i) = f i \<and>
     concat (map (\<lambda>i. [f i, g i]) [0..<n]) ! (2 * i + 1) = g i"
    by (induction n) (auto simp: nth_append len less_Suc_eq)
  then show "i < n \<Longrightarrow> concat (map (\<lambda>i. [f i, g i]) [0..<n]) ! (2 * i) = f i"
    "i < n \<Longrightarrow> concat (map (\<lambda>i. [f i, g i]) [0..<n]) ! (2 * i + 1) = g i" by simp_all
qed

lemma pps_bytes_thresh: "i < 14 \<Longrightarrow> pps_bytes p ! (44 + i) = drop_bit 6 (rc_buf_thresh p ! i)"
  by (subst pps_bytes_split) (simp add: nth_append length_pps_bytes)

lemma pps_bytes_range: "i < 15 \<Longrightarrow> be (pps_bytes p) (58 + 2 * i) = push_bit 8 (MSB (range_cell p i)) OR LSB (range_cell p i)"
  unfolding be_def
  by (subst (1 2) pps_bytes_split)
   (simp add: nth_append length_pps_bytes length_concat comp_def sum_list_triv concat_pairs_nth [unfolded Suc_eq_plus1 [symmetric]])

lemma pps_bytes_tail:
  "pps_bytes p ! 88 = push_bit 1 (native_420 p) OR native_422 p"
  "pps_bytes p ! 89 = second_line_bpg_offset p AND 0x1F"
  "be (pps_bytes p) 90 = push_bit 8 (MSB (nsl_bpg_offset p)) OR LSB (nsl_bpg_offset p)"
  "be (pps_bytes p) 92 = push_bit 8 (MSB (second_line_offset_adj p)) OR LSB (second_line_offset_adj p)"
  unfolding be_def
  by (subst pps_bytes_split, simp add: nth_append length_pps_bytes length_concat comp_def sum_list_triv)+

lemma masked_fits:
  "fits 5 x \<Longrightarrow> x AND 0x1F = x" "fits 6 x \<Longrightarrow> x AND 0x3F = x" "fits 4 x \<Longrightarrow> x AND 0xF = x"
  "fits 10 x \<Longrightarrow> x AND 0x3FF = x" "fits 12 x \<Longrightarrow> x AND 0xFFF = x"
  by (simp_all add: and_masks fits_take_bit)

lemma nibbles_join:
  assumes "fits 4 a" "fits 4 b"
  shows "drop_bit 4 (push_bit 4 a OR b) = a" "take_bit 4 (push_bit 4 a OR b) = b"
    "fits 8 (push_bit 4 a OR b)"
  by (rule bit_word_eqI fitsI; use assms in \<open>auto simp: bit_simps dest: fits_bitD\<close>)+

lemma fits_1: "fits 1 a \<longleftrightarrow> a = 0 \<or> a = 1"
  by (auto simp: fits_def word_unat_eq_iff less_2_cases_iff)

text \<open>The four flag bits and the two upper bits of the rate share byte 4.\<close>

lemma flag_byte:
  assumes "fits 1 a" "fits 1 b" "fits 1 c" "fits 1 d" "fits 2 m"
  defines "w \<equiv> push_bit 5 a OR push_bit 4 b OR push_bit 3 c OR push_bit 2 d OR m"
  shows "drop_bit 5 w = a \<and> take_bit 1 (drop_bit 4 w) = b \<and> take_bit 1 (drop_bit 3 w) = c \<and>
    take_bit 1 (drop_bit 2 w) = d \<and> take_bit 2 w = m \<and> fits 8 w"
proof -
  have "m = 0 \<or> m = 1 \<or> m = 2 \<or> m = 3"
    using assms(5) unfolding fits_def word_unat_eq_iff by auto
  then show ?thesis
    using assms(1-4) unfolding fits_1 w_def
    by (elim disjE) (simp_all add: fits_def)
qed

lemma rate_msb: "fits 10 e \<Longrightarrow> fits 2 (MSB e)"
  by (rule fitsI) (auto simp: MSB_def and_masks bit_simps dest!: fits_bitD)

lemma native_join:
  assumes "fits 1 a" "fits 1 b"
  shows "drop_bit 1 (push_bit 1 a OR b) = a" "take_bit 1 (push_bit 1 a OR b) = b" "fits 8 (push_bit 1 a OR b)"
  using assms unfolding fits_1 by (elim disjE; simp add: fits_def)+

lemma threshold_join:
  assumes "take_bit 6 t = 0"
  shows "push_bit 6 (drop_bit 6 t) = t"
  using bits_ident [of 6 t] assms by simp

lemma threshold_byte: "fits 14 t \<Longrightarrow> fits 8 (drop_bit 6 t)"
  by (rule fitsI) (auto simp: bit_simps dest!: fits_bitD)

lemma range_join:
  assumes "fits 5 (range_min_qp p ! i)" "fits 5 (range_max_qp p ! i)"
    "signed_take_bit 5 (range_bpg_offset p ! i) = range_bpg_offset p ! i"
  shows "fits 16 (range_cell p i)" "drop_bit 11 (range_cell p i) = range_min_qp p ! i"
    "take_bit 5 (drop_bit 6 (range_cell p i)) = range_max_qp p ! i"
    "signed_take_bit 5 (range_cell p i) = range_bpg_offset p ! i"
proof -
  have c: "range_cell p i = push_bit 11 (range_min_qp p ! i) OR push_bit 6 (range_max_qp p ! i) OR
      take_bit 6 (range_bpg_offset p ! i)"
    using assms(1,2) by (simp add: range_cell_def and_masks fits_take_bit)
  show "fits 16 (range_cell p i)"
    unfolding c by (rule fitsI) (use assms(1,2) in \<open>auto simp: bit_simps dest!: fits_bitD\<close>)
  show "drop_bit 11 (range_cell p i) = range_min_qp p ! i"
    unfolding c by (rule bit_word_eqI) (use assms(1,2) in \<open>auto simp: bit_simps dest: fits_bitD\<close>)
  show "take_bit 5 (drop_bit 6 (range_cell p i)) = range_max_qp p ! i"
    unfolding c by (rule bit_word_eqI) (use assms(1,2) in \<open>auto simp: bit_simps dest: fits_bitD\<close>)
  have "take_bit 6 (range_cell p i) = take_bit 6 (range_bpg_offset p ! i)"
    unfolding c by (rule bit_word_eqI) (auto simp: bit_simps)
  then have "signed_take_bit 5 (range_cell p i) = signed_take_bit 5 (range_bpg_offset p ! i)"
    by (simp add: signed_take_bit_eq_iff_take_bit_eq)
  then show "signed_take_bit 5 (range_cell p i) = range_bpg_offset p ! i" using assms(3) by simp
qed

lemma pps_bytes_fit:
  assumes E: "pps_encodable p"
  shows "b \<in> set (pps_bytes p) \<Longrightarrow> fits 8 b"
proof -
  note D = E [unfolded pps_encodable_def]
  have flags: "fits 8 (push_bit 5 (block_pred_enable p) OR push_bit 4 (convert_rgb p) OR
        push_bit 3 (simple_422 p) OR push_bit 2 (vbr_enable p) OR MSB (bits_per_pixel p AND 0x3FF))"
    using D flag_byte [OF _ _ _ _ rate_msb] by (simp add: masked_fits)
  have nib: "fits 8 (push_bit 4 x OR (y AND 0xF))" if "fits 4 x" for x y
    using nibbles_join(3) [OF that, of "y AND 0xF"] by (simp add: and_masks fits_take_bit)
  have nat: "fits 8 (push_bit 1 (native_420 p) OR native_422 p)" using native_join D by simp
  have th: "\<forall>i < 14. fits 8 (drop_bit 6 (rc_buf_thresh p ! i))" using threshold_byte D by simp
  have hd: "\<forall>b \<in> set (take 44 (pps_bytes p)). fits 8 b"
    using D flags nib by (simp add: pps_bytes_def)
  have rest: "\<forall>b \<in> set (map (\<lambda>i. drop_bit 6 (rc_buf_thresh p ! i)) [0..<14]
     @ concat (map (\<lambda>i. [MSB (range_cell p i), LSB (range_cell p i)]) [0..<15])
     @ [push_bit 1 (native_420 p) OR native_422 p, second_line_bpg_offset p AND 0x1F,
        MSB (nsl_bpg_offset p), LSB (nsl_bpg_offset p),
        MSB (second_line_offset_adj p), LSB (second_line_offset_adj p), 0, 0]). fits 8 b"
    using th nat by auto
  show "b \<in> set (pps_bytes p) \<Longrightarrow> fits 8 b"
    using hd rest by (subst (asm) pps_bytes_split) (auto simp only: set_append Un_iff)
qed

lemma pps_decode_append: "length B = 96 \<Longrightarrow> pps_decode (B @ zs) = pps_decode B"
  unfolding pps_decode_def be_def by (simp add: nth_append)

lemma pps_decode_bytes:
  assumes E: "pps_encodable p"
  shows "pps_decode (pps_bytes p) = pps_view p"
proof -
  note D = E [unfolded pps_encodable_def]
  have lists: "map (\<lambda>i. push_bit 6 (pps_bytes p ! (44 + i))) [0..<14] = rc_buf_thresh p"
    "map (\<lambda>i. drop_bit 11 (be (pps_bytes p) (58 + 2 * i))) [0..<15] = range_min_qp p"
    "map (\<lambda>i. take_bit 5 (drop_bit 6 (be (pps_bytes p) (58 + 2 * i)))) [0..<15] = range_max_qp p"
    "map (\<lambda>i. signed_take_bit 5 (be (pps_bytes p) (58 + 2 * i))) [0..<15] = range_bpg_offset p"
    by (rule nth_equalityI; simp add: D pps_bytes_thresh pps_bytes_range threshold_join be_join range_join)+
  have wide: "fits 16 (initial_xmit_delay p)" "fits 16 (scale_decrement_interval p)" "fits 16 (bits_per_pixel p)"
    by (rule fits_mono [of 10] fits_mono [of 12], simp add: D, simp)+
  have fb: "fits 1 (block_pred_enable p)" "fits 1 (convert_rgb p)" "fits 1 (simple_422 p)" "fits 1 (vbr_enable p)"
    "fits 2 (MSB (bits_per_pixel p))"
    by (simp_all only: D rate_msb)
  have masks: "dsc_version_minor p AND 0xF = dsc_version_minor p" "linebuf_depth p AND 0xF = linebuf_depth p"
    "bits_per_pixel p AND 0x3FF = bits_per_pixel p" "rc_tgt_offset_lo p AND 0xF = rc_tgt_offset_lo p"
    "initial_xmit_delay p AND 0x3FF = initial_xmit_delay p"
    "scale_decrement_interval p AND 0xFFF = scale_decrement_interval p"
    by (simp_all only: D masked_fits)
  have pairs: "drop_bit 4 (pps_bytes p ! 0) = dsc_version_major p" "take_bit 4 (pps_bytes p ! 0) = dsc_version_minor p"
    "drop_bit 4 (pps_bytes p ! 3) = bits_per_component p" "take_bit 4 (pps_bytes p ! 3) = linebuf_depth p"
    "drop_bit 4 (pps_bytes p ! 43) = rc_tgt_offset_hi p" "take_bit 4 (pps_bytes p ! 43) = rc_tgt_offset_lo p"
    unfolding pps_bytes_header masks by (simp_all only: D nibbles_join)
  have flags: "drop_bit 5 (pps_bytes p ! 4) = block_pred_enable p" "take_bit 1 (drop_bit 4 (pps_bytes p ! 4)) = convert_rgb p"
    "take_bit 1 (drop_bit 3 (pps_bytes p ! 4)) = simple_422 p" "take_bit 1 (drop_bit 2 (pps_bytes p ! 4)) = vbr_enable p"
    "push_bit 8 (take_bit 2 (pps_bytes p ! 4)) OR pps_bytes p ! 5 = bits_per_pixel p"
    unfolding pps_bytes_header masks by (simp_all only: flag_byte [OF fb] be_join wide)
  have native: "drop_bit 1 (pps_bytes p ! 88) = native_420 p" "take_bit 1 (pps_bytes p ! 88) = native_422 p"
    unfolding pps_bytes_tail by (simp_all only: D native_join)
  have bytes: "pps_bytes p ! 21 = initial_scale_value p" "pps_bytes p ! 27 = first_line_bpg_offset p"
    "pps_bytes p ! 36 = flatness_min_qp p" "pps_bytes p ! 37 = flatness_max_qp p" "pps_bytes p ! 40 = rc_edge_factor p"
    "pps_bytes p ! 41 = rc_quant_incr_limit0 p" "pps_bytes p ! 42 = rc_quant_incr_limit1 p"
    "pps_bytes p ! 89 = second_line_bpg_offset p"
    unfolding pps_bytes_header pps_bytes_tail by (simp_all only: D masked_fits)
  have words: "be (pps_bytes p) 6 = pic_height p" "be (pps_bytes p) 8 = pic_width p"
    "be (pps_bytes p) 10 = slice_height p" "be (pps_bytes p) 12 = slice_width p" "be (pps_bytes p) 14 = chunk_size p"
    "be (pps_bytes p) 16 = initial_xmit_delay p" "be (pps_bytes p) 18 = initial_dec_delay p"
    "be (pps_bytes p) 22 = scale_increment_interval p" "be (pps_bytes p) 24 = scale_decrement_interval p"
    "be (pps_bytes p) 28 = nfl_bpg_offset p" "be (pps_bytes p) 30 = slice_bpg_offset p"
    "be (pps_bytes p) 32 = initial_offset p" "be (pps_bytes p) 34 = final_offset p"
    "be (pps_bytes p) 38 = rc_model_size p" "be (pps_bytes p) 90 = nsl_bpg_offset p"
    "be (pps_bytes p) 92 = second_line_offset_adj p"
    unfolding pps_bytes_words pps_bytes_tail masks by (simp_all only: D wide be_join)
  show ?thesis
    unfolding pps_decode_def lists pairs flags native bytes words pps_bytes_header(2)
    by (simp add: pps_view_def zero_output_def)
qed

lemma pps_round_trip:
  "pps_encodable p \<Longrightarrow> pps_decode (plan_bytes (DSC_PpsConstruct p)) = pps_view p"
  by (simp add: plan_bytes_construct [OF pps_bytes_fit] pps_decode_append length_pps_bytes pps_decode_bytes)

interpretation pps: codec DSC_PpsConstruct "\<lambda>pps. pps_decode (plan_bytes pps)" pps_encodable pps_view
  by unfold_locales (rule pps_round_trip)

interpretation dword: codec "\<lambda>(a, b, c, d). push_bit 0 a OR push_bit 8 b OR push_bit 16 c OR push_bit 24 d"
  little_endian "\<lambda>(a, b, c, d). fits 8 a \<and> fits 8 b \<and> fits 8 c \<and> fits 8 d" "\<lambda>(a, b, c, d). [a, b, c, d]"
  by unfold_locales (auto simp only: prod.case intro: little_endian_join)

section \<open>Successful calculations are encodable\<close>

lemma offset_signed_6: "offset_ok x \<Longrightarrow> signed_take_bit 5 x = x"
proof -
  assume "offset_ok x"
  then have "signed_take_bit 5 (sint x) = sint x"
    by (intro signed_take_bit_int_eq_self) (simp_all add: offset_ok_def)
  then show ?thesis
    using of_int_signed_take_bit [of 5 "sint x", where 'a = "32 word"] by simp
qed

lemma fits_le: "unat x \<le> n \<Longrightarrow> n < 2 ^ k \<Longrightarrow> fits k x"
  by (simp add: fits_def)

lemma rcBufThresh_fits: "\<forall>i < 14. fits 14 (rcBufThresh ! i) \<and> take_bit 6 (rcBufThresh ! i) = 0"
proof -
  have "list_all (\<lambda>t. fits 14 t \<and> take_bit 6 t = 0) rcBufThresh"
    by (simp add: rcBufThresh_def fits_def)
  then show ?thesis by (simp add: list_all_length rcBufThresh_def)
qed

text \<open>
  The chunk size is the one field a successful calculation does not bound by its place: it is at most four
  bytes for each of up to 16384 pixels, one more than 16 bits hold. Packing takes its low 16 bits.
\<close>

definition packed :: "DSC_OUTPUT_PARAMS \<Rightarrow> DSC_OUTPUT_PARAMS" where
  "packed p = p\<lparr>chunk_size := take_bit 16 (chunk_size p)\<rparr>"

lemma packed_fields:
  "dsc_version_major (packed p) = dsc_version_major p" "dsc_version_minor (packed p) = dsc_version_minor p"
  "bits_per_component (packed p) = bits_per_component p" "bits_per_pixel (packed p) = bits_per_pixel p"
  "pic_height (packed p) = pic_height p" "pic_width (packed p) = pic_width p"
  "chunk_size (packed p) = take_bit 16 (chunk_size p)"
  by (simp_all add: packed_def)

lemma packed_same: "unat (chunk_size p) < 65536 \<Longrightarrow> packed p = p"
proof -
  assume "unat (chunk_size p) < 65536"
  then have "unat (take_bit 16 (chunk_size p)) = unat (chunk_size p)"
    by (simp add: unsigned_take_bit_eq take_bit_nat_eq_self)
  then have "take_bit 16 (chunk_size p) = chunk_size p" by (rule unsigned_word_eqI)
  then show ?thesis by (simp add: packed_def)
qed

lemma construct_packed: "DSC_PpsConstruct (packed p) = DSC_PpsConstruct p"
proof -
  have ff: "(0xFF :: NvU32) = Bit_Operations.mask 8" by (simp add: mask_eq_exp_minus_1)
  have m: "MSB (take_bit 16 x) = MSB x" "LSB (take_bit 16 x) = LSB x" for x
    unfolding MSB_def LSB_def ff by (rule bit_word_eqI, auto simp: bit_simps)+
  have "pps_bytes (packed p) = pps_bytes p" unfolding packed_def by (simp add: pps_bytes_def m)
  then show ?thesis by (simp add: DSC_PpsConstruct_def)
qed

lemma pps_ok_chunk:
  assumes "pps_ok inp out"
  shows "unat (chunk_size out) \<le> 65536"
proof -
  have g: "(unat (chunk_size out) + 3) div 4 * unat (slice_num out) \<le> unat (pic_width out)"
    "unat (pic_width out) \<le> unat (slice_num out) * unat (slice_width out)"
    using assms unfolding pps_ok_def slice_geometry_def slices_cover_def by blast+
  have w: "32 \<le> unat (pic_width out)" "unat (pic_width out) \<le> 16384"
    using assms base_okD(4,5) unfolding pps_ok_def by blast+
  have "unat (slice_num out) \<noteq> 0" using g(2) w(1) by (cases "unat (slice_num out) = 0") simp_all
  then have "(unat (chunk_size out) + 3) div 4 * 1 \<le> (unat (chunk_size out) + 3) div 4 * unat (slice_num out)"
    by (intro mult_le_mono2) simp
  then have "(unat (chunk_size out) + 3) div 4 \<le> 16384" using g(1) w(2) by linarith
  then show ?thesis by linarith
qed

text \<open>A successful calculation yields encodable parameters, up to the chunk size.\<close>

lemma pps_ok_encodable:
  assumes ok: "pps_ok inp out" and R: "calc_ready inp" and
    flags: "fits 1 (in_simple_422 inp)" "fits 1 (in_native_420 inp)" "fits 1 (in_native_422 inp)"
  shows "pps_encodable (packed out)"
proof -
  have B: "base_ok inp out" and I: "init_fields_ok out" and H: "height_ok out" and RC: "rc_fields_ok out"
    and X: "rc_index_ok out" and C: "slices_cover (in_slice_count_mask inp) (in_max_slice_width inp) out"
    using ok by (simp_all add: pps_ok_def)
  have base: "fits 4 (dsc_version_major out)" "fits 4 (dsc_version_minor out)" "fits 8 (pps_identifier out)"
    "fits 4 (bits_per_component out)" "fits 4 (linebuf_depth out)" "fits 1 (block_pred_enable out)"
    "fits 1 (convert_rgb out)" "fits 1 (vbr_enable out)" "fits 16 (pic_height out)" "fits 16 (pic_width out)"
    "fits 1 (simple_422 out)" "fits 1 (native_420 out)" "fits 1 (native_422 out)"
    using B flags unfolding base_ok_def by (auto simp: fits_def)
  have "unat (bits_per_pixel out) \<le> 768"
    using X by (auto simp: rc_index_ok_def split: if_split_asm)
  then have rate: "fits 10 (bits_per_pixel out)" by (simp add: fits_def)
  have init: "fits 10 (initial_xmit_delay out)" "fits 6 (initial_scale_value out)" "fits 16 (initial_offset out)"
    "fits 16 (rc_model_size out)"
    using I by (simp_all add: init_fields_ok_def fits_def)
  have "unat (slice_height out) \<le> unat (pic_height out)"
    using H base_okD(6) [OF B] by (auto simp: height_ok_def intro: dvd_imp_le)
  then have slice: "fits 16 (slice_height out)" "fits 16 (slice_width out)"
    using base_okD(7) [OF B] C R by (simp_all add: slices_cover_def calc_ready_def fits_def)
  have chunk: "fits 16 (take_bit 16 (chunk_size out))"
    using take_bit_nat_less_exp [of 16 "unat (chunk_size out)"] by (simp add: fits_def unsigned_take_bit_eq)
  have height: "fits 16 (initial_dec_delay out)" "fits 16 (scale_increment_interval out)"
    "fits 12 (scale_decrement_interval out)" "fits 5 (first_line_bpg_offset out)" "fits 16 (nfl_bpg_offset out)"
    "fits 16 (slice_bpg_offset out)" "fits 16 (final_offset out)" "fits 5 (second_line_bpg_offset out)"
    "fits 16 (nsl_bpg_offset out)" "fits 16 (second_line_offset_adj out)"
    using H by (simp_all add: height_ok_def scale_fields_ok_def bpg_fields_ok_def fits_def)
  have rc: "fits 5 (flatness_min_qp out)" "fits 5 (flatness_max_qp out)" "fits 4 (rc_edge_factor out)"
    "fits 5 (rc_quant_incr_limit0 out)" "fits 5 (rc_quant_incr_limit1 out)" "fits 4 (rc_tgt_offset_hi out)"
    "fits 4 (rc_tgt_offset_lo out)"
    using RC by (simp_all add: rc_fields_ok_def fits_def)
  have th: "length (rc_buf_thresh out) = 14"
    "\<forall>i < 14. fits 14 (rc_buf_thresh out ! i) \<and> take_bit 6 (rc_buf_thresh out ! i) = 0"
    using RC rcBufThresh_fits by (simp_all add: rc_fields_ok_def rcBufThresh_def)
  have qp: "length (range_min_qp out) = 15" "\<forall>i < 15. fits 5 (range_min_qp out ! i)"
    "length (range_max_qp out) = 15" "\<forall>i < 15. fits 5 (range_max_qp out ! i)"
    using RC by (auto simp: rc_fields_ok_def qp_ranges_def fits_def)
  have ofs: "length (range_bpg_offset out) = 15"
    "\<forall>i < 15. signed_take_bit 5 (range_bpg_offset out ! i) = range_bpg_offset out ! i"
    using RC offset_signed_6 by (auto simp: rc_fields_ok_def offsets_ok_def list_all_length)
  show ?thesis
    unfolding pps_encodable_def packed_def
    by (intro conjI) (simp_all add: base rate init slice chunk height rc th qp ofs del: One_nat_def)
qed

lemma pps_ok_decodes:
  assumes "pps_ok inp out" "calc_ready inp" "fits 1 (in_simple_422 inp)" "fits 1 (in_native_420 inp)" "fits 1 (in_native_422 inp)"
  shows "pps_decode (plan_bytes (DSC_PpsConstruct out)) = pps_view (packed out)"
  using pps.round_trip [OF pps_ok_encodable [OF assms]] by (simp add: construct_packed)

lemma DSC_PpsDataGen_cases:
  assumes "calc_ready inp"
  obtains out' where "DSC_PpsDataGen inp dest = Some (NVT_STATUS_SUCCESS, map_option (\<lambda>_. DSC_PpsConstruct out') dest)"
      "pps_ok inp out'"
  | ret where "DSC_PpsDataGen inp dest = Some (ret, dest)" "ret \<noteq> NVT_STATUS_SUCCESS"
proof -
  obtain ret out' where "DSC_PpsCalc inp zero_output = Some (ret, out')" "ret = NVT_STATUS_SUCCESS \<longrightarrow> pps_ok inp out'"
    using DSC_PpsCalc_ok [OF assms, of zero_output] by (auto simp: returns_def)
  then show thesis
    using that by (cases "ret = NVT_STATUS_SUCCESS") (auto simp: DSC_PpsDataGen_def)
qed

section \<open>Properties\<close>

text \<open>
  C13: decoding the bytes of the 32 dwords \<open>DSC_PpsConstruct\<close> packs gives back every field of the
  picture parameter set, for every parameter set whose fields fit their places.
\<close>

theorem pps_construct_round_trip:
  assumes "pps_encodable p"
  shows "pps_decode (plan_bytes (DSC_PpsConstruct p)) = pps_view p"
  using assms by (rule pps.round_trip)

theorem pps_construct_round_trip_witness:
  "pic_width (pps_decode (plan_bytes (DSC_PpsConstruct (zero_output\<lparr>pic_width := 3840\<rparr>)))) = 3840"
proof -
  have "pps_encodable (zero_output\<lparr>pic_width := 3840\<rparr>)"
    by (simp add: pps_encodable_def zero_output_def fits_def nth_replicate)
  then show ?thesis by (simp add: pps_construct_round_trip pps_view_def)
qed

text \<open>
  C17: \<open>DSC_PpsCalc\<close> runs all its stages without undefined behaviour for every request within
  \<open>calc_ready\<close> whose format flags are 0 or 1. When it succeeds, geometry, slices, rate control and
  quantisation are consistent, and every field of the output fits its place in the picture parameter set,
  with one exception: the chunk size reaches 65536, one more than its 16 bits hold, of which packing keeps
  the low 16 bits.
\<close>

theorem pps_calc_sound:
  assumes "calc_ready inp" and "fits 1 (in_simple_422 inp)" and "fits 1 (in_native_420 inp)"
    and "fits 1 (in_native_422 inp)"
  shows "\<exists>status out'. DSC_PpsCalc inp out = Some (status, out') \<and>
    (status = NVT_STATUS_SUCCESS \<longrightarrow>
       pps_ok inp out' \<and> unat (chunk_size out') \<le> 65536 \<and> pps_encodable (packed out'))"
  using DSC_PpsCalc_ok [OF assms(1), of out] pps_ok_encodable [OF _ assms] pps_ok_chunk by (auto simp: returns_def)

theorem pps_calc_sound_witness:
  "\<exists>status out'. DSC_PpsCalc (zero_input\<lparr>in_dsc_version_minor := 2, in_bits_per_component := 8,
     in_linebuf_depth := 9, in_convert_rgb := 1, in_bits_per_pixel := 128, in_pic_height := 2160,
     in_pic_width := 3840, in_slice_count_mask := 0x2B, in_max_slice_num := 4, in_max_slice_width := 2560,
     in_pixel_clkMHz := 594, in_peak_throughput_mode0 := 1\<rparr>) zero_output = Some (status, out')"
  using pps_calc_sound [of "zero_input\<lparr>in_dsc_version_minor := 2, in_bits_per_component := 8,
     in_linebuf_depth := 9, in_convert_rgb := 1, in_bits_per_pixel := 128, in_pic_height := 2160,
     in_pic_width := 3840, in_slice_count_mask := 0x2B, in_max_slice_num := 4, in_max_slice_width := 2560,
     in_pixel_clkMHz := 594, in_peak_throughput_mode0 := 1\<rparr>" zero_output]
  by (auto simp: calc_ready_def zero_input_def fits_def)

text \<open>
  Two encodable parameter sets packed into the same dwords agree in every field of the picture
  parameter set: no information is lost or aliased.
\<close>

theorem pps_construct_injective:
  assumes "pps_encodable p" and "pps_encodable q" and "DSC_PpsConstruct p = DSC_PpsConstruct q"
  shows "pps_view p = pps_view q"
  using assms by (rule pps.enc_inj)

theorem pps_construct_injective_witness:
  "pps_view (zero_output\<lparr>slice_num := 4\<rparr>) = pps_view zero_output"
proof (rule pps_construct_injective)
  show "pps_encodable (zero_output\<lparr>slice_num := 4\<rparr>)" "pps_encodable zero_output"
    by (simp_all add: pps_encodable_def zero_output_def fits_def nth_replicate)
  show "DSC_PpsConstruct (zero_output\<lparr>slice_num := 4\<rparr>) = DSC_PpsConstruct zero_output"
    by (simp add: DSC_PpsConstruct_def pps_bytes_def)
qed

text \<open>
  \<open>DSC_PpsDataGen\<close> returns for every request within \<open>calc_ready\<close>. A failure leaves the destination as
  it was; a success writes 32 dwords that decode to parameters meeting \<open>pps_ok\<close>, of the chunk size its low
  16 bits.
\<close>

theorem pps_data_gen_sound:
  assumes "calc_ready inp" and "fits 1 (in_simple_422 inp)" and "fits 1 (in_native_420 inp)"
    and "fits 1 (in_native_422 inp)"
  shows "\<exists>ret pps'. DSC_PpsDataGen inp (Some pps) = Some (ret, Some pps') \<and>
    (ret \<noteq> NVT_STATUS_SUCCESS \<longrightarrow> pps' = pps) \<and>
    (ret = NVT_STATUS_SUCCESS \<longrightarrow> length pps' = 32 \<and>
       (\<exists>out. pps_ok inp out \<and> pps_decode (plan_bytes pps') = pps_view (packed out)))"
proof (rule DSC_PpsDataGen_cases [OF assms(1), of "Some pps"])
  fix out' assume ok: "pps_ok inp out'" and
    gen: "DSC_PpsDataGen inp (Some pps) = Some (NVT_STATUS_SUCCESS, map_option (\<lambda>_. DSC_PpsConstruct out') (Some pps))"
  with ok gen pps_ok_decodes [OF ok assms] show ?thesis by (auto simp: DSC_PpsConstruct_def Let_def)
qed auto

theorem pps_data_gen_sound_witness:
  "\<exists>ret pps'. DSC_PpsDataGen (zero_input\<lparr>in_dsc_version_minor := 2, in_bits_per_component := 8,
     in_linebuf_depth := 9, in_convert_rgb := 1, in_bits_per_pixel := 128, in_pic_height := 2160,
     in_pic_width := 3840, in_slice_count_mask := 0x2B, in_max_slice_num := 4, in_max_slice_width := 2560,
     in_pixel_clkMHz := 594, in_peak_throughput_mode0 := 1\<rparr>) (Some (replicate 32 0)) = Some (ret, Some pps')"
  using pps_data_gen_sound [of "zero_input\<lparr>in_dsc_version_minor := 2, in_bits_per_component := 8,
     in_linebuf_depth := 9, in_convert_rgb := 1, in_bits_per_pixel := 128, in_pic_height := 2160,
     in_pic_width := 3840, in_slice_count_mask := 0x2B, in_max_slice_num := 4, in_max_slice_width := 2560,
     in_pixel_clkMHz := 594, in_peak_throughput_mode0 := 1\<rparr>" "replicate 32 0"]
  by (auto simp: calc_ready_def zero_input_def fits_def)

end
