(* ===== verification/Dsc_Generate.thy ===== *)
theory Dsc_Generate
  imports Dsc_Codec
begin

text \<open>
  The public entry points of \<^verbatim>\<open>nvt_dsc_pps.c\<close>: \<open>_validateInput\<close> (in the order of its checks, split
  into the groups the source comments name) and \<open>DSC_GeneratePPS\<close> (stage by stage). A pointer argument
  is an option, \<^const>\<open>None\<close> being \<^verbatim>\<open>NULL\<close>.
\<close>

section \<open>Input validation\<close>

definition IS_VALID_LANECOUNT :: "NvU32 \<Rightarrow> bool" where
  "IS_VALID_LANECOUNT v \<longleftrightarrow> v = 0 \<or> v = 1 \<or> v = 2 \<or> v = 4 \<or> v = 8"

definition IS_STANDARD_DP2_X_LINKBW :: "NvU64 \<Rightarrow> bool" where
  "IS_STANDARD_DP2_X_LINKBW v \<longleftrightarrow> (ucast v :: NvU32) \<in> set [0x00A2, 0x010E, 0x021C, 0x032A]"

definition IS_INTERMEDIATE_DP2_X_LINKBW :: "NvU64 \<Rightarrow> bool" where
  "IS_INTERMEDIATE_DP2_X_LINKBW v \<longleftrightarrow>
     (ucast v :: NvU32) \<in> set [0x00D8, 0x00F3, 0x0144, 0x01B0, 0x02A3]"

definition IS_DP2_X_UHBR_LINKBW :: "NvU64 \<Rightarrow> bool" where
  "IS_DP2_X_UHBR_LINKBW v \<longleftrightarrow> (ucast v :: NvU32) \<in> set [0x00FA, 0x01F4, 0x03E8, 0x0546, 0x07D0]"

definition IS_VALID_DP2_X_LINKBW :: "NvU64 \<Rightarrow> bool" where
  "IS_VALID_DP2_X_LINKBW v \<longleftrightarrow>
     IS_STANDARD_DP2_X_LINKBW v \<or> IS_INTERMEDIATE_DP2_X_LINKBW v \<or> IS_DP2_X_UHBR_LINKBW v"

definition LINK_RATE_TO_DATA_RATE_8B_10B :: "NvU64 \<Rightarrow> NvU64" where
  "LINK_RATE_TO_DATA_RATE_8B_10B linkRate = linkRate * 1000000"

definition LINK_RATE_TO_DATA_RATE_128B_132B :: "NvU64 \<Rightarrow> NvU64" where
  "LINK_RATE_TO_DATA_RATE_128B_132B linkRate = (linkRate * 4 * 10000000) div 33"

text \<open>Each group returns the status of its first failed check, or success.\<close>

definition validate_caps :: "DSC_INFO \<Rightarrow> NVT_STATUS" where
  "validate_caps info =
     (let sink = sinkCaps info; gpu = gpuCaps info in
      if decoderColorFormatMask sink = 0 then NVT_STATUS_INVALID_PARAMETER
      else if \<not> ONEBITSET (bitsPerPixelPrecision sink) then NVT_STATUS_INVALID_PARAMETER
      else if bitsPerPixelPrecision sink \<noteq> 1 \<and> bitsPerPixelPrecision sink \<noteq> 2 \<and>
              bitsPerPixelPrecision sink \<noteq> 4 \<and> bitsPerPixelPrecision sink \<noteq> 8 \<and>
              bitsPerPixelPrecision sink \<noteq> 16 then NVT_STATUS_INVALID_PARAMETER
      else if maxSliceWidth sink = 0 then NVT_STATUS_INVALID_PARAMETER
      else if maxNumHztSlices sink = 0 then NVT_STATUS_INVALID_PARAMETER
      else if lineBufferBitDepth sink = 0 then NVT_STATUS_INVALID_PARAMETER
      else if versionMinor (algorithmRevision sink) = 0 then NVT_STATUS_INVALID_PARAMETER
      else if encoderColorFormatMask gpu = 0 then NVT_STATUS_INVALID_PARAMETER
      else if lineBufferSize gpu = 0 then NVT_STATUS_INVALID_PARAMETER
      else if gpu_maxNumHztSlices gpu = 0 then NVT_STATUS_INVALID_PARAMETER
      else if gpu_lineBufferBitDepth gpu = 0 then NVT_STATUS_INVALID_PARAMETER
      else NVT_STATUS_SUCCESS)"

definition validate_forced :: "DSC_INFO \<Rightarrow> MODESET_INFO \<Rightarrow> NVT_STATUS" where
  "validate_forced info mode =
     (let sink = sinkCaps info; gpu = gpuCaps info; forced = forcedDscParams info in
      if forced_sliceCount forced > maxNumHztSlices sink then NVT_STATUS_DSC_SLICE_ERROR
      else if forced_sliceCount forced div (if bDualMode mode \<noteq> 0 then 2 else 1) > gpu_maxNumHztSlices gpu
           then NVT_STATUS_DSC_SLICE_ERROR
      else if forced_sliceWidth forced > maxSliceWidth sink then NVT_STATUS_DSC_SLICE_ERROR
      else if forced_sliceCount forced > 0 \<and> forced_sliceWidth forced \<noteq> 0 then NVT_STATUS_DSC_SLICE_ERROR
      else if forced_sliceCount forced \<notin> set [0, 1, 2, 4, 8, 10, 12, 16, 20, 24]
           then NVT_STATUS_DSC_SLICE_ERROR
      else if forced_sliceWidth forced > activeWidth mode then NVT_STATUS_DSC_SLICE_ERROR
      else if forced_sliceHeight forced > activeHeight mode then NVT_STATUS_DSC_SLICE_ERROR
      else if versionMinor (forced_dscRevision forced) > versionMinor (algorithmRevision sink)
           then NVT_STATUS_INVALID_PARAMETER
      else if versionMinor (forced_dscRevision forced) > 2 then NVT_STATUS_INVALID_PARAMETER
      else NVT_STATUS_SUCCESS)"

text \<open>
  The branch throughput limit is computed as \<open>NvU32 * int\<close>, in 32 bits, before it is compared with
  the 64-bit pixel clock.
\<close>

definition validate_mode :: "DSC_INFO \<Rightarrow> MODESET_INFO \<Rightarrow> NvU64 \<Rightarrow> NVT_STATUS" where
  "validate_mode info mode availableBandwidthBitsPerSecond =
     (let branch = branchCaps info in
      if pixelClockHz mode = 0 then NVT_STATUS_INVALID_PARAMETER
      else if overallThroughputMode0 branch \<noteq> 0 \<and>
              pixelClockHz mode > ucast (overallThroughputMode0 branch * 1000000)
           then NVT_STATUS_OVERALL_THROUGHPUT_ERROR
      else if activeWidth mode = 0 then NVT_STATUS_INVALID_PARAMETER
      else if maxLineBufferWidth branch \<noteq> 0 \<and> activeWidth mode > maxLineBufferWidth branch
           then NVT_STATUS_MAX_LINE_BUFFER_ERROR
      else if activeHeight mode = 0 then NVT_STATUS_INVALID_PARAMETER
      else if bitsPerComponent mode = 0 then NVT_STATUS_INVALID_PARAMETER
      else if availableBandwidthBitsPerSecond = 0 then NVT_STATUS_INVALID_PARAMETER
      else NVT_STATUS_SUCCESS)"

definition native_422_possible :: "DSC_INFO \<Rightarrow> bool" where
  "native_422_possible info \<longleftrightarrow>
     encoderColorFormatMask (gpuCaps info) AND DSC_ENCODER_COLOR_FORMAT_Y_CB_CR_NATIVE_422 \<noteq> 0 \<and>
     decoderColorFormatMask (sinkCaps info) AND DSC_DECODER_COLOR_FORMAT_Y_CB_CR_NATIVE_422 \<noteq> 0"

definition native_420_possible :: "DSC_INFO \<Rightarrow> bool" where
  "native_420_possible info \<longleftrightarrow>
     encoderColorFormatMask (gpuCaps info) AND DSC_ENCODER_COLOR_FORMAT_Y_CB_CR_NATIVE_420 \<noteq> 0 \<and>
     decoderColorFormatMask (sinkCaps info) AND DSC_DECODER_COLOR_FORMAT_Y_CB_CR_NATIVE_420 \<noteq> 0"

definition simple_422_possible :: "DSC_INFO \<Rightarrow> bool" where
  "simple_422_possible info \<longleftrightarrow>
     decoderColorFormatMask (sinkCaps info) AND DSC_DECODER_COLOR_FORMAT_Y_CB_CR_SIMPLE_422 \<noteq> 0"

definition validate_format :: "DSC_INFO \<Rightarrow> MODESET_INFO \<Rightarrow> NVT_STATUS" where
  "validate_format info mode =
     (let sink = sinkCaps info in
      if colorFormat mode = NVT_COLOR_FORMAT_YCbCr422 \<and>
         \<not> simple_422_possible info \<and> \<not> native_422_possible info
      then NVT_STATUS_COLOR_FORMAT_NOT_SUPPORTED
      else if colorFormat mode = NVT_COLOR_FORMAT_YCbCr420 \<and> \<not> native_420_possible info
      then NVT_STATUS_COLOR_FORMAT_NOT_SUPPORTED
      else if maxBitsPerPixelX16 sink > 1024 then NVT_STATUS_INVALID_PARAMETER
      else if decoderColorDepthMask sink \<noteq> 0 then
        (if bitsPerComponent mode = 12 then
           (if decoderColorDepthMask sink AND DSC_DECODER_COLOR_DEPTH_CAPS_12_BITS = 0
            then NVT_STATUS_INVALID_BPC else NVT_STATUS_SUCCESS)
         else if bitsPerComponent mode = 10 then
           (if decoderColorDepthMask sink AND DSC_DECODER_COLOR_DEPTH_CAPS_10_BITS = 0
            then NVT_STATUS_INVALID_BPC else NVT_STATUS_SUCCESS)
         else if bitsPerComponent mode = 8 then
           (if decoderColorDepthMask sink AND DSC_DECODER_COLOR_DEPTH_CAPS_8_BITS = 0
            then NVT_STATUS_INVALID_BPC else NVT_STATUS_SUCCESS)
         else NVT_STATUS_INVALID_PARAMETER)
      else NVT_STATUS_SUCCESS)"

definition validate_war :: "WAR_DATA option \<Rightarrow> NVT_STATUS" where
  "validate_war pWARData =
     (case pWARData of
        None \<Rightarrow> NVT_STATUS_SUCCESS
      | Some war \<Rightarrow>
          if connectorType war \<noteq> DSC_DP \<and> connectorType war \<noteq> DSC_HDMI
          then NVT_STATUS_INVALID_PARAMETER
          else if connectorType war = DSC_DP then
            (if \<not> IS_VALID_LANECOUNT (laneCount (dpData war)) then NVT_STATUS_INVALID_PARAMETER
             else if \<not> IS_VALID_DP2_X_LINKBW (linkRateHz (dpData war)) then NVT_STATUS_INVALID_PARAMETER
             else if hBlank (dpData war) > 7680 then NVT_STATUS_INVALID_HBLANK
             else if dpMode (dpData war) \<noteq> DSC_DP_SST \<and> dpMode (dpData war) \<noteq> DSC_DP_MST
                  then NVT_STATUS_INVALID_PARAMETER
             else NVT_STATUS_SUCCESS)
          else NVT_STATUS_SUCCESS)"

definition validateInput :: "DSC_INFO \<Rightarrow> MODESET_INFO \<Rightarrow> WAR_DATA option \<Rightarrow> NvU64 \<Rightarrow> NVT_STATUS" where
  "validateInput info mode pWARData availableBandwidthBitsPerSecond =
     (if validate_caps info \<noteq> NVT_STATUS_SUCCESS then validate_caps info
      else if validate_forced info mode \<noteq> NVT_STATUS_SUCCESS then validate_forced info mode
      else if validate_mode info mode availableBandwidthBitsPerSecond \<noteq> NVT_STATUS_SUCCESS
           then validate_mode info mode availableBandwidthBitsPerSecond
      else if validate_format info mode \<noteq> NVT_STATUS_SUCCESS then validate_format info mode
      else validate_war pWARData)"

section \<open>Generation\<close>

text \<open>Capabilities and colour format (after the input struct has been cleared).\<close>

definition generate_format :: "DSC_INFO \<Rightarrow> MODESET_INFO \<Rightarrow> NVT_STATUS + DSC_INPUT_PARAMS" where
  "generate_format info mode =
     (let inp = zero_input\<lparr>
            in_bits_per_component := bitsPerComponent mode,
            in_linebuf_depth := C_MIN (lineBufferBitDepth (sinkCaps info)) (gpu_lineBufferBitDepth (gpuCaps info)),
            in_block_pred_enable := ucast (bBlockPrediction (sinkCaps info)),
            in_multi_tile := (if gpu_maxNumHztSlices (gpuCaps info) > 4 then 1 else 0)\<rparr>
      in case colorFormat mode of
           NVT_COLOR_FORMAT_RGB \<Rightarrow> Inr (inp\<lparr>in_convert_rgb := 1\<rparr>)
         | NVT_COLOR_FORMAT_YCbCr444 \<Rightarrow> Inr (inp\<lparr>in_convert_rgb := 0\<rparr>)
         | NVT_COLOR_FORMAT_YCbCr422 \<Rightarrow>
             (if native_422_possible info then Inr (inp\<lparr>in_convert_rgb := 0, in_native_422 := 1\<rparr>)
              else if simple_422_possible info then Inr (inp\<lparr>in_convert_rgb := 0, in_simple_422 := 1\<rparr>)
              else Inl NVT_STATUS_COLOR_FORMAT_NOT_SUPPORTED)
         | NVT_COLOR_FORMAT_YCbCr420 \<Rightarrow>
             (if native_420_possible info then Inr (inp\<lparr>in_convert_rgb := 0, in_native_420 := 1\<rparr>)
              else Inl NVT_STATUS_COLOR_FORMAT_NOT_SUPPORTED)
         | _ \<Rightarrow> Inl NVT_STATUS_COLOR_FORMAT_NOT_SUPPORTED)"

text \<open>
  The countdown to a bits-per-pixel value that needs no chunk padding; 127 when none is found.
\<close>

function hblank_bpp_loop :: "NvU32 \<Rightarrow> NvU32 \<Rightarrow> NvU32 \<Rightarrow> NvU32 option" where
  "hblank_bpp_loop i sliceWidth unit =
     (if i \<ge> 8 * BPP_UNIT then do {
        r \<leftarrow> c_mod (i * sliceWidth) unit;
        if r = 0 then Some i else hblank_bpp_loop (i - 1) sliceWidth unit
      }
      else Some i)"
  by pat_completeness auto
termination
  by (relation "measure (\<lambda>(i, w, u). unat i)")
    (auto simp: word_le_nat_alt unat_sub_nowrap unat_minus_one)

declare hblank_bpp_loop.simps [simp del]

definition hblank_bpp :: "MODESET_INFO \<Rightarrow> DP_DATA \<Rightarrow> NvU32 \<Rightarrow> NvU32 option" where
  "hblank_bpp mode dp bpp = do {
     count \<leftarrow> NV_CEIL (pixelClockHz mode) 340000000;
     let minSliceCount = (ucast count :: NvU32);
     let minSliceCount = (if minSliceCount > 2 \<and> minSliceCount < 4 then 4
                          else if minSliceCount > 4 then 8 else minSliceCount);
     sliceWidth \<leftarrow> NV_CEIL (activeWidth mode) minSliceCount;
     let protocolOverhead = (if laneCount dp = 1 then 42 else if laneCount dp = 2 then 24 else 21);
     let dscOverhead = minSliceCount * 2;
     let dataRate = (if bIs128b132bChannelCoding dp \<noteq> 0
                     then LINK_RATE_TO_DATA_RATE_128B_132B (linkRateHz dp)
                     else LINK_RATE_TO_DATA_RATE_8B_10B (linkRateHz dp));
     blank \<leftarrow> c_div (ucast (hBlank dp) * dataRate) (pixelClockHz mode);
     if blank < ucast (protocolOverhead + dscOverhead + 3)
     then hblank_bpp_loop bpp sliceWidth (8 * minSliceCount * laneCount dp * 16)
     else Some bpp
   }"

text \<open>The bits per pixel the available bandwidth allows, with the DisplayPort workarounds.\<close>

definition generate_war ::
  "MODESET_INFO \<Rightarrow> WAR_DATA option \<Rightarrow> NvU64 \<Rightarrow> DSC_INPUT_PARAMS \<Rightarrow> DSC_INPUT_PARAMS option" where
  "generate_war mode pWARData availableBandwidthBitsPerSecond inp = do {
     ideal \<leftarrow> c_div (availableBandwidthBitsPerSecond * BPP_UNIT) (pixelClockHz mode);
     let inp = inp\<lparr>in_bits_per_pixel := ucast ideal\<rparr>;
     (case pWARData of
        None \<Rightarrow> Some inp
      | Some war \<Rightarrow>
          if connectorType war = DSC_DP then do {
            let dp = dpData war;
            bpp \<leftarrow> (if laneCount dp = 1 then do {
                      limited \<leftarrow> c_div (96 * availableBandwidthBitsPerSecond * BPP_UNIT)
                                   (100 * pixelClockHz mode);
                      Some (ucast limited - BPP_UNIT div 8)
                    }
                    else Some (ucast ideal - BPP_UNIT div 8));
            bpp \<leftarrow> (if dpMode dp = DSC_DP_SST \<and> hBlank dp < 100 then hblank_bpp mode dp bpp
                    else Some bpp);
            Some (inp\<lparr>in_bits_per_pixel := bpp, in_eDP := (if bIsEdp dp = NV_TRUE then 1 else 0)\<rparr>)
          }
          else Some inp)
   }"

definition is_dp :: "WAR_DATA option \<Rightarrow> bool" where
  "is_dp pWARData \<longleftrightarrow> (case pWARData of None \<Rightarrow> False | Some war \<Rightarrow> connectorType war = DSC_DP)"

text \<open>Dual-mode and multi-tile hardware cannot exceed 16 bits per pixel.\<close>

definition limited_to_16bpp :: "MODESET_INFO \<Rightarrow> WAR_DATA option \<Rightarrow> DSC_INPUT_PARAMS \<Rightarrow> bool" where
  "limited_to_16bpp mode pWARData inp \<longleftrightarrow>
     (bDualMode mode \<noteq> 0 \<or>
      (in_multi_tile inp \<noteq> 0 \<and>
       (case pWARData of None \<Rightarrow> True | Some war \<Rightarrow> bDisableDscMaxBppLimit (dpData war) = 0)))
     \<and> in_bits_per_pixel inp > 256"

text \<open>
  Limits on the bits per pixel. The second component is \<^verbatim>\<open>*pBitsPerPixelX16\<close> afterwards: a value the
  caller asked for is aligned in place even when it is then refused.
\<close>

definition generate_bpp ::
  "DSC_INFO \<Rightarrow> MODESET_INFO \<Rightarrow> WAR_DATA option \<Rightarrow> DSC_INPUT_PARAMS \<Rightarrow> NvU32
     \<Rightarrow> (NVT_STATUS + DSC_INPUT_PARAMS) \<times> NvU32" where
  "generate_bpp info mode pWARData inp userBpp =
     (let sink = sinkCaps info;
          upper = C_MIN (3 * in_bits_per_component inp * BPP_UNIT) (32 * BPP_UNIT);
          bpp = (if in_bits_per_pixel inp > upper then upper else in_bits_per_pixel inp);
          bpp = DSC_AlignDownForBppPrecision bpp (bitsPerPixelPrecision sink);
          inp = inp\<lparr>in_bits_per_pixel := bpp\<rparr>
      in if userBpp \<noteq> 0 then
           (let userBpp = DSC_AlignDownForBppPrecision userBpp (bitsPerPixelPrecision sink) in
            if is_dp pWARData \<and> userBpp > in_bits_per_pixel inp then (Inl NVT_STATUS_INVALID_BPP, userBpp)
            else let inp = inp\<lparr>in_bits_per_pixel := userBpp\<rparr> in
            if limited_to_16bpp mode pWARData inp then (Inl NVT_STATUS_INVALID_BPP, userBpp)
            else if maxBitsPerPixelX16 sink \<noteq> 0 \<and> userBpp > maxBitsPerPixelX16 sink
                 then (Inl NVT_STATUS_INVALID_BPP, userBpp)
            else (Inr inp, userBpp))
         else
           (let inp = (if limited_to_16bpp mode pWARData inp then inp\<lparr>in_bits_per_pixel := 256\<rparr> else inp);
                inp = (if in_bits_per_pixel inp = 126 \<or> in_bits_per_pixel inp = 127
                       then inp\<lparr>in_bits_per_pixel := 128\<rparr> else inp);
                inp = (if maxBitsPerPixelX16 sink \<noteq> 0 \<and> in_bits_per_pixel inp > maxBitsPerPixelX16 sink
                       then inp\<lparr>in_bits_per_pixel := maxBitsPerPixelX16 sink\<rparr> else inp)
            in (Inr inp, userBpp)))"

text \<open>The remaining input parameters and the final range check.\<close>

definition filled :: "DSC_INFO \<Rightarrow> MODESET_INFO \<Rightarrow> DSC_INPUT_PARAMS \<Rightarrow> DSC_INPUT_PARAMS" where
  "filled info mode inp =
     (let sink = sinkCaps info; gpu = gpuCaps info; forced = forcedDscParams info in inp\<lparr>
        in_dsc_version_minor := (if versionMinor (forced_dscRevision forced) \<noteq> 0
                                 then versionMinor (forced_dscRevision forced)
                                 else versionMinor (algorithmRevision sink)),
        in_pic_width := activeWidth mode,
        in_pic_height := activeHeight mode,
        in_slice_height := forced_sliceHeight forced,
        in_slice_width := forced_sliceWidth forced,
        in_slice_num := forced_sliceCount forced,
        in_max_slice_num := C_MIN (maxNumHztSlices sink)
          (if bDualMode mode \<noteq> 0 then gpu_maxNumHztSlices gpu * 2 else gpu_maxNumHztSlices gpu),
        in_max_slice_width := C_MIN (maxSliceWidth sink) (lineBufferSize gpu * 1024),
        in_pixel_clkMHz := ucast (pixelClockHz mode div 1000000),
        in_dual_mode := ucast (bDualMode mode),
        in_drop_mode := ucast (bDropMode mode),
        in_slice_count_mask := sliceCountSupportedMask sink,
        in_peak_throughput_mode0 := peakThroughputMode0 sink,
        in_peak_throughput_mode1 := peakThroughputMode1 sink\<rparr>)"

definition generate_fill ::
  "DSC_INFO \<Rightarrow> MODESET_INFO \<Rightarrow> DSC_INPUT_PARAMS \<Rightarrow> NVT_STATUS + DSC_INPUT_PARAMS" where
  "generate_fill info mode inp =
     (if bDualMode mode \<noteq> 0 \<and> gpu_maxNumHztSlices (gpuCaps info) > 4 then Inl NVT_STATUS_INVALID_PARAMETER
      else let inp = filled info mode inp
      in if in_native_422 inp \<noteq> 0 then
           (let inp = inp\<lparr>in_bits_per_pixel := in_bits_per_pixel inp * 2\<rparr> in
            if in_dsc_version_minor inp = 1 then Inl NVT_STATUS_COLOR_FORMAT_NOT_SUPPORTED
            else if \<not> RANGE_CHECK (in_bits_per_pixel inp) (2 * 7 * BPP_UNIT)
                       (2 * 2 * in_bits_per_component inp * BPP_UNIT - 1)
                 then Inl NVT_STATUS_INVALID_BPP
            else Inr inp)
         else if \<not> RANGE_CHECK (in_bits_per_pixel inp) (8 * BPP_UNIT) (32 * BPP_UNIT)
              then Inl NVT_STATUS_INVALID_BPP
         else Inr inp)"

text \<open>
  The result: status, destination array and \<^verbatim>\<open>*pBitsPerPixelX16\<close>. The scratch area is only tested for
  null: the generator clears both halves before it reads them.
\<close>

type_synonym pps_result = "NVT_STATUS \<times> NvU32 list option \<times> NvU32 option"

definition DSC_GeneratePPS ::
  "DSC_INFO option \<Rightarrow> MODESET_INFO option \<Rightarrow> WAR_DATA option \<Rightarrow> NvU64
     \<Rightarrow> DSC_GENERATE_PPS_WORKAREA option \<Rightarrow> NvU32 list option \<Rightarrow> NvU32 option
     \<Rightarrow> pps_result option" where
  "DSC_GeneratePPS pDscInfo pModesetInfo pWARData availableBandwidthBitsPerSecond pOpaqueWorkarea
       pps pBitsPerPixelX16 =
     (case (pDscInfo, pModesetInfo, pOpaqueWorkarea, pBitsPerPixelX16) of
        (Some info, Some mode, Some _, Some userBpp) \<Rightarrow>
          (case validateInput info mode pWARData availableBandwidthBitsPerSecond of
             NVT_STATUS_SUCCESS \<Rightarrow>
               (case generate_format info mode of
                  Inl ret \<Rightarrow> Some (ret, pps, Some userBpp)
                | Inr inp \<Rightarrow> do {
                    inp \<leftarrow> generate_war mode pWARData availableBandwidthBitsPerSecond inp;
                    (case generate_bpp info mode pWARData inp userBpp of
                       (Inl ret, userBpp) \<Rightarrow> Some (ret, pps, Some userBpp)
                     | (Inr inp, userBpp) \<Rightarrow>
                         (case generate_fill info mode inp of
                            Inl ret \<Rightarrow> Some (ret, pps, Some userBpp)
                          | Inr inp \<Rightarrow> do {
                              (ret, pps) \<leftarrow> DSC_PpsDataGen inp pps;
                              Some (ret, pps, Some (in_bits_per_pixel inp))
                            }))
                  })
           | ret \<Rightarrow> Some (ret, pps, Some userBpp))
      | _ \<Rightarrow> Some (NVT_STATUS_INVALID_PARAMETER, pps, pBitsPerPixelX16))"

section \<open>What validation establishes\<close>

lemma validate_caps_success:
  assumes "validate_caps info = NVT_STATUS_SUCCESS"
  shows "maxSliceWidth (sinkCaps info) \<noteq> 0" "lineBufferSize (gpuCaps info) \<noteq> 0"
    "bitsPerPixelPrecision (sinkCaps info) \<in> {1, 2, 4, 8, 16}"
  using assms by (auto simp: validate_caps_def Let_def split: if_split_asm)

lemma validate_forced_success:
  assumes "validate_forced info mode = NVT_STATUS_SUCCESS"
  shows "unat (forced_sliceCount (forcedDscParams info)) \<le> 24"
    "forced_sliceWidth (forcedDscParams info) \<le> maxSliceWidth (sinkCaps info)"
  using assms by (auto simp: validate_forced_def Let_def split: if_split_asm)

lemma validate_mode_success:
  assumes "validate_mode info mode bw = NVT_STATUS_SUCCESS"
  shows "pixelClockHz mode \<noteq> 0" "bw \<noteq> 0"
  using assms by (auto simp: validate_mode_def Let_def split: if_split_asm)

lemma validate_war_success:
  assumes "validate_war (Some war) = NVT_STATUS_SUCCESS" and "connectorType war = DSC_DP"
  shows "laneCount (dpData war) \<in> {0, 1, 2, 4, 8}"
  using assms by (auto simp: validate_war_def IS_VALID_LANECOUNT_def split: if_split_asm)

lemma validateInput_success:
  assumes "validateInput info mode war bw = NVT_STATUS_SUCCESS"
  shows "validate_caps info = NVT_STATUS_SUCCESS" "validate_forced info mode = NVT_STATUS_SUCCESS"
    "validate_mode info mode bw = NVT_STATUS_SUCCESS" "validate_format info mode = NVT_STATUS_SUCCESS"
    "validate_war war = NVT_STATUS_SUCCESS"
  using assms by (auto simp: validateInput_def split: if_split_asm)

section \<open>The bandwidth limit\<close>

text \<open>
  The bounds a caller has to guarantee: clock and bandwidth keep the 64-bit products from wrapping,
  the line buffer is at most 64 units, a DisplayPort link has lanes, and a rate asked for on another
  connector is at most three times the bit depth.
\<close>

definition request_bounds :: "DSC_INFO \<Rightarrow> MODESET_INFO \<Rightarrow> WAR_DATA option \<Rightarrow> NvU32 \<Rightarrow> bool" where
  "request_bounds info mode war userBpp \<longleftrightarrow>
     unat (pixelClockHz mode) \<le> 4000000000 \<and>
     unat (lineBufferSize (gpuCaps info)) \<le> 64 \<and> unat (maxSliceWidth (sinkCaps info)) \<le> 65535 \<and>
     (case war of None \<Rightarrow> True | Some w \<Rightarrow> connectorType w = DSC_DP \<longrightarrow> laneCount (dpData w) \<noteq> 0) \<and>
     (is_dp war \<or> unat userBpp \<le> 48 * unat (bitsPerComponent mode))"

lemma hblank_bpp_loop_le:
  "unit \<noteq> 0 \<Longrightarrow> returns (hblank_bpp_loop i w unit) (\<lambda>r. r \<le> i)"
proof (induction i w unit rule: hblank_bpp_loop.induct)
  case (1 i w unit)
  show ?case
  proof (cases "i \<ge> 8 * 16 \<and> i * w mod unit \<noteq> 0")
    case False
    then show ?thesis
      using 1(2) by (subst hblank_bpp_loop.simps) (auto intro!: returns_Some)
  next
    case True
    then have g: "i \<ge> 8 * 16" and m: "c_mod (i * w) unit = Some (i * w mod unit)" and r: "i * w mod unit \<noteq> 0"
      using 1(2) by simp_all
    have less: "i - 1 \<le> i" using g by (simp add: word_le_nat_alt unat_sub_nowrap)
    have "returns (hblank_bpp_loop (i - 1) w unit) (\<lambda>r. r \<le> i)"
      by (rule returns_weaken [OF 1(1) [OF g m r 1(2)]]) (use less in simp)
    then show ?thesis
      by (subst hblank_bpp_loop.simps, subst if_P [OF g]) (simp add: m r)
  qed
qed

lemma min_slices_340:
  assumes "pclk \<noteq> 0" "unat (pclk :: NvU64) \<le> 4000000000"
  shows "\<exists>c. NV_CEIL pclk 340000000 = Some c \<and> 1 \<le> unat (ucast c :: NvU32) \<and> unat (ucast c :: NvU32) \<le> 12"
proof -
  let ?c = "(pclk + 340000000 - 1) div 340000000"
  have "\<not> unat ?c \<le> 0" "unat ?c \<le> 12"
    using assms by (subst unat_ceil_div_le_iff; simp add: unat_eq_zero_iff)+
  moreover have "unat (ucast ?c :: NvU32) = unat ?c"
    using \<open>unat ?c \<le> 12\<close> by (simp only: unsigned_ucast_eq) (simp add: take_bit_nat_eq_self)
  ultimately show ?thesis by (auto simp: NV_CEIL_def)
qed

lemma hblank_bpp_le:
  assumes "pixelClockHz mode \<noteq> 0" "unat (pixelClockHz mode) \<le> 4000000000" "laneCount dp \<in> {1, 2, 4, 8}"
  shows "returns (hblank_bpp mode dp bpp) (\<lambda>r. r \<le> bpp)"
proof -
  obtain c where c: "NV_CEIL (pixelClockHz mode) 340000000 = Some c"
    and b: "1 \<le> unat (ucast c :: NvU32)" "unat (ucast c :: NvU32) \<le> 12"
    using min_slices_340 [OF assms(1,2)] by blast
  define n :: NvU32 where "n = (if (ucast c :: NvU32) > 2 \<and> (ucast c :: NvU32) < 4 then 4
      else if (ucast c :: NvU32) > 4 then 8 else ucast c)"
  have n: "1 \<le> unat n" "unat n \<le> 8"
    using b by (auto simp: n_def word_less_nat_alt)
  then have nz: "n \<noteq> 0" by auto
  have "unat (laneCount dp) \<le> 8" "1 \<le> unat (laneCount dp)" using assms(3) by auto
  then have "unat (8 * n * laneCount dp * 16) = 8 * unat n * unat (laneCount dp) * 16"
    using n mult_le_mono [OF n(2), of "unat (laneCount dp)" 8]
    by (simp add: unat_mult_nowrap)
  then have "0 < unat (8 * n * laneCount dp * 16)"
    using n(1) \<open>1 \<le> unat (laneCount dp)\<close> by simp
  then have unit: "8 * n * laneCount dp * 16 \<noteq> 0" by (metis less_irrefl unat_0)
  show ?thesis
    unfolding hblank_bpp_def c Option.bind_lunit unfolding NV_CEIL_def
    apply (rule returns_Let, rule returns_Let)
    subgoal for m0 m
    proof -
      assume "m0 = ucast c" "m = (if m0 > 2 \<and> m0 < 4 then 4 else if m0 > 4 then 8 else m0)"
      then have m: "m = n" by (simp only: n_def)
      show ?thesis
        unfolding m
        by (rule returns_div [OF nz] returns_Let returns_div [OF assms(1)] returns_If
            hblank_bpp_loop_le [OF unit] returns_Some order_refl)+
    qed
    done
qed



lemma unat_mult_le: "unat (a * b) \<le> unat a * unat (b :: 'a::len word)"
  by (simp add: unat_word_ariths)

lemma unat_ucast_le: "unat (ucast (x :: NvU64) :: NvU32) \<le> unat x"
  by (simp add: unsigned_ucast_eq)

text \<open>The input parameters up to the two fields the bandwidth stage writes.\<close>

definition war_fields :: "DSC_INPUT_PARAMS \<Rightarrow> DSC_INPUT_PARAMS" where
  "war_fields inp = inp\<lparr>in_bits_per_pixel := 0, in_eDP := 0\<rparr>"

lemma war_fields_updates [simp]:
  "war_fields (inp\<lparr>in_bits_per_pixel := x\<rparr>) = war_fields inp"
  "war_fields (inp\<lparr>in_eDP := x\<rparr>) = war_fields inp"
  by (simp_all add: war_fields_def)

lemma war_fieldsD:
  assumes "war_fields a = war_fields b"
  shows "in_bits_per_component a = in_bits_per_component b" "in_native_422 a = in_native_422 b"
    "in_native_420 a = in_native_420 b" "in_simple_422 a = in_simple_422 b" "in_multi_tile a = in_multi_tile b"
    "in_block_pred_enable a = in_block_pred_enable b" "in_convert_rgb a = in_convert_rgb b"
  using arg_cong [OF assms, of in_bits_per_component] arg_cong [OF assms, of in_native_422]
    arg_cong [OF assms, of in_native_420] arg_cong [OF assms, of in_simple_422] arg_cong [OF assms, of in_multi_tile]
    arg_cong [OF assms, of in_block_pred_enable] arg_cong [OF assms, of in_convert_rgb]
  by (simp_all add: war_fields_def)

definition lanes_ok :: "WAR_DATA option \<Rightarrow> bool" where
  "lanes_ok war \<longleftrightarrow> (case war of None \<Rightarrow> True | Some w \<Rightarrow> connectorType w = DSC_DP \<longrightarrow> laneCount (dpData w) \<in> {1, 2, 4, 8})"

text \<open>The rate the bandwidth allows, in sixteenths of a bit.\<close>

definition ideal_bpp :: "MODESET_INFO \<Rightarrow> NvU64 \<Rightarrow> nat" where
  "ideal_bpp mode bw = 16 * unat bw div unat (pixelClockHz mode)"

text \<open>Clock and bandwidth leave the products below 64 bits, and 8 bits per pixel fit the link.\<close>

definition bandwidth_ok :: "MODESET_INFO \<Rightarrow> NvU64 \<Rightarrow> bool" where
  "bandwidth_ok mode bw \<longleftrightarrow> unat bw \<le> 1000000000000000 \<and> 8 * unat (pixelClockHz mode) \<le> unat bw \<and>
     ideal_bpp mode bw < 2 ^ 32"

lemma ideal_word:
  assumes "unat bw \<le> 1000000000000000"
  shows "unat (bw * 16 div pixelClockHz mode) = ideal_bpp mode bw"
proof -
  have "unat (bw * 16) = 16 * unat bw"
    using assms by (subst unat_mult_nowrap) simp_all
  then show ?thesis by (simp add: ideal_bpp_def)
qed

lemma ideal_ge_128:
  assumes "pixelClockHz mode \<noteq> 0" "8 * unat (pixelClockHz mode) \<le> unat bw"
  shows "128 \<le> ideal_bpp mode bw"
proof -
  have "0 < unat (pixelClockHz mode)" using assms(1) by (simp add: unat_gt_0)
  then show ?thesis
    unfolding ideal_bpp_def using assms(2) by (simp add: less_eq_div_iff_mult_less_eq)
qed

text \<open>A link with one lane keeps four per cent back.\<close>

lemma one_lane_bpp:
  assumes "pixelClockHz mode \<noteq> 0" "unat (pixelClockHz mode) \<le> 4000000000" "bandwidth_ok mode bw"
  shows "unat (96 * bw * 16 div (100 * pixelClockHz mode)) \<le> ideal_bpp mode bw"
    "2 \<le> unat (96 * bw * 16 div (100 * pixelClockHz mode))"
proof -
  have b: "unat bw \<le> 1000000000000000" "8 * unat (pixelClockHz mode) \<le> unat bw"
    using assms(3) by (simp_all add: bandwidth_ok_def)
  let ?p = "unat (pixelClockHz mode)"
  have p: "0 < ?p" using assms(1) by (simp add: unat_gt_0)
  have "unat (96 * bw) = 96 * unat bw" using b by (subst unat_mult_nowrap) simp_all
  then have "unat (96 * bw * 16) = 96 * unat bw * 16" using b by (subst unat_mult_nowrap) simp_all
  moreover have "unat (100 * pixelClockHz mode) = 100 * ?p"
    using assms(2) by (subst unat_mult_nowrap) simp_all
  ultimately have eq: "unat (96 * bw * 16 div (100 * pixelClockHz mode)) = 96 * unat bw * 16 div (100 * ?p)"
    by simp
  have "96 * unat bw * 16 div (100 * ?p) \<le> 100 * (16 * unat bw) div (100 * ?p)"
    by (intro div_le_mono) simp
  then show "unat (96 * bw * 16 div (100 * pixelClockHz mode)) \<le> ideal_bpp mode bw"
    unfolding eq ideal_bpp_def by simp
  show "2 \<le> unat (96 * bw * 16 div (100 * pixelClockHz mode))"
    unfolding eq using b(2) p by (simp add: less_eq_div_iff_mult_less_eq)
qed

definition war_post :: "MODESET_INFO \<Rightarrow> WAR_DATA option \<Rightarrow> NvU64 \<Rightarrow> DSC_INPUT_PARAMS \<Rightarrow> DSC_INPUT_PARAMS \<Rightarrow> bool" where
  "war_post mode war bw inp r \<longleftrightarrow> war_fields r = war_fields inp \<and>
     (is_dp war \<and> bandwidth_ok mode bw \<longrightarrow> unat (in_bits_per_pixel r) \<le> ideal_bpp mode bw)"

lemma unat_ucast_small: "unat (x :: NvU64) < 2 ^ 32 \<Longrightarrow> unat (ucast x :: NvU32) = unat x"
  by (simp add: unsigned_ucast_eq take_bit_nat_eq_self)

lemma dp_first_bpp:
  assumes "pixelClockHz mode \<noteq> 0" "unat (pixelClockHz mode) \<le> 4000000000"
  shows "returns (if lanes = (1 :: NvU32) then do {
        limited \<leftarrow> c_div (96 * bw * 16) (100 * pixelClockHz mode);
        Some (ucast limited - 16 div 8 :: NvU32) }
      else Some (ucast (bw * 16 div pixelClockHz mode) - 16 div 8))
    (\<lambda>b. bandwidth_ok mode bw \<longrightarrow> unat b \<le> ideal_bpp mode bw)"
proof -
  have "unat (100 * pixelClockHz mode) = 100 * unat (pixelClockHz mode)"
    using assms(2) by (subst unat_mult_nowrap) simp_all
  moreover have "0 < unat (pixelClockHz mode)" using assms(1) by (simp add: unat_gt_0)
  ultimately have "0 < unat (100 * pixelClockHz mode)" by simp
  then have nz: "100 * pixelClockHz mode \<noteq> 0" by (metis less_irrefl unat_0)
  have sub: "unat (ucast x - 16 div 8 :: NvU32) \<le> n" if "2 \<le> unat x" "unat x \<le> n" "n < 2 ^ 32" for x :: NvU64 and n
    using that unat_ucast_small [of x] by (subst unat_sub_nowrap) simp_all
  have one: "unat (ucast (96 * bw * 16 div (100 * pixelClockHz mode)) - 16 div 8 :: NvU32) \<le> ideal_bpp mode bw"
    if "bandwidth_ok mode bw"
    using one_lane_bpp [OF assms that] that by (intro sub) (simp_all only: bandwidth_ok_def)
  have many: "unat (ucast (bw * 16 div pixelClockHz mode) - 16 div 8 :: NvU32) \<le> ideal_bpp mode bw"
    if "bandwidth_ok mode bw"
  proof -
    have "128 \<le> ideal_bpp mode bw" using ideal_ge_128 [OF assms(1)] that by (simp add: bandwidth_ok_def)
    then show ?thesis
      using that ideal_word [of bw mode] by (intro sub) (simp_all add: bandwidth_ok_def)
  qed
  show ?thesis
    using one many
    by (intro returns_If returns_div [OF nz] returns_Some) auto
qed

lemma generate_war_ok:
  assumes "pixelClockHz mode \<noteq> 0" "unat (pixelClockHz mode) \<le> 4000000000" "lanes_ok war"
  shows "returns (generate_war mode war bw inp) (war_post mode war bw inp)"
proof (cases war)
  case None
  then show ?thesis
    using assms(1) by (simp add: generate_war_def Let_def returns_Some war_post_def is_dp_def)
next
  case (Some w)
  show ?thesis
  proof (cases "connectorType w = DSC_DP")
    case False
    then show ?thesis
      using assms(1) Some by (simp add: generate_war_def Let_def returns_Some war_post_def is_dp_def)
  next
    case True
    have h: "returns (if dpMode dp = DSC_DP_SST \<and> hBlank dp < 100
         then hblank_bpp mode dp b else Some b) (\<lambda>r. bandwidth_ok mode bw \<longrightarrow> unat r \<le> ideal_bpp mode bw)"
      if "dp = dpData w" "bandwidth_ok mode bw \<longrightarrow> unat b \<le> ideal_bpp mode bw" for b dp
    proof -
      have "returns (hblank_bpp mode dp b) (\<lambda>r. bandwidth_ok mode bw \<longrightarrow> unat r \<le> ideal_bpp mode bw)"
        by (rule returns_weaken [OF hblank_bpp_le [OF assms(1,2)]])
          (use that Some True assms(3) in \<open>auto simp: lanes_ok_def word_le_nat_alt\<close>)
      then show ?thesis using that(2) by (intro returns_If returns_Some)
    qed
    show ?thesis
      unfolding generate_war_def
      by (rule returns_div [OF assms(1)], unfold Some option.case if_P [OF True])
        (rule returns_Let returns_bind [OF dp_first_bpp [OF assms(1,2)]] returns_bind [OF h] returns_Some
          | assumption | simp add: war_post_def)+
  qed
qed



section \<open>Limits on the rate\<close>

lemma align_down_le: "unat (DSC_AlignDownForBppPrecision bpp precision) \<le> unat bpp"
  by (simp add: DSC_AlignDownForBppPrecision_unat)

lemma upper_bpp:
  "unat (C_MIN (3 * bpc * 16) (32 * 16) :: NvU32) \<le> 48 * unat bpc"
  "unat (C_MIN (3 * bpc * 16) (32 * 16) :: NvU32) \<le> 512"
proof -
  have "unat (3 * bpc * 16) \<le> unat (3 * bpc) * 16"
    using unat_mult_le [of "3 * bpc" 16] by simp
  also have "\<dots> \<le> 3 * unat bpc * 16"
    using unat_mult_le [of 3 bpc] by (intro mult_right_mono) simp_all
  finally have "unat (3 * bpc * 16) \<le> 48 * unat bpc" by simp
  then show "unat (C_MIN (3 * bpc * 16) (32 * 16) :: NvU32) \<le> 48 * unat bpc"
    "unat (C_MIN (3 * bpc * 16) (32 * 16) :: NvU32) \<le> 512"
    by (auto simp: C_MIN_def word_less_nat_alt word_le_nat_alt)
qed

text \<open>The rate the bandwidth allows after clamping and alignment.\<close>

definition capped_bpp :: "DSC_INFO \<Rightarrow> DSC_INPUT_PARAMS \<Rightarrow> NvU32" where
  "capped_bpp info inp =
     (let upper = C_MIN (3 * in_bits_per_component inp * 16) (32 * 16) in
      DSC_AlignDownForBppPrecision (if in_bits_per_pixel inp > upper then upper else in_bits_per_pixel inp)
        (bitsPerPixelPrecision (sinkCaps info)))"

lemma capped_bpp_le:
  "unat (capped_bpp info inp) \<le> unat (in_bits_per_pixel inp)"
  "unat (capped_bpp info inp) \<le> 48 * unat (in_bits_per_component inp)"
  "unat (capped_bpp info inp) \<le> 512"
proof -
  let ?u = "C_MIN (3 * in_bits_per_component inp * 16) (32 * 16)"
  let ?b = "if in_bits_per_pixel inp > ?u then ?u else in_bits_per_pixel inp"
  have "unat ?b \<le> unat (in_bits_per_pixel inp)" "unat ?b \<le> unat ?u"
    by (auto simp: word_less_nat_alt)
  then show "unat (capped_bpp info inp) \<le> unat (in_bits_per_pixel inp)"
    "unat (capped_bpp info inp) \<le> 48 * unat (in_bits_per_component inp)"
    "unat (capped_bpp info inp) \<le> 512"
    unfolding capped_bpp_def Let_def
    using upper_bpp [of "in_bits_per_component inp"] align_down_le [of ?b "bitsPerPixelPrecision (sinkCaps info)"]
    by linarith+
qed

definition bpp_fields :: "DSC_INPUT_PARAMS \<Rightarrow> DSC_INPUT_PARAMS" where
  "bpp_fields inp = inp\<lparr>in_bits_per_pixel := 0\<rparr>"

lemma bpp_fields_update [simp]: "bpp_fields (inp\<lparr>in_bits_per_pixel := x\<rparr>) = bpp_fields inp"
  by (simp add: bpp_fields_def)

lemma bpp_fields_war: "bpp_fields a = bpp_fields b \<Longrightarrow> war_fields a = war_fields b"
  by (rule frame_transfer [where k = bpp_fields and P = "\<lambda>x. war_fields a = war_fields x" and a = a])
    (simp_all add: bpp_fields_def)

text \<open>The rate asked for, when there is one; otherwise the capped rate with the exceptions of the code.\<close>

definition chosen_bpp :: "DSC_INFO \<Rightarrow> MODESET_INFO \<Rightarrow> WAR_DATA option \<Rightarrow> DSC_INPUT_PARAMS \<Rightarrow> NvU32" where
  "chosen_bpp info mode war inp =
     (let b = capped_bpp info inp;
          b = (if limited_to_16bpp mode war (inp\<lparr>in_bits_per_pixel := b\<rparr>) then 256 else b);
          b = (if b = 126 \<or> b = 127 then 128 else b);
          m = maxBitsPerPixelX16 (sinkCaps info)
      in if m \<noteq> 0 \<and> b > m then m else b)"

lemma chosen_bpp_le:
  "unat (chosen_bpp info mode war inp) \<le> unat (capped_bpp info inp) \<or>
   126 \<le> unat (capped_bpp info inp) \<and> unat (chosen_bpp info mode war inp) \<le> 128"
proof -
  define b where "b = capped_bpp info inp"
  define c where "c = (if limited_to_16bpp mode war (inp\<lparr>in_bits_per_pixel := b\<rparr>) then 256 else b)"
  define d where "d = (if c = 126 \<or> c = 127 then 128 else c)"
  define e where "e = (if maxBitsPerPixelX16 (sinkCaps info) \<noteq> 0 \<and> d > maxBitsPerPixelX16 (sinkCaps info)
    then maxBitsPerPixelX16 (sinkCaps info) else d)"
  have "unat c \<le> unat b" by (auto simp: c_def limited_to_16bpp_def word_less_nat_alt)
  moreover have "unat d \<le> unat c \<or> 126 \<le> unat c \<and> unat d \<le> 128" by (auto simp: d_def)
  moreover have "unat e \<le> unat d" by (auto simp: e_def word_less_nat_alt)
  ultimately have "unat e \<le> unat b \<or> 126 \<le> unat b \<and> unat e \<le> 128" by linarith
  then show ?thesis
    unfolding chosen_bpp_def Let_def b_def [symmetric] c_def [symmetric] d_def [symmetric] e_def [symmetric] .
qed

lemma generate_bpp_capped:
  "generate_bpp info mode war inp userBpp =
     (let sink = sinkCaps info; inp = inp\<lparr>in_bits_per_pixel := capped_bpp info inp\<rparr>
      in if userBpp \<noteq> 0 then
           (let userBpp = DSC_AlignDownForBppPrecision userBpp (bitsPerPixelPrecision sink) in
            if is_dp war \<and> userBpp > in_bits_per_pixel inp then (Inl NVT_STATUS_INVALID_BPP, userBpp)
            else let inp = inp\<lparr>in_bits_per_pixel := userBpp\<rparr> in
            if limited_to_16bpp mode war inp then (Inl NVT_STATUS_INVALID_BPP, userBpp)
            else if maxBitsPerPixelX16 sink \<noteq> 0 \<and> userBpp > maxBitsPerPixelX16 sink
                 then (Inl NVT_STATUS_INVALID_BPP, userBpp)
            else (Inr inp, userBpp))
         else
           (let inp = (if limited_to_16bpp mode war inp then inp\<lparr>in_bits_per_pixel := 256\<rparr> else inp);
                inp = (if in_bits_per_pixel inp = 126 \<or> in_bits_per_pixel inp = 127
                       then inp\<lparr>in_bits_per_pixel := 128\<rparr> else inp);
                inp = (if maxBitsPerPixelX16 sink \<noteq> 0 \<and> in_bits_per_pixel inp > maxBitsPerPixelX16 sink
                       then inp\<lparr>in_bits_per_pixel := maxBitsPerPixelX16 sink\<rparr> else inp)
            in (Inr inp, userBpp)))"
  unfolding generate_bpp_def capped_bpp_def Let_def by (rule refl)

lemma set_bpp_If:
  "(if c then inp\<lparr>in_bits_per_pixel := x\<rparr> else inp\<lparr>in_bits_per_pixel := y\<rparr>) =
   inp\<lparr>in_bits_per_pixel := if c then x else y\<rparr>"
  "inp\<lparr>in_bits_per_pixel := x, in_bits_per_pixel := y\<rparr> = inp\<lparr>in_bits_per_pixel := y\<rparr>"
  "in_bits_per_pixel (inp\<lparr>in_bits_per_pixel := x\<rparr>) = x"
  by simp_all

lemma generate_bpp_auto:
  "generate_bpp info mode war inp 0 = (Inr (inp\<lparr>in_bits_per_pixel := chosen_bpp info mode war inp\<rparr>), 0)"
  unfolding generate_bpp_capped chosen_bpp_def Let_def
  by (simp only: set_bpp_If not_True_eq_False simp_thms if_False)

lemma generate_bpp_forced:
  assumes "userBpp \<noteq> 0"
  shows "snd (generate_bpp info mode war inp userBpp) =
      DSC_AlignDownForBppPrecision userBpp (bitsPerPixelPrecision (sinkCaps info))" (is ?A)
    and "fst (generate_bpp info mode war inp userBpp) = Inr r \<Longrightarrow>
      r = inp\<lparr>in_bits_per_pixel := snd (generate_bpp info mode war inp userBpp)\<rparr> \<and>
      (is_dp war \<longrightarrow> in_bits_per_pixel r \<le> capped_bpp info inp) \<and> \<not> limited_to_16bpp mode war r" (is "_ \<Longrightarrow> ?B")
proof -
  define u where "u = DSC_AlignDownForBppPrecision userBpp (bitsPerPixelPrecision (sinkCaps info))"
  note eq = generate_bpp_capped [of info mode war inp userBpp, unfolded Let_def if_P [OF assms]
    u_def [symmetric] set_bpp_If]
  show ?A unfolding eq u_def [symmetric] by simp
  assume "fst (generate_bpp info mode war inp userBpp) = Inr r"
  then show ?B unfolding eq by (simp add: not_less set_bpp_If split: if_split_asm) (auto simp: not_less)
qed

lemma generate_bpp_ok:
  assumes "fst (generate_bpp info mode war inp userBpp) = Inr r"
    and "is_dp war \<or> unat userBpp \<le> 48 * unat (in_bits_per_component inp)"
  shows "bpp_fields r = bpp_fields inp"
    "unat (in_bits_per_pixel r) \<le> 48 * unat (in_bits_per_component inp) \<or> unat (in_bits_per_pixel r) \<le> 128"
    "is_dp war \<Longrightarrow> unat (in_bits_per_pixel r) \<le> unat (in_bits_per_pixel inp) \<or> unat (in_bits_per_pixel r) \<le> 128"
    "is_dp war \<Longrightarrow> unat (in_bits_per_pixel r) \<le> 512"
proof -
  show "bpp_fields r = bpp_fields inp"
  proof (cases "userBpp = 0")
    case True then show ?thesis using assms(1) by (auto simp: generate_bpp_auto)
  next
    case False then show ?thesis using generate_bpp_forced(2) [OF False assms(1)] by simp
  qed
  have "unat (in_bits_per_pixel r) \<le> unat (capped_bpp info inp) \<or> unat (in_bits_per_pixel r) \<le> 128 \<or>
    \<not> is_dp war \<and> unat (in_bits_per_pixel r) \<le> unat userBpp"
  proof (cases "userBpp = 0")
    case True
    then show ?thesis using assms(1) chosen_bpp_le [of info mode war inp] by (auto simp: generate_bpp_auto)
  next
    case False
    show ?thesis
      using generate_bpp_forced(2) [OF False assms(1)] generate_bpp_forced(1) [OF False, of info mode war inp]
        align_down_le [of userBpp] by (auto simp: word_le_nat_alt)
  qed
  then show "unat (in_bits_per_pixel r) \<le> 48 * unat (in_bits_per_component inp) \<or> unat (in_bits_per_pixel r) \<le> 128"
    "is_dp war \<Longrightarrow> unat (in_bits_per_pixel r) \<le> unat (in_bits_per_pixel inp) \<or> unat (in_bits_per_pixel r) \<le> 128"
    "is_dp war \<Longrightarrow> unat (in_bits_per_pixel r) \<le> 512"
    using capped_bpp_le [of info inp] assms(2) by linarith+
qed



section \<open>Formats and the remaining parameters\<close>

definition format_flags :: "DSC_INFO \<Rightarrow> MODESET_INFO \<Rightarrow> DSC_INPUT_PARAMS \<Rightarrow> bool" where
  "format_flags info mode inp \<longleftrightarrow> fits 1 (in_simple_422 inp) \<and> fits 1 (in_native_420 inp) \<and> fits 1 (in_native_422 inp) \<and>
     in_block_pred_enable inp = ucast (bBlockPrediction (sinkCaps info)) \<and>
     (in_convert_rgb inp \<noteq> 0 \<longleftrightarrow> colorFormat mode = NVT_COLOR_FORMAT_RGB) \<and>
     (colorFormat mode = NVT_COLOR_FORMAT_RGB \<longrightarrow> in_simple_422 inp = 0 \<and> in_native_420 inp = 0 \<and> in_native_422 inp = 0)"

lemma generate_format_Inr:
  assumes "generate_format info mode = Inr inp"
  shows "in_bits_per_component inp = bitsPerComponent mode" "format_flags info mode inp"
    "in_native_422 inp \<noteq> 0 \<longleftrightarrow> colorFormat mode = NVT_COLOR_FORMAT_YCbCr422 \<and> native_422_possible info"
  using assms
  by (auto simp: generate_format_def Let_def zero_input_def format_flags_def fits_def
      split: NVT_COLOR_FORMAT.split_asm if_split_asm)

text \<open>The parameters that come straight from the request.\<close>

definition request_fields :: "DSC_INFO \<Rightarrow> MODESET_INFO \<Rightarrow> DSC_INPUT_PARAMS \<Rightarrow> bool" where
  "request_fields info mode inp \<longleftrightarrow>
     in_dsc_version_minor inp = (if versionMinor (forced_dscRevision (forcedDscParams info)) \<noteq> 0
       then versionMinor (forced_dscRevision (forcedDscParams info)) else versionMinor (algorithmRevision (sinkCaps info))) \<and>
     in_bits_per_component inp = bitsPerComponent mode \<and>
     in_pic_width inp = activeWidth mode \<and> in_pic_height inp = activeHeight mode \<and>
     in_slice_count_mask inp = sliceCountSupportedMask (sinkCaps info) \<and>
     in_max_slice_width inp = C_MIN (maxSliceWidth (sinkCaps info)) (lineBufferSize (gpuCaps info) * 1024) \<and>
     in_pixel_clkMHz inp = ucast (pixelClockHz mode div 1000000) \<and>
     in_drop_mode inp = ucast (bDropMode mode) \<and>
     in_slice_num inp = forced_sliceCount (forcedDscParams info) \<and>
     in_slice_width inp = forced_sliceWidth (forcedDscParams info) \<and>
     (in_native_422 inp \<noteq> 0 \<longleftrightarrow> colorFormat mode = NVT_COLOR_FORMAT_YCbCr422 \<and> native_422_possible info)"

lemma filled_fields:
  "in_native_422 (filled info mode inp) = in_native_422 inp"
  "in_bits_per_pixel (filled info mode inp) = in_bits_per_pixel inp"
  "in_bits_per_component (filled info mode inp) = in_bits_per_component inp"
  "format_flags info mode (filled info mode inp) = format_flags info mode inp"
  "format_flags info mode (inp\<lparr>in_bits_per_pixel := x\<rparr>) = format_flags info mode inp"
  by (simp_all add: filled_def format_flags_def Let_def)

lemma filled_request:
  assumes "in_bits_per_component inp = bitsPerComponent mode"
    and "in_native_422 inp \<noteq> 0 \<longleftrightarrow> colorFormat mode = NVT_COLOR_FORMAT_YCbCr422 \<and> native_422_possible info"
  shows "request_fields info mode (filled info mode inp)"
    "request_fields info mode ((filled info mode inp)\<lparr>in_bits_per_pixel := x\<rparr>)"
  by (simp_all add: filled_def request_fields_def Let_def assms)

lemma generate_fill_Inr:
  assumes "generate_fill info mode inp = Inr r"
    and req: "in_bits_per_component inp = bitsPerComponent mode"
      "in_native_422 inp \<noteq> 0 \<longleftrightarrow> colorFormat mode = NVT_COLOR_FORMAT_YCbCr422 \<and> native_422_possible info"
  shows "request_fields info mode r" "format_flags info mode r = format_flags info mode inp"
    "in_bits_per_pixel r = (if in_native_422 inp \<noteq> 0 then in_bits_per_pixel inp * 2 else in_bits_per_pixel inp)"
    "in_native_422 inp \<noteq> 0 \<Longrightarrow> RANGE_CHECK (in_bits_per_pixel r) (2 * 7 * 16) (2 * 2 * in_bits_per_component inp * 16 - 1)"
    "in_native_422 inp = 0 \<Longrightarrow> RANGE_CHECK (in_bits_per_pixel r) (8 * 16) (32 * 16)"
    "in_native_422 r = in_native_422 inp"
proof -
  let ?f = "filled info mode inp"
  consider "in_native_422 inp \<noteq> 0" "r = ?f\<lparr>in_bits_per_pixel := in_bits_per_pixel ?f * 2\<rparr>"
      "RANGE_CHECK (in_bits_per_pixel r) (2 * 7 * 16) (2 * 2 * in_bits_per_component r * 16 - 1)"
    | "in_native_422 inp = 0" "r = ?f" "RANGE_CHECK (in_bits_per_pixel r) (8 * 16) (32 * 16)"
    using assms(1) unfolding generate_fill_def Let_def
    by (simp only: filled_fields split: if_split_asm) auto
  note c = this
  show "request_fields info mode r" "format_flags info mode r = format_flags info mode inp" "in_native_422 r = in_native_422 inp"
    using filled_request [OF req] filled_fields by (cases rule: c; simp)+
  show "in_bits_per_pixel r = (if in_native_422 inp \<noteq> 0 then in_bits_per_pixel inp * 2 else in_bits_per_pixel inp)"
    using filled_fields by (cases rule: c) simp_all
  show "in_native_422 inp \<noteq> 0 \<Longrightarrow> RANGE_CHECK (in_bits_per_pixel r) (2 * 7 * 16) (2 * 2 * in_bits_per_component inp * 16 - 1)"
    "in_native_422 inp = 0 \<Longrightarrow> RANGE_CHECK (in_bits_per_pixel r) (8 * 16) (32 * 16)"
    by (cases rule: c; simp add: filled_fields)+
qed

lemma max_slice_width_bounds:
  assumes "maxSliceWidth sink \<noteq> 0" "unat (maxSliceWidth sink) \<le> 65535" "units \<noteq> 0" "unat (units :: NvU32) \<le> 64"
  shows "C_MIN (maxSliceWidth sink) (units * 1024) \<noteq> 0" "unat (C_MIN (maxSliceWidth sink) (units * 1024)) \<le> 65535"
proof -
  have "unat (units * 1024) = unat units * 1024" using assms(4) by (subst unat_mult_nowrap) simp_all
  moreover have "0 < unat units" using assms(3) by (simp add: unat_gt_0)
  ultimately have "0 < unat (units * 1024)" by simp
  then have "units * 1024 \<noteq> 0" by (metis less_irrefl unat_0)
  then show "C_MIN (maxSliceWidth sink) (units * 1024) \<noteq> 0"
    "unat (C_MIN (maxSliceWidth sink) (units * 1024)) \<le> 65535"
    using assms(1,2) by (auto simp: C_MIN_def word_less_nat_alt word_le_nat_alt)
qed

lemma clock_mhz_bound: "unat (pclk :: NvU64) \<le> 4000000000 \<Longrightarrow> unat (ucast (pclk div 1000000) :: NvU32) \<le> 4294966295"
  using unat_ucast_le [of "pclk div 1000000"] div_le_dividend [of "unat pclk" 1000000]
  by (simp add: unat_div_distrib)

lemma generate_fill_ready:
  assumes fill: "generate_fill info mode inp = Inr r"
    and valid: "validateInput info mode war bw = NVT_STATUS_SUCCESS"
    and bounds: "request_bounds info mode war userBpp"
    and inp: "in_bits_per_component inp = bitsPerComponent mode"
      "in_native_422 inp \<noteq> 0 \<longleftrightarrow> colorFormat mode = NVT_COLOR_FORMAT_YCbCr422 \<and> native_422_possible info"
    and bpp: "unat (in_bits_per_pixel inp) \<le> 48 * unat (in_bits_per_component inp) \<or> unat (in_bits_per_pixel inp) \<le> 128"
  shows "calc_ready r"
proof -
  note v = validateInput_success [OF valid]
  note caps = validate_caps_success [OF v(1)] and forced = validate_forced_success [OF v(2)]
  have b: "unat (pixelClockHz mode) \<le> 4000000000" "unat (lineBufferSize (gpuCaps info)) \<le> 64"
    "unat (maxSliceWidth (sinkCaps info)) \<le> 65535"
    using bounds by (simp_all add: request_bounds_def)
  note F = generate_fill_Inr [OF fill inp]
  note W = max_slice_width_bounds [OF caps(1) b(3) caps(2) b(2)]
  have w: "unat (forced_sliceWidth (forcedDscParams info)) \<le> 65536"
    using forced(2) b(3) by (simp add: word_le_nat_alt)
  have rate: "if in_native_422 r \<noteq> 0
       then 192 \<le> unat (in_bits_per_pixel r) \<and>
            unat (in_bits_per_pixel r) \<le> 64 * unat (in_bits_per_component r)
       else 96 \<le> unat (in_bits_per_pixel r) \<and>
            unat (in_bits_per_pixel r) \<le> 48 * unat (in_bits_per_component r)"
    if "in_bits_per_component r \<in> {8, 10, 12}"
  proof -
    have c: "in_bits_per_component r = in_bits_per_component inp"
      using F(1) inp(1) by (simp add: request_fields_def)
    show ?thesis
    proof (cases "in_native_422 inp = 0")
      case True
      then show ?thesis
        using F(3,5,6) bpp that c by (auto simp: RANGE_CHECK_unat)
    next
      case False
      then show ?thesis using F(4,6) that c by (auto simp: RANGE_CHECK_unat)
    qed
  qed
  have eqs: "in_max_slice_width r = C_MIN (maxSliceWidth (sinkCaps info)) (lineBufferSize (gpuCaps info) * 1024)"
    "in_pixel_clkMHz r = ucast (pixelClockHz mode div 1000000)"
    "in_slice_num r = forced_sliceCount (forcedDscParams info)"
    "in_slice_width r = forced_sliceWidth (forcedDscParams info)"
    using F(1) unfolding request_fields_def by blast+
  show ?thesis
    unfolding calc_ready_def eqs
    by (intro conjI impI W w forced(1) clock_mhz_bound [OF b(1)] rate)
qed

section \<open>The generator\<close>

text \<open>
  What a successful run establishes: the parameters computed come from the request, they are
  consistent, and the rate returned is the one they use.
\<close>

definition generated :: "DSC_INFO \<Rightarrow> MODESET_INFO \<Rightarrow> NvU32 \<Rightarrow> DSC_OUTPUT_PARAMS \<Rightarrow> bool" where
  "generated info mode bpp out \<longleftrightarrow>
     (\<exists>inp. request_fields info mode inp \<and> format_flags info mode inp \<and> calc_ready inp \<and> pps_ok inp out \<and>
        in_bits_per_pixel inp = bpp)"

text \<open>The rate of a result, half of it for native 4:2:2, which carries two pixels per sample.\<close>

definition rate_of :: "DSC_INFO \<Rightarrow> MODESET_INFO \<Rightarrow> NvU32 \<Rightarrow> nat" where
  "rate_of info mode bpp =
     (if colorFormat mode = NVT_COLOR_FORMAT_YCbCr422 \<and> native_422_possible info then unat bpp div 2 else unat bpp)"

definition link_fits :: "DSC_INFO \<Rightarrow> MODESET_INFO \<Rightarrow> WAR_DATA option \<Rightarrow> NvU64 \<Rightarrow> NvU32 \<Rightarrow> bool" where
  "link_fits info mode war bw bpp \<longleftrightarrow>
     (is_dp war \<and> unat bw \<le> 1000000000000000 \<and> 8 * unat (pixelClockHz mode) \<le> unat bw \<longrightarrow>
        rate_of info mode bpp * unat (pixelClockHz mode) \<le> 16 * unat bw)"

lemma rate_fits:
  assumes "p \<noteq> 0" "r \<le> ideal \<or> r \<le> 128" "ideal = 16 * b div p" "8 * p \<le> (b :: nat)"
  shows "r * p \<le> 16 * b"
proof -
  have "128 \<le> ideal" using assms(1,3,4) by (simp add: less_eq_div_iff_mult_less_eq)
  then have "r \<le> ideal" using assms(2) by linarith
  then have "r * p \<le> ideal * p" by (rule mult_right_mono) simp
  also have "\<dots> \<le> 16 * b" unfolding assms(3) by (rule div_times_less_eq_dividend)
  finally show ?thesis .
qed

lemma link_fits_stage:
  assumes post: "war_post mode war bw inp0 inp1" and p: "pixelClockHz mode \<noteq> 0"
    and bpp: "is_dp war \<Longrightarrow> unat (in_bits_per_pixel inp2) \<le> unat (in_bits_per_pixel inp1) \<or> unat (in_bits_per_pixel inp2) \<le> 128"
      "is_dp war \<Longrightarrow> unat (in_bits_per_pixel inp2) \<le> 512"
    and rate: "rate_of info mode bpp \<le> unat (in_bits_per_pixel inp2)"
  shows "link_fits info mode war bw bpp"
  unfolding link_fits_def
proof safe
  assume dp: "is_dp war" and b: "unat bw \<le> 1000000000000000" "8 * unat (pixelClockHz mode) \<le> unat bw"
  have "unat (in_bits_per_pixel inp2) \<le> ideal_bpp mode bw \<or> unat (in_bits_per_pixel inp2) \<le> 128"
  proof (cases "ideal_bpp mode bw < 2 ^ 32")
    case True
    then have "unat (in_bits_per_pixel inp1) \<le> ideal_bpp mode bw"
      using post dp b by (simp add: war_post_def bandwidth_ok_def)
    then show ?thesis using bpp(1) [OF dp] by linarith
  next
    case False then show ?thesis using bpp(2) [OF dp] by simp
  qed
  then have "rate_of info mode bpp \<le> ideal_bpp mode bw \<or> rate_of info mode bpp \<le> 128" using rate by linarith
  then show "rate_of info mode bpp * unat (pixelClockHz mode) \<le> 16 * unat bw"
    using p b(2) by (intro rate_fits [of _ _ "ideal_bpp mode bw"]) (simp_all add: ideal_bpp_def unat_eq_zero_iff)
qed



text \<open>The arguments are non-null: validation first, then the stages in turn.\<close>

definition generate_stages ::
  "DSC_INFO \<Rightarrow> MODESET_INFO \<Rightarrow> WAR_DATA option \<Rightarrow> NvU64 \<Rightarrow> DSC_INPUT_PARAMS \<Rightarrow> NvU32 list option \<Rightarrow> NvU32
     \<Rightarrow> pps_result option" where
  "generate_stages info mode war bw inp pps userBpp = do {
     inp \<leftarrow> generate_war mode war bw inp;
     (case generate_bpp info mode war inp userBpp of
        (Inl ret, userBpp) \<Rightarrow> Some (ret, pps, Some userBpp)
      | (Inr inp, userBpp) \<Rightarrow>
          (case generate_fill info mode inp of
             Inl ret \<Rightarrow> Some (ret, pps, Some userBpp)
           | Inr inp \<Rightarrow> do {
               (ret, pps) \<leftarrow> DSC_PpsDataGen inp pps;
               Some (ret, pps, Some (in_bits_per_pixel inp))
             }))
   }"

lemma DSC_GeneratePPS_stages:
  "DSC_GeneratePPS (Some info) (Some mode) war bw (Some wa) pps (Some userBpp) =
     (let status = validateInput info mode war bw in
      if status \<noteq> NVT_STATUS_SUCCESS then Some (status, pps, Some userBpp)
      else case generate_format info mode of
             Inl ret \<Rightarrow> Some (ret, pps, Some userBpp)
           | Inr inp \<Rightarrow> generate_stages info mode war bw inp pps userBpp)"
  by (cases "validateInput info mode war bw")
    (simp_all only: DSC_GeneratePPS_def generate_stages_def Let_def option.case prod.case
      NVT_STATUS.case NVT_STATUS.distinct not_True_eq_False not_False_eq_True if_True if_False simp_thms)

definition run_ok :: "DSC_INFO \<Rightarrow> MODESET_INFO \<Rightarrow> WAR_DATA option \<Rightarrow> NvU64 \<Rightarrow> NvU32 list option \<Rightarrow> pps_result \<Rightarrow> bool" where
  "run_ok info mode war bw pps r \<longleftrightarrow>
     (\<exists>bpp. snd (snd r) = Some bpp \<and>
       (fst r \<noteq> NVT_STATUS_SUCCESS \<longrightarrow> fst (snd r) = pps) \<and>
       (fst r = NVT_STATUS_SUCCESS \<longrightarrow> link_fits info mode war bw bpp \<and>
          (\<exists>out. generated info mode bpp out \<and> fst (snd r) = map_option (\<lambda>_. DSC_PpsConstruct out) pps)))"

lemma run_ok_error: "e \<noteq> NVT_STATUS_SUCCESS \<Longrightarrow> run_ok info mode war bw pps (e, pps, Some b)"
  by (simp add: run_ok_def)

lemma run_ok_success:
  assumes "link_fits info mode war bw (in_bits_per_pixel inp)" "request_fields info mode inp" "format_flags info mode inp"
    "calc_ready inp" "pps_ok inp out"
  shows "run_ok info mode war bw pps
    (NVT_STATUS_SUCCESS, map_option (\<lambda>_. DSC_PpsConstruct out) pps, Some (in_bits_per_pixel inp))"
  using assms unfolding run_ok_def generated_def by auto

lemma generate_errors:
  "generate_format info mode = Inl e \<Longrightarrow> e \<noteq> NVT_STATUS_SUCCESS"
  "fst (generate_bpp info mode war inp userBpp) = Inl e \<Longrightarrow> e \<noteq> NVT_STATUS_SUCCESS"
  "generate_fill info mode inp = Inl e \<Longrightarrow> e \<noteq> NVT_STATUS_SUCCESS"
proof -
  show "generate_format info mode = Inl e \<Longrightarrow> e \<noteq> NVT_STATUS_SUCCESS"
    by (auto simp: generate_format_def Let_def split: NVT_COLOR_FORMAT.split_asm if_split_asm)
  show "fst (generate_bpp info mode war inp userBpp) = Inl e \<Longrightarrow> e \<noteq> NVT_STATUS_SUCCESS"
    unfolding generate_bpp_capped Let_def set_bpp_If by (auto split: if_split_asm)
  show "generate_fill info mode inp = Inl e \<Longrightarrow> e \<noteq> NVT_STATUS_SUCCESS"
    unfolding generate_fill_def Let_def by (auto split: if_split_asm)
qed

lemma rate_of_native:
  assumes "in_native_422 inp \<noteq> 0 \<longleftrightarrow> colorFormat mode = NVT_COLOR_FORMAT_YCbCr422 \<and> native_422_possible info"
    and "bpp = (if in_native_422 inp \<noteq> 0 then in_bits_per_pixel inp * 2 else in_bits_per_pixel inp)"
  shows "rate_of info mode bpp \<le> unat (in_bits_per_pixel inp)"
  using unat_mult_le [of "in_bits_per_pixel inp" 2] assms by (auto simp: rate_of_def)

lemma generate_stages_ok:
  assumes valid: "validateInput info mode war bw = NVT_STATUS_SUCCESS"
    and bounds: "request_bounds info mode war userBpp" and fmt: "generate_format info mode = Inr inp0"
  shows "returns (generate_stages info mode war bw inp0 pps userBpp) (run_ok info mode war bw pps)"
proof -
  note v = validateInput_success [OF valid]
  have p: "pixelClockHz mode \<noteq> 0" "unat (pixelClockHz mode) \<le> 4000000000"
    using validate_mode_success [OF v(3)] bounds by (simp_all add: request_bounds_def)
  have lanes: "lanes_ok war"
    using v(5) bounds validate_war_success
    by (fastforce simp: lanes_ok_def request_bounds_def split: option.splits)
  note f = generate_format_Inr [OF fmt]
  show ?thesis
    unfolding generate_stages_def
  proof (rule returns_bind [OF generate_war_ok [OF p lanes]])
    fix inp1 assume post: "war_post mode war bw inp0 inp1"
    then have w: "war_fields inp1 = war_fields inp0" by (simp add: war_post_def)
    obtain g b where gen: "generate_bpp info mode war inp1 userBpp = (g, b)" by fastforce
    show "returns (case generate_bpp info mode war inp1 userBpp of
        (Inl ret, userBpp) \<Rightarrow> Some (ret, pps, Some userBpp)
      | (Inr inp, userBpp) \<Rightarrow> (case generate_fill info mode inp of
             Inl ret \<Rightarrow> Some (ret, pps, Some userBpp)
           | Inr inp \<Rightarrow> do { (ret, pps) \<leftarrow> DSC_PpsDataGen inp pps; Some (ret, pps, Some (in_bits_per_pixel inp)) }))
      (run_ok info mode war bw pps)"
    proof (cases g)
      case (Inl e)
      then show ?thesis
        using generate_errors(2) [of info mode war inp1 userBpp e] gen by (simp add: returns_Some run_ok_error)
    next
      case (Inr inp2)
      have bpc1: "in_bits_per_component inp1 = bitsPerComponent mode" using war_fieldsD(1) [OF w] f(1) by simp
      have user: "is_dp war \<or> unat userBpp \<le> 48 * unat (in_bits_per_component inp1)"
        using bounds by (simp add: request_bounds_def bpc1)
      note B = generate_bpp_ok [of info mode war inp1 userBpp inp2, unfolded gen fst_conv, OF Inr user]
      note w2 = war_fieldsD [OF trans [OF bpp_fields_war [OF B(1)] w]]
      have flags: "format_flags info mode inp2" using f(2) w2 by (simp add: format_flags_def)
      have bpc: "in_bits_per_component inp2 = bitsPerComponent mode" using w2(1) f(1) by simp
      have nat: "in_native_422 inp2 \<noteq> 0 \<longleftrightarrow> colorFormat mode = NVT_COLOR_FORMAT_YCbCr422 \<and> native_422_possible info"
        unfolding w2(2) by (rule f(3))
      show ?thesis
      proof (cases "generate_fill info mode inp2")
        case (Inl e)
        then show ?thesis
          using generate_errors(3) [OF Inl] gen Inr by (simp add: returns_Some run_ok_error)
      next
        case fill: (Inr inp3)
        note F = generate_fill_Inr [OF fill bpc nat]
        have ready: "calc_ready inp3"
          using generate_fill_ready [OF fill valid bounds bpc nat] B(2) bpc bpc1 by simp
        have link: "link_fits info mode war bw (in_bits_per_pixel inp3)"
          by (rule link_fits_stage [OF post p(1) B(3,4) rate_of_native [OF nat F(3)]])
        show ?thesis
        proof (rule DSC_PpsDataGen_cases [OF ready, of pps])
          fix out assume "DSC_PpsDataGen inp3 pps = Some (NVT_STATUS_SUCCESS, map_option (\<lambda>_. DSC_PpsConstruct out) pps)"
            and "pps_ok inp3 out"
          then show ?thesis
            using gen Inr fill run_ok_success [OF link F(1) _ ready] F(2) flags by (simp add: returns_Some)
        next
          fix ret assume "DSC_PpsDataGen inp3 pps = Some (ret, pps)" "ret \<noteq> NVT_STATUS_SUCCESS"
          then show ?thesis using gen Inr fill by (simp add: returns_Some run_ok_error)
        qed
      qed
    qed
  qed
qed

lemma DSC_GeneratePPS_ok:
  assumes "request_bounds info mode war userBpp"
  shows "returns (DSC_GeneratePPS (Some info) (Some mode) war bw (Some wa) pps (Some userBpp)) (run_ok info mode war bw pps)"
  unfolding DSC_GeneratePPS_stages Let_def
  by (intro returns_If returns_sum returns_Some run_ok_error generate_stages_ok [OF _ assms])
    (simp_all add: generate_errors(1))

text \<open>The status and the rate do not depend on the destination.\<close>

lemma DSC_PpsDataGen_dest:
  "DSC_PpsDataGen inp None = map_option (\<lambda>r. (fst r, None)) (DSC_PpsDataGen inp dest)"
  by (cases "DSC_PpsCalc inp zero_output") (auto simp: DSC_PpsDataGen_def split: prod.split)

lemma DSC_GeneratePPS_dest:
  "DSC_GeneratePPS (Some info) (Some mode) war bw (Some wa) None (Some userBpp) =
   map_option (\<lambda>(ret, _, bpp). (ret, None, bpp)) (DSC_GeneratePPS (Some info) (Some mode) war bw (Some wa) pps (Some userBpp))"
proof -
  have "generate_stages info mode war bw inp None userBpp =
     map_option (\<lambda>(ret, _, bpp). (ret, None, bpp)) (generate_stages info mode war bw inp pps userBpp)" for inp
    unfolding generate_stages_def
    by (cases "generate_war mode war bw inp")
      (auto simp: DSC_PpsDataGen_dest [of _ pps] split: prod.split sum.split bind_split)
  then show ?thesis
    unfolding DSC_GeneratePPS_stages Let_def by (simp split: sum.split)
qed



section \<open>Properties\<close>

text \<open>The request of the driver's own test: 3840 by 2160 at 1188 MHz, 10 bits, four DisplayPort lanes.\<close>

definition sample_info :: DSC_INFO where
  "sample_info =
     \<lparr>sinkCaps = \<lparr>decoderColorFormatMask = 1, bitsPerPixelPrecision = 1, maxSliceWidth = 2560, maxNumHztSlices = 16,
        sliceCountSupportedMask = 0x12B, lineBufferBitDepth = 10, decoderColorDepthCaps = 3, decoderColorDepthMask = 3,
        algorithmRevision = \<lparr>versionMajor = 1, versionMinor = 2\<rparr>, bBlockPrediction = 1, peakThroughputMode0 = 2,
        peakThroughputMode1 = 0, maxBitsPerPixelX16 = 0\<rparr>,
      branchCaps = \<lparr>overallThroughputMode0 = 0, overallThroughputMode1 = 0, maxLineBufferWidth = 0\<rparr>,
      gpuCaps = \<lparr>encoderColorFormatMask = 1, lineBufferSize = 64, gpu_bitsPerPixelPrecision = 1,
        gpu_maxNumHztSlices = 8, gpu_lineBufferBitDepth = 12\<rparr>,
      forcedDscParams = \<lparr>forced_sliceCount = 0, forced_sliceWidth = 0, forced_sliceHeight = 0,
        forced_dscRevision = \<lparr>versionMajor = 0, versionMinor = 0\<rparr>\<rparr>\<rparr>"

definition sample_mode :: MODESET_INFO where
  "sample_mode = \<lparr>pixelClockHz = 1188000000, activeWidth = 3840, activeHeight = 2160, bitsPerComponent = 10,
     colorFormat = NVT_COLOR_FORMAT_RGB, bDualMode = 0, bDropMode = 0\<rparr>"

definition sample_war :: "NvU32 \<Rightarrow> NvU32 \<Rightarrow> WAR_DATA" where
  "sample_war lanes blank = \<lparr>connectorType = DSC_DP,
     dpData = \<lparr>linkRateHz = 810, laneCount = lanes, dpMode = DSC_DP_SST, hBlank = blank, bIsEdp = 0,
       bDisableDscMaxBppLimit = 0, bIs128b132bChannelCoding = 0\<rparr>\<rparr>"

abbreviation workarea :: DSC_GENERATE_PPS_WORKAREA where
  "workarea \<equiv> \<lparr>wa_in = zero_input, wa_out = zero_output\<rparr>"

lemma sample_bounds: "lanes \<noteq> 0 \<Longrightarrow> request_bounds sample_info sample_mode (Some (sample_war lanes blank)) 0"
  by (simp add: request_bounds_def sample_info_def sample_mode_def sample_war_def is_dp_def)

lemma sample_status:
  "map_option (\<lambda>r. (fst r, snd (snd r))) (DSC_GeneratePPS (Some sample_info) (Some sample_mode)
     (Some (sample_war 4 560)) 25297920000 (Some workarea) (Some (replicate 32 0)) (Some 0)) = Some (NVT_STATUS_SUCCESS, Some 256)"
  by code_simp

lemma generate_pps_decodes:
  assumes "request_bounds info mode war userBpp"
  shows "\<exists>status pps' bpp. DSC_GeneratePPS (Some info) (Some mode) war bw (Some wa) (Some pps) (Some userBpp) =
      Some (status, Some pps', Some bpp) \<and>
    (status \<noteq> NVT_STATUS_SUCCESS \<longrightarrow> pps' = pps) \<and>
    (status = NVT_STATUS_SUCCESS \<longrightarrow> length pps' = 32 \<and>
       (\<exists>out. generated info mode bpp out \<and> unat (chunk_size out) \<le> 65536 \<and> pps_encodable (packed out) \<and>
          pps_decode (plan_bytes pps') = pps_view (packed out)))"
proof (rule returnsE [OF DSC_GeneratePPS_ok [OF assms, of bw wa "Some pps"]])
  fix r assume run: "DSC_GeneratePPS (Some info) (Some mode) war bw (Some wa) (Some pps) (Some userBpp) = Some r"
    and ok: "run_ok info mode war bw (Some pps) r"
  obtain status p bpp where r: "r = (status, p, Some bpp)"
    using ok by (cases r) (auto simp: run_ok_def)
  show ?thesis
  proof (cases "status = NVT_STATUS_SUCCESS")
    case True
    then obtain out where g: "generated info mode bpp out" "p = Some (DSC_PpsConstruct out)"
      using ok by (auto simp: r run_ok_def)
    then obtain i where i: "pps_ok i out" "calc_ready i" "fits 1 (in_simple_422 i)" "fits 1 (in_native_420 i)" "fits 1 (in_native_422 i)"
      by (auto simp: generated_def format_flags_def)
    show ?thesis
      using run g True pps_ok_chunk [OF i(1)] pps_ok_encodable [OF i] pps_ok_decodes [OF i]
      by (auto simp: r DSC_PpsConstruct_def Let_def)
  next
    case False then show ?thesis using run ok by (auto simp: r run_ok_def)
  qed
qed

text \<open>
  C7: within the bounds a caller guarantees, \<open>DSC_GeneratePPS\<close> never reaches a division by zero, an
  access outside a table or a wrapped size. A failure leaves the destination untouched. A success
  writes 32 dwords whose bytes decode to a parameter set for the request: its picture size and depth,
  slices the sink supports that cover the picture, a slice height that divides the picture height, the rate
  that is returned to the caller, and every field in the range of its place, except that the chunk size
  can be 65536, of which the dwords hold the low 16 bits.
\<close>

theorem generate_pps_sound:
  assumes "request_bounds info mode war userBpp"
  shows "\<exists>status pps' bpp. DSC_GeneratePPS (Some info) (Some mode) war bw (Some wa) (Some pps) (Some userBpp) =
      Some (status, Some pps', Some bpp) \<and>
    (status \<noteq> NVT_STATUS_SUCCESS \<longrightarrow> pps' = pps) \<and>
    (status = NVT_STATUS_SUCCESS \<longrightarrow> length pps' = 32 \<and>
       (\<exists>out. generated info mode bpp out \<and> unat (chunk_size out) \<le> 65536 \<and> pps_encodable (packed out) \<and>
          pps_decode (plan_bytes pps') = pps_view (packed out)))"
  using generate_pps_decodes [OF assms] .

theorem generate_pps_sound_witness:
  "\<exists>pps'. DSC_GeneratePPS (Some sample_info) (Some sample_mode) (Some (sample_war 4 560)) 25297920000
     (Some workarea) (Some (replicate 32 0)) (Some 0) = Some (NVT_STATUS_SUCCESS, Some pps', Some 256) \<and> length pps' = 32"
  using generate_pps_sound [OF sample_bounds, of 4 560 25297920000 workarea "replicate 32 0"] sample_status by auto

text \<open>
  C15: on a DisplayPort link that carries at least 8 bits per pixel, the rate \<open>DSC_GeneratePPS\<close> returns
  never needs more than the available bandwidth: with one lane or several, with the blanking
  workaround, with the 16-bit cap, with a rate asked for, and after the bump from 126 or 127 to 128.
\<close>

theorem generate_pps_bandwidth:
  assumes "request_bounds info mode war userBpp" and "is_dp war"
    and "unat bw \<le> 1000000000000000" and "8 * unat (pixelClockHz mode) \<le> unat bw"
    and "DSC_GeneratePPS (Some info) (Some mode) war bw (Some wa) pps (Some userBpp) = Some (NVT_STATUS_SUCCESS, pps', Some bpp)"
  shows "rate_of info mode bpp * unat (pixelClockHz mode) \<le> 16 * unat bw"
proof -
  have "run_ok info mode war bw pps (NVT_STATUS_SUCCESS, pps', Some bpp)"
    using DSC_GeneratePPS_ok [OF assms(1), of bw wa pps] assms(5) by (auto simp: returns_def)
  then show ?thesis using assms(2-4) by (simp add: run_ok_def link_fits_def)
qed

theorem generate_pps_bandwidth_witness:
  "256 * unat (pixelClockHz sample_mode) \<le> 16 * (25297920000 :: nat)"
proof -
  obtain p where run: "DSC_GeneratePPS (Some sample_info) (Some sample_mode) (Some (sample_war 4 560)) 25297920000
     (Some workarea) (Some (replicate 32 0)) (Some 0) = Some (NVT_STATUS_SUCCESS, p, Some 256)"
    using sample_status by auto
  have "rate_of sample_info sample_mode 256 * unat (pixelClockHz sample_mode) \<le> 16 * unat (25297920000 :: NvU64)"
    by (rule generate_pps_bandwidth [OF sample_bounds _ _ _ run])
      (simp_all add: is_dp_def sample_war_def sample_mode_def)
  then show ?thesis by (simp add: rate_of_def sample_mode_def)
qed

text \<open>
  \<open>DSC_GeneratePPS\<close> refuses a null capability, mode, scratch or rate pointer with the parameter
  error and writes nothing.
\<close>

theorem generate_pps_null:
  assumes "pDscInfo = None \<or> pModesetInfo = None \<or> pWorkarea = None \<or> pBpp = None"
  shows "DSC_GeneratePPS pDscInfo pModesetInfo war bw pWorkarea pps pBpp = Some (NVT_STATUS_INVALID_PARAMETER, pps, pBpp)"
  using assms by (auto simp: DSC_GeneratePPS_def split: option.split)

theorem generate_pps_null_witness:
  "DSC_GeneratePPS (Some sample_info) (Some sample_mode) None 1 None (Some []) (Some 0) =
     Some (NVT_STATUS_INVALID_PARAMETER, Some [], Some 0)"
  by (rule generate_pps_null) simp

subsection \<open>A link without lanes\<close>

text \<open>The data rate of the link, as the search for short blankings computes it.\<close>

definition link_data_rate :: "DP_DATA \<Rightarrow> NvU64" where
  "link_data_rate dp = (if bIs128b132bChannelCoding dp \<noteq> 0 then LINK_RATE_TO_DATA_RATE_128B_132B (linkRateHz dp)
     else LINK_RATE_TO_DATA_RATE_8B_10B (linkRateHz dp))"

lemma hblank_zero_lanes:
  assumes "laneCount dp = 0" "unat (hBlank dp) * unat (link_data_rate dp) < 24 * unat (pixelClockHz mode)" "128 \<le> bpp"
  shows "hblank_bpp mode dp bpp = None"
proof -
  have loop: "hblank_bpp_loop bpp w 0 = None" for w using assms(3) by (simp add: hblank_bpp_loop.simps)
  have "unat (ucast (hBlank dp) * link_data_rate dp) \<le> unat (hBlank dp) * unat (link_data_rate dp)"
    using unat_mult_le [of "ucast (hBlank dp)" "link_data_rate dp"] by (simp add: unat_ucast_NvU32)
  then have "unat (ucast (hBlank dp) * link_data_rate dp) div unat (pixelClockHz mode) < 24"
    using assms(2) by (intro less_mult_imp_div_less) linarith
  then have blank: "ucast (hBlank dp) * link_data_rate dp div pixelClockHz mode < 24"
    by (simp only: word_less_nat_alt unat_div_word) simp
  have over: "(24 :: NvU64) \<le> ucast (21 + m * 2 + 3 :: NvU32)" if "unat m \<le> 8" for m
  proof -
    have "unat (m * 2) = unat m * 2" using that by (subst unat_mult_nowrap) simp_all
    then have "unat (21 + m * 2 + 3) = 24 + 2 * unat m" using that by (simp add: unat_add_nowrap)
    then show ?thesis by (simp add: word_le_nat_alt unat_ucast_NvU32)
  qed
  define slices where "slices c = (if c > 2 \<and> c < 4 then 4 else if c > 4 then 8 else c)" for c :: NvU32
  have "unat (slices c) \<le> 8" for c by (auto simp: slices_def word_less_nat_alt not_less)
  then have "ucast (hBlank dp) * link_data_rate dp div pixelClockHz mode < ucast (21 + slices c * 2 + 3)" for c
    using blank over order_less_le_trans by blast
  then show ?thesis
    unfolding hblank_bpp_def slices_def [symmetric] link_data_rate_def [symmetric] Let_def
    using assms(1) loop by (auto split: bind_split simp: c_div_def)
qed

text \<open>
  C25: validation lets a DisplayPort link with no lanes through. Whatever the rest of an otherwise valid
  request, on a single-stream link whose blanking is shorter than 24 data cycles and whose bandwidth
  carries the 8 bits per pixel and an eighth, the search for a rate without chunk padding then takes a
  remainder by zero.
\<close>

theorem zero_lanes_remainder:
  assumes "validate_caps info = NVT_STATUS_SUCCESS" "validate_forced info mode = NVT_STATUS_SUCCESS"
    "validate_mode info mode bw = NVT_STATUS_SUCCESS" "validate_format info mode = NVT_STATUS_SUCCESS"
    "generate_format info mode = Inr inp"
    "connectorType war = DSC_DP" "laneCount (dpData war) = 0" "IS_VALID_DP2_X_LINKBW (linkRateHz (dpData war))"
    "dpMode (dpData war) = DSC_DP_SST" "unat (hBlank (dpData war)) < 100"
    "unat (hBlank (dpData war)) * unat (link_data_rate (dpData war)) < 24 * unat (pixelClockHz mode)"
    "130 * unat (pixelClockHz mode) \<le> 16 * unat bw" "16 * unat bw < 2 ^ 64" "16 * unat bw < 2 ^ 32 * unat (pixelClockHz mode)"
  shows "validateInput info mode (Some war) bw = NVT_STATUS_SUCCESS \<and>
    DSC_GeneratePPS (Some info) (Some mode) (Some war) bw (Some wa) pps (Some userBpp) = None"
proof -
  have "validate_war (Some war) = NVT_STATUS_SUCCESS"
    using assms(6-10) by (simp add: validate_war_def IS_VALID_LANECOUNT_def word_less_nat_alt)
  then have valid: "validateInput info mode (Some war) bw = NVT_STATUS_SUCCESS"
    using assms(1-4) by (simp add: validateInput_def)
  have clk: "pixelClockHz mode \<noteq> 0" "0 < unat (pixelClockHz mode)"
    using validate_mode_success(1) [OF assms(3)] by (simp_all add: unat_gt_0)
  define ideal where "ideal = bw * 16 div pixelClockHz mode"
  have u: "unat ideal = 16 * unat bw div unat (pixelClockHz mode)"
    using assms(13) by (simp add: ideal_def unat_mult_nowrap mult.commute)
  have "130 \<le> unat ideal" "unat ideal < 2 ^ 32"
    unfolding u using assms(12,14) clk(2) by (simp_all add: less_eq_div_iff_mult_less_eq div_less_iff_less_mult)
  then have b: "130 \<le> unat (ucast ideal :: NvU32)" by (simp add: unsigned_ucast_eq take_bit_nat_eq_self)
  then have "128 \<le> unat (ucast ideal - 2 :: NvU32)" by (subst unat_sub_nowrap) (simp_all add: word_le_nat_alt)
  then have "128 \<le> (ucast ideal - 2 :: NvU32)" by (simp add: word_le_nat_alt)
  then have "hblank_bpp mode (dpData war) (ucast ideal - 2) = None"
    by (rule hblank_zero_lanes [OF assms(7,11)])
  then have "generate_war mode (Some war) bw inp = None"
    unfolding generate_war_def
    using clk(1) assms(6,7,9,10) by (simp add: ideal_def word_less_nat_alt c_div_def)
  then show ?thesis using valid assms(5) by (simp add: DSC_GeneratePPS_def)
qed

theorem zero_lanes_remainder_witness:
  "DSC_GeneratePPS (Some sample_info) (Some sample_mode) (Some (sample_war 0 8)) 25297920000
     (Some workarea) (Some (replicate 32 0)) (Some 0) = None"
proof -
  have v: "validate_caps sample_info = NVT_STATUS_SUCCESS" "validate_forced sample_info sample_mode = NVT_STATUS_SUCCESS"
    "validate_mode sample_info sample_mode 25297920000 = NVT_STATUS_SUCCESS"
    "validate_format sample_info sample_mode = NVT_STATUS_SUCCESS" "IS_VALID_DP2_X_LINKBW 810"
    by code_simp+
  have f: "\<exists>inp. generate_format sample_info sample_mode = Inr inp"
    by (simp add: generate_format_def sample_mode_def)
  then obtain inp where "generate_format sample_info sample_mode = Inr inp" by blast
  from zero_lanes_remainder [OF v(1-4) this, of "sample_war 0 8"] v(5) show ?thesis
    by (simp add: sample_war_def sample_mode_def link_data_rate_def LINK_RATE_TO_DATA_RATE_8B_10B_def)
qed

end
