(* ===== verification/Dsc_Companion.thy ===== *)
theory Dsc_Companion
  imports Dsc_Generate
begin

text \<open>
  The private C companion \<^verbatim>\<open>src/dsc/pps.c\<close> that fills the upstream structs from the driver's flat
  request, and the admission of \<^verbatim>\<open>gsp_dsc.zig\<close> that guards every call of it.
\<close>

section \<open>Definitions\<close>

record R4OS_DSC_INPUT =
  ri_pixel_clock_hz :: NvU64
  ri_payload_bps :: NvU64
  ri_link_rate_10mhz :: NvU64
  ri_width :: NvU32
  ri_height :: NvU32
  ri_bpc :: NvU32
  ri_lanes :: NvU32
  ri_hblank :: NvU32
  ri_transport :: NvU32
  ri_sink_formats :: NvU32
  ri_sink_step_x16 :: NvU32
  ri_max_slice_width :: NvU32
  ri_slice_mask :: NvU32
  ri_sink_line_bits :: NvU32
  ri_bpc_mask :: NvU32
  ri_revision_minor :: NvU32
  ri_block_prediction :: NvU32
  ri_throughput_code :: NvU32
  ri_max_bpp_x16 :: NvU32
  ri_source_formats :: NvU32
  ri_source_line_units :: NvU32
  ri_source_step_x16 :: NvU32
  ri_source_slices :: NvU32
  ri_source_line_bits :: NvU32
  ri_forced_bpp_x16 :: NvU32
  ri_forced_slice_width :: NvU32

record R4OS_DSC_OUTPUT =
  ro_pps :: "NvU32 list"
  ro_bpp_x16 :: NvU32

text \<open>The largest slice count the DPCD mask advertises (0 when it advertises none).\<close>

definition slice_bit :: "nat \<Rightarrow> NvU32" where
  "slice_bit count =
     (if count = 1 then 1 else if count = 2 then 2 else if count = 4 then 8
      else if count = 6 then 16 else if count = 8 then 32 else if count = 10 then 64
      else if count = 12 then 128 else if count = 16 then 256 else if count = 20 then 512
      else if count = 24 then 1024 else 0)"

fun largest_slice_count :: "nat list \<Rightarrow> NvU32 \<Rightarrow> NvU32 \<Rightarrow> NvU32" where
  "largest_slice_count [] slice_mask best = best"
| "largest_slice_count (count # counts) slice_mask best =
     largest_slice_count counts slice_mask
       (if slice_mask AND slice_bit count \<noteq> 0 then of_nat count else best)"

definition companion_caps :: "R4OS_DSC_INPUT \<Rightarrow> DSC_INFO" where
  "companion_caps inp =
     \<lparr>sinkCaps =
        \<lparr>decoderColorFormatMask = ri_sink_formats inp,
         bitsPerPixelPrecision = ri_sink_step_x16 inp,
         maxSliceWidth = ri_max_slice_width inp,
         maxNumHztSlices = largest_slice_count [1..<25] (ri_slice_mask inp) 0,
         sliceCountSupportedMask = ri_slice_mask inp,
         lineBufferBitDepth = ri_sink_line_bits inp,
         decoderColorDepthCaps = ri_bpc_mask inp,
         decoderColorDepthMask = ri_bpc_mask inp,
         algorithmRevision = \<lparr>versionMajor = 1, versionMinor = ri_revision_minor inp\<rparr>,
         bBlockPrediction = (if ri_block_prediction inp \<noteq> 0 then 1 else 0),
         peakThroughputMode0 = ri_throughput_code inp,
         peakThroughputMode1 = 0,
         maxBitsPerPixelX16 = ri_max_bpp_x16 inp\<rparr>,
      branchCaps = \<lparr>overallThroughputMode0 = 0, overallThroughputMode1 = 0, maxLineBufferWidth = 0\<rparr>,
      gpuCaps =
        \<lparr>encoderColorFormatMask = ri_source_formats inp,
         lineBufferSize = ri_source_line_units inp,
         gpu_bitsPerPixelPrecision = ri_source_step_x16 inp,
         gpu_maxNumHztSlices = ri_source_slices inp,
         gpu_lineBufferBitDepth = ri_source_line_bits inp\<rparr>,
      forcedDscParams =
        \<lparr>forced_sliceCount = 0,
         forced_sliceWidth = (if ri_transport inp = 2 then ri_forced_slice_width inp else 0),
         forced_sliceHeight = 0,
         forced_dscRevision =
           (if ri_transport inp = 2 then \<lparr>versionMajor = 1, versionMinor = 2\<rparr>
            else \<lparr>versionMajor = 0, versionMinor = 0\<rparr>)\<rparr>\<rparr>"

definition companion_mode :: "R4OS_DSC_INPUT \<Rightarrow> MODESET_INFO" where
  "companion_mode inp =
     \<lparr>pixelClockHz = ri_pixel_clock_hz inp, activeWidth = ri_width inp, activeHeight = ri_height inp,
      bitsPerComponent = ri_bpc inp, colorFormat = NVT_COLOR_FORMAT_RGB,
      bDualMode = 0, bDropMode = 0\<rparr>"

definition companion_war :: "R4OS_DSC_INPUT \<Rightarrow> WAR_DATA" where
  "companion_war inp =
     \<lparr>connectorType = (if ri_transport inp = 2 then DSC_HDMI else DSC_DP),
      dpData =
        \<lparr>linkRateHz = ri_link_rate_10mhz inp, laneCount = ri_lanes inp,
         dpMode = (if ri_transport inp = 1 then DSC_DP_MST else DSC_DP_SST),
         hBlank = ri_hblank inp, bIsEdp = 0, bDisableDscMaxBppLimit = 0,
         bIs128b132bChannelCoding = 0\<rparr>\<rparr>"

text \<open>The status as the function's \<open>NvS32\<close> result, and the output struct afterwards.\<close>

definition r4os_dsc_generate ::
  "R4OS_DSC_INPUT option \<Rightarrow> R4OS_DSC_OUTPUT option \<Rightarrow> (NVT_STATUS \<times> R4OS_DSC_OUTPUT option) option" where
  "r4os_dsc_generate pin pout =
     (case (pin, pout) of
        (Some inp, Some out) \<Rightarrow>
          if ri_transport inp > 2 then Some (NVT_STATUS_INVALID_PARAMETER, pout)
          else do {
            let bpp = (if ri_transport inp = 2 then ri_forced_bpp_x16 inp else ro_bpp_x16 out);
            (status, pps, bpp) \<leftarrow> DSC_GeneratePPS (Some (companion_caps inp)) (Some (companion_mode inp))
              (Some (companion_war inp)) (ri_payload_bps inp)
              (Some \<lparr>wa_in = zero_input, wa_out = zero_output\<rparr>) (Some (ro_pps out)) (Some bpp);
            pps \<leftarrow> pps;
            bpp \<leftarrow> bpp;
            Some (status, Some (out\<lparr>ro_pps := pps, ro_bpp_x16 := bpp\<rparr>))
          }
      | _ \<Rightarrow> Some (NVT_STATUS_INVALID_PARAMETER, pout))"

section \<open>The largest advertised slice count\<close>

lemma largest_slice_count_fold:
  "sorted counts \<Longrightarrow>
   largest_slice_count counts m best =
     (if \<exists>c \<in> set counts. m AND slice_bit c \<noteq> 0
      then of_nat (Max {c \<in> set counts. m AND slice_bit c \<noteq> 0}) else best)"
proof (induction counts arbitrary: best)
  case (Cons c cs)
  let ?S = "\<lambda>xs. {c \<in> set xs. m AND slice_bit c \<noteq> 0}"
  have fin: "finite (?S cs)" by simp
  show ?case
  proof (cases "m AND slice_bit c \<noteq> 0")
    case True
    have eq: "?S (c # cs) = insert c (?S cs)" using True by auto
    show ?thesis
    proof (cases "?S cs = {}")
      case True
      then have "Max (?S (c # cs)) = c" unfolding eq \<open>?S cs = {}\<close> by simp
      then show ?thesis using Cons True \<open>m AND slice_bit c \<noteq> 0\<close> by (simp del: set_simps) auto
    next
      case False
      then have "c \<le> Max (?S cs)" using Cons.prems fin by (auto simp: Max_ge_iff)
      then have "Max (insert c (?S cs)) = Max (?S cs)" using False fin by (simp add: Max_insert max_absorb2)
      then show ?thesis using Cons True False unfolding eq by auto
    qed
  next
    case False
    then have "?S (c # cs) = ?S cs" by auto
    then show ?thesis using Cons False by auto
  qed
qed simp

text \<open>The slice counts a DPCD mask advertises.\<close>

definition advertised :: "NvU32 \<Rightarrow> nat set" where
  "advertised m = {c. 1 \<le> c \<and> c \<le> 24 \<and> m AND slice_bit c \<noteq> 0}"

lemma largest_advertised:
  "largest_slice_count [1..<25] m 0 = (if advertised m = {} then 0 else of_nat (Max (advertised m)))"
proof -
  have "{c \<in> set [1..<25]. m AND slice_bit c \<noteq> 0} = advertised m" by (auto simp: advertised_def)
  moreover have "(\<exists>c \<in> set [1..<25]. m AND slice_bit c \<noteq> 0) \<longleftrightarrow> advertised m \<noteq> {}"
    using calculation by blast
  ultimately show ?thesis by (simp only: largest_slice_count_fold [OF sorted_upt] if_not_P cong: if_cong) auto
qed

text \<open>The counts are those of the upstream mask.\<close>

lemma slice_bit_upstream: "slice_bit (unat n) = DSC_SliceCountMaskforSliceNum n"
proof -
  have eq: "unat n = k \<longleftrightarrow> n = of_nat k" if "k < 2 ^ 32" for k
    using that by (auto simp: unsigned_of_nat take_bit_nat_eq_self)
  show ?thesis
    by (simp add: slice_bit_def DSC_SliceCountMaskforSliceNum_def eq)
qed

section \<open>Requests the driver admits\<close>

text \<open>The guards of \<^verbatim>\<open>gsp_dsc.zig\<close> that bound the integers of the request.\<close>

definition dsc_admitted :: "R4OS_DSC_INPUT \<Rightarrow> bool" where
  "dsc_admitted inp \<longleftrightarrow>
     unat (ri_pixel_clock_hz inp) \<le> 4000000000 \<and> unat (ri_payload_bps inp) \<le> 64000000000 \<and>
     unat (ri_source_line_units inp) \<le> 64 \<and> unat (ri_max_slice_width inp) \<le> 65535 \<and>
     (ri_transport inp \<noteq> 2 \<longrightarrow> ri_lanes inp \<noteq> 0) \<and>
     (ri_transport inp = 2 \<longrightarrow> unat (ri_forced_bpp_x16 inp) < 48 * unat (ri_bpc inp))"

lemma dsc_admitted_bounds:
  assumes "dsc_admitted inp" "ri_transport inp = 2 \<longrightarrow> bpp = ri_forced_bpp_x16 inp"
  shows "request_bounds (companion_caps inp) (companion_mode inp) (Some (companion_war inp)) bpp"
  using assms by (auto simp: dsc_admitted_def request_bounds_def companion_caps_def companion_mode_def
      companion_war_def is_dp_def)

lemma companion_mask: "ri_slice_mask (inp\<lparr>ri_slice_mask := m\<rparr>) = m"
  by simp

text \<open>The two requests of \<^verbatim>\<open>gsp_dsc_test.zig\<close>, as the admission passes them on.\<close>

definition dp_request :: R4OS_DSC_INPUT where
  "dp_request = \<lparr>ri_pixel_clock_hz = 1188000000, ri_payload_bps = 25297920000, ri_link_rate_10mhz = 810,
     ri_width = 3840, ri_height = 2160, ri_bpc = 10, ri_lanes = 4, ri_hblank = 560, ri_transport = 0,
     ri_sink_formats = 1, ri_sink_step_x16 = 1, ri_max_slice_width = 2560, ri_slice_mask = 0x12B,
     ri_sink_line_bits = 10, ri_bpc_mask = 3, ri_revision_minor = 2, ri_block_prediction = 1,
     ri_throughput_code = 2, ri_max_bpp_x16 = 0, ri_source_formats = 1, ri_source_line_units = 64,
     ri_source_step_x16 = 1, ri_source_slices = 8, ri_source_line_bits = 12, ri_forced_bpp_x16 = 0,
     ri_forced_slice_width = 0\<rparr>"

definition hdmi_request :: R4OS_DSC_INPUT where
  "hdmi_request = \<lparr>ri_pixel_clock_hz = 1188000000, ri_payload_bps = 48000000000, ri_link_rate_10mhz = 0,
     ri_width = 3840, ri_height = 2160, ri_bpc = 10, ri_lanes = 0, ri_hblank = 560, ri_transport = 2,
     ri_sink_formats = 1, ri_sink_step_x16 = 1, ri_max_slice_width = 2720, ri_slice_mask = 0x2B,
     ri_sink_line_bits = 13, ri_bpc_mask = 3, ri_revision_minor = 2, ri_block_prediction = 1,
     ri_throughput_code = 2, ri_max_bpp_x16 = 192, ri_source_formats = 1, ri_source_line_units = 64,
     ri_source_step_x16 = 1, ri_source_slices = 8, ri_source_line_bits = 12, ri_forced_bpp_x16 = 192,
     ri_forced_slice_width = 960\<rparr>"

definition blank_output :: R4OS_DSC_OUTPUT where
  "blank_output = \<lparr>ro_pps = replicate 32 0, ro_bpp_x16 = 0\<rparr>"

section \<open>The companion\<close>

text \<open>
  The loop of the companion finds the largest slice count the mask advertises, zero for an empty
  mask, and reads the mask with the same bits as the upstream code.
\<close>

theorem companion_slice_count:
  "maxNumHztSlices (sinkCaps (companion_caps (inp\<lparr>ri_slice_mask := m\<rparr>))) =
     (if advertised m = {} then 0 else of_nat (Max (advertised m))) \<and>
   advertised m = unat ` slice_set m"
proof (intro conjI)
  show "advertised m = unat ` slice_set m" 
  proof (intro set_eqI iffI)
    fix c assume "c \<in> unat ` slice_set m"
    then show "c \<in> advertised m"
      by (auto simp: advertised_def slice_set_def validSliceNum_cases slice_bit_def DSC_SliceCountMaskforSliceNum_def)
  next
    fix c assume c: "c \<in> advertised m"
    then have "c \<in> {1, 2, 4, 6, 8, 10, 12, 16, 20, 24}"
      by (auto simp: advertised_def slice_bit_def split: if_split_asm)
    then have u: "unat (of_nat c :: NvU32) = c" and v: "(of_nat c :: NvU32) \<in> set validSliceNum"
      by (auto simp: validSliceNum_cases)
    have "m AND DSC_SliceCountMaskforSliceNum (of_nat c) \<noteq> 0"
      using c slice_bit_upstream [of "of_nat c"] unfolding u by (simp add: advertised_def)
    then show "c \<in> unat ` slice_set m" using u v by (force simp: slice_set_def image_iff)
  qed
qed (simp_all only: companion_caps_def R4OS_DSC_INPUT.simps DSC_INFO.simps SINK_DSC_CAPS.simps
    companion_mask largest_advertised)

text \<open>
  For every request the driver admits, \<open>r4os_dsc_generate\<close> returns without undefined behaviour. A
  refused request leaves the parameter set as it was. An accepted one has 32 dwords that decode to a
  parameter set for the requested picture, with the rate reported beside it.
\<close>

lemma companion_returns:
  assumes "dsc_admitted inp"
  shows "\<exists>status out'. r4os_dsc_generate (Some inp) (Some out) = Some (status, Some out') \<and>
    (status \<noteq> NVT_STATUS_SUCCESS \<longrightarrow> ro_pps out' = ro_pps out) \<and>
    (status = NVT_STATUS_SUCCESS \<longrightarrow> length (ro_pps out') = 32 \<and>
       (\<exists>p. generated (companion_caps inp) (companion_mode inp) (ro_bpp_x16 out') p \<and>
          unat (chunk_size p) \<le> 65536 \<and> pps_decode (plan_bytes (ro_pps out')) = pps_view (packed p)))"
proof (cases "ri_transport inp > 2")
  case True
  then show ?thesis by (simp add: r4os_dsc_generate_def)
next
  case False
  define b where "b = (if ri_transport inp = 2 then ri_forced_bpp_x16 inp else ro_bpp_x16 out)"
  have bounds: "request_bounds (companion_caps inp) (companion_mode inp) (Some (companion_war inp)) b"
    by (rule dsc_admitted_bounds [OF assms]) (simp_all add: b_def)
  obtain status pps bpp where
    run: "DSC_GeneratePPS (Some (companion_caps inp)) (Some (companion_mode inp)) (Some (companion_war inp))
      (ri_payload_bps inp) (Some workarea) (Some (ro_pps out)) (Some b) = Some (status, Some pps, Some bpp)"
    and fail: "status \<noteq> NVT_STATUS_SUCCESS \<longrightarrow> pps = ro_pps out"
    and ok: "status = NVT_STATUS_SUCCESS \<longrightarrow> length pps = 32 \<and>
       (\<exists>p. generated (companion_caps inp) (companion_mode inp) bpp p \<and>
          unat (chunk_size p) \<le> 65536 \<and> pps_decode (plan_bytes pps) = pps_view (packed p))"
    using generate_pps_decodes [OF bounds, of "ri_payload_bps inp" workarea "ro_pps out"] by blast
  have "r4os_dsc_generate (Some inp) (Some out) = Some (status, Some (out\<lparr>ro_pps := pps, ro_bpp_x16 := bpp\<rparr>))"
    using False run by (simp add: r4os_dsc_generate_def b_def [symmetric])
  then show ?thesis using fail ok by auto
qed

text \<open>
  On the DisplayPort request of the driver's test the companion produces, dword for dword, the
  parameter set recorded from NVIDIA's generator in \<^verbatim>\<open>fixtures/dsc-pps-570.144.bin\<close>.
\<close>

lemma dp_request_pps:
  "r4os_dsc_generate (Some dp_request) (Some blank_output) =
     Some (NVT_STATUS_SUCCESS, Some \<lparr>ro_pps =
       [0xaa000012, 0x70080031, 0x7008000f, 0x8007c003, 0xac020001, 0xbf910a00, 0xf00a000, 0x13000f00,
        0xf0100008, 0x201007, 0x330f0f06, 0x382a1c0e, 0x69625446, 0x7b797770, 0x8a007e7d, 0x46190811,
        0x82218421, 0xfe29c029, 0x7a323c32, 0x763a7832, 0xb442b642, 0x345bf452,
        0, 0, 0, 0, 0, 0, 0, 0, 0, 0], ro_bpp_x16 = 256\<rparr>)"
  by code_simp

text \<open>
  On the HDMI request of the driver's test, with forced rate and slice width, the companion
  produces the parameter set recorded in \<^verbatim>\<open>fixtures/hdmi-pps-570.144.bin\<close>.
\<close>

theorem hdmi_fixture:
  "r4os_dsc_generate (Some hdmi_request) (Some blank_output) =
     Some (NVT_STATUS_SUCCESS, Some \<lparr>ro_pps =
       [0xac000012, 0x7008c030, 0x7008000f, 0xa005c003, 0x90035501, 0xa57f0a00, 0xf00a000, 0x13000f00,
        0xf4100008, 0x201007, 0x330f0f06, 0x382a1c0e, 0x69625446, 0x7b797770, 0x2017e7d, 0x228011,
        0xbc327e22, 0xf83aba32, 0x383b383b, 0x764b763b, 0x744b764b, 0xf473b45b,
        0, 0, 0, 0, 0, 0, 0, 0, 0, 0], ro_bpp_x16 = 192\<rparr>)"
  by code_simp

end
