(* ===== verification/Dsc_Admission.thy ===== *)
theory Dsc_Admission
  imports Dsc_Companion
begin
unbundle bit_operations_syntax

text \<open>
  The display driver's side of display stream compression: the decoding of the encoder's and the sink's
  capability bytes (\<^verbatim>\<open>src/gsp_link_caps.zig\<close>) and the admission of \<^verbatim>\<open>src/gsp_dsc.zig\<close>, which checks a request,
  calls the companion and checks the plan it gets back. The link arithmetic of the package
  \<^verbatim>\<open>r4gfx_edid\<close> is external and a parameter.
\<close>

section \<open>Capabilities\<close>

text \<open>A little-endian dword of a byte string.\<close>

definition caps_word :: "NvU8 list \<Rightarrow> nat \<Rightarrow> NvU32" where
  "caps_word data offset =
     ucast (data ! offset) OR push_bit 8 (ucast (data ! (offset + 1))) OR
     push_bit 16 (ucast (data ! (offset + 2))) OR push_bit 24 (ucast (data ! (offset + 3)))"

record DscSource =
  src_advertised :: bool
  src_usable :: bool
  src_formats :: NvU32
  src_line_buffer_pixels :: NvU64
  src_rate_buffer_bytes :: NvU64
  src_bpp_increment_x16 :: NvU8
  src_max_slices :: NvU32
  src_line_buffer_bits :: NvU32

definition no_source :: DscSource where
  "no_source = \<lparr>src_advertised = False, src_usable = False, src_formats = 0, src_line_buffer_pixels = 0,
     src_rate_buffer_bytes = 0, src_bpp_increment_x16 = 0, src_max_slices = 0, src_line_buffer_bits = 0\<rparr>"

text \<open>None: \<^verbatim>\<open>error.Payload\<close>.\<close>

definition DscSource_decode :: "NvU8 list \<Rightarrow> DscSource option" where
  "DscSource_decode data =
     (if length data \<noteq> 28 \<or> data ! 0 > 1 then None
      else if data ! 0 = 0 then Some no_source
      else let precision = caps_word data 16;
               result = no_source\<lparr>src_advertised := True, src_formats := caps_word data 4,
                 src_line_buffer_pixels := ucast (caps_word data 8) * 1024,
                 src_rate_buffer_bytes := ucast (caps_word data 12) * 1024,
                 src_max_slices := caps_word data 20, src_line_buffer_bits := caps_word data 24,
                 src_bpp_increment_x16 :=
                   (if precision \<ge> 1 \<and> precision \<le> 5 then push_bit (unat (precision - 1)) 1 else 0)\<rparr> in
        Some (result\<lparr>src_usable := src_formats result AND 1 \<noteq> 0 \<and> src_bpp_increment_x16 result \<noteq> 0 \<and>
          src_line_buffer_pixels result \<noteq> 0 \<and> src_rate_buffer_bytes result \<noteq> 0 \<and> src_max_slices result \<noteq> 0 \<and>
          src_line_buffer_bits result \<ge> 8 \<and> src_line_buffer_bits result \<le> 16\<rparr>))"

record DpSource =
  dps_rate :: NvU8
  dps_increased_watermark :: bool
  dps_dp14 :: bool
  dps_mst :: bool
  dps_single_head_mst :: bool
  dps_fec :: bool
  dps_uhbr_mask :: NvU32
  dps_dsc :: DscSource

datatype caps_error = Caps_Payload | Caps_Unsupported

definition DpSource_decode :: "NvU8 list \<Rightarrow> caps_error + DpSource" where
  "DpSource_decode data =
     (if length data \<noteq> 64 then Inl Caps_Payload
      else let raw_rate = caps_word data 8 in
        if raw_rate < 1 \<or> raw_rate > 4 then Inl Caps_Unsupported
        else if list_ex (\<lambda>flag. flag > 1) (take 10 (drop 24 data)) then Inl Caps_Payload
        else if data ! 36 > 1 then Inl Caps_Payload
        else let dp14 = caps_word data 12 AND 2 \<noteq> 0 in
          (case DscSource_decode (drop 36 data) of
             None \<Rightarrow> Inl Caps_Payload
           | Some dsc \<Rightarrow>
               Inr \<lparr>dps_rate = [6, 10, 20, 30] ! unat (raw_rate - 1), dps_increased_watermark = (data ! 26 = 1),
                    dps_dp14 = dp14, dps_mst = (data ! 24 = 1), dps_single_head_mst = (data ! 28 = 1),
                    dps_fec = (data ! 29 = 1), dps_uhbr_mask = caps_word data 16,
                    dps_dsc = dsc\<lparr>src_usable := dp14 \<and> src_usable dsc\<rparr>\<rparr>))"

record DscSink =
  snk_raw :: "NvU8 list"
  snk_advertised :: bool
  snk_usable :: bool
  snk_version_major :: NvU8
  snk_version_minor :: NvU8
  snk_rc_buffer_bytes :: NvU32
  snk_slice_mask :: NvU32
  snk_line_buffer_bits :: NvU8
  snk_block_prediction :: bool
  snk_max_bpp_x16 :: NvU16
  snk_formats :: NvU8
  snk_bpc_mask :: NvU8
  snk_slice_clock_mhz :: NvU16
  snk_max_slice_width :: NvU16
  snk_bpp_increment_x16 :: NvU8

definition no_sink :: "NvU8 list \<Rightarrow> DscSink" where
  "no_sink data = \<lparr>snk_raw = data, snk_advertised = False, snk_usable = False, snk_version_major = 0, snk_version_minor = 0,
     snk_rc_buffer_bytes = 0, snk_slice_mask = 0, snk_line_buffer_bits = 0, snk_block_prediction = False,
     snk_max_bpp_x16 = 0, snk_formats = 0, snk_bpc_mask = 0, snk_slice_clock_mhz = 0, snk_max_slice_width = 0,
     snk_bpp_increment_x16 = 0\<rparr>"

text \<open>The slice count of each bit of the DPCD mask; bit 2 is reserved.\<close>

definition dsc_counts :: "nat list" where
  "dsc_counts = [1, 2, 0, 4, 6, 8, 10, 12, 16, 20, 24]"

definition sink_slice_mask :: "NvU16 \<Rightarrow> NvU32" where
  "sink_slice_mask raw_mask =
     foldl (\<lambda>mask (count, position). if count \<noteq> 0 \<and> raw_mask AND push_bit position 1 \<noteq> 0
       then mask OR push_bit count 1 else mask) 0 (zip dsc_counts [0..<11])"

definition sink_slice_clock :: "NvU8 \<Rightarrow> NvU16" where
  "sink_slice_clock throughput =
     (if throughput = 15 then 170 else if throughput = 1 then 340
      else if throughput \<ge> 2 \<and> throughput \<le> 14 then 400 + ucast (throughput - 2) * 50 else 0)"

text \<open>
  None: the checked 16-bit product of the maximum slice width overflows, and the program stops.
\<close>

definition DscSink_decode :: "NvU8 list \<Rightarrow> DscSink option" where
  "DscSink_decode data =
     (let result = (no_sink data)\<lparr>snk_advertised := data ! 0 AND 1 \<noteq> 0\<rparr> in
      if \<not> snk_advertised result then Some result
      else if unat (data ! 12) * 320 \<ge> 2 ^ 16 then None
      else let depth = data ! 5 AND 15; increment = data ! 15 AND 7;
               result = result\<lparr>snk_version_major := data ! 1 AND 15, snk_version_minor := drop_bit 4 (data ! 1),
                 snk_rc_buffer_bytes := (ucast (data ! 3) + 1) * push_bit (unat ((data ! 2 AND 3) * 2)) 1024,
                 snk_slice_mask := sink_slice_mask (ucast (data ! 4) OR push_bit 8 (ucast (data ! 13 AND 7))),
                 snk_line_buffer_bits := (if depth < 8 then depth + 9 else if depth = 8 then 8 else 0),
                 snk_block_prediction := data ! 6 AND 1 \<noteq> 0,
                 snk_max_bpp_x16 := ucast (data ! 7) OR push_bit 8 (ucast (data ! 8 AND 3)),
                 snk_formats := data ! 9 AND 31,
                 snk_bpc_mask := drop_bit 1 (data ! 10) AND 7,
                 snk_slice_clock_mhz := sink_slice_clock (data ! 11 AND 15),
                 snk_max_slice_width := ucast (data ! 12) * 320,
                 snk_bpp_increment_x16 := (if increment \<le> 4 then push_bit (unat increment) 1 else 0)\<rparr> in
        Some (result\<lparr>snk_usable := snk_version_major result = 1 \<and>
          (snk_version_minor result = 1 \<or> snk_version_minor result = 2) \<and> snk_slice_mask result \<noteq> 0 \<and>
          snk_line_buffer_bits result \<noteq> 0 \<and> snk_formats result AND 1 \<noteq> 0 \<and> snk_bpc_mask result \<noteq> 0 \<and>
          snk_slice_clock_mhz result \<noteq> 0 \<and> snk_max_slice_width result \<ge> 320 \<and> snk_bpp_increment_x16 result \<noteq> 0\<rparr>))"

section \<open>Checked operations\<close>

text \<open>
  Zig checks its integer operations: a sum, product or difference out of the range of its type, a remainder
  by zero or a conversion that loses a value stops the program. None is that stop. A division by zero is \<^const>\<open>c_div\<close>
  and \<^const>\<open>c_mod\<close>.
\<close>

definition zig_int :: "nat \<Rightarrow> 'a::len word option" where
  "zig_int n = (if n < 2 ^ LENGTH('a) then Some (of_nat n) else None)"

definition zig_add :: "'a::len word \<Rightarrow> 'a word \<Rightarrow> 'a word option" where
  "zig_add a b = zig_int (unat a + unat b)"

definition zig_mul :: "'a::len word \<Rightarrow> 'a word \<Rightarrow> 'a word option" where
  "zig_mul a b = zig_int (unat a * unat b)"

definition zig_sub :: "'a::len word \<Rightarrow> 'a word \<Rightarrow> 'a word option" where
  "zig_sub a b = (if b \<le> a then Some (a - b) else None)"

definition zig_cast :: "'a::len word \<Rightarrow> 'b::len word option" where
  "zig_cast a = zig_int (unat a)"

text \<open>The conditions of an \<^verbatim>\<open>or\<close>, evaluated from the left until one holds or stops.\<close>

fun zig_or :: "bool option list \<Rightarrow> bool option" where
  "zig_or [] = Some False"
| "zig_or (c # cs) = (case c of None \<Rightarrow> None | Some b \<Rightarrow> if b then Some True else zig_or cs)"

lemma zig_or_all: "zig_or (map Some bs) = Some (\<exists>b \<in> set bs. b)"
  by (induction bs) auto

lemma zig_int_unat: "n < 2 ^ LENGTH('a) \<Longrightarrow> \<exists>x :: 'a::len word. zig_int n = Some x \<and> unat x = n"
  by (simp add: zig_int_def unsigned_of_nat take_bit_nat_eq_self)

lemma zig_add_Some: "unat a + unat b < 2 ^ LENGTH('a) \<Longrightarrow> zig_add a b = Some (a + b)" for a b :: "'a::len word"
  by (simp add: zig_add_def zig_int_def)

lemma zig_mul_Some: "unat a * unat b < 2 ^ LENGTH('a) \<Longrightarrow> zig_mul a b = Some (a * b)" for a b :: "'a::len word"
  by (simp add: zig_mul_def zig_int_def)

lemma zig_sub_Some: "b \<le> a \<Longrightarrow> zig_sub a b = Some (a - b)"
  by (simp add: zig_sub_def)

lemma zig_cast_Some: "unat a < 2 ^ LENGTH('b) \<Longrightarrow> zig_cast a = Some (ucast a :: 'b::len word)"
  by (simp add: zig_cast_def zig_int_def)

lemmas zig_Some = zig_add_Some zig_mul_Some zig_sub_Some zig_cast_Some

section \<open>Requests and plans\<close>

text \<open>The rational pixel clock and the functions of the link package.\<close>

record links_clock =
  lc_numerator :: NvU64
  lc_denominator :: NvU64

record links_package =
  lk_ceilHz :: "links_clock \<Rightarrow> NvU64 option"
  lk_dp8b10bPayload :: "NvU8 \<Rightarrow> NvU8 \<Rightarrow> NvU64 option"
  lk_fits :: "links_clock \<Rightarrow> NvU16 \<Rightarrow> NvU64 \<Rightarrow> bool"

text \<open>\<^verbatim>\<open>Panic\<close> is a failed safety check of the language.\<close>

datatype dsc_error = Unsupported | Bandwidth | Parameter | Pps | Panic

datatype Transport = Dp_sst | Dp_mst | Hdmi

fun transport_code :: "Transport \<Rightarrow> NvU32" where
  "transport_code Dp_sst = 0"
| "transport_code Dp_mst = 1"
| "transport_code Hdmi = 2"

record dsc_request =
  rq_clock :: links_clock
  rq_width :: NvU32
  rq_height :: NvU32
  rq_bpc :: NvU8
  rq_hblank :: NvU32
  rq_source :: DscSource
  rq_sink :: DscSink
  rq_payload_bps :: NvU64
  rq_transport :: Transport
  rq_rate :: NvU8
  rq_lanes :: NvU8
  rq_forced_bpp_x16 :: NvU16
  rq_forced_slice_width :: NvU16

record dsc_plan =
  pl_pps :: "NvU32 list"
  pl_bpp_x16 :: NvU16
  pl_slices :: NvU8
  pl_slice_width :: NvU16
  pl_slice_height :: NvU16
  pl_chunk_bytes :: NvU16
  pl_rc_buffer_bytes :: NvU16

definition flatnessThreshold :: "dsc_plan \<Rightarrow> NvU8 option" where
  "flatnessThreshold plan =
     (let bpc = drop_bit 4 (plan_bytes (pl_pps plan) ! 3) in
      if bpc < 8 \<or> bpc - 8 > 7 then None else Some (push_bit (unat (bpc - 8)) 2))"

definition fecPayload :: "links_package \<Rightarrow> NvU8 \<Rightarrow> NvU8 \<Rightarrow> dsc_error + NvU64" where
  "fecPayload lk rate lanes =
     (case lk_dp8b10bPayload lk rate lanes of
        None \<Rightarrow> Inl Parameter
      | Some raw \<Rightarrow> if unat raw * 976 \<ge> 2 ^ 64 then Inl Panic else Inr (raw * 976 div 1000))"

definition powerStep :: "NvU32 \<Rightarrow> bool" where
  "powerStep value \<longleftrightarrow> value \<noteq> 0 \<and> value \<le> 16 \<and> length (filter (bit value) [0..<32]) = 1"

section \<open>The admission\<close>

text \<open>
  A condition that refuses the request with an error, and a value that is computed with checks: either may
  stop the program.
\<close>

definition refuse :: "bool option \<Rightarrow> dsc_error \<Rightarrow> dsc_error + 'a \<Rightarrow> dsc_error + 'a" where
  "refuse c e k = (case c of None \<Rightarrow> Inl Panic | Some b \<Rightarrow> if b then Inl e else k)"

definition zig_let :: "'a option \<Rightarrow> ('a \<Rightarrow> dsc_error + 'b) \<Rightarrow> dsc_error + 'b" where
  "zig_let v k = (case v of None \<Rightarrow> Inl Panic | Some x \<Rightarrow> k x)"

lemma refuse_Some [simp]: "refuse (Some b) e k = (if b then Inl e else k)" "zig_let (Some x) k' = k' x"
  by (simp_all add: refuse_def zig_let_def)

text \<open>The checks before the call, in their order: what the two ends support, the ranges, the forced values.\<close>

definition request_unsupported :: "dsc_request \<Rightarrow> bool option" where
  "request_unsupported r =
     (let source = rq_source r; sink = rq_sink r in
      zig_or [
        Some (\<not> src_advertised source), Some (\<not> src_usable source), Some (\<not> snk_advertised sink), Some (\<not> snk_usable sink),
        Some (src_formats source AND 1 = 0), Some (snk_formats sink AND 1 = 0),
        Some (snk_version_major sink \<noteq> 1), Some (snk_version_minor sink \<noteq> 1 \<and> snk_version_minor sink \<noteq> 2),
        Some (rq_bpc r \<noteq> 8 \<and> rq_bpc r \<noteq> 10 \<and> rq_bpc r \<noteq> 12),
        do { above \<leftarrow> zig_sub (rq_bpc r) 8; shift \<leftarrow> (zig_cast (above div 2) :: 3 word option);
             Some (snk_bpc_mask sink AND push_bit (unat shift) 1 = 0) }])"

definition request_in_range :: "dsc_request \<Rightarrow> bool" where
  "request_in_range r \<longleftrightarrow>
     (let source = rq_source r; sink = rq_sink r in
      powerStep (ucast (src_bpp_increment_x16 source)) \<and> powerStep (ucast (snk_bpp_increment_x16 sink)) \<and>
      src_line_buffer_pixels source \<noteq> 0 \<and> src_line_buffer_pixels source \<le> 65536 \<and>
      src_line_buffer_pixels source mod 1024 = 0 \<and>
      src_max_slices source \<noteq> 0 \<and> src_max_slices source \<le> 24 \<and>
      src_line_buffer_bits source \<ge> 8 \<and> src_line_buffer_bits source \<le> 16 \<and>
      snk_line_buffer_bits sink \<ge> 8 \<and> snk_line_buffer_bits sink \<le> 16 \<and>
      snk_max_slice_width sink \<noteq> 0 \<and> snk_slice_mask sink \<noteq> 0 \<and>
      rq_width r \<noteq> 0 \<and> rq_width r \<le> 65535 \<and> rq_height r \<ge> 8 \<and> rq_height r \<le> 65535 \<and>
      rq_hblank r \<le> 65535 \<and> lc_numerator (rq_clock r) \<noteq> 0 \<and> lc_denominator (rq_clock r) \<noteq> 0)"

definition max_step :: "dsc_request \<Rightarrow> NvU8" where
  "max_step r = max (src_bpp_increment_x16 (rq_source r)) (snk_bpp_increment_x16 (rq_sink r))"

definition forced_refused :: "dsc_request \<Rightarrow> bool option" where
  "forced_refused r =
     (if rq_transport r = Hdmi
      then zig_or [
        Some (rq_forced_bpp_x16 r < 128),
        do { limit \<leftarrow> zig_mul (ucast (rq_bpc r)) 48; Some (rq_forced_bpp_x16 r \<ge> limit) },
        do { rest \<leftarrow> c_mod (rq_forced_bpp_x16 r) (ucast (max_step r)); Some (rest \<noteq> 0) },
        Some (rq_forced_slice_width r = 0),
        Some (rq_forced_slice_width r > snk_max_slice_width (rq_sink r))]
      else Some (rq_forced_bpp_x16 r \<noteq> 0 \<or> rq_forced_slice_width r \<noteq> 0))"

text \<open>The DPCD mask of a set of slice counts, and the DPCD code of a slice clock.\<close>

definition dsc_slice_mask :: "NvU32 \<Rightarrow> NvU32" where
  "dsc_slice_mask slice_mask =
     foldl (\<lambda>mask (count, position). if count \<noteq> 0 \<and> slice_mask AND push_bit count 1 \<noteq> 0
       then mask OR push_bit position 1 else mask) 0 (zip dsc_counts [0..<11])"

definition throughput_code :: "NvU16 \<Rightarrow> NvU32 option" where
  "throughput_code mhz =
     (if mhz = 170 then Some 15 else if mhz = 340 then Some 1
      else if mhz \<ge> 400 \<and> mhz \<le> 1000 \<and> mhz mod 50 = 0 then Some (2 + ucast (mhz - 400) div 50) else None)"

text \<open>The same with the checked operations of the source; the inner result is the code, if there is one.\<close>

definition throughput_checked :: "NvU16 \<Rightarrow> NvU32 option option" where
  "throughput_checked mhz =
     (if mhz = 170 then Some (Some 15) else if mhz = 340 then Some (Some 1)
      else if mhz \<ge> 400 \<and> mhz \<le> 1000 \<and> mhz mod 50 = 0 then do {
        above \<leftarrow> zig_sub mhz 400; code \<leftarrow> zig_add 2 (ucast above div 50); Some (Some code) }
      else Some None)"

definition dsc_input :: "dsc_request \<Rightarrow> NvU64 \<Rightarrow> NvU32 \<Rightarrow> R4OS_DSC_INPUT" where
  "dsc_input r pclk throughput =
     (let source = rq_source r; sink = rq_sink r in
      \<lparr>ri_pixel_clock_hz = pclk, ri_payload_bps = rq_payload_bps r, ri_link_rate_10mhz = ucast (rq_rate r) * 27,
       ri_width = rq_width r, ri_height = rq_height r, ri_bpc = ucast (rq_bpc r), ri_lanes = ucast (rq_lanes r),
       ri_hblank = rq_hblank r, ri_transport = transport_code (rq_transport r),
       ri_sink_formats = ucast (snk_formats sink), ri_sink_step_x16 = ucast (snk_bpp_increment_x16 sink),
       ri_max_slice_width = ucast (snk_max_slice_width sink), ri_slice_mask = dsc_slice_mask (snk_slice_mask sink),
       ri_sink_line_bits = ucast (snk_line_buffer_bits sink), ri_bpc_mask = ucast (snk_bpc_mask sink),
       ri_revision_minor = ucast (snk_version_minor sink),
       ri_block_prediction = (if snk_block_prediction sink then 1 else 0), ri_throughput_code = throughput,
       ri_max_bpp_x16 = ucast (snk_max_bpp_x16 sink), ri_source_formats = src_formats source,
       ri_source_line_units = ucast (src_line_buffer_pixels source div 1024),
       ri_source_step_x16 = ucast (src_bpp_increment_x16 source), ri_source_slices = src_max_slices source,
       ri_source_line_bits = src_line_buffer_bits source, ri_forced_bpp_x16 = ucast (rq_forced_bpp_x16 r),
       ri_forced_slice_width = ucast (rq_forced_slice_width r)\<rparr>)"

definition dsc_input_checked :: "dsc_request \<Rightarrow> NvU64 \<Rightarrow> NvU32 \<Rightarrow> R4OS_DSC_INPUT option" where
  "dsc_input_checked r pclk throughput = do {
     rate \<leftarrow> zig_mul (ucast (rq_rate r)) 27;
     units \<leftarrow> zig_cast (src_line_buffer_pixels (rq_source r) div 1024);
     Some ((dsc_input r pclk throughput)\<lparr>ri_link_rate_10mhz := rate, ri_source_line_units := units\<rparr>)
   }"

definition dsc_prepare :: "links_package \<Rightarrow> dsc_request \<Rightarrow> dsc_error + R4OS_DSC_INPUT" where
  "dsc_prepare lk r =
     refuse (request_unsupported r) Unsupported (
     if \<not> request_in_range r then Inl Parameter
     else (case lk_ceilHz lk (rq_clock r) of
         None \<Rightarrow> Inl Parameter
       | Some pclk \<Rightarrow>
           refuse (forced_refused r) Parameter (
           if pclk > 4000000000 \<or> rq_payload_bps r = 0 \<or> rq_payload_bps r > 64000000000 then Inl Parameter
           else (case (if rq_transport r \<noteq> Hdmi then fecPayload lk (rq_rate r) (rq_lanes r) else Inr (rq_payload_bps r)) of
               Inl e \<Rightarrow> Inl e
             | Inr limit \<Rightarrow>
                 if rq_payload_bps r > limit then Inl Bandwidth
                 else if \<not> lk_fits lk (rq_clock r) 128 (rq_payload_bps r) then Inl Bandwidth
                 else zig_let (throughput_checked (snk_slice_clock_mhz (rq_sink r))) (\<lambda>code.
                   case code of
                     None \<Rightarrow> Inl Unsupported
                   | Some throughput \<Rightarrow> zig_let (dsc_input_checked r pclk throughput) Inr)))))"

text \<open>The checks after it: the header of the parameter set, the sizes, the slices, the rates.\<close>

definition plan_header_ok :: "dsc_request \<Rightarrow> NvU32 list \<Rightarrow> NvU32 \<Rightarrow> bool" where
  "plan_header_ok r bytes bpp \<longleftrightarrow>
     bytes ! 0 = 0x10 OR ucast (snk_version_minor (rq_sink r)) \<and> drop_bit 4 (bytes ! 3) = ucast (rq_bpc r) \<and>
     bytes ! 4 AND 0x1c = 0x10 \<and> bytes ! 88 = 0 \<and> push_bit 8 (bytes ! 4 AND 3) OR bytes ! 5 = bpp \<and>
     be bytes 6 = rq_height r \<and> be bytes 8 = rq_width r \<and>
     \<not> (bytes ! 4 AND 0x20 \<noteq> 0 \<and> \<not> snk_block_prediction (rq_sink r))"

definition plan_read :: "NvU32 list \<Rightarrow> NvU16 \<Rightarrow> dsc_plan option" where
  "plan_read pps bpp =
     (let bytes = plan_bytes pps; rc_model = (ucast (be bytes 38) :: NvU16) in do {
        bits \<leftarrow> zig_add (ucast rc_model :: NvU32) 7;
        rc \<leftarrow> zig_cast (bits div 8);
        Some \<lparr>pl_pps = pps, pl_bpp_x16 = bpp, pl_slices = 0, pl_slice_width = ucast (be bytes 12),
          pl_slice_height = ucast (be bytes 10), pl_chunk_bytes = ucast (be bytes 14), pl_rc_buffer_bytes = rc\<rparr>
      })"

definition plan_sizes_refused :: "dsc_request \<Rightarrow> dsc_plan \<Rightarrow> bool option" where
  "plan_sizes_refused r plan = zig_or [
     Some (pl_slice_width plan = 0), Some (pl_slice_width plan > snk_max_slice_width (rq_sink r)),
     Some (ucast (pl_slice_width plan) > src_line_buffer_pixels (rq_source r)),
     Some (pl_slice_height plan < 8),
     do { rest \<leftarrow> c_mod (rq_height r) (ucast (pl_slice_height plan)); Some (rest \<noteq> 0) },
     Some (pl_chunk_bytes plan = 0), Some (pl_rc_buffer_bytes plan = 0),
     Some (ucast (pl_rc_buffer_bytes plan) > src_rate_buffer_bytes (rq_source r)),
     Some (rq_transport r \<noteq> Hdmi \<and> ucast (pl_rc_buffer_bytes plan) > snk_rc_buffer_bytes (rq_sink r)),
     Some (rq_transport r = Hdmi \<and> pl_slice_width plan \<noteq> rq_forced_slice_width r)]"

definition plan_count :: "dsc_request \<Rightarrow> dsc_plan \<Rightarrow> NvU32 option" where
  "plan_count r plan = do {
     sum \<leftarrow> zig_add (rq_width r) (ucast (pl_slice_width plan));
     sum \<leftarrow> zig_sub sum 1;
     c_div sum (ucast (pl_slice_width plan))
   }"

text \<open>The products of the two comparisons are in 128 bits.\<close>

definition plan_slices_refused :: "dsc_request \<Rightarrow> dsc_plan \<Rightarrow> NvU32 \<Rightarrow> bool option" where
  "plan_slices_refused r plan slices =
     (let source = rq_source r; sink = rq_sink r; clock = rq_clock r in
      zig_or [
        Some (slices > 24), Some (slices > src_max_slices source),
        do { shift \<leftarrow> (zig_cast slices :: 5 word option); Some (snk_slice_mask sink AND push_bit (unat shift) 1 = 0) },
        do { hz \<leftarrow> zig_mul (ucast slices :: 128 word) (ucast (snk_slice_clock_mhz sink));
             hz \<leftarrow> zig_mul hz 1000000; hz \<leftarrow> zig_mul hz (ucast (lc_denominator clock));
             Some (ucast (lc_numerator clock) > hz) },
        do { rest \<leftarrow> c_mod (pl_bpp_x16 plan) (ucast (max_step r)); Some (rest \<noteq> 0) },
        Some (snk_max_bpp_x16 sink \<noteq> 0 \<and> pl_bpp_x16 plan > snk_max_bpp_x16 sink)])"

text \<open>The coded stream, chunk by chunk and exactly, below the payload of the link.\<close>

definition plan_bandwidth_refused :: "links_package \<Rightarrow> dsc_request \<Rightarrow> dsc_plan \<Rightarrow> NvU32 \<Rightarrow> bool option" where
  "plan_bandwidth_refused lk r plan slices =
     (let clock = rq_clock r in
      zig_or [
        Some (\<not> lk_fits lk clock (pl_bpp_x16 plan) (rq_payload_bps r)),
        do { need \<leftarrow> zig_mul (ucast (pl_chunk_bytes plan) :: 128 word) (ucast slices); need \<leftarrow> zig_mul need 8;
             need \<leftarrow> zig_mul need (ucast (lc_numerator clock));
             room \<leftarrow> zig_mul (ucast (rq_payload_bps r)) (ucast (rq_width r));
             room \<leftarrow> zig_mul room (ucast (lc_denominator clock));
             Some (need \<ge> room) }])"

definition dsc_check :: "links_package \<Rightarrow> dsc_request \<Rightarrow> R4OS_DSC_OUTPUT \<Rightarrow> dsc_error + dsc_plan" where
  "dsc_check lk r out =
     (if rq_transport r = Hdmi \<and> ro_bpp_x16 out \<noteq> ucast (rq_forced_bpp_x16 r) then Inl Pps
      else refuse (zig_or [
          Some (ro_bpp_x16 out < 128),
          do { limit \<leftarrow> zig_mul (ucast (rq_bpc r)) 3; limit \<leftarrow> zig_mul limit 16; Some (ro_bpp_x16 out \<ge> limit) },
          Some (ro_bpp_x16 out > 1023)]) Pps (
        zig_let (zig_cast (ro_bpp_x16 out)) (\<lambda>bpp.
        if \<not> plan_header_ok r (plan_bytes (ro_pps out)) (ucast bpp) then Inl Pps
        else zig_let (plan_read (ro_pps out) bpp) (\<lambda>plan.
          refuse (plan_sizes_refused r plan) Pps (
          zig_let (plan_count r plan) (\<lambda>slices.
          refuse (plan_slices_refused r plan slices) Pps (
          zig_let (zig_cast slices) (\<lambda>count.
          let plan = plan\<lparr>pl_slices := count\<rparr> in
          refuse (plan_bandwidth_refused lk r plan slices) Bandwidth (Inr plan)))))))))"

definition dsc_generate :: "links_package \<Rightarrow> dsc_request \<Rightarrow> dsc_error + dsc_plan" where
  "dsc_generate lk r =
     (case dsc_prepare lk r of
        Inl e \<Rightarrow> Inl e
      | Inr inp \<Rightarrow>
          (case r4os_dsc_generate (Some inp) (Some blank_output) of
             Some (status, Some out) \<Rightarrow> if status \<noteq> NVT_STATUS_SUCCESS then Inl Unsupported else dsc_check lk r out
           | _ \<Rightarrow> Inl Panic))"

section \<open>The checks never stop the program\<close>

text \<open>
  The conditions over the mathematical values, which the checked ones decide: each operand is in range because
  of the conditions tested before it.
\<close>

definition request_supported :: "dsc_request \<Rightarrow> bool" where
  "request_supported r \<longleftrightarrow>
     (let source = rq_source r; sink = rq_sink r in
      src_advertised source \<and> src_usable source \<and> snk_advertised sink \<and> snk_usable sink \<and>
      src_formats source AND 1 \<noteq> 0 \<and> snk_formats sink AND 1 \<noteq> 0 \<and>
      snk_version_major sink = 1 \<and> (snk_version_minor sink = 1 \<or> snk_version_minor sink = 2) \<and>
      (rq_bpc r = 8 \<or> rq_bpc r = 10 \<or> rq_bpc r = 12) \<and>
      snk_bpc_mask sink AND push_bit (unat ((rq_bpc r - 8) div 2)) 1 \<noteq> 0)"

definition forced_in_range :: "dsc_request \<Rightarrow> bool" where
  "forced_in_range r \<longleftrightarrow>
     (if rq_transport r = Hdmi
      then \<not> (rq_forced_bpp_x16 r < 128 \<or> rq_forced_bpp_x16 r \<ge> ucast (rq_bpc r) * 48 \<or>
              rq_forced_bpp_x16 r mod ucast (max_step r) \<noteq> 0 \<or>
              rq_forced_slice_width r = 0 \<or> rq_forced_slice_width r > snk_max_slice_width (rq_sink r))
      else rq_forced_bpp_x16 r = 0 \<and> rq_forced_slice_width r = 0)"

definition plan_of :: "NvU32 list \<Rightarrow> NvU32 \<Rightarrow> dsc_plan" where
  "plan_of pps bpp =
     (let bytes = plan_bytes pps in
      \<lparr>pl_pps = pps, pl_bpp_x16 = ucast bpp, pl_slices = 0, pl_slice_width = ucast (be bytes 12),
       pl_slice_height = ucast (be bytes 10), pl_chunk_bytes = ucast (be bytes 14),
       pl_rc_buffer_bytes = ucast ((ucast (ucast (be bytes 38) :: NvU16) + 7 :: NvU32) div 8)\<rparr>)"

definition plan_sizes_ok :: "dsc_request \<Rightarrow> dsc_plan \<Rightarrow> bool" where
  "plan_sizes_ok r plan \<longleftrightarrow>
     \<not> (pl_slice_width plan = 0 \<or> pl_slice_width plan > snk_max_slice_width (rq_sink r) \<or>
        ucast (pl_slice_width plan) > src_line_buffer_pixels (rq_source r) \<or>
        pl_slice_height plan < 8 \<or> rq_height r mod ucast (pl_slice_height plan) \<noteq> 0 \<or>
        pl_chunk_bytes plan = 0 \<or> pl_rc_buffer_bytes plan = 0 \<or>
        ucast (pl_rc_buffer_bytes plan) > src_rate_buffer_bytes (rq_source r) \<or>
        (rq_transport r \<noteq> Hdmi \<and> ucast (pl_rc_buffer_bytes plan) > snk_rc_buffer_bytes (rq_sink r)) \<or>
        (rq_transport r = Hdmi \<and> pl_slice_width plan \<noteq> rq_forced_slice_width r))"

definition plan_slice_count :: "dsc_request \<Rightarrow> dsc_plan \<Rightarrow> NvU32" where
  "plan_slice_count r plan = (rq_width r + ucast (pl_slice_width plan) - 1) div ucast (pl_slice_width plan)"

definition plan_slices_ok :: "dsc_request \<Rightarrow> dsc_plan \<Rightarrow> NvU32 \<Rightarrow> bool" where
  "plan_slices_ok r plan slices \<longleftrightarrow>
     \<not> (slices > 24 \<or> slices > src_max_slices (rq_source r) \<or>
        snk_slice_mask (rq_sink r) AND push_bit (unat slices) 1 = 0 \<or>
        unat (lc_numerator (rq_clock r)) >
          unat slices * unat (snk_slice_clock_mhz (rq_sink r)) * 1000000 * unat (lc_denominator (rq_clock r)) \<or>
        pl_bpp_x16 plan mod ucast (max_step r) \<noteq> 0 \<or>
        (snk_max_bpp_x16 (rq_sink r) \<noteq> 0 \<and> pl_bpp_x16 plan > snk_max_bpp_x16 (rq_sink r)))"

definition plan_bandwidth_ok :: "links_package \<Rightarrow> dsc_request \<Rightarrow> dsc_plan \<Rightarrow> NvU32 \<Rightarrow> bool" where
  "plan_bandwidth_ok lk r plan slices \<longleftrightarrow>
     lk_fits lk (rq_clock r) (pl_bpp_x16 plan) (rq_payload_bps r) \<and>
     unat (pl_chunk_bytes plan) * unat slices * 8 * unat (lc_numerator (rq_clock r)) <
       unat (rq_payload_bps r) * unat (rq_width r) * unat (lc_denominator (rq_clock r))"

lemma unat_ucast_wider [simp]:
  "unat (ucast (a :: NvU16) :: NvU32) = unat a" "unat (ucast (a :: NvU16) :: NvU64) = unat a"
  "unat (ucast (b :: NvU8) :: NvU16) = unat b" "unat (ucast (b :: NvU8) :: NvU32) = unat b"
  using unsigned_less [of a, where 'a = nat] unsigned_less [of b, where 'a = nat]
  by (simp_all add: unsigned_ucast_eq take_bit_nat_eq_self)

lemma ucast_16_nonzero: "(a :: NvU16) \<noteq> 0 \<Longrightarrow> (ucast a :: NvU32) \<noteq> 0"
  by (metis unat_ucast_wider(1) unat_0 unat_eq_zero_iff)

lemma unat_ucast_128 [simp]:
  "unat (ucast (a :: NvU16) :: 128 word) = unat a" "unat (ucast (b :: NvU32) :: 128 word) = unat b"
  "unat (ucast (c :: NvU64) :: 128 word) = unat c"
  using unsigned_less [of a, where 'a = nat] unsigned_less [of b, where 'a = nat] unsigned_less [of c, where 'a = nat]
  by (simp_all add: unsigned_ucast_eq take_bit_nat_eq_self)

lemma zig_mul_bound:
  fixes a b :: "'a::len word"
  assumes "unat a \<le> A" "unat b \<le> B" "A * B < 2 ^ LENGTH('a)"
  shows "\<exists>c. zig_mul a b = Some c \<and> unat c = unat a * unat b \<and> unat c \<le> A * B"
proof -
  have "unat a * unat b \<le> A * B" using assms(1,2) by (rule mult_le_mono)
  then show ?thesis using assms(3) zig_int_unat [of "unat a * unat b", where 'a = 'a] by (auto simp: zig_mul_def)
qed

lemma powerStep_cases: "powerStep (ucast (s :: NvU8)) \<Longrightarrow> unat s \<in> {1, 2, 4, 8, 16}"
proof -
  have all: "\<forall>n \<in> set [0..<17]. powerStep (of_nat n) \<longrightarrow> n \<in> {1, 2, 4, 8, 16}" by code_simp
  assume p: "powerStep (ucast s)"
  then have "unat s \<in> set [0..<17]" by (simp add: powerStep_def word_le_nat_alt)
  moreover have "ucast s = (of_nat (unat s) :: NvU32)" by simp
  ultimately show ?thesis using all p by (metis (no_types))
qed

lemma max_step_divides:
  assumes "request_in_range r"
  shows "max_step r \<noteq> 0" "unat (src_bpp_increment_x16 (rq_source r)) dvd unat (max_step r)"
    "unat (snk_bpp_increment_x16 (rq_sink r)) dvd unat (max_step r)"
proof -
  have c: "unat (src_bpp_increment_x16 (rq_source r)) \<in> {1, 2, 4, 8, 16}" "unat (snk_bpp_increment_x16 (rq_sink r)) \<in> {1, 2, 4, 8, 16}"
    using assms powerStep_cases by (auto simp: request_in_range_def Let_def)
  have m: "unat (max_step r) = max (unat (src_bpp_increment_x16 (rq_source r))) (unat (snk_bpp_increment_x16 (rq_sink r)))"
    by (auto simp: max_step_def max_def word_le_nat_alt)
  show "max_step r \<noteq> 0" using m c by (auto simp: max_def)
  show "unat (src_bpp_increment_x16 (rq_source r)) dvd unat (max_step r)"
    "unat (snk_bpp_increment_x16 (rq_sink r)) dvd unat (max_step r)"
    unfolding m using c by (elim insertE emptyE; simp)+
qed

lemma unsupported_eq: "request_unsupported r = Some (\<not> request_supported r)"
proof (cases "rq_bpc r = 8 \<or> rq_bpc r = 10 \<or> rq_bpc r = 12")
  case True
  then have "\<exists>shift. zig_sub (rq_bpc r) 8 = Some (rq_bpc r - 8) \<and> zig_cast ((rq_bpc r - 8) div 2) = Some (shift :: 3 word) \<and>
      unat shift = unat ((rq_bpc r - 8) div 2)"
    by (elim disjE) (simp_all add: zig_sub_def zig_cast_def zig_int_def)
  then show ?thesis using True by (auto simp: request_unsupported_def request_supported_def Let_def)
next
  case False
  then show ?thesis by (auto simp: request_unsupported_def request_supported_def Let_def)
qed

lemma ucast_step: "max_step r \<noteq> 0 \<Longrightarrow> (ucast (max_step r) :: NvU16) \<noteq> 0"
proof
  assume "max_step r \<noteq> 0" "(ucast (max_step r) :: NvU16) = 0"
  then have "unat (ucast (max_step r) :: NvU16) = 0" by simp
  then have "unat (max_step r) = 0"
    using unsigned_less [of "max_step r", where 'a = nat] by (simp add: unsigned_ucast_eq take_bit_nat_eq_self)
  then show False using \<open>max_step r \<noteq> 0\<close> by (simp add: unat_eq_zero_iff)
qed

lemma forced_eq:
  assumes "request_in_range r"
  shows "forced_refused r = Some (\<not> forced_in_range r)"
proof -
  have "unat (ucast (rq_bpc r) :: NvU16) \<le> 255"
    using unsigned_less [of "rq_bpc r", where 'a = nat] by (simp add: unsigned_ucast_eq take_bit_nat_eq_self)
  then have "zig_mul (ucast (rq_bpc r) :: NvU16) 48 = Some (ucast (rq_bpc r) * 48)" by (intro zig_mul_Some) simp
  then show ?thesis
    using ucast_step [OF max_step_divides(1) [OF assms]] by (auto simp: forced_refused_def forced_in_range_def c_mod_def)
qed

lemma throughput_eq: "throughput_checked mhz = Some (throughput_code mhz)"
proof -
  have "zig_add 2 (ucast (mhz - 400) div 50 :: NvU32) = Some (2 + ucast (mhz - 400) div 50)" if "mhz \<le> 1000"
  proof (rule zig_add_Some)
    have "unat (ucast (mhz - 400) :: NvU32) < 65536"
      using unsigned_less [of "mhz - 400", where 'a = nat] by (simp add: unsigned_ucast_eq take_bit_nat_eq_self)
    then show "unat (2 :: NvU32) + unat (ucast (mhz - 400) div 50 :: NvU32) < 2 ^ LENGTH(32)" by simp
  qed
  then show ?thesis by (auto simp: throughput_checked_def throughput_code_def zig_sub_def)
qed

lemma input_eq:
  assumes "request_in_range r"
  shows "dsc_input_checked r pclk t = Some (dsc_input r pclk t)"
proof -
  have "unat (ucast (rq_rate r) :: NvU64) \<le> 255"
    using unsigned_less [of "rq_rate r", where 'a = nat] by (simp add: unsigned_ucast_eq take_bit_nat_eq_self)
  then have m: "zig_mul (ucast (rq_rate r) :: NvU64) 27 = Some (ucast (rq_rate r) * 27)" by (intro zig_mul_Some) simp
  have "unat (src_line_buffer_pixels (rq_source r)) \<le> 65536"
    using assms by (simp add: request_in_range_def Let_def word_le_nat_alt)
  then have "zig_cast (src_line_buffer_pixels (rq_source r) div 1024) = Some (ucast (src_line_buffer_pixels (rq_source r) div 1024) :: NvU32)"
    by (intro zig_cast_Some) simp
  then show ?thesis by (simp add: dsc_input_checked_def m dsc_input_def Let_def)
qed

lemma dsc_prepare_plain:
  "dsc_prepare lk r =
     (if \<not> request_supported r then Inl Unsupported
      else if \<not> request_in_range r then Inl Parameter
      else (case lk_ceilHz lk (rq_clock r) of
          None \<Rightarrow> Inl Parameter
        | Some pclk \<Rightarrow>
            if \<not> forced_in_range r then Inl Parameter
            else if pclk > 4000000000 \<or> rq_payload_bps r = 0 \<or> rq_payload_bps r > 64000000000 then Inl Parameter
            else (case (if rq_transport r \<noteq> Hdmi then fecPayload lk (rq_rate r) (rq_lanes r) else Inr (rq_payload_bps r)) of
                Inl e \<Rightarrow> Inl e
              | Inr limit \<Rightarrow>
                  if rq_payload_bps r > limit then Inl Bandwidth
                  else if \<not> lk_fits lk (rq_clock r) 128 (rq_payload_bps r) then Inl Bandwidth
                  else (case throughput_code (snk_slice_clock_mhz (rq_sink r)) of
                      None \<Rightarrow> Inl Unsupported
                    | Some throughput \<Rightarrow> Inr (dsc_input r pclk throughput)))))"
  unfolding dsc_prepare_def unsupported_eq throughput_eq
  by (auto simp: refuse_def zig_let_def forced_eq input_eq split: option.split sum.split)

lemma sizes_eq: "plan_sizes_refused r plan = Some (\<not> plan_sizes_ok r plan)"
proof (cases "pl_slice_height plan < 8")
  case False
  then have "pl_slice_height plan \<noteq> 0" by auto
  then show ?thesis
    by (auto simp: plan_sizes_refused_def plan_sizes_ok_def c_mod_def dest: ucast_16_nonzero)
qed (auto simp: plan_sizes_refused_def plan_sizes_ok_def)

lemma count_eq:
  assumes "request_in_range r" "pl_slice_width plan \<noteq> 0"
  shows "plan_count r plan = Some (plan_slice_count r plan)"
proof -
  let ?w = "ucast (pl_slice_width plan) :: NvU32"
  have nz: "?w \<noteq> 0" by (rule ucast_16_nonzero [OF assms(2)])
  have W: "unat (rq_width r) \<le> 65535" "rq_width r \<noteq> 0"
    using assms(1) by (simp_all add: request_in_range_def Let_def word_le_nat_alt)
  have w: "unat ?w < 65536" using unsigned_less [of "pl_slice_width plan", where 'a = nat] by simp
  have sum: "zig_add (rq_width r) ?w = Some (rq_width r + ?w)" using W w by (intro zig_add_Some) simp
  have u: "unat (rq_width r + ?w) = unat (rq_width r) + unat ?w" using W w by (subst unat_add_nowrap) simp_all
  have "1 \<le> rq_width r + ?w" unfolding word_le_nat_alt u using W(2) by (simp add: Suc_leI unat_gt_0)
  then show ?thesis using sum nz by (simp add: plan_count_def zig_sub_def plan_slice_count_def c_div_def)
qed

lemma slices_eq:
  assumes "request_in_range r"
  shows "plan_slices_refused r plan slices = Some (\<not> plan_slices_ok r plan slices)"
proof (cases "slices > 24")
  case True
  then show ?thesis by (simp add: plan_slices_refused_def plan_slices_ok_def Let_def)
next
  case False
  let ?mhz = "snk_slice_clock_mhz (rq_sink r)" and ?den = "lc_denominator (rq_clock r)"
  have n: "unat slices \<le> 24" using False by (simp add: word_le_nat_alt not_less)
  obtain shift where shift: "zig_cast slices = Some (shift :: 5 word)" "unat shift = unat slices"
    using zig_int_unat [of "unat slices", where 'a = 5] n by (auto simp: zig_cast_def)
  have m: "unat ?mhz \<le> 65535" "unat ?den \<le> 18446744073709551615"
    using unsigned_less [of ?mhz, where 'a = nat] unsigned_less [of ?den, where 'a = nat] by simp_all
  obtain a where a: "zig_mul (ucast slices :: 128 word) (ucast ?mhz) = Some a" "unat a = unat slices * unat ?mhz" "unat a \<le> 24 * 65535"
    using zig_mul_bound [of "ucast slices :: 128 word" 24 "ucast ?mhz" 65535] n m by auto
  obtain b where b: "zig_mul a 1000000 = Some b" "unat b = unat a * 1000000" "unat b \<le> 24 * 65535 * 1000000"
    using zig_mul_bound [of a "24 * 65535" 1000000 1000000] a(3) by auto
  obtain c where c: "zig_mul b (ucast ?den) = Some c" "unat c = unat b * unat ?den"
    using zig_mul_bound [of b "24 * 65535 * 1000000" "ucast ?den" 18446744073709551615] b(3) m(2) by auto
  have hz: "ucast (lc_numerator (rq_clock r)) > c \<longleftrightarrow>
      unat (lc_numerator (rq_clock r)) > unat slices * unat ?mhz * 1000000 * unat ?den"
    using a(2) b(2) c(2) by (simp add: word_less_nat_alt)
  show ?thesis
    using False shift a(1) b(1) c(1) hz ucast_step [OF max_step_divides(1) [OF assms]]
    by (simp add: plan_slices_refused_def plan_slices_ok_def Let_def c_mod_def)
qed

lemma bandwidth_eq:
  assumes "request_in_range r" "rq_payload_bps r \<le> 64000000000" "unat slices \<le> 24"
  shows "plan_bandwidth_refused lk r plan slices = Some (\<not> plan_bandwidth_ok lk r plan slices)"
proof -
  let ?num = "lc_numerator (rq_clock r)" and ?den = "lc_denominator (rq_clock r)"
  have m: "unat (pl_chunk_bytes plan) \<le> 65535" "unat ?num \<le> 18446744073709551615" "unat ?den \<le> 18446744073709551615"
    "unat (rq_payload_bps r) \<le> 64000000000" "unat (rq_width r) \<le> 65535"
    using unsigned_less [of "pl_chunk_bytes plan", where 'a = nat] unsigned_less [of ?num, where 'a = nat]
      unsigned_less [of ?den, where 'a = nat] assms(1,2)
    by (simp_all add: word_le_nat_alt request_in_range_def Let_def)
  obtain a where a: "zig_mul (ucast (pl_chunk_bytes plan) :: 128 word) (ucast slices) = Some a"
    "unat a = unat (pl_chunk_bytes plan) * unat slices" "unat a \<le> 65535 * 24"
    using zig_mul_bound [of "ucast (pl_chunk_bytes plan) :: 128 word" 65535 "ucast slices" 24] m(1) assms(3) by auto
  obtain b where b: "zig_mul a 8 = Some b" "unat b = unat a * 8" "unat b \<le> 65535 * 24 * 8"
    using zig_mul_bound [of a "65535 * 24" 8 8] a(3) by auto
  obtain c where c: "zig_mul b (ucast ?num) = Some c" "unat c = unat b * unat ?num"
    using zig_mul_bound [of b "65535 * 24 * 8" "ucast ?num" 18446744073709551615] b(3) m(2) by auto
  obtain d where d: "zig_mul (ucast (rq_payload_bps r) :: 128 word) (ucast (rq_width r)) = Some d"
    "unat d = unat (rq_payload_bps r) * unat (rq_width r)" "unat d \<le> 64000000000 * 65535"
    using zig_mul_bound [of "ucast (rq_payload_bps r) :: 128 word" 64000000000 "ucast (rq_width r)" 65535] m(4,5) by auto
  obtain e where e: "zig_mul d (ucast ?den) = Some e" "unat e = unat d * unat ?den"
    using zig_mul_bound [of d "64000000000 * 65535" "ucast ?den" 18446744073709551615] d(3) m(3) by auto
  have "c \<ge> e \<longleftrightarrow> unat (pl_chunk_bytes plan) * unat slices * 8 * unat ?num \<ge> unat (rq_payload_bps r) * unat (rq_width r) * unat ?den"
    using a(2) b(2) c(2) d(2) e(2) by (simp add: word_le_nat_alt)
  then show ?thesis
    using a(1) b(1) c(1) d(1) e(1) by (simp add: plan_bandwidth_refused_def plan_bandwidth_ok_def Let_def not_less)
qed

lemma read_eq:
  assumes "unat bpp \<le> 1023"
  shows "plan_read pps (ucast bpp) = Some (plan_of pps bpp)"
proof -
  let ?b = "ucast (ucast (be (plan_bytes pps) 38) :: NvU16) :: NvU32"
  have b: "unat ?b < 65536" using unsigned_less [of "ucast (be (plan_bytes pps) 38) :: NvU16", where 'a = nat] by simp
  then have "zig_add ?b 7 = Some (?b + 7)" by (intro zig_add_Some) simp
  moreover have "unat (?b + 7) = unat ?b + 7" using b by (subst unat_add_nowrap) simp_all
  then have "zig_cast ((?b + 7) div 8) = Some (ucast ((?b + 7) div 8) :: NvU16)"
    using b by (intro zig_cast_Some) simp
  ultimately show ?thesis by (simp add: plan_read_def plan_of_def Let_def)
qed

lemma dsc_check_plain:
  assumes "request_in_range r" "rq_payload_bps r \<le> 64000000000"
  shows "dsc_check lk r out =
     (if rq_transport r = Hdmi \<and> ro_bpp_x16 out \<noteq> ucast (rq_forced_bpp_x16 r) then Inl Pps
      else if ro_bpp_x16 out < 128 \<or> ro_bpp_x16 out \<ge> ucast (rq_bpc r) * 48 \<or> ro_bpp_x16 out > 1023 then Inl Pps
      else if \<not> plan_header_ok r (plan_bytes (ro_pps out)) (ro_bpp_x16 out) then Inl Pps
      else let plan = plan_of (ro_pps out) (ro_bpp_x16 out) in
        if \<not> plan_sizes_ok r plan then Inl Pps
        else let slices = plan_slice_count r plan in
          if \<not> plan_slices_ok r plan slices then Inl Pps
          else let plan = plan\<lparr>pl_slices := ucast slices\<rparr> in
            if \<not> plan_bandwidth_ok lk r plan slices then Inl Bandwidth else Inr plan)"
proof -
  let ?bpp = "ro_bpp_x16 out"
  have limit: "zig_mul (ucast (rq_bpc r) :: NvU32) 3 = Some (ucast (rq_bpc r) * 3)"
    "zig_mul (ucast (rq_bpc r) * 3 :: NvU32) 16 = Some (ucast (rq_bpc r) * 48)"
  proof -
    have b: "unat (ucast (rq_bpc r) :: NvU32) \<le> 255" using unsigned_less [of "rq_bpc r", where 'a = nat] by simp
    then show "zig_mul (ucast (rq_bpc r) :: NvU32) 3 = Some (ucast (rq_bpc r) * 3)" by (intro zig_mul_Some) simp
    have "unat (ucast (rq_bpc r) * 3 :: NvU32) \<le> 765"
      using unat_mult_le [of "ucast (rq_bpc r) :: NvU32" 3] b by simp
    then have "zig_mul (ucast (rq_bpc r) * 3 :: NvU32) 16 = Some (ucast (rq_bpc r) * 3 * 16)" by (intro zig_mul_Some) simp
    then show "zig_mul (ucast (rq_bpc r) * 3 :: NvU32) 16 = Some (ucast (rq_bpc r) * 48)" by (simp add: mult.assoc)
  qed
  have cast: "zig_cast ?bpp = Some (ucast ?bpp :: NvU16)" "ucast (ucast ?bpp :: NvU16) = ?bpp" "unat ?bpp \<le> 1023" if "\<not> ?bpp > 1023"
  proof -
    show le: "unat ?bpp \<le> 1023" using that by (simp add: word_less_nat_alt)
    show "zig_cast ?bpp = Some (ucast ?bpp :: NvU16)" using le by (intro zig_cast_Some) simp
    have "unat (ucast (ucast ?bpp :: NvU16) :: NvU32) = unat ?bpp"
      using le by (simp add: unsigned_ucast_eq unsigned_take_bit_eq take_bit_nat_eq_self)
    then show "ucast (ucast ?bpp :: NvU16) = ?bpp" by (rule unsigned_word_eqI)
  qed
  have tail: "refuse (plan_sizes_refused r plan) Pps (
      zig_let (plan_count r plan) (\<lambda>slices. refuse (plan_slices_refused r plan slices) Pps
        (zig_let (zig_cast slices) (\<lambda>count. refuse (plan_bandwidth_refused lk r (plan\<lparr>pl_slices := count\<rparr>) slices) Bandwidth
           (Inr (plan\<lparr>pl_slices := count\<rparr>)))))) =
      (if \<not> plan_sizes_ok r plan then Inl Pps
       else if \<not> plan_slices_ok r plan (plan_slice_count r plan) then Inl Pps
       else if \<not> plan_bandwidth_ok lk r (plan\<lparr>pl_slices := ucast (plan_slice_count r plan)\<rparr>) (plan_slice_count r plan)
         then Inl Bandwidth else Inr (plan\<lparr>pl_slices := ucast (plan_slice_count r plan)\<rparr>))" for plan
  proof (cases "plan_sizes_ok r plan")
    case True
    define n where "n = plan_slice_count r plan"
    have w: "pl_slice_width plan \<noteq> 0" using True by (simp add: plan_sizes_ok_def)
    have "unat n \<le> 24" if "plan_slices_ok r plan n" using that by (simp add: plan_slices_ok_def word_le_nat_alt not_less)
    then have "zig_cast n = Some (ucast n :: NvU8)" "plan_bandwidth_refused lk r p n = Some (\<not> plan_bandwidth_ok lk r p n)"
      if "plan_slices_ok r plan n" for p
      using that bandwidth_eq [OF assms, of n lk p] by (simp_all add: zig_cast_Some)
    then show ?thesis
      unfolding count_eq [OF assms(1) w] n_def [symmetric] slices_eq [OF assms(1)] sizes_eq
      by (cases "plan_slices_ok r plan n") simp_all
  qed (simp add: sizes_eq)
  show ?thesis
  proof (cases "?bpp > 1023")
    case True
    then show ?thesis by (simp add: dsc_check_def limit)
  next
    case False
    note c = cast [OF False]
    show ?thesis unfolding dsc_check_def Let_def by (simp add: limit c read_eq [OF c(3)] tail)
  qed
qed

section \<open>What an admitted request guarantees\<close>

text \<open>
  Documented behaviour of the link package: a link without lanes carries nothing, and the payload of an
  8b/10b link is far below the 64-bit range.
\<close>

definition links_ok :: "links_package \<Rightarrow> bool" where
  "links_ok lk \<longleftrightarrow>
     (\<forall>rate lanes raw. lk_dp8b10bPayload lk rate lanes = Some raw \<longrightarrow>
        (lanes = 0 \<longrightarrow> raw = 0) \<and> unat raw * 976 < 2 ^ 64)"

lemma fecPayload_ok:
  assumes "links_ok lk"
  shows "fecPayload lk rate lanes \<noteq> Inl Panic" "fecPayload lk rate 0 = Inr limit \<Longrightarrow> limit = 0"
  using assms by (auto simp: links_ok_def fecPayload_def not_le split: option.split_asm if_split_asm) fastforce+

lemma dsc_prepare_Inr:
  assumes "dsc_prepare lk r = Inr inp"
  obtains pclk t where "request_supported r" "request_in_range r" "forced_in_range r"
    "lk_ceilHz lk (rq_clock r) = Some pclk" "pclk \<le> 4000000000" "rq_payload_bps r \<noteq> 0" "rq_payload_bps r \<le> 64000000000"
    "rq_transport r \<noteq> Hdmi \<Longrightarrow> \<exists>limit. fecPayload lk (rq_rate r) (rq_lanes r) = Inr limit \<and> rq_payload_bps r \<le> limit"
    "throughput_code (snk_slice_clock_mhz (rq_sink r)) = Some t" "inp = dsc_input r pclk t"
proof -
  obtain pclk where p: "request_supported r" "request_in_range r" "lk_ceilHz lk (rq_clock r) = Some pclk" "forced_in_range r"
    "\<not> (pclk > 4000000000 \<or> rq_payload_bps r = 0 \<or> rq_payload_bps r > 64000000000)"
    using assms by (auto simp: dsc_prepare_plain split: if_split_asm option.split_asm)
  obtain t where t: "throughput_code (snk_slice_clock_mhz (rq_sink r)) = Some t" "inp = dsc_input r pclk t"
    "rq_transport r \<noteq> Hdmi \<Longrightarrow> \<exists>limit. fecPayload lk (rq_rate r) (rq_lanes r) = Inr limit \<and> rq_payload_bps r \<le> limit"
    using assms p by (auto simp: dsc_prepare_plain split: sum.split_asm option.split_asm if_split_asm)
  show thesis using p t by (intro that [of pclk t]) auto
qed

text \<open>Every request passed on is within the bounds the generator needs.\<close>

lemma prepared_admitted:
  assumes "dsc_prepare lk r = Inr inp" "links_ok lk"
  shows "dsc_admitted inp"
proof (rule dsc_prepare_Inr [OF assms(1)])
  fix pclk t
  assume sup: "request_supported r" and rng: "request_in_range r" and frc: "forced_in_range r"
    and pclk: "pclk \<le> 4000000000" and pay: "rq_payload_bps r \<noteq> 0" "rq_payload_bps r \<le> 64000000000"
    and fec: "rq_transport r \<noteq> Hdmi \<Longrightarrow> \<exists>limit. fecPayload lk (rq_rate r) (rq_lanes r) = Inr limit \<and> rq_payload_bps r \<le> limit"
    and inp: "inp = dsc_input r pclk t"
  have "src_line_buffer_pixels (rq_source r) \<le> 65536" using rng by (simp add: request_in_range_def Let_def)
  then have "unat (src_line_buffer_pixels (rq_source r)) div 1024 \<le> 64"
    by (simp add: word_le_nat_alt)
  then have units: "unat (ucast (src_line_buffer_pixels (rq_source r) div 1024) :: NvU32) \<le> 64"
    using unat_ucast_le [of "src_line_buffer_pixels (rq_source r) div 1024"] by simp
  have width: "unat (ucast (snk_max_slice_width (rq_sink r)) :: NvU32) \<le> 65535"
    using unsigned_less [of "snk_max_slice_width (rq_sink r)", where 'a = nat] by simp
  have lanes: "ucast (rq_lanes r) \<noteq> (0 :: NvU32)" if "rq_transport r \<noteq> Hdmi"
  proof
    assume "ucast (rq_lanes r) = (0 :: NvU32)"
    then have "rq_lanes r = 0" by (metis unat_ucast_wider(4) unat_0 unat_eq_zero_iff)
    moreover obtain limit where "fecPayload lk (rq_rate r) (rq_lanes r) = Inr limit" "rq_payload_bps r \<le> limit"
      using fec [OF \<open>rq_transport r \<noteq> Hdmi\<close>] by auto
    ultimately show False using fecPayload_ok(2) [OF assms(2)] pay(1) by (metis word_le_0_iff)
  qed
  have rate: "unat (ucast (rq_forced_bpp_x16 r) :: NvU32) < 48 * unat (ucast (rq_bpc r) :: NvU32)" if "rq_transport r = Hdmi"
    using frc that sup by (auto simp: forced_in_range_def request_supported_def Let_def word_less_nat_alt word_le_nat_alt)
  show ?thesis
    using units width lanes rate pclk pay(2) unfolding inp dsc_admitted_def dsc_input_def Let_def
    by (cases "rq_transport r") (simp_all add: word_le_nat_alt)
qed

section \<open>What a plan guarantees\<close>

lemma unat_slices:
  assumes "request_in_range r" "pl_slice_width plan \<noteq> 0"
  shows "unat (plan_slice_count r plan) =
    (unat (rq_width r) + unat (pl_slice_width plan) - 1) div unat (pl_slice_width plan)"
proof -
  have "ucast (pl_slice_width plan) \<noteq> (0 :: NvU32)"
    using assms(2) by (metis unat_ucast_wider(1) unat_0 unat_eq_zero_iff)
  moreover have "unat (rq_width r) \<le> 65535" using assms(1) by (simp add: request_in_range_def Let_def word_le_nat_alt)
  moreover have "unat (pl_slice_width plan) < 65536" using unsigned_less [of "pl_slice_width plan", where 'a = nat] by simp
  ultimately show ?thesis
    unfolding plan_slice_count_def by (subst unat_ceil_div) (simp_all del: unat_div_word)
qed

text \<open>The slices of a plan tile the picture: enough of them, and not one too many.\<close>

lemma ceil_div_tiles: "0 < w \<Longrightarrow> 0 < a \<Longrightarrow> a \<le> (a + w - 1) div w * w \<and> ((a + w - 1) div w - 1) * w < (a :: nat)"
proof
  assume w: "0 < w" and a: "0 < a"
  show "a \<le> (a + w - 1) div w * w" using ceil_div_le_iff [OF w, of a "(a + w - 1) div w"] by simp
  show "((a + w - 1) div w - 1) * w < a"
    using div_times_less_eq_dividend [of "a + w - 1" w] w a unfolding diff_mult_distrib by linarith
qed

text \<open>The slices cover the picture in both directions.\<close>

definition plan_tiles :: "dsc_request \<Rightarrow> dsc_plan \<Rightarrow> bool" where
  "plan_tiles r plan \<longleftrightarrow>
     (let slices = unat (pl_slices plan); w = unat (pl_slice_width plan); h = unat (pl_slice_height plan) in
      unat (rq_width r) \<le> slices * w \<and> (slices - 1) * w < unat (rq_width r) \<and> 1 \<le> slices \<and> slices \<le> 24 \<and>
      8 \<le> h \<and> h dvd unat (rq_height r))"

text \<open>The limits of the sink and those of the encoder.\<close>

definition plan_in_sink :: "dsc_request \<Rightarrow> dsc_plan \<Rightarrow> bool" where
  "plan_in_sink r plan \<longleftrightarrow>
     (let sink = rq_sink r; slices = unat (pl_slices plan); bpp = unat (pl_bpp_x16 plan) in
      bit (snk_slice_mask sink) slices \<and> unat (pl_slice_width plan) \<le> unat (snk_max_slice_width sink) \<and>
      unat (lc_numerator (rq_clock r)) \<le>
        slices * unat (snk_slice_clock_mhz sink) * 1000000 * unat (lc_denominator (rq_clock r)) \<and>
      (rq_transport r \<noteq> Hdmi \<longrightarrow> unat (pl_rc_buffer_bytes plan) \<le> unat (snk_rc_buffer_bytes sink)) \<and>
      unat (snk_bpp_increment_x16 sink) dvd bpp \<and> (snk_max_bpp_x16 sink \<noteq> 0 \<longrightarrow> bpp \<le> unat (snk_max_bpp_x16 sink)))"

definition plan_in_encoder :: "dsc_request \<Rightarrow> dsc_plan \<Rightarrow> bool" where
  "plan_in_encoder r plan \<longleftrightarrow>
     (let source = rq_source r; bpp = unat (pl_bpp_x16 plan) in
      unat (pl_slices plan) \<le> unat (src_max_slices source) \<and>
      unat (pl_slice_width plan) \<le> unat (src_line_buffer_pixels source) \<and>
      0 < unat (pl_rc_buffer_bytes plan) \<and> unat (pl_rc_buffer_bytes plan) \<le> unat (src_rate_buffer_bytes source) \<and>
      128 \<le> bpp \<and> bpp < 48 * unat (rq_bpc r) \<and> unat (src_bpp_increment_x16 source) dvd bpp)"

text \<open>
  The stream on the link: its ideal rate fits, and its chunks, rounding included, stay below the payload, which
  a DisplayPort link has after error correction. HDMI gets the rate and the slices it asked for.
\<close>

definition plan_on_link :: "links_package \<Rightarrow> dsc_request \<Rightarrow> dsc_plan \<Rightarrow> bool" where
  "plan_on_link lk r plan \<longleftrightarrow>
     lk_fits lk (rq_clock r) (pl_bpp_x16 plan) (rq_payload_bps r) \<and> 0 < unat (pl_chunk_bytes plan) \<and>
     unat (pl_chunk_bytes plan) * unat (pl_slices plan) * 8 * unat (lc_numerator (rq_clock r)) <
       unat (rq_payload_bps r) * unat (rq_width r) * unat (lc_denominator (rq_clock r)) \<and>
     (if rq_transport r = Hdmi
      then pl_bpp_x16 plan = rq_forced_bpp_x16 r \<and> pl_slice_width plan = rq_forced_slice_width r
      else \<exists>limit. fecPayload lk (rq_rate r) (rq_lanes r) = Inr limit \<and> rq_payload_bps r \<le> limit)"

lemma plan_slices_update [simp]:
  "plan_sizes_ok r (plan\<lparr>pl_slices := x\<rparr>) = plan_sizes_ok r plan"
  "plan_slice_count r (plan\<lparr>pl_slices := x\<rparr>) = plan_slice_count r plan"
  "plan_slices_ok r (plan\<lparr>pl_slices := x\<rparr>) n = plan_slices_ok r plan n"
  by (simp_all add: plan_sizes_ok_def plan_slice_count_def plan_slices_ok_def)

lemma dsc_check_Inr:
  assumes "dsc_check lk r out = Inr plan" "request_in_range r" "rq_payload_bps r \<le> 64000000000"
  shows "plan_header_ok r (plan_bytes (ro_pps out)) (ro_bpp_x16 out)" "plan_sizes_ok r plan"
    "plan_slices_ok r plan (plan_slice_count r plan)" "plan_bandwidth_ok lk r plan (plan_slice_count r plan)"
    "pl_slices plan = ucast (plan_slice_count r plan)"
    "plan = (plan_of (ro_pps out) (ro_bpp_x16 out))\<lparr>pl_slices := pl_slices plan\<rparr>"
    "128 \<le> ro_bpp_x16 out" "ro_bpp_x16 out \<le> 1023" "ro_bpp_x16 out < ucast (rq_bpc r) * 48"
    "rq_transport r = Hdmi \<Longrightarrow> ro_bpp_x16 out = ucast (rq_forced_bpp_x16 r)"
proof -
  define plan0 where "plan0 = plan_of (ro_pps out) (ro_bpp_x16 out)"
  define n where "n = plan_slice_count r plan0"
  have c: "plan_header_ok r (plan_bytes (ro_pps out)) (ro_bpp_x16 out)" "128 \<le> ro_bpp_x16 out" "ro_bpp_x16 out \<le> 1023"
    "plan_sizes_ok r plan0" "plan_slices_ok r plan0 n" "plan_bandwidth_ok lk r plan n" "plan = plan0\<lparr>pl_slices := ucast n\<rparr>"
    "ro_bpp_x16 out < ucast (rq_bpc r) * 48" "rq_transport r = Hdmi \<longrightarrow> ro_bpp_x16 out = ucast (rq_forced_bpp_x16 r)"
    using assms(1) unfolding dsc_check_plain [OF assms(2,3)] Let_def plan0_def [symmetric] n_def [symmetric]
    by (simp_all only: split: if_split_asm) auto
  then have "plan_slice_count r plan = n" by (simp add: n_def)
  with c show "plan_header_ok r (plan_bytes (ro_pps out)) (ro_bpp_x16 out)" "plan_sizes_ok r plan"
    "plan_slices_ok r plan (plan_slice_count r plan)" "plan_bandwidth_ok lk r plan (plan_slice_count r plan)"
    "pl_slices plan = ucast (plan_slice_count r plan)"
    "plan = (plan_of (ro_pps out) (ro_bpp_x16 out))\<lparr>pl_slices := pl_slices plan\<rparr>"
    "128 \<le> ro_bpp_x16 out" "ro_bpp_x16 out \<le> 1023" "ro_bpp_x16 out < ucast (rq_bpc r) * 48"
    "rq_transport r = Hdmi \<Longrightarrow> ro_bpp_x16 out = ucast (rq_forced_bpp_x16 r)"
    by (simp_all add: plan0_def)
qed

lemma bit_test_push: "m AND push_bit n 1 = 0 \<longleftrightarrow> \<not> bit m n" if "n < LENGTH('a)" for m :: "'a::len word"
proof -
  have "bit (m AND push_bit n 1) k \<longleftrightarrow> bit m n \<and> k = n" for k
    using that by (auto simp: bit_simps)
  then show ?thesis by (metis bit_0_eq bot_apply bot_bool_def bit_eq_iff)
qed

lemma plan_bpp:
  assumes "dsc_check lk r out = Inr plan" "request_in_range r" "rq_payload_bps r \<le> 64000000000"
  shows "ucast (pl_bpp_x16 plan) = ro_bpp_x16 out" "unat (pl_bpp_x16 plan) = unat (ro_bpp_x16 out)" "pl_pps plan = ro_pps out"
    "pl_chunk_bytes plan = ucast (be (plan_bytes (pl_pps plan)) 14)"
proof -
  note c = dsc_check_Inr [OF assms]
  have le: "unat (ro_bpp_x16 out) \<le> 1023" using c(8) by (simp add: word_le_nat_alt)
  have "pl_bpp_x16 plan = ucast (ro_bpp_x16 out)"
    using arg_cong [OF c(6), of pl_bpp_x16] by (simp add: plan_of_def Let_def)
  then show u: "unat (pl_bpp_x16 plan) = unat (ro_bpp_x16 out)"
    using le by (simp add: unsigned_ucast_eq take_bit_nat_eq_self)
  then have "unat (ucast (pl_bpp_x16 plan) :: NvU32) = unat (ro_bpp_x16 out)" by simp
  then show "ucast (pl_bpp_x16 plan) = ro_bpp_x16 out" by (rule unsigned_word_eqI)
  show pps: "pl_pps plan = ro_pps out" using arg_cong [OF c(6), of pl_pps] by (simp add: plan_of_def Let_def)
  show "pl_chunk_bytes plan = ucast (be (plan_bytes (pl_pps plan)) 14)"
    unfolding pps using arg_cong [OF c(6), of pl_chunk_bytes] by (simp add: plan_of_def Let_def)
qed

lemma plan_count_slices:
  assumes "dsc_check lk r out = Inr plan" "request_in_range r" "rq_payload_bps r \<le> 64000000000"
  shows "unat (plan_slice_count r plan) \<le> 24" "unat (pl_slices plan) = unat (plan_slice_count r plan)"
proof -
  note c = dsc_check_Inr [OF assms]
  show n: "unat (plan_slice_count r plan) \<le> 24" using c(3) by (simp add: plan_slices_ok_def word_le_nat_alt not_less)
  show "unat (pl_slices plan) = unat (plan_slice_count r plan)"
    unfolding c(5) using n by (simp add: unsigned_ucast_eq take_bit_nat_eq_self)
qed

lemma dsc_check_tiles:
  assumes "dsc_check lk r out = Inr plan" "request_in_range r" "rq_payload_bps r \<le> 64000000000"
  shows "plan_tiles r plan"
proof -
  note c = dsc_check_Inr [OF assms] and n = plan_count_slices [OF assms]
  have w: "pl_slice_width plan \<noteq> 0" using c(2) by (simp add: plan_sizes_ok_def)
  have W: "0 < unat (rq_width r)" using assms(2) by (simp add: request_in_range_def Let_def unat_gt_0)
  have w0: "0 < unat (pl_slice_width plan)" using w by (simp add: unat_gt_0)
  note t = ceil_div_tiles [OF w0 W, folded unat_slices [OF assms(2) w]]
  then have n1: "1 \<le> unat (plan_slice_count r plan)" using W by (cases "unat (plan_slice_count r plan)") auto
  have "rq_height r mod ucast (pl_slice_height plan) = 0" using c(2) by (simp add: plan_sizes_ok_def)
  then have "unat (rq_height r mod ucast (pl_slice_height plan)) = 0" by simp
  then have h: "unat (pl_slice_height plan) dvd unat (rq_height r)" unfolding unat_mod_word by (simp add: dvd_eq_mod_eq_0)
  have "8 \<le> unat (pl_slice_height plan)" using c(2) by (simp add: plan_sizes_ok_def not_less word_le_nat_alt)
  then show ?thesis unfolding plan_tiles_def Let_def n(2) using t n1 n(1) h by simp
qed

lemma step_divides_bpp:
  assumes "dsc_check lk r out = Inr plan" "request_in_range r" "rq_payload_bps r \<le> 64000000000"
  shows "unat (max_step r) dvd unat (pl_bpp_x16 plan)"
proof -
  have "pl_bpp_x16 plan mod ucast (max_step r) = 0"
    using dsc_check_Inr(3) [OF assms] by (simp add: plan_slices_ok_def)
  then have "unat (pl_bpp_x16 plan mod ucast (max_step r)) = 0" by simp
  then show ?thesis unfolding unat_mod_word by (simp add: dvd_eq_mod_eq_0)
qed

lemma dsc_check_limits:
  assumes "dsc_check lk r out = Inr plan" "request_in_range r" "rq_payload_bps r \<le> 64000000000"
  shows "plan_in_sink r plan" "plan_in_encoder r plan"
proof -
  note c = dsc_check_Inr [OF assms] and n = plan_count_slices [OF assms] and b = plan_bpp [OF assms]
  note d = dvd_trans [OF max_step_divides(2) [OF assms(2)] step_divides_bpp [OF assms]]
    dvd_trans [OF max_step_divides(3) [OF assms(2)] step_divides_bpp [OF assms]]
  have sizes: "unat (pl_slice_width plan) \<le> unat (snk_max_slice_width (rq_sink r))"
    "unat (pl_slice_width plan) \<le> unat (src_line_buffer_pixels (rq_source r))" "0 < unat (pl_rc_buffer_bytes plan)"
    "unat (pl_rc_buffer_bytes plan) \<le> unat (src_rate_buffer_bytes (rq_source r))"
    "rq_transport r \<noteq> Hdmi \<longrightarrow> unat (pl_rc_buffer_bytes plan) \<le> unat (snk_rc_buffer_bytes (rq_sink r))"
    using c(2) by (auto simp: plan_sizes_ok_def not_less word_le_nat_alt unat_gt_0)
  have rates: "bit (snk_slice_mask (rq_sink r)) (unat (plan_slice_count r plan))"
    "unat (lc_numerator (rq_clock r)) \<le>
       unat (plan_slice_count r plan) * unat (snk_slice_clock_mhz (rq_sink r)) * 1000000 * unat (lc_denominator (rq_clock r))"
    "unat (plan_slice_count r plan) \<le> unat (src_max_slices (rq_source r))"
    "snk_max_bpp_x16 (rq_sink r) \<noteq> 0 \<longrightarrow> unat (pl_bpp_x16 plan) \<le> unat (snk_max_bpp_x16 (rq_sink r))"
    using c(3) bit_test_push [where m = "snk_slice_mask (rq_sink r)" and n = "unat (plan_slice_count r plan)"] n(1)
    by (auto simp: plan_slices_ok_def not_less word_le_nat_alt)
  show "plan_in_sink r plan" unfolding plan_in_sink_def Let_def n(2) using sizes rates d by simp
  have "unat (ucast (rq_bpc r) * 48 :: NvU32) \<le> unat (rq_bpc r) * 48"
    using unat_mult_le [of "ucast (rq_bpc r) :: NvU32" 48] by simp
  then have "128 \<le> unat (pl_bpp_x16 plan)" "unat (pl_bpp_x16 plan) < 48 * unat (rq_bpc r)"
    unfolding b(2) using c(7,9) by (simp_all add: word_le_nat_alt word_less_nat_alt)
  then show "plan_in_encoder r plan" unfolding plan_in_encoder_def Let_def n(2) using sizes rates d by simp
qed

lemma dsc_check_link:
  assumes "dsc_check lk r out = Inr plan" "request_in_range r" "rq_payload_bps r \<le> 64000000000"
    "rq_transport r \<noteq> Hdmi \<Longrightarrow> \<exists>limit. fecPayload lk (rq_rate r) (rq_lanes r) = Inr limit \<and> rq_payload_bps r \<le> limit"
  shows "plan_on_link lk r plan"
proof -
  note c = dsc_check_Inr [OF assms(1-3)] and n = plan_count_slices [OF assms(1-3)] and b = plan_bpp [OF assms(1-3)]
  have chunk: "0 < unat (pl_chunk_bytes plan)" using c(2) by (simp add: plan_sizes_ok_def unat_gt_0)
  have "pl_bpp_x16 plan = rq_forced_bpp_x16 r" "pl_slice_width plan = rq_forced_slice_width r" if "rq_transport r = Hdmi"
  proof -
    have "unat (pl_bpp_x16 plan) = unat (rq_forced_bpp_x16 r)" unfolding b(2) c(10) [OF that] by simp
    then show "pl_bpp_x16 plan = rq_forced_bpp_x16 r" by (rule unsigned_word_eqI)
    show "pl_slice_width plan = rq_forced_slice_width r" using c(2) that by (simp add: plan_sizes_ok_def)
  qed
  then show ?thesis
    unfolding plan_on_link_def n(2) using c(4) chunk assms(4) by (simp add: plan_bandwidth_ok_def)
qed

section \<open>Properties\<close>

text \<open>The plan's chunk is not zero, so the chunk size of the parameter set is one that its 16 bits hold.\<close>

lemma plan_decodes:
  assumes "dsc_check lk r out = Inr plan" "request_in_range r" "rq_payload_bps r \<le> 64000000000"
    "unat (chunk_size p) \<le> 65536" "pps_decode (plan_bytes (ro_pps out)) = pps_view (packed p)"
  shows "pps_decode (plan_bytes (pl_pps plan)) = pps_view p" "unat (pl_chunk_bytes plan) = unat (chunk_size p)"
proof -
  note b = plan_bpp [OF assms(1-3)]
  have "chunk_size (pps_decode (plan_bytes (ro_pps out))) = be (plan_bytes (ro_pps out)) 14" by (simp add: pps_decode_def)
  then have be: "be (plan_bytes (pl_pps plan)) 14 = take_bit 16 (chunk_size p)"
    unfolding b(3) assms(5) by (simp add: pps_view_def packed_def)
  have "pl_chunk_bytes plan \<noteq> 0" using dsc_check_Inr(2) [OF assms(1-3)] by (simp add: plan_sizes_ok_def)
  then have "chunk_size p \<noteq> 65536" unfolding b(4) be by auto
  then have "unat (chunk_size p) \<noteq> 65536" by (auto simp: word_unat_eq_iff)
  then have lt: "unat (chunk_size p) < 65536" using assms(4) by simp
  show "pps_decode (plan_bytes (pl_pps plan)) = pps_view p" using assms(5) packed_same [OF lt] b(3) by simp
  have "take_bit 16 (chunk_size p) = chunk_size p" using packed_same [OF lt] packed_fields(7) by metis
  then show "unat (pl_chunk_bytes plan) = unat (chunk_size p)"
    unfolding b(4) be using lt by (simp add: unsigned_ucast_eq take_bit_nat_eq_self)
qed

lemma plan_flatness:
  assumes "dsc_check lk r out = Inr plan" "request_in_range r" "rq_payload_bps r \<le> 64000000000" "request_supported r"
  shows "flatnessThreshold plan = Some (push_bit (unat (rq_bpc r) - 8) 2)"
proof -
  have "drop_bit 4 (plan_bytes (pl_pps plan) ! 3) = ucast (rq_bpc r)"
    using dsc_check_Inr(1) [OF assms(1-3)] unfolding plan_bpp(3) [OF assms(1-3)] by (simp add: plan_header_ok_def)
  moreover have "rq_bpc r = 8 \<or> rq_bpc r = 10 \<or> rq_bpc r = 12" using assms(4) by (simp add: request_supported_def Let_def)
  ultimately show ?thesis by (elim disjE) (simp_all add: flatnessThreshold_def)
qed

lemma dsc_generate_Inr:
  assumes "dsc_generate lk r = Inr plan" "links_ok lk"
  obtains inp out p where "dsc_prepare lk r = Inr inp" "request_supported r" "request_in_range r" "rq_payload_bps r \<le> 64000000000"
    "rq_transport r \<noteq> Hdmi \<Longrightarrow> \<exists>limit. fecPayload lk (rq_rate r) (rq_lanes r) = Inr limit \<and> rq_payload_bps r \<le> limit"
    "dsc_check lk r out = Inr plan" "length (ro_pps out) = 32"
    "generated (companion_caps inp) (companion_mode inp) (ro_bpp_x16 out) p"
    "unat (chunk_size p) \<le> 65536" "pps_decode (plan_bytes (ro_pps out)) = pps_view (packed p)"
proof -
  obtain inp where inp: "dsc_prepare lk r = Inr inp" using assms(1) by (auto simp: dsc_generate_def split: sum.split_asm)
  have "request_supported r" "request_in_range r" "rq_payload_bps r \<le> 64000000000"
    "rq_transport r \<noteq> Hdmi \<Longrightarrow> \<exists>limit. fecPayload lk (rq_rate r) (rq_lanes r) = Inr limit \<and> rq_payload_bps r \<le> limit"
    by (rule dsc_prepare_Inr [OF inp], assumption | blast)+
  moreover obtain status out where run: "r4os_dsc_generate (Some inp) (Some blank_output) = Some (status, Some out)"
    "status = NVT_STATUS_SUCCESS \<longrightarrow> length (ro_pps out) = 32 \<and>
       (\<exists>p. generated (companion_caps inp) (companion_mode inp) (ro_bpp_x16 out) p \<and>
          unat (chunk_size p) \<le> 65536 \<and> pps_decode (plan_bytes (ro_pps out)) = pps_view (packed p))"
    using companion_returns [OF prepared_admitted [OF inp assms(2)], of blank_output] by blast
  moreover have "status = NVT_STATUS_SUCCESS" "dsc_check lk r out = Inr plan"
    using assms(1) inp run(1) by (auto simp: dsc_generate_def split: if_split_asm)
  ultimately show thesis using inp that by blast
qed

text \<open>
  C1: Display stream compression end to end. For every request and any link package that behaves as
  documented, the driver's \<^verbatim>\<open>generate\<close> stops at no failed check of the language (no sum, product, remainder or
  conversion out of range) and at no undefined behaviour of the C companion. A plan it returns tiles the
  picture with the fewest slices of its width and a height that divides the picture's; it keeps the limits of
  the sink (slice counts, slice width, slice clock, rate buffer, rate step, largest rate) and of the
  encoder (slices, line buffer, rate buffer, rate step, rates below the uncompressed one); its coded stream,
  chunk rounding included, stays below the payload of the link, which a DisplayPort link has after error
  correction; HDMI gets the rate and slice width it forced; the flatness threshold is the one of the
  component depth; and its 32 dwords decode to a parameter set that NVIDIA's generator computed for this very
  request, whose chunk size is the plan's.
\<close>

theorem dsc_generate_sound:
  assumes "links_ok lk"
  shows "case dsc_generate lk r of
      Inl e \<Rightarrow> e \<noteq> Panic
    | Inr plan \<Rightarrow> plan_tiles r plan \<and> plan_in_sink r plan \<and> plan_in_encoder r plan \<and> plan_on_link lk r plan \<and>
        flatnessThreshold plan = Some (push_bit (unat (rq_bpc r) - 8) 2) \<and> length (pl_pps plan) = 32 \<and>
        (\<exists>inp p. dsc_prepare lk r = Inr inp \<and>
           generated (companion_caps inp) (companion_mode inp) (ucast (pl_bpp_x16 plan)) p \<and>
           pps_decode (plan_bytes (pl_pps plan)) = pps_view p \<and> unat (pl_chunk_bytes plan) = unat (chunk_size p))"
proof (cases "dsc_generate lk r")
  case (Inl e)
  have "e \<noteq> Panic"
  proof (cases "dsc_prepare lk r")
    case Inl': (Inl e')
    then have "e' \<noteq> Panic"
      using fecPayload_ok(1) [OF assms]
      by (auto simp: dsc_prepare_plain split: if_split_asm option.split_asm sum.split_asm)
    then show ?thesis using Inl Inl' by (simp add: dsc_generate_def)
  next
    case (Inr inp)
    have plain: "request_in_range r" "rq_payload_bps r \<le> 64000000000" by (rule dsc_prepare_Inr [OF Inr], assumption)+
    obtain status out where "r4os_dsc_generate (Some inp) (Some blank_output) = Some (status, Some out)"
      using companion_returns [OF prepared_admitted [OF Inr assms], of blank_output] by blast
    then show ?thesis
      using Inl Inr by (auto simp: dsc_generate_def dsc_check_plain [OF plain] Let_def split: if_split_asm)
  qed
  then show ?thesis using Inl by simp
next
  case (Inr plan)
  show ?thesis
  proof (rule dsc_generate_Inr [OF Inr assms])
    fix inp out p
    assume *: "dsc_prepare lk r = Inr inp" "request_supported r" "request_in_range r" "rq_payload_bps r \<le> 64000000000"
      "rq_transport r \<noteq> Hdmi \<Longrightarrow> \<exists>limit. fecPayload lk (rq_rate r) (rq_lanes r) = Inr limit \<and> rq_payload_bps r \<le> limit"
      "dsc_check lk r out = Inr plan" "length (ro_pps out) = 32"
      "generated (companion_caps inp) (companion_mode inp) (ro_bpp_x16 out) p"
      "unat (chunk_size p) \<le> 65536" "pps_decode (plan_bytes (ro_pps out)) = pps_view (packed p)"
    note chk = *(6,3,4)
    show ?thesis
      unfolding Inr sum.case
      using dsc_check_tiles [OF chk] dsc_check_limits [OF chk] dsc_check_link [OF chk *(5)] plan_flatness [OF chk *(2)]
        plan_decodes [OF chk *(9,10)] plan_bpp [OF chk] *(1,7,8)
      by (intro conjI exI [of _ inp] exI [of _ p]) simp_all
  qed
qed

subsection \<open>Capabilities reach the generator unchanged\<close>

lemma bit_fold_marks:
  fixes f :: "'c \<times> 'd \<Rightarrow> nat"
  shows "bit (foldl (\<lambda>mask x. if Q x then mask OR push_bit (f x) 1 else mask) (m :: NvU32) xs) j \<longleftrightarrow>
     bit m j \<or> j < 32 \<and> (\<exists>x \<in> set xs. Q x \<and> f x = j)"
  by (induction xs arbitrary: m) (auto simp: bit_simps)

definition count_bits :: "(nat \<times> nat) list" where
  "count_bits = zip dsc_counts [0..<11]"

lemma count_bits_facts:
  "\<forall>x \<in> set count_bits. fst x < 32 \<and> snd x < 16"
  "\<forall>x \<in> set count_bits. \<forall>y \<in> set count_bits. fst x = fst y \<and> fst x \<noteq> 0 \<longrightarrow> snd x = snd y"
  "\<forall>j \<in> set [0..<32]. bit (0x7FB :: NvU32) j \<longleftrightarrow> (\<exists>x \<in> set count_bits. fst x \<noteq> 0 \<and> snd x = j)"
  by code_simp+

lemma bit_sink_slice_mask:
  "bit (sink_slice_mask raw) j \<longleftrightarrow> (\<exists>x \<in> set count_bits. fst x \<noteq> 0 \<and> bit raw (snd x) \<and> fst x = j)"
proof -
  have "bit (sink_slice_mask raw) j \<longleftrightarrow> j < 32 \<and> (\<exists>x \<in> set count_bits. (fst x \<noteq> 0 \<and> raw AND push_bit (snd x) 1 \<noteq> 0) \<and> fst x = j)"
    unfolding sink_slice_mask_def count_bits_def [symmetric] case_prod_unfold bit_fold_marks by simp
  then show ?thesis using count_bits_facts(1) bit_test_push [where m = raw] by fastforce
qed

lemma bit_dsc_slice_mask:
  "bit (dsc_slice_mask m) j \<longleftrightarrow> (\<exists>x \<in> set count_bits. fst x \<noteq> 0 \<and> bit m (fst x) \<and> snd x = j)"
proof -
  have "bit (dsc_slice_mask m) j \<longleftrightarrow> j < 32 \<and> (\<exists>x \<in> set count_bits. (fst x \<noteq> 0 \<and> m AND push_bit (fst x) 1 \<noteq> 0) \<and> snd x = j)"
    unfolding dsc_slice_mask_def count_bits_def [symmetric] case_prod_unfold bit_fold_marks by simp
  then show ?thesis using count_bits_facts(1) bit_test_push [where m = m] by fastforce
qed

text \<open>
  C32: What the sink advertises is what the generator sees. The slice counts read from the sink's DPCD
  bytes, carried through the driver as a set of counts and turned back into a DPCD mask, are the advertised
  bits without the reserved one; and the DPCD code of the throughput, carried as a clock, comes back as the
  code it was, for every code that is not reserved.
\<close>

theorem capabilities_round_trip:
  "dsc_slice_mask (sink_slice_mask raw) = ucast raw AND 0x7FB \<and>
   throughput_code (sink_slice_clock (code AND 15)) = (if code AND 15 = 0 then None else Some (ucast (code AND 15)))"
proof
  show "dsc_slice_mask (sink_slice_mask raw) = ucast raw AND 0x7FB"
  proof (rule bit_word_eqI)
    fix j assume "j < LENGTH(32)"
    then have "j \<in> set [0..<32]" by simp
    note m = count_bits_facts(3) [rule_format, OF this]
    have "bit (dsc_slice_mask (sink_slice_mask raw)) j \<longleftrightarrow> (\<exists>x \<in> set count_bits. fst x \<noteq> 0 \<and> bit raw (snd x) \<and> snd x = j)"
      unfolding bit_dsc_slice_mask bit_sink_slice_mask using count_bits_facts(2) by metis
    also have "\<dots> \<longleftrightarrow> bit (ucast raw AND 0x7FB :: NvU32) j"
      using m \<open>j < LENGTH(32)\<close> by (auto simp: bit_and_iff bit_unsigned_iff)
    finally show "bit (dsc_slice_mask (sink_slice_mask raw)) j \<longleftrightarrow> bit (ucast raw AND 0x7FB :: NvU32) j" .
  qed
  have "\<forall>t \<in> set [0..<16]. throughput_code (sink_slice_clock (of_nat t)) = (if t = 0 then None else Some (of_nat t))"
    by code_simp
  moreover have "unat (code AND 15) < 16"
  proof -
    have "code AND 15 = take_bit 4 code" by (simp add: take_bit_eq_mask mask_eq_exp_minus_1)
    then show ?thesis using take_bit_nat_less_exp [of 4 "unat code"] by (simp add: unsigned_take_bit_eq)
  qed
  ultimately show "throughput_code (sink_slice_clock (code AND 15)) =
      (if code AND 15 = 0 then None else Some (ucast (code AND 15)))"
    by (auto dest!: bspec [of _ _ "unat (code AND 15)"] simp: unat_eq_zero_iff)
qed

text \<open>
  C40: The decoding of a sink's capability bytes stops the driver. A sink that advertises compression and a
  maximum slice width of 205 or more units of 320 pixels makes the checked 16-bit product overflow;
  every other sink is decoded.
\<close>

theorem sink_decode_overflow:
  "DscSink_decode data = None \<longleftrightarrow> bit (data ! 0) 0 \<and> 205 \<le> unat (data ! 12)"
proof -
  have "data ! 0 AND 1 \<noteq> 0 \<longleftrightarrow> bit (data ! 0) 0" by (simp add: and_one_eq bit_0 odd_iff_mod_2_eq_one)
  then show ?thesis by (auto simp: DscSink_decode_def no_sink_def Let_def)
qed

subsection \<open>Decoded capabilities are in range\<close>

lemma powerStep_bit: "n \<le> 4 \<Longrightarrow> powerStep (ucast (push_bit n 1 :: NvU8))"
proof -
  assume "n \<le> 4"
  moreover have "\<forall>n \<in> set [0..<5]. powerStep (ucast (push_bit n 1 :: NvU8))" by code_simp
  ultimately show ?thesis by simp
qed

text \<open>
  A usable sink or encoder that was decoded passes the range checks of the admission, save for the encoder's
  line buffer and slice count, which the decoder takes as they are.
\<close>

lemma decoded_sink_in_range:
  assumes "DscSink_decode data = Some sink" "snk_usable sink"
  shows "powerStep (ucast (snk_bpp_increment_x16 sink))" "8 \<le> snk_line_buffer_bits sink" "snk_line_buffer_bits sink \<le> 16"
    "snk_max_slice_width sink \<noteq> 0" "snk_slice_mask sink \<noteq> 0" "snk_version_major sink = 1"
    "snk_version_minor sink = 1 \<or> snk_version_minor sink = 2" "snk_formats sink AND 1 \<noteq> 0"
proof -
  let ?depth = "data ! 5 AND 15" and ?inc = "data ! 15 AND 7"
  have a: "snk_advertised sink"
    using assms by (auto simp: DscSink_decode_def no_sink_def Let_def split: if_split_asm)
  have u: "snk_line_buffer_bits sink = (if ?depth < 8 then ?depth + 9 else if ?depth = 8 then 8 else 0)"
    "snk_bpp_increment_x16 sink = (if ?inc \<le> 4 then push_bit (unat ?inc) 1 else 0)"
    "snk_line_buffer_bits sink \<noteq> 0" "snk_bpp_increment_x16 sink \<noteq> 0" "snk_max_slice_width sink \<ge> 320"
    "snk_slice_mask sink \<noteq> 0" "snk_version_major sink = 1" "snk_version_minor sink = 1 \<or> snk_version_minor sink = 2"
    "snk_formats sink AND 1 \<noteq> 0"
    using assms a unfolding DscSink_decode_def no_sink_def Let_def
    by (simp_all only: DscSink.simps split: if_split_asm) auto
  show "powerStep (ucast (snk_bpp_increment_x16 sink))"
    using u(2,4) powerStep_bit [of "unat ?inc"] by (simp add: word_le_nat_alt split: if_split_asm)
  have "unat (?depth + 9) = unat ?depth + 9" if "?depth < 8"
    using that by (subst unat_add_nowrap) (simp_all add: word_less_nat_alt)
  then show "8 \<le> snk_line_buffer_bits sink" "snk_line_buffer_bits sink \<le> 16"
    using u(1,3) by (auto simp: word_le_nat_alt word_less_nat_alt split: if_split_asm)
  show "snk_max_slice_width sink \<noteq> 0" using u(5) by (auto simp: word_le_nat_alt)
qed (use assms in \<open>auto simp: DscSink_decode_def no_sink_def Let_def split: if_split_asm\<close>)

lemma decoded_source_in_range:
  assumes "DscSource_decode data = Some source" "src_usable source"
  shows "powerStep (ucast (src_bpp_increment_x16 source))" "src_line_buffer_pixels source \<noteq> 0"
    "src_line_buffer_pixels source mod 1024 = 0" "src_max_slices source \<noteq> 0" "8 \<le> src_line_buffer_bits source"
    "src_line_buffer_bits source \<le> 16" "src_formats source AND 1 \<noteq> 0"
proof -
  have u: "src_bpp_increment_x16 source =
      (if caps_word data 16 \<ge> 1 \<and> caps_word data 16 \<le> 5 then push_bit (unat (caps_word data 16 - 1)) 1 else 0)"
    "src_line_buffer_pixels source = ucast (caps_word data 8) * 1024"
    "src_bpp_increment_x16 source \<noteq> 0" "src_line_buffer_pixels source \<noteq> 0" "src_max_slices source \<noteq> 0"
    "8 \<le> src_line_buffer_bits source" "src_line_buffer_bits source \<le> 16" "src_formats source AND 1 \<noteq> 0"
    using assms unfolding DscSource_decode_def Let_def
    by (simp_all only: no_source_def DscSource.simps split: if_split_asm) auto
  show "powerStep (ucast (src_bpp_increment_x16 source))"
    using u(1,3) powerStep_bit [of "unat (caps_word data 16 - 1)"]
    by (auto simp: word_le_nat_alt unat_sub_nowrap split: if_split_asm)
  have "unat (ucast (caps_word data 8) * 1024 :: NvU64) = unat (caps_word data 8) * 1024"
    using unat_lt_2p32 [of "caps_word data 8"] by (subst unat_mult_nowrap) (simp_all add: unat_ucast_NvU32)
  then show "src_line_buffer_pixels source mod 1024 = 0"
    unfolding u(2) by (simp add: unat_eq_zero_iff [symmetric])
qed (use assms in \<open>auto simp: DscSource_decode_def no_source_def Let_def split: if_split_asm\<close>)

subsection \<open>The driver's checks of the header\<close>

lemma nibbles: "push_bit 4 (drop_bit 4 x) OR take_bit 4 x = (x :: NvU32)"
  by (rule bit_word_eqI) (auto simp: bit_simps)

lemma generated_fields:
  assumes "dsc_prepare lk r = Inr inp" "generated (companion_caps inp) (companion_mode inp) bpp p"
  shows "dsc_version_major p = 1" "dsc_version_minor p = (if rq_transport r = Hdmi then 2 else ucast (snk_version_minor (rq_sink r)))"
    "bits_per_component p = ucast (rq_bpc r)" "bits_per_pixel p = bpp" "pic_height p = rq_height r" "pic_width p = rq_width r"
    "block_pred_enable p = (if snk_block_prediction (rq_sink r) then 1 else 0)" "convert_rgb p = 1" "vbr_enable p = 0"
    "simple_422 p = 0" "native_420 p = 0" "native_422 p = 0"
proof -
  obtain pclk t where inp: "inp = dsc_input r pclk t" by (rule dsc_prepare_Inr [OF assms(1)])
  obtain i where i: "request_fields (companion_caps inp) (companion_mode inp) i" "pps_ok i p" "in_bits_per_pixel i = bpp"
    "format_flags (companion_caps inp) (companion_mode inp) i"
    using assms(2) by (auto simp: generated_def)
  have b: "base_ok i p" "bits_per_pixel p = (if in_drop_mode i \<noteq> 0 then 256 else in_bits_per_pixel i)"
    using i(2) by (simp_all add: pps_ok_def)
  have f: "in_dsc_version_minor i = (if rq_transport r = Hdmi then 2 else ucast (snk_version_minor (rq_sink r)))"
    "in_bits_per_component i = ucast (rq_bpc r)" "in_pic_width i = rq_width r" "in_pic_height i = rq_height r" "in_drop_mode i = 0"
    using i(1) unfolding request_fields_def inp
    by (cases "rq_transport r"; simp add: companion_caps_def companion_mode_def dsc_input_def Let_def)+
  have g: "in_block_pred_enable i = (if snk_block_prediction (rq_sink r) then 1 else 0)" "in_convert_rgb i \<noteq> 0"
    "in_simple_422 i = 0" "in_native_420 i = 0" "in_native_422 i = 0"
    using i(4) unfolding format_flags_def inp
    by (simp_all add: companion_caps_def companion_mode_def dsc_input_def Let_def)
  show "dsc_version_major p = 1" "dsc_version_minor p = (if rq_transport r = Hdmi then 2 else ucast (snk_version_minor (rq_sink r)))"
    "bits_per_component p = ucast (rq_bpc r)" "bits_per_pixel p = bpp" "pic_height p = rq_height r" "pic_width p = rq_width r"
    "block_pred_enable p = (if snk_block_prediction (rq_sink r) then 1 else 0)" "convert_rgb p = 1" "vbr_enable p = 0"
    "simple_422 p = 0" "native_420 p = 0" "native_422 p = 0"
    using b f g i(3) unfolding base_ok_def by simp_all
qed

text \<open>The flags of the fifth byte and the native formats of the last, from the fields they decode to.\<close>

lemma flag_bits:
  fixes x :: NvU32
  assumes "take_bit 1 (drop_bit 4 x) = 1" "take_bit 1 (drop_bit 3 x) = 0" "take_bit 1 (drop_bit 2 x) = 0"
  shows "x AND 0x1c = 0x10"
proof -
  have b: "bit x 4" "\<not> bit x 3" "\<not> bit x 2"
    using arg_cong [OF assms(1), of "\<lambda>w. bit w 0"] arg_cong [OF assms(2), of "\<lambda>w. bit w 0"] arg_cong [OF assms(3), of "\<lambda>w. bit w 0"]
    by (simp_all add: bit_iff_odd_drop_bit)
  have m: "\<forall>n \<in> set [0..<32]. (bit (0x1c :: NvU32) n \<longleftrightarrow> n = 2 \<or> n = 3 \<or> n = 4) \<and> (bit (0x10 :: NvU32) n \<longleftrightarrow> n = 4)"
    by code_simp
  show ?thesis
  proof (rule bit_word_eqI)
    fix n assume "n < LENGTH(32)"
    then have "bit (0x1c :: NvU32) n \<longleftrightarrow> n = 2 \<or> n = 3 \<or> n = 4" "bit (0x10 :: NvU32) n \<longleftrightarrow> n = 4" using m by simp_all
    then show "bit (x AND 0x1c) n \<longleftrightarrow> bit (0x10 :: NvU32) n" using b by (auto simp: bit_and_iff)
  qed
qed

lemma header_bits:
  assumes "pps_decode B = pps_view q"
  shows "dsc_version_major q = 1 \<Longrightarrow> B ! 0 = 0x10 OR dsc_version_minor q" "drop_bit 4 (B ! 3) = bits_per_component q"
    "convert_rgb q = 1 \<Longrightarrow> simple_422 q = 0 \<Longrightarrow> vbr_enable q = 0 \<Longrightarrow> B ! 4 AND 0x1c = 0x10"
    "native_420 q = 0 \<Longrightarrow> native_422 q = 0 \<Longrightarrow> B ! 88 = 0" "push_bit 8 (B ! 4 AND 3) OR B ! 5 = bits_per_pixel q"
    "be B 6 = pic_height q" "be B 8 = pic_width q" "B ! 4 AND 0x20 \<noteq> 0 \<longleftrightarrow> bit (block_pred_enable q) 0"
proof -
  have d: "drop_bit 4 (B ! 0) = dsc_version_major q" "take_bit 4 (B ! 0) = dsc_version_minor q"
    "drop_bit 4 (B ! 3) = bits_per_component q" "drop_bit 5 (B ! 4) = block_pred_enable q"
    "take_bit 1 (drop_bit 4 (B ! 4)) = convert_rgb q" "take_bit 1 (drop_bit 3 (B ! 4)) = simple_422 q"
    "take_bit 1 (drop_bit 2 (B ! 4)) = vbr_enable q" "push_bit 8 (take_bit 2 (B ! 4)) OR B ! 5 = bits_per_pixel q"
    "be B 6 = pic_height q" "be B 8 = pic_width q" "drop_bit 1 (B ! 88) = native_420 q" "take_bit 1 (B ! 88) = native_422 q"
    using arg_cong [OF assms, of dsc_version_major] arg_cong [OF assms, of dsc_version_minor] arg_cong [OF assms, of bits_per_component]
      arg_cong [OF assms, of block_pred_enable] arg_cong [OF assms, of convert_rgb] arg_cong [OF assms, of simple_422]
      arg_cong [OF assms, of vbr_enable] arg_cong [OF assms, of bits_per_pixel] arg_cong [OF assms, of pic_height]
      arg_cong [OF assms, of pic_width] arg_cong [OF assms, of native_420] arg_cong [OF assms, of native_422]
    by (simp_all add: pps_decode_def pps_view_def del: One_nat_def)
  show "B ! 0 = 0x10 OR dsc_version_minor q" if "dsc_version_major q = 1"
  proof -
    have "B ! 0 = push_bit 4 1 OR dsc_version_minor q" using nibbles [of "B ! 0"] d(1,2) that by simp
    then show ?thesis by simp
  qed
  show "drop_bit 4 (B ! 3) = bits_per_component q" "be B 6 = pic_height q" "be B 8 = pic_width q" by (fact d)+
  show "B ! 4 AND 0x1c = 0x10" if "convert_rgb q = 1" "simple_422 q = 0" "vbr_enable q = 0"
    using flag_bits [of "B ! 4"] d(5-7) that by simp
  show "B ! 88 = 0" if "native_420 q = 0" "native_422 q = 0"
  proof -
    have "\<not> bit (B ! 88) n" for n
    proof (cases n)
      case 0
      then show ?thesis using d(12) that(2) by (simp add: bit_iff_odd even_iff_mod_2_eq_zero)
    next
      case (Suc m)
      have "bit (drop_bit 1 (B ! 88)) m \<longleftrightarrow> bit (B ! 88) n" using Suc by (simp add: bit_drop_bit_eq)
      then show ?thesis using d(11) that(1) by simp
    qed
    then show ?thesis by (intro bit_word_eqI) simp
  qed
  show "push_bit 8 (B ! 4 AND 3) OR B ! 5 = bits_per_pixel q" unfolding and_masks by (fact d)
  have "B ! 4 AND 0x20 \<noteq> 0 \<longleftrightarrow> bit (B ! 4) 5" using bit_test_push [of 5 "B ! 4"] by simp
  also have "\<dots> \<longleftrightarrow> bit (block_pred_enable q) 0" by (simp add: bit_drop_bit_eq flip: d(4) del: bit_0)
  finally show "B ! 4 AND 0x20 \<noteq> 0 \<longleftrightarrow> bit (block_pred_enable q) 0" .
qed

text \<open>
  A generation that succeeds has passed validation, which refuses a forced revision above the sink's: for
  HDMI, where the companion forces 1.2, the sink has it.
\<close>

lemma companion_validated:
  assumes "r4os_dsc_generate (Some inp) (Some out0) = Some (NVT_STATUS_SUCCESS, out)"
  shows "validateInput (companion_caps inp) (companion_mode inp) (Some (companion_war inp)) (ri_payload_bps inp) = NVT_STATUS_SUCCESS"
  using assms
  by (cases "validateInput (companion_caps inp) (companion_mode inp) (Some (companion_war inp)) (ri_payload_bps inp)")
    (auto simp: r4os_dsc_generate_def DSC_GeneratePPS_def Let_def split: if_split_asm)

lemma hdmi_revision:
  assumes "r4os_dsc_generate (Some inp) (Some out0) = Some (NVT_STATUS_SUCCESS, out)" "ri_transport inp = 2"
  shows "2 \<le> ri_revision_minor inp"
  using validateInput_success(2) [OF companion_validated [OF assms(1)]] assms(2)
  by (auto simp: validate_forced_def companion_caps_def Let_def split: if_split_asm)

text \<open>
  C5: The generator keeps to the request. Whenever the companion succeeds on an admitted request, the driver's
  check of the header, with the version, the component depth, the colour format, the rate, the picture size
  and the block prediction it reads back from the bytes, accepts what was generated; and on HDMI, where the
  companion forces revision 1.2, the sink has that revision.
\<close>

theorem generated_header:
  assumes "links_ok lk" "dsc_prepare lk r = Inr inp"
    "r4os_dsc_generate (Some inp) (Some blank_output) = Some (NVT_STATUS_SUCCESS, Some out)"
  shows "plan_header_ok r (plan_bytes (ro_pps out)) (ro_bpp_x16 out) \<and>
    (rq_transport r \<noteq> Hdmi \<or> snk_version_minor (rq_sink r) = 2)"
proof -
  obtain p where p: "generated (companion_caps inp) (companion_mode inp) (ro_bpp_x16 out) p"
    "pps_decode (plan_bytes (ro_pps out)) = pps_view (packed p)"
    using companion_returns [OF prepared_admitted [OF assms(2,1)], of blank_output] assms(3) by auto
  have minor: "snk_version_minor (rq_sink r) = 1 \<or> snk_version_minor (rq_sink r) = 2"
    by (rule dsc_prepare_Inr [OF assms(2)]) (simp add: request_supported_def Let_def)
  obtain pclk t where "inp = dsc_input r pclk t" by (rule dsc_prepare_Inr [OF assms(2)])
  then have hdmi: "rq_transport r \<noteq> Hdmi \<or> snk_version_minor (rq_sink r) = 2"
    using hdmi_revision [OF assms(3)] minor by (auto simp: dsc_input_def Let_def word_le_nat_alt)
  note f = generated_fields [OF assms(2) p(1)] and h = header_bits [OF p(2)]
  have q: "block_pred_enable (packed p) = block_pred_enable p" "convert_rgb (packed p) = convert_rgb p" "vbr_enable (packed p) = vbr_enable p"
    "simple_422 (packed p) = simple_422 p" "native_420 (packed p) = native_420 p" "native_422 (packed p) = native_422 p"
    by (simp_all add: packed_def)
  show ?thesis
    unfolding plan_header_ok_def
    using h f minor hdmi by (auto simp: packed_fields q simp del: bit_0)
qed

subsection \<open>The request of the driver's test\<close>

text \<open>A link package that computes as documented.\<close>

definition sample_links :: links_package where
  "sample_links =
     \<lparr>lk_ceilHz = (\<lambda>c. if lc_denominator c = 0 then None
        else Some (of_nat ((unat (lc_numerator c) + unat (lc_denominator c) - 1) div unat (lc_denominator c)))),
      lk_dp8b10bPayload = (\<lambda>rate lanes. Some (ucast rate * ucast lanes * 216000000)),
      lk_fits = (\<lambda>c bpp payload. unat bpp * unat (lc_numerator c) \<le> 16 * unat payload * unat (lc_denominator c))\<rparr>"

lemma sample_links_ok: "links_ok sample_links"
proof -
  have "unat (ucast (rate :: NvU8) * ucast (lanes :: NvU8) * 216000000 :: NvU64) * 976 < 2 ^ 64" for rate lanes
  proof -
    have b: "unat (ucast x :: NvU64) \<le> 255" for x :: NvU8
      using unsigned_less [of x, where 'a = nat] by (simp add: unsigned_ucast_eq take_bit_nat_eq_self)
    have "unat (ucast rate * ucast lanes :: NvU64) \<le> 255 * 255"
      using unat_mult_le [of "ucast rate :: NvU64" "ucast lanes"] mult_le_mono [OF b [of rate] b [of lanes]] by linarith
    then show ?thesis using unat_mult_le [of "ucast rate * ucast lanes :: NvU64" 216000000] by simp
  qed
  then show ?thesis by (simp add: links_ok_def sample_links_def)
qed

text \<open>The sink's 16 capability bytes and what they say.\<close>

definition test_sink :: DscSink where
  "test_sink =
     \<lparr>snk_raw = [1, 0x21, 0, 7, 0x2b, 1, 1, 0, 0, 1, 6, 2, 8, 1, 0, 0], snk_advertised = True, snk_usable = True,
      snk_version_major = 1, snk_version_minor = 2, snk_rc_buffer_bytes = 8192, snk_slice_mask = 0x10116,
      snk_line_buffer_bits = 10, snk_block_prediction = True, snk_max_bpp_x16 = 0, snk_formats = 1, snk_bpc_mask = 3,
      snk_slice_clock_mhz = 400, snk_max_slice_width = 2560, snk_bpp_increment_x16 = 1\<rparr>"

lemma test_sink_decoded: "DscSink_decode [1, 0x21, 0, 7, 0x2b, 1, 1, 0, 0, 1, 6, 2, 8, 1, 0, 0] = Some test_sink"
  by (simp add: DscSink_decode_def no_sink_def sink_slice_mask_def dsc_counts_def upt_rec sink_slice_clock_def test_sink_def)

definition dp_test :: dsc_request where
  "dp_test =
     \<lparr>rq_clock = \<lparr>lc_numerator = 1188000000, lc_denominator = 1\<rparr>, rq_width = 3840, rq_height = 2160, rq_bpc = 10,
      rq_hblank = 560,
      rq_source = \<lparr>src_advertised = True, src_usable = True, src_formats = 1, src_line_buffer_pixels = 65536,
        src_rate_buffer_bytes = 8192, src_bpp_increment_x16 = 1, src_max_slices = 8, src_line_buffer_bits = 12\<rparr>,
      rq_sink = (case DscSink_decode [1, 0x21, 0, 7, 0x2b, 1, 1, 0, 0, 1, 6, 2, 8, 1, 0, 0] of Some sink \<Rightarrow> sink | None \<Rightarrow> no_sink []),
      rq_payload_bps = 25297920000, rq_transport = Dp_sst, rq_rate = 30, rq_lanes = 4, rq_forced_bpp_x16 = 0,
      rq_forced_slice_width = 0\<rparr>"

lemmas dp_test_eq = dp_test_def [unfolded test_sink_decoded option.case]

lemma dp_test_range: "request_in_range dp_test" "rq_payload_bps dp_test \<le> 64000000000"
  by (simp_all add: request_in_range_def powerStep_def dp_test_eq test_sink_def upt_rec)

lemma dp_test_prepared: "dsc_prepare sample_links dp_test = Inr dp_request"
proof -
  have "request_supported dp_test"
    by (simp add: request_supported_def dp_test_eq test_sink_def)
  moreover note dp_test_range(1)
  moreover have "forced_in_range dp_test" by (simp add: forced_in_range_def dp_test_eq)
  moreover have "dsc_slice_mask (snk_slice_mask test_sink) = 0x12B"
    by (simp add: dsc_slice_mask_def dsc_counts_def upt_rec test_sink_def)
  ultimately show ?thesis
    by (simp add: dsc_prepare_plain sample_links_def fecPayload_def throughput_code_def dsc_input_def dp_request_def)
      (simp add: dp_test_eq test_sink_def)
qed

lemma dp_test_checked:
  "dsc_check sample_links dp_test \<lparr>ro_pps =
       [0xaa000012, 0x70080031, 0x7008000f, 0x8007c003, 0xac020001, 0xbf910a00, 0xf00a000, 0x13000f00,
        0xf0100008, 0x201007, 0x330f0f06, 0x382a1c0e, 0x69625446, 0x7b797770, 0x8a007e7d, 0x46190811,
        0x82218421, 0xfe29c029, 0x7a323c32, 0x763a7832, 0xb442b642, 0x345bf452,
        0, 0, 0, 0, 0, 0, 0, 0, 0, 0], ro_bpp_x16 = 256\<rparr> =
     Inr \<lparr>pl_pps =
       [0xaa000012, 0x70080031, 0x7008000f, 0x8007c003, 0xac020001, 0xbf910a00, 0xf00a000, 0x13000f00,
        0xf0100008, 0x201007, 0x330f0f06, 0x382a1c0e, 0x69625446, 0x7b797770, 0x8a007e7d, 0x46190811,
        0x82218421, 0xfe29c029, 0x7a323c32, 0x763a7832, 0xb442b642, 0x345bf452,
        0, 0, 0, 0, 0, 0, 0, 0, 0, 0],
       pl_bpp_x16 = 256, pl_slices = 4, pl_slice_width = 960, pl_slice_height = 2160, pl_chunk_bytes = 1920,
       pl_rc_buffer_bytes = 1024\<rparr>"
  unfolding dsc_check_plain [OF dp_test_range]
  by (simp add: plan_header_ok_def plan_of_def plan_sizes_ok_def plan_slice_count_def plan_slices_ok_def
      plan_bandwidth_ok_def max_step_def plan_bytes_def little_endian_def be_def sample_links_def dp_test_eq test_sink_def)

lemma dp_test_plan:
  "dsc_generate sample_links dp_test =
     Inr \<lparr>pl_pps =
       [0xaa000012, 0x70080031, 0x7008000f, 0x8007c003, 0xac020001, 0xbf910a00, 0xf00a000, 0x13000f00,
        0xf0100008, 0x201007, 0x330f0f06, 0x382a1c0e, 0x69625446, 0x7b797770, 0x8a007e7d, 0x46190811,
        0x82218421, 0xfe29c029, 0x7a323c32, 0x763a7832, 0xb442b642, 0x345bf452,
        0, 0, 0, 0, 0, 0, 0, 0, 0, 0],
       pl_bpp_x16 = 256, pl_slices = 4, pl_slice_width = 960, pl_slice_height = 2160, pl_chunk_bytes = 1920,
       pl_rc_buffer_bytes = 1024\<rparr>"
  unfolding dsc_generate_def dp_test_prepared dp_request_pps sum.case option.case prod.case
  by (simp only: dp_test_checked simp_thms if_False)

theorem dsc_generate_sound_witness:
  "\<exists>plan. dsc_generate sample_links dp_test = Inr plan \<and> plan_tiles dp_test plan \<and> plan_in_sink dp_test plan \<and>
     plan_in_encoder dp_test plan \<and> plan_on_link sample_links dp_test plan \<and> length (pl_pps plan) = 32"
  using dsc_generate_sound [OF sample_links_ok, of dp_test] unfolding dp_test_plan sum.case by blast

theorem generated_header_witness:
  "plan_header_ok dp_test
     (plan_bytes [0xaa000012, 0x70080031, 0x7008000f, 0x8007c003, 0xac020001, 0xbf910a00, 0xf00a000, 0x13000f00,
        0xf0100008, 0x201007, 0x330f0f06, 0x382a1c0e, 0x69625446, 0x7b797770, 0x8a007e7d, 0x46190811,
        0x82218421, 0xfe29c029, 0x7a323c32, 0x763a7832, 0xb442b642, 0x345bf452,
        0, 0, 0, 0, 0, 0, 0, 0, 0, 0]) 256"
  using generated_header [OF sample_links_ok dp_test_prepared dp_request_pps] unfolding R4OS_DSC_OUTPUT.simps
  by (simp add: dp_test_def)

end
