(* ===== verification/Dsc_Search.thy ===== *)
theory Dsc_Search
  imports Dsc_Generate
begin

text \<open>
  The second entry point of \<^verbatim>\<open>nvt_dsc_pps.c\<close>, \<open>DSC_GeneratePPSWithSliceCountMask\<close>: the candidate slice counts,
  one generation per candidate, and the mask of those that work.
\<close>

section \<open>Generation with the mask of usable slice counts\<close>

text \<open>
  One pass over the candidate slice counts. The accumulator is the status of the last attempt, the
  mask of counts that worked and the smallest of them (0 while there is none).
\<close>

fun slice_try_loop ::
  "NvU32 list \<Rightarrow> (NvU32 \<Rightarrow> pps_result option) \<Rightarrow> NvU32 \<Rightarrow> NVT_STATUS \<Rightarrow> NvU32 \<Rightarrow> NvU32
     \<Rightarrow> (NVT_STATUS \<times> NvU32 \<times> NvU32) option" where
  "slice_try_loop [] attempt possible status valid minOut = Some (status, valid, minOut)"
| "slice_try_loop (n # ns) attempt possible status valid minOut =
     (if possible AND DSC_SliceCountMaskforSliceNum n \<noteq> 0 then do {
        (status, _) \<leftarrow> attempt n;
        if status = NVT_STATUS_SUCCESS
        then slice_try_loop ns attempt possible status (valid OR NVBIT32 (n - 1))
               (if minOut = 0 \<or> minOut > n then n else minOut)
        else slice_try_loop ns attempt possible status valid minOut
      }
      else slice_try_loop ns attempt possible status valid minOut)"

definition force_slice_count :: "DSC_INFO \<Rightarrow> NvU32 \<Rightarrow> DSC_INFO" where
  "force_slice_count info n =
     info\<lparr>forcedDscParams := (forcedDscParams info)\<lparr>forced_sliceCount := n\<rparr>\<rparr>"

text \<open>
  The function dereferences its arguments without a null check; a null one it reaches is undefined
  behaviour. The result adds \<^verbatim>\<open>*pSliceCountMask\<close>, which is written on success of the search only.
\<close>

type_synonym mask_result = "NVT_STATUS \<times> NvU32 list option \<times> NvU32 option \<times> NvU32 option"

definition search_slice_counts ::
  "DSC_INFO \<Rightarrow> MODESET_INFO \<Rightarrow> WAR_DATA option \<Rightarrow> NvU64 \<Rightarrow> NvU32 list option \<Rightarrow> NvU32 option
     \<Rightarrow> NvU32 option \<Rightarrow> NvU32 \<Rightarrow> mask_result option" where
  "search_slice_counts info mode pWARData bw pps pBpp pMask possible = do {
     userBpp \<leftarrow> pBpp;
     (status, valid, minOut) \<leftarrow>
       slice_try_loop validSliceNum
         (\<lambda>n. DSC_GeneratePPS (Some (force_slice_count info n)) (Some mode) pWARData bw
                (Some \<lparr>wa_in = zero_input, wa_out = zero_output\<rparr>) None (Some userBpp))
         possible NVT_STATUS_SUCCESS 0 0;
     (status, pps, pBpp) \<leftarrow>
       (if minOut \<noteq> 0
        then DSC_GeneratePPS (Some (force_slice_count info minOut)) (Some mode) pWARData bw
               (Some \<lparr>wa_in = zero_input, wa_out = zero_output\<rparr>) pps pBpp
        else Some (status, pps, pBpp));
     if minOut \<noteq> 0 \<and> status \<noteq> NVT_STATUS_SUCCESS then Some (status, pps, pBpp, pMask)
     else if valid = 0 then Some (status, pps, pBpp, pMask)
     else do {
       _ \<leftarrow> pMask;
       Some (NVT_STATUS_SUCCESS, pps, pBpp, Some valid)
     }
   }"

definition DSC_GeneratePPSWithSliceCountMask ::
  "DSC_INFO option \<Rightarrow> MODESET_INFO option \<Rightarrow> WAR_DATA option \<Rightarrow> NvU64
     \<Rightarrow> NvU32 list option \<Rightarrow> NvU32 option \<Rightarrow> NvU32 option \<Rightarrow> mask_result option" where
  "DSC_GeneratePPSWithSliceCountMask pDscInfo pModesetInfo pWARData bw pps pBpp pMask = do {
     info \<leftarrow> pDscInfo;
     if forced_sliceWidth (forcedDscParams info) \<noteq> 0 \<or> forced_sliceCount (forcedDscParams info) \<noteq> 0
     then do {
       (status, pps, pBpp) \<leftarrow> DSC_GeneratePPS pDscInfo pModesetInfo pWARData bw
         (Some \<lparr>wa_in = zero_input, wa_out = zero_output\<rparr>) pps pBpp;
       Some (status, pps, pBpp, pMask)
     }
     else do {
       mode \<leftarrow> pModesetInfo;
       let sink = sinkCaps info;
       let gpu = gpuCaps info;
       let maxSliceCount = C_MIN (maxNumHztSlices sink)
             (if bDualMode mode \<noteq> 0 then 8 else gpu_maxNumHztSlices gpu);
       let maxWidth = C_MIN (maxSliceWidth sink) (lineBufferSize gpu * 1024);
       let gpuSliceCountMask = DSC_GetSliceCountMask maxSliceCount NV_TRUE;
       let gpuSliceCountMask = (if bDualMode mode \<noteq> 0 then gpuSliceCountMask AND NOT 0x11
                                else gpuSliceCountMask);
       let commonSliceCountMask = gpuSliceCountMask AND sliceCountSupportedMask sink;
       let peakThroughPutMps = DSC_GetPeakThroughputMps
             (if (colorFormat mode = NVT_COLOR_FORMAT_YCbCr422 \<and> native_422_possible info) \<or>
                 (colorFormat mode = NVT_COLOR_FORMAT_YCbCr420 \<and> native_420_possible info)
              then peakThroughputMode1 sink else peakThroughputMode0 sink);
       if commonSliceCountMask = 0 then Some (NVT_STATUS_DSC_SLICE_ERROR, pps, pBpp, pMask)
       else if peakThroughPutMps = 0 then Some (NVT_STATUS_INVALID_PEAK_THROUGHPUT, pps, pBpp, pMask)
       else do {
         r \<leftarrow> DSC_GetMinSliceCountForMode (activeWidth mode) (ucast (pixelClockHz mode div 1000000))
                maxWidth peakThroughPutMps maxSliceCount commonSliceCountMask;
         (case r of
            Inl status \<Rightarrow> Some (status, pps, pBpp, pMask)
          | Inr minSliceCount \<Rightarrow> do {
              let rejectSliceCountMask = DSC_GetSliceCountMask minSliceCount NV_FALSE;
              let possibleSliceCountMask = commonSliceCountMask AND NOT rejectSliceCountMask;
              if possibleSliceCountMask = 0 then Some (NVT_STATUS_PPS_SLICE_COUNT_ERROR, pps, pBpp, pMask)
              else search_slice_counts info mode pWARData bw pps pBpp pMask possibleSliceCountMask
            })
       }
     }
   }"



section \<open>The search over slice counts\<close>

definition slice_works :: "(NvU32 \<Rightarrow> pps_result option) \<Rightarrow> NvU32 \<Rightarrow> bool" where
  "slice_works attempt n \<longleftrightarrow> map_option fst (attempt n) = Some NVT_STATUS_SUCCESS"

definition working_counts :: "(NvU32 \<Rightarrow> pps_result option) \<Rightarrow> NvU32 \<Rightarrow> NvU32 list \<Rightarrow> NvU32 list" where
  "working_counts attempt possible ns =
     filter (\<lambda>n. possible AND DSC_SliceCountMaskforSliceNum n \<noteq> 0 \<and> slice_works attempt n) ns"

lemma working_counts_Cons:
  "working_counts attempt possible (n # ns) =
     (if possible AND DSC_SliceCountMaskforSliceNum n \<noteq> 0 \<and> slice_works attempt n
      then n # working_counts attempt possible ns else working_counts attempt possible ns)"
  by (simp add: working_counts_def)

lemma slice_try_loop_folds:
  assumes "\<And>n. attempt n \<noteq> None"
  shows "\<exists>st. slice_try_loop ns attempt possible status valid minOut =
    Some (st, foldl (\<lambda>v n. v OR NVBIT32 (n - 1)) valid (working_counts attempt possible ns),
          foldl (\<lambda>m n. if m = 0 \<or> m > n then n else m) minOut (working_counts attempt possible ns)) \<and>
    (working_counts attempt possible ns = [] \<longrightarrow>
       status \<noteq> NVT_STATUS_SUCCESS \<or> (\<exists>n \<in> set ns. possible AND DSC_SliceCountMaskforSliceNum n \<noteq> 0) \<longrightarrow>
       st \<noteq> NVT_STATUS_SUCCESS)"
proof (induction ns arbitrary: status valid minOut)
  case (Cons n ns)
  obtain st p b where a: "attempt n = Some (st, p, b)" using assms [of n] by (metis option.exhaust prod_cases3)
  have works: "slice_works attempt n \<longleftrightarrow> st = NVT_STATUS_SUCCESS" by (simp add: a slice_works_def)
  consider "possible AND DSC_SliceCountMaskforSliceNum n = 0"
    | "possible AND DSC_SliceCountMaskforSliceNum n \<noteq> 0" "st = NVT_STATUS_SUCCESS"
    | "possible AND DSC_SliceCountMaskforSliceNum n \<noteq> 0" "st \<noteq> NVT_STATUS_SUCCESS" by blast
  then show ?case
  proof cases
    case 1 then show ?thesis using Cons [of status valid minOut] by (simp add: working_counts_Cons)
  next
    case 2
    define m where "m = (if minOut = 0 \<or> minOut > n then n else minOut)"
    have step: "slice_try_loop (n # ns) attempt possible status valid minOut =
        slice_try_loop ns attempt possible st (valid OR NVBIT32 (n - 1)) m"
      and w: "working_counts attempt possible (n # ns) = n # working_counts attempt possible ns"
      using 2 by (simp_all add: a m_def working_counts_Cons works)
    show ?thesis
      unfolding step w foldl_Cons m_def [symmetric]
      using Cons [of st "valid OR NVBIT32 (n - 1)" m] by blast
  next
    case 3 then show ?thesis using Cons [of st valid minOut] by (simp add: working_counts_Cons works a)
  qed
qed (simp add: working_counts_def)

lemma bit_foldl_or:
  "bit (foldl (\<lambda>v n. v OR f n) (v :: NvU32) ns) j \<longleftrightarrow> bit v j \<or> (\<exists>n \<in> set ns. bit (f n) j)"
  by (induction ns arbitrary: v) (auto simp: bit_or_iff)

lemma bit_count_mask:
  "n \<in> set validSliceNum \<Longrightarrow> k \<in> set validSliceNum \<Longrightarrow> bit (NVBIT32 (k - 1)) (unat n - 1) \<longleftrightarrow> n = k"
  by (auto simp: validSliceNum_def NVBIT32_def bit_simps)

lemma foldl_min_sorted:
  assumes "sorted ns" "0 \<notin> set ns" "\<forall>n \<in> set ns. m \<le> n" "m \<noteq> (0 :: NvU32)"
  shows "foldl (\<lambda>m n. if m = 0 \<or> m > n then n else m) m ns = m"
  using assms by (induction ns) auto

lemma foldl_min_first:
  assumes "sorted ns" "0 \<notin> set ns"
  shows "foldl (\<lambda>m n. if m = 0 \<or> m > n then n else m) 0 ns = (case ns of [] \<Rightarrow> 0 :: NvU32 | n # _ \<Rightarrow> n)"
  using assms foldl_min_sorted by (cases ns) auto

lemma sorted_validSliceNum: "sorted validSliceNum" "0 \<notin> set validSliceNum"
  by (simp_all add: validSliceNum_def)

lemma working_counts_set:
  "set (working_counts attempt possible validSliceNum) = {n \<in> slice_set possible. slice_works attempt n}"
  by (auto simp: working_counts_def slice_set_def)

text \<open>The outcome of the whole pass: the mask of the counts that work, and the least of them.\<close>

lemma slice_try_loop_outcome:
  assumes "\<And>n. attempt n \<noteq> None"
  obtains st valid minOut where
    "slice_try_loop validSliceNum attempt possible status 0 0 = Some (st, valid, minOut)"
    "\<And>n. n \<in> set validSliceNum \<Longrightarrow> bit valid (unat n - 1) \<longleftrightarrow> n \<in> slice_set possible \<and> slice_works attempt n"
    "valid = 0 \<longleftrightarrow> minOut = 0"
    "minOut \<noteq> 0 \<Longrightarrow> minOut \<in> slice_set possible \<and> slice_works attempt minOut"
    "\<And>n. n \<in> slice_set possible \<Longrightarrow> slice_works attempt n \<Longrightarrow> minOut \<noteq> 0 \<and> minOut \<le> n"
    "minOut = 0 \<Longrightarrow> slice_set possible \<noteq> {} \<Longrightarrow> st \<noteq> NVT_STATUS_SUCCESS"
proof -
  let ?w = "working_counts attempt possible validSliceNum"
  let ?v = "foldl (\<lambda>v n. v OR NVBIT32 (n - 1)) 0 ?w"
  let ?m = "case ?w of [] \<Rightarrow> 0 | n # _ \<Rightarrow> n"
  have srt: "sorted ?w" "0 \<notin> set ?w"
    using sorted_validSliceNum by (auto simp: working_counts_def intro: sorted_wrt_filter)
  obtain st where run: "slice_try_loop validSliceNum attempt possible status 0 0 = Some (st, ?v, ?m)"
    and st: "?w = [] \<Longrightarrow> slice_set possible \<noteq> {} \<Longrightarrow> st \<noteq> NVT_STATUS_SUCCESS"
    using slice_try_loop_folds [of attempt, OF assms, where ns = validSliceNum and possible = possible and status = status and valid = 0 and minOut = 0] foldl_min_first [OF srt]
    by (auto simp: slice_set_def)
  have bits: "bit ?v (unat n - 1) \<longleftrightarrow> n \<in> set ?w" if "n \<in> set validSliceNum" for n
    using that bit_count_mask [OF that] by (auto simp: bit_foldl_or working_counts_def)
  show thesis
  proof (rule that [OF run])
    show "bit ?v (unat n - 1) \<longleftrightarrow> n \<in> slice_set possible \<and> slice_works attempt n" if "n \<in> set validSliceNum" for n
      using bits [OF that] by (simp add: working_counts_set)
    show "?v = 0 \<longleftrightarrow> ?m = 0"
    proof (cases ?w)
      case (Cons n ns)
      have "n \<in> set validSliceNum" using working_counts_set [of attempt possible] Cons by (auto simp: slice_set_def)
      then have "bit ?v (unat n - 1)" using bits Cons by simp
      then have "?v \<noteq> 0" by (metis bit_0_eq bot_apply bot_bool_def)
      then show ?thesis using srt(2) Cons by auto
    qed simp
    show "?m \<noteq> 0 \<Longrightarrow> ?m \<in> slice_set possible \<and> slice_works attempt ?m"
      using working_counts_set [of attempt possible] by (cases ?w) auto
    show "?m \<noteq> 0 \<and> ?m \<le> n" if "n \<in> slice_set possible" "slice_works attempt n" for n
    proof -
      have "n \<in> set ?w" using that by (simp add: working_counts_set)
      then show ?thesis using srt by (cases ?w) auto
    qed
    show "?m = 0 \<Longrightarrow> slice_set possible \<noteq> {} \<Longrightarrow> st \<noteq> NVT_STATUS_SUCCESS"
      using st srt(2) by (cases ?w) auto
  qed
qed

lemma request_bounds_force [simp]:
  "request_bounds (force_slice_count info n) mode war userBpp = request_bounds info mode war userBpp"
  by (simp add: request_bounds_def force_slice_count_def)

text \<open>A count that works, and the mask over all of them.\<close>

definition count_works :: "DSC_INFO \<Rightarrow> MODESET_INFO \<Rightarrow> WAR_DATA option \<Rightarrow> NvU64 \<Rightarrow> NvU32 \<Rightarrow> NvU32 \<Rightarrow> bool" where
  "count_works info mode war bw userBpp n \<longleftrightarrow>
     map_option fst (DSC_GeneratePPS (Some (force_slice_count info n)) (Some mode) war bw
       (Some \<lparr>wa_in = zero_input, wa_out = zero_output\<rparr>) None (Some userBpp)) = Some NVT_STATUS_SUCCESS"

definition mask_ok ::
  "DSC_INFO \<Rightarrow> MODESET_INFO \<Rightarrow> WAR_DATA option \<Rightarrow> NvU64 \<Rightarrow> NvU32 list option \<Rightarrow> NvU32 \<Rightarrow> NvU32 \<Rightarrow> NvU32
     \<Rightarrow> mask_result \<Rightarrow> bool" where
  "mask_ok info mode war bw pps userBpp m0 possible r \<longleftrightarrow>
     (fst r = NVT_STATUS_SUCCESS \<longrightarrow>
       (\<exists>m n. snd (snd (snd r)) = Some m \<and>
          (\<forall>k \<in> set validSliceNum. bit m (unat k - 1) \<longleftrightarrow> k \<in> slice_set possible \<and> count_works info mode war bw userBpp k) \<and>
          n \<in> slice_set possible \<and> count_works info mode war bw userBpp n \<and>
          (\<forall>k \<in> slice_set possible. count_works info mode war bw userBpp k \<longrightarrow> n \<le> k) \<and>
          DSC_GeneratePPS (Some (force_slice_count info n)) (Some mode) war bw
            (Some \<lparr>wa_in = zero_input, wa_out = zero_output\<rparr>) pps (Some userBpp) =
            Some (NVT_STATUS_SUCCESS, fst (snd r), fst (snd (snd r))))) \<and>
     (fst r \<noteq> NVT_STATUS_SUCCESS \<longrightarrow>
        r = (fst r, pps, Some userBpp, Some m0) \<and> (\<forall>k \<in> slice_set possible. \<not> count_works info mode war bw userBpp k))"


lemma search_slice_counts_ok:
  assumes bounds: "request_bounds info mode war userBpp" and ne: "slice_set possible \<noteq> {}"
  shows "returns (search_slice_counts info mode war bw pps (Some userBpp) (Some m0) possible)
    (mask_ok info mode war bw pps userBpp m0 possible)"
proof -
  let ?wa = "\<lparr>wa_in = zero_input, wa_out = zero_output\<rparr>"
  let ?a = "\<lambda>n. DSC_GeneratePPS (Some (force_slice_count info n)) (Some mode) war bw (Some ?wa) None (Some userBpp)"
  have total: "?a n \<noteq> None" for n
    using DSC_GeneratePPS_ok [of "force_slice_count info n" mode war userBpp bw ?wa None] bounds
    by (auto simp: returns_def)
  have works: "slice_works ?a n \<longleftrightarrow> count_works info mode war bw userBpp n" for n
    by (simp add: slice_works_def count_works_def)
  obtain st valid minOut where run: "slice_try_loop validSliceNum ?a possible NVT_STATUS_SUCCESS 0 0 = Some (st, valid, minOut)"
    and bits: "\<And>n. n \<in> set validSliceNum \<Longrightarrow> bit valid (unat n - 1) \<longleftrightarrow> n \<in> slice_set possible \<and> count_works info mode war bw userBpp n"
    and zero: "valid = 0 \<longleftrightarrow> minOut = 0"
    and least: "minOut \<noteq> 0 \<Longrightarrow> minOut \<in> slice_set possible \<and> count_works info mode war bw userBpp minOut"
      "\<And>n. n \<in> slice_set possible \<Longrightarrow> count_works info mode war bw userBpp n \<Longrightarrow> minOut \<noteq> 0 \<and> minOut \<le> n"
    and fail: "minOut = 0 \<Longrightarrow> slice_set possible \<noteq> {} \<Longrightarrow> st \<noteq> NVT_STATUS_SUCCESS"
    using slice_try_loop_outcome [of ?a possible NVT_STATUS_SUCCESS, unfolded works, OF total] by blast
  show ?thesis
  proof (cases "minOut = 0")
    case True
    then have "search_slice_counts info mode war bw pps (Some userBpp) (Some m0) possible = Some (st, pps, Some userBpp, Some m0)"
      using zero by (simp add: search_slice_counts_def run)
    then show ?thesis
      using fail [OF True ne] least(2) True by (auto simp: returns_def mask_ok_def)
  next
    case False
    note n = least(1) [OF False]
    obtain p b where g: "DSC_GeneratePPS (Some (force_slice_count info minOut)) (Some mode) war bw (Some ?wa) pps (Some userBpp) =
        Some (NVT_STATUS_SUCCESS, p, b)"
      using n DSC_GeneratePPS_dest [of "force_slice_count info minOut" mode war bw ?wa userBpp pps]
      by (auto simp: count_works_def)
    have "search_slice_counts info mode war bw pps (Some userBpp) (Some m0) possible = Some (NVT_STATUS_SUCCESS, p, b, Some valid)"
      using zero False by (simp add: search_slice_counts_def run g)
    then show ?thesis
      using bits n g least(2) by (auto simp: returns_def mask_ok_def)
  qed
qed


text \<open>The counts source and sink share and that carry the mode.\<close>

definition shared_counts :: "DSC_INFO \<Rightarrow> MODESET_INFO \<Rightarrow> NvU32" where
  "shared_counts info mode =
     (let m = DSC_GetSliceCountMask (C_MIN (maxNumHztSlices (sinkCaps info))
                (if bDualMode mode \<noteq> 0 then 8 else gpu_maxNumHztSlices (gpuCaps info))) NV_TRUE;
          m = (if bDualMode mode \<noteq> 0 then m AND NOT 0x11 else m)
      in m AND sliceCountSupportedMask (sinkCaps info))"

definition mode_peak :: "DSC_INFO \<Rightarrow> MODESET_INFO \<Rightarrow> NvU32" where
  "mode_peak info mode = DSC_GetPeakThroughputMps
     (if (colorFormat mode = NVT_COLOR_FORMAT_YCbCr422 \<and> native_422_possible info) \<or>
         (colorFormat mode = NVT_COLOR_FORMAT_YCbCr420 \<and> native_420_possible info)
      then peakThroughputMode1 (sinkCaps info) else peakThroughputMode0 (sinkCaps info))"

definition mode_counts :: "DSC_INFO \<Rightarrow> MODESET_INFO \<Rightarrow> NvU32 set" where
  "mode_counts info mode =
     {n \<in> slice_set (shared_counts info mode).
        slices_fit (activeWidth mode) (ucast (pixelClockHz mode div 1000000))
          (C_MIN (maxSliceWidth (sinkCaps info)) (lineBufferSize (gpuCaps info) * 1024)) (mode_peak info mode) n}"

lemma shared_counts_sink: "slice_set (shared_counts info mode) \<subseteq> slice_set (sliceCountSupportedMask (sinkCaps info))"
  by (auto simp: shared_counts_def Let_def slice_set_and)

lemma slices_fit_mono: "slices_fit w c mw p n \<Longrightarrow> n \<le> k \<Longrightarrow> slices_fit w c mw p k"
  by (auto simp: slices_fit_def word_le_nat_alt intro: order_trans [OF _ mult_right_mono])

lemma possible_counts:
  assumes "least_slice_count (slices_fit w c mw p) m n"
  shows "slice_set (m AND NOT (DSC_GetSliceCountMask n NV_FALSE)) = {k \<in> slice_set m. slices_fit w c mw p k}"
proof -
  have valid: "k \<in> slice_set m \<Longrightarrow> k \<in> set validSliceNum" for k by (simp add: slice_set_def)
  have "slice_set (m AND NOT (DSC_GetSliceCountMask n NV_FALSE)) = {k \<in> slice_set m. k \<notin> slice_set (DSC_GetSliceCountMask n 0)}"
    by (auto simp: slice_set_bit bit_simps dest: bit_imp_le_length)
  also have "\<dots> = {k \<in> slice_set m. n \<le> k}"
    unfolding DSC_GetSliceCountMask_exclusive using valid by (auto simp: not_less)
  also have "\<dots> = {k \<in> slice_set m. slices_fit w c mw p k}"
    using assms slices_fit_mono unfolding least_slice_count_def by blast
  finally show ?thesis .
qed

text \<open>The main function without forced slices, in terms of these counts.\<close>

lemma DSC_GeneratePPSWithSliceCountMask_unforced:
  assumes "forced_sliceWidth (forcedDscParams info) = 0" "forced_sliceCount (forcedDscParams info) = 0"
  shows "DSC_GeneratePPSWithSliceCountMask (Some info) (Some mode) war bw pps pBpp pMask =
    (if shared_counts info mode = 0 then Some (NVT_STATUS_DSC_SLICE_ERROR, pps, pBpp, pMask)
     else if mode_peak info mode = 0 then Some (NVT_STATUS_INVALID_PEAK_THROUGHPUT, pps, pBpp, pMask)
     else do {
       r \<leftarrow> DSC_GetMinSliceCountForMode (activeWidth mode) (ucast (pixelClockHz mode div 1000000))
              (C_MIN (maxSliceWidth (sinkCaps info)) (lineBufferSize (gpuCaps info) * 1024)) (mode_peak info mode)
              (C_MIN (maxNumHztSlices (sinkCaps info)) (if bDualMode mode \<noteq> 0 then 8 else gpu_maxNumHztSlices (gpuCaps info)))
              (shared_counts info mode);
       (case r of
          Inl status \<Rightarrow> Some (status, pps, pBpp, pMask)
        | Inr n \<Rightarrow>
            if shared_counts info mode AND NOT (DSC_GetSliceCountMask n NV_FALSE) = 0
            then Some (NVT_STATUS_PPS_SLICE_COUNT_ERROR, pps, pBpp, pMask)
            else search_slice_counts info mode war bw pps pBpp pMask
                   (shared_counts info mode AND NOT (DSC_GetSliceCountMask n NV_FALSE)))
     })"
  unfolding DSC_GeneratePPSWithSliceCountMask_def shared_counts_def mode_peak_def Let_def
  by (simp only: assms Option.bind_lunit simp_thms if_False)


text \<open>The result for the request: which counts the mask holds, and whose parameters are returned.\<close>

definition mask_result_ok ::
  "DSC_INFO \<Rightarrow> MODESET_INFO \<Rightarrow> WAR_DATA option \<Rightarrow> NvU64 \<Rightarrow> NvU32 list option \<Rightarrow> NvU32 \<Rightarrow> NvU32 \<Rightarrow> mask_result \<Rightarrow> bool" where
  "mask_result_ok info mode war bw pps userBpp m0 r \<longleftrightarrow>
     (fst r = NVT_STATUS_SUCCESS \<longrightarrow>
       (\<exists>m n. snd (snd (snd r)) = Some m \<and>
          (\<forall>k \<in> set validSliceNum. bit m (unat k - 1) \<longleftrightarrow> k \<in> mode_counts info mode \<and> count_works info mode war bw userBpp k) \<and>
          n \<in> mode_counts info mode \<and> count_works info mode war bw userBpp n \<and>
          (\<forall>k \<in> mode_counts info mode. count_works info mode war bw userBpp k \<longrightarrow> n \<le> k) \<and>
          DSC_GeneratePPS (Some (force_slice_count info n)) (Some mode) war bw
            (Some \<lparr>wa_in = zero_input, wa_out = zero_output\<rparr>) pps (Some userBpp) =
            Some (NVT_STATUS_SUCCESS, fst (snd r), fst (snd (snd r))))) \<and>
     (fst r \<noteq> NVT_STATUS_SUCCESS \<longrightarrow> r = (fst r, pps, Some userBpp, Some m0))"

lemma mask_ok_result:
  assumes "mask_ok info mode war bw pps userBpp m0 possible r" "slice_set possible = mode_counts info mode"
  shows "mask_result_ok info mode war bw pps userBpp m0 r"
  using assms(1) unfolding mask_ok_def mask_result_ok_def assms(2) by blast

lemma mask_result_error:
  "e \<noteq> NVT_STATUS_SUCCESS \<Longrightarrow> mask_result_ok info mode war bw pps userBpp m0 (e, pps, Some userBpp, Some m0)"
  by (simp add: mask_result_ok_def)

lemma DSC_GetMinSliceCountForMode_cases:
  assumes "maxw \<noteq> 0" "peak \<noteq> 0" "unat w + unat maxw < 2 ^ 32" "unat clk + unat peak < 2 ^ 32"
  obtains "DSC_GetMinSliceCountForMode w clk maxw peak maxCount m = Some (Inl NVT_STATUS_MIN_SLICE_COUNT_ERROR)"
  | n where "DSC_GetMinSliceCountForMode w clk maxw peak maxCount m = Some (Inr n)"
      "least_slice_count (slices_fit w clk maxw peak) m n"
proof -
  obtain r where r: "DSC_GetMinSliceCountForMode w clk maxw peak maxCount m = Some r"
    "\<forall>n. r = Inr n \<longleftrightarrow> slices_fit w clk maxw peak maxCount \<and> least_slice_count (slices_fit w clk maxw peak) m n"
    "\<forall>e. r = Inl e \<longrightarrow> e = NVT_STATUS_MIN_SLICE_COUNT_ERROR"
    using DSC_GetMinSliceCountForMode_spec [OF assms] by metis
  then show thesis using that by (cases r) auto
qed

lemma DSC_GeneratePPSWithSliceCountMask_ok:
  assumes bounds: "request_bounds info mode war userBpp"
    and unforced: "forced_sliceWidth (forcedDscParams info) = 0" "forced_sliceCount (forcedDscParams info) = 0"
    and caps: "maxSliceWidth (sinkCaps info) \<noteq> 0" "lineBufferSize (gpuCaps info) \<noteq> 0"
    and width: "unat (activeWidth mode) \<le> 65535"
  shows "returns (DSC_GeneratePPSWithSliceCountMask (Some info) (Some mode) war bw pps (Some userBpp) (Some m0))
    (mask_result_ok info mode war bw pps userBpp m0)"
proof -
  have b: "unat (pixelClockHz mode) \<le> 4000000000" "unat (lineBufferSize (gpuCaps info)) \<le> 64"
    "unat (maxSliceWidth (sinkCaps info)) \<le> 65535"
    using bounds by (simp_all add: request_bounds_def)
  note W = max_slice_width_bounds [OF caps(1) b(3) caps(2) b(2)]
  let ?mw = "C_MIN (maxSliceWidth (sinkCaps info)) (lineBufferSize (gpuCaps info) * 1024)"
  let ?c = "ucast (pixelClockHz mode div 1000000) :: NvU32" and ?p = "mode_peak info mode"
  let ?max = "C_MIN (maxNumHztSlices (sinkCaps info)) (if bDualMode mode \<noteq> 0 then 8 else gpu_maxNumHztSlices (gpuCaps info))"
  let ?m = "shared_counts info mode"
  show ?thesis
    unfolding DSC_GeneratePPSWithSliceCountMask_unforced [OF unforced]
  proof (intro returns_If returns_Some mask_result_error)
    assume p: "?p \<noteq> 0"
    have sum1: "unat (activeWidth mode) + unat ?mw < 2 ^ 32" using width W(2) by simp
    have sum2: "unat ?c + unat ?p < 2 ^ 32"
    proof -
      have "unat ?c + unat ?p \<le> 4294966295 + 1000"
        unfolding mode_peak_def by (rule add_mono [OF clock_mhz_bound [OF b(1)] peak_le])
      also have "\<dots> < 2 ^ 32" by simp
      finally show ?thesis .
    qed
    show "returns (do { r \<leftarrow> DSC_GetMinSliceCountForMode (activeWidth mode) ?c ?mw ?p ?max ?m;
        (case r of Inl status \<Rightarrow> Some (status, pps, Some userBpp, Some m0)
         | Inr n \<Rightarrow> if ?m AND NOT (DSC_GetSliceCountMask n NV_FALSE) = 0
            then Some (NVT_STATUS_PPS_SLICE_COUNT_ERROR, pps, Some userBpp, Some m0)
            else search_slice_counts info mode war bw pps (Some userBpp) (Some m0) (?m AND NOT (DSC_GetSliceCountMask n NV_FALSE))) })
      (mask_result_ok info mode war bw pps userBpp m0)"
    proof (rule DSC_GetMinSliceCountForMode_cases [OF W(1) p sum1 sum2, of ?max ?m])
      assume "DSC_GetMinSliceCountForMode (activeWidth mode) ?c ?mw ?p ?max ?m = Some (Inl NVT_STATUS_MIN_SLICE_COUNT_ERROR)"
      then show ?thesis by (simp add: returns_Some mask_result_error)
    next
      fix n assume r: "DSC_GetMinSliceCountForMode (activeWidth mode) ?c ?mw ?p ?max ?m = Some (Inr n)"
        and ok: "least_slice_count (slices_fit (activeWidth mode) ?c ?mw ?p) ?m n"
      have set: "slice_set (?m AND NOT (DSC_GetSliceCountMask n NV_FALSE)) = mode_counts info mode"
        using possible_counts [OF ok] by (simp add: mode_counts_def)
      have ne: "mode_counts info mode \<noteq> {}"
        using ok by (auto simp: least_slice_count_def mode_counts_def)
      have "returns (search_slice_counts info mode war bw pps (Some userBpp) (Some m0)
          (?m AND NOT (DSC_GetSliceCountMask n NV_FALSE))) (mask_result_ok info mode war bw pps userBpp m0)"
        by (rule returns_weaken [OF search_slice_counts_ok [OF bounds ne [folded set]] mask_ok_result [OF _ set]])
      then show ?thesis
        unfolding r Option.bind_lunit sum.case by (intro returns_If returns_Some mask_result_error) simp_all
    qed
  qed simp_all
qed

section \<open>Properties\<close>

text \<open>
  C16: without forced slices \<open>DSC_GeneratePPSWithSliceCountMask\<close> returns for every bounded request. On
  failure nothing is written. On success bit \<open>k - 1\<close> of the mask is set exactly for the slice counts
  \<open>k\<close> that source and sink share, that carry the mode, and with which generation succeeds; and the
  parameters and rate written are those of the smallest such count.
\<close>

theorem slice_count_search_sound:
  assumes "request_bounds info mode war userBpp"
    and "forced_sliceWidth (forcedDscParams info) = 0" and "forced_sliceCount (forcedDscParams info) = 0"
    and "maxSliceWidth (sinkCaps info) \<noteq> 0" and "lineBufferSize (gpuCaps info) \<noteq> 0"
    and "unat (activeWidth mode) \<le> 65535"
  shows "\<exists>status pps' bpp' m.
    DSC_GeneratePPSWithSliceCountMask (Some info) (Some mode) war bw pps (Some userBpp) (Some m0) =
      Some (status, pps', bpp', Some m) \<and>
    (status \<noteq> NVT_STATUS_SUCCESS \<longrightarrow> pps' = pps \<and> bpp' = Some userBpp \<and> m = m0) \<and>
    (status = NVT_STATUS_SUCCESS \<longrightarrow>
       (\<forall>k \<in> set validSliceNum. bit m (unat k - 1) \<longleftrightarrow>
          k \<in> mode_counts info mode \<and> count_works info mode war bw userBpp k) \<and>
       (\<exists>n \<in> mode_counts info mode. count_works info mode war bw userBpp n \<and>
          (\<forall>k \<in> mode_counts info mode. count_works info mode war bw userBpp k \<longrightarrow> n \<le> k) \<and>
          DSC_GeneratePPS (Some (force_slice_count info n)) (Some mode) war bw (Some workarea) pps (Some userBpp) =
            Some (NVT_STATUS_SUCCESS, pps', bpp')))"
proof (rule returnsE [OF DSC_GeneratePPSWithSliceCountMask_ok [OF assms, of bw pps m0]])
  fix r assume run: "DSC_GeneratePPSWithSliceCountMask (Some info) (Some mode) war bw pps (Some userBpp) (Some m0) = Some r"
    and ok: "mask_result_ok info mode war bw pps userBpp m0 r"
  obtain status p b q where r: "r = (status, p, b, q)" by (cases r)
  show ?thesis
  proof (cases "status = NVT_STATUS_SUCCESS")
    case True then show ?thesis using run ok unfolding r mask_result_ok_def fst_conv snd_conv by blast
  next
    case False then show ?thesis using run ok unfolding r mask_result_ok_def fst_conv snd_conv by blast
  qed
qed

theorem slice_count_search_sound_witness:
  "\<exists>status pps' bpp' m. DSC_GeneratePPSWithSliceCountMask (Some sample_info) (Some sample_mode)
     (Some (sample_war 4 560)) 25297920000 None (Some 0) (Some 0) = Some (status, pps', bpp', Some m)"
  using slice_count_search_sound [OF sample_bounds, of 4 560 25297920000 None 0]
  by (auto simp: sample_info_def sample_mode_def)

text \<open>
  C24: \<open>DSC_GeneratePPSWithSliceCountMask\<close> works out the least slice count before the capabilities are
  validated: for a sink whose maximum slice width is zero it divides by zero, where \<open>DSC_GeneratePPS\<close>
  reports the parameter error.
\<close>

theorem slice_count_search_unvalidated:
  assumes "forced_sliceWidth (forcedDscParams info) = 0" and "forced_sliceCount (forcedDscParams info) = 0"
    and "maxSliceWidth (sinkCaps info) = 0" and "shared_counts info mode \<noteq> 0" and "mode_peak info mode \<noteq> 0"
  shows "DSC_GeneratePPSWithSliceCountMask (Some info) (Some mode) war bw pps pBpp pMask = None \<and>
    DSC_GeneratePPS (Some info) (Some mode) war bw (Some wa) pps (Some userBpp) =
      Some (NVT_STATUS_INVALID_PARAMETER, pps, Some userBpp)"
proof
  have "C_MIN (0 :: NvU32) x = 0" for x by (simp add: C_MIN_def)
  then show "DSC_GeneratePPSWithSliceCountMask (Some info) (Some mode) war bw pps pBpp pMask = None"
    unfolding DSC_GeneratePPSWithSliceCountMask_unforced [OF assms(1,2)]
    using assms(3-5) by (simp add: DSC_GetMinSliceCountForMode_def)
  have "validate_caps info = NVT_STATUS_INVALID_PARAMETER"
    using assms(3) by (simp add: validate_caps_def Let_def)
  then show "DSC_GeneratePPS (Some info) (Some mode) war bw (Some wa) pps (Some userBpp) =
      Some (NVT_STATUS_INVALID_PARAMETER, pps, Some userBpp)"
    by (simp add: DSC_GeneratePPS_stages validateInput_def)
qed

theorem slice_count_search_unvalidated_witness:
  "DSC_GeneratePPSWithSliceCountMask (Some (sample_info\<lparr>sinkCaps := (sinkCaps sample_info)\<lparr>maxSliceWidth := 0\<rparr>\<rparr>))
     (Some sample_mode) None 25297920000 None (Some 0) (Some 0) = None"
proof -
  let ?i = "sample_info\<lparr>sinkCaps := (sinkCaps sample_info)\<lparr>maxSliceWidth := 0\<rparr>\<rparr>"
  have "shared_counts ?i sample_mode \<noteq> 0"
    by (simp add: shared_counts_def sample_info_def sample_mode_def C_MIN_def DSC_GetSliceCountMask_def
        validSliceNum_def DSC_SliceCountMaskforSliceNum_def)
  moreover have "mode_peak ?i sample_mode \<noteq> 0"
    by (simp add: mode_peak_def sample_info_def sample_mode_def DSC_GetPeakThroughputMps_def)
  ultimately show ?thesis
    using slice_count_search_unvalidated [of ?i sample_mode None 25297920000 None "Some 0" "Some 0" workarea 0]
    by (simp add: sample_info_def)
qed

end
