(* ===== verification/Rm_Memory.thy ===== *)
theory Rm_Memory
  imports Prelude
begin
unbundle bit_operations_syntax

text \<open>
  The CPU memory bridge of the RM source port: the string instructions of \<^verbatim>\<open>src/rm/memory.h\<close> and the
  memory and string adapters of \<^verbatim>\<open>os_memory.c\<close> and \<^verbatim>\<open>nvkms_memory.c\<close>. Memory is a partial map from 64-bit
  addresses to bytes; an access outside its domain is a fault and the operation has no result. Address
  arithmetic wraps. A pointer is its address, null being 0.
\<close>

section \<open>Definitions\<close>

type_synonym memory = "NvU64 \<rightharpoonup> NvU8"

definition store_byte :: "memory \<Rightarrow> NvU64 \<Rightarrow> NvU8 \<Rightarrow> memory option" where
  "store_byte m a b = (if m a = None then None else Some (m(a \<mapsto> b)))"

fun load_bytes :: "memory \<Rightarrow> NvU64 \<Rightarrow> nat \<Rightarrow> NvU8 list option" where
  "load_bytes m a 0 = Some []"
| "load_bytes m a (Suc n) = do { b \<leftarrow> m a; bs \<leftarrow> load_bytes m (a + 1) n; Some (b # bs) }"

fun store_bytes :: "memory \<Rightarrow> NvU64 \<Rightarrow> NvU8 list \<Rightarrow> memory option" where
  "store_bytes m a [] = Some m"
| "store_bytes m a (b # bs) = do { m \<leftarrow> store_byte m a b; store_bytes m (a + 1) bs }"

text \<open>
  \<^verbatim>\<open>rep movs\<close> with elements of \<open>k\<close> bytes: each element is read whole before it is written. The results
  are the memory and the two advanced pointers.
\<close>

fun rep_movs :: "nat \<Rightarrow> nat \<Rightarrow> memory \<Rightarrow> NvU64 \<Rightarrow> NvU64 \<Rightarrow> (memory \<times> NvU64 \<times> NvU64) option" where
  "rep_movs k 0 m destination source = Some (m, destination, source)"
| "rep_movs k (Suc n) m destination source = do {
     bs \<leftarrow> load_bytes m source k;
     m \<leftarrow> store_bytes m destination bs;
     rep_movs k n m (destination + of_nat k) (source + of_nat k)
   }"

fun rep_stos :: "NvU8 list \<Rightarrow> nat \<Rightarrow> memory \<Rightarrow> NvU64 \<Rightarrow> (memory \<times> NvU64) option" where
  "rep_stos bs 0 m destination = Some (m, destination)"
| "rep_stos bs (Suc n) m destination = do {
     m \<leftarrow> store_bytes m destination bs;
     rep_stos bs n m (destination + of_nat (length bs))
   }"

text \<open>The bytes of a quadword in memory order.\<close>

definition quad_bytes :: "NvU64 \<Rightarrow> NvU8 list" where
  "quad_bytes w = map (\<lambda>i. ucast (drop_bit (8 * i) w)) [0..<8]"

definition r4nv_copy :: "memory \<Rightarrow> NvU64 \<Rightarrow> NvU64 \<Rightarrow> NvU64 \<Rightarrow> (memory \<times> NvU64) option" where
  "r4nv_copy m destination source bytes = do {
     let result = destination;
     let words = bytes div 8;
     let tail = bytes mod 8;
     (m, destination, source) \<leftarrow> rep_movs 8 (unat words) m destination source;
     (m, destination, source) \<leftarrow> rep_movs 1 (unat tail) m destination source;
     Some (m, result)
   }"

definition r4nv_set :: "memory \<Rightarrow> NvU64 \<Rightarrow> NvU8 \<Rightarrow> NvU64 \<Rightarrow> (memory \<times> NvU64) option" where
  "r4nv_set m destination value bytes = do {
     let result = destination;
     let words = bytes div 8;
     let tail = bytes mod 8;
     let pattern = ucast value * 0x0101010101010101;
     (m, destination) \<leftarrow> rep_stos (quad_bytes pattern) (unat words) m destination;
     (m, destination) \<leftarrow> rep_stos [value] (unat tail) m destination;
     Some (m, result)
   }"

text \<open>Byte by byte; the difference of the first unequal pair as an \<^verbatim>\<open>int\<close>.\<close>

fun compare_loop :: "nat \<Rightarrow> memory \<Rightarrow> NvU64 \<Rightarrow> NvU64 \<Rightarrow> int option" where
  "compare_loop 0 m a b = Some 0"
| "compare_loop (Suc n) m a b = do {
     x \<leftarrow> m a;
     y \<leftarrow> m b;
     if x \<noteq> y then Some (uint x - uint y) else compare_loop n m (a + 1) (b + 1)
   }"

definition r4nv_compare :: "memory \<Rightarrow> NvU64 \<Rightarrow> NvU64 \<Rightarrow> NvU64 \<Rightarrow> int option" where
  "r4nv_compare m left right bytes = compare_loop (unat bytes) m left right"

text \<open>
  The scans for a terminator end at a fault when there is none; over a memory without either they
  would not end, which is again no result.
\<close>

partial_function (option) length_loop :: "memory \<Rightarrow> NvU64 \<Rightarrow> NvU64 \<Rightarrow> NvU64 option" where
  "length_loop m text len = do {
     c \<leftarrow> m (text + len);
     if c \<noteq> 0 then length_loop m text (len + 1) else Some len
   }"

definition r4nv_length :: "memory \<Rightarrow> NvU64 \<Rightarrow> NvU64 option" where
  "r4nv_length m text = length_loop m text 0"

partial_function (option) r4nv_string_compare :: "memory \<Rightarrow> NvU64 \<Rightarrow> NvU64 \<Rightarrow> int option" where
  "r4nv_string_compare m a b = do {
     x \<leftarrow> m a;
     y \<leftarrow> m b;
     if x \<noteq> 0 \<and> x = y then r4nv_string_compare m (a + 1) (b + 1) else Some (uint x - uint y)
   }"

subsection \<open>\<^verbatim>\<open>os_memory.c\<close>\<close>

text \<open>The RM adapters take 32-bit sizes.\<close>

definition os_mem_copy :: "memory \<Rightarrow> NvU64 \<Rightarrow> NvU64 \<Rightarrow> NvU32 \<Rightarrow> (memory \<times> NvU64) option" where
  "os_mem_copy m destination source bytes = r4nv_copy m destination source (ucast bytes)"

definition os_mem_set :: "memory \<Rightarrow> NvU64 \<Rightarrow> NvU8 \<Rightarrow> NvU32 \<Rightarrow> (memory \<times> NvU64) option" where
  "os_mem_set m destination value bytes = r4nv_set m destination value (ucast bytes)"

definition os_mem_cmp :: "memory \<Rightarrow> NvU64 \<Rightarrow> NvU64 \<Rightarrow> NvU32 \<Rightarrow> int option" where
  "os_mem_cmp m left right bytes = r4nv_compare m left right (ucast bytes)"

partial_function (option) string_copy_loop :: "memory \<Rightarrow> NvU64 \<Rightarrow> NvU64 \<Rightarrow> memory option" where
  "string_copy_loop m destination source = do {
     c \<leftarrow> m source;
     m \<leftarrow> store_byte m destination c;
     c \<leftarrow> m source;
     if c \<noteq> 0 then string_copy_loop m (destination + 1) (source + 1) else Some m
   }"

definition os_string_copy :: "memory \<Rightarrow> NvU64 \<Rightarrow> NvU64 \<Rightarrow> (memory \<times> NvU64) option" where
  "os_string_copy m destination source = do {
     m \<leftarrow> string_copy_loop m destination source;
     Some (m, destination)
   }"

definition os_string_length :: "memory \<Rightarrow> NvU64 \<Rightarrow> NvU32 option" where
  "os_string_length m text = map_option ucast (r4nv_length m text)"

definition os_string_compare :: "memory \<Rightarrow> NvU64 \<Rightarrow> NvU64 \<Rightarrow> int option" where
  "os_string_compare m left right = r4nv_string_compare m left right"

subsection \<open>\<^verbatim>\<open>nvkms_memory.c\<close>\<close>

definition nvkms_memcpy :: "memory \<Rightarrow> NvU64 \<Rightarrow> NvU64 \<Rightarrow> NvU64 \<Rightarrow> (memory \<times> NvU64) option" where
  "nvkms_memcpy m destination source bytes = r4nv_copy m destination source bytes"

definition nvkms_memset :: "memory \<Rightarrow> NvU64 \<Rightarrow> NvU8 \<Rightarrow> NvU64 \<Rightarrow> (memory \<times> NvU64) option" where
  "nvkms_memset m destination value bytes = r4nv_set m destination value bytes"

text \<open>The overlapping copy runs from the last byte to the first.\<close>

fun move_back :: "nat \<Rightarrow> memory \<Rightarrow> NvU64 \<Rightarrow> NvU64 \<Rightarrow> memory option" where
  "move_back 0 m d s = Some m"
| "move_back (Suc n) m d s = do {
     b \<leftarrow> m (s + of_nat n);
     m \<leftarrow> store_byte m (d + of_nat n) b;
     move_back n m d s
   }"

definition nvkms_memmove :: "memory \<Rightarrow> NvU64 \<Rightarrow> NvU64 \<Rightarrow> NvU64 \<Rightarrow> (memory \<times> NvU64) option" where
  "nvkms_memmove m destination source bytes =
     (if destination = source \<or> bytes = 0 then Some (m, destination)
      else if destination < source \<or> destination - source \<ge> bytes then r4nv_copy m destination source bytes
      else do { m \<leftarrow> move_back (unat bytes) m destination source; Some (m, destination) })"

definition nvkms_memcmp :: "memory \<Rightarrow> NvU64 \<Rightarrow> NvU64 \<Rightarrow> NvU64 \<Rightarrow> int option" where
  "nvkms_memcmp m left right bytes = r4nv_compare m left right bytes"

definition nvkms_strlen :: "memory \<Rightarrow> NvU64 \<Rightarrow> NvU64 option" where
  "nvkms_strlen m text = r4nv_length m text"

definition nvkms_strcmp :: "memory \<Rightarrow> NvU64 \<Rightarrow> NvU64 \<Rightarrow> int option" where
  "nvkms_strcmp m left right = r4nv_string_compare m left right"

text \<open>The first component is the memory, the second the count of bytes copied when the loop stops.\<close>

fun strncpy_loop :: "nat \<Rightarrow> memory \<Rightarrow> NvU64 \<Rightarrow> NvU64 \<Rightarrow> NvU64 \<Rightarrow> (memory \<times> NvU64) option" where
  "strncpy_loop 0 m destination source i = Some (m, i)"
| "strncpy_loop (Suc n) m destination source i = do {
     c \<leftarrow> m (source + i);
     if c \<noteq> 0 then do {
       m \<leftarrow> store_byte m (destination + i) c;
       strncpy_loop n m destination source (i + 1)
     }
     else Some (m, i)
   }"

definition nvkms_strncpy :: "memory \<Rightarrow> NvU64 \<Rightarrow> NvU64 \<Rightarrow> NvU64 \<Rightarrow> (memory \<times> NvU64) option" where
  "nvkms_strncpy m destination source bytes = do {
     (m, i) \<leftarrow> strncpy_loop (unat bytes) m destination source 0;
     m \<leftarrow> (if i < bytes then map_option fst (r4nv_set m (destination + i) 0 (bytes - i)) else Some m);
     Some (m, destination)
   }"

section \<open>Spans of memory\<close>

text \<open>
  A span of \<open>n\<close> bytes from \<open>a\<close>, its contents, and memory with a span replaced. Offsets are read with
  wrap-around: the byte at \<open>x\<close> is at offset \<open>unat (x - a)\<close>.
\<close>

definition accessible :: "memory \<Rightarrow> NvU64 \<Rightarrow> nat \<Rightarrow> bool" where
  "accessible m a n \<longleftrightarrow> (\<forall>i < n. m (a + of_nat i) \<noteq> None)"

definition slice :: "memory \<Rightarrow> NvU64 \<Rightarrow> nat \<Rightarrow> NvU8 list" where
  "slice m a n = map (\<lambda>i. the (m (a + of_nat i))) [0..<n]"

definition put :: "memory \<Rightarrow> NvU64 \<Rightarrow> NvU8 list \<Rightarrow> memory" where
  "put m a bs = (\<lambda>x. if unat (x - a) < length bs then Some (bs ! unat (x - a)) else m x)"

lemma length_slice [simp]: "length (slice m a n) = n"
  by (simp add: slice_def)

lemma slice_0 [simp]: "slice m a 0 = []"
  by (simp add: slice_def)

lemma slice_nth [simp]: "i < n \<Longrightarrow> slice m a n ! i = the (m (a + of_nat i))"
  by (simp add: slice_def)

lemma slice_append: "slice m a (n + k) = slice m a n @ slice m (a + of_nat n) k"
proof (rule nth_equalityI)
  fix i assume "i < length (slice m a (n + k))"
  then consider "i < n" | j where "i = n + j" "j < k"
    by (metis add_diff_inverse_nat length_slice nat_add_left_cancel_less)
  then show "slice m a (n + k) ! i = (slice m a n @ slice m (a + of_nat n) k) ! i"
    by cases (simp_all add: nth_append add.assoc)
qed simp

lemma slice_Suc: "slice m a (Suc n) = the (m a) # slice m (a + 1) n"
  using slice_append [of m a 1 n] by (simp add: slice_def)

lemma accessible_add: "accessible m a (n + k) \<longleftrightarrow> accessible m a n \<and> accessible m (a + of_nat n) k"
proof -
  have "i < n + k \<longleftrightarrow> i < n \<or> (\<exists>j < k. i = n + j)" for i by (metis add_diff_inverse_nat nat_add_left_cancel_less trans_less_add1)
  then show ?thesis by (auto simp: accessible_def algebra_simps)
qed

lemma accessible_Suc: "accessible m a (Suc n) \<longleftrightarrow> m a \<noteq> None \<and> accessible m (a + 1) n"
  using accessible_add [of m a 1 n] by (simp add: accessible_def)

lemma accessible_mono: "accessible m a n \<Longrightarrow> k \<le> n \<Longrightarrow> accessible m a k"
  by (auto simp: accessible_def)

lemma accessible_put: "accessible m a n \<Longrightarrow> accessible (put m d bs) a n"
  by (auto simp: accessible_def put_def)

lemma accessible_nth: "accessible m a n \<Longrightarrow> i < n \<Longrightarrow> m (a + of_nat i) = Some (slice m a n ! i)"
  by (auto simp: accessible_def)

lemma put_Nil [simp]: "put m a [] = m"
  by (simp add: put_def)

lemma unat_of_nat_64: "n < 2 ^ 64 \<Longrightarrow> unat (of_nat n :: NvU64) = n"
  by (simp add: unsigned_of_nat take_bit_nat_eq_self)

lemma unat_lt_64: "unat (x :: NvU64) < 2 ^ 64"
  by transfer (simp add: take_bit_eq_mod nat_less_iff)

lemma put_at: "i < length bs \<Longrightarrow> length bs \<le> 2 ^ 64 \<Longrightarrow> put m a bs (a + of_nat i) = Some (bs ! i)"
  using unat_of_nat_64 [of i] by (simp add: put_def)

lemma offset_shift:
  assumes "n < 2 ^ 64"
  shows "unat (y - of_nat n :: NvU64) = (if n \<le> unat y then unat y - n else unat y + 2 ^ 64 - n)"
  using assms unat_of_nat_64 [OF assms] by (simp add: unat_sub_if')

lemma put_append:
  assumes "length bs + length cs \<le> 2 ^ 64" "cs \<noteq> []"
  shows "put (put m a bs) (a + of_nat (length bs)) cs = put m a (bs @ cs)"
proof
  fix x
  have l: "length bs < 2 ^ 64" using assms by (cases cs) auto
  have eq: "x - (a + of_nat (length bs)) = x - a - of_nat (length bs)" by simp
  show "put (put m a bs) (a + of_nat (length bs)) cs x = put m a (bs @ cs) x"
    using offset_shift [OF l, of "x - a"] assms(1)
    by (auto simp: put_def eq nth_append)
qed

lemma put_singleton: "put m a [b] = m(a \<mapsto> b)"
proof
  fix x
  have "unat (x - a) = 0 \<longleftrightarrow> x = a" by (simp add: unat_eq_zero_iff)
  then show "put m a [b] x = (m(a \<mapsto> b)) x" by (simp add: put_def)
qed

section \<open>Loads, stores and the string instructions\<close>

lemma load_bytes_slice: "accessible m a n \<Longrightarrow> load_bytes m a n = Some (slice m a n)"
  by (induction n arbitrary: a) (auto simp: accessible_Suc slice_Suc)

lemma store_bytes_put:
  "accessible m a (length bs) \<Longrightarrow> length bs \<le> 2 ^ 64 \<Longrightarrow> store_bytes m a bs = Some (put m a bs)"
proof (induction bs arbitrary: m a)
  case (Cons b bs)
  then have m: "m a \<noteq> None" "accessible m (a + 1) (length bs)" by (simp_all add: accessible_Suc)
  have "store_bytes (put m a [b]) (a + 1) bs = Some (put (put m a [b]) (a + 1) bs)"
    using Cons m by (intro Cons.IH accessible_put) simp_all
  moreover have "put (put m a [b]) (a + 1) bs = put m a (b # bs)"
    using put_append [of "[b]" bs m a] Cons.prems by (cases "bs = []") simp_all
  ultimately show ?case using m by (simp add: store_byte_def put_singleton)
qed simp


text \<open>A span that starts \<open>k\<close> bytes after the source is not touched by a write of \<open>k\<close> bytes to the destination.\<close>

lemma slice_put_ahead:
  assumes "k + n \<le> unat (d - s)" "length bs = k"
  shows "slice (put m d bs) (s + of_nat k) n = slice m (s + of_nat k) n"
proof (rule nth_equalityI)
  fix i assume "i < length (slice (put m d bs) (s + of_nat k) n)"
  then have i: "i < n" by simp
  have lt: "unat (d - s) < 2 ^ 64" by (rule unat_lt_64)
  have "\<not> unat (s + of_nat k + of_nat i - d) < k"
  proof
    define j where "j = unat (s + of_nat k + of_nat i - d)"
    assume "unat (s + of_nat k + of_nat i - d) < k"
    then have j: "j < k" by (simp add: j_def)
    have "s + of_nat k + of_nat i - d = of_nat j" by (simp add: j_def)
    then have "d - s = of_nat k + of_nat i - of_nat j" by (simp add: algebra_simps)
    also have "\<dots> = of_nat (k + i - j)" using j by (simp add: of_nat_diff)
    finally have e: "d - s = of_nat (k + i - j)" .
    have "k + i - j < 2 ^ 64" using i j assms(1) lt by linarith
    then have "unat (d - s) = k + i - j" unfolding e by (rule unat_of_nat_64)
    then show False using assms(1) i j by linarith
  qed
  then show "slice (put m d bs) (s + of_nat k) n ! i = slice m (s + of_nat k) n ! i"
    using i assms(2) by (simp add: put_def)
qed simp

lemma rep_movs_put:
  assumes "accessible m s (n * k)" "accessible m d (n * k)" "n * k \<le> unat (d - s)" "0 < k"
  shows "rep_movs k n m d s = Some (put m d (slice m s (n * k)), d + of_nat (n * k), s + of_nat (n * k))"
  using assms
proof (induction n arbitrary: m d s)
  case (Suc n)
  let ?m = "put m d (slice m s k)"
  have lt: "unat (d - s) < 2 ^ 64" by (rule unat_lt_64)
  have acc: "accessible m s k" "accessible m (s + of_nat k) (n * k)" "accessible m d k" "accessible m (d + of_nat k) (n * k)"
    using Suc.prems by (simp_all add: accessible_add)
  have step: "load_bytes m s k = Some (slice m s k)" "store_bytes m d (slice m s k) = Some ?m"
    using acc Suc.prems lt by (auto intro!: load_bytes_slice store_bytes_put)
  have same: "slice ?m (s + of_nat k) (n * k) = slice m (s + of_nat k) (n * k)"
    using Suc.prems by (intro slice_put_ahead) simp_all
  have "rep_movs k n ?m (d + of_nat k) (s + of_nat k) =
      Some (put ?m (d + of_nat k) (slice m (s + of_nat k) (n * k)), d + of_nat k + of_nat (n * k), s + of_nat k + of_nat (n * k))"
    using Suc.IH [of ?m "s + of_nat k" "d + of_nat k"] acc Suc.prems
    by (simp add: accessible_put same)
  moreover have "put ?m (d + of_nat k) (slice m (s + of_nat k) (n * k)) = put m d (slice m s (k + n * k))"
  proof (cases "n = 0")
    case False
    then show ?thesis
      using put_append [of "slice m s k" "slice m (s + of_nat k) (n * k)" m d] Suc.prems lt
      by (simp add: slice_append flip: length_greater_0_conv)
  qed simp
  ultimately show ?case by (simp add: step add.assoc)
qed simp

lemma r4nv_copy_put:
  assumes "accessible m source (unat bytes)" "accessible m destination (unat bytes)"
    and "unat bytes \<le> unat (destination - source)"
  shows "r4nv_copy m destination source bytes = Some (put m destination (slice m source (unat bytes)), destination)"
proof -
  define w t where "w = unat bytes div 8 * 8" and "t = unat bytes mod 8"
  let ?m = "put m destination (slice m source w)"
  have split: "unat bytes = w + t" by (simp add: w_def t_def)
  have acc: "accessible m source w" "accessible m (source + of_nat w) t"
    "accessible m destination w" "accessible m (destination + of_nat w) t"
    using assms(1,2) by (simp_all add: split accessible_add)
  have len: "w + t \<le> unat (destination - source)" "w + t \<le> 2 ^ 64"
    using assms(3) unat_lt_64 [of "destination - source"] by (simp_all add: split)
  have a: "rep_movs 8 (unat (bytes div 8)) m destination source = Some (?m, destination + of_nat w, source + of_nat w)"
    using rep_movs_put [of m source "unat bytes div 8" 8 destination] acc len
    by (simp add: w_def unat_div_distrib)
  have same: "slice ?m (source + of_nat w) t = slice m (source + of_nat w) t"
    by (rule slice_put_ahead) (use len in simp_all)
  have b: "rep_movs 1 (unat (bytes mod 8)) ?m (destination + of_nat w) (source + of_nat w) =
      Some (put ?m (destination + of_nat w) (slice m (source + of_nat w) t),
        destination + of_nat w + of_nat t, source + of_nat w + of_nat t)"
    using rep_movs_put [of ?m "source + of_nat w" t 1 "destination + of_nat w"] acc len
    by (simp add: accessible_put same unat_mod_distrib flip: t_def)
  have "put ?m (destination + of_nat w) (slice m (source + of_nat w) t) = put m destination (slice m source (w + t))"
    using put_append [of "slice m source w" "slice m (source + of_nat w) t" m destination] len
    by (cases "t = 0") (simp_all add: slice_append flip: length_greater_0_conv)
  then show ?thesis
    unfolding r4nv_copy_def Let_def a Option.bind_lunit prod.case b split by simp
qed

text \<open>The multiplied pattern has the value in each of its bytes.\<close>

fun repeated :: "nat \<Rightarrow> nat \<Rightarrow> nat" where
  "repeated 0 v = 0"
| "repeated (Suc k) v = v + 256 * repeated k v"

lemma repeated_digit: "i < k \<Longrightarrow> v < 256 \<Longrightarrow> (repeated k v div 256 ^ i) mod 256 = v"
proof (induction i arbitrary: k)
  case 0 then show ?case by (cases k) simp_all
next
  case (Suc i)
  then obtain l where k: "k = Suc l" "i < l" by (cases k) auto
  have "repeated k v div 256 ^ Suc i = (repeated k v div 256) div 256 ^ i" by (simp add: div_mult2_eq)
  also have "repeated k v div 256 = repeated l v" using Suc.prems k by simp
  finally show ?case using Suc k by simp
qed

lemma repeated_8: "repeated 8 v = v * 0x0101010101010101"
proof -
  have "(8 :: nat) = Suc (Suc (Suc (Suc (Suc (Suc (Suc (Suc 0)))))))" by simp
  then show ?thesis by (simp only: repeated.simps) simp
qed

lemma pattern_digit: "v < 256 \<Longrightarrow> i < 8 \<Longrightarrow> (v * 0x0101010101010101 div 256 ^ i) mod 256 = (v :: nat)"
  using repeated_digit [of i 8 v] by (simp only: repeated_8)

lemma quad_bytes_pattern: "quad_bytes (ucast (v :: NvU8) * 0x0101010101010101) = replicate 8 v"
proof (rule nth_equalityI)
  fix i assume "i < length (quad_bytes (ucast v * 0x0101010101010101))"
  then have i: "i < 8" by (simp add: quad_bytes_def)
  have v: "unat v < 256" using unsigned_less [of v] by simp
  let ?p = "ucast v * 0x0101010101010101 :: NvU64"
  have "unat (ucast v :: NvU64) = unat v" using v by (simp add: unsigned_ucast_eq take_bit_nat_eq_self)
  moreover have "unat v * 0x0101010101010101 < 2 ^ 64" using v by simp
  ultimately have p: "unat ?p = unat v * 0x0101010101010101" by (subst unat_mult_nowrap) simp_all
  have "unat (ucast (drop_bit (8 * i) ?p) :: NvU8) = (unat ?p div 256 ^ i) mod 256"
    using unat_lt_64 [of ?p]
    by (simp only: unsigned_ucast_eq unsigned_drop_bit_eq, simp only: drop_bit_eq_div power_mult take_bit_eq_mod) simp
  then have "unat (ucast (drop_bit (8 * i) ?p) :: NvU8) = unat v"
    unfolding p using pattern_digit [OF v i] by simp
  then have "ucast (drop_bit (8 * i) ?p) = v" by (simp add: word_unat_eq_iff)
  then show "quad_bytes ?p ! i = replicate 8 v ! i" using i by (simp add: quad_bytes_def)
qed (simp add: quad_bytes_def)

lemma rep_stos_put:
  assumes "accessible m d (n * length bs)" "n * length bs \<le> 2 ^ 64"
  shows "rep_stos bs n m d = Some (put m d (concat (replicate n bs)), d + of_nat (n * length bs))"
  using assms
proof (induction n arbitrary: m d)
  case (Suc n)
  have acc: "accessible m d (length bs)" "accessible m (d + of_nat (length bs)) (n * length bs)"
    using Suc.prems by (simp_all add: accessible_add)
  have st: "store_bytes m d bs = Some (put m d bs)"
    using acc Suc.prems by (intro store_bytes_put) simp_all
  have len: "length (concat (replicate n bs)) = n * length bs"
    by (simp add: length_concat sum_list_replicate)
  have "put (put m d bs) (d + of_nat (length bs)) (concat (replicate n bs)) = put m d (bs @ concat (replicate n bs))"
    using put_append [of bs "concat (replicate n bs)" m d] Suc.prems
    by (cases "bs = [] \<or> n = 0") (auto simp: len)
  then show ?case
    using Suc.IH [of "put m d bs" "d + of_nat (length bs)"] acc Suc.prems
    by (simp add: st accessible_put add.assoc)
qed simp

lemma r4nv_set_put:
  assumes "accessible m destination (unat bytes)"
  shows "r4nv_set m destination value bytes = Some (put m destination (replicate (unat bytes) value), destination)"
proof -
  define w t where "w = unat bytes div 8" and "t = unat bytes mod 8"
  have split: "unat bytes = w * 8 + t" by (simp add: w_def t_def)
  have acc: "accessible m destination (w * 8)" "accessible m (destination + of_nat (w * 8)) t"
    using assms by (simp_all only: split accessible_add)
  have lt: "w * 8 + t < 2 ^ 64" using unat_lt_64 [of bytes] split by simp
  have rep: "concat (replicate n (replicate 8 value)) = replicate (n * 8) value" for n
    by (induction n) (simp_all add: replicate_add)
  have one: "concat (replicate n [value]) = replicate n value" for n by (induction n) simp_all
  have a: "rep_stos (quad_bytes (ucast value * 0x0101010101010101)) (unat (bytes div 8)) m destination =
      Some (put m destination (replicate (w * 8) value), destination + of_nat (w * 8))"
    unfolding quad_bytes_pattern
    using rep_stos_put [of m destination w "replicate 8 value"] acc lt
    by (simp add: rep unat_div_distrib flip: w_def)
  have b: "rep_stos [value] (unat (bytes mod 8)) (put m destination (replicate (w * 8) value)) (destination + of_nat (w * 8)) =
      Some (put (put m destination (replicate (w * 8) value)) (destination + of_nat (w * 8)) (replicate t value),
        destination + of_nat (w * 8) + of_nat t)"
    using rep_stos_put [of _ "destination + of_nat (w * 8)" t "[value]"] acc lt
    by (simp add: one accessible_put unat_mod_distrib flip: t_def)
  have "put (put m destination (replicate (w * 8) value)) (destination + of_nat (w * 8)) (replicate t value) =
      put m destination (replicate (w * 8 + t) value)"
    using put_append [of "replicate (w * 8) value" "replicate t value" m destination] lt
    by (cases "t = 0") (simp_all add: replicate_add flip: length_greater_0_conv)
  then show ?thesis
    unfolding r4nv_set_def Let_def a Option.bind_lunit prod.case b split by simp
qed

section \<open>The overlapping copy\<close>

lemma put_split_last:
  assumes "n < 2 ^ 64"
  shows "put m d (slice m0 s (Suc n)) = put (m(d + of_nat n \<mapsto> the (m0 (s + of_nat n)))) d (slice m0 s n)"
proof
  fix x
  have "unat (x - d) = n \<longleftrightarrow> x = d + of_nat n"
  proof
    assume "unat (x - d) = n"
    then have "(of_nat n :: NvU64) = of_nat (unat (x - d))" by (simp only:)
    then show "x = d + of_nat n" by simp
  qed (use unat_of_nat_64 [OF assms] in simp)
  then show "put m d (slice m0 s (Suc n)) x = put (m(d + of_nat n \<mapsto> the (m0 (s + of_nat n)))) d (slice m0 s n) x"
    by (auto simp: put_def less_Suc_eq)
qed

lemma move_back_put:
  assumes "accessible m s n" "accessible m d n" "unat (d - s) + n \<le> 2 ^ 64" "0 < unat (d - s)"
  shows "move_back n m d s = Some (put m d (slice m s n))"
  using assms
proof (induction n arbitrary: m)
  case (Suc n)
  obtain b where b: "m (s + of_nat n) = Some b" using Suc.prems(1) by (auto simp: accessible_def)
  let ?m = "m(d + of_nat n \<mapsto> b)"
  have n: "n < 2 ^ 64" using Suc.prems by linarith
  have acc: "m (d + of_nat n) \<noteq> None" using Suc.prems(2) by (auto simp: accessible_def)
  have same: "slice ?m s n = slice m s n"
  proof (rule nth_equalityI)
    fix i assume "i < length (slice ?m s n)"
    then have i: "i < n" by simp
    have "s + of_nat i \<noteq> d + of_nat n"
    proof
      assume "s + of_nat i = d + of_nat n"
      then have "d - s = 0 - of_nat (n - i)" using i by (simp add: of_nat_diff algebra_simps)
      then have "unat (d - s) = 2 ^ 64 - (n - i)"
        using offset_shift [of "n - i" 0] i n by simp
      then show False using Suc.prems(3) i by linarith
    qed
    then show "slice ?m s n ! i = slice m s n ! i" using i by simp
  qed simp
  have "accessible ?m s n" "accessible ?m d n"
    using Suc.prems(1,2) by (auto simp: accessible_def)
  then have "move_back n ?m d s = Some (put ?m d (slice ?m s n))"
    by (rule Suc.IH) (use Suc.prems(3,4) in simp_all)
  then show ?case
    unfolding put_split_last [OF n] same using acc by (simp add: store_byte_def b)
qed simp

text \<open>A span within the address space does not wrap.\<close>

definition no_wrap :: "NvU64 \<Rightarrow> nat \<Rightarrow> bool" where
  "no_wrap a n \<longleftrightarrow> unat a + n \<le> 2 ^ 64"

lemma nvkms_memmove_put:
  assumes "accessible m source (unat bytes)" "accessible m destination (unat bytes)"
    and "no_wrap source (unat bytes)" "no_wrap destination (unat bytes)"
  shows "nvkms_memmove m destination source bytes = Some (put m destination (slice m source (unat bytes)), destination)"
proof (cases "destination = source \<or> bytes = 0")
  case True
  have "put m source (slice m source (unat bytes)) = m"
  proof
    fix x
    have "x = source + of_nat (unat (x - source))" by simp
    then have "unat (x - source) < unat bytes \<Longrightarrow> m x \<noteq> None"
      using assms(1) unfolding accessible_def by metis
    then show "put m source (slice m source (unat bytes)) x = m x" by (auto simp: put_def)
  qed
  then show ?thesis using True by (auto simp: nvkms_memmove_def)
next
  case False
  then have diff: "0 < unat (destination - source)" "bytes \<noteq> 0" by (simp_all add: unat_gt_0)
  show ?thesis
  proof (cases "destination < source \<or> destination - source \<ge> bytes")
    case True
    then have "unat bytes \<le> unat (destination - source)"
      using assms(3) by (auto simp: word_less_nat_alt word_le_nat_alt no_wrap_def unat_sub_if')
    then show ?thesis using False True assms(1,2) by (simp add: nvkms_memmove_def r4nv_copy_put)
  next
    case behind: False
    then have "unat (destination - source) + unat bytes \<le> 2 ^ 64"
      using assms(4) by (auto simp: word_less_nat_alt no_wrap_def unat_sub_if')
    then show ?thesis
      using False behind diff move_back_put [OF assms(1,2)] by (simp add: nvkms_memmove_def)
  qed
qed

section \<open>Comparison\<close>

text \<open>The order of byte strings: the first difference decides, a proper prefix is smaller.\<close>

abbreviation byte_less :: "(NvU8 \<times> NvU8) set" where
  "byte_less \<equiv> {(x, y). x < y}"

text \<open>What a comparison of two byte strings has to return.\<close>

definition compares :: "NvU8 list \<Rightarrow> NvU8 list \<Rightarrow> int \<Rightarrow> bool" where
  "compares xs ys r \<longleftrightarrow> (r = 0 \<longleftrightarrow> xs = ys) \<and> (r < 0 \<longleftrightarrow> (xs, ys) \<in> lexord byte_less) \<and> \<bar>r\<bar> \<le> 255"

lemma uint_byte: "uint (x :: NvU8) \<le> 255" "0 \<le> uint x"
  using uint_bounded [of x] by simp_all

lemma compares_diff:
  assumes "x \<noteq> y"
  shows "compares (x # xs) (y # ys) (uint x - uint y)"
proof -
  have "\<bar>uint x - uint y\<bar> \<le> 255" using uint_byte [of x] uint_byte [of y] by linarith
  then show ?thesis using assms by (auto simp: compares_def word_less_def word_uint_eq_iff)
qed

lemma compares_prefix:
  assumes "x \<noteq> 0"
  shows "compares [] (x # xs) (uint (0 :: NvU8) - uint x)" "compares (x # xs) [] (uint x - uint (0 :: NvU8))"
proof -
  have "0 < uint x" "uint x \<le> 255" using assms uint_byte [of x] by (simp_all add: uint_0_iff less_le)
  then show "compares [] (x # xs) (uint (0 :: NvU8) - uint x)" "compares (x # xs) [] (uint x - uint (0 :: NvU8))"
    by (simp_all add: compares_def)
qed

lemma compares_same: "compares xs ys r \<Longrightarrow> compares (x # xs) (x # ys) r"
  by (simp add: compares_def)

lemma compares_Nil: "compares [] [] 0"
  by (simp add: compares_def)

lemma compare_loop_compares:
  "accessible m a n \<Longrightarrow> accessible m b n \<Longrightarrow>
   \<exists>r. compare_loop n m a b = Some r \<and> compares (slice m a n) (slice m b n) r"
proof (induction n arbitrary: a b)
  case (Suc n)
  then obtain x y where xy: "m a = Some x" "m b = Some y" by (auto simp: accessible_Suc)
  show ?case
  proof (cases "x = y")
    case True
    obtain r where "compare_loop n m (a + 1) (b + 1) = Some r" "compares (slice m (a + 1) n) (slice m (b + 1) n) r"
      using Suc by (auto simp: accessible_Suc)
    then show ?thesis using True xy by (auto simp: slice_Suc intro: compares_same)
  next
    case False
    then show ?thesis using xy compares_diff [OF False] by (simp add: slice_Suc)
  qed
qed (simp add: compares_Nil)

section \<open>Strings\<close>

text \<open>A terminated string: its bytes are not zero and a zero follows.\<close>

definition cstring :: "memory \<Rightarrow> NvU64 \<Rightarrow> NvU8 list \<Rightarrow> bool" where
  "cstring m a bs \<longleftrightarrow> (\<forall>i < length bs. m (a + of_nat i) = Some (bs ! i)) \<and> m (a + of_nat (length bs)) = Some 0 \<and> 0 \<notin> set bs"

lemma cstring_Nil: "cstring m a [] \<longleftrightarrow> m a = Some 0"
  by (simp add: cstring_def)

lemma cstring_Cons: "cstring m a (b # bs) \<longleftrightarrow> m a = Some b \<and> b \<noteq> 0 \<and> cstring m (a + 1) bs"
  by (auto simp: cstring_def All_less_Suc2 add.assoc)

lemma cstring_unique: "cstring m a xs \<Longrightarrow> cstring m a ys \<Longrightarrow> xs = ys"
proof (induction xs arbitrary: a ys)
  case Nil then show ?case by (cases ys) (auto simp: cstring_Nil cstring_Cons)
next
  case (Cons x xs) then show ?case by (cases ys) (auto simp: cstring_Nil cstring_Cons)
qed

lemma cstring_length:
  assumes "cstring m a bs"
  shows "length bs < 2 ^ 64"
proof (rule ccontr)
  assume "\<not> length bs < 2 ^ 64"
  let ?k = "length bs mod 2 ^ 64"
  have k: "?k < 2 ^ 64" by simp
  then have lt: "?k < length bs" using \<open>\<not> length bs < 2 ^ 64\<close> by linarith
  have "(of_nat (length bs) :: NvU64) = of_nat ?k"
    by (simp add: word_unat_eq_iff unsigned_of_nat take_bit_eq_mod)
  then have "bs ! ?k = 0" using assms lt by (auto simp: cstring_def)
  then show False using assms lt nth_mem [OF lt] by (auto simp: cstring_def)
qed

lemma length_loop_cstring:
  "cstring m (p + of_nat i) bs \<Longrightarrow> length_loop m p (of_nat i) = Some (of_nat (i + length bs))"
proof (induction bs arbitrary: i)
  case Nil
  then show ?case by (subst length_loop.simps) (simp add: cstring_Nil)
next
  case (Cons b bs)
  then have "length_loop m p (of_nat (Suc i)) = Some (of_nat (Suc i + length bs))"
    by (intro Cons.IH) (simp add: cstring_Cons algebra_simps)
  then show ?case
    using Cons.prems by (subst length_loop.simps) (simp add: cstring_Cons add.commute)
qed

lemma r4nv_length_cstring: "cstring m p bs \<Longrightarrow> r4nv_length m p = Some (of_nat (length bs))"
  using length_loop_cstring [of m p 0 bs] by (simp add: r4nv_length_def)

lemma string_compare_compares:
  "cstring m a xs \<Longrightarrow> cstring m b ys \<Longrightarrow> \<exists>r. r4nv_string_compare m a b = Some r \<and> compares xs ys r"
proof (induction xs arbitrary: a b ys)
  case Nil
  then show ?case
  proof (cases ys)
    case Nil
    with \<open>cstring m a []\<close> \<open>cstring m b ys\<close> show ?thesis
      by (subst r4nv_string_compare.simps) (simp add: cstring_Nil compares_Nil)
  next
    case (Cons y ys')
    then have y: "m b = Some y" "y \<noteq> 0" "m a = Some 0"
      using Nil.prems by (simp_all add: cstring_Cons cstring_Nil)
    then show ?thesis using compares_prefix(1) [OF y(2), of ys'] Cons by (subst r4nv_string_compare.simps) simp
  qed
next
  case (Cons x xs)
  then have x: "m a = Some x" "x \<noteq> 0" "cstring m (a + 1) xs" by (simp_all add: cstring_Cons)
  show ?case
  proof (cases ys)
    case Nil
    then have "m b = Some 0" using Cons.prems by (simp add: cstring_Nil)
    then show ?thesis using compares_prefix(2) [OF x(2), of xs] Nil x by (subst r4nv_string_compare.simps) simp
  next
    case ys: (Cons y ys')
    then have y: "m b = Some y" "y \<noteq> 0" "cstring m (b + 1) ys'" using Cons.prems by (simp_all add: cstring_Cons)
    show ?thesis
    proof (cases "x = y")
      case True
      then show ?thesis
        using Cons.IH [OF x(3) y(3)] x y ys by (subst r4nv_string_compare.simps) (auto intro: compares_same)
    next
      case False
      then show ?thesis
        using compares_diff [OF False, of xs ys'] x y ys by (subst r4nv_string_compare.simps) simp
    qed
  qed
qed


section \<open>Copying strings\<close>

lemma not_ahead:
  fixes d s :: NvU64
  assumes "i < n" "n \<le> unat (d - s)"
  shows "s + of_nat i \<noteq> d"
proof
  assume "s + of_nat i = d"
  then have "d - s = of_nat i" by (simp add: algebra_simps)
  moreover have "i < 2 ^ 64" using assms unat_lt_64 [of "d - s"] by linarith
  ultimately have "unat (d - s) = i" by (simp add: unat_of_nat_64)
  then show False using assms by simp
qed

lemma cstring_upd:
  assumes "cstring m s bs" "length bs < n" "n \<le> unat (d - s)"
  shows "cstring (m(d \<mapsto> b)) s bs"
  using assms(1) not_ahead [OF _ assms(3)] assms(2) by (auto simp: cstring_def)

lemma string_copy_loop_put:
  "cstring m s bs \<Longrightarrow> accessible m d (Suc (length bs)) \<Longrightarrow> Suc (length bs) \<le> unat (d - s) \<Longrightarrow>
   string_copy_loop m d s = Some (put m d (bs @ [0]))"
proof (induction bs arbitrary: m d s)
  case Nil
  then have "s \<noteq> d" using not_ahead [of 0 1 d s] by simp
  then show ?case
    using Nil by (subst string_copy_loop.simps)
      (auto simp: cstring_Nil accessible_Suc store_byte_def put_singleton)
next
  case (Cons b bs)
  then have b: "m s = Some b" "b \<noteq> 0" "cstring m (s + 1) bs" by (simp_all add: cstring_Cons)
  have acc: "m d \<noteq> None" "accessible m (d + 1) (Suc (length bs))" using Cons.prems by (simp_all add: accessible_Suc)
  have ne: "s \<noteq> d" using not_ahead [of 0 _ d s] Cons.prems(3) by force
  let ?m = "m(d \<mapsto> b)"
  have "unat (d - (s + 1)) = unat (d - s) - 1"
    using Cons.prems(3) offset_shift [of 1 "d - s"] by (simp add: algebra_simps)
  then have "cstring ?m (s + 1) bs"
    using b(3) Cons.prems(3) by (intro cstring_upd [of _ _ _ "Suc (length bs)"]) simp_all
  moreover have "accessible ?m (d + 1) (Suc (length bs))"
    using accessible_put [OF acc(2), of d "[b]"] by (simp add: put_singleton)
  moreover have "Suc (length bs) \<le> unat (d + 1 - (s + 1))" using Cons.prems(3) by simp
  ultimately have "string_copy_loop ?m (d + 1) (s + 1) = Some (put ?m (d + 1) (bs @ [0]))"
    by (rule Cons.IH)
  moreover have "put ?m (d + 1) (bs @ [0]) = put m d ((b # bs) @ [0])"
    using put_append [of "[b]" "bs @ [0]" m d] Cons.prems(3) unat_lt_64 [of "d - s"] by (simp add: put_singleton)
  ultimately show ?case
    using b acc(1) ne by (subst string_copy_loop.simps) (simp add: store_byte_def)
qed

lemma put_behind:
  assumes "i < n" "k \<le> i" "n \<le> unat (d - s)" "length bs = k"
  shows "put m d bs (s + of_nat i) = m (s + of_nat i)"
proof -
  have "\<not> unat (s + of_nat i - d) < k"
  proof
    assume lt: "unat (s + of_nat i - d) < k"
    define j where "j = unat (s + of_nat i - d)"
    have "s + of_nat i - d = of_nat j" by (simp add: j_def)
    then have "s + of_nat (i - j) = d" using lt assms(2) by (simp add: j_def of_nat_diff algebra_simps)
    then show False using not_ahead [of "i - j" n d s] assms(1,3) by simp
  qed
  then show ?thesis using assms(4) by (simp add: put_def)
qed

lemma strncpy_loop_put:
  assumes "cstring m0 s bs" "accessible m0 d n" "n \<le> unat (d - s)"
  shows "k + i = n \<Longrightarrow> i \<le> length bs \<Longrightarrow>
    strncpy_loop k (put m0 d (take i bs)) d s (of_nat i) = Some (put m0 d (take n bs), of_nat (min n (length bs)))"
proof (induction k arbitrary: i)
  case (Suc k)
  let ?m = "put m0 d (take i bs)"
  have src: "?m (s + of_nat i) = m0 (s + of_nat i)"
    by (rule put_behind [of i n i]) (use Suc.prems assms(3) in simp_all)
  show ?case
  proof (cases "i = length bs")
    case True
    then show ?thesis using assms(1) src Suc.prems(1) by (simp add: cstring_def min_def)
  next
    case False
    then have i: "i < length bs" using Suc.prems by simp
    have c: "?m (s + of_nat i) = Some (bs ! i)" using assms(1) src i by (simp add: cstring_def)
    have nz: "bs ! i \<noteq> 0" using assms(1) nth_mem [OF i] unfolding cstring_def by metis
    have "m0 (d + of_nat i) \<noteq> None" using assms(2) Suc.prems(1) by (auto simp: accessible_def)
    then have acc: "?m (d + of_nat i) \<noteq> None" by (simp add: put_def)
    have "n \<le> 2 ^ 64" using assms(3) unat_lt_64 [of "d - s"] by linarith
    then have "put ?m (d + of_nat i) [bs ! i] = put m0 d (take (Suc i) bs)"
      using put_append [of "take i bs" "[bs ! i]" m0 d] i Suc.prems(1) by (simp add: take_Suc_conv_app_nth)
    then have st: "store_byte ?m (d + of_nat i) (bs ! i) = Some (put m0 d (take (Suc i) bs))"
      using acc by (simp add: store_byte_def put_singleton)
    have "strncpy_loop k (put m0 d (take (Suc i) bs)) d s (of_nat (Suc i)) = Some (put m0 d (take n bs), of_nat (min n (length bs)))"
      by (rule Suc.IH) (use Suc.prems i in simp_all)
    then show ?thesis using c nz st by (simp add: add.commute)
  qed
qed simp

lemma nvkms_strncpy_put:
  assumes "cstring m s bs" "accessible m d (unat n)" "unat n \<le> unat (d - s)"
  shows "nvkms_strncpy m d s n = Some (put m d (take (unat n) bs @ replicate (unat n - length bs) 0), d)"
proof -
  have loop: "strncpy_loop (unat n) m d s 0 = Some (put m d (take (unat n) bs), of_nat (min (unat n) (length bs)))"
    using strncpy_loop_put [OF assms, of "unat n" 0] by simp
  have len: "length bs < 2 ^ 64" using assms(1) by (rule cstring_length)
  show ?thesis
  proof (cases "length bs < unat n")
    case True
    let ?l = "of_nat (length bs) :: NvU64"
    have l: "unat ?l = length bs" using len by (rule unat_of_nat_64)
    then have lt: "?l < n" using True by (simp add: word_less_nat_alt)
    have sub: "unat (n - ?l) = unat n - length bs" using lt by (simp add: unat_sub l)
    have "accessible m (d + ?l) (unat n - length bs)"
      using assms(2) True accessible_add [of m d "length bs" "unat n - length bs"] by simp
    then have "r4nv_set (put m d bs) (d + ?l) 0 (n - ?l) =
        Some (put (put m d bs) (d + ?l) (replicate (unat n - length bs) 0), d + ?l)"
      using r4nv_set_put [of "put m d bs" "d + ?l" "n - ?l" 0] by (simp add: sub accessible_put)
    moreover have "put (put m d bs) (d + ?l) (replicate (unat n - length bs) 0) =
        put m d (bs @ replicate (unat n - length bs) 0)"
      using True unat_lt_64 [of n] by (intro put_append) simp_all
    ultimately show ?thesis
      using True lt by (simp add: nvkms_strncpy_def loop)
  next
    case False
    then have "\<not> (of_nat (min (unat n) (length bs)) :: NvU64) < n" by (simp add: min_def)
    then show ?thesis using False by (simp add: nvkms_strncpy_def loop)
  qed
qed


lemma ucast_of_nat_32: "(ucast (of_nat n :: NvU64) :: NvU32) = of_nat n"
  by (simp add: word_unat_eq_iff unsigned_ucast_eq unsigned_of_nat)

lemma slice_put_same: "length bs \<le> 2 ^ 64 \<Longrightarrow> slice (put m a bs) a (length bs) = bs"
  by (rule nth_equalityI) (simp_all add: put_at)

lemma put_outside: "\<not> unat (x - a) < length bs \<Longrightarrow> put m a bs x = m x"
  by (simp add: put_def)

section \<open>Properties\<close>

text \<open>A small memory for the witnesses: 64 bytes from address 4096, counting up from 1, the last
  one a terminator.\<close>

definition sample_memory :: memory where
  "sample_memory a = (if 4096 \<le> a \<and> a < 4160 then Some (if a = 4159 then 0 else ucast (a - 4095)) else None)"

lemma sample_accessible:
  assumes "4096 \<le> unat a" "unat a + n \<le> 4160"
  shows "accessible sample_memory a n"
  unfolding accessible_def
proof (intro allI impI)
  fix i assume i: "i < n"
  have "unat (a + of_nat i) = unat a + i"
    using assms i by (subst unat_add_nowrap) (simp_all add: unat_of_nat_64)
  then show "sample_memory (a + of_nat i) \<noteq> None"
    using assms i by (simp add: sample_memory_def word_le_nat_alt word_less_nat_alt)
qed

lemma sample_cstring: "cstring sample_memory 4156 [61, 62, 63]"
  by (simp add: cstring_Cons cstring_Nil sample_memory_def)

text \<open>
  C14: \<open>nvkms_memmove\<close> moves every byte even when the spans overlap in either direction: for accessible
  spans that do not wrap around the address space, the destination afterwards holds what the source
  held before, no other byte changes, and the destination pointer is returned.
\<close>

theorem memmove_correct:
  assumes "accessible m source (unat bytes)" and "accessible m destination (unat bytes)"
    and "no_wrap source (unat bytes)" and "no_wrap destination (unat bytes)"
  shows "\<exists>m'. nvkms_memmove m destination source bytes = Some (m', destination) \<and>
    slice m' destination (unat bytes) = slice m source (unat bytes) \<and>
    (\<forall>a. \<not> unat (a - destination) < unat bytes \<longrightarrow> m' a = m a)"
  using nvkms_memmove_put [OF assms] slice_put_same [of "slice m source (unat bytes)" m destination] unat_lt_64 [of bytes]
  by (auto simp: put_outside)

theorem memmove_correct_witness:
  "\<exists>m'. nvkms_memmove sample_memory 4100 4096 16 = Some (m', 4100) \<and>
     slice m' 4100 16 = slice sample_memory 4096 16"
  using memmove_correct [of sample_memory 4096 16 4100] by (auto simp: sample_accessible no_wrap_def)

text \<open>
  \<open>r4nv_copy\<close>, quadwords first and then the tail, copies the whole span whenever the destination does
  not start inside the source, so also for an overlap below it; \<open>os_mem_copy\<close> and \<open>nvkms_memcpy\<close> inherit it.
\<close>

theorem copy_correct:
  assumes "accessible m source (unat bytes)" and "accessible m destination (unat bytes)"
    and "unat bytes \<le> unat (destination - source)"
  shows "r4nv_copy m destination source bytes = Some (put m destination (slice m source (unat bytes)), destination) \<and>
    nvkms_memcpy m destination source bytes = Some (put m destination (slice m source (unat bytes)), destination)"
  using r4nv_copy_put [OF assms] by (simp add: nvkms_memcpy_def)

theorem copy_correct_witness:
  "nvkms_memcpy sample_memory 4120 4096 21 = Some (put sample_memory 4120 (slice sample_memory 4096 21), 4120)"
  using copy_correct [of sample_memory 4096 21 4120] by (simp add: sample_accessible)

text \<open>
  \<open>r4nv_set\<close>, which stores the value multiplied into a quadword pattern and then the tail bytes,
  fills exactly the span with the value.
\<close>

theorem memset_correct:
  assumes "accessible m destination (unat bytes)"
  shows "r4nv_set m destination value bytes = Some (put m destination (replicate (unat bytes) value), destination)"
  by (rule r4nv_set_put [OF assms])

theorem memset_correct_witness:
  "r4nv_set sample_memory 4099 0xA5 13 = Some (put sample_memory 4099 (replicate 13 0xA5), 4099)"
  using memset_correct [of sample_memory 4099 13 "0xA5"] by (simp add: sample_accessible)

text \<open>
  the memory and string comparisons are total on accessible spans and terminated strings: zero
  exactly for equal contents, negative exactly when the left one is smaller in the byte order (a prefix
  is smaller), never beyond 255 in size; and the string length is the number of bytes before the
  terminator, which RM's adapter truncates to 32 bits.
\<close>

theorem comparisons_correct:
  assumes "accessible m a (unat n)" and "accessible m b (unat n)" and "cstring m p xs" and "cstring m q ys"
  shows "(\<exists>r. r4nv_compare m a b n = Some r \<and> compares (slice m a (unat n)) (slice m b (unat n)) r) \<and>
    (\<exists>r. r4nv_string_compare m p q = Some r \<and> compares xs ys r) \<and>
    nvkms_strlen m p = Some (of_nat (length xs)) \<and> os_string_length m p = Some (of_nat (length xs))"
  using compare_loop_compares [OF assms(1,2)] string_compare_compares [OF assms(3,4)] r4nv_length_cstring [OF assms(3)]
  by (simp add: r4nv_compare_def nvkms_strlen_def os_string_length_def ucast_of_nat_32)

theorem comparisons_correct_witness:
  "\<exists>r. r4nv_compare sample_memory 4096 4100 8 = Some r \<and> compares (slice sample_memory 4096 8) (slice sample_memory 4100 8) r"
  using comparisons_correct [OF _ _ sample_cstring sample_cstring, of 4096 8 4100] by (simp add: sample_accessible)

text \<open>
  \<open>os_string_copy\<close> copies a terminated string with its terminator, and \<open>nvkms_strncpy\<close> copies at most
  the given count and fills the rest of the destination with zeros; neither touches another byte.
\<close>

theorem string_copies_correct:
  assumes "cstring m s bs" and "accessible m d (Suc (length bs))" and "Suc (length bs) \<le> unat (d - s)"
    and "accessible m e (unat n)" and "unat n \<le> unat (e - s)"
  shows "os_string_copy m d s = Some (put m d (bs @ [0]), d) \<and>
    nvkms_strncpy m e s n = Some (put m e (take (unat n) bs @ replicate (unat n - length bs) 0), e)"
  using string_copy_loop_put [OF assms(1-3)] nvkms_strncpy_put [OF assms(1,4,5)] by (simp add: os_string_copy_def)

theorem string_copies_correct_witness:
  "os_string_copy sample_memory 4096 4156 = Some (put sample_memory 4096 ([61, 62, 63] @ [0]), 4096) \<and>
   nvkms_strncpy sample_memory 4100 4156 6 = Some (put sample_memory 4100 ([61, 62, 63] @ replicate 3 0), 4100)"
  using string_copies_correct [OF sample_cstring, of 4096 4100 6] by (simp add: sample_accessible)

end
