(* ===== verification/Rm_Native.thy ===== *)
theory Rm_Native
  imports Prelude
begin
unbundle bit_operations_syntax

text \<open>
  What the RM adapters share: the status codes they return and the abort of a native callback, \<^verbatim>\<open>r4nv_native_fault\<close>
  (\<^verbatim>\<open>src/rm/native_fault.h\<close>, \<^verbatim>\<open>src/rm_native.zig\<close>). A C function that may call it does not always return: it has
  an \<open>outcome\<close>. The second part is \<^verbatim>\<open>currentInvocation\<close>, which the waits call.
\<close>

section \<open>Definitions\<close>

type_synonym NV_STATUS = NvU32

abbreviation (input) NV_OK :: NV_STATUS where "NV_OK \<equiv> 0"
abbreviation (input) NV_ERR_ILLEGAL_ACTION :: NV_STATUS where "NV_ERR_ILLEGAL_ACTION \<equiv> 0x16"
abbreviation (input) NV_ERR_INVALID_ARGUMENT :: NV_STATUS where "NV_ERR_INVALID_ARGUMENT \<equiv> 0x1F"
abbreviation (input) NV_ERR_INVALID_REQUEST :: NV_STATUS where "NV_ERR_INVALID_REQUEST \<equiv> 0x3F"
abbreviation (input) NV_ERR_INVALID_STATE :: NV_STATUS where "NV_ERR_INVALID_STATE \<equiv> 0x40"
abbreviation (input) NV_ERR_NO_MEMORY :: NV_STATUS where "NV_ERR_NO_MEMORY \<equiv> 0x51"
abbreviation (input) NV_ERR_SIGNAL_PENDING :: NV_STATUS where "NV_ERR_SIGNAL_PENDING \<equiv> 0x64"
abbreviation (input) NV_ERR_TIMEOUT :: NV_STATUS where "NV_ERR_TIMEOUT \<equiv> 0x65"
abbreviation (input) NV_ERR_TIMEOUT_RETRY :: NV_STATUS where "NV_ERR_TIMEOUT_RETRY \<equiv> 0x66"

abbreviation (input) R4NV_FAULT_SEMAPHORE_FREE :: NvU32 where "R4NV_FAULT_SEMAPHORE_FREE \<equiv> 1"
abbreviation (input) R4NV_FAULT_SEMAPHORE_DOWN :: NvU32 where "R4NV_FAULT_SEMAPHORE_DOWN \<equiv> 2"
abbreviation (input) R4NV_FAULT_SEMAPHORE_UP :: NvU32 where "R4NV_FAULT_SEMAPHORE_UP \<equiv> 3"
abbreviation (input) R4NV_FAULT_WAIT :: NvU32 where "R4NV_FAULT_WAIT \<equiv> 4"
abbreviation (input) R4NV_FAULT_YIELD :: NvU32 where "R4NV_FAULT_YIELD \<equiv> 5"

text \<open>
  A call returns, or its Task is ended by the kernel, or the machine stops at a trap.
\<close>

datatype stop = Aborted | Trapped

datatype 'a outcome = Returned 'a | Stopped stop

text \<open>
  The module's variables: whether a thread service is bound, and the latch. \<open>n_admitted\<close> is the kernel's:
  the current Task is one that its \<^verbatim>\<open>abortCurrent\<close> ends (an abortable Task outside interrupts and
  critical sections); for any other it returns.
\<close>

record native_state =
  n_threads :: bool
  n_admitted :: bool
  n_first_fault :: NvU64
  n_faults :: NvU64

text \<open>Of an offered service the binding keeps one that can abort and can tell the current request.\<close>

record thread_candidate =
  tc_can_abort :: bool
  tc_has_current_request :: bool

definition native_bind :: "thread_candidate option \<Rightarrow> native_state \<Rightarrow> native_state" where
  "native_bind candidate st =
     st\<lparr>n_threads := (case candidate of None \<Rightarrow> False | Some c \<Rightarrow> tc_can_abort c \<and> tc_has_current_request c),
        n_first_fault := 0, n_faults := 0\<rparr>"

definition native_unbind :: "native_state \<Rightarrow> native_state" where
  "native_unbind st = st\<lparr>n_threads := False\<rparr>"

definition native_available :: "native_state \<Rightarrow> bool" where
  "native_available st = n_threads st"

definition r4nv_native_fault :: "NvU32 \<Rightarrow> NvU32 \<Rightarrow> native_state \<Rightarrow> stop \<times> native_state" where
  "r4nv_native_fault operation result st =
     (let encoded = push_bit 32 (ucast operation) OR ucast result in
      if operation = 0 then (Trapped, st)
      else let st = st\<lparr>n_first_fault := (if n_first_fault st = 0 then encoded else n_first_fault st),
                       n_faults := n_faults st + 1\<rparr> in
        (if n_threads st \<and> n_admitted st then Aborted else Trapped, st))"

subsection \<open>The current invocation\<close>

text \<open>Constants of the kernel's interface, and the address of \<^verbatim>\<open>enter\<close>.\<close>

record thread_abi =
  ta_err_no_fn :: NvU32
  ta_closed :: NvU32
  ta_invalid :: NvU32
  ta_abortable :: NvU32
  ta_enter :: NvU64

record thread_request =
  tr_handler :: NvU64
  tr_context :: NvU64
  tr_flags :: NvU32

text \<open>
  The kernel's thread service: the request of the current Task (none: the call failed), and the start of a
  Task with its code and handle.
\<close>

record 'w thread_service =
  ts_current_request :: "'w \<Rightarrow> thread_request option"
  ts_start :: "thread_request \<Rightarrow> 'w \<Rightarrow> (NvU32 \<times> NvU64) \<times> 'w"

text \<open>
  The address of the invocation whose Task is the current one: only \<^verbatim>\<open>enter\<close> is started with an \<^verbatim>\<open>Invocation\<close> as its
  context.
\<close>

definition currentInvocation :: "thread_abi \<Rightarrow> 'w thread_service \<Rightarrow> bool \<Rightarrow> 'w \<Rightarrow> NvU64 option" where
  "currentInvocation abi service threads w =
     (if \<not> threads then None
      else (case ts_current_request service w of
          None \<Rightarrow> None
        | Some request \<Rightarrow>
            if tr_handler request \<noteq> ta_enter abi \<or> tr_context request = 0 \<or> tr_flags request AND ta_abortable abi = 0
            then None else Some (tr_context request)))"

section \<open>The latch\<close>

text \<open>The encoding keeps both words apart.\<close>

lemma fault_encoded_operation:
  "ucast (drop_bit 32 (push_bit 32 (ucast operation) OR ucast (result :: NvU32) :: NvU64)) = (operation :: NvU32)"
  by (rule bit_word_eqI) (auto simp: bit_simps dest: bit_imp_le_length [of result])

lemma fault_encoded_result: "ucast (push_bit 32 (ucast operation) OR ucast result :: NvU64) = (result :: NvU32)"
  by (rule bit_word_eqI) (auto simp: bit_simps)

lemma fault_encoded_nonzero: "operation \<noteq> 0 \<Longrightarrow> (push_bit 32 (ucast (operation :: NvU32)) OR ucast (result :: NvU32) :: NvU64) \<noteq> 0"
proof
  assume "operation \<noteq> 0" "push_bit 32 (ucast operation) OR ucast result = (0 :: NvU64)"
  then show False using fault_encoded_operation [of operation result] by simp
qed

text \<open>
  The first fault is latched. After any sequence of faults of defined operations on an unlatched
  state, the latch holds the first one, both its operation and its result readable from it, the later
  ones are counted; a fault inside a Task the kernel can end ends it, any other traps.
\<close>

theorem first_fault_latched:
  assumes "n_first_fault st = 0" "list_all (\<lambda>(operation, result). operation \<noteq> 0) ((op, r) # later)"
  shows "let st' = foldl (\<lambda>st (operation, result). snd (r4nv_native_fault operation result st)) st ((op, r) # later) in
      ucast (drop_bit 32 (n_first_fault st')) = op \<and> ucast (n_first_fault st') = r \<and> n_first_fault st' \<noteq> 0 \<and>
      n_faults st' = n_faults st + of_nat (length later + 1) \<and>
      fst (r4nv_native_fault op r st) = (if n_threads st \<and> n_admitted st then Aborted else Trapped)"
proof -
  define e where "e = (push_bit 32 (ucast op) OR ucast r :: NvU64)"
  define run where "run = foldl (\<lambda>st (operation, result). snd (r4nv_native_fault operation result st))"
  have latched: "n_first_fault (run s fs) = e \<and> n_faults (run s fs) = n_faults s + of_nat (length fs)"
    if "n_first_fault s = e" "e \<noteq> 0" "list_all (\<lambda>(operation, result). operation \<noteq> 0) fs" for s fs
    using that unfolding run_def by (induction fs arbitrary: s) (auto simp: r4nv_native_fault_def Let_def)
  define s where "s = snd (r4nv_native_fault op r st)"
  have one: "n_first_fault s = e" "n_faults s = n_faults st + 1" "e \<noteq> 0"
    "fst (r4nv_native_fault op r st) = (if n_threads st \<and> n_admitted st then Aborted else Trapped)"
    using assms fault_encoded_nonzero [of op r] by (simp_all add: r4nv_native_fault_def Let_def e_def s_def)
  have "foldl (\<lambda>st (operation, result). snd (r4nv_native_fault operation result st)) st ((op, r) # later) = run s later"
    by (simp add: run_def s_def)
  then show ?thesis
    using latched [OF one(1,3), of later] assms(2) one fault_encoded_operation [of op r] fault_encoded_result [of op r]
    by (simp add: e_def [symmetric] Let_def)
qed

theorem first_fault_latched_witness:
  "let st' = foldl (\<lambda>st (operation, result). snd (r4nv_native_fault operation result st))
        \<lparr>n_threads = True, n_admitted = True, n_first_fault = 0, n_faults = 7\<rparr> [(2, 3), (4, 1)] in
   ucast (drop_bit 32 (n_first_fault st')) = (2 :: NvU32) \<and> ucast (n_first_fault st') = (3 :: NvU32) \<and> n_faults st' = 9"
  using first_fault_latched [of "\<lparr>n_threads = True, n_admitted = True, n_first_fault = 0, n_faults = 7\<rparr>" 2 3 "[(4, 1)]"] by (simp only: Let_def foldl_Cons list.size) simp

end
