(* ===== verification/Rm_Heap.thy ===== *)
theory Rm_Heap
  imports Rm_Memory Rm_Native
begin
unbundle bit_operations_syntax

text \<open>
  Heap memory of the RM source port: the provider \<^verbatim>\<open>src/rm_heap.zig\<close> and its clients \<^verbatim>\<open>os_alloc_mem\<close>,
  \<^verbatim>\<open>os_free_mem\<close> (\<^verbatim>\<open>os_memory.c\<close>) and \<^verbatim>\<open>nvkms_alloc\<close>, \<^verbatim>\<open>nvkms_free\<close> (\<^verbatim>\<open>nvkms_memory.c\<close>).

  The kernel's heap service is external. It is a pair of functions on the kernel's state and memory, held
  by the state when the module is bound; nothing is assumed of it in the definitions. Its status is
  whether the code is \<^verbatim>\<open>driver_heap_ok\<close>. The clients are defined over the provider's two functions, as
  \<^verbatim>\<open>memory.h\<close> declares them, and their lemmas are proved for every provider with the laws of the locale
  \<open>heap_provider\<close>, which \<^verbatim>\<open>rm_heap.zig\<close> satisfies with any service.
\<close>

section \<open>Definitions\<close>

record DriverHeapAllocation =
  a_handle :: NvU64
  a_cpu_address :: NvU64
  a_byte_length :: NvU64

record 'w heap_service =
  hs_allocate :: "NvU64 \<Rightarrow> NvU64 \<Rightarrow> 'w \<times> memory \<Rightarrow> bool \<times> DriverHeapAllocation \<times> 'w \<times> memory"
  hs_release :: "NvU64 \<Rightarrow> 'w \<times> memory \<Rightarrow> bool \<times> 'w \<times> memory"

text \<open>
  The module's variables with the kernel's state and the memory.
\<close>

record 'w heap_state =
  h_context :: "'w heap_service option"
  h_failed_releases :: NvU64
  h_world :: 'w
  h_memory :: memory

abbreviation (input) cookie_mask :: NvU64 where "cookie_mask \<equiv> 0x52344E5648454150"

abbreviation (input) HEADER_BYTES :: NvU64 where "HEADER_BYTES \<equiv> 16"

definition heap_bind :: "'w heap_service option \<Rightarrow> 'w heap_state \<Rightarrow> 'w heap_state" where
  "heap_bind service st = st\<lparr>h_context := service, h_failed_releases := 0\<rparr>"

definition heap_unbind :: "'w heap_state \<Rightarrow> 'w heap_state" where
  "heap_unbind st = st\<lparr>h_context := None\<rparr>"

definition heap_available :: "'w heap_state \<Rightarrow> bool" where
  "heap_available st = (h_context st \<noteq> None)"

definition call_release :: "'w heap_service \<Rightarrow> NvU64 \<Rightarrow> 'w heap_state \<Rightarrow> bool \<times> 'w heap_state" where
  "call_release ctx handle st =
     (let (ok, w, m) = hs_release ctx handle (h_world st, h_memory st) in (ok, st\<lparr>h_world := w, h_memory := m\<rparr>))"

definition count_failed_release :: "'w heap_state \<Rightarrow> 'w heap_state" where
  "count_failed_release st = st\<lparr>h_failed_releases := h_failed_releases st + 1\<rparr>"

text \<open>The prefix in front of an allocation: handle and cookie, both little-endian.\<close>

definition header_bytes :: "NvU64 \<Rightarrow> NvU64 \<Rightarrow> NvU8 list" where
  "header_bytes handle address = quad_bytes handle @ quad_bytes (handle XOR address XOR cookie_mask)"

definition quad_value :: "NvU8 list \<Rightarrow> NvU64" where
  "quad_value bs = foldr (\<lambda>b v. ucast b OR push_bit 8 v) bs 0"

text \<open>The checks on an allocation the service has granted.\<close>

definition allocation_refused :: "DriverHeapAllocation \<Rightarrow> NvU64 \<Rightarrow> bool" where
  "allocation_refused allocation requested \<longleftrightarrow>
     a_handle allocation = 0 \<or> a_cpu_address allocation = 0 \<or> a_cpu_address allocation AND 15 \<noteq> 0 \<or>
     a_byte_length allocation \<noteq> requested \<or> a_cpu_address allocation > - 1 - requested"

definition r4nv_heap_allocate :: "NvU64 \<Rightarrow> 'w heap_state \<Rightarrow> (NvU64 \<times> 'w heap_state) option" where
  "r4nv_heap_allocate bytes st =
     (case h_context st of
        None \<Rightarrow> Some (0, st)
      | Some ctx \<Rightarrow>
          if unat (max bytes 1) + 16 \<ge> 2 ^ 64 then Some (0, st)
          else do {
            let requested = max bytes 1 + HEADER_BYTES;
            let (ok, allocation, w, m) = hs_allocate ctx requested 16 (h_world st, h_memory st);
            let st = st\<lparr>h_world := w, h_memory := m\<rparr>;
            if \<not> ok then Some (0, st)
            else if allocation_refused allocation requested then
              (if a_handle allocation \<noteq> 0 then
                 (let (ok, st) = call_release ctx (a_handle allocation) st in
                  Some (0, if \<not> ok then count_failed_release st else st))
               else Some (0, st))
            else do {
              let address = a_cpu_address allocation;
              m \<leftarrow> store_bytes (h_memory st) address (header_bytes (a_handle allocation) address);
              Some (address + HEADER_BYTES, st\<lparr>h_memory := m\<rparr>)
            }
          })"

definition heap_release :: "NvU64 \<Rightarrow> 'w heap_state \<Rightarrow> (bool \<times> 'w heap_state) option" where
  "heap_release address st =
     (if address = 0 then Some (True, st)
      else (case h_context st of
          None \<Rightarrow> Some (False, st)
        | Some ctx \<Rightarrow>
            if address < HEADER_BYTES \<or> address AND 15 \<noteq> 0 then Some (False, count_failed_release st)
            else do {
              let header = address - HEADER_BYTES;
              handle \<leftarrow> map_option quad_value (load_bytes (h_memory st) header 8);
              cookie \<leftarrow> map_option quad_value (load_bytes (h_memory st) (header + 8) 8);
              if handle = 0 \<or> cookie \<noteq> handle XOR header XOR cookie_mask then Some (False, count_failed_release st)
              else let (ok, st) = call_release ctx handle st in
                Some (if ok then (True, st) else (False, count_failed_release st))
            }))"

definition r4nv_heap_free :: "NvU64 \<Rightarrow> 'w heap_state \<Rightarrow> 'w heap_state option" where
  "r4nv_heap_free address st = map_option snd (heap_release address st)"

subsection \<open>The clients\<close>

text \<open>
  \<^verbatim>\<open>os_alloc_mem\<close> returns the status and what \<^verbatim>\<open>*address\<close> holds afterwards; its first argument says whether
  the caller passed a place for it.
\<close>

definition os_alloc_mem ::
  "(NvU64 \<Rightarrow> 's \<Rightarrow> (NvU64 \<times> 's) option) \<Rightarrow> bool \<Rightarrow> NvU64 \<Rightarrow> 's \<Rightarrow> (NV_STATUS \<times> NvU64 option \<times> 's) option" where
  "os_alloc_mem allocate address bytes st =
     (if \<not> address then Some (NV_ERR_INVALID_ARGUMENT, None, st)
      else do {
        (p, st) \<leftarrow> allocate (if bytes = 0 then 1 else bytes) st;
        Some (if p = 0 then NV_ERR_NO_MEMORY else NV_OK, Some p, st)
      })"

definition os_free_mem :: "(NvU64 \<Rightarrow> 's \<Rightarrow> 's option) \<Rightarrow> NvU64 \<Rightarrow> 's \<Rightarrow> 's option" where
  "os_free_mem free address st = (if address \<noteq> 0 then free address st else Some st)"

text \<open>Memory is reached through the provider's state by the two access functions of the last arguments.\<close>

definition nvkms_alloc ::
  "(NvU64 \<Rightarrow> 's \<Rightarrow> (NvU64 \<times> 's) option) \<Rightarrow> ('s \<Rightarrow> memory) \<Rightarrow> (memory \<Rightarrow> 's \<Rightarrow> 's) \<Rightarrow>
    NvU64 \<Rightarrow> bool \<Rightarrow> 's \<Rightarrow> (NvU64 \<times> 's) option" where
  "nvkms_alloc allocate mem set_mem bytes zero st = do {
     (memory, st) \<leftarrow> allocate (if bytes = 0 then 1 else bytes) st;
     if memory \<noteq> 0 \<and> zero then do {
       (m, _) \<leftarrow> r4nv_set (mem st) memory 0 bytes;
       Some (memory, set_mem m st)
     }
     else Some (memory, st)
   }"

definition nvkms_free :: "(NvU64 \<Rightarrow> 's \<Rightarrow> 's option) \<Rightarrow> NvU64 \<Rightarrow> NvU64 \<Rightarrow> 's \<Rightarrow> 's option" where
  "nvkms_free free memory bytes st = (if memory \<noteq> 0 then free memory st else Some st)"

section \<open>The prefix\<close>

lemma quad_bytes_length [simp]: "length (quad_bytes w) = 8"
  by (simp add: quad_bytes_def)

lemma header_bytes_length [simp]: "length (header_bytes handle address) = 16"
  by (simp add: header_bytes_def)

text \<open>A quadword is read back from its bytes.\<close>

lemma bit_quad_fold:
  assumes "n < 64" "length bs = 8"
  shows "bit (quad_value bs) n \<longleftrightarrow> bit (bs ! (n div 8)) (n mod 8)"
proof -
  have "bit (foldr (\<lambda>b v. ucast b OR push_bit 8 v) cs (0 :: NvU64)) k \<longleftrightarrow>
      k div 8 < length cs \<and> bit (cs ! (k div 8)) (k mod 8)" if "k < 64" for k and cs :: "NvU8 list"
    using that
  proof (induction cs arbitrary: k)
    case (Cons c cs)
    show ?case
    proof (cases "k < 8")
      case True
      then show ?thesis by (simp add: bit_simps)
    next
      case False
      then have "k div 8 = Suc ((k - 8) div 8)" "k mod 8 = (k - 8) mod 8" by (simp_all add: le_mod_geq le_div_geq)
      then show ?thesis using False Cons.IH [of "k - 8"] Cons.prems
        by (auto simp: bit_simps dest: bit_imp_le_length [of c])
    qed
  qed simp
  moreover have "n div 8 < 8" using assms(1) by simp
  ultimately show ?thesis using assms by (simp add: quad_value_def)
qed

lemma quad_roundtrip: "quad_value (quad_bytes w) = w"
proof (rule bit_word_eqI)
  fix n assume n: "n < LENGTH(64)"
  then have "quad_bytes w ! (n div 8) = ucast (drop_bit (8 * (n div 8)) w)"
    using nth_upt [of 0 "n div 8" 8] by (simp add: quad_bytes_def)
  then show "bit (quad_value (quad_bytes w)) n \<longleftrightarrow> bit w n"
    using bit_quad_fold [of n "quad_bytes w"] n by (simp add: bit_simps)
qed

text \<open>The prefix as it is read from memory.\<close>

definition header_at :: "memory \<Rightarrow> NvU64 \<Rightarrow> NvU64 \<Rightarrow> bool" where
  "header_at m address handle \<longleftrightarrow> load_bytes m address 16 = Some (header_bytes handle address)"

lemma load_bytes_length: "load_bytes m a n = Some bs \<Longrightarrow> length bs = n"
  by (induction n arbitrary: a bs) (auto split: bind_splits)

lemma load_bytes_cong: "(\<And>i. i < n \<Longrightarrow> m (a + of_nat i) = m' (a + of_nat i)) \<Longrightarrow> load_bytes m a n = load_bytes m' a n"
proof (induction n arbitrary: a)
  case (Suc n)
  have "m (a + 1 + of_nat i) = m' (a + 1 + of_nat i)" if "i < n" for i
    using Suc.prems [of "Suc i"] that by (simp add: add.assoc)
  then show ?case using Suc.IH [of "a + 1"] Suc.prems [of 0] by simp
qed simp

lemma load_bytes_append:
  "load_bytes m a (n + k) = (case load_bytes m a n of None \<Rightarrow> None
    | Some xs \<Rightarrow> map_option (\<lambda>ys. xs @ ys) (load_bytes m (a + of_nat n) k))"
proof (induction n arbitrary: a)
  case 0
  show ?case by (cases "load_bytes m a k") simp_all
next
  case (Suc n)
  then show ?case
    by (cases "m a"; cases "load_bytes m (a + 1) n"; cases "load_bytes m (a + 1 + of_nat n) k") (simp_all add: add.assoc)
qed

lemma quad_pair_words:
  assumes "load_bytes m address 16 = Some (quad_bytes x @ quad_bytes y)"
  shows "map_option quad_value (load_bytes m address 8) = Some x"
    "map_option quad_value (load_bytes m (address + 8) 8) = Some y"
proof -
  have "load_bytes m address (8 + 8) = Some (quad_bytes x @ quad_bytes y)" using assms by simp
  then obtain xs ys where l: "load_bytes m address 8 = Some xs" "load_bytes m (address + 8) 8 = Some ys"
    "xs @ ys = quad_bytes x @ quad_bytes y"
    unfolding load_bytes_append by (auto split: option.split_asm)
  have "length xs = 8" using l(1) by (rule load_bytes_length)
  then show "map_option quad_value (load_bytes m address 8) = Some x"
    "map_option quad_value (load_bytes m (address + 8) 8) = Some y"
    using l by (simp_all add: quad_roundtrip)
qed

lemma header_at_words:
  assumes "header_at m address handle"
  shows "map_option quad_value (load_bytes m address 8) = Some handle"
    "map_option quad_value (load_bytes m (address + 8) 8) = Some (handle XOR address XOR cookie_mask)"
  using assms quad_pair_words [of m address handle "handle XOR address XOR cookie_mask"]
  by (simp_all only: header_at_def header_bytes_def)

lemma load_bytes_put:
  assumes "accessible m address (length bs)" "length bs \<le> 2 ^ 64"
  shows "load_bytes (put m address bs) address (length bs) = Some bs"
  using load_bytes_slice [OF accessible_put [OF assms(1)], of address bs] slice_put_same [OF assms(2)] by simp

lemma header_at_put:
  assumes "accessible m address 16"
  shows "header_at (put m address (header_bytes handle address)) address handle"
  using assms load_bytes_put [of m address "header_bytes handle address"] by (simp add: header_at_def)

section \<open>Allocation\<close>

lemma aligned_iff: "(x :: NvU64) AND 15 = 0 \<longleftrightarrow> 16 dvd unat x"
proof -
  have "x AND 15 = take_bit 4 x" by (simp add: take_bit_eq_mask mask_eq_exp_minus_1)
  moreover have "unat (take_bit 4 x) = unat x mod 16" by (simp add: unsigned_take_bit_eq take_bit_eq_mod)
  ultimately show ?thesis by (metis mod_eq_0_iff_dvd unat_eq_zero)
qed

lemma aligned_add_16: "(x :: NvU64) AND 15 = 0 \<Longrightarrow> (x + 16) AND 15 = 0"
  unfolding aligned_iff by (simp add: unat_word_ariths dvd_mod)

lemma request_bytes:
  assumes "unat (max bytes 1) + 16 < 2 ^ 64"
  shows "unat (max bytes 1 + HEADER_BYTES :: NvU64) = unat (max bytes 1) + 16"
  using assms by (subst unat_add_nowrap) simp_all

text \<open>A pointer that is not null comes from a granted allocation that passed every check.\<close>

lemma allocate_granted:
  assumes "r4nv_heap_allocate bytes st = Some (p, st')" "p \<noteq> 0"
  obtains ctx allocation w m where "h_context st = Some ctx" "unat (max bytes 1) + 16 < 2 ^ 64"
    "hs_allocate ctx (max bytes 1 + 16) 16 (h_world st, h_memory st) = (True, allocation, w, m)"
    "\<not> allocation_refused allocation (max bytes 1 + 16)" "p = a_cpu_address allocation + 16"
    "store_bytes m (p - 16) (header_bytes (a_handle allocation) (p - 16)) = Some (h_memory st')"
    "st' = st\<lparr>h_world := w, h_memory := h_memory st'\<rparr>"
proof -
  obtain ctx where ctx: "h_context st = Some ctx" using assms by (auto simp: r4nv_heap_allocate_def split: option.split_asm)
  obtain ok allocation w m where s: "hs_allocate ctx (max bytes 1 + 16) 16 (h_world st, h_memory st) = (ok, allocation, w, m)"
    by (metis prod_cases4)
  show thesis
    by (rule that [of ctx allocation w m])
      (use assms ctx s in \<open>auto simp: r4nv_heap_allocate_def Let_def split: if_split_asm bind_split_asm prod.split_asm\<close>)
qed

lemma allocate_span:
  assumes "r4nv_heap_allocate bytes st = Some (p, st')" "p \<noteq> 0"
  shows "p AND 15 = 0" "16 \<le> unat p" "unat p + unat (max bytes 1) < 2 ^ 64"
proof -
  obtain allocation where a: "\<not> allocation_refused allocation (max bytes 1 + 16)" "p = a_cpu_address allocation + 16"
    "unat (max bytes 1) + 16 < 2 ^ 64"
    using allocate_granted [OF assms] by metis
  then show "p AND 15 = 0" by (simp add: allocation_refused_def aligned_add_16)
  have le: "a_cpu_address allocation \<le> - 1 - (max bytes 1 + 16)" using a(1) by (auto simp: allocation_refused_def)
  have "unat (- 1 - (max bytes 1 + 16) :: NvU64) = 2 ^ 64 - 1 - (unat (max bytes 1) + 16)"
    using request_bytes [OF a(3)] a(3) by (simp add: unat_sub_if')
  then have sum: "unat (a_cpu_address allocation) + (unat (max bytes 1) + 16) < 2 ^ 64"
    using le a(3) by (simp add: word_le_nat_alt)
  then have "unat p = unat (a_cpu_address allocation) + 16"
    unfolding a(2) by (subst unat_add_nowrap) simp_all
  then show "16 \<le> unat p" "unat p + unat (max bytes 1) < 2 ^ 64" using sum by simp_all
qed

lemma accessible_upd: "m a \<noteq> None \<Longrightarrow> accessible (m(a \<mapsto> b)) c n \<Longrightarrow> accessible m c n"
  unfolding accessible_def by (metis fun_upd_apply)

lemma store_bytes_accessible: "store_bytes m a bs = Some m' \<Longrightarrow> accessible m a (length bs)"
proof (induction bs arbitrary: m a)
  case (Cons b bs)
  then have "m a \<noteq> None" "accessible (m(a \<mapsto> b)) (a + 1) (length bs)"
    by (auto simp: store_byte_def split: if_split_asm)
  then show ?case using accessible_upd [of m a b] by (simp add: accessible_Suc)
qed (simp add: accessible_def)

lemma store_bytes_Some:
  "store_bytes m a bs = Some m' \<Longrightarrow> length bs \<le> 2 ^ 64 \<Longrightarrow> accessible m a (length bs) \<and> m' = put m a bs"
  using store_bytes_accessible [of m a bs m'] store_bytes_put [of m a bs] by simp

section \<open>The provider's contract and its clients\<close>

text \<open>
  What the clients rely on, for any state of the provider: pointers are null or aligned, leave room for
  the request below the end of the address space and have a resident prefix in front; freeing null does
  nothing; memory is part of the state.
\<close>

locale heap_provider =
  fixes allocate :: "NvU64 \<Rightarrow> 's \<Rightarrow> (NvU64 \<times> 's) option"
    and free :: "NvU64 \<Rightarrow> 's \<Rightarrow> 's option"
    and mem :: "'s \<Rightarrow> memory"
    and set_mem :: "memory \<Rightarrow> 's \<Rightarrow> 's"
  assumes allocate_aligned: "allocate n s = Some (p, s') \<Longrightarrow> p \<noteq> 0 \<Longrightarrow> p AND 15 = 0"
    and allocate_below_end: "allocate n s = Some (p, s') \<Longrightarrow> p \<noteq> 0 \<Longrightarrow> unat p + unat (max n 1) < 2 ^ 64"
    and allocate_prefix: "allocate n s = Some (p, s') \<Longrightarrow> p \<noteq> 0 \<Longrightarrow> 16 \<le> unat p \<and> accessible (mem s') (p - 16) 16"
    and free_null: "free 0 s = Some s"
    and mem_set_mem: "mem (set_mem m s) = m"
begin

lemma os_alloc_result:
  assumes "os_alloc_mem allocate address bytes s = Some (status, r, s')"
  shows "if address then \<exists>p. r = Some p \<and> (if p = 0 then status = NV_ERR_NO_MEMORY
      else status = NV_OK \<and> p AND 15 = 0 \<and> unat p + unat (max bytes 1) < 2 ^ 64)
    else status = NV_ERR_INVALID_ARGUMENT \<and> r = None \<and> s' = s"
proof (cases address)
  case True
  then obtain p where a: "allocate (if bytes = 0 then 1 else bytes) s = Some (p, s')" "r = Some p"
    "status = (if p = 0 then NV_ERR_NO_MEMORY else NV_OK)"
    using assms by (auto simp: os_alloc_mem_def split: bind_split_asm)
  have m: "max (if bytes = 0 then 1 else bytes) 1 = max bytes 1" by simp
  show ?thesis
    using True a(2,3) allocate_aligned [OF a(1)] allocate_below_end [OF a(1)] allocate_prefix [OF a(1)]
    unfolding m by auto
next
  case False
  then show ?thesis using assms by (simp add: os_alloc_mem_def)
qed

lemma nvkms_alloc_zeroed:
  assumes "allocate (if bytes = 0 then 1 else bytes) s = Some (p, s1)" "p \<noteq> 0" "accessible (mem s1) p (unat bytes)"
  shows "\<exists>s'. nvkms_alloc allocate mem set_mem bytes True s = Some (p, s') \<and>
    mem s' = put (mem s1) p (replicate (unat bytes) 0) \<and> slice (mem s') p (unat bytes) = replicate (unat bytes) 0"
proof -
  have "nvkms_alloc allocate mem set_mem bytes True s =
      Some (p, set_mem (put (mem s1) p (replicate (unat bytes) 0)) s1)"
    using assms by (simp add: nvkms_alloc_def r4nv_set_put)
  moreover have "slice (put (mem s1) p (replicate (unat bytes) 0)) p (unat bytes) = replicate (unat bytes) 0"
    using slice_put_same [of "replicate (unat bytes) 0" "mem s1" p] unat_lt_64 [of bytes] by simp
  ultimately show ?thesis by (simp add: mem_set_mem)
qed

lemma frees_ignore_null: "os_free_mem free 0 s = Some s" "nvkms_free free 0 n s = Some s"
  by (simp_all add: os_free_mem_def nvkms_free_def)

lemma frees_delegate: "os_free_mem free p s = free p s" "nvkms_free free p n s = free p s"
  using free_null by (auto simp: os_free_mem_def nvkms_free_def)

end

text \<open>The Zig provider satisfies the contract with any kernel service.\<close>

interpretation rm_heap: heap_provider r4nv_heap_allocate r4nv_heap_free h_memory "\<lambda>m st. st\<lparr>h_memory := m\<rparr>"
proof
  fix n :: NvU64 and s :: "'w heap_state" and p s' assume a: "r4nv_heap_allocate n s = Some (p, s')" "p \<noteq> 0"
  show "p AND 15 = 0" "unat p + unat (max n 1) < 2 ^ 64" using allocate_span [OF a] by simp_all
  have "accessible (h_memory s') (p - 16) 16"
  proof (rule allocate_granted [OF a])
    fix allocation m
    assume "store_bytes m (p - 16) (header_bytes (a_handle allocation) (p - 16)) = Some (h_memory s')"
    note st = store_bytes_Some [OF this, simplified]
    then show ?thesis using accessible_put by metis
  qed
  then show "16 \<le> unat p \<and> accessible (h_memory s') (p - 16) 16" using allocate_span [OF a] by simp
qed (simp_all add: r4nv_heap_free_def heap_release_def)


section \<open>Properties\<close>

text \<open>
  A kernel for the witnesses: one block of memory, which it grants under the handle 7; its state is the
  list of live handles.
\<close>

definition sample_service :: "NvU64 list heap_service" where
  "sample_service =
     \<lparr>hs_allocate = (\<lambda>bytes align (w, m). (True, \<lparr>a_handle = 7, a_cpu_address = 4096, a_byte_length = bytes\<rparr>, 7 # w, m)),
      hs_release = (\<lambda>handle (w, m). (handle \<in> set w, removeAll handle w, m))\<rparr>"

definition sample_heap :: "NvU64 list heap_state" where
  "sample_heap = \<lparr>h_context = Some sample_service, h_failed_releases = 0, h_world = [], h_memory = sample_memory\<rparr>"

definition sample_allocated :: "NvU64 list heap_state" where
  "sample_allocated = sample_heap\<lparr>h_world := [7], h_memory := put sample_memory 4096 (header_bytes 7 4096)\<rparr>"

lemma sample_allocate: "r4nv_heap_allocate 8 sample_heap = Some (4112, sample_allocated)"
proof -
  have "store_bytes sample_memory 4096 (header_bytes 7 4096) = Some (put sample_memory 4096 (header_bytes 7 4096))"
    by (rule store_bytes_put) (simp_all add: sample_accessible)
  moreover have "max 8 1 = (8 :: NvU64)" by (simp add: max_def word_le_nat_alt)
  ultimately show ?thesis
    by (simp add: r4nv_heap_allocate_def sample_heap_def sample_service_def sample_allocated_def allocation_refused_def
        word_less_nat_alt)
qed

text \<open>
  What stands behind a pointer \<open>p\<close> the provider returns: the kernel granted a block for the request and the
  prefix, with a handle, of exactly the requested length and 16 bytes in front of \<open>p\<close>; the prefix has been
  written there, and nothing else has changed since the grant.
\<close>

definition usable_grant :: "NvU64 \<Rightarrow> 'w heap_state \<Rightarrow> DriverHeapAllocation \<Rightarrow> 'w \<Rightarrow> memory \<Rightarrow> bool" where
  "usable_grant bytes st allocation w m \<longleftrightarrow>
     (\<exists>ctx. h_context st = Some ctx \<and>
        hs_allocate ctx (max bytes 1 + 16) 16 (h_world st, h_memory st) = (True, allocation, w, m)) \<and>
     a_handle allocation \<noteq> 0 \<and> a_byte_length allocation = max bytes 1 + 16 \<and>
     a_cpu_address allocation \<noteq> 0 \<and> a_cpu_address allocation AND 15 = 0 \<and>
     unat (a_cpu_address allocation) + unat (max bytes 1) + 16 < 2 ^ 64"

definition block_behind :: "NvU64 \<Rightarrow> 'w heap_state \<Rightarrow> NvU64 \<Rightarrow> 'w heap_state \<Rightarrow> bool" where
  "block_behind bytes st p st' \<longleftrightarrow>
     (\<exists>allocation w m. usable_grant bytes st allocation w m \<and> p = a_cpu_address allocation + 16 \<and>
        header_at (h_memory st') (p - 16) (a_handle allocation) \<and>
        st' = st\<lparr>h_world := w, h_memory := put m (p - 16) (header_bytes (a_handle allocation) (p - 16))\<rparr>)"

lemma usable_iff:
  assumes "unat (max bytes 1) + 16 < 2 ^ 64" "a_byte_length allocation = max bytes 1 + 16"
  shows "a_cpu_address allocation > - 1 - (max bytes 1 + 16) \<longleftrightarrow>
    2 ^ 64 \<le> unat (a_cpu_address allocation) + unat (max bytes 1) + 16"
proof -
  have "unat (- 1 - (max bytes 1 + 16) :: NvU64) = 2 ^ 64 - 1 - (unat (max bytes 1) + 16)"
    using request_bytes [OF assms(1)] assms(1) by (simp add: unat_sub_if')
  then show ?thesis using assms(1) by (auto simp: word_less_nat_alt)
qed

lemma allocate_block:
  assumes "r4nv_heap_allocate bytes st = Some (p, st')" "p \<noteq> 0"
  shows "block_behind bytes st p st'"
proof (rule allocate_granted [OF assms])
  fix ctx allocation w m
  assume a: "h_context st = Some ctx" "unat (max bytes 1) + 16 < 2 ^ 64"
    "hs_allocate ctx (max bytes 1 + 16) 16 (h_world st, h_memory st) = (True, allocation, w, m)"
    "\<not> allocation_refused allocation (max bytes 1 + 16)" "p = a_cpu_address allocation + 16"
    "store_bytes m (p - 16) (header_bytes (a_handle allocation) (p - 16)) = Some (h_memory st')"
    "st' = st\<lparr>h_world := w, h_memory := h_memory st'\<rparr>"
  have "usable_grant bytes st allocation w m"
    using a(1,3,4) usable_iff [OF a(2), of allocation] by (auto simp: usable_grant_def allocation_refused_def)
  moreover note st = store_bytes_Some [OF a(6), simplified]
  then have "header_at (h_memory st') (p - 16) (a_handle allocation)"
    using header_at_put [of m "p - 16" "a_handle allocation"] by simp
  ultimately show ?thesis using a(5,7) st unfolding block_behind_def by metis
qed

lemma allocate_usable:
  assumes "r4nv_heap_allocate bytes st = Some (p, st')" "usable_grant bytes st allocation w m"
  shows "p \<noteq> 0"
proof -
  obtain ctx where c: "h_context st = Some ctx"
    "hs_allocate ctx (max bytes 1 + 16) 16 (h_world st, h_memory st) = (True, allocation, w, m)"
    using assms(2) by (auto simp: usable_grant_def)
  have u: "unat (a_cpu_address allocation) + unat (max bytes 1) + 16 < 2 ^ 64" "a_byte_length allocation = max bytes 1 + 16"
    using assms(2) by (simp_all add: usable_grant_def)
  then have room: "unat (max bytes 1) + 16 < 2 ^ 64" by simp
  have "\<not> allocation_refused allocation (max bytes 1 + 16)"
    using assms(2) usable_iff [OF room u(2)] u by (auto simp: usable_grant_def allocation_refused_def)
  then have "p = a_cpu_address allocation + 16"
    using assms(1) c room by (auto simp: r4nv_heap_allocate_def Let_def split: bind_split_asm)
  moreover have "unat (a_cpu_address allocation + 16) = unat (a_cpu_address allocation) + 16"
    using u(1) by (subst unat_add_nowrap) simp_all
  ultimately show ?thesis by (metis add_eq_0_iff_both_eq_0 unat_0 zero_neq_numeral)
qed

text \<open>
  C29: What the allocation adapters return, whatever the kernel's heap service does. \<^verbatim>\<open>os_alloc_mem\<close> without a
  place for the result calls nothing; otherwise it stores a pointer and reports success exactly when
  that is not null. It is not null exactly when the kernel granted a usable block: with a handle, of exactly
  the length of the request (zero counting as one byte) and its prefix, aligned to 16 bytes and ending
  below the end of the address space. The pointer is then 16 bytes behind the start of that block, aligned, with
  room for the request, and the prefix in front of it holds the block's handle and its cookie, nothing else
  having changed. A request whose size overflows with the prefix fails without a call of the service.
\<close>

theorem os_alloc_mem_contract:
  "(case os_alloc_mem r4nv_heap_allocate address bytes st of
      None \<Rightarrow> True
    | Some (status, r, st') \<Rightarrow>
        if address then \<exists>p. r = Some p \<and> (if p = 0 then status = NV_ERR_NO_MEMORY
          else status = NV_OK \<and> p AND 15 = 0 \<and> unat p + unat (max bytes 1) < 2 ^ 64 \<and> block_behind bytes st p st') \<and>
          (p \<noteq> 0 \<longleftrightarrow> (\<exists>allocation w m. usable_grant bytes st allocation w m))
        else status = NV_ERR_INVALID_ARGUMENT \<and> r = None \<and> st' = st) \<and>
   os_alloc_mem r4nv_heap_allocate True 0xFFFFFFFFFFFFFFFF st = Some (NV_ERR_NO_MEMORY, Some 0, st)"
proof
  show "case os_alloc_mem r4nv_heap_allocate address bytes st of
      None \<Rightarrow> True
    | Some (status, r, st') \<Rightarrow>
        if address then \<exists>p. r = Some p \<and> (if p = 0 then status = NV_ERR_NO_MEMORY
          else status = NV_OK \<and> p AND 15 = 0 \<and> unat p + unat (max bytes 1) < 2 ^ 64 \<and> block_behind bytes st p st') \<and>
          (p \<noteq> 0 \<longleftrightarrow> (\<exists>allocation w m. usable_grant bytes st allocation w m))
        else status = NV_ERR_INVALID_ARGUMENT \<and> r = None \<and> st' = st"
  proof (cases "os_alloc_mem r4nv_heap_allocate address bytes st")
    case (Some r)
    obtain status q st' where r: "r = (status, q, st')" by (rule prod_cases3)
    note l = rm_heap.os_alloc_result [OF Some [unfolded r]]
    have m: "max (if bytes = 0 then 1 else bytes) 1 = max bytes 1" by simp
    have "block_behind (if bytes = 0 then 1 else bytes) = (block_behind bytes :: 'a heap_state \<Rightarrow> _)"
      "usable_grant (if bytes = 0 then 1 else bytes) = (usable_grant bytes :: 'a heap_state \<Rightarrow> _)"
      unfolding block_behind_def usable_grant_def fun_eq_iff m by simp_all
    note same = fun_cong [OF this(1)] fun_cong [OF this(2)]
    show ?thesis
    proof (cases address)
      case True
      then obtain p where p: "r4nv_heap_allocate (if bytes = 0 then 1 else bytes) st = Some (p, st')" "q = Some p"
        using Some by (auto simp: r os_alloc_mem_def split: bind_split_asm)
      have "p \<noteq> 0 \<longleftrightarrow> (\<exists>allocation w m. usable_grant bytes st allocation w m)"
        using allocate_block [OF p(1)] allocate_usable [OF p(1)] unfolding same block_behind_def by blast
      then show ?thesis using l True p(2) allocate_block [OF p(1)] unfolding Some r same by auto
    next
      case False
      then show ?thesis using l unfolding Some r by (simp only: option.case prod.case if_False)
    qed
  qed simp
  have "unat (max 0xFFFFFFFFFFFFFFFF 1 :: NvU64) + 16 \<ge> 2 ^ 64"
    by (simp add: max_def word_le_nat_alt)
  then show "os_alloc_mem r4nv_heap_allocate True 0xFFFFFFFFFFFFFFFF st = Some (NV_ERR_NO_MEMORY, Some 0, st)"
    by (simp add: os_alloc_mem_def r4nv_heap_allocate_def split: option.split)
qed

text \<open>
  C8: Allocation and release fit together. A pointer the provider returned is released by giving exactly
  the granted handle back to the service, provided the prefix in front of it is still in memory, whatever
  else has happened since; the release succeeds exactly when the service's does, and is counted as a
  failure otherwise.
\<close>

theorem heap_roundtrip:
  assumes "r4nv_heap_allocate bytes st = Some (p, st1)" "p \<noteq> 0"
    and "load_bytes (h_memory st2) (p - 16) 16 = load_bytes (h_memory st1) (p - 16) 16" "h_context st2 = h_context st1"
  shows "\<exists>ctx allocation. h_context st1 = Some ctx \<and> a_handle allocation \<noteq> 0 \<and>
      a_cpu_address allocation = p - 16 \<and> a_byte_length allocation = max bytes 1 + 16 \<and>
      fst (snd (hs_allocate ctx (max bytes 1 + 16) 16 (h_world st, h_memory st))) = allocation \<and>
      heap_release p st2 =
        (let (ok, st3) = call_release ctx (a_handle allocation) st2 in
         Some (ok, if ok then st3 else count_failed_release st3))"
proof (rule allocate_granted [OF assms(1,2)])
  fix ctx allocation w m
  assume a: "h_context st = Some ctx"
    "hs_allocate ctx (max bytes 1 + 16) 16 (h_world st, h_memory st) = (True, allocation, w, m)"
    "\<not> allocation_refused allocation (max bytes 1 + 16)" "p = a_cpu_address allocation + 16"
    "store_bytes m (p - 16) (header_bytes (a_handle allocation) (p - 16)) = Some (h_memory st1)"
    "st1 = st\<lparr>h_world := w, h_memory := h_memory st1\<rparr>"
  have "header_at (h_memory st1) (p - 16) (a_handle allocation)"
    using store_bytes_Some [OF a(5)] header_at_put [of m "p - 16" "a_handle allocation"] by simp
  then have "header_at (h_memory st2) (p - 16) (a_handle allocation)" using assms(3) by (simp add: header_at_def)
  note h = header_at_words [OF this]
  have ctx: "h_context st1 = Some ctx" "h_context st2 = Some ctx"
    using a(1) arg_cong [OF a(6), of h_context] assms(4) by simp_all
  have "\<not> p < 16" "p AND 15 = 0" using allocate_span [OF assms(1,2)] by (simp_all add: word_less_nat_alt)
  moreover have "a_handle allocation \<noteq> 0" "a_byte_length allocation = max bytes 1 + 16"
    using a(3) by (auto simp: allocation_refused_def)
  moreover have "heap_release p st2 = (let (ok, st3) = call_release ctx (a_handle allocation) st2 in
         Some (ok, if ok then st3 else count_failed_release st3))"
    using h ctx(2) assms(2) calculation(1-3)
    by (cases "call_release ctx (a_handle allocation) st2") (simp add: heap_release_def Let_def del: map_option_eq_Some)
  moreover have "a_cpu_address allocation = p - 16" using a(4) by simp
  ultimately show ?thesis using a(2) ctx by (intro exI [of _ ctx] exI [of _ allocation]) simp
qed

theorem heap_roundtrip_witness:
  "r4nv_heap_allocate 8 sample_heap = Some (4112, sample_allocated) \<and>
   map_option fst (heap_release 4112 sample_allocated) = Some True"
  using sample_allocate heap_roundtrip [OF sample_allocate, of sample_allocated]
  by (simp add: sample_allocated_def sample_heap_def sample_service_def call_release_def Let_def)

text \<open>
  What is not released. Null needs no service; an unbound provider, a misaligned pointer, one below
  the prefix and one whose prefix holds no handle or a cookie that does not fit are refused without a call
  of the service, and all of these but the first two are counted.
\<close>

theorem heap_release_refusals:
  assumes "h_context st = Some ctx" "load_bytes (h_memory st) (p - 16) 8 = Some hs"
    "load_bytes (h_memory st) (p - 8) 8 = Some cs" "p \<noteq> 0"
  shows "heap_release 0 st = Some (True, st) \<and>
    heap_release p (heap_unbind st) = Some (False, heap_unbind st) \<and>
    (if p < 16 \<or> p AND 15 \<noteq> 0 \<or> quad_value hs = 0 \<or> quad_value cs \<noteq> quad_value hs XOR (p - 16) XOR cookie_mask
     then heap_release p st = Some (False, count_failed_release st)
     else \<exists>ok st'. call_release ctx (quad_value hs) st = (ok, st') \<and>
       heap_release p st = Some (ok, if ok then st' else count_failed_release st'))"
proof -
  have "p - 16 + 8 = p - (8 :: NvU64)" by simp
  then show ?thesis
    using assms by (auto simp: heap_release_def heap_unbind_def Let_def split: prod.split)
qed


theorem heap_release_refusals_witness:
  "heap_release 4097 (sample_heap\<lparr>h_memory := (\<lambda>a. Some 0)\<rparr>) =
     Some (False, count_failed_release (sample_heap\<lparr>h_memory := (\<lambda>a. Some 0)\<rparr>))"
proof -
  have l: "load_bytes (\<lambda>a. Some 0) a n = Some (replicate n 0)" for a n by (induction n arbitrary: a) simp_all
  show ?thesis
    using heap_release_refusals [of "sample_heap\<lparr>h_memory := (\<lambda>a. Some 0)\<rparr>" sample_service 4097 "replicate 8 0" "replicate 8 0"] l
    by (simp add: sample_heap_def)
qed

text \<open>
  Zeroed memory. When the provider returns a pointer to memory that is resident for the requested
  size, \<^verbatim>\<open>nvkms_alloc\<close> with the zero flag returns it with every byte of the request zero and nothing else
  changed.
\<close>

theorem nvkms_alloc_zeroes:
  assumes "r4nv_heap_allocate (if bytes = 0 then 1 else bytes) st = Some (p, st1)" "p \<noteq> 0"
    "accessible (h_memory st1) p (unat bytes)"
  shows "\<exists>st'. nvkms_alloc r4nv_heap_allocate h_memory (\<lambda>m st. st\<lparr>h_memory := m\<rparr>) bytes True st = Some (p, st') \<and>
    slice (h_memory st') p (unat bytes) = replicate (unat bytes) 0 \<and>
    (\<forall>a. \<not> unat (a - p) < unat bytes \<longrightarrow> h_memory st' a = h_memory st1 a)"
  using rm_heap.nvkms_alloc_zeroed [OF assms] put_outside [of _ p "replicate (unat bytes) 0" "h_memory st1"] by auto

theorem nvkms_alloc_zeroes_witness:
  "\<exists>st'. nvkms_alloc r4nv_heap_allocate h_memory (\<lambda>m st. st\<lparr>h_memory := m\<rparr>) 8 True sample_heap = Some (4112, st') \<and>
     slice (h_memory st') 4112 8 = replicate 8 0"
proof -
  have "accessible (h_memory sample_allocated) 4112 8"
    by (simp add: sample_allocated_def accessible_put sample_accessible)
  then show ?thesis using nvkms_alloc_zeroes [of 8 sample_heap 4112 sample_allocated] sample_allocate by auto
qed

end
