(* ===== verification/Rm_Semaphore.thy ===== *)
theory Rm_Semaphore
  imports Rm_Heap
begin
unbundle bit_operations_syntax

text \<open>
  Semaphores and mutexes of the RM source port: the provider \<^verbatim>\<open>src/rm_semaphore.zig\<close> over the heap and
  the kernel's semaphore service, and the adapters of \<^verbatim>\<open>os_semaphore.c\<close> and \<^verbatim>\<open>nvkms_semaphore.c\<close>.

  The kernel's service is external: functions on the kernel's state and memory, since other Tasks run
  while a call waits. Its codes are the ones the provider tells apart. The adapters are defined over the
  provider's functions and the native fault, as their headers declare them.
\<close>

section \<open>Definitions\<close>

datatype driver_semaphore_code =
  semaphore_ok | semaphore_timeout | semaphore_busy | semaphore_context | semaphore_closed | semaphore_memory |
  semaphore_other

record 'w sema_service =
  ss_irq :: "'w \<Rightarrow> bool"
  ss_sleepable :: "'w \<Rightarrow> bool"
  ss_create :: "NvU32 \<Rightarrow> NvU32 \<Rightarrow> 'w \<times> memory \<Rightarrow> driver_semaphore_code \<times> NvU64 \<times> 'w \<times> memory"
  ss_destroy :: "NvU64 \<Rightarrow> 'w \<times> memory \<Rightarrow> driver_semaphore_code \<times> 'w \<times> memory"
  ss_acquire :: "NvU64 \<Rightarrow> NvU64 \<Rightarrow> 'w \<times> memory \<Rightarrow> driver_semaphore_code \<times> 'w \<times> memory"
  ss_release :: "NvU64 \<Rightarrow> 'w \<times> memory \<Rightarrow> driver_semaphore_code \<times> 'w \<times> memory"

text \<open>The module's variables, with the heap module's and the native fault latch.\<close>

record 'w sema_state =
  s_context :: "'w sema_service option"
  s_failures :: NvU64
  s_heap :: "'w heap_state"
  s_native :: native_state

abbreviation (input) R4NV_SEMA_OK :: NvU32 where "R4NV_SEMA_OK \<equiv> 0"
abbreviation (input) R4NV_SEMA_RETRY :: NvU32 where "R4NV_SEMA_RETRY \<equiv> 1"
abbreviation (input) R4NV_SEMA_CONTEXT :: NvU32 where "R4NV_SEMA_CONTEXT \<equiv> 2"
abbreviation (input) R4NV_SEMA_INVALID :: NvU32 where "R4NV_SEMA_INVALID \<equiv> 3"
abbreviation (input) sema_cookie_mask :: NvU64 where "sema_cookie_mask \<equiv> 0x52344e5653454d41"

definition sema_bind :: "'w sema_service option \<Rightarrow> 'w sema_state \<Rightarrow> 'w sema_state" where
  "sema_bind service st = st\<lparr>s_context := service, s_failures := 0\<rparr>"

definition sema_unbind :: "'w sema_state \<Rightarrow> 'w sema_state" where
  "sema_unbind st = st\<lparr>s_context := None\<rparr>"

definition sema_available :: "'w sema_state \<Rightarrow> bool" where
  "sema_available st = (s_context st \<noteq> None \<and> heap_available (s_heap st) \<and> s_failures st = 0)"

definition sema_fault :: "'w sema_state \<Rightarrow> NvU32 \<times> 'w sema_state" where
  "sema_fault st = (R4NV_SEMA_INVALID, st\<lparr>s_failures := s_failures st + 1\<rparr>)"

definition sema_result :: "driver_semaphore_code \<Rightarrow> 'w sema_state \<Rightarrow> NvU32 \<times> 'w sema_state" where
  "sema_result code st =
     (case code of
        semaphore_ok \<Rightarrow> (R4NV_SEMA_OK, st)
      | semaphore_timeout \<Rightarrow> (R4NV_SEMA_RETRY, st)
      | semaphore_busy \<Rightarrow> (R4NV_SEMA_RETRY, st)
      | semaphore_context \<Rightarrow> (R4NV_SEMA_CONTEXT, st)
      | _ \<Rightarrow> sema_fault st)"

abbreviation s_memory :: "'w sema_state \<Rightarrow> memory" where
  "s_memory st \<equiv> h_memory (s_heap st)"

abbreviation s_kernel :: "'w sema_state \<Rightarrow> 'w \<times> memory" where
  "s_kernel st \<equiv> (h_world (s_heap st), h_memory (s_heap st))"

definition set_kernel :: "'w \<times> memory \<Rightarrow> 'w sema_state \<Rightarrow> 'w sema_state" where
  "set_kernel k st = st\<lparr>s_heap := (s_heap st)\<lparr>h_world := fst k, h_memory := snd k\<rparr>\<rparr>"

text \<open>
  A pointer is a box when it is aligned and its second quadword is the cookie for its address; the inner
  result is the handle, the first quadword.
\<close>

definition sema_box :: "NvU64 \<Rightarrow> memory \<Rightarrow> NvU64 option option" where
  "sema_box address m =
     (if address = 0 \<or> address AND 15 \<noteq> 0 then Some None
      else do {
        cookie \<leftarrow> map_option quad_value (load_bytes m (address + 8) 8);
        if cookie = address XOR sema_cookie_mask
        then map_option Some (map_option quad_value (load_bytes m address 8))
        else Some None
      })"

definition box_bytes :: "NvU64 \<Rightarrow> NvU64 \<Rightarrow> NvU8 list" where
  "box_bytes handle address = quad_bytes handle @ quad_bytes (address XOR sema_cookie_mask)"

definition sema_heap_release :: "NvU64 \<Rightarrow> 'w sema_state \<Rightarrow> (bool \<times> 'w sema_state) option" where
  "sema_heap_release p st = do { (ok, h) \<leftarrow> heap_release p (s_heap st); Some (ok, st\<lparr>s_heap := h\<rparr>) }"

definition r4nv_semaphore_create :: "NvU32 \<Rightarrow> 'w sema_state \<Rightarrow> (NvU64 \<times> 'w sema_state) option" where
  "r4nv_semaphore_create initial st =
     (if \<not> sema_available st then Some (0, st)
      else (case s_context st of
          None \<Rightarrow> Some (0, st)
        | Some ctx \<Rightarrow>
            if \<not> ss_sleepable ctx (h_world (s_heap st)) then Some (0, st)
            else do {
              (pointer, h) \<leftarrow> r4nv_heap_allocate 16 (s_heap st);
              let st = st\<lparr>s_heap := h\<rparr>;
              if pointer = 0 then Some (0, st)
              else do {
                let (code, handle, k) = ss_create ctx initial 0xFFFFFFFF (s_kernel st);
                let st = set_kernel k st;
                if code \<noteq> semaphore_ok \<or> handle = 0 then do {
                  let st = (if code = semaphore_ok \<or> (code \<noteq> semaphore_closed \<and> code \<noteq> semaphore_memory)
                            then snd (sema_fault st) else st);
                  (ok, st) \<leftarrow> sema_heap_release pointer st;
                  Some (0, if \<not> ok then snd (sema_fault st) else st)
                }
                else do {
                  m \<leftarrow> store_bytes (s_memory st) pointer (box_bytes handle pointer);
                  Some (pointer, set_kernel (h_world (s_heap st), m) st)
                }
              }
            }))"

definition r4nv_semaphore_free :: "NvU64 \<Rightarrow> 'w sema_state \<Rightarrow> (NvU32 \<times> 'w sema_state) option" where
  "r4nv_semaphore_free pointer st =
     (if pointer = 0 then Some (R4NV_SEMA_OK, st)
      else (case s_context st of
          None \<Rightarrow> Some (R4NV_SEMA_CONTEXT, st)
        | Some ctx \<Rightarrow> do {
            box \<leftarrow> sema_box pointer (s_memory st);
            (case box of
               None \<Rightarrow> Some (sema_fault st)
             | Some handle \<Rightarrow> do {
                 let (code, k) = (if handle \<noteq> 0 then ss_destroy ctx handle (s_kernel st) else (semaphore_ok, s_kernel st));
                 let st = set_kernel k st;
                 if code \<noteq> semaphore_ok then Some (sema_result code st)
                 else do {
                   m \<leftarrow> (if handle \<noteq> 0 then store_bytes (s_memory st) pointer (quad_bytes 0) else Some (s_memory st));
                   (ok, st) \<leftarrow> sema_heap_release pointer (set_kernel (h_world (s_heap st), m) st);
                   Some (if ok then (R4NV_SEMA_OK, st) else sema_fault st)
                 }
               })
          }))"

definition r4nv_semaphore_acquire :: "NvU64 \<Rightarrow> NvU64 \<Rightarrow> 'w sema_state \<Rightarrow> (NvU32 \<times> 'w sema_state) option" where
  "r4nv_semaphore_acquire pointer timeout_ticks st =
     (case s_context st of
        None \<Rightarrow> Some (R4NV_SEMA_CONTEXT, st)
      | Some ctx \<Rightarrow> do {
          box \<leftarrow> sema_box pointer (s_memory st);
          (case box of
             None \<Rightarrow> Some (sema_fault st)
           | Some handle \<Rightarrow>
               if handle = 0 then Some (sema_fault st)
               else let (code, k) = ss_acquire ctx handle timeout_ticks (s_kernel st) in
                 Some (sema_result code (set_kernel k st)))
        })"

definition r4nv_semaphore_release :: "NvU64 \<Rightarrow> 'w sema_state \<Rightarrow> (NvU32 \<times> 'w sema_state) option" where
  "r4nv_semaphore_release pointer st =
     (case s_context st of
        None \<Rightarrow> Some (R4NV_SEMA_CONTEXT, st)
      | Some ctx \<Rightarrow> do {
          box \<leftarrow> sema_box pointer (s_memory st);
          (case box of
             None \<Rightarrow> Some (sema_fault st)
           | Some handle \<Rightarrow>
               if handle = 0 then Some (sema_fault st)
               else let (code, k) = ss_release ctx handle (s_kernel st) in
                 Some (sema_result code (set_kernel k st)))
        })"

definition r4nv_semaphore_context_flags :: "'w sema_state \<Rightarrow> NvU32" where
  "r4nv_semaphore_context_flags st =
     (case s_context st of
        None \<Rightarrow> 0
      | Some ctx \<Rightarrow> (if ss_irq ctx (h_world (s_heap st)) then 1 else 0) OR
          (if ss_sleepable ctx (h_world (s_heap st)) then 2 else 0))"

definition sema_native_fault :: "NvU32 \<Rightarrow> NvU32 \<Rightarrow> 'w sema_state \<Rightarrow> stop \<times> 'w sema_state" where
  "sema_native_fault operation result st =
     (let (s, n) = r4nv_native_fault operation result (s_native st) in (s, st\<lparr>s_native := n\<rparr>))"

subsection \<open>\<^verbatim>\<open>os_semaphore.c\<close>\<close>

definition sema_status :: "NvU32 \<Rightarrow> NV_STATUS" where
  "sema_status result =
     (if result = R4NV_SEMA_OK then NV_OK
      else if result = R4NV_SEMA_RETRY then NV_ERR_TIMEOUT_RETRY
      else if result = R4NV_SEMA_CONTEXT then NV_ERR_INVALID_REQUEST
      else NV_ERR_INVALID_STATE)"

definition os_semaphore_may_sleep :: "('s \<Rightarrow> NvU32) \<Rightarrow> 's \<Rightarrow> bool" where
  "os_semaphore_may_sleep flags st = (flags st AND 2 \<noteq> 0)"

definition os_is_isr :: "('s \<Rightarrow> NvU32) \<Rightarrow> 's \<Rightarrow> bool" where
  "os_is_isr flags st = (flags st AND 1 \<noteq> 0)"

definition os_alloc_mutex ::
  "(NvU32 \<Rightarrow> 's \<Rightarrow> (NvU64 \<times> 's) option) \<Rightarrow> bool \<Rightarrow> 's \<Rightarrow> (NV_STATUS \<times> NvU64 option \<times> 's) option" where
  "os_alloc_mutex create out st =
     (if \<not> out then Some (NV_ERR_INVALID_ARGUMENT, None, st)
      else do {
        (p, st) \<leftarrow> create 1 st;
        Some (if p \<noteq> 0 then NV_OK else NV_ERR_NO_MEMORY, Some p, st)
      })"

definition os_alloc_semaphore :: "(NvU32 \<Rightarrow> 's \<Rightarrow> (NvU64 \<times> 's) option) \<Rightarrow> NvU32 \<Rightarrow> 's \<Rightarrow> (NvU64 \<times> 's) option" where
  "os_alloc_semaphore create initial st = create initial st"

text \<open>A void adapter: it returns when the provider reports success and faults otherwise.\<close>

definition or_fault ::
  "(NvU32 \<Rightarrow> NvU32 \<Rightarrow> 's \<Rightarrow> stop \<times> 's) \<Rightarrow> NvU32 \<Rightarrow> (NvU32 \<times> 's) option \<Rightarrow> (unit outcome \<times> 's) option" where
  "or_fault fault operation r = do {
     (result, st) \<leftarrow> r;
     if result \<noteq> R4NV_SEMA_OK then (let (s, st) = fault operation result st in Some (Stopped s, st))
     else Some (Returned (), st)
   }"

definition os_free_semaphore ::
  "(NvU64 \<Rightarrow> 's \<Rightarrow> (NvU32 \<times> 's) option) \<Rightarrow> (NvU32 \<Rightarrow> NvU32 \<Rightarrow> 's \<Rightarrow> stop \<times> 's) \<Rightarrow> NvU64 \<Rightarrow> 's \<Rightarrow> (unit outcome \<times> 's) option" where
  "os_free_semaphore free fault sema st = or_fault fault R4NV_FAULT_SEMAPHORE_FREE (free sema st)"

definition os_free_mutex ::
  "(NvU64 \<Rightarrow> 's \<Rightarrow> (NvU32 \<times> 's) option) \<Rightarrow> (NvU32 \<Rightarrow> NvU32 \<Rightarrow> 's \<Rightarrow> stop \<times> 's) \<Rightarrow> NvU64 \<Rightarrow> 's \<Rightarrow> (unit outcome \<times> 's) option" where
  "os_free_mutex free fault sema st = os_free_semaphore free fault sema st"

type_synonym 's acquire = "NvU64 \<Rightarrow> NvU64 \<Rightarrow> 's \<Rightarrow> (NvU32 \<times> 's) option"

definition os_acquire_semaphore :: "('s \<Rightarrow> NvU32) \<Rightarrow> 's acquire \<Rightarrow> NvU64 \<Rightarrow> 's \<Rightarrow> (NV_STATUS \<times> 's) option" where
  "os_acquire_semaphore flags acquire sema st =
     (if \<not> os_semaphore_may_sleep flags st then Some (NV_ERR_INVALID_REQUEST, st)
      else do { (r, st) \<leftarrow> acquire sema (- 1) st; Some (sema_status r, st) })"

definition os_acquire_mutex :: "('s \<Rightarrow> NvU32) \<Rightarrow> 's acquire \<Rightarrow> NvU64 \<Rightarrow> 's \<Rightarrow> (NV_STATUS \<times> 's) option" where
  "os_acquire_mutex flags acquire sema st = os_acquire_semaphore flags acquire sema st"

definition os_cond_acquire_semaphore :: "'s acquire \<Rightarrow> NvU64 \<Rightarrow> 's \<Rightarrow> (NV_STATUS \<times> 's) option" where
  "os_cond_acquire_semaphore acquire sema st = do { (r, st) \<leftarrow> acquire sema 0 st; Some (sema_status r, st) }"

definition os_cond_acquire_mutex :: "('s \<Rightarrow> NvU32) \<Rightarrow> 's acquire \<Rightarrow> NvU64 \<Rightarrow> 's \<Rightarrow> (NV_STATUS \<times> 's) option" where
  "os_cond_acquire_mutex flags acquire sema st =
     (if \<not> os_semaphore_may_sleep flags st then Some (NV_ERR_INVALID_REQUEST, st)
      else os_cond_acquire_semaphore acquire sema st)"

definition os_release_semaphore :: "(NvU64 \<Rightarrow> 's \<Rightarrow> (NvU32 \<times> 's) option) \<Rightarrow> NvU64 \<Rightarrow> 's \<Rightarrow> (NV_STATUS \<times> 's) option" where
  "os_release_semaphore release sema st = do { (r, st) \<leftarrow> release sema st; Some (sema_status r, st) }"

definition os_release_mutex ::
  "(NvU64 \<Rightarrow> 's \<Rightarrow> (NvU32 \<times> 's) option) \<Rightarrow> (NvU32 \<Rightarrow> NvU32 \<Rightarrow> 's \<Rightarrow> stop \<times> 's) \<Rightarrow> NvU64 \<Rightarrow> 's \<Rightarrow> (unit outcome \<times> 's) option" where
  "os_release_mutex release fault sema st = or_fault fault R4NV_FAULT_SEMAPHORE_UP (release sema st)"

subsection \<open>\<^verbatim>\<open>nvkms_semaphore.c\<close>\<close>

definition nvkms_sema_alloc :: "(NvU32 \<Rightarrow> 's \<Rightarrow> (NvU64 \<times> 's) option) \<Rightarrow> 's \<Rightarrow> (NvU64 \<times> 's) option" where
  "nvkms_sema_alloc create st = create 1 st"

definition nvkms_sema_free ::
  "(NvU64 \<Rightarrow> 's \<Rightarrow> (NvU32 \<times> 's) option) \<Rightarrow> (NvU32 \<Rightarrow> NvU32 \<Rightarrow> 's \<Rightarrow> stop \<times> 's) \<Rightarrow> NvU64 \<Rightarrow> 's \<Rightarrow> (unit outcome \<times> 's) option" where
  "nvkms_sema_free free fault sema st = or_fault fault R4NV_FAULT_SEMAPHORE_FREE (free sema st)"

definition nvkms_sema_down ::
  "'s acquire \<Rightarrow> (NvU32 \<Rightarrow> NvU32 \<Rightarrow> 's \<Rightarrow> stop \<times> 's) \<Rightarrow> NvU64 \<Rightarrow> 's \<Rightarrow> (unit outcome \<times> 's) option" where
  "nvkms_sema_down acquire fault sema st = or_fault fault R4NV_FAULT_SEMAPHORE_DOWN (acquire sema (- 1) st)"

definition nvkms_sema_up ::
  "(NvU64 \<Rightarrow> 's \<Rightarrow> (NvU32 \<times> 's) option) \<Rightarrow> (NvU32 \<Rightarrow> NvU32 \<Rightarrow> 's \<Rightarrow> stop \<times> 's) \<Rightarrow> NvU64 \<Rightarrow> 's \<Rightarrow> (unit outcome \<times> 's) option" where
  "nvkms_sema_up release fault sema st = or_fault fault R4NV_FAULT_SEMAPHORE_UP (release sema st)"

section \<open>The provider's contract and the adapters\<close>

locale semaphore_provider =
  fixes free :: "NvU64 \<Rightarrow> 's \<Rightarrow> (NvU32 \<times> 's) option"
    and acquire :: "'s acquire"
    and release :: "NvU64 \<Rightarrow> 's \<Rightarrow> (NvU32 \<times> 's) option"
    and fault :: "NvU32 \<Rightarrow> NvU32 \<Rightarrow> 's \<Rightarrow> stop \<times> 's"
    and latch :: "'s \<Rightarrow> NvU64"
  assumes free_null: "free 0 s = Some (0, s)"
    and no_null_permit: "acquire 0 t s = Some (r, s') \<Longrightarrow> r \<noteq> 0" "release 0 s = Some (r, s') \<Longrightarrow> r \<noteq> 0"
    and fault_latches: "operation \<noteq> 0 \<Longrightarrow> latch (snd (fault operation result s)) \<noteq> 0"
begin

lemma or_fault_returned: "or_fault fault operation x = Some (Returned (), s') \<longleftrightarrow> x = Some (0, s')"
  by (auto simp: or_fault_def split: bind_splits prod.splits if_splits)

lemma or_fault_stopped:
  "or_fault fault operation x = Some (Stopped e, s') \<Longrightarrow> operation \<noteq> 0 \<Longrightarrow> latch s' \<noteq> 0"
  using fault_latches [of operation] by (auto simp: or_fault_def split: bind_splits prod.splits if_splits) (metis snd_conv)

text \<open>The adapters that return nothing return only after a success of the provider.\<close>

lemma void_adapters_return:
  "nvkms_sema_down acquire fault p s = Some (Returned (), s') \<longleftrightarrow> acquire p (- 1) s = Some (0, s')"
  "nvkms_sema_up release fault p s = Some (Returned (), s') \<longleftrightarrow> release p s = Some (0, s')"
  "os_release_mutex release fault p s = Some (Returned (), s') \<longleftrightarrow> release p s = Some (0, s')"
  "nvkms_sema_free free fault p s = Some (Returned (), s') \<longleftrightarrow> free p s = Some (0, s')"
  "os_free_semaphore free fault p s = Some (Returned (), s') \<longleftrightarrow> free p s = Some (0, s')"
  by (simp_all add: nvkms_sema_down_def nvkms_sema_up_def os_release_mutex_def nvkms_sema_free_def
      os_free_semaphore_def or_fault_returned)

lemma void_adapters_stop:
  "nvkms_sema_down acquire fault p s = Some (Stopped e, s') \<Longrightarrow> latch s' \<noteq> 0"
  "nvkms_sema_up release fault p s = Some (Stopped e, s') \<Longrightarrow> latch s' \<noteq> 0"
  "os_release_mutex release fault p s = Some (Stopped e, s') \<Longrightarrow> latch s' \<noteq> 0"
  "nvkms_sema_free free fault p s = Some (Stopped e, s') \<Longrightarrow> latch s' \<noteq> 0"
  "os_free_semaphore free fault p s = Some (Stopped e, s') \<Longrightarrow> latch s' \<noteq> 0"
  using or_fault_stopped
  by (auto simp: nvkms_sema_down_def nvkms_sema_up_def os_release_mutex_def nvkms_sema_free_def os_free_semaphore_def)

lemma null_stops: "nvkms_sema_down acquire fault 0 s \<noteq> Some (Returned (), s')" "nvkms_sema_up release fault 0 s \<noteq> Some (Returned (), s')"
  unfolding void_adapters_return using no_null_permit by blast+

lemma status_ok: "sema_status r = NV_OK \<longleftrightarrow> r = 0"
  by (simp add: sema_status_def)

lemma acquired_exactly:
  "os_cond_acquire_semaphore acquire p s = Some (NV_OK, s') \<longleftrightarrow> acquire p 0 s = Some (0, s')"
  "os_acquire_semaphore flags acquire p s = Some (NV_OK, s') \<longleftrightarrow> os_semaphore_may_sleep flags s \<and> acquire p (- 1) s = Some (0, s')"
  by (auto simp: os_cond_acquire_semaphore_def os_acquire_semaphore_def status_ok split: bind_splits)

end

lemma sema_result_codes: "sema_result code st = (r, st') \<Longrightarrow> r = 0 \<Longrightarrow> code = semaphore_ok \<and> st' = st"
  by (auto simp: sema_result_def sema_fault_def split: driver_semaphore_code.split_asm)

interpretation rm_sema: semaphore_provider r4nv_semaphore_free r4nv_semaphore_acquire r4nv_semaphore_release
  sema_native_fault "\<lambda>st. n_first_fault (s_native st)"
proof
  fix t :: NvU64 and s s' :: "'w sema_state" and r
  show "r4nv_semaphore_free 0 s = Some (0, s)" by (simp add: r4nv_semaphore_free_def)
  show "r4nv_semaphore_acquire 0 t s = Some (r, s') \<Longrightarrow> r \<noteq> 0"
    by (auto simp: r4nv_semaphore_acquire_def sema_box_def sema_fault_def split: option.split_asm)
  show "r4nv_semaphore_release 0 s = Some (r, s') \<Longrightarrow> r \<noteq> 0"
    by (auto simp: r4nv_semaphore_release_def sema_box_def sema_fault_def split: option.split_asm)
next
  fix operation result :: NvU32 and s :: "'w sema_state" assume "operation \<noteq> 0"
  then show "n_first_fault (s_native (snd (sema_native_fault operation result s))) \<noteq> 0"
    using fault_encoded_nonzero [of operation result]
    by (simp add: sema_native_fault_def r4nv_native_fault_def Let_def)
qed


section \<open>Boxes\<close>

lemma box_bytes_length [simp]: "length (box_bytes handle address) = 16"
  by (simp add: box_bytes_def)

lemma sema_box_put:
  assumes "accessible m p 16" "p \<noteq> 0" "p AND 15 = 0"
  shows "sema_box p (put m p (box_bytes handle p)) = Some (Some handle)"
proof -
  have "load_bytes (put m p (box_bytes handle p)) p 16 = Some (quad_bytes handle @ quad_bytes (p XOR sema_cookie_mask))"
    using load_bytes_put [of m p "box_bytes handle p"] assms(1) by (simp add: box_bytes_def)
  note w = quad_pair_words [OF this]
  show ?thesis using w assms by (simp add: sema_box_def del: map_option_eq_Some)
qed

lemma set_kernel_simps [simp]:
  "s_context (set_kernel k st) = s_context st" "s_failures (set_kernel k st) = s_failures st"
  "s_native (set_kernel k st) = s_native st" "s_kernel (set_kernel k st) = k"
  by (simp_all add: set_kernel_def)

text \<open>A pointer that is not null is a box with the handle the service returned.\<close>

lemma create_box:
  assumes "r4nv_semaphore_create initial st = Some (p, st')" "p \<noteq> 0"
  shows "\<exists>ctx handle k m. s_context st = Some ctx \<and> s_context st' = Some ctx \<and> p AND 15 = 0 \<and> handle \<noteq> 0 \<and>
    sema_box p (s_memory st') = Some (Some handle) \<and> s_failures st' = 0 \<and>
    (semaphore_ok, handle, h_world (s_heap st'), m) = ss_create ctx initial 0xFFFFFFFF k"
proof -
  obtain ctx where ctx: "s_context st = Some ctx" "sema_available st"
    using assms by (auto simp: r4nv_semaphore_create_def split: if_split_asm option.split_asm)
  obtain q h where q: "r4nv_heap_allocate 16 (s_heap st) = Some (q, h)" "q \<noteq> 0"
    using assms ctx by (auto simp: r4nv_semaphore_create_def Let_def split: if_split_asm bind_split_asm)
  define st1 where "st1 = st\<lparr>s_heap := h\<rparr>"
  obtain code handle w m where c: "ss_create ctx initial 0xFFFFFFFF (s_kernel st1) = (code, handle, w, m)"
    by (metis prod_cases4)
  have "code = semaphore_ok \<and> handle \<noteq> 0 \<and> p = q \<and>
      (\<exists>m'. store_bytes m p (box_bytes handle p) = Some m' \<and> st' = set_kernel (w, m') (set_kernel (w, m) st1))"
    using assms ctx q c
    by (auto simp: r4nv_semaphore_create_def Let_def st1_def set_kernel_def split: if_split_asm bind_split_asm)
  then obtain m' where r: "code = semaphore_ok" "handle \<noteq> 0" "p = q" "store_bytes m p (box_bytes handle p) = Some m'"
    "st' = set_kernel (w, m') (set_kernel (w, m) st1)" by blast
  have al: "p AND 15 = 0" using allocate_span(1) [OF q] r(3) by simp
  have "accessible m p 16" "m' = put m p (box_bytes handle p)" using store_bytes_Some [OF r(4)] by simp_all
  then have "sema_box p m' = Some (Some handle)" using sema_box_put assms(2) al by simp
  moreover have "s_failures st = 0" using ctx(2) by (simp add: sema_available_def)
  ultimately show ?thesis using ctx r c al
    by (intro exI [of _ ctx] exI [of _ handle] exI [of _ "s_kernel st1"] exI [of _ m]) (simp add: st1_def set_kernel_def)
qed

section \<open>Counting\<close>

text \<open>
  The abstract semaphore: a counter, driven by tries (\<^const>\<open>True\<close>) and releases (\<^const>\<open>False\<close>), with the
  status of each; and the same run of the adapters on a box.
\<close>

fun counter_run :: "nat \<Rightarrow> bool list \<Rightarrow> NV_STATUS list \<times> nat" where
  "counter_run c [] = ([], c)"
| "counter_run c (True # ops) =
     (if c = 0 then (let (r, c) = counter_run c ops in (NV_ERR_TIMEOUT_RETRY # r, c))
      else (let (r, c) = counter_run (c - 1) ops in (NV_OK # r, c)))"
| "counter_run c (False # ops) = (let (r, c) = counter_run (c + 1) ops in (NV_OK # r, c))"

fun sema_run :: "NvU64 \<Rightarrow> 'w sema_state \<Rightarrow> bool list \<Rightarrow> (NV_STATUS list \<times> 'w sema_state) option" where
  "sema_run p st [] = Some ([], st)"
| "sema_run p st (attempt # ops) = do {
     (status, st) \<leftarrow> (if attempt then os_cond_acquire_semaphore r4nv_semaphore_acquire p st
                     else os_release_semaphore r4nv_semaphore_release p st);
     (rest, st) \<leftarrow> sema_run p st ops;
     Some (status # rest, st)
   }"

text \<open>
  What the kernel's service promises for the count of each live handle: a try takes a permit or times
  out, a release below the maximum gives one back, neither changes memory, and a new semaphore has its
  initial count.
\<close>

definition kernel_tries :: "'w sema_service \<Rightarrow> ('w \<Rightarrow> NvU64 \<rightharpoonup> nat) \<Rightarrow> bool" where
  "kernel_tries ctx count \<longleftrightarrow> (\<forall>h w m c. count w h = Some c \<longrightarrow>
     (\<exists>w'. ss_acquire ctx h 0 (w, m) = (if c = 0 then semaphore_timeout else semaphore_ok, w', m) \<and>
       count w' h = Some (c - 1)))"

definition kernel_releases :: "'w sema_service \<Rightarrow> ('w \<Rightarrow> NvU64 \<rightharpoonup> nat) \<Rightarrow> bool" where
  "kernel_releases ctx count \<longleftrightarrow> (\<forall>h w m c. count w h = Some c \<and> c < 0xFFFFFFFF \<longrightarrow>
     (\<exists>w'. ss_release ctx h (w, m) = (semaphore_ok, w', m) \<and> count w' h = Some (c + 1)))"

definition kernel_creates :: "'w sema_service \<Rightarrow> ('w \<Rightarrow> NvU64 \<rightharpoonup> nat) \<Rightarrow> bool" where
  "kernel_creates ctx count \<longleftrightarrow> (\<forall>n k h w m. ss_create ctx n 0xFFFFFFFF k = (semaphore_ok, h, w, m) \<and> h \<noteq> 0 \<longrightarrow>
     count w h = Some (unat n))"

lemma try_counts:
  assumes "kernel_tries ctx count" "s_context st = Some ctx" "sema_box p (s_memory st) = Some (Some h)" "h \<noteq> 0"
    "count (h_world (s_heap st)) h = Some c"
  shows "\<exists>w. os_cond_acquire_semaphore r4nv_semaphore_acquire p st =
      Some (if c = 0 then NV_ERR_TIMEOUT_RETRY else NV_OK, set_kernel (w, s_memory st) st) \<and> count w h = Some (c - 1)"
proof -
  obtain w where "ss_acquire ctx h 0 (s_kernel st) = (if c = 0 then semaphore_timeout else semaphore_ok, w, s_memory st)"
    "count w h = Some (c - 1)"
    using assms(1,5) unfolding kernel_tries_def by metis
  then show ?thesis
    using assms(2-4)
    by (intro exI [of _ w]) (simp add: os_cond_acquire_semaphore_def r4nv_semaphore_acquire_def sema_result_def sema_status_def)
qed

lemma release_counts:
  assumes "kernel_releases ctx count" "s_context st = Some ctx" "sema_box p (s_memory st) = Some (Some h)" "h \<noteq> 0"
    "count (h_world (s_heap st)) h = Some c" "c < 0xFFFFFFFF"
  shows "\<exists>w. os_release_semaphore r4nv_semaphore_release p st = Some (NV_OK, set_kernel (w, s_memory st) st) \<and>
    count w h = Some (c + 1)"
proof -
  obtain w where "ss_release ctx h (s_kernel st) = (semaphore_ok, w, s_memory st)" "count w h = Some (c + 1)"
    using assms(1,5,6) unfolding kernel_releases_def by metis
  then show ?thesis
    using assms(2-4)
    by (intro exI [of _ w]) (simp add: os_release_semaphore_def r4nv_semaphore_release_def sema_result_def sema_status_def)
qed

lemma sema_run_counts:
  assumes "kernel_tries ctx count" "kernel_releases ctx count" "h \<noteq> 0"
    and "s_context st = Some ctx" "sema_box p (s_memory st) = Some (Some h)" "count (h_world (s_heap st)) h = Some c"
    and "c + length ops \<le> 0xFFFFFFFF"
  shows "\<exists>st'. sema_run p st ops = Some (fst (counter_run c ops), st') \<and>
    count (h_world (s_heap st')) h = Some (snd (counter_run c ops)) \<and> s_failures st' = s_failures st"
  using assms(4-)
proof (induction ops arbitrary: st c)
  case (Cons attempt ops)
  show ?case
  proof (cases attempt)
    case True
    obtain w where w: "os_cond_acquire_semaphore r4nv_semaphore_acquire p st =
      Some (if c = 0 then NV_ERR_TIMEOUT_RETRY else NV_OK, set_kernel (w, s_memory st) st)" "count w h = Some (c - 1)"
      using try_counts [OF assms(1) Cons.prems(1,2) assms(3) Cons.prems(3)] by blast
    have "c - 1 + length ops \<le> 0xFFFFFFFF" using Cons.prems(4) by simp
    then obtain st' where "sema_run p (set_kernel (w, s_memory st) st) ops = Some (fst (counter_run (c - 1) ops), st')"
      "count (h_world (s_heap st')) h = Some (snd (counter_run (c - 1) ops))" "s_failures st' = s_failures st"
      using Cons.IH [of "set_kernel (w, s_memory st) st" "c - 1"] Cons.prems w(2) by (auto simp: set_kernel_def)
    then show ?thesis using True w(1) by (simp add: Let_def split: prod.split)
  next
    case False
    obtain w where w: "os_release_semaphore r4nv_semaphore_release p st = Some (NV_OK, set_kernel (w, s_memory st) st)"
      "count w h = Some (c + 1)"
      using release_counts [OF assms(2) Cons.prems(1,2) assms(3) Cons.prems(3)] Cons.prems(4) by auto
    obtain st' where "sema_run p (set_kernel (w, s_memory st) st) ops = Some (fst (counter_run (c + 1) ops), st')"
      "count (h_world (s_heap st')) h = Some (snd (counter_run (c + 1) ops))" "s_failures st' = s_failures st"
      using Cons.IH [of "set_kernel (w, s_memory st) st" "c + 1"] Cons.prems w(2) by (auto simp: set_kernel_def)
    then show ?thesis using False w(1) by (simp add: Let_def split: prod.split)
  qed
qed simp

section \<open>Properties\<close>

text \<open>A kernel with one semaphore, handle 9; its state is the count.\<close>

definition counting_heap :: "nat heap_service" where
  "counting_heap =
     \<lparr>hs_allocate = (\<lambda>bytes align (w, m). (True, \<lparr>a_handle = 7, a_cpu_address = 4096, a_byte_length = bytes\<rparr>, w, m)),
      hs_release = (\<lambda>handle (w, m). (True, w, m))\<rparr>"

definition counting_sema :: "nat sema_service" where
  "counting_sema =
     \<lparr>ss_irq = (\<lambda>w. False), ss_sleepable = (\<lambda>w. True),
      ss_create = (\<lambda>n limit (w, m). (semaphore_ok, 9, unat n, m)),
      ss_destroy = (\<lambda>h (w, m). (semaphore_ok, w, m)),
      ss_acquire = (\<lambda>h t (w, m). (if w = 0 then semaphore_timeout else semaphore_ok, w - 1, m)),
      ss_release = (\<lambda>h (w, m). (semaphore_ok, w + 1, m))\<rparr>"

definition counting_state :: "nat sema_state" where
  "counting_state =
     \<lparr>s_context = Some counting_sema, s_failures = 0,
      s_heap = \<lparr>h_context = Some counting_heap, h_failed_releases = 0, h_world = 0, h_memory = sample_memory\<rparr>,
      s_native = \<lparr>n_threads = True, n_admitted = True, n_first_fault = 0, n_faults = 0\<rparr>\<rparr>"

definition counting_count :: "nat \<Rightarrow> NvU64 \<rightharpoonup> nat" where
  "counting_count w h = (if h = 9 then Some w else None)"

lemma counting_kernel:
  "kernel_tries counting_sema counting_count" "kernel_releases counting_sema counting_count"
  "kernel_creates counting_sema counting_count"
  by (auto simp: kernel_tries_def kernel_releases_def kernel_creates_def counting_sema_def counting_count_def)

lemma counting_create: "\<exists>st1. r4nv_semaphore_create 2 counting_state = Some (4112, st1)"
proof -
  let ?m = "put sample_memory 4096 (header_bytes 7 4096)"
  have "store_bytes sample_memory 4096 (header_bytes 7 4096) = Some ?m"
    by (rule store_bytes_put) (simp_all add: sample_accessible)
  moreover have "store_bytes ?m 4112 (box_bytes 9 4112) = Some (put ?m 4112 (box_bytes 9 4112))"
    by (rule store_bytes_put) (simp_all add: sample_accessible accessible_put)
  moreover have "max 16 1 = (16 :: NvU64)" by (simp add: max_def word_le_nat_alt)
  ultimately show ?thesis
    by (simp add: r4nv_semaphore_create_def r4nv_heap_allocate_def counting_state_def counting_sema_def counting_heap_def
        sema_available_def heap_available_def allocation_refused_def word_less_nat_alt set_kernel_def)
qed

text \<open>
  C4: Over a kernel that counts, a semaphore of the adapters is a counter: any sequence of conditional
  acquires and releases on a pointer that \<^verbatim>\<open>os_alloc_semaphore\<close> returned, within the maximum of permits,
  gives the statuses of the abstract counter from the initial count and leaves its value; no call of the
  sequence is a fault.
\<close>

theorem semaphore_refines_counter:
  assumes "os_alloc_semaphore r4nv_semaphore_create initial st = Some (p, st1)" "p \<noteq> 0"
    "s_context st = Some ctx" "kernel_creates ctx count" "kernel_tries ctx count" "kernel_releases ctx count"
    "unat initial + length ops \<le> 0xFFFFFFFF"
  shows "\<exists>h st'. sema_run p st1 ops = Some (fst (counter_run (unat initial) ops), st') \<and>
    count (h_world (s_heap st')) h = Some (snd (counter_run (unat initial) ops)) \<and> s_failures st' = 0"
proof -
  obtain h k m where b: "s_context st1 = Some ctx" "h \<noteq> 0" "sema_box p (s_memory st1) = Some (Some h)" "s_failures st1 = 0"
    "(semaphore_ok, h, h_world (s_heap st1), m) = ss_create ctx initial 0xFFFFFFFF k"
    using create_box [OF assms(1) [unfolded os_alloc_semaphore_def] assms(2)] assms(3) by auto
  have "count (h_world (s_heap st1)) h = Some (unat initial)"
    using assms(4) b(2) b(5) [symmetric] unfolding kernel_creates_def by blast
  then show ?thesis
    using sema_run_counts [OF assms(5,6) b(2,1,3) _ assms(7)] b(4) by metis
qed

theorem semaphore_refines_counter_witness:
  "\<exists>st1 st'. os_alloc_semaphore r4nv_semaphore_create 2 counting_state = Some (4112, st1) \<and>
     sema_run 4112 st1 [True, True, True, False, True] = Some ([NV_OK, NV_OK, NV_ERR_TIMEOUT_RETRY, NV_OK, NV_OK], st')"
proof -
  obtain st1 where c: "os_alloc_semaphore r4nv_semaphore_create 2 counting_state = Some (4112, st1)"
    using counting_create by (auto simp: os_alloc_semaphore_def)
  show ?thesis
    using semaphore_refines_counter [OF c _ _ counting_kernel(3,1,2), of "[True, True, True, False, True]"] c
    by (auto simp: counting_state_def)
qed

text \<open>What a stopped call leaves: one more fault counted, the first fault with its operation and result latched.\<close>

definition fault_latched :: "NvU32 \<Rightarrow> 'w sema_state \<Rightarrow> 'w sema_state \<Rightarrow> bool" where
  "fault_latched operation st st' \<longleftrightarrow>
     n_faults (s_native st') = n_faults (s_native st) + 1 \<and> n_first_fault (s_native st') \<noteq> 0 \<and>
     (\<exists>result. result \<noteq> 0 \<and> n_first_fault (s_native st') =
       (if n_first_fault (s_native st) = 0 then push_bit 32 (ucast operation) OR ucast (result :: NvU32)
        else n_first_fault (s_native st)))"

lemma parts_native:
  "sema_result code st = (r, st') \<Longrightarrow> s_native st' = s_native st"
  "sema_fault st = (r, st') \<Longrightarrow> s_native st' = s_native st"
  "sema_heap_release p st = Some (ok, st') \<Longrightarrow> s_native st' = s_native st"
  "s_native (set_kernel k st) = s_native st"
  by (auto simp: sema_result_def sema_fault_def sema_heap_release_def set_kernel_def
      split: driver_semaphore_code.split_asm bind_split_asm)

lemma provider_native:
  "r4nv_semaphore_acquire p t st = Some (r, st') \<Longrightarrow> s_native st' = s_native st"
  "r4nv_semaphore_release p st = Some (r, st') \<Longrightarrow> s_native st' = s_native st"
  "r4nv_semaphore_free p st = Some (r, st') \<Longrightarrow> s_native st' = s_native st"
  by (auto simp: r4nv_semaphore_acquire_def r4nv_semaphore_release_def r4nv_semaphore_free_def Let_def parts_native(4)
      dest!: parts_native(1-3) split: option.split_asm bind_split_asm prod.split_asm if_split_asm)

lemma or_fault_latches:
  assumes "or_fault sema_native_fault operation x = Some (Stopped e, st')" "operation \<noteq> 0"
    "\<And>r s. x = Some (r, s) \<Longrightarrow> s_native s = s_native st"
  shows "fault_latched operation st st'"
  using assms fault_encoded_nonzero [of operation]
  by (auto simp: or_fault_def sema_native_fault_def r4nv_native_fault_def fault_latched_def Let_def
      split: bind_split_asm prod.split_asm if_split_asm)

text \<open>A permit is one the kernel granted on the handle in the box, and a release one it took.\<close>

lemma acquire_granted:
  "r4nv_semaphore_acquire p t st = Some (0, st') \<longleftrightarrow>
     (\<exists>ctx h k. s_context st = Some ctx \<and> sema_box p (s_memory st) = Some (Some h) \<and> h \<noteq> 0 \<and>
        ss_acquire ctx h t (s_kernel st) = (semaphore_ok, k) \<and> st' = set_kernel k st)"
  by (auto simp: r4nv_semaphore_acquire_def sema_result_def sema_fault_def Let_def
      split: option.split bind_split prod.split driver_semaphore_code.split)

lemma release_granted:
  "r4nv_semaphore_release p st = Some (0, st') \<longleftrightarrow>
     (\<exists>ctx h k. s_context st = Some ctx \<and> sema_box p (s_memory st) = Some (Some h) \<and> h \<noteq> 0 \<and>
        ss_release ctx h (s_kernel st) = (semaphore_ok, k) \<and> st' = set_kernel k st)"
  by (auto simp: r4nv_semaphore_release_def sema_result_def sema_fault_def Let_def
      split: option.split bind_split prod.split driver_semaphore_code.split)

text \<open>
  C9: No fake permit. \<^verbatim>\<open>nvkms_sema_down\<close> returns exactly when its pointer is a box with a live handle and the kernel
  granted an unlimited acquire on that handle; \<^verbatim>\<open>nvkms_sema_up\<close> and \<^verbatim>\<open>os_release_mutex\<close> return exactly when the kernel
  took the release; the three frees exactly when the provider's free succeeded. Whenever one of the six does not
  return, it has counted a fault and the latch is not empty: it holds this operation and a nonzero result, or
  the earlier fault it held before. Null yields no permit.
\<close>

theorem no_fake_permit:
  "(nvkms_sema_down r4nv_semaphore_acquire sema_native_fault p st = Some (Returned (), st') \<longleftrightarrow>
      (\<exists>ctx h k. s_context st = Some ctx \<and> sema_box p (s_memory st) = Some (Some h) \<and> h \<noteq> 0 \<and>
         ss_acquire ctx h (- 1) (s_kernel st) = (semaphore_ok, k) \<and> st' = set_kernel k st)) \<and>
   list_all (\<lambda>up. up r4nv_semaphore_release sema_native_fault p st = Some (Returned (), st') \<longleftrightarrow>
      (\<exists>ctx h k. s_context st = Some ctx \<and> sema_box p (s_memory st) = Some (Some h) \<and> h \<noteq> 0 \<and>
         ss_release ctx h (s_kernel st) = (semaphore_ok, k) \<and> st' = set_kernel k st)) [nvkms_sema_up, os_release_mutex] \<and>
   list_all (\<lambda>free. free r4nv_semaphore_free sema_native_fault p st = Some (Returned (), st') \<longleftrightarrow>
      r4nv_semaphore_free p st = Some (R4NV_SEMA_OK, st')) [nvkms_sema_free, os_free_semaphore, os_free_mutex] \<and>
   list_all (\<lambda>(call, operation). case call of Some (Stopped e, st') \<Rightarrow> fault_latched operation st st' | _ \<Rightarrow> True)
     [(nvkms_sema_down r4nv_semaphore_acquire sema_native_fault p st, R4NV_FAULT_SEMAPHORE_DOWN),
      (nvkms_sema_up r4nv_semaphore_release sema_native_fault p st, R4NV_FAULT_SEMAPHORE_UP),
      (os_release_mutex r4nv_semaphore_release sema_native_fault p st, R4NV_FAULT_SEMAPHORE_UP),
      (nvkms_sema_free r4nv_semaphore_free sema_native_fault p st, R4NV_FAULT_SEMAPHORE_FREE),
      (os_free_semaphore r4nv_semaphore_free sema_native_fault p st, R4NV_FAULT_SEMAPHORE_FREE),
      (os_free_mutex r4nv_semaphore_free sema_native_fault p st, R4NV_FAULT_SEMAPHORE_FREE)] \<and>
   nvkms_sema_down r4nv_semaphore_acquire sema_native_fault 0 st \<noteq> Some (Returned (), st') \<and>
   nvkms_sema_up r4nv_semaphore_release sema_native_fault 0 st \<noteq> Some (Returned (), st')"
proof -
  have stops: "case or_fault sema_native_fault operation x of Some (Stopped e, st') \<Rightarrow> fault_latched operation st st' | _ \<Rightarrow> True"
    if "operation \<noteq> 0" "\<And>r s. x = Some (r, s) \<Longrightarrow> s_native s = s_native st" for operation x
    using or_fault_latches [OF _ that] by (auto split: option.split outcome.split)
  note adapters = nvkms_sema_down_def nvkms_sema_up_def os_release_mutex_def nvkms_sema_free_def os_free_semaphore_def os_free_mutex_def
  show ?thesis
    using rm_sema.null_stops [of st st']
    by (simp add: rm_sema.void_adapters_return acquire_granted release_granted os_free_mutex_def)
      (simp add: adapters stops provider_native)
qed

subsection \<open>Freeing\<close>

lemma sema_box_cleared:
  assumes "sema_box p m = Some (Some h)" "store_bytes m p (quad_bytes 0) = Some m'"
  shows "sema_box p m' = Some (Some 0)"
proof -
  have m': "accessible m p 8" "m' = put m p (quad_bytes 0)" using store_bytes_Some [OF assms(2)] by simp_all
  have "load_bytes m' (p + 8) 8 = load_bytes m (p + 8) 8"
  proof (rule load_bytes_cong)
    fix i :: nat assume "i < 8"
    moreover have "p + 8 + of_nat i - p = (of_nat (8 + i) :: NvU64)" by simp
    ultimately show "m' (p + 8 + of_nat i) = m (p + 8 + of_nat i)"
      using unat_of_nat_64 [of "8 + i"] unfolding m'(2) by (intro put_outside) (simp del: of_nat_add)
  qed
  moreover have "load_bytes m' p 8 = Some (quad_bytes 0)"
    using load_bytes_put [of m p "quad_bytes 0"] m' by simp
  ultimately show ?thesis
    using assms(1) quad_roundtrip [of 0]
    by (auto simp: sema_box_def split: if_split_asm bind_split_asm)
qed

lemma free_cleared:
  assumes "s_context st = Some ctx" "sema_box p (s_memory st) = Some (Some 0)"
  shows "r4nv_semaphore_free p st =
    do { (ok, st) \<leftarrow> sema_heap_release p st; Some (if ok then (R4NV_SEMA_OK, st) else sema_fault st) }"
proof -
  have "p \<noteq> 0" using assms(2) by (auto simp: sema_box_def)
  moreover have "set_kernel (s_kernel st) st = st" by (simp add: set_kernel_def)
  ultimately show ?thesis using assms by (simp add: r4nv_semaphore_free_def set_kernel_def)
qed

lemma failed_release_world:
  assumes "heap_release p h = Some (False, h')" "\<forall>ctx. h_context h = Some ctx \<longrightarrow>
      (\<forall>handle w m w' m'. hs_release ctx handle (w, m) = (False, w', m') \<longrightarrow> m' = m)"
  shows "h_memory h' = h_memory h \<and> h_context h' = h_context h"
  using assms
  by (auto simp: heap_release_def call_release_def count_failed_release_def Let_def
      split: if_split_asm option.split_asm bind_split_asm prod.split_asm)

text \<open>
  C30: A semaphore is destroyed once. When the kernel has destroyed it but the memory of its box could not
  be released, the failed free reports an error and is counted, the box stays with its handle cleared,
  and freeing it again only retries the release of the memory: the kernel is never asked to destroy the
  stale handle, whatever its service would do with it.
\<close>

theorem semaphore_destroyed_once:
  assumes "s_context st = Some ctx" "sema_box p (s_memory st) = Some (Some h)" "h \<noteq> 0"
    and destroyed: "ss_destroy ctx h (s_kernel st) = (semaphore_ok, w, s_memory st)"
    and retained: "\<forall>hc. h_context (s_heap st) = Some hc \<longrightarrow>
      (\<forall>handle w m w' m'. hs_release hc handle (w, m) = (False, w', m') \<longrightarrow> m' = m)"
    and freed: "r4nv_semaphore_free p st = Some (r, st')" "r \<noteq> R4NV_SEMA_OK"
  shows "r = R4NV_SEMA_INVALID \<and> s_failures st' = s_failures st + 1 \<and>
    sema_box p (s_memory st') = Some (Some 0) \<and>
    r4nv_semaphore_free p (st'\<lparr>s_context := Some (ctx\<lparr>ss_destroy := d\<rparr>)\<rparr>) =
      do { (ok, st) \<leftarrow> sema_heap_release p (st'\<lparr>s_context := Some (ctx\<lparr>ss_destroy := d\<rparr>)\<rparr>);
           Some (if ok then (R4NV_SEMA_OK, st) else sema_fault st) }"
proof -
  have p: "p \<noteq> 0" using assms(2) by (auto simp: sema_box_def)
  define st1 where "st1 = set_kernel (w, s_memory st) st"
  have free: "r4nv_semaphore_free p st = do {
      m \<leftarrow> store_bytes (s_memory st) p (quad_bytes 0);
      (ok, st) \<leftarrow> sema_heap_release p (set_kernel (w, m) st1);
      Some (if ok then (R4NV_SEMA_OK, st) else sema_fault st) }"
    using assms(1-4) p by (simp add: r4nv_semaphore_free_def st1_def set_kernel_def)
  obtain m where m: "store_bytes (s_memory st) p (quad_bytes 0) = Some m"
    using freed(1) free by (auto split: bind_split_asm)
  obtain ok st2 where rel: "sema_heap_release p (set_kernel (w, m) st1) = Some (ok, st2)"
    using freed(1) free m by (auto split: bind_split_asm)
  then have ok: "\<not> ok" "(r, st') = sema_fault st2" using freed free m rel by (auto split: if_split_asm)
  obtain h' where h': "heap_release p (s_heap (set_kernel (w, m) st1)) = Some (False, h')"
    "st2 = (set_kernel (w, m) st1)\<lparr>s_heap := h'\<rparr>"
    using rel ok(1) by (auto simp: sema_heap_release_def split: bind_split_asm)
  have "h_memory h' = m"
    using failed_release_world [OF h'(1)] retained by (simp add: set_kernel_def st1_def)
  then have "s_memory st' = m" "r = R4NV_SEMA_INVALID" "s_failures st' = s_failures st + 1"
    using ok(2) h'(2) by (simp_all add: sema_fault_def set_kernel_def st1_def)
  moreover from this have "sema_box p (s_memory st') = Some (Some 0)"
    using sema_box_cleared [OF assms(2) m] by simp
  ultimately show ?thesis using free_cleared [of "st'\<lparr>s_context := Some (ctx\<lparr>ss_destroy := d\<rparr>)\<rparr>"] by simp
qed


theorem semaphore_destroyed_once_witness:
  "\<exists>(st :: nat sema_state) st'. r4nv_semaphore_free 4112 st = Some (R4NV_SEMA_INVALID, st') \<and>
     sema_box 4112 (s_memory st) = Some (Some 9) \<and> sema_box 4112 (s_memory st') = Some (Some 0)"
proof -
  define m where "m = put sample_memory 4112 (box_bytes 9 4112)"
  define st where "st = counting_state\<lparr>s_heap := \<lparr>h_context = None, h_failed_releases = 0, h_world = 0, h_memory = m\<rparr>\<rparr>"
  have box: "sema_box 4112 (s_memory st) = Some (Some 9)"
    by (simp add: st_def m_def sema_box_put sample_accessible)
  have "store_bytes m 4112 (quad_bytes 0) = Some (put m 4112 (quad_bytes 0))"
    by (rule store_bytes_put) (simp_all add: m_def accessible_put sample_accessible)
  then obtain st' where f: "r4nv_semaphore_free 4112 st = Some (3, st')"
    using box by (simp add: r4nv_semaphore_free_def st_def counting_state_def counting_sema_def set_kernel_def
        sema_heap_release_def heap_release_def sema_fault_def)
  have "sema_box 4112 (s_memory st') = Some (Some 0)"
    using semaphore_destroyed_once [of st counting_sema 4112 9 0 3 st'] box f
    by (simp add: st_def counting_state_def counting_sema_def)
  then show ?thesis using box f by blast
qed

end
