(* ===== verification/Rm_Regions.thy ===== *)
theory Rm_Regions
  imports Rm_Heap
begin

text \<open>
  Disjoint regions of memory. A layout is a list of regions, each an address with the bytes it holds; it says
  that memory holds all of them and that no two share an address. Writes inside a region change that region of
  the layout and no other, and the adapters of \<^verbatim>\<open>os_memory.c\<close> and \<^verbatim>\<open>nvkms_memory.c\<close> act on the bytes of regions as
  on lists. This is what lets a longer piece of code be followed without arithmetic on addresses. The last
  section says what a kernel heap that keeps its word is, and which blocks the driver owns on it.
\<close>

section \<open>Spans and their contents\<close>

definition span :: "NvU64 \<Rightarrow> nat \<Rightarrow> NvU64 set" where
  "span a n = {x. unat (x - a) < n}"

definition holds :: "memory \<Rightarrow> NvU64 \<Rightarrow> NvU8 list \<Rightarrow> bool" where
  "holds m p bs \<longleftrightarrow> (\<forall>i < length bs. m (p + of_nat i) = Some (bs ! i))"

text \<open>The list with a part replaced.\<close>

definition patch :: "nat \<Rightarrow> 'a list \<Rightarrow> 'a list \<Rightarrow> 'a list" where
  "patch k cs bs = take k bs @ cs @ drop (k + length cs) bs"

lemma length_patch [simp]: "k + length cs \<le> length bs \<Longrightarrow> length (patch k cs bs) = length bs"
  by (simp add: patch_def)

lemma nth_patch:
  "k + length cs \<le> length bs \<Longrightarrow> i < length bs \<Longrightarrow>
   patch k cs bs ! i = (if k \<le> i \<and> i < k + length cs then cs ! (i - k) else bs ! i)"
  by (auto simp: patch_def nth_append)

lemma span_iff: "p + of_nat i \<in> span p n \<longleftrightarrow> i < n" if "i < 2 ^ 64"
  using unat_of_nat_64 [OF that] by (simp add: span_def)

lemma span_offset:
  assumes "k + n \<le> l" "l \<le> 2 ^ 64"
  shows "span (p + of_nat k) n \<subseteq> span p l"
proof
  fix x assume x: "x \<in> span (p + of_nat k) n"
  define y where "y = x - (p + of_nat k)"
  have y: "unat y < n" using x by (simp add: span_def y_def)
  have "unat (y + of_nat k) = unat y + k"
  proof (cases "k < 2 ^ 64")
    case True
    then show ?thesis using assms y unat_of_nat_64 [of k] by (subst unat_add_nowrap) simp_all
  qed (use assms y in simp)
  moreover have "x - p = y + of_nat k" by (simp add: y_def)
  ultimately show "x \<in> span p l" using y assms(1) by (simp add: span_def)
qed

lemma span_bounds:
  assumes "x \<in> span a n" "unat a + n \<le> 2 ^ 64"
  shows "unat a \<le> unat x" "unat x < unat a + n"
proof -
  have "unat (a + (x - a)) = unat a + unat (x - a)"
    using assms by (intro unat_add_nowrap) (simp add: span_def)
  then show "unat a \<le> unat x" "unat x < unat a + n" using assms(1) by (simp_all add: span_def)
qed

lemma span_before:
  "unat a + n \<le> unat b \<Longrightarrow> unat b + k \<le> 2 ^ 64 \<Longrightarrow> span a n \<inter> span b k = {}"
  using span_bounds [of _ a n] span_bounds [of _ b k] by fastforce

lemma span_nth: "x \<in> span p n \<Longrightarrow> \<exists>i < n. x = p + of_nat i"
  by (rule exI [of _ "unat (x - p)"]) (simp add: span_def)

lemma holdsI: "accessible m p (length bs) \<Longrightarrow> slice m p (length bs) = bs \<Longrightarrow> holds m p bs"
  unfolding holds_def by (metis accessible_nth)

lemma holds_slice: "holds m p bs \<Longrightarrow> k + n \<le> length bs \<Longrightarrow> slice m (p + of_nat k) n = take n (drop k bs)"
  by (rule nth_equalityI) (simp_all add: holds_def add.assoc flip: of_nat_add)

lemma holds_accessible: "holds m p bs \<Longrightarrow> k + n \<le> length bs \<Longrightarrow> accessible m (p + of_nat k) n"
  by (simp add: holds_def accessible_def add.assoc flip: of_nat_add)

lemma holds_nth: "holds m p bs \<Longrightarrow> i < length bs \<Longrightarrow> m (p + of_nat i) = Some (bs ! i)"
  by (simp add: holds_def)

lemma holds_append: "holds m p (bs @ cs) \<longleftrightarrow> holds m p bs \<and> holds m (p + of_nat (length bs)) cs"
proof
  assume h: "holds m p (bs @ cs)"
  have "m (p + of_nat (length bs) + of_nat i) = Some (cs ! i)" if "i < length cs" for i
    using holds_nth [OF h, of "length bs + i"] that by (simp add: nth_append add.assoc)
  moreover have "m (p + of_nat i) = Some (bs ! i)" if "i < length bs" for i
    using holds_nth [OF h, of i] that by (simp add: nth_append)
  ultimately show "holds m p bs \<and> holds m (p + of_nat (length bs)) cs" by (simp add: holds_def)
next
  assume h: "holds m p bs \<and> holds m (p + of_nat (length bs)) cs"
  show "holds m p (bs @ cs)"
    unfolding holds_def
  proof (intro allI impI)
    fix i assume i: "i < length (bs @ cs)"
    show "m (p + of_nat i) = Some ((bs @ cs) ! i)"
    proof (cases "i < length bs")
      case False
      then obtain j where "i = length bs + j" by (metis le_add_diff_inverse not_less)
      then show ?thesis using h i by (simp add: holds_def nth_append add.assoc)
    qed (use h in \<open>simp add: holds_def nth_append\<close>)
  qed
qed

lemma holds_cong: "(\<And>x. x \<in> span p (length bs) \<Longrightarrow> m' x = m x) \<Longrightarrow> length bs \<le> 2 ^ 64 \<Longrightarrow> holds m' p bs \<longleftrightarrow> holds m p bs"
  by (simp add: holds_def span_iff)

lemma holds_put_other:
  assumes "holds m p bs" "span d (length cs) \<inter> span p (length bs) = {}" "length bs \<le> 2 ^ 64"
  shows "holds (put m d cs) p bs"
proof -
  have "put m d cs x = m x" if "x \<in> span p (length bs)" for x
  proof -
    have "x \<notin> span d (length cs)" using that assms(2) by blast
    then show ?thesis by (simp add: put_outside span_def)
  qed
  then show ?thesis using holds_cong [of p bs "put m d cs" m] assms by blast
qed

lemma holds_put_inside:
  assumes "holds m p bs" "k + length cs \<le> length bs" "length bs \<le> 2 ^ 64"
  shows "holds (put m (p + of_nat k) cs) p (patch k cs bs)"
proof (cases "cs = []")
  case nonempty: False
  show ?thesis
    unfolding holds_def
  proof (intro allI impI)
    fix i assume "i < length (patch k cs bs)"
    then have i: "i < length bs" using assms(2) by simp
    show "put m (p + of_nat k) cs (p + of_nat i) = Some (patch k cs bs ! i)"
    proof (cases "k \<le> i \<and> i < k + length cs")
      case True
      then obtain j where j: "i = k + j" "j < length cs" by (metis le_add_diff_inverse nat_add_left_cancel_less)
      have "put m (p + of_nat k) cs (p + of_nat k + of_nat j) = Some (cs ! j)"
        by (rule put_at) (use j assms in simp_all)
      then show ?thesis using j True i assms(2) by (simp add: nth_patch add.assoc)
    next
      case False
      have "\<not> unat (p + of_nat i - (p + of_nat k)) < length cs"
      proof (cases "k \<le> i")
        case True
        then obtain j where j: "i = k + j" using le_Suc_ex by blast
        then have "p + of_nat i - (p + of_nat k) = of_nat j" by simp
        moreover have "unat (of_nat j :: NvU64) = j" using j i assms(3) by (intro unat_of_nat_64) linarith
        ultimately show ?thesis using False j by simp
      next
        case less: False
        then have ki: "k - i < 2 ^ 64" "0 < k - i" using assms i nonempty by (cases cs; simp)+
        have "p + of_nat i - (p + of_nat k) = 0 - of_nat (k - i)" using less by (simp add: of_nat_diff)
        moreover have "unat (0 - of_nat (k - i) :: NvU64) = 2 ^ 64 - (k - i)" using offset_shift [OF ki(1), of 0] ki by simp
        ultimately show ?thesis using assms i less by simp
      qed
      then have "put m (p + of_nat k) cs (p + of_nat i) = m (p + of_nat i)" by (rule put_outside)
      then show ?thesis using False i assms(1,2) by (auto simp: nth_patch holds_def)
    qed
  qed
qed (use assms(1) in \<open>simp add: patch_def\<close>)

lemma holds_put_all: "length bs \<le> 2 ^ 64 \<Longrightarrow> holds (put m p bs) p bs"
  by (simp add: holds_def put_at)

section \<open>Layouts\<close>

type_synonym region = "NvU64 \<times> NvU8 list"

definition region_span :: "region \<Rightarrow> NvU64 set" where
  "region_span r = span (fst r) (length (snd r))"

definition layout :: "memory \<Rightarrow> region list \<Rightarrow> bool" where
  "layout m rs \<longleftrightarrow>
     (\<forall>i < length rs. holds m (fst (rs ! i)) (snd (rs ! i)) \<and> length (snd (rs ! i)) \<le> 2 ^ 64) \<and>
     (\<forall>i < length rs. \<forall>j < length rs. i \<noteq> j \<longrightarrow> region_span (rs ! i) \<inter> region_span (rs ! j) = {})"

lemma layout_holds: "layout m rs \<Longrightarrow> i < length rs \<Longrightarrow> rs ! i = (p, bs) \<Longrightarrow> holds m p bs"
  unfolding layout_def by force

lemma layout_length: "layout m rs \<Longrightarrow> i < length rs \<Longrightarrow> rs ! i = (p, bs) \<Longrightarrow> length bs \<le> 2 ^ 64"
  unfolding layout_def by force

lemma layout_disjoint: "layout m rs \<Longrightarrow> i < length rs \<Longrightarrow> j < length rs \<Longrightarrow> i \<noteq> j \<Longrightarrow> region_span (rs ! i) \<inter> region_span (rs ! j) = {}"
  by (simp add: layout_def)

text \<open>A write inside a region.\<close>

lemma layout_put:
  assumes "layout m rs" "i < length rs" "rs ! i = (p, bs)" "k + length cs \<le> length bs"
  shows "layout (put m (p + of_nat k) cs) (rs[i := (p, patch k cs bs)])"
proof -
  note len = layout_length [OF assms(1-3)]
  have "region_span ((rs[i := (p, patch k cs bs)]) ! j) = region_span (rs ! j)" if "j < length rs" for j
    using that assms(3,4) by (cases "i = j") (simp_all add: region_span_def)
  moreover have "holds (put m (p + of_nat k) cs) (fst ((rs[i := (p, patch k cs bs)]) ! j)) (snd ((rs[i := (p, patch k cs bs)]) ! j))"
    if j: "j < length rs" for j
  proof (cases "j = i")
    case True
    then show ?thesis using holds_put_inside [OF layout_holds [OF assms(1-3)] assms(4) len] j by simp
  next
    case False
    have "span (p + of_nat k) (length cs) \<subseteq> region_span (rs ! i)"
      using span_offset [OF assms(4) len] assms(3) by (simp add: region_span_def)
    then have "span (p + of_nat k) (length cs) \<inter> region_span (rs ! j) = {}"
      using layout_disjoint [OF assms(1,2) j] False by blast
    then show ?thesis
      using assms(1) j False by (simp add: holds_put_other layout_def region_span_def)
  qed
  moreover have "length (snd ((rs[i := (p, patch k cs bs)]) ! j)) \<le> 2 ^ 64" if "j < length rs" for j
    using that len assms(1,4) by (cases "i = j") (simp_all add: layout_def)
  ultimately show ?thesis
    using assms(1) unfolding layout_def by simp
qed

text \<open>A new region beside the ones there are, when memory keeps them.\<close>

lemma layout_Cons:
  assumes "layout m rs" "holds m' p bs" "length bs \<le> 2 ^ 64"
    and "\<And>r. r \<in> set rs \<Longrightarrow> span p (length bs) \<inter> region_span r = {}"
    and "\<And>r x. r \<in> set rs \<Longrightarrow> x \<in> region_span r \<Longrightarrow> m' x = m x"
  shows "layout m' ((p, bs) # rs)"
proof -
  have "holds m' (fst r) (snd r)" if r: "r \<in> set rs" for r
  proof -
    obtain i where i: "i < length rs" "r = rs ! i" using r by (metis in_set_conv_nth)
    then have "holds m (fst r) (snd r)" "length (snd r) \<le> 2 ^ 64" using assms(1) by (simp_all add: layout_def)
    then show ?thesis using holds_cong [of "fst r" "snd r" m' m] assms(5) [OF r] unfolding region_span_def by blast
  qed
  then have "holds m' (fst (rs ! i)) (snd (rs ! i)) \<and> length (snd (rs ! i)) \<le> 2 ^ 64" if "i < length rs" for i
    using that assms(1) by (simp add: layout_def)
  moreover have "region_span (((p, bs) # rs) ! i) \<inter> region_span (((p, bs) # rs) ! j) = {}"
    if "i < Suc (length rs)" "j < Suc (length rs)" "i \<noteq> j" for i j
  proof -
    have apart: "region_span (p, bs) \<inter> region_span (rs ! k) = {}" if "k < length rs" for k
      using assms(4) [OF nth_mem [OF that]] by (simp add: region_span_def)
    show ?thesis
      using that apart layout_disjoint [OF assms(1)] by (cases i; cases j) (simp_all add: Int_commute)
  qed
  ultimately show ?thesis
    using assms(2,3) unfolding layout_def by (simp add: All_less_Suc2)
qed

lemma layout_tl: "layout m (r # rs) \<Longrightarrow> layout m rs"
  unfolding layout_def by (simp add: All_less_Suc2)

lemma layout_cong:
  assumes "layout m rs" "\<And>r x. r \<in> set rs \<Longrightarrow> x \<in> region_span r \<Longrightarrow> m' x = m x"
  shows "layout m' rs"
proof -
  have "holds m' (fst (rs ! i)) (snd (rs ! i))" if "i < length rs" for i
  proof -
    have "holds m (fst (rs ! i)) (snd (rs ! i))" "length (snd (rs ! i)) \<le> 2 ^ 64" using assms(1) that by (simp_all add: layout_def)
    then show ?thesis
      using holds_cong [of "fst (rs ! i)" "snd (rs ! i)" m' m] assms(2) [OF nth_mem [OF that]] unfolding region_span_def by blast
  qed
  then show ?thesis using assms(1) by (simp add: layout_def)
qed

section \<open>The adapters on a layout\<close>

text \<open>Regions of one layout are apart, so a copy between them starts outside what it reads.\<close>

lemma layout_apart:
  assumes "layout m rs" "i < length rs" "j < length rs" "i \<noteq> j" "rs ! i = (p, bs)" "rs ! j = (q, cs)"
    and "k < length bs" "o' + n \<le> length cs"
  shows "n \<le> unat (p + of_nat k - (q + of_nat o'))"
proof (rule ccontr)
  assume "\<not> n \<le> unat (p + of_nat k - (q + of_nat o'))"
  then have "p + of_nat k \<in> span (q + of_nat o') n" by (simp add: span_def)
  then have "p + of_nat k \<in> region_span (rs ! j)"
    using span_offset [OF assms(8) layout_length [OF assms(1,3,6)], of q] assms(6) by (auto simp: region_span_def)
  moreover have "p + of_nat k \<in> region_span (rs ! i)"
    using assms(5,7) layout_length [OF assms(1,2,5)] by (simp add: region_span_def span_iff)
  ultimately show False using layout_disjoint [OF assms(1-4)] by blast
qed

lemma layout_set:
  assumes "layout m rs" "i < length rs" "rs ! i = (p, bs)" "k + unat n \<le> length bs"
  shows "r4nv_set m (p + of_nat k) v n = Some (put m (p + of_nat k) (replicate (unat n) v), p + of_nat k)"
  by (rule r4nv_set_put) (rule holds_accessible [OF layout_holds [OF assms(1-3)] assms(4)])

lemma layout_copy:
  assumes "layout m rs" "i < length rs" "j < length rs" "i \<noteq> j" "rs ! i = (p, bs)" "rs ! j = (q, cs)"
    and "k + unat n \<le> length bs" "o' + unat n \<le> length cs"
  shows "r4nv_copy m (p + of_nat k) (q + of_nat o') n =
    Some (put m (p + of_nat k) (take (unat n) (drop o' cs)), p + of_nat k)"
proof -
  have "unat n \<le> unat (p + of_nat k - (q + of_nat o'))"
    by (cases "unat n = 0") (use assms layout_apart [OF assms(1-6) _ assms(8), of k] in simp_all)
  then show ?thesis
    using r4nv_copy_put [OF holds_accessible [OF layout_holds [OF assms(1,3,6)] assms(8)]
        holds_accessible [OF layout_holds [OF assms(1,2,5)] assms(7)]]
      holds_slice [OF layout_holds [OF assms(1,3,6)] assms(8)] by simp
qed

lemma layout_move:
  assumes "layout m rs" "i < length rs" "rs ! i = (p, bs)" "k + unat n \<le> length bs" "o' + unat n \<le> length bs"
    and "unat p + length bs < 2 ^ 64"
  shows "nvkms_memmove m (p + of_nat k) (p + of_nat o') n =
    Some (put m (p + of_nat k) (take (unat n) (drop o' bs)), p + of_nat k)"
proof -
  have "no_wrap (p + of_nat x) (unat n)" if "x + unat n \<le> length bs" for x
  proof -
    have "unat (p + of_nat x) = unat p + x"
      using that assms(6) unat_of_nat_64 [of x] by (subst unat_add_nowrap) simp_all
    then show ?thesis using that assms(6) by (simp add: no_wrap_def)
  qed
  then show ?thesis
    using nvkms_memmove_put holds_accessible [OF layout_holds [OF assms(1-3)]] holds_slice [OF layout_holds [OF assms(1-3)] assms(5)]
      assms(4,5) by simp
qed

lemma compares_refl: "compares xs xs r \<Longrightarrow> r = 0"
  by (auto simp: compares_def)

lemma layout_compare:
  assumes "holds m p bs" "holds m q cs" "k + unat n \<le> length bs" "o' + unat n \<le> length cs"
    and "take (unat n) (drop k bs) = take (unat n) (drop o' cs)"
  shows "r4nv_compare m (p + of_nat k) (q + of_nat o') n = Some 0"
proof -
  obtain r where "compare_loop (unat n) m (p + of_nat k) (q + of_nat o') = Some r"
    "compares (slice m (p + of_nat k) (unat n)) (slice m (q + of_nat o') (unat n)) r"
    using compare_loop_compares [OF holds_accessible [OF assms(1,3)] holds_accessible [OF assms(2,4)]] by blast
  then show ?thesis
    using holds_slice [OF assms(1,3)] holds_slice [OF assms(2,4)] assms(5) compares_refl by (simp add: r4nv_compare_def)
qed

text \<open>Strings.\<close>

lemma holds_cstring: "holds m p (bs @ 0 # cs) \<Longrightarrow> 0 \<notin> set bs \<Longrightarrow> cstring m p bs"
proof (induction bs arbitrary: p)
  case Nil
  then show ?case using holds_nth [of m p "0 # cs" 0] by (simp add: cstring_Nil)
next
  case (Cons b bs)
  have "m p = Some b" using holds_nth [OF Cons.prems(1), of 0] by simp
  moreover have "holds m (p + 1) (bs @ 0 # cs)" using Cons.prems(1) holds_append [of m p "[b]" "bs @ 0 # cs"] by simp
  ultimately show ?case using Cons by (auto simp: cstring_Cons)
qed

lemma cstring_compare_eq:
  assumes "cstring m p bs" "cstring m q bs"
  shows "r4nv_string_compare m p q = Some 0"
  using string_compare_compares [OF assms] compares_refl by blast

section \<open>Blocks of an honest kernel heap\<close>

text \<open>
  The kernel's heap service, the addresses that belong to the driver apart from it (its image and stack) and
  the blocks a state of the kernel has granted, by handle.
\<close>

record 'w kernel_view =
  kv_service :: "'w heap_service"
  kv_resident :: "NvU64 set"
  kv_block :: "'w \<Rightarrow> NvU64 \<rightharpoonup> NvU64 set"

definition in_use :: "'w kernel_view \<Rightarrow> 'w \<Rightarrow> NvU64 set" where
  "in_use K w = kv_resident K \<union> \<Union> (ran (kv_block K w))"

text \<open>
  What the service documents: a grant is mapped memory that was not in use, under a new handle; a release
  takes the block of its handle back; neither changes memory that is in use.
\<close>

definition kernel_heap_ok :: "'w kernel_view \<Rightarrow> bool" where
  "kernel_heap_ok K \<longleftrightarrow>
     (\<forall>n align w m. case hs_allocate (kv_service K) n align (w, m) of (ok, g, w', m') \<Rightarrow>
        (\<forall>x. x \<in> in_use K w \<longrightarrow> m' x = m x) \<and>
        (if ok then kv_block K w (a_handle g) = None \<and>
           kv_block K w' = (kv_block K w)(a_handle g \<mapsto> span (a_cpu_address g) (unat (a_byte_length g))) \<and>
           span (a_cpu_address g) (unat (a_byte_length g)) \<inter> in_use K w = {} \<and>
           accessible m' (a_cpu_address g) (unat (a_byte_length g))
         else kv_block K w' = kv_block K w)) \<and>
     (\<forall>h w m. case hs_release (kv_service K) h (w, m) of (ok, w', m') \<Rightarrow>
        kv_block K w' = (if ok then (kv_block K w)(h := None) else kv_block K w) \<and>
        (\<forall>x. x \<in> in_use K w' \<longrightarrow> m' x = m x))"

text \<open>A kernel that takes every live block back and grants none under the null handle.\<close>

definition kernel_returns :: "'w kernel_view \<Rightarrow> bool" where
  "kernel_returns K \<longleftrightarrow>
     (\<forall>h w m. kv_block K w h \<noteq> None \<longrightarrow> fst (hs_release (kv_service K) h (w, m))) \<and>
     (\<forall>n align w m. fst (hs_allocate (kv_service K) n align (w, m)) \<longrightarrow>
        a_handle (fst (snd (hs_allocate (kv_service K) n align (w, m)))) \<noteq> 0)"

definition grown :: "'w kernel_view \<Rightarrow> (NvU64 \<rightharpoonup> NvU64 set) \<Rightarrow> 'w \<Rightarrow> bool" where
  "grown K A w \<longleftrightarrow> A \<subseteq>\<^sub>m kv_block K w \<and> (kernel_returns K \<longrightarrow> kv_block K w = A)"

text \<open>The pointers the driver holds beside the blocks \<open>A\<close>, each with a readable prefix.\<close>

fun owns :: "'w kernel_view \<Rightarrow> (NvU64 \<rightharpoonup> NvU64 set) \<Rightarrow> NvU64 list \<Rightarrow> 'w heap_state \<Rightarrow> bool" where
  "owns K A [] st \<longleftrightarrow> grown K A (h_world st)"
| "owns K A (p # ps) st \<longleftrightarrow> (\<exists>h S. A h = None \<and> h \<noteq> 0 \<and> p AND 15 = 0 \<and> 16 \<le> unat p \<and>
     header_at (h_memory st) (p - 16) h \<and> span (p - 16) 16 \<subseteq> S \<and> owns K (A(h \<mapsto> S)) ps st)"

lemma kernel_allocate:
  assumes "kernel_heap_ok K" "hs_allocate (kv_service K) n align (w, m) = (ok, g, w', m')"
  shows "\<And>x. x \<in> in_use K w \<Longrightarrow> m' x = m x" "\<not> ok \<Longrightarrow> kv_block K w' = kv_block K w"
    "ok \<Longrightarrow> kv_block K w (a_handle g) = None"
    "ok \<Longrightarrow> kv_block K w' = (kv_block K w)(a_handle g \<mapsto> span (a_cpu_address g) (unat (a_byte_length g)))"
    "ok \<Longrightarrow> span (a_cpu_address g) (unat (a_byte_length g)) \<inter> in_use K w = {}"
    "ok \<Longrightarrow> accessible m' (a_cpu_address g) (unat (a_byte_length g))"
proof -
  note law = conjunct1 [OF assms(1) [unfolded kernel_heap_ok_def], THEN spec [of _ n], THEN spec [of _ align],
      THEN spec [of _ w], THEN spec [of _ m], unfolded assms(2) prod.case]
  show "\<And>x. x \<in> in_use K w \<Longrightarrow> m' x = m x" using law by blast
  show "\<not> ok \<Longrightarrow> kv_block K w' = kv_block K w"
    "ok \<Longrightarrow> kv_block K w (a_handle g) = None"
    "ok \<Longrightarrow> kv_block K w' = (kv_block K w)(a_handle g \<mapsto> span (a_cpu_address g) (unat (a_byte_length g)))"
    "ok \<Longrightarrow> span (a_cpu_address g) (unat (a_byte_length g)) \<inter> in_use K w = {}"
    "ok \<Longrightarrow> accessible m' (a_cpu_address g) (unat (a_byte_length g))"
    using law by simp_all
qed

lemma kernel_release:
  assumes "kernel_heap_ok K" "hs_release (kv_service K) h (w, m) = (ok, w', m')"
  shows "kv_block K w' = (if ok then (kv_block K w)(h := None) else kv_block K w)" "\<And>x. x \<in> in_use K w' \<Longrightarrow> m' x = m x"
  using conjunct2 [OF assms(1) [unfolded kernel_heap_ok_def], THEN spec [of _ h], THEN spec [of _ w], THEN spec [of _ m],
      unfolded assms(2) prod.case] by blast+

lemma in_use_mono: "kv_block K w \<subseteq>\<^sub>m kv_block K w' \<Longrightarrow> in_use K w \<subseteq> in_use K w'"
  unfolding in_use_def by (auto simp: ran_def map_le_def dom_def) (metis option.distinct(1))

text \<open>An allocation of the provider.\<close>

lemma allocate_honest:
  assumes K: "kernel_heap_ok K" "h_context st = Some (kv_service K)"
  obtains p st' where "r4nv_heap_allocate n st = Some (p, st')" "h_context st' = Some (kv_service K)"
    "\<And>x. x \<in> in_use K (h_world st) \<Longrightarrow> h_memory st' x = h_memory st x"
    "p = 0 \<Longrightarrow> grown K (kv_block K (h_world st)) (h_world st')"
    "p \<noteq> 0 \<Longrightarrow> \<exists>h. h \<noteq> 0 \<and> kv_block K (h_world st) h = None \<and>
       kv_block K (h_world st') = (kv_block K (h_world st))(h \<mapsto> span (p - 16) (unat (max n 1) + 16)) \<and>
       span (p - 16) (unat (max n 1) + 16) \<inter> in_use K (h_world st) = {} \<and>
       accessible (h_memory st') (p - 16) (unat (max n 1) + 16) \<and> header_at (h_memory st') (p - 16) h"
proof (cases "unat (max n 1) + 16 \<ge> 2 ^ 64")
  case True
  then have "r4nv_heap_allocate n st = Some (0, st)" using K(2) by (simp add: r4nv_heap_allocate_def)
  then show thesis by (rule that) (use K(2) in \<open>simp_all add: grown_def\<close>)
next
  case False
  define req where "req = max n 1 + HEADER_BYTES"
  have req: "unat req = unat (max n 1) + 16" using request_bytes [of n] False by (simp add: req_def)
  obtain ok g w m where s: "hs_allocate (kv_service K) req 16 (h_world st, h_memory st) = (ok, g, w, m)" by (metis prod_cases4)
  note law = kernel_allocate [OF K(1) s]
  let ?st = "st\<lparr>h_world := w, h_memory := m\<rparr>"
  show thesis
  proof (cases "ok \<and> \<not> allocation_refused g req")
    case granted: True
    define a where "a = a_cpu_address g"
    have len: "a_byte_length g = req" using granted by (simp add: allocation_refused_def)
    have acc: "accessible m a (unat (max n 1) + 16)" using law(6) granted len req by (simp add: a_def)
    then have acc16: "accessible m a 16" by (rule accessible_mono) simp
    have st: "store_bytes m a (header_bytes (a_handle g) a) = Some (put m a (header_bytes (a_handle g) a))"
      by (rule store_bytes_put) (simp_all add: acc16)
    have "r4nv_heap_allocate n st = Some (a + 16, ?st\<lparr>h_memory := put m a (header_bytes (a_handle g) a)\<rparr>)"
      using K(2) False granted s st by (simp add: r4nv_heap_allocate_def req_def [symmetric] a_def Let_def)
    then show thesis
    proof (rule that)
      fix x assume x: "x \<in> in_use K (h_world st)"
      have "x \<notin> span a (unat (max n 1) + 16)" using law(5) granted len req x unfolding a_def by auto
      then have "put m a (header_bytes (a_handle g) a) x = m x" by (intro put_outside) (simp add: span_def)
      then show "h_memory (?st\<lparr>h_memory := put m a (header_bytes (a_handle g) a)\<rparr>) x = h_memory st x"
        using law(1) [OF x] by simp
    next
      assume "a + 16 = 0"
      have "a \<le> - 1 - req" using granted by (auto simp: allocation_refused_def a_def)
      moreover have "unat (- 1 :: NvU64) = 2 ^ 64 - 1" by (simp add: unsigned_minus_1_eq_mask mask_eq_exp_minus_1)
      then have "unat (- 1 - req) = 2 ^ 64 - 1 - unat req" using unat_lt_64 [of req] by (simp add: unat_sub_if')
      ultimately have "unat a + unat req < 2 ^ 64" using unat_lt_64 [of req] by (simp add: word_le_nat_alt)
      then have "unat (a + 16) = unat a + 16" using req by (subst unat_add_nowrap) simp_all
      then have False using \<open>a + 16 = 0\<close> by simp
      then show "grown K (kv_block K (h_world st)) (h_world (?st\<lparr>h_memory := put m a (header_bytes (a_handle g) a)\<rparr>))" ..
    next
      show "\<exists>h. h \<noteq> 0 \<and> kv_block K (h_world st) h = None \<and>
        kv_block K (h_world (?st\<lparr>h_memory := put m a (header_bytes (a_handle g) a)\<rparr>)) =
          (kv_block K (h_world st))(h \<mapsto> span (a + 16 - 16) (unat (max n 1) + 16)) \<and>
        span (a + 16 - 16) (unat (max n 1) + 16) \<inter> in_use K (h_world st) = {} \<and>
        accessible (h_memory (?st\<lparr>h_memory := put m a (header_bytes (a_handle g) a)\<rparr>)) (a + 16 - 16) (unat (max n 1) + 16) \<and>
        header_at (h_memory (?st\<lparr>h_memory := put m a (header_bytes (a_handle g) a)\<rparr>)) (a + 16 - 16) h"
        using law(3-5) granted len req acc accessible_put header_at_put [OF acc16]
        by (intro exI [of _ "a_handle g"]) (simp add: allocation_refused_def a_def)
    qed (use K(2) in simp)
  next
    case refused: False
    show thesis
    proof (cases "ok \<and> a_handle g \<noteq> 0")
      case True
      obtain ok' w' m' where rel: "hs_release (kv_service K) (a_handle g) (w, m) = (ok', w', m')" by (metis prod_cases3)
      note given = kernel_release [OF K(1) rel]
      have blocks: "kv_block K w' = (if ok' then kv_block K (h_world st) else kv_block K w)"
        using given(1) law(3,4) True by auto
      have le: "kv_block K (h_world st) \<subseteq>\<^sub>m kv_block K w'" using blocks law(3,4) True by (auto simp: map_le_def)
      define st' where "st' = (if ok' then ?st\<lparr>h_world := w', h_memory := m'\<rparr> else count_failed_release (?st\<lparr>h_world := w', h_memory := m'\<rparr>))"
      have f: "h_world st' = w'" "h_memory st' = m'" "h_context st' = Some (kv_service K)"
        using K(2) by (simp_all add: st'_def count_failed_release_def)
      have "r4nv_heap_allocate n st = Some (0, st')"
        unfolding st'_def using K(2) False refused True s rel by (simp add: r4nv_heap_allocate_def req_def [symmetric] call_release_def Let_def)
      moreover have "m' x = h_memory st x" if "x \<in> in_use K (h_world st)" for x
        using given(2) law(1) in_use_mono [OF le] that by auto
      moreover have "kernel_returns K \<longrightarrow> ok'"
        using rel True law(4) unfolding kernel_returns_def by (metis fst_conv fun_upd_same option.distinct(1))
      ultimately show thesis
        using that [of 0 st'] le blocks f by (simp add: grown_def)
    next
      case none: False
      have "r4nv_heap_allocate n st = Some (0, ?st)"
        using K(2) False refused none s by (auto simp: r4nv_heap_allocate_def req_def [symmetric] Let_def)
      moreover have "grown K (kv_block K (h_world st)) w"
      proof (cases ok)
        case True
        then have "a_handle g = 0" using none by simp
        then have "\<not> kernel_returns K" using s True unfolding kernel_returns_def by (metis fst_conv snd_conv)
        then show ?thesis using law(3,4) True by (auto simp: grown_def map_le_def)
      qed (use law(2) in \<open>simp add: grown_def\<close>)
      ultimately show thesis using that [of 0 ?st] law(1) K(2) by simp
    qed
  qed
qed

text \<open>A release of a pointer the driver holds; the pointers beside it stay its own.\<close>

lemma grown_without:
  assumes "grown K (A(h \<mapsto> S)) w" "A h = None" "kv_block K w' = (if ok then (kv_block K w)(h := None) else kv_block K w)"
    and "kernel_returns K \<Longrightarrow> ok"
  shows "grown K A w'"
proof -
  have "A \<subseteq>\<^sub>m (kv_block K w)(h := None)"
    using assms(1,2) unfolding grown_def map_le_def by (metis domIff fun_upd_other)
  moreover have "(kv_block K w)(h := None) = A" if "kernel_returns K"
    using assms(1,2) that by (auto simp: grown_def fun_eq_iff)
  moreover have "(kv_block K w)(h := None) \<subseteq>\<^sub>m kv_block K w" by (simp add: map_le_def)
  ultimately show ?thesis
    using assms(3,4) map_le_trans [of A "(kv_block K w)(h := None)" "kv_block K w"] unfolding grown_def by (metis (full_types))
qed

lemma owns_blocks: "owns K A ps st \<Longrightarrow> A \<subseteq>\<^sub>m kv_block K (h_world st)"
proof (induction ps arbitrary: A)
  case (Cons p ps)
  then obtain h S where "A h = None" "A(h \<mapsto> S) \<subseteq>\<^sub>m kv_block K (h_world st)" by auto
  moreover have "A \<subseteq>\<^sub>m A(h \<mapsto> S)" using \<open>A h = None\<close> by (auto simp: map_le_def)
  ultimately show ?case by (metis map_le_trans)
qed (simp add: grown_def)

lemma owns_block: "owns K (A(h \<mapsto> S)) ps st \<Longrightarrow> kv_block K (h_world st) h = Some S"
  using owns_blocks [of K "A(h \<mapsto> S)" ps st] unfolding map_le_def by (metis domI fun_upd_same)

lemma header_at_cong:
  assumes "header_at m a h" "\<And>x. x \<in> span a 16 \<Longrightarrow> m' x = m x"
  shows "header_at m' a h"
proof -
  have "load_bytes m' a 16 = load_bytes m a 16"
    by (rule load_bytes_cong) (simp add: assms(2) span_iff)
  then show ?thesis using assms(1) by (simp add: header_at_def)
qed

lemma owns_without:
  assumes "owns K (A(h \<mapsto> S)) ps st" "A h = None"
    and "kv_block K (h_world st') = (if ok then (kv_block K (h_world st))(h := None) else kv_block K (h_world st))"
    and "kernel_returns K \<Longrightarrow> ok" "\<And>x. x \<in> in_use K (h_world st') \<Longrightarrow> h_memory st' x = h_memory st x"
  shows "owns K A ps st'"
  using assms(1,2)
proof (induction ps arbitrary: A)
  case Nil
  then show ?case unfolding owns.simps by (rule grown_without [OF _ _ assms(3,4)])
next
  case (Cons p ps)
  from Cons.prems(1) [unfolded owns.simps]
  obtain h' S' where n: "(A(h \<mapsto> S)) h' = None" and o: "h' \<noteq> 0" "p AND 15 = 0" "16 \<le> unat p" "header_at (h_memory st) (p - 16) h'"
    "span (p - 16) 16 \<subseteq> S'" "owns K (A(h \<mapsto> S, h' \<mapsto> S')) ps st"
    by blast
  have "h' \<noteq> h" "A h' = None" using n by (auto split: if_split_asm)
  note c = this o
  have "A(h \<mapsto> S, h' \<mapsto> S') = A(h' \<mapsto> S', h \<mapsto> S)" using c(1) by (simp add: fun_upd_twist)
  then have "owns K (A(h' \<mapsto> S', h \<mapsto> S)) ps st" using c(8) by (simp only:)
  then have "owns K (A(h' \<mapsto> S')) ps st'" by (rule Cons.IH) (use Cons.prems(2) c(1) in simp)
  moreover have "kv_block K (h_world st') h' = Some S'"
    using owns_block [OF c(8)] assms(3) c(1) by simp
  then have "S' \<subseteq> in_use K (h_world st')" by (auto simp: in_use_def ran_def)
  then have "header_at (h_memory st') (p - 16) h'"
    using header_at_cong [OF c(6), of "h_memory st'"] assms(5) c(7) by blast
  ultimately show ?case using c by auto
qed

lemma heap_release_honest:
  assumes K: "kernel_heap_ok K" "h_context st = Some (kv_service K)" and own: "owns K A (p # ps) st"
  obtains ok st' where "heap_release p st = Some (ok, st')" "h_context st' = Some (kv_service K)" "owns K A ps st'"
    "\<And>x. x \<in> kv_resident K \<Longrightarrow> h_memory st' x = h_memory st x"
proof -
  obtain h S where c: "A h = None" "h \<noteq> 0" "p AND 15 = 0" "16 \<le> unat p" "header_at (h_memory st) (p - 16) h"
    "span (p - 16) 16 \<subseteq> S" "owns K (A(h \<mapsto> S)) ps st"
    using own by auto
  obtain ok w m where rel: "hs_release (kv_service K) h (h_world st, h_memory st) = (ok, w, m)" by (metis prod_cases3)
  note given = kernel_release [OF K(1) rel]
  define st' where "st' = (if ok then st\<lparr>h_world := w, h_memory := m\<rparr> else count_failed_release (st\<lparr>h_world := w, h_memory := m\<rparr>))"
  have w: "h_world st' = w" "h_memory st' = m" "h_context st' = Some (kv_service K)"
    using K(2) by (simp_all add: st'_def count_failed_release_def)
  have "p \<noteq> 0" "\<not> p < 16" using c(4) by (auto simp: word_less_nat_alt)
  then have "heap_release p st = Some (ok, st')"
    using K(2) c(2,3) rel header_at_words [OF c(5)]
    by (simp add: heap_release_def call_release_def Let_def st'_def del: map_option_eq_Some)
  moreover have "kernel_returns K \<Longrightarrow> ok"
  proof -
    have "kv_block K (h_world st) h \<noteq> None" using owns_block [OF c(7)] by simp
    then show "kernel_returns K \<Longrightarrow> ok" using rel unfolding kernel_returns_def by (metis fst_conv)
  qed
  then have "owns K A ps st'"
    by (intro owns_without [OF c(7,1), of st' ok]) (use given w in auto)
  ultimately show thesis
    using that [of ok st'] w given(2) by (auto simp: in_use_def)
qed

lemma release_honest:
  assumes "kernel_heap_ok K" "h_context st = Some (kv_service K)" "owns K A (p # ps) st"
  obtains st' where "r4nv_heap_free p st = Some st'" "h_context st' = Some (kv_service K)" "owns K A ps st'"
    "\<And>x. x \<in> kv_resident K \<Longrightarrow> h_memory st' x = h_memory st x"
  by (rule heap_release_honest [OF assms]) (simp add: r4nv_heap_free_def that)

text \<open>An allocation beside the pointers there are.\<close>

lemma owns_step:
  assumes "owns K A ps st" "\<And>x. x \<in> in_use K (h_world st) \<Longrightarrow> h_memory st' x = h_memory st x"
    and "\<And>B. grown K B (h_world st) \<Longrightarrow> owns K B qs st'"
  shows "owns K A (ps @ qs) st'"
  using assms(1)
proof (induction ps arbitrary: A)
  case (Cons p ps)
  from Cons.prems [unfolded owns.simps]
  obtain h S where c: "A h = None" "h \<noteq> 0" "p AND 15 = 0" "16 \<le> unat p" "header_at (h_memory st) (p - 16) h"
    "span (p - 16) 16 \<subseteq> S" "owns K (A(h \<mapsto> S)) ps st"
    by blast
  have "S \<subseteq> in_use K (h_world st)" using owns_block [OF c(7)] by (auto simp: in_use_def ran_def)
  then have "header_at (h_memory st') (p - 16) h"
    using header_at_cong [OF c(5), of "h_memory st'"] assms(2) c(6) by blast
  then show ?case unfolding append_Cons owns.simps using c(1-4,6) Cons.IH [OF c(7)] by blast
qed (simp add: assms(3))

lemma allocate_owned:
  assumes K: "kernel_heap_ok K" "h_context st = Some (kv_service K)" and own: "owns K A ps st"
  obtains p st' where "r4nv_heap_allocate n st = Some (p, st')" "h_context st' = Some (kv_service K)"
    "\<And>x. x \<in> in_use K (h_world st) \<Longrightarrow> h_memory st' x = h_memory st x"
    "p = 0 \<Longrightarrow> owns K A ps st'" "p \<noteq> 0 \<Longrightarrow> owns K A (ps @ [p]) st'"
    "p \<noteq> 0 \<Longrightarrow> span (p - 16) (unat (max n 1) + 16) \<inter> in_use K (h_world st) = {}"
    "p \<noteq> 0 \<Longrightarrow> accessible (h_memory st') (p - 16) (unat (max n 1) + 16)"
    "p \<noteq> 0 \<Longrightarrow> span (p - 16) (unat (max n 1) + 16) \<subseteq> in_use K (h_world st')"
proof (rule allocate_honest [OF K, of n])
  fix p st'
  assume a: "r4nv_heap_allocate n st = Some (p, st')" and ctx: "h_context st' = Some (kv_service K)"
    and kept: "\<And>x. x \<in> in_use K (h_world st) \<Longrightarrow> h_memory st' x = h_memory st x"
    and failed: "p = 0 \<Longrightarrow> grown K (kv_block K (h_world st)) (h_world st')"
    and granted: "p \<noteq> 0 \<Longrightarrow> \<exists>h. h \<noteq> 0 \<and> kv_block K (h_world st) h = None \<and>
       kv_block K (h_world st') = (kv_block K (h_world st))(h \<mapsto> span (p - 16) (unat (max n 1) + 16)) \<and>
       span (p - 16) (unat (max n 1) + 16) \<inter> in_use K (h_world st) = {} \<and>
       accessible (h_memory st') (p - 16) (unat (max n 1) + 16) \<and> header_at (h_memory st') (p - 16) h"
  have none: "owns K A ps st'" if "p = 0"
    using owns_step [OF own kept, of "[]"] failed [OF that] by (auto simp: grown_def intro: map_le_trans)
  have some: "owns K A (ps @ [p]) st'" if p: "p \<noteq> 0"
  proof (rule owns_step [OF own kept])
    fix B assume B: "grown K B (h_world st)"
    obtain h where h: "h \<noteq> 0" "kv_block K (h_world st) h = None"
      "kv_block K (h_world st') = (kv_block K (h_world st))(h \<mapsto> span (p - 16) (unat (max n 1) + 16))"
      "header_at (h_memory st') (p - 16) h"
      using granted [OF p] by blast
    have "B h = None" using B h(2) unfolding grown_def map_le_def by (metis domIff)
    moreover have "grown K (B(h \<mapsto> span (p - 16) (unat (max n 1) + 16))) (h_world st')"
      using B h(3) by (auto simp: grown_def intro: map_le_upd)
    moreover have "span (p - 16) 16 \<subseteq> span (p - 16) (unat (max n 1) + 16)" by (auto simp: span_def)
    ultimately show "owns K B [p] st'"
      using h(1,4) allocate_span [OF a p] by auto
  qed
  have "span (p - 16) (unat (max n 1) + 16) \<subseteq> in_use K (h_world st')" if "p \<noteq> 0"
  proof -
    obtain h where "kv_block K (h_world st') = (kv_block K (h_world st))(h \<mapsto> span (p - 16) (unat (max n 1) + 16))"
      using granted [OF \<open>p \<noteq> 0\<close>] by blast
    then show ?thesis by (auto simp: in_use_def ran_def)
  qed
  then show thesis using that [OF a ctx kept none some] granted by blast
qed

lemma owns_in_use: "owns K A (p # ps) st \<Longrightarrow> span (p - 16) 16 \<subseteq> in_use K (h_world st)"
proof -
  assume "owns K A (p # ps) st"
  then obtain h S where "span (p - 16) 16 \<subseteq> S" "owns K (A(h \<mapsto> S)) ps st" unfolding owns.simps by blast
  then show ?thesis using owns_block by (fastforce simp: in_use_def ran_def)
qed

text \<open>Writes outside the prefixes.\<close>

lemma owns_memory:
  assumes "owns K A ps st" "\<And>p x. p \<in> set ps \<Longrightarrow> x \<in> span (p - 16) 16 \<Longrightarrow> m x = h_memory st x"
  shows "owns K A ps (st\<lparr>h_memory := m\<rparr>)"
  using assms
proof (induction ps arbitrary: A)
  case (Cons p ps)
  from Cons.prems(1) [unfolded owns.simps]
  obtain h S where c: "A h = None" "h \<noteq> 0" "p AND 15 = 0" "16 \<le> unat p" "header_at (h_memory st) (p - 16) h"
    "span (p - 16) 16 \<subseteq> S" "owns K (A(h \<mapsto> S)) ps st"
    by blast
  have "owns K (A(h \<mapsto> S)) ps (st\<lparr>h_memory := m\<rparr>)" by (rule Cons.IH [OF c(7)]) (use Cons.prems(2) in auto)
  moreover have "header_at m (p - 16) h" by (rule header_at_cong [OF c(5)]) (use Cons.prems(2) in auto)
  ultimately show ?case unfolding owns.simps using c(1-4,6) by auto
qed simp

text \<open>The order of the pointers does not matter, nor do the blocks granted before them.\<close>

lemma owns_swap: "owns K A (p # q # ps) st \<Longrightarrow> owns K A (q # p # ps) st"
proof -
  assume "owns K A (p # q # ps) st"
  then obtain h S where c: "A h = None" "h \<noteq> 0" "p AND 15 = 0" "16 \<le> unat p" "header_at (h_memory st) (p - 16) h"
    "span (p - 16) 16 \<subseteq> S" "owns K (A(h \<mapsto> S)) (q # ps) st"
    unfolding owns.simps(2) [of K A p] by blast
  then obtain g T where d: "(A(h \<mapsto> S)) g = None" "g \<noteq> 0" "q AND 15 = 0" "16 \<le> unat q" "header_at (h_memory st) (q - 16) g"
    "span (q - 16) 16 \<subseteq> T" "owns K (A(h \<mapsto> S, g \<mapsto> T)) ps st"
    unfolding owns.simps(2) [of K _ q] by blast
  have "g \<noteq> h" "A g = None" using d(1) by (auto split: if_split_asm)
  moreover have "owns K (A(g \<mapsto> T, h \<mapsto> S)) ps st" using d(7) fun_upd_twist [OF \<open>g \<noteq> h\<close>, of A "Some T" "Some S"] by (simp only:)
  moreover have "(A(g \<mapsto> T)) h = None" using \<open>g \<noteq> h\<close> c(1) by simp
  ultimately show ?thesis unfolding owns.simps(2) using c(2-6) d(2-6) by blast
qed

lemma owns_none: "owns K (kv_block K (h_world st)) [] st"
  by (simp add: grown_def)

section \<open>A kernel that keeps its word\<close>

text \<open>
  A kernel for examples: it grants the next slot of a megabyte, up to a thousand of them, under the number of the
  grant; its state is the list of the sizes granted, \<open>None\<close> for a block given back.
\<close>

definition slot :: "nat \<Rightarrow> NvU64" where
  "slot i = of_nat (2 ^ 32 + i * 2 ^ 20)"

definition slots_ok :: "NvU64 option list \<Rightarrow> bool" where
  "slots_ok w \<longleftrightarrow> length w \<le> 1000 \<and> (\<forall>n. Some n \<in> set w \<longrightarrow> unat n \<le> 0x100000)"

definition slot_service :: "NvU64 option list heap_service" where
  "slot_service =
     \<lparr>hs_allocate = (\<lambda>bytes align (w, m).
        if slots_ok (w @ [Some bytes])
        then (True, \<lparr>a_handle = of_nat (length w + 1), a_cpu_address = slot (length w), a_byte_length = bytes\<rparr>, w @ [Some bytes],
              \<lambda>x. if x \<in> span (slot (length w)) (unat bytes) \<and> m x = None then Some 0 else m x)
        else (False, \<lparr>a_handle = 0, a_cpu_address = 0, a_byte_length = 0\<rparr>, w, m)),
      hs_release = (\<lambda>handle (w, m).
        if slots_ok w \<and> 0 < unat handle \<and> unat handle \<le> length w \<and> w ! (unat handle - 1) \<noteq> None
        then (True, w[unat handle - 1 := None], m) else (False, w, m))\<rparr>"

definition slot_view :: "NvU64 option list kernel_view" where
  "slot_view =
     \<lparr>kv_service = slot_service, kv_resident = {x. unat x < 2 ^ 32},
      kv_block = (\<lambda>w h. if slots_ok w \<and> 0 < unat h \<and> unat h \<le> length w
        then map_option (\<lambda>n. span (slot (unat h - 1)) (unat n)) (w ! (unat h - 1)) else None)\<rparr>"

lemma unat_slot: "i < 1000 \<Longrightarrow> unat (slot i) = 2 ^ 32 + i * 2 ^ 20"
  unfolding slot_def by (rule unat_of_nat_64) simp

lemma slot_span: "x \<in> span (slot i) n \<Longrightarrow> i < 1000 \<Longrightarrow> n \<le> 0x100000 \<Longrightarrow> 2 ^ 32 + i * 2 ^ 20 \<le> unat x \<and> unat x < 2 ^ 32 + (i + 1) * 2 ^ 20"
  using span_bounds [of x "slot i" n] unat_slot [of i] by simp

lemma slot_in_use:
  assumes "slots_ok w" "x \<in> in_use slot_view w"
  shows "unat x < 2 ^ 32 + length w * 2 ^ 20"
proof (cases "unat x < 2 ^ 32")
  case False
  then obtain h S where S: "kv_block slot_view w h = Some S" "x \<in> S"
    using assms(2) unfolding in_use_def ran_def by (auto simp: slot_view_def)
  obtain n where h: "0 < unat h" "unat h \<le> length w" "w ! (unat h - 1) = Some n" "x \<in> span (slot (unat h - 1)) (unat n)"
    using S unfolding slot_view_def kernel_view.simps by (auto split: if_split_asm)
  have "unat h - 1 < length w" using h(1,2) by simp
  then have "Some n \<in> set w" using h(3) nth_mem by metis
  then have "unat n \<le> 0x100000" "unat h - 1 < 1000" using assms(1) h(1,2) unfolding slots_ok_def by auto
  then have "unat x < 2 ^ 32 + (unat h - 1 + 1) * 2 ^ 20" using slot_span [OF h(4)] by simp
  moreover have "(unat h - 1 + 1) * 2 ^ 20 \<le> length w * 2 ^ 20" using h(1,2) by simp
  ultimately show ?thesis by linarith
qed simp

lemma slot_block_snoc:
  assumes "slots_ok (w @ [Some n])"
  shows "kv_block slot_view (w @ [Some n]) = (kv_block slot_view w)(of_nat (length w + 1) \<mapsto> span (slot (length w)) (unat n))"
proof
  fix h :: NvU64
  have "slots_ok w" "length w < 1000" using assms by (auto simp: slots_ok_def)
  then have u: "unat (of_nat (length w + 1) :: NvU64) = length w + 1" by (intro unat_of_nat_64) simp
  then have "unat h = length w + 1 \<longleftrightarrow> h = of_nat (length w + 1)" by (metis word_unat_eq_iff)
  then show "kv_block slot_view (w @ [Some n]) h = ((kv_block slot_view w)(of_nat (length w + 1) \<mapsto> span (slot (length w)) (unat n))) h"
    using assms \<open>slots_ok w\<close> u by (auto simp: slot_view_def nth_append le_Suc_eq)
qed

lemma slot_block_drop:
  assumes "slots_ok w" "0 < unat h" "unat h \<le> length w"
  shows "kv_block slot_view (w[unat h - 1 := None]) = (kv_block slot_view w)(h := None)"
proof
  fix g :: NvU64
  have "slots_ok (w[unat h - 1 := None])"
    using assms(1) set_update_subset_insert [of w "unat h - 1" None] by (auto simp: slots_ok_def)
  moreover have "unat g - 1 = unat h - 1 \<longleftrightarrow> g = h" if "0 < unat g" using that assms(2) by (auto simp: word_unat_eq_iff)
  ultimately show "kv_block slot_view (w[unat h - 1 := None]) g = ((kv_block slot_view w)(h := None)) g"
    using assms by (auto simp: slot_view_def nth_list_update)
qed

lemma slot_kernel_ok: "kernel_heap_ok slot_view"
proof -
  have grant: "(\<forall>x. x \<in> in_use slot_view w \<longrightarrow> (if x \<in> span (slot (length w)) (unat n) \<and> m x = None then Some 0 else m x) = m x) \<and>
      kv_block slot_view w (of_nat (length w + 1)) = None \<and>
      span (slot (length w)) (unat n) \<inter> in_use slot_view w = {} \<and>
      accessible (\<lambda>x. if x \<in> span (slot (length w)) (unat n) \<and> m x = None then Some 0 else m x) (slot (length w)) (unat n)"
    if ok: "slots_ok (w @ [Some n])" for w n and m :: memory
  proof -
    have w: "slots_ok w" "length w < 1000" "unat n \<le> 0x100000" using ok by (auto simp: slots_ok_def)
    have out: "x \<notin> span (slot (length w)) (unat n)" if "x \<in> in_use slot_view w" for x
      using slot_in_use [OF w(1) that] slot_span [of x "length w" "unat n"] w by force
    moreover have "unat (of_nat (length w + 1) :: NvU64) = length w + 1" using w(2) by (intro unat_of_nat_64) simp
    then have "kv_block slot_view w (of_nat (length w + 1)) = None" by (simp add: slot_view_def)
    moreover have "slot (length w) + of_nat i \<in> span (slot (length w)) (unat n)" if "i < unat n" for i
      using that unat_lt_64 [of n] by (simp add: span_iff)
    ultimately show ?thesis by (auto simp: accessible_def)
  qed
  show ?thesis
    unfolding kernel_heap_ok_def
  proof (intro conjI allI)
    fix n align w and m :: memory
    show "case hs_allocate (kv_service slot_view) n align (w, m) of (ok, g, w', m') \<Rightarrow>
        (\<forall>x. x \<in> in_use slot_view w \<longrightarrow> m' x = m x) \<and>
        (if ok then kv_block slot_view w (a_handle g) = None \<and>
           kv_block slot_view w' = (kv_block slot_view w)(a_handle g \<mapsto> span (a_cpu_address g) (unat (a_byte_length g))) \<and>
           span (a_cpu_address g) (unat (a_byte_length g)) \<inter> in_use slot_view w = {} \<and>
           accessible m' (a_cpu_address g) (unat (a_byte_length g))
         else kv_block slot_view w' = kv_block slot_view w)"
    proof (cases "slots_ok (w @ [Some n])")
      case True
      have "hs_allocate (kv_service slot_view) n align (w, m) =
          (True, \<lparr>a_handle = of_nat (length w + 1), a_cpu_address = slot (length w), a_byte_length = n\<rparr>, w @ [Some n],
            \<lambda>x. if x \<in> span (slot (length w)) (unat n) \<and> m x = None then Some 0 else m x)"
        using True by (simp add: slot_view_def slot_service_def)
      then show ?thesis using grant [OF True, of m] slot_block_snoc [OF True] by simp
    qed (simp add: slot_view_def slot_service_def)
    fix h
    show "case hs_release (kv_service slot_view) h (w, m) of (ok, w', m') \<Rightarrow>
        kv_block slot_view w' = (if ok then (kv_block slot_view w)(h := None) else kv_block slot_view w) \<and>
        (\<forall>x. x \<in> in_use slot_view w' \<longrightarrow> m' x = m x)"
      using slot_block_drop [of w h] by (simp add: slot_view_def slot_service_def)
  qed
qed

lemma slot_kernel_returns: "kernel_returns slot_view"
proof -
  have "of_nat (length w + 1) \<noteq> (0 :: NvU64)" if "slots_ok (w @ [Some n])" for w n
    using that unat_of_nat_64 [of "length w + 1"] by (auto simp: slots_ok_def)
  then show ?thesis unfolding kernel_returns_def by (simp add: slot_view_def slot_service_def)
qed

lemma slot_granted: "i < 1000 \<Longrightarrow> unat n \<le> 0x100000 \<Longrightarrow>
  \<not> allocation_refused \<lparr>a_handle = of_nat (i + 1), a_cpu_address = slot i, a_byte_length = n\<rparr> n"
proof -
  assume i: "i < 1000" and n: "unat n \<le> 0x100000"
  have "unat (of_nat (i + 1) :: NvU64) = i + 1" using i by (intro unat_of_nat_64) simp
  then have "of_nat (i + 1) \<noteq> (0 :: NvU64)" by (metis Suc_eq_plus1 nat.distinct(1) unat_0)
  moreover have "slot i \<noteq> 0" using unat_slot [OF i] by auto
  moreover have "slot i AND 15 = 0" unfolding aligned_iff unat_slot [OF i] by (intro dvd_add dvd_mult) simp_all
  moreover have "\<not> slot i > - 1 - n"
  proof -
    have top: "(- 1 :: NvU64) = 0xFFFFFFFFFFFFFFFF" by simp
    have "unat (- 1 :: NvU64) = 2 ^ 64 - 1" unfolding top by simp
    then have "unat (- 1 - n) = 2 ^ 64 - 1 - unat n" using unat_sub_if' [of "- 1" n] unat_lt_64 [of n] by simp
    then show ?thesis using unat_slot [OF i] i n by (simp add: word_less_nat_alt)
  qed
  ultimately show ?thesis by (simp add: allocation_refused_def)
qed

lemma slot_grants:
  assumes "h_context st = Some slot_service" "slots_ok (h_world st @ [Some (max n 1 + 16)])" "unat (max n 1) + 16 < 2 ^ 64"
  shows "\<exists>st'. r4nv_heap_allocate n st = Some (slot (length (h_world st)) + 16, st') \<and> h_context st' = Some slot_service \<and>
    h_world st' = h_world st @ [Some (max n 1 + 16)]"
proof -
  let ?i = "length (h_world st)" and ?n = "max n 1 + 16"
  have i: "?i < 1000" "unat ?n \<le> 0x100000" using assms(2) by (auto simp: slots_ok_def)
  have big: "16 \<le> unat ?n" using assms(3) by (simp add: unat_add_nowrap)
  define m where "m = (\<lambda>x. if x \<in> span (slot ?i) (unat ?n) \<and> h_memory st x = None then Some 0 else h_memory st x)"
  have "slot ?i + of_nat j \<in> span (slot ?i) (unat ?n)" if "j < 16" for j using that big by (simp add: span_iff)
  then have "accessible m (slot ?i) 16" by (auto simp: accessible_def m_def)
  then have "store_bytes m (slot ?i) (header_bytes h (slot ?i)) = Some (put m (slot ?i) (header_bytes h (slot ?i)))" for h
    by (intro store_bytes_put) simp_all
  then show ?thesis
    using assms slot_granted [OF i] unfolding r4nv_heap_allocate_def
    by (simp add: slot_service_def m_def [symmetric] Let_def)
qed

end
