(* ===== verification/Rm_Probe.thy ===== *)
theory Rm_Probe
  imports Rm_Semaphore Rm_Regions
begin
unbundle bit_operations_syntax

text \<open>
  The runtime check of the semaphore adapters, \<^verbatim>\<open>src/rm/semaphore_probe.c\<close>: \<^verbatim>\<open>r4nv_semaphore_probe_healthy\<close>, which
  calls all sixteen in one Task, and the callbacks that run in Tasks of their own.
\<close>

section \<open>The semaphore probe\<close>

text \<open>
  A check that fails ends the probe with its negated line; a void adapter that does not return ends it
  with no result.
\<close>

type_synonym 'w probe = "(int outcome \<times> 'w sema_state) option"

definition probe_check :: "bool \<Rightarrow> int \<Rightarrow> 'w sema_state \<Rightarrow> 'w probe \<Rightarrow> 'w probe" where
  "probe_check condition line st continue = (if condition then continue else Some (Returned (- line), st))"

definition probe_status ::
  "(NV_STATUS \<times> 'w sema_state) option \<Rightarrow> NV_STATUS \<Rightarrow> int \<Rightarrow> ('w sema_state \<Rightarrow> 'w probe) \<Rightarrow> 'w probe" where
  "probe_status r expected line continue = do { (status, st) \<leftarrow> r; probe_check (status = expected) line st (continue st) }"

definition probe_void :: "(unit outcome \<times> 'w sema_state) option \<Rightarrow> ('w sema_state \<Rightarrow> 'w probe) \<Rightarrow> 'w probe" where
  "probe_void r continue = do {
     (e, st) \<leftarrow> r;
     (case e of Stopped s \<Rightarrow> Some (Stopped s, st) | Returned _ \<Rightarrow> continue st)
   }"

text \<open>The third phase: a modeset semaphore, lines 31 to 39.\<close>

definition probe_modeset :: "'w sema_state \<Rightarrow> 'w probe" where
  "probe_modeset st = do {
     (p, st) \<leftarrow> nvkms_sema_alloc r4nv_semaphore_create st;
     probe_check (p \<noteq> 0) 32 st
       (probe_void (nvkms_sema_down r4nv_semaphore_acquire sema_native_fault p st) (\<lambda>st.
        probe_void (nvkms_sema_up r4nv_semaphore_release sema_native_fault p st) (\<lambda>st.
        probe_void (nvkms_sema_down r4nv_semaphore_acquire sema_native_fault p st) (\<lambda>st.
        probe_void (nvkms_sema_up r4nv_semaphore_release sema_native_fault p st) (\<lambda>st.
        probe_void (nvkms_sema_free r4nv_semaphore_free sema_native_fault p st) (\<lambda>st.
        Some (Returned 0, st)))))))
   }"

text \<open>The second phase: a semaphore of two permits, lines 21 to 29.\<close>

definition probe_two_permits :: "'w sema_state \<Rightarrow> 'w probe" where
  "probe_two_permits st = do {
     (p, st) \<leftarrow> os_alloc_semaphore r4nv_semaphore_create 2 st;
     probe_check (p \<noteq> 0) 22 st
       (probe_status (os_cond_acquire_semaphore r4nv_semaphore_acquire p st) NV_OK 23 (\<lambda>st.
        probe_status (os_acquire_semaphore r4nv_semaphore_context_flags r4nv_semaphore_acquire p st) NV_OK 24 (\<lambda>st.
        probe_status (os_cond_acquire_semaphore r4nv_semaphore_acquire p st) NV_ERR_TIMEOUT_RETRY 25 (\<lambda>st.
        probe_status (os_release_semaphore r4nv_semaphore_release p st) NV_OK 26 (\<lambda>st.
        probe_status (os_acquire_semaphore r4nv_semaphore_context_flags r4nv_semaphore_acquire p st) NV_OK 27 (\<lambda>st.
        probe_void (os_free_semaphore r4nv_semaphore_free sema_native_fault p st) probe_modeset))))))
   }"

definition r4nv_semaphore_probe_healthy :: "'w sema_state \<Rightarrow> 'w probe" where
  "r4nv_semaphore_probe_healthy st =
     probe_check (os_semaphore_may_sleep r4nv_semaphore_context_flags st \<and> \<not> os_is_isr r4nv_semaphore_context_flags st) 10 st (do {
       (status, _, st) \<leftarrow> os_alloc_mutex r4nv_semaphore_create False st;
       probe_check (status = NV_ERR_INVALID_ARGUMENT) 11 st (do {
         (status, out, st) \<leftarrow> os_alloc_mutex r4nv_semaphore_create True st;
         probe_check (status = NV_OK) 12 st (do {
           p \<leftarrow> out;
           probe_status (os_cond_acquire_mutex r4nv_semaphore_context_flags r4nv_semaphore_acquire p st) NV_OK 13 (\<lambda>st.
           probe_status (os_cond_acquire_mutex r4nv_semaphore_context_flags r4nv_semaphore_acquire p st) NV_ERR_TIMEOUT_RETRY 14 (\<lambda>st.
           probe_void (os_release_mutex r4nv_semaphore_release sema_native_fault p st) (\<lambda>st.
           probe_status (os_acquire_mutex r4nv_semaphore_context_flags r4nv_semaphore_acquire p st) NV_OK 16 (\<lambda>st.
           probe_void (os_release_mutex r4nv_semaphore_release sema_native_fault p st) (\<lambda>st.
           probe_void (os_free_mutex r4nv_semaphore_free sema_native_fault p st) probe_two_permits)))))
         })
       })
     })"

text \<open>The states of the probe over the counting kernel: a count and a memory.\<close>

definition probe_state :: "nat \<Rightarrow> memory \<Rightarrow> nat sema_state" where
  "probe_state w m = counting_state\<lparr>s_heap := \<lparr>h_context = Some counting_heap, h_failed_releases = 0, h_world = w, h_memory = m\<rparr>\<rparr>"

definition boxed :: "memory \<Rightarrow> memory" where
  "boxed m = put (put m 4096 (header_bytes 7 4096)) 4112 (box_bytes 9 4112)"

lemma probe_state_start: "counting_state = probe_state 0 sample_memory"
  by (simp add: probe_state_def counting_state_def)

lemma probe_set_kernel: "set_kernel (w', m') (probe_state w m) = probe_state w' m'"
  by (simp add: set_kernel_def probe_state_def)

lemma probe_context: "s_context (probe_state w m) = Some counting_sema"
  by (simp add: probe_state_def counting_state_def)

lemma probe_flags: "r4nv_semaphore_context_flags (probe_state w m) = 2"
  by (simp add: r4nv_semaphore_context_flags_def probe_context counting_sema_def)

lemma probe_create:
  assumes "accessible m 4096 32"
  shows "r4nv_semaphore_create n (probe_state w m) = Some (4112, probe_state (unat n) (boxed m))"
proof -
  have a: "accessible m 4096 16" "accessible (put m 4096 (header_bytes 7 4096)) 4112 16"
    using assms accessible_add [of m 4096 16 16] by (simp_all add: accessible_put)
  have "store_bytes m 4096 (header_bytes 7 4096) = Some (put m 4096 (header_bytes 7 4096))"
    "store_bytes (put m 4096 (header_bytes 7 4096)) 4112 (box_bytes 9 4112) = Some (boxed m)"
    unfolding boxed_def by (rule store_bytes_put, simp_all add: a)+
  moreover have "max 16 1 = (16 :: NvU64)" by (simp add: max_def word_le_nat_alt)
  ultimately show ?thesis
    by (simp add: r4nv_semaphore_create_def r4nv_heap_allocate_def probe_state_def counting_state_def counting_sema_def
        counting_heap_def sema_available_def heap_available_def allocation_refused_def word_less_nat_alt set_kernel_def)
qed

lemma probe_acquire:
  "sema_box 4112 m = Some (Some 9) \<Longrightarrow> r4nv_semaphore_acquire 4112 t (probe_state w m) =
    Some (if w = 0 then 1 else 0, probe_state (w - 1) m)"
  by (simp add: r4nv_semaphore_acquire_def probe_context)
    (simp add: probe_state_def counting_sema_def set_kernel_def sema_result_def)

lemma probe_release:
  "sema_box 4112 m = Some (Some 9) \<Longrightarrow> r4nv_semaphore_release 4112 (probe_state w m) = Some (0, probe_state (w + 1) m)"
  by (simp add: r4nv_semaphore_release_def probe_context)
    (simp add: probe_state_def counting_sema_def set_kernel_def sema_result_def)

lemma probe_box: "accessible m 4096 32 \<Longrightarrow> sema_box 4112 (boxed m) = Some (Some 9)"
  using accessible_add [of m 4096 16 16] by (simp add: boxed_def sema_box_put accessible_put)

lemma probe_header:
  assumes "accessible m 4096 32"
  shows "header_at (put (boxed m) 4112 (quad_bytes 0)) 4096 7"
proof -
  have "load_bytes (put (boxed m) 4112 (quad_bytes 0)) 4096 16 = load_bytes (put m 4096 (header_bytes 7 4096)) 4096 16"
  proof (rule load_bytes_cong)
    fix i :: nat assume i: "i < 16"
    have "unat (4096 + of_nat i - 4112 :: NvU64) = 2 ^ 64 - 16 + i"
    proof -
      have "4096 + of_nat i - 4112 = (of_nat i - 16 :: NvU64)" by simp
      moreover have "unat (of_nat i :: NvU64) = i" using i by (simp add: unat_of_nat_64)
      ultimately show ?thesis using i by (simp add: unat_sub_if')
    qed
    then have out: "\<not> unat (4096 + of_nat i - 4112 :: NvU64) < length bs" if "length bs \<le> 16" for bs :: "NvU8 list"
      using that by simp
    have "put (boxed m) 4112 (quad_bytes 0) (4096 + of_nat i) = boxed m (4096 + of_nat i)"
      by (rule put_outside) (rule out, simp)
    also have "\<dots> = put m 4096 (header_bytes 7 4096) (4096 + of_nat i)"
      unfolding boxed_def by (rule put_outside) (rule out, simp)
    finally show "put (boxed m) 4112 (quad_bytes 0) (4096 + of_nat i) = put m 4096 (header_bytes 7 4096) (4096 + of_nat i)" .
  qed
  then show ?thesis
    using header_at_put [of m 4096 7] accessible_mono [OF assms, of 16] by (simp add: header_at_def)
qed

lemma probe_free:
  assumes "accessible m 4096 32"
  shows "r4nv_semaphore_free 4112 (probe_state w (boxed m)) = Some (0, probe_state w (put (boxed m) 4112 (quad_bytes 0)))"
proof -
  have "accessible (boxed m) 4112 8"
    using assms accessible_add [of m 4096 16 16] accessible_mono [of m 4112 16 8] by (simp add: boxed_def accessible_put)
  then have st: "store_bytes (boxed m) 4112 (quad_bytes 0) = Some (put (boxed m) 4112 (quad_bytes 0))"
    by (simp add: store_bytes_put)
  have "heap_release 4112 \<lparr>h_context = Some counting_heap, h_failed_releases = 0, h_world = w, h_memory = put (boxed m) 4112 (quad_bytes 0)\<rparr> =
      Some (True, \<lparr>h_context = Some counting_heap, h_failed_releases = 0, h_world = w, h_memory = put (boxed m) 4112 (quad_bytes 0)\<rparr>)"
    using header_at_words [OF probe_header [OF assms]]
    by (simp add: heap_release_def call_release_def counting_heap_def word_less_nat_alt del: map_option_eq_Some)
  then show ?thesis
    using st probe_box [OF assms]
    by (simp add: r4nv_semaphore_free_def probe_context)
      (simp add: probe_state_def counting_sema_def set_kernel_def sema_heap_release_def)
qed

lemmas probe_adapters =
  os_alloc_mutex_def os_alloc_semaphore_def nvkms_sema_alloc_def os_cond_acquire_mutex_def os_cond_acquire_semaphore_def
  os_acquire_mutex_def os_acquire_semaphore_def os_release_semaphore_def os_release_mutex_def os_free_mutex_def
  os_free_semaphore_def nvkms_sema_down_def nvkms_sema_up_def nvkms_sema_free_def or_fault_def sema_status_def
  os_semaphore_may_sleep_def os_is_isr_def probe_check_def probe_status_def probe_void_def

lemmas probe_steps = probe_flags probe_create probe_acquire probe_release probe_box probe_free

lemma probe_accessible: "accessible m 4096 32 \<Longrightarrow> accessible (put (boxed m) 4112 bs) 4096 32"
  by (simp add: boxed_def accessible_put)

lemma probe_modeset_passes:
  assumes "accessible m 4096 32"
  shows "probe_modeset (probe_state w m) = Some (Returned 0, probe_state 1 (put (boxed m) 4112 (quad_bytes 0)))"
  using assms by (simp add: probe_modeset_def probe_adapters probe_steps)

lemma probe_two_permits_passes:
  assumes "accessible m 4096 32"
  shows "probe_two_permits (probe_state w m) = probe_modeset (probe_state 0 (put (boxed m) 4112 (quad_bytes 0)))"
  using assms by (simp add: probe_two_permits_def probe_adapters probe_steps)

lemma probe_healthy_passes:
  assumes "accessible m 4096 32"
  shows "r4nv_semaphore_probe_healthy (probe_state w m) = probe_two_permits (probe_state 1 (put (boxed m) 4112 (quad_bytes 0)))"
  using assms by (simp add: r4nv_semaphore_probe_healthy_def probe_adapters probe_steps)

text \<open>
  Over a kernel whose semaphores count and whose heap grants memory, the probe of the sixteen semaphore
  adapters passes: every check holds, no adapter faults, and neither the failure counters nor the native
  fault latch have moved.
\<close>

theorem semaphore_probe_passes:
  "map_option (\<lambda>(r, st). (r, s_failures st, h_failed_releases (s_heap st), n_first_fault (s_native st), n_faults (s_native st)))
     (r4nv_semaphore_probe_healthy counting_state) = Some (Returned 0, 0, 0, 0, 0)"
  by (simp add: probe_state_start probe_healthy_passes probe_two_permits_passes probe_modeset_passes probe_accessible
      sample_accessible) (simp add: probe_state_def counting_state_def)

section \<open>The concurrent probe\<close>

text \<open>
  The callbacks that run in Tasks of their own: one waits, one frees a semaphore that still has a waiter,
  one gives the permit. They share a record of flags.
\<close>

record R4NvSemaphoreProbe =
  sp_memory :: NvU64
  sp_semaphore :: NvU64
  sp_after_fault :: NvU32
  sp_after_wait :: NvU32
  sp_permit_sent :: NvU32

definition probe_void_flag ::
  "(unit outcome \<times> 'w sema_state) option \<Rightarrow> R4NvSemaphoreProbe \<Rightarrow> (R4NvSemaphoreProbe \<Rightarrow> R4NvSemaphoreProbe) \<Rightarrow> int \<Rightarrow>
    (int outcome \<times> R4NvSemaphoreProbe \<times> 'w sema_state) option" where
  "probe_void_flag r s flag code = do {
     (e, st) \<leftarrow> r;
     Some (case e of Stopped x \<Rightarrow> (Stopped x, s, st) | Returned _ \<Rightarrow> (Returned code, flag s, st))
   }"

definition r4nv_semaphore_probe_wait ::
  "R4NvSemaphoreProbe \<Rightarrow> 'w sema_state \<Rightarrow> (int outcome \<times> R4NvSemaphoreProbe \<times> 'w sema_state) option" where
  "r4nv_semaphore_probe_wait s st =
     probe_void_flag (nvkms_sema_down r4nv_semaphore_acquire sema_native_fault (sp_semaphore s) st)
       s (\<lambda>s. s\<lparr>sp_after_wait := 1\<rparr>) 0"

definition r4nv_semaphore_probe_fault ::
  "R4NvSemaphoreProbe \<Rightarrow> 'w sema_state \<Rightarrow> (int outcome \<times> R4NvSemaphoreProbe \<times> 'w sema_state) option" where
  "r4nv_semaphore_probe_fault s st =
     probe_void_flag (nvkms_sema_free r4nv_semaphore_free sema_native_fault (sp_semaphore s) st)
       s (\<lambda>s. s\<lparr>sp_after_fault := 1\<rparr>) (- 1)"

definition r4nv_semaphore_probe_permit ::
  "R4NvSemaphoreProbe \<Rightarrow> 'w sema_state \<Rightarrow> (int outcome \<times> R4NvSemaphoreProbe \<times> 'w sema_state) option" where
  "r4nv_semaphore_probe_permit s st =
     probe_void_flag (nvkms_sema_up r4nv_semaphore_release sema_native_fault (sp_semaphore s) st)
       s (\<lambda>s. s\<lparr>sp_permit_sent := 1\<rparr>) 0"

text \<open>
  The callbacks around them: the first allocates a block, fills it with a pattern and creates the semaphore, the
  last finds the pattern again and frees the semaphore; the block stays for its native owner.
\<close>

definition probe_pattern :: "NvU32 \<Rightarrow> NvU8" where
  "probe_pattern i = ucast (i XOR 0x79)"

fun probe_fill :: "nat \<Rightarrow> NvU32 \<Rightarrow> memory \<Rightarrow> NvU64 \<Rightarrow> memory option" where
  "probe_fill 0 i m p = Some m"
| "probe_fill (Suc n) i m p = do {
     m \<leftarrow> store_byte m (p + ucast i) (probe_pattern i);
     probe_fill n (i + 1) m p
   }"

fun probe_intact :: "nat \<Rightarrow> NvU32 \<Rightarrow> memory \<Rightarrow> NvU64 \<Rightarrow> bool option" where
  "probe_intact 0 i m p = Some True"
| "probe_intact (Suc n) i m p = do {
     b \<leftarrow> m (p + ucast i);
     if b = probe_pattern i then probe_intact n (i + 1) m p else Some False
   }"

definition r4nv_semaphore_probe_setup ::
  "R4NvSemaphoreProbe \<Rightarrow> 'w sema_state \<Rightarrow> (int outcome \<times> R4NvSemaphoreProbe \<times> 'w sema_state) option" where
  "r4nv_semaphore_probe_setup s st = do {
     (status, out, h) \<leftarrow> os_alloc_mem r4nv_heap_allocate True 97 (s_heap st);
     memory \<leftarrow> out;
     let s = s\<lparr>sp_memory := memory\<rparr>;
     let st = st\<lparr>s_heap := h\<rparr>;
     if status \<noteq> NV_OK then Some (Returned (- 44), s, st)
     else do {
       m \<leftarrow> probe_fill 97 0 (s_memory st) memory;
       let st = set_kernel (h_world (s_heap st), m) st;
       (semaphore, st) \<leftarrow> os_alloc_semaphore r4nv_semaphore_create 0 st;
       let s = s\<lparr>sp_semaphore := semaphore\<rparr>;
       Some (Returned (if semaphore \<noteq> 0 then 0 else - 47), s, st)
     }
   }"

definition r4nv_semaphore_probe_cleanup ::
  "R4NvSemaphoreProbe \<Rightarrow> 'w sema_state \<Rightarrow> (int outcome \<times> R4NvSemaphoreProbe \<times> 'w sema_state) option" where
  "r4nv_semaphore_probe_cleanup s st = do {
     intact \<leftarrow> probe_intact 97 0 (s_memory st) (sp_memory s);
     if \<not> intact then Some (Returned (- 76), s, st)
     else probe_void_flag (nvkms_sema_free r4nv_semaphore_free sema_native_fault (sp_semaphore s) st)
       s (\<lambda>s. s\<lparr>sp_semaphore := 0\<rparr>) 0
   }"

text \<open>
  Freeing a semaphore with an enrolled waiter. When the kernel refuses to destroy it as busy, the
  callback is left inside the free: its Task is ended, the flag behind the call is not set, the fault is
  latched as a failed free with the retry code, and the box and its memory are kept with the handle, so
  that the waiter's permit can still be given and the free retried.
\<close>

theorem busy_free_leaves_callback:
  assumes "s_context st = Some ctx" "sema_box (sp_semaphore s) (s_memory st) = Some (Some h)" "h \<noteq> 0"
    "ss_destroy ctx h (s_kernel st) = (semaphore_busy, w, s_memory st)"
    "n_threads (s_native st)" "n_admitted (s_native st)" "n_first_fault (s_native st) = 0"
  shows "\<exists>st'. r4nv_semaphore_probe_fault s st = Some (Stopped Aborted, s, st') \<and>
    n_first_fault (s_native st') = 0x100000001 \<and> s_failures st' = s_failures st \<and>
    sema_box (sp_semaphore s) (s_memory st') = Some (Some h) \<and> s_context st' = Some ctx"
proof -
  define p where "p = sp_semaphore s"
  have p: "p \<noteq> 0" "sema_box p (s_memory st) = Some (Some h)" using assms(2) by (auto simp: sema_box_def p_def)
  have "r4nv_semaphore_free p st = Some (1, set_kernel (w, s_memory st) st)"
    using assms(1,3,4) p by (simp add: r4nv_semaphore_free_def sema_result_def)
  then show ?thesis
    using assms(1,5-7) p(2)
    by (simp add: r4nv_semaphore_probe_fault_def probe_void_flag_def nvkms_sema_free_def or_fault_def p_def [symmetric]
        sema_native_fault_def r4nv_native_fault_def Let_def)
      (simp add: set_kernel_def)
qed

theorem busy_free_leaves_callback_witness:
  "\<exists>st'. r4nv_semaphore_probe_fault \<lparr>sp_memory = 0, sp_semaphore = 4112, sp_after_fault = 0, sp_after_wait = 0, sp_permit_sent = 0\<rparr>
      (counting_state\<lparr>s_context := Some (counting_sema\<lparr>ss_destroy := (\<lambda>h (w, m). (semaphore_busy, w, m))\<rparr>),
         s_heap := \<lparr>h_context = Some counting_heap, h_failed_releases = 0, h_world = 0, h_memory = put sample_memory 4112 (box_bytes 9 4112)\<rparr>\<rparr>) =
    Some (Stopped Aborted, \<lparr>sp_memory = 0, sp_semaphore = 4112, sp_after_fault = 0, sp_after_wait = 0, sp_permit_sent = 0\<rparr>, st')"
proof -
  let ?st = "counting_state\<lparr>s_context := Some (counting_sema\<lparr>ss_destroy := (\<lambda>h (w, m). (semaphore_busy, w, m))\<rparr>),
         s_heap := \<lparr>h_context = Some counting_heap, h_failed_releases = 0, h_world = 0, h_memory = put sample_memory 4112 (box_bytes 9 4112)\<rparr>\<rparr>"
  have "sema_box 4112 (s_memory ?st) = Some (Some 9)"
    by (simp add: sema_box_put sample_accessible)
  then show ?thesis
    using busy_free_leaves_callback [of ?st "counting_sema\<lparr>ss_destroy := (\<lambda>h (w, m). (semaphore_busy, w, m))\<rparr>"
        "\<lparr>sp_memory = 0, sp_semaphore = 4112, sp_after_fault = 0, sp_after_wait = 0, sp_permit_sent = 0\<rparr>" 9 0]
    by (auto simp: counting_state_def)
qed

section \<open>The block of the probe\<close>

abbreviation (input) pattern_bytes :: "NvU32 \<Rightarrow> nat \<Rightarrow> NvU8 list" where
  "pattern_bytes i n \<equiv> map (\<lambda>j. probe_pattern (i + of_nat j)) [0..<n]"

lemma pattern_bytes_Suc: "pattern_bytes i (Suc n) = probe_pattern i # pattern_bytes (i + 1) n"
  by (rule nth_equalityI) (auto simp: nth_Cons simp del: upt_Suc split: nat.split simp add: add.assoc)

lemma ucast_next: "unat (i :: NvU32) + 1 < 2 ^ 32 \<Longrightarrow> (ucast (i + 1) :: NvU64) = ucast i + 1"
  by (rule word_unat_eq_iff [THEN iffD2]) (simp add: unat_add_nowrap unat_ucast_NvU32)

lemma probe_fill_put:
  "accessible m (p + ucast i) n \<Longrightarrow> unat i + n < 2 ^ 32 \<Longrightarrow>
   probe_fill n i m p = Some (put m (p + ucast i) (pattern_bytes i n))"
proof (induction n arbitrary: i m)
  case (Suc n)
  define m1 where "m1 = m(p + ucast i \<mapsto> probe_pattern i)"
  have succ: "p + ucast (i + 1) = p + ucast i + 1" "unat (i + 1) = unat i + 1"
    using Suc.prems(2) by (simp_all add: ucast_next unat_add_nowrap)
  have m: "m (p + ucast i) \<noteq> None" "accessible m (p + ucast (i + 1)) n"
    using Suc.prems(1) by (simp_all add: accessible_Suc succ)
  then have acc: "accessible m1 (p + ucast (i + 1)) n" by (auto simp: accessible_def m1_def)
  have "put m1 (p + ucast (i + 1)) bs = put m (p + ucast i) (probe_pattern i # bs)" if "length bs = n" for bs
    using put_append [of "[probe_pattern i]" bs m "p + ucast i"] Suc.prems(2) that
    by (cases "bs = []") (simp_all add: put_singleton succ m1_def)
  moreover have "probe_fill n (i + 1) m1 p = Some (put m1 (p + ucast (i + 1)) (pattern_bytes (i + 1) n))"
    by (rule Suc.IH [OF acc]) (use Suc.prems(2) succ in simp)
  moreover have "store_byte m (p + ucast i) (probe_pattern i) = Some m1" using m(1) by (simp add: store_byte_def m1_def)
  ultimately show ?case by (simp add: pattern_bytes_Suc del: upt_Suc)
qed simp

lemma probe_intact_holds:
  "holds m (p + ucast i) (pattern_bytes i n) \<Longrightarrow> unat i + n < 2 ^ 32 \<Longrightarrow> probe_intact n i m p = Some True"
proof (induction n arbitrary: i)
  case (Suc n)
  have succ: "p + ucast (i + 1) = p + ucast i + 1" "unat (i + 1) = unat i + 1"
    using Suc.prems(2) by (simp_all add: ucast_next unat_add_nowrap)
  have "holds m (p + ucast i) [probe_pattern i]" "holds m (p + ucast (i + 1)) (pattern_bytes (i + 1) n)"
    using Suc.prems(1) holds_append [of m "p + ucast i" "[probe_pattern i]" "pattern_bytes (i + 1) n"]
    by (simp_all add: pattern_bytes_Suc succ del: upt_Suc)
  then show ?case using Suc.IH [of "i + 1"] Suc.prems(2) succ(2) holds_nth [of m "p + ucast i" "[probe_pattern i]" 0] by simp
qed simp

text \<open>
  Steps of the kernel and of other Tasks that leave the driver's memory alone; and a semaphore service none of
  whose operations touches it.
\<close>

definition undisturbed :: "'w kernel_view \<Rightarrow> 'w \<times> memory \<Rightarrow> 'w \<times> memory \<Rightarrow> bool" where
  "undisturbed K k k' \<longleftrightarrow> kv_block K (fst k') = kv_block K (fst k) \<and> (\<forall>x. x \<in> in_use K (fst k) \<longrightarrow> snd k' x = snd k x)"

definition sema_quiet :: "'w kernel_view \<Rightarrow> 'w sema_service \<Rightarrow> bool" where
  "sema_quiet K ctx \<longleftrightarrow> (\<forall>k n l h t.
     undisturbed K k (snd (snd (ss_create ctx n l k))) \<and> undisturbed K k (snd (ss_destroy ctx h k)) \<and>
     undisturbed K k (snd (ss_acquire ctx h t k)) \<and> undisturbed K k (snd (ss_release ctx h k)))"

lemma undisturbed_in_use: "undisturbed K k k' \<Longrightarrow> in_use K (fst k') = in_use K (fst k)"
  by (simp add: undisturbed_def in_use_def)

lemma undisturbed_owns:
  assumes "owns K A ps h" "undisturbed K (h_world h, h_memory h) (h_world h', h_memory h')"
  shows "owns K A ps h'"
  using owns_step [OF assms(1), of h' "[]"] assms(2) by (simp add: undisturbed_def grown_def)

lemma undisturbed_holds:
  assumes "holds m p bs" "span p (length bs) \<subseteq> in_use K w" "undisturbed K (w, m) (w', m')" "length bs \<le> 2 ^ 64"
  shows "holds m' p bs"
  using holds_cong [of p bs m' m] assms by (auto simp: undisturbed_def)

lemma undisturbed_accessible:
  assumes "accessible m p n" "span p n \<subseteq> in_use K w" "undisturbed K (w, m) (w', m')" "n \<le> 2 ^ 64"
  shows "accessible m' p n"
  unfolding accessible_def
proof (intro allI impI)
  fix i assume i: "i < n"
  then have "p + of_nat i \<in> in_use K w" using assms(2,4) span_iff [of i p n] by auto
  then show "m' (p + of_nat i) \<noteq> None" using assms(1,3) i by (simp add: undisturbed_def accessible_def)
qed


lemma owned_in_use: "owns K A ps st \<Longrightarrow> p \<in> set ps \<Longrightarrow> span (p - 16) 16 \<subseteq> in_use K (h_world st)"
proof (induction ps arbitrary: A)
  case (Cons q ps)
  show ?case
  proof (cases "p = q")
    case False
    then show ?thesis using Cons unfolding owns.simps(2) by (metis set_ConsD)
  qed (use Cons.prems(1) owns_in_use in blast)
qed simp

text \<open>The prefix and the bytes behind it are parts of a block.\<close>

lemma block_parts:
  assumes "16 \<le> unat (p :: NvU64)" "unat p + n \<le> 2 ^ 64"
  shows "span (p - 16) 16 \<inter> span p n = {}" "span p n \<subseteq> span (p - 16) (n + 16)" "span (p - 16) 16 \<subseteq> span (p - 16) (n + 16)"
proof -
  have u: "unat (p - 16) = unat p - 16" using assms(1) by (simp add: unat_sub_if')
  show "span (p - 16) 16 \<inter> span p n = {}" by (rule span_before) (use assms u in simp_all)
  have "n + 16 \<le> 2 ^ 64" using assms by simp
  then show "span p n \<subseteq> span (p - 16) (n + 16)" using span_offset [of 16 n "n + 16" "p - 16"] by simp
  show "span (p - 16) 16 \<subseteq> span (p - 16) (n + 16)" by (auto simp: span_def)
qed

lemma put_outside_span: "x \<notin> span p (length bs) \<Longrightarrow> put m p bs x = m x"
  by (rule put_outside) (simp add: span_def)

lemma accessible_behind:
  assumes "accessible m (p - 16) (n + 16)"
  shows "accessible m p n"
  using assms accessible_add [of m "p - 16" 16 n] by (simp add: add.commute)

text \<open>A semaphore created beside the pointers the driver has: nothing it had is touched.\<close>

definition created :: "'w kernel_view \<Rightarrow> 'w sema_service \<Rightarrow> (NvU64 \<rightharpoonup> NvU64 set) \<Rightarrow> NvU64 list \<Rightarrow> 'w sema_state \<Rightarrow> NvU64 \<Rightarrow> 'w sema_state \<Rightarrow> bool" where
  "created K ctx A ps st q st' \<longleftrightarrow>
     h_context (s_heap st') = Some (kv_service K) \<and> s_context st' = Some ctx \<and> owns K A (ps @ [q]) (s_heap st') \<and>
     span (q - 16) 32 \<inter> in_use K (h_world (s_heap st)) = {} \<and> span (q - 16) 32 \<subseteq> in_use K (h_world (s_heap st')) \<and>
     in_use K (h_world (s_heap st)) \<subseteq> in_use K (h_world (s_heap st')) \<and>
     (\<forall>x. x \<in> in_use K (h_world (s_heap st)) \<longrightarrow> s_memory st' x = s_memory st x) \<and>
     16 \<le> unat q \<and> unat q + 16 \<le> 2 ^ 64 \<and> accessible (s_memory st') q 16 \<and>
     (\<exists>h. h \<noteq> 0 \<and> sema_box q (s_memory st') = Some (Some h))"

lemma box_stored:
  assumes own: "owns K A (ps @ [q]) h" and ctx: "h_context h = Some (kv_service K)"
    and q: "q \<noteq> 0" "q AND 15 = 0" "16 \<le> unat q" "unat q + 16 \<le> 2 ^ 64" "accessible (h_memory h) q 16" "handle \<noteq> 0"
    and fresh: "span (q - 16) 32 \<inter> in_use K (h_world (s_heap st)) = {}" "span (q - 16) 32 \<subseteq> in_use K (h_world h)"
    and before: "owns K A ps (s_heap st)" "in_use K (h_world (s_heap st)) \<subseteq> in_use K (h_world h)"
      "\<And>x. x \<in> in_use K (h_world (s_heap st)) \<Longrightarrow> h_memory h x = s_memory st x"
    and st': "s_heap st' = h\<lparr>h_memory := put (h_memory h) q (box_bytes handle q)\<rparr>" "s_context st' = Some ctx"
  shows "created K ctx A ps st q st'"
proof -
  note parts = block_parts [OF q(3,4)]
  have out: "put (h_memory h) q (box_bytes handle q) x = h_memory h x" if "x \<notin> span q 16" for x
    using that by (intro put_outside_span) simp
  have "owns K A (ps @ [q]) (s_heap st')"
    unfolding st'(1)
  proof (rule owns_memory [OF own])
    fix p x assume "p \<in> set (ps @ [q])" "x \<in> span (p - 16) 16"
    then have "x \<notin> span q 16" using parts(1,2) owned_in_use [OF before(1), of p] fresh(1) by auto
    then show "put (h_memory h) q (box_bytes handle q) x = h_memory h x" by (rule out)
  qed
  moreover have "s_memory st' x = s_memory st x" if "x \<in> in_use K (h_world (s_heap st))" for x
    using out [of x] that before(3) fresh(1) parts(2) by (auto simp: st'(1))
  ultimately show ?thesis
    using ctx q fresh before(2) sema_box_put [of "h_memory h" q handle] st' by (auto simp: created_def accessible_put)
qed

lemma create_honest:
  assumes K: "kernel_heap_ok K" "h_context (s_heap st) = Some (kv_service K)" and ctx: "s_context st = Some ctx" "sema_quiet K ctx"
    and own: "owns K A ps (s_heap st)"
  obtains q st' where "r4nv_semaphore_create n st = Some (q, st')" "q \<noteq> 0 \<Longrightarrow> created K ctx A ps st q st'"
proof (cases "sema_available st \<and> ss_sleepable ctx (h_world (s_heap st))")
  case False
  then have "r4nv_semaphore_create n st = Some (0, st)" using ctx(1) by (simp add: r4nv_semaphore_create_def)
  then show ?thesis using that by blast
next
  case True
  let ?w = "h_world (s_heap st)"
  have sixteen: "unat (max 16 1 :: NvU64) = 16" by (simp add: max_def word_le_nat_alt)
  then have size: "unat (max 16 1 :: NvU64) + 16 = 32" by simp
  obtain q h where a: "r4nv_heap_allocate 16 (s_heap st) = Some (q, h)" "h_context h = Some (kv_service K)"
      "\<And>x. x \<in> in_use K ?w \<Longrightarrow> h_memory h x = s_memory st x"
      "q \<noteq> 0 \<Longrightarrow> owns K A (ps @ [q]) h" "q \<noteq> 0 \<Longrightarrow> span (q - 16) 32 \<inter> in_use K ?w = {}"
      "q \<noteq> 0 \<Longrightarrow> accessible (h_memory h) (q - 16) 32" "q \<noteq> 0 \<Longrightarrow> span (q - 16) 32 \<subseteq> in_use K (h_world h)"
    by (rule allocate_owned [OF K own, of 16, unfolded size]) blast
  obtain q' h' where b: "r4nv_heap_allocate 16 (s_heap st) = Some (q', h')" "q' = 0 \<Longrightarrow> owns K (kv_block K ?w) [] h'"
      "q' \<noteq> 0 \<Longrightarrow> owns K (kv_block K ?w) ([] @ [q']) h'"
    by (rule allocate_owned [OF K owns_none, of 16]) blast
  have b: "q = 0 \<Longrightarrow> owns K (kv_block K ?w) [] h" "q \<noteq> 0 \<Longrightarrow> owns K (kv_block K ?w) [q] h" using b a(1) by simp_all
  have grow: "in_use K ?w \<subseteq> in_use K (h_world h)" by (rule in_use_mono) (use b owns_blocks in blast)
  obtain code handle w m where c: "ss_create ctx n 0xFFFFFFFF (h_world h, h_memory h) = (code, handle, w, m)" by (metis prod_cases4)
  have quiet: "undisturbed K (h_world h, h_memory h) (w, m)" using ctx(2) c unfolding sema_quiet_def by (metis snd_conv)
  define hk where "hk = h\<lparr>h_world := w, h_memory := m\<rparr>"
  have hk: "h_world hk = w" "h_memory hk = m" "h_context hk = Some (kv_service K)" using a(2) by (simp_all add: hk_def)
  have kept: "owns K B rs hk" if "owns K B rs h" for B rs using undisturbed_owns [OF that] quiet hk by simp
  consider "q = 0" | "q \<noteq> 0" "code \<noteq> semaphore_ok \<or> handle = 0" | "q \<noteq> 0" "code = semaphore_ok" "handle \<noteq> 0" by blast
  then show ?thesis
  proof cases
    case 1
    then have "r4nv_semaphore_create n st = Some (0, st\<lparr>s_heap := h\<rparr>)"
      using True ctx(1) a(1) by (simp add: r4nv_semaphore_create_def)
    then show ?thesis using that by blast
  next
    case 2
    obtain ok h2 where r: "heap_release q hk = Some (ok, h2)"
      using heap_release_honest [OF K(1) hk(3) kept [OF b(2) [OF 2(1)]]] by blast
    have "\<exists>st2. r4nv_semaphore_create n st = Some (0, st2)"
      using True ctx(1) a(1) c 2 r
      by (simp add: r4nv_semaphore_create_def Let_def sema_heap_release_def sema_fault_def set_kernel_def hk_def)
    then show ?thesis using that by blast
  next
    case 3
    note span = allocate_span [OF a(1) 3(1)]
    have acc: "accessible m q 16"
      using undisturbed_accessible [OF accessible_behind [of "h_memory h" q 16] _ quiet] a(6,7) [OF 3(1)] block_parts(2) [of q 16] span sixteen
      by simp
    let ?st' = "set_kernel (w, put m q (box_bytes handle q)) (st\<lparr>s_heap := hk\<rparr>)"
    have "r4nv_semaphore_create n st = Some (q, ?st')"
      using True ctx(1) a(1) c 3 store_bytes_put [of m q "box_bytes handle q"] acc
      by (simp add: r4nv_semaphore_create_def Let_def set_kernel_def hk_def)
    moreover have "created K ctx A ps st q ?st'"
    proof (rule box_stored [OF kept [OF a(4) [OF 3(1)]] hk(3) 3(1) span(1,2) _ _ 3(3) a(5) [OF 3(1)] _ own])
      show "span (q - 16) 32 \<subseteq> in_use K (h_world hk)" "in_use K ?w \<subseteq> in_use K (h_world hk)"
        using a(7) [OF 3(1)] grow undisturbed_in_use [OF quiet] hk(1) by simp_all
      show "h_memory hk x = s_memory st x" if "x \<in> in_use K ?w" for x
        using a(3) [OF that] quiet hk(2) grow that by (auto simp: undisturbed_def)
    qed (use span(3) sixteen acc hk ctx(1) in \<open>simp_all add: set_kernel_def\<close>)
    ultimately show ?thesis using that by blast
  qed
qed

declare owns.simps(2) [simp del]

text \<open>What the callbacks find: the block with its pattern and the live semaphore, both owned and apart.\<close>

definition probe_ready ::
  "'w kernel_view \<Rightarrow> 'w sema_service \<Rightarrow> (NvU64 \<rightharpoonup> NvU64 set) \<Rightarrow> R4NvSemaphoreProbe \<Rightarrow> 'w sema_state \<Rightarrow> bool" where
  "probe_ready K ctx A s st \<longleftrightarrow>
     h_context (s_heap st) = Some (kv_service K) \<and> s_context st = Some ctx \<and>
     owns K A [sp_memory s, sp_semaphore s] (s_heap st) \<and>
     span (sp_memory s) 97 \<subseteq> in_use K (h_world (s_heap st)) \<and> span (sp_semaphore s - 16) 32 \<subseteq> in_use K (h_world (s_heap st)) \<and>
     span (sp_memory s - 16) 16 \<inter> span (sp_semaphore s) 16 = {} \<and>
     16 \<le> unat (sp_semaphore s) \<and> unat (sp_semaphore s) + 16 \<le> 2 ^ 64 \<and> accessible (s_memory st) (sp_semaphore s) 16 \<and>
     holds (s_memory st) (sp_memory s) (pattern_bytes 0 97) \<and>
     (\<exists>h. h \<noteq> 0 \<and> sema_box (sp_semaphore s) (s_memory st) = Some (Some h))"

lemma setup_ready:
  assumes K: "kernel_heap_ok K" "h_context (s_heap st) = Some (kv_service K)" and ctx: "s_context st = Some ctx" "sema_quiet K ctx"
  obtains r s' st' where "r4nv_semaphore_probe_setup s st = Some (Returned r, s', st')" "r \<in> {0, - 44, - 47}"
    "r = 0 \<Longrightarrow> probe_ready K ctx (kv_block K (h_world (s_heap st))) s' st'"
proof -
  let ?A = "kv_block K (h_world (s_heap st))"
  have room: "unat (max 97 1 :: NvU64) = 97" by (simp add: max_def word_le_nat_alt)
  then have size: "unat (max 97 1 :: NvU64) + 16 = 113" by simp
  obtain p h where a: "r4nv_heap_allocate 97 (s_heap st) = Some (p, h)" "h_context h = Some (kv_service K)"
      "p \<noteq> 0 \<Longrightarrow> owns K ?A [p] h" "p \<noteq> 0 \<Longrightarrow> accessible (h_memory h) (p - 16) 113"
      "p \<noteq> 0 \<Longrightarrow> span (p - 16) 113 \<subseteq> in_use K (h_world h)"
    by (rule allocate_owned [OF K owns_none, of 97, unfolded size append_Nil]) blast
  show thesis
  proof (cases "p = 0")
    case True
    then have "r4nv_semaphore_probe_setup s st = Some (Returned (- 44), s\<lparr>sp_memory := 0\<rparr>, st\<lparr>s_heap := h\<rparr>)"
      using a(1) by (simp add: r4nv_semaphore_probe_setup_def os_alloc_mem_def)
    then show ?thesis using that by simp
  next
    case False
    note span = allocate_span [OF a(1) False, unfolded room]
    have "unat p + 97 \<le> 2 ^ 64" using span(3) by simp
    then have parts: "span (p - 16) 16 \<inter> span p 97 = {}" "span p 97 \<subseteq> span (p - 16) 113" "span (p - 16) 16 \<subseteq> span (p - 16) 113"
      using block_parts [OF span(2), of 97] by simp_all
    have acc: "accessible (h_memory h) p 97" using accessible_behind [of "h_memory h" p 97] a(4) [OF False] by simp
    define m where "m = put (h_memory h) p (pattern_bytes 0 97)"
    define st1 where "st1 = set_kernel (h_world h, m) (st\<lparr>s_heap := h\<rparr>)"
    have st1: "s_heap st1 = h\<lparr>h_memory := m\<rparr>" "s_context st1 = Some ctx" using ctx(1) by (simp_all add: st1_def set_kernel_def)
    have "m x = h_memory h x" if "x \<in> span (p - 16) 16" for x
      unfolding m_def by (rule put_outside_span) (use that parts(1) in auto)
    then have own: "owns K ?A [p] (s_heap st1)" unfolding st1(1) by (intro owns_memory [OF a(3) [OF False]]) simp
    obtain q st2 where c: "r4nv_semaphore_create 0 st1 = Some (q, st2)" "q \<noteq> 0 \<Longrightarrow> created K ctx ?A [p] st1 q st2"
      using create_honest [OF K(1) _ st1(2) ctx(2) own] st1(1) a(2) by auto
    let ?s = "s\<lparr>sp_memory := p, sp_semaphore := q\<rparr>"
    have "probe_fill 97 0 (h_memory h) p = Some m" using probe_fill_put [of "h_memory h" p 0 97] acc by (simp add: m_def)
    then have "r4nv_semaphore_probe_setup s st = Some (Returned (if q \<noteq> 0 then 0 else - 47), ?s, st2)"
      using a(1) False c(1)
      by (simp add: r4nv_semaphore_probe_setup_def os_alloc_mem_def os_alloc_semaphore_def st1_def [symmetric])
    moreover have "probe_ready K ctx ?A ?s st2" if "q \<noteq> 0"
    proof -
      have d: "created K ctx ?A [p] st1 q st2" "h_world (s_heap st1) = h_world h" "s_memory st1 = m" using c(2) [OF that] st1(1) by simp_all
      have same: "s_memory st2 x = m x" if "x \<in> span (p - 16) 113" for x
        using d a(5) [OF False] that unfolding created_def by auto
      have "holds m p (pattern_bytes 0 97)" unfolding m_def by (rule holds_put_all) simp
      moreover have "s_memory st2 x = m x" if "x \<in> span p (length (pattern_bytes 0 97))" for x
        using same [of x] that parts(2) by auto
      ultimately have "holds (s_memory st2) p (pattern_bytes 0 97)"
        using holds_cong [of p "pattern_bytes 0 97" "s_memory st2" m] by simp
      moreover have "span q 16 \<subseteq> span (q - 16) 32" using d(1) block_parts(2) [of q 16] by (simp add: created_def)
      then have "span (p - 16) 16 \<inter> span q 16 = {}"
        using d parts(3) a(5) [OF False] unfolding created_def by auto
      moreover have "span p 97 \<subseteq> in_use K (h_world (s_heap st2))"
        using d parts(2) a(5) [OF False] unfolding created_def by auto
      ultimately show ?thesis using d(1) unfolding created_def probe_ready_def by simp
    qed
    ultimately show ?thesis using that [of 0 ?s st2] that [of "- 47" ?s st2] by (cases "q = 0") simp_all
  qed
qed

lemma sema_box_cong:
  assumes "\<And>x. x \<in> span q 16 \<Longrightarrow> m' x = m x"
  shows "sema_box q m' = sema_box q m"
proof -
  have same: "m' (q + of_nat i) = m (q + of_nat i)" if "i < 16" for i using assms [of "q + of_nat i"] that span_iff [of i q 16] by simp
  have "load_bytes m' q 8 = load_bytes m q 8" by (rule load_bytes_cong) (simp add: same)
  moreover have "load_bytes m' (q + 8) 8 = load_bytes m (q + 8) 8"
    by (rule load_bytes_cong) (use same [of "8 + _"] in \<open>simp add: add.assoc\<close>)
  ultimately show ?thesis unfolding sema_box_def by (simp only:)
qed

lemma ready_undisturbed:
  assumes ready: "probe_ready K ctx A s st" and quiet: "undisturbed K (s_kernel st) (s_kernel st')"
    and same: "s_context st' = s_context st" "h_context (s_heap st') = h_context (s_heap st)"
  shows "probe_ready K ctx A s st'"
proof -
  let ?q = "sp_semaphore s"
  have r: "owns K A [sp_memory s, ?q] (s_heap st)" "span (sp_memory s) 97 \<subseteq> in_use K (h_world (s_heap st))"
    "span (?q - 16) 32 \<subseteq> in_use K (h_world (s_heap st))" "16 \<le> unat ?q" "unat ?q + 16 \<le> 2 ^ 64" "accessible (s_memory st) ?q 16"
    "holds (s_memory st) (sp_memory s) (pattern_bytes 0 97)" "\<exists>h. h \<noteq> 0 \<and> sema_box ?q (s_memory st) = Some (Some h)"
    using ready unfolding probe_ready_def by blast+
  have box: "span ?q 16 \<subseteq> in_use K (h_world (s_heap st))" using block_parts(2) [OF r(4,5)] r(3) by auto
  have "owns K A [sp_memory s, ?q] (s_heap st')" by (rule undisturbed_owns [OF r(1) quiet])
  moreover have "in_use K (h_world (s_heap st')) = in_use K (h_world (s_heap st))" using undisturbed_in_use [OF quiet] by simp
  moreover have "holds (s_memory st') (sp_memory s) (pattern_bytes 0 97)"
    by (rule undisturbed_holds [OF r(7) _ quiet]) (use r(2) in simp_all)
  moreover have "accessible (s_memory st') ?q 16" by (rule undisturbed_accessible [OF r(6) box quiet]) simp
  moreover have "sema_box ?q (s_memory st') = sema_box ?q (s_memory st)"
    using box quiet by (intro sema_box_cong) (auto simp: undisturbed_def)
  ultimately show ?thesis using ready same unfolding probe_ready_def by simp
qed

text \<open>A callback ends behind its call when the provider succeeded, and inside it with the fault latched otherwise.\<close>

lemma void_flag_ends:
  obtains e s' st' where "probe_void_flag (or_fault sema_native_fault operation (Some (r, st))) s flag n = Some (e, s', st')"
    "s_heap st' = s_heap st" "s_context st' = s_context st"
    "r = 0 \<Longrightarrow> e = Returned n \<and> s' = flag s \<and> st' = st"
    "r \<noteq> 0 \<Longrightarrow> (\<exists>x. e = Stopped x) \<and> s' = s \<and> (operation \<noteq> 0 \<longrightarrow> n_first_fault (s_native st') \<noteq> 0)"
proof (cases "r = 0")
  case True
  then show ?thesis using that [of "Returned n" "flag s" st] by (simp add: probe_void_flag_def or_fault_def)
next
  case False
  obtain x nat where f: "r4nv_native_fault operation r (s_native st) = (x, nat)" by fastforce
  let ?st = "st\<lparr>s_native := nat\<rparr>"
  have o: "or_fault sema_native_fault operation (Some (r, st)) = Some (Stopped x, ?st)"
    using False f by (simp add: or_fault_def sema_native_fault_def)
  then have "operation \<noteq> 0 \<Longrightarrow> n_first_fault (s_native ?st) \<noteq> 0" using rm_sema.or_fault_stopped by blast
  then show ?thesis using that [of "Stopped x" s ?st] o False by (simp add: probe_void_flag_def)
qed

lemma sema_result_state: "s_heap (snd (sema_result code st)) = s_heap st" "s_context (snd (sema_result code st)) = s_context st"
  by (cases code; simp add: sema_result_def sema_fault_def)+

text \<open>The callbacks in between are such steps.\<close>

lemma callbacks_undisturbed:
  assumes ready: "probe_ready K ctx A s st" and quiet: "sema_quiet K ctx"
  shows "\<exists>e s' st'. r4nv_semaphore_probe_wait s st = Some (e, s', st') \<and> probe_ready K ctx A s' st'"
    "\<exists>e s' st'. r4nv_semaphore_probe_permit s st = Some (e, s', st') \<and> probe_ready K ctx A s' st'"
proof -
  obtain h where h: "h \<noteq> 0" "sema_box (sp_semaphore s) (s_memory st) = Some (Some h)" "s_context st = Some ctx"
    using ready unfolding probe_ready_def by blast
  have step: "\<exists>e s' st'. probe_void_flag (or_fault sema_native_fault operation (Some (sema_result code (set_kernel k st)))) s flag n =
        Some (e, s', st') \<and> probe_ready K ctx A s' st'"
    if k: "undisturbed K (s_kernel st) k" and flag: "\<And>s. sp_memory (flag s) = sp_memory s \<and> sp_semaphore (flag s) = sp_semaphore s"
    for operation code k flag n
  proof -
    obtain r st1 where r: "sema_result code (set_kernel k st) = (r, st1)" by fastforce
    obtain e s' st' where v: "probe_void_flag (or_fault sema_native_fault operation (Some (r, st1))) s flag n = Some (e, s', st')"
      "s_heap st' = s_heap st1" "s_context st' = s_context st1" "r = 0 \<Longrightarrow> e = Returned n \<and> s' = flag s \<and> st' = st1"
      "r \<noteq> 0 \<Longrightarrow> (\<exists>x. e = Stopped x) \<and> s' = s \<and> (operation \<noteq> 0 \<longrightarrow> n_first_fault (s_native st') \<noteq> 0)"
      by (rule void_flag_ends [of operation r st1 s flag n]) blast
    have s': "sp_memory s' = sp_memory s" "sp_semaphore s' = sp_semaphore s" using v(4,5) flag by (cases "r = 0"; simp)+
    have st': "s_heap st' = s_heap (set_kernel k st)" "s_context st' = s_context st"
      using v(2,3) sema_result_state [of code "set_kernel k st"] r by simp_all
    have "probe_ready K ctx A s st'"
      by (rule ready_undisturbed [OF ready]) (use k st' in \<open>simp_all add: set_kernel_def\<close>)
    then have "probe_ready K ctx A s' st'" using s' by (simp add: probe_ready_def)
    then show ?thesis using r v(1) by auto
  qed
  obtain code k where a: "ss_acquire ctx h (- 1) (s_kernel st) = (code, k)" by (metis surj_pair)
  have "undisturbed K (s_kernel st) k" using quiet a unfolding sema_quiet_def by (metis snd_conv)
  then show "\<exists>e s' st'. r4nv_semaphore_probe_wait s st = Some (e, s', st') \<and> probe_ready K ctx A s' st'"
    using step [of k "\<lambda>s. s\<lparr>sp_after_wait := 1\<rparr>"] h a
    by (simp add: r4nv_semaphore_probe_wait_def nvkms_sema_down_def r4nv_semaphore_acquire_def)
  obtain code k where b: "ss_release ctx h (s_kernel st) = (code, k)" by (metis surj_pair)
  have "undisturbed K (s_kernel st) k" using quiet b unfolding sema_quiet_def by (metis snd_conv)
  then show "\<exists>e s' st'. r4nv_semaphore_probe_permit s st = Some (e, s', st') \<and> probe_ready K ctx A s' st'"
    using step [of k "\<lambda>s. s\<lparr>sp_permit_sent := 1\<rparr>"] h b
    by (simp add: r4nv_semaphore_probe_permit_def nvkms_sema_up_def r4nv_semaphore_release_def)
qed

lemma cleanup_ends:
  assumes K: "kernel_heap_ok K" and quiet: "sema_quiet K ctx" and ready: "probe_ready K ctx A s st"
  obtains e s' st' where "r4nv_semaphore_probe_cleanup s st = Some (e, s', st')"
    "e = Returned 0 \<and> s' = s\<lparr>sp_semaphore := 0\<rparr> \<and> owns K A [sp_memory s] (s_heap st') \<or>
     (\<exists>x. e = Stopped x) \<and> s' = s \<and> n_first_fault (s_native st') \<noteq> 0"
proof -
  let ?q = "sp_semaphore s"
  obtain h where h: "h \<noteq> 0" "sema_box ?q (s_memory st) = Some (Some h)" "s_context st = Some ctx"
    "holds (s_memory st) (sp_memory s) (pattern_bytes 0 97)"
    using ready unfolding probe_ready_def by blast
  obtain code k where d: "ss_destroy ctx h (s_kernel st) = (code, k)" by (metis surj_pair)
  have "undisturbed K (s_kernel st) k" using quiet d unfolding sema_quiet_def by (metis snd_conv)
  then have r: "probe_ready K ctx A s (set_kernel k st)"
    by (intro ready_undisturbed [OF ready]) (simp_all add: set_kernel_def)
  have q0: "?q \<noteq> 0" using ready by (auto simp: probe_ready_def)
  have "\<exists>r st1. r4nv_semaphore_free ?q st = Some (r, st1) \<and> (r = 0 \<longrightarrow> owns K A [sp_memory s] (s_heap st1))"
  proof (cases "code = semaphore_ok")
    case False
    then have "r4nv_semaphore_free ?q st = Some (sema_result code (set_kernel k st))"
      using h(1-3) q0 d by (simp add: r4nv_semaphore_free_def)
    moreover have "fst (sema_result code (set_kernel k st)) \<noteq> 0"
      using False sema_result_codes [of code "set_kernel k st"] by (metis prod.collapse)
    ultimately show ?thesis by (metis prod.collapse)
  next
    case True
    let ?h = "s_heap (set_kernel k st)"
    define m where "m = put (h_memory ?h) ?q (quad_bytes 0)"
    have b: "owns K A [sp_memory s, ?q] ?h" "accessible (h_memory ?h) ?q 16" "span (sp_memory s - 16) 16 \<inter> span ?q 16 = {}"
      "16 \<le> unat ?q" "unat ?q + 16 \<le> 2 ^ 64" "h_context ?h = Some (kv_service K)"
      using r unfolding probe_ready_def by blast+
    have st: "store_bytes (h_memory ?h) ?q (quad_bytes 0) = Some m"
      unfolding m_def using accessible_mono [OF b(2), of 8] by (intro store_bytes_put) simp_all
    have "owns K A [?q, sp_memory s] (?h\<lparr>h_memory := m\<rparr>)"
    proof (rule owns_memory [OF owns_swap [OF b(1)]])
      fix p x assume "p \<in> set [?q, sp_memory s]" "x \<in> span (p - 16) 16"
      then have "x \<notin> span ?q 16" using b(3) block_parts(1) [OF b(4,5)] by auto
      then have "x \<notin> span ?q 8" by (auto simp: span_def)
      then show "m x = h_memory ?h x" unfolding m_def by (intro put_outside_span) simp
    qed
    moreover have "h_context (?h\<lparr>h_memory := m\<rparr>) = Some (kv_service K)" using b(6) by simp
    ultimately obtain ok h' where rel: "heap_release ?q (?h\<lparr>h_memory := m\<rparr>) = Some (ok, h')" "owns K A [sp_memory s] h'"
      using heap_release_honest [OF K, of "?h\<lparr>h_memory := m\<rparr>" A ?q "[sp_memory s]"] by blast
    have "set_kernel (h_world ?h, m) (set_kernel k st) = set_kernel k st\<lparr>s_heap := ?h\<lparr>h_memory := m\<rparr>\<rparr>"
      by (simp add: set_kernel_def)
    then have "r4nv_semaphore_free ?q st =
        Some (if ok then (0, set_kernel k st\<lparr>s_heap := h'\<rparr>) else sema_fault (set_kernel k st\<lparr>s_heap := h'\<rparr>))"
      using h(1-3) q0 d True st rel(1) by (simp add: r4nv_semaphore_free_def sema_heap_release_def)
    then show ?thesis using rel(2) by (cases ok) (simp_all add: sema_fault_def)
  qed
  then obtain r st1 where f: "r4nv_semaphore_free ?q st = Some (r, st1)" "r = 0 \<Longrightarrow> owns K A [sp_memory s] (s_heap st1)" by blast
  obtain e s' st' where v: "probe_void_flag (or_fault sema_native_fault R4NV_FAULT_SEMAPHORE_FREE (Some (r, st1))) s (\<lambda>s. s\<lparr>sp_semaphore := 0\<rparr>) 0 =
      Some (e, s', st')" "r = 0 \<Longrightarrow> e = Returned 0 \<and> s' = s\<lparr>sp_semaphore := 0\<rparr> \<and> st' = st1"
    "r \<noteq> 0 \<Longrightarrow> (\<exists>x. e = Stopped x) \<and> s' = s \<and> (R4NV_FAULT_SEMAPHORE_FREE \<noteq> 0 \<longrightarrow> n_first_fault (s_native st') \<noteq> 0)"
    by (rule void_flag_ends [of R4NV_FAULT_SEMAPHORE_FREE r st1 s "\<lambda>s. s\<lparr>sp_semaphore := 0\<rparr>" 0]) blast
  have "probe_intact 97 0 (s_memory st) (sp_memory s) = Some True" using probe_intact_holds [of _ _ 0 97] h(4) by simp
  then have "r4nv_semaphore_probe_cleanup s st = Some (e, s', st')"
    using f(1) v(1) by (simp add: r4nv_semaphore_probe_cleanup_def nvkms_sema_free_def)
  then show thesis using that v(2,3) f(2) by (cases "r = 0") auto
qed

text \<open>
  C11: The probe around its concurrent callbacks. On a kernel whose heap and semaphores leave the driver's memory
  alone, \<^verbatim>\<open>r4nv_semaphore_probe_setup\<close> returns, 0 or the line of the allocation the kernel refused. After a success, in
  every later state that other Tasks and the kernel have reached without touching memory in use,
  \<^verbatim>\<open>r4nv_semaphore_probe_cleanup\<close> finds the pattern it left: it never reports the block as damaged. Either it returns 0
  with the semaphore gone and the block still owned, for its owner to release, or it does not return, with
  the fault latched and the semaphore still recorded for a retry.
\<close>

theorem semaphore_probe_block_kept:
  assumes "kernel_heap_ok K" "h_context (s_heap st) = Some (kv_service K)" "s_context st = Some ctx" "sema_quiet K ctx"
  shows "\<exists>r s1 st1. r4nv_semaphore_probe_setup s st = Some (Returned r, s1, st1) \<and> r \<in> {0, - 44, - 47} \<and>
    (r = 0 \<longrightarrow> (\<forall>st2. undisturbed K (s_kernel st1) (s_kernel st2) \<and> s_context st2 = s_context st1 \<and>
        h_context (s_heap st2) = h_context (s_heap st1) \<longrightarrow>
      (\<exists>e s3 st3. r4nv_semaphore_probe_cleanup s1 st2 = Some (e, s3, st3) \<and>
        (e = Returned 0 \<and> s3 = s1\<lparr>sp_semaphore := 0\<rparr> \<and> owns K (kv_block K (h_world (s_heap st))) [sp_memory s1] (s_heap st3) \<or>
         (\<exists>x. e = Stopped x) \<and> s3 = s1 \<and> n_first_fault (s_native st3) \<noteq> 0))))"
proof -
  obtain r s1 st1 where s: "r4nv_semaphore_probe_setup s st = Some (Returned r, s1, st1)" "r \<in> {0, - 44, - 47}"
    "r = 0 \<Longrightarrow> probe_ready K ctx (kv_block K (h_world (s_heap st))) s1 st1"
    using setup_ready [OF assms] by blast
  have "\<exists>e s3 st3. r4nv_semaphore_probe_cleanup s1 st2 = Some (e, s3, st3) \<and>
        (e = Returned 0 \<and> s3 = s1\<lparr>sp_semaphore := 0\<rparr> \<and> owns K (kv_block K (h_world (s_heap st))) [sp_memory s1] (s_heap st3) \<or>
         (\<exists>x. e = Stopped x) \<and> s3 = s1 \<and> n_first_fault (s_native st3) \<noteq> 0)"
    if "r = 0" "undisturbed K (s_kernel st1) (s_kernel st2)" "s_context st2 = s_context st1" "h_context (s_heap st2) = h_context (s_heap st1)"
    for st2
    using cleanup_ends [OF assms(1,4) ready_undisturbed [OF s(3) [OF that(1)] that(2-4)]] by metis
  then show ?thesis using s(1,2) by blast
qed

text \<open>Semaphores without a waiter, over the kernel of slots.\<close>

definition slot_sema :: "NvU64 option list sema_service" where
  "slot_sema = \<lparr>ss_irq = (\<lambda>w. False), ss_sleepable = (\<lambda>w. True), ss_create = (\<lambda>n l k. (semaphore_ok, 9, k)),
     ss_destroy = (\<lambda>h k. (semaphore_ok, k)), ss_acquire = (\<lambda>h t k. (semaphore_ok, k)), ss_release = (\<lambda>h k. (semaphore_ok, k))\<rparr>"

definition slot_state :: "NvU64 option list sema_state" where
  "slot_state = \<lparr>s_context = Some slot_sema, s_failures = 0,
     s_heap = \<lparr>h_context = Some slot_service, h_failed_releases = 0, h_world = [], h_memory = (\<lambda>x. None)\<rparr>,
     s_native = \<lparr>n_threads = True, n_admitted = True, n_first_fault = 0, n_faults = 0\<rparr>\<rparr>"

definition slot_probe :: R4NvSemaphoreProbe where
  "slot_probe = \<lparr>sp_memory = 0, sp_semaphore = 0, sp_after_fault = 0, sp_after_wait = 0, sp_permit_sent = 0\<rparr>"

lemma slot_sema_quiet: "sema_quiet slot_view slot_sema"
  by (simp add: sema_quiet_def slot_sema_def undisturbed_def)

text \<open>On it the set-up succeeds.\<close>

lemma slot_setup:
  assumes "r4nv_semaphore_probe_setup slot_probe slot_state = Some (Returned r, s1, st1)"
  shows "r = 0"
proof -
  have eq: "max 97 1 = (97 :: NvU64)" "max 16 1 = (16 :: NvU64)" by (simp_all add: max_def word_le_nat_alt)
  have ok: "slots_ok [Some 113]" "slots_ok [Some 113, Some 32]" by (auto simp: slots_ok_def)
  have nz: "slot i + 16 \<noteq> 0" if "i < 1000" for i
  proof -
    have "unat (slot i + 16) = unat (slot i) + 16" using unat_slot [OF that] that by (intro trans [OF unat_add_nowrap]) simp_all
    then show ?thesis by auto
  qed
  obtain h where a: "r4nv_heap_allocate 97 (s_heap slot_state) = Some (slot 0 + 16, h)" "h_context h = Some slot_service" "h_world h = [Some 113]"
    using slot_grants [of "s_heap slot_state" 97] ok(1) by (auto simp: slot_state_def eq)
  obtain m where m: "probe_fill 97 0 (h_memory h) (slot 0 + 16) = Some m"
    using assms nz [of 0] by (auto simp: r4nv_semaphore_probe_setup_def os_alloc_mem_def a(1) simp del: probe_fill.simps split: bind_splits)
  define st where "st = set_kernel (h_world h, m) (slot_state\<lparr>s_heap := h\<rparr>)"
  have st: "s_heap st = h\<lparr>h_memory := m\<rparr>" "s_context st = Some slot_sema" "s_failures st = 0"
    by (simp_all add: st_def set_kernel_def slot_state_def)
  obtain h2 where b: "r4nv_heap_allocate 16 (s_heap st) = Some (slot 1 + 16, h2)"
    using slot_grants [of "s_heap st" 16] ok(2) a by (auto simp: st eq)
  have r: "r4nv_semaphore_probe_setup slot_probe slot_state =
      do { (semaphore, st) \<leftarrow> r4nv_semaphore_create 0 st;
           Some (Returned (if semaphore \<noteq> 0 then 0 else - 47), slot_probe\<lparr>sp_memory := slot 0 + 16, sp_semaphore := semaphore\<rparr>, st) }"
    using nz [of 0] by (simp add: r4nv_semaphore_probe_setup_def os_alloc_mem_def os_alloc_semaphore_def a(1) m st_def [symmetric] del: probe_fill.simps)
  have "sema_available st" using st a(2) by (simp add: sema_available_def heap_available_def)
  moreover have "ss_sleepable slot_sema w" "ss_create slot_sema n l k = (semaphore_ok, 9, k)" for w n l k by (simp_all add: slot_sema_def)
  ultimately have "r4nv_semaphore_create 0 st = Some (q, st') \<Longrightarrow> q = slot 1 + 16" for q st'
    using b st(2) nz [of 1] by (auto simp: r4nv_semaphore_create_def Let_def split: bind_splits)
  then show ?thesis using assms nz [of 1] unfolding r by (auto split: bind_splits)
qed

theorem semaphore_probe_block_kept_witness:
  "\<exists>s1 st1. r4nv_semaphore_probe_setup slot_probe slot_state = Some (Returned 0, s1, st1) \<and>
    (\<exists>e s3 st3. r4nv_semaphore_probe_cleanup s1 st1 = Some (e, s3, st3) \<and>
        (e = Returned 0 \<and> s3 = s1\<lparr>sp_semaphore := 0\<rparr> \<and> owns slot_view (kv_block slot_view []) [sp_memory s1] (s_heap st3) \<or>
         (\<exists>x. e = Stopped x) \<and> s3 = s1 \<and> n_first_fault (s_native st3) \<noteq> 0))"
proof -
  have "h_context (s_heap slot_state) = Some (kv_service slot_view)" "s_context slot_state = Some slot_sema" "h_world (s_heap slot_state) = []"
    by (simp_all add: slot_state_def slot_view_def)
  with semaphore_probe_block_kept [OF slot_kernel_ok this(1,2) slot_sema_quiet, of slot_probe] obtain r s1 st1 where
    s: "r4nv_semaphore_probe_setup slot_probe slot_state = Some (Returned r, s1, st1)"
    and c: "\<And>st2. r = 0 \<Longrightarrow> undisturbed slot_view (s_kernel st1) (s_kernel st2) \<and> s_context st2 = s_context st1 \<and>
        h_context (s_heap st2) = h_context (s_heap st1) \<Longrightarrow>
      (\<exists>e s3 st3. r4nv_semaphore_probe_cleanup s1 st2 = Some (e, s3, st3) \<and>
        (e = Returned 0 \<and> s3 = s1\<lparr>sp_semaphore := 0\<rparr> \<and> owns slot_view (kv_block slot_view []) [sp_memory s1] (s_heap st3) \<or>
         (\<exists>x. e = Stopped x) \<and> s3 = s1 \<and> n_first_fault (s_native st3) \<noteq> 0))"
    by auto
  have "r = 0" by (rule slot_setup [OF s])
  moreover have "undisturbed slot_view (s_kernel st1) (s_kernel st1)" by (simp add: undisturbed_def)
  ultimately show ?thesis using s c [of st1] by blast
qed

end
