(* ===== verification/Rm_Clock.thy ===== *)
theory Rm_Clock
  imports Prelude
begin
unbundle bit_operations_syntax

text \<open>
  The monotonic clock bridge: the provider \<^verbatim>\<open>src/rm_clock.zig\<close> and the adapters of \<^verbatim>\<open>os_clock.c\<close> and
  \<^verbatim>\<open>nvkms_clock.c\<close>. The kernel's clock is external: one function for the metadata and one for a reading, on
  the kernel's state. The all-ones value stands for a reading that is not available.
\<close>

section \<open>Definitions\<close>

abbreviation (input) unavailable :: NvU64 where "unavailable \<equiv> 0xFFFFFFFFFFFFFFFF"

text \<open>
  The metadata record, with the comparisons against constants of the kernel's interface as flags: the
  call succeeded, the size is the structure's, both required flags are set, the frequency is the
  documented one, the source is known, the source is the periodic timer.
\<close>

record clock_info =
  ci_called :: bool
  ci_version :: NvU32
  ci_size_ok :: bool
  ci_flags_ok :: bool
  ci_frequency_ok :: bool
  ci_resolution_ns :: NvU64
  ci_instant_ns :: NvU64
  ci_source_known :: bool
  ci_periodic :: bool

record 'w clock_service =
  cs_info :: "'w \<Rightarrow> clock_info \<times> 'w"
  cs_now :: "'w \<Rightarrow> NvU64 \<times> 'w"

text \<open>
  The module's variables and the kernel's state. The list of the readings taken from the kernel's clock
  since the binding, the newest last, is there to speak about time.
\<close>

record 'w clock_state =
  c_context :: "'w clock_service option"
  c_fast :: bool
  c_failed :: bool
  c_world :: 'w
  c_readings :: "NvU64 list"

definition clock_available :: "'w clock_state \<Rightarrow> bool" where
  "clock_available st = (c_context st \<noteq> None \<and> \<not> c_failed st)"

definition clock_invalidate :: "'w clock_state \<Rightarrow> 'w clock_state" where
  "clock_invalidate st = st\<lparr>c_failed := True\<rparr>"

definition snapshot :: "'w clock_state \<Rightarrow> clock_info option \<times> 'w clock_state" where
  "snapshot st =
     (case c_context st of
        None \<Rightarrow> (None, st)
      | Some ctx \<Rightarrow>
          if c_failed st then (None, st)
          else let (info, w) = cs_info ctx (c_world st); st = st\<lparr>c_world := w\<rparr> in
            if \<not> ci_called info \<or> ci_version info \<noteq> 1 \<or> \<not> ci_size_ok info \<or> \<not> ci_flags_ok info \<or>
               \<not> ci_frequency_ok info \<or> ci_resolution_ns info = 0 \<or> ci_resolution_ns info = unavailable \<or>
               ci_instant_ns info = unavailable \<or> \<not> ci_source_known info
            then (None, st\<lparr>c_failed := True\<rparr>)
            else (Some info, st))"

definition r4nv_clock_now_ns :: "'w clock_state \<Rightarrow> NvU64 \<times> 'w clock_state" where
  "r4nv_clock_now_ns st =
     (case c_context st of
        None \<Rightarrow> (unavailable, st)
      | Some ctx \<Rightarrow>
          if c_failed st then (unavailable, st)
          else let (now, st) =
              (if c_fast st then (let (t, w) = cs_now ctx (c_world st) in
                 (t, st\<lparr>c_world := w, c_readings := c_readings st @ [t]\<rparr>))
               else (unavailable, st)) in
            (now, if now = unavailable then st\<lparr>c_failed := True\<rparr> else st))"

definition r4nv_clock_resolution_ns :: "'w clock_state \<Rightarrow> NvU64 \<times> 'w clock_state" where
  "r4nv_clock_resolution_ns st =
     (let (value, st) = snapshot st in (case value of Some info \<Rightarrow> ci_resolution_ns info | None \<Rightarrow> unavailable, st))"

definition clock_bind :: "'w clock_service \<Rightarrow> bool \<Rightarrow> 'w clock_state \<Rightarrow> 'w clock_state" where
  "clock_bind ctx fast st =
     snd (r4nv_clock_now_ns (snd (snapshot (st\<lparr>c_context := Some ctx, c_fast := fast, c_failed := False, c_readings := []\<rparr>))))"

definition clock_unbind :: "'w clock_state \<Rightarrow> 'w clock_state" where
  "clock_unbind st = st\<lparr>c_context := None, c_fast := False, c_failed := True\<rparr>"

subsection \<open>The adapters\<close>

text \<open>Defined over the two functions \<^verbatim>\<open>clock.h\<close> declares.\<close>

definition os_get_current_tick :: "('s \<Rightarrow> NvU64 \<times> 's) \<Rightarrow> 's \<Rightarrow> NvU64 \<times> 's" where
  "os_get_current_tick now st = now st"

definition os_get_current_tick_hr :: "('s \<Rightarrow> NvU64 \<times> 's) \<Rightarrow> 's \<Rightarrow> NvU64 \<times> 's" where
  "os_get_current_tick_hr now st = now st"

definition os_get_tick_resolution :: "('s \<Rightarrow> NvU64 \<times> 's) \<Rightarrow> 's \<Rightarrow> NvU64 \<times> 's" where
  "os_get_tick_resolution resolution st = resolution st"

definition nvkms_get_usec :: "('s \<Rightarrow> NvU64 \<times> 's) \<Rightarrow> 's \<Rightarrow> NvU64 \<times> 's" where
  "nvkms_get_usec now st = (let (t, st) = now st in (if t = unavailable then unavailable else t div 1000, st))"

section \<open>The contract of a clock\<close>

text \<open>
  A clock that latches: after a reading that is not available there is none, whichever of the two
  functions is called.
\<close>

locale latching_clock =
  fixes now :: "'s \<Rightarrow> NvU64 \<times> 's"
    and resolution :: "'s \<Rightarrow> NvU64 \<times> 's"
    and dead :: "'s \<Rightarrow> bool"
  assumes now_dead: "fst (now s) = unavailable \<Longrightarrow> dead (snd (now s))"
    and resolution_dead: "fst (resolution s) = unavailable \<Longrightarrow> dead (snd (resolution s))"
    and dead_now: "dead s \<Longrightarrow> now s = (unavailable, s)"
    and dead_resolution: "dead s \<Longrightarrow> resolution s = (unavailable, s)"
begin

lemma usec_unavailable: "fst (nvkms_get_usec now s) = unavailable \<longleftrightarrow> fst (now s) = unavailable"
proof -
  have "t div 1000 \<noteq> unavailable" for t :: NvU64
  proof
    assume "t div 1000 = unavailable"
    then have "unat t div 1000 = 2 ^ 64 - 1" using unat_div_distrib [of t 1000] by simp
    moreover have "unat t < 2 ^ 64" using unsigned_less [of t, where 'a = nat] by simp
    ultimately show False by simp
  qed
  then show ?thesis by (simp add: nvkms_get_usec_def split: prod.split)
qed

lemma usec_value: "fst (now s) \<noteq> unavailable \<Longrightarrow> unat (fst (nvkms_get_usec now s)) = unat (fst (now s)) div 1000"
  by (cases "now s") (simp add: nvkms_get_usec_def unat_div_distrib)

lemma dead_clock_adapters:
  assumes "dead s"
  shows "os_get_current_tick now s = (unavailable, s)" "os_get_current_tick_hr now s = (unavailable, s)"
    "os_get_tick_resolution resolution s = (unavailable, s)" "nvkms_get_usec now s = (unavailable, s)"
  using dead_now [OF assms] dead_resolution [OF assms]
  by (simp_all add: os_get_current_tick_def os_get_current_tick_hr_def os_get_tick_resolution_def nvkms_get_usec_def)

end

interpretation rm_clock: latching_clock r4nv_clock_now_ns r4nv_clock_resolution_ns "\<lambda>st. \<not> clock_available st"
proof
  fix s :: "'w clock_state"
  show "fst (r4nv_clock_now_ns s) = unavailable \<Longrightarrow> \<not> clock_available (snd (r4nv_clock_now_ns s))"
    by (auto simp: r4nv_clock_now_ns_def clock_available_def Let_def split: option.splits prod.splits if_splits)
  show "fst (r4nv_clock_resolution_ns s) = unavailable \<Longrightarrow> \<not> clock_available (snd (r4nv_clock_resolution_ns s))"
    by (auto simp: r4nv_clock_resolution_ns_def snapshot_def clock_available_def Let_def split: option.splits prod.splits if_splits)
  show "\<not> clock_available s \<Longrightarrow> r4nv_clock_now_ns s = (unavailable, s)"
    by (auto simp: r4nv_clock_now_ns_def clock_available_def split: option.splits)
  show "\<not> clock_available s \<Longrightarrow> r4nv_clock_resolution_ns s = (unavailable, s)"
    by (auto simp: r4nv_clock_resolution_ns_def snapshot_def clock_available_def split: option.splits)
qed

section \<open>Properties\<close>

text \<open>The operations of a bound clock.\<close>

inductive clock_step :: "'w clock_state \<Rightarrow> 'w clock_state \<Rightarrow> bool" where
  now: "clock_step st (snd (r4nv_clock_now_ns st))"
| resolution: "clock_step st (snd (r4nv_clock_resolution_ns st))"
| snapshot: "clock_step st (snd (snapshot st))"
| invalidate: "clock_step st (clock_invalidate st)"
| unbind: "clock_step st (clock_unbind st)"

lemma clock_step_dead: "clock_step st st' \<Longrightarrow> \<not> clock_available st \<Longrightarrow> \<not> clock_available st'"
  by (induction rule: clock_step.induct)
    (auto simp: rm_clock.dead_now rm_clock.dead_resolution snapshot_def clock_available_def clock_invalidate_def clock_unbind_def
      split: option.split)

text \<open>
  A lost clock stays lost. After a reading that is not available, through any sequence of operations
  short of a new binding, every clock adapter reports an unavailable value, never an old or a divided one.
\<close>

theorem clock_fault_latched:
  assumes "fst (r4nv_clock_now_ns st) = unavailable" "clock_step\<^sup>*\<^sup>* (snd (r4nv_clock_now_ns st)) st'"
  shows "fst (os_get_current_tick r4nv_clock_now_ns st') = unavailable \<and>
    fst (os_get_current_tick_hr r4nv_clock_now_ns st') = unavailable \<and>
    fst (os_get_tick_resolution r4nv_clock_resolution_ns st') = unavailable \<and>
    fst (nvkms_get_usec r4nv_clock_now_ns st') = unavailable"
proof -
  have "\<not> clock_available st'"
    using assms(2) by (induction rule: rtranclp_induct) (use rm_clock.now_dead [OF assms(1)] clock_step_dead in blast)+
  then show ?thesis using rm_clock.dead_clock_adapters by (metis fst_conv)
qed

definition sample_clock :: "NvU64 clock_state" where
  "sample_clock = \<lparr>c_context = Some \<lparr>cs_info = (\<lambda>w. (\<lparr>ci_called = True, ci_version = 1, ci_size_ok = True, ci_flags_ok = True,
     ci_frequency_ok = True, ci_resolution_ns = 100, ci_instant_ns = w, ci_source_known = True, ci_periodic = False\<rparr>, w)),
     cs_now = (\<lambda>w. (w, w + 2500))\<rparr>, c_fast = True, c_failed = False, c_world = 10000, c_readings = []\<rparr>"

theorem clock_fault_latched_witness:
  "fst (nvkms_get_usec r4nv_clock_now_ns (clock_invalidate (sample_clock\<lparr>c_fast := False, c_failed := True\<rparr>))) = unavailable"
proof -
  let ?st = "sample_clock\<lparr>c_fast := False\<rparr>"
  have "fst (r4nv_clock_now_ns ?st) = unavailable" "snd (r4nv_clock_now_ns ?st) = sample_clock\<lparr>c_fast := False, c_failed := True\<rparr>"
    by (simp_all add: r4nv_clock_now_ns_def sample_clock_def)
  then show ?thesis using clock_fault_latched [of ?st] clock_step.invalidate by (metis r_into_rtranclp)
qed

text \<open>
  A microsecond reading is the quotient of the nanosecond reading it comes from, and unavailable
  exactly when that is.
\<close>

theorem usec_reading:
  "if fst (r4nv_clock_now_ns st) = unavailable then fst (nvkms_get_usec r4nv_clock_now_ns st) = unavailable
   else fst (nvkms_get_usec r4nv_clock_now_ns st) \<noteq> unavailable \<and>
     unat (fst (nvkms_get_usec r4nv_clock_now_ns st)) = unat (fst (r4nv_clock_now_ns st)) div 1000"
  using rm_clock.usec_unavailable [of st] rm_clock.usec_value [of st] by simp

end
