(* ===== verification/Rm_Wait.thy ===== *)
theory Rm_Wait
  imports Rm_Clock Rm_Native
begin
unbundle bit_operations_syntax

text \<open>
  Waiting: the policy of \<^verbatim>\<open>src/wait_policy.zig\<close>, the provider \<^verbatim>\<open>src/rm_wait.zig\<close> and the adapters of \<^verbatim>\<open>os_wait.c\<close>
  and \<^verbatim>\<open>nvkms_wait.c\<close>. The policy is generic in its four operations, as in the source; the provider runs it
  over the monotonic clock and the kernel's timer and thread services, which are external functions on
  the kernel's state.
\<close>

section \<open>The policy\<close>

datatype wait_result = W_ok | W_invalid | W_context | W_cancelled | W_deadline | W_clock

datatype wait_mode = Busy | Adaptive | Sleep

record wait_options =
  wo_duration_ns :: NvU64
  wo_deadline_ns :: NvU64
  wo_mode :: wait_mode
  wo_frequency_hz :: NvU32
  wo_sleepable :: bool
  wo_irq :: bool
  wo_free_running :: bool
  wo_stalled_read_limit :: NvU32

record 's wait_ops =
  op_now :: "'s \<Rightarrow> NvU64 \<times> 's"
  op_check_stop :: "'s \<Rightarrow> wait_result \<times> 's"
  op_sleep_ticks :: "NvU64 \<Rightarrow> 's \<Rightarrow> wait_result \<times> 's"
  op_relax :: "'s \<Rightarrow> 's"

abbreviation (input) ns_per_s :: nat where "ns_per_s \<equiv> 1000000000"

definition may_sleep :: "wait_options \<Rightarrow> bool" where
  "may_sleep opts = (wo_mode opts \<noteq> Busy \<and> wo_sleepable opts)"

text \<open>The ticks of a remaining time, in 128 bits and never the reserved largest value.\<close>

definition wait_ticks :: "wait_options \<Rightarrow> NvU64 \<Rightarrow> NvU64" where
  "wait_ticks opts remaining =
     (if may_sleep opts
      then of_nat (min (unat remaining * unat (wo_frequency_hz opts) div ns_per_s) (2 ^ 64 - 2)) else 0)"

text \<open>One wait before the next reading: a check for a stop now and then, then sleep or spin.\<close>

definition wait_pause :: "'s wait_ops \<Rightarrow> wait_options \<Rightarrow> NvU64 \<Rightarrow> NvU64 \<Rightarrow> 's \<Rightarrow> wait_result \<times> 's" where
  "wait_pause ops opts remaining polls st =
     (let (stop, st) = (if polls AND 4095 = 0 \<and> \<not> wo_irq opts then op_check_stop ops st else (W_ok, st)) in
      if stop \<noteq> W_ok then (stop, st)
      else let ticks = wait_ticks opts remaining in
        if ticks \<noteq> 0 then op_sleep_ticks ops ticks st else (W_ok, op_relax ops st))"

function wait_loop :: "'s wait_ops \<Rightarrow> wait_options \<Rightarrow> NvU64 \<Rightarrow> NvU64 \<Rightarrow> NvU32 \<Rightarrow> NvU64 \<Rightarrow> 's \<Rightarrow> wait_result \<times> 's" where
  "wait_loop ops opts limit now stalled polls st =
     (if now < limit then
        (case wait_pause ops opts (limit - now) polls st of
           (paused, st) \<Rightarrow>
             if paused \<noteq> W_ok then (paused, st)
             else (case op_now ops st of
                 (nxt, st) \<Rightarrow>
                   if nxt = unavailable \<or> nxt < now then (W_clock, st)
                   else if nxt = now then
                     (if stalled \<ge> wo_stalled_read_limit opts then (W_clock, st)
                      else wait_loop ops opts limit nxt (stalled + 1) (polls + 1) st)
                   else wait_loop ops opts limit nxt 0 (polls + 1) st))
      else (if wo_deadline_ns opts \<noteq> 0 \<and> now \<ge> wo_deadline_ns opts then W_deadline else W_ok, st))"
  by pat_completeness auto

text \<open>
  The loop ends whatever the operations do: each reading is later than the one before, or the count of
  equal ones grows towards its limit.
\<close>

termination
proof (relation "measures [\<lambda>(ops, opts, limit, now, stalled, polls, st). unat limit - unat now,
    \<lambda>(ops, opts, limit, now, stalled, polls, st). unat (wo_stalled_read_limit opts) - unat stalled]", goal_cases)
  case (2 ops opts limit now stalled polls st x y xa ya)
  then have "stalled < wo_stalled_read_limit opts" by simp
  then have lt: "unat stalled < unat (wo_stalled_read_limit opts)" by (simp add: word_less_nat_alt)
  then have "unat (stalled + 1) = unat stalled + 1"
    using unsigned_less [of "wo_stalled_read_limit opts", where 'a = nat] by (subst unat_add_nowrap) simp_all
  then show ?case using 2 lt by (simp add: word_less_nat_alt)
next
  case (3 ops opts limit now stalled polls st x y xa ya)
  then have "now < xa" "now < limit" by auto
  then have "unat limit - unat xa < unat limit - unat now" by (simp add: word_less_nat_alt diff_less_mono2)
  then show ?case by simp
qed simp

declare wait_loop.simps [simp del]

definition wait_run :: "'s wait_ops \<Rightarrow> wait_options \<Rightarrow> 's \<Rightarrow> wait_result \<times> 's" where
  "wait_run ops opts st =
     (if wo_mode opts = Sleep \<and> \<not> wo_sleepable opts then (W_context, st)
      else if wo_irq opts \<and> wo_duration_ns opts > 20000000 then (W_context, st)
      else let (now, st) = op_now ops st in
        if now = unavailable then (W_clock, st)
        else if wo_deadline_ns opts \<noteq> 0 \<and> now \<ge> wo_deadline_ns opts then (W_deadline, st)
        else if unat now + unat (wo_duration_ns opts) \<ge> 2 ^ 64 then (W_invalid, st)
        else let end = now + wo_duration_ns opts in
          if end = unavailable then (W_invalid, st)
          else let limit = (if wo_deadline_ns opts = 0 then end else min end (wo_deadline_ns opts)) in
            if may_sleep opts \<and> wo_frequency_hz opts = 0 then (W_clock, st)
            else if now < limit \<and> \<not> wo_sleepable opts \<and> \<not> wo_free_running opts then (W_clock, st)
            else wait_loop ops opts limit now 0 0 st)"


section \<open>The provider\<close>

text \<open>
  The kernel's services the provider uses: the timer frequency, the two context flags as the semaphore
  module reports them, the current thread's handle (0 when there is none), the native module's thread
  service with the constants of its interface, the stop request of a thread, the two ways to sleep.
  \<open>ws_deadline_at\<close> reads memory of the caller: the field \<^verbatim>\<open>deadline_ns\<close> of the \<^verbatim>\<open>Invocation\<close> at an address, which its
  owner keeps unchanged until the Task has retired.
\<close>

datatype thread_sleep = Slept | SleepCancelled | SleepFailed

record 'w wait_service =
  ws_frequency :: "'w \<Rightarrow> NvU32"
  ws_irq :: "'w \<Rightarrow> bool"
  ws_sleepable :: "'w \<Rightarrow> bool"
  ws_current :: "'w \<Rightarrow> NvU64"
  ws_abi :: thread_abi
  ws_native :: "'w thread_service"
  ws_deadline_at :: "NvU64 \<Rightarrow> NvU64"
  ws_stop_requested :: "NvU64 \<Rightarrow> 'w \<Rightarrow> bool option"
  ws_thread_sleep :: "NvU64 \<Rightarrow> 'w \<Rightarrow> thread_sleep \<times> 'w"
  ws_wait_ticks :: "NvU64 \<Rightarrow> 'w \<Rightarrow> 'w"

text \<open>The module's variables with the clock module's, which hold the kernel's state.\<close>

record 'w wait_state =
  w_context :: "'w wait_service option"
  w_threads :: bool
  w_sleep_calls :: NvU64
  w_spin_calls :: NvU64
  w_yield_calls :: NvU64
  w_clock :: "'w clock_state"
  w_native :: native_state

definition wait_bind :: "'w wait_service \<Rightarrow> bool \<Rightarrow> 'w wait_state \<Rightarrow> 'w wait_state" where
  "wait_bind ctx threads st =
     st\<lparr>w_context := Some ctx, w_threads := threads, w_sleep_calls := 0, w_spin_calls := 0, w_yield_calls := 0\<rparr>"

definition wait_unbind :: "'w wait_state \<Rightarrow> 'w wait_state" where
  "wait_unbind st = st\<lparr>w_context := None, w_threads := False\<rparr>"

abbreviation w_world :: "'w wait_state \<Rightarrow> 'w" where
  "w_world st \<equiv> c_world (w_clock st)"

abbreviation set_w_world :: "'w \<Rightarrow> 'w wait_state \<Rightarrow> 'w wait_state" where
  "set_w_world w st \<equiv> st\<lparr>w_clock := (w_clock st)\<lparr>c_world := w\<rparr>\<rparr>"

text \<open>The operations carry the thread's handle and a saturating count of spins.\<close>

type_synonym 'w wait_call = "NvU64 \<times> 'w wait_state"

definition ops_now :: "'w wait_call \<Rightarrow> NvU64 \<times> 'w wait_call" where
  "ops_now call =
     (let (spins, st) = call; (t, c) = r4nv_clock_now_ns (w_clock st) in (t, spins, st\<lparr>w_clock := c\<rparr>))"

definition ops_check_stop :: "'w wait_service \<Rightarrow> NvU64 \<Rightarrow> 'w wait_call \<Rightarrow> wait_result \<times> 'w wait_call" where
  "ops_check_stop ctx handle call =
     (if handle = 0 then (W_ok, call)
      else (case ws_stop_requested ctx handle (w_world (snd call)) of
          None \<Rightarrow> (W_context, call)
        | Some requested \<Rightarrow> (if requested then W_cancelled else W_ok, call)))"

definition ops_sleep_ticks :: "'w wait_service \<Rightarrow> NvU64 \<Rightarrow> NvU64 \<Rightarrow> 'w wait_call \<Rightarrow> wait_result \<times> 'w wait_call" where
  "ops_sleep_ticks ctx handle ticks call =
     (let (spins, st) = call;
          st = (if ticks = 0 then st\<lparr>w_yield_calls := w_yield_calls st + 1\<rparr>
                else st\<lparr>w_sleep_calls := w_sleep_calls st + 1\<rparr>) in
      if handle \<noteq> 0 then
        (let (r, w) = ws_thread_sleep ctx ticks (w_world st) in
         (case r of Slept \<Rightarrow> W_ok | SleepCancelled \<Rightarrow> W_cancelled | SleepFailed \<Rightarrow> W_context, spins, set_w_world w st))
      else if ticks = 0 then (W_context, spins, st)
      else (W_ok, spins, set_w_world (ws_wait_ticks ctx ticks (w_world st)) st))"

definition ops_relax :: "'w wait_call \<Rightarrow> 'w wait_call" where
  "ops_relax call = (let (spins, st) = call in (if spins = - 1 then spins else spins + 1, st))"

definition rm_ops :: "'w wait_service \<Rightarrow> NvU64 \<Rightarrow> 'w wait_call wait_ops" where
  "rm_ops ctx handle =
     \<lparr>op_now = ops_now, op_check_stop = ops_check_stop ctx handle, op_sleep_ticks = ops_sleep_ticks ctx handle,
      op_relax = ops_relax\<rparr>"

definition result_code :: "wait_result \<Rightarrow> NvU32" where
  "result_code r = (case r of W_ok \<Rightarrow> 0 | W_invalid \<Rightarrow> 1 | W_context \<Rightarrow> 2 | W_cancelled \<Rightarrow> 3 | W_deadline \<Rightarrow> 4 | W_clock \<Rightarrow> 5)"

definition wait_finish :: "wait_result \<Rightarrow> 'w wait_state \<Rightarrow> NvU32 \<times> 'w wait_state" where
  "wait_finish r st = (result_code r, if r = W_clock then st\<lparr>w_clock := clock_invalidate (w_clock st)\<rparr> else st)"

definition wait_mode_of :: "NvU32 \<Rightarrow> wait_mode option" where
  "wait_mode_of m = (if m = 0 then Some Busy else if m = 1 then Some Adaptive else if m = 2 then Some Sleep else None)"

text \<open>The call of \<^verbatim>\<open>native.currentInvocation\<close>, and the deadline both callers read from what it returns.\<close>

definition wait_invocation :: "'w wait_service \<Rightarrow> 'w wait_state \<Rightarrow> NvU64 option" where
  "wait_invocation ctx st = currentInvocation (ws_abi ctx) (ws_native ctx) (n_threads (w_native st)) (w_world st)"

definition deadline_of :: "'w wait_service \<Rightarrow> NvU64 option \<Rightarrow> NvU64" where
  "deadline_of ctx invocation = (case invocation of Some call \<Rightarrow> ws_deadline_at ctx call | None \<Rightarrow> 0)"

definition r4nv_wait_ns :: "NvU64 \<Rightarrow> NvU32 \<Rightarrow> 'w wait_state \<Rightarrow> NvU32 \<times> 'w wait_state" where
  "r4nv_wait_ns nanoseconds mode_raw st =
     (case wait_mode_of mode_raw of
        None \<Rightarrow> wait_finish W_invalid st
      | Some mode \<Rightarrow>
          (case w_context st of
             None \<Rightarrow> wait_finish W_context st
           | Some ctx \<Rightarrow>
               let (source, c) = snapshot (w_clock st); st = st\<lparr>w_clock := c\<rparr> in
               (case source of
                  None \<Rightarrow> wait_finish W_clock st
                | Some info \<Rightarrow>
                    let irq = ws_irq ctx (w_world st);
                        invocation = (if irq then None else wait_invocation ctx st);
                        handle = (if \<not> irq \<and> w_threads st then ws_current ctx (w_world st) else 0);
                        (result, spins, st) = wait_run (rm_ops ctx handle)
                          \<lparr>wo_duration_ns = nanoseconds,
                           wo_deadline_ns = deadline_of ctx invocation,
                           wo_mode = mode,
                           wo_frequency_hz = ws_frequency ctx (w_world st),
                           wo_sleepable = ws_sleepable ctx (w_world st),
                           wo_irq = irq,
                           wo_free_running = (\<not> ci_periodic info),
                           wo_stalled_read_limit = 1024 * 1024\<rparr> (0, st)
                    in wait_finish result (st\<lparr>w_spin_calls := w_spin_calls st + spins\<rparr>))))"

definition r4nv_schedule :: "NvU64 \<Rightarrow> 'w wait_state \<Rightarrow> NvU32 \<times> 'w wait_state" where
  "r4nv_schedule ticks st =
     (case w_context st of
        None \<Rightarrow> wait_finish W_context st
      | Some ctx \<Rightarrow>
          if ticks > 1 then wait_finish W_invalid st
          else if ticks = 1 then
            (let hz = ws_frequency ctx (w_world st) in
             if hz = 0 then wait_finish W_clock st
             else r4nv_wait_ns ((1000000000 + ucast hz - 1) div ucast hz) 2 st)
          else if \<not> ws_sleepable ctx (w_world st) then wait_finish W_context st
          else
            let invocation = wait_invocation ctx st;
                deadline = deadline_of ctx invocation;
                handle = (if w_threads st then ws_current ctx (w_world st) else 0);
                (before, call) = ops_now (0, st) in
            if before = unavailable then wait_finish W_clock (snd call)
            else if deadline \<noteq> 0 \<and> before \<ge> deadline then wait_finish W_deadline (snd call)
            else let (result, call) = ops_sleep_ticks ctx handle 0 call in
              if result \<noteq> W_ok then wait_finish result (snd call)
              else let (after, call) = ops_now call in
                if after = unavailable \<or> after < before then wait_finish W_clock (snd call)
                else wait_finish (if deadline \<noteq> 0 \<and> after \<ge> deadline then W_deadline else W_ok) (snd call))"

section \<open>The adapters\<close>

definition wait_status :: "NvU32 \<Rightarrow> NV_STATUS" where
  "wait_status value =
     (if value = 0 then NV_OK
      else if value = 1 then NV_ERR_INVALID_ARGUMENT
      else if value = 2 then NV_ERR_ILLEGAL_ACTION
      else if value = 3 then NV_ERR_SIGNAL_PENDING
      else if value = 4 then NV_ERR_TIMEOUT
      else NV_ERR_INVALID_STATE)"

definition os_delay_us :: "(NvU64 \<Rightarrow> NvU32 \<Rightarrow> 's \<Rightarrow> NvU32 \<times> 's) \<Rightarrow> NvU32 \<Rightarrow> 's \<Rightarrow> NV_STATUS \<times> 's" where
  "os_delay_us wait_ns microseconds st = (let (r, st) = wait_ns (ucast microseconds * 1000) 0 st in (wait_status r, st))"

definition os_delay :: "(NvU64 \<Rightarrow> NvU32 \<Rightarrow> 's \<Rightarrow> NvU32 \<times> 's) \<Rightarrow> NvU32 \<Rightarrow> 's \<Rightarrow> NV_STATUS \<times> 's" where
  "os_delay wait_ns milliseconds st = (let (r, st) = wait_ns (ucast milliseconds * 1000000) 1 st in (wait_status r, st))"

definition os_schedule :: "(NvU64 \<Rightarrow> 's \<Rightarrow> NvU32 \<times> 's) \<Rightarrow> 's \<Rightarrow> NV_STATUS \<times> 's" where
  "os_schedule schedule st = (let (r, st) = schedule 1 st in (wait_status r, st))"

definition nvkms_usleep ::
  "(NvU64 \<Rightarrow> NvU32 \<Rightarrow> 's \<Rightarrow> NvU32 \<times> 's) \<Rightarrow> (NvU32 \<Rightarrow> NvU32 \<Rightarrow> 's \<Rightarrow> stop \<times> 's) \<Rightarrow> NvU64 \<Rightarrow> 's \<Rightarrow> unit outcome \<times> 's" where
  "nvkms_usleep wait_ns fault usec st =
     (if usec > 0xFFFFFFFFFFFFFFFF div 1000 then (let (s, st) = fault R4NV_FAULT_WAIT 1 st in (Stopped s, st))
      else let (result, st) = wait_ns (usec * 1000) (if usec < 1000 then 0 else 2) st in
        if result \<noteq> 0 then (let (s, st) = fault R4NV_FAULT_WAIT result st in (Stopped s, st))
        else (Returned (), st))"

definition nvkms_yield ::
  "(NvU64 \<Rightarrow> 's \<Rightarrow> NvU32 \<times> 's) \<Rightarrow> (NvU32 \<Rightarrow> NvU32 \<Rightarrow> 's \<Rightarrow> stop \<times> 's) \<Rightarrow> 's \<Rightarrow> unit outcome \<times> 's" where
  "nvkms_yield schedule fault st =
     (let (result, st) = schedule 0 st in
      if result \<noteq> 0 then (let (s, st) = fault R4NV_FAULT_YIELD result st in (Stopped s, st)) else (Returned (), st))"

definition wait_native_fault :: "NvU32 \<Rightarrow> NvU32 \<Rightarrow> 'w wait_state \<Rightarrow> stop \<times> 'w wait_state" where
  "wait_native_fault operation result st =
     (let (s, n) = r4nv_native_fault operation result (w_native st) in (s, st\<lparr>w_native := n\<rparr>))"

section \<open>Time really passes\<close>

text \<open>
  The readings a call adds: the first one, later ones in order, and the last one at least the given time
  after the first.
\<close>

definition elapsed :: "nat \<Rightarrow> NvU64 list \<Rightarrow> NvU64 list \<Rightarrow> bool" where
  "elapsed ns before after \<longleftrightarrow>
     (\<exists>t new. after = before @ t # new \<and> sorted (t # new) \<and> unat t + ns \<le> unat (last (t # new)))"

text \<open>
  What the policy relies on: its operations do not hide readings of the clock.
\<close>

locale policy_ops =
  fixes ops :: "'s wait_ops" and readings :: "'s \<Rightarrow> NvU64 list"
  assumes now_reading: "op_now ops s = (t, s') \<Longrightarrow> t \<noteq> unavailable \<Longrightarrow> readings s' = readings s @ [t]"
    and stop_reading: "readings (snd (op_check_stop ops s)) = readings s"
    and sleep_reading: "readings (snd (op_sleep_ticks ops n s)) = readings s"
    and relax_reading: "readings (op_relax ops s) = readings s"
begin

lemma pause_reading: "readings (snd (wait_pause ops opts remaining polls s)) = readings s"
  using stop_reading [of s] sleep_reading relax_reading
  by (auto simp: wait_pause_def Let_def split: prod.splits)

lemma loop_readings:
  assumes "wait_loop ops' opts limit now stalled polls s = (W_ok, s')" "ops' = ops"
  shows "\<exists>new. readings s' = readings s @ new \<and> sorted (now # new) \<and> limit \<le> last (now # new) \<and>
    \<not> (wo_deadline_ns opts \<noteq> 0 \<and> wo_deadline_ns opts \<le> last (now # new))"
  using assms
proof (induction ops' opts limit now stalled polls s rule: wait_loop.induct)
  case (1 ops' opts limit now stalled polls s)
  show ?case
  proof (cases "now < limit")
    case False
    then show ?thesis
      using "1.prems"(1) by (intro exI [of _ "[]"]) (auto simp: wait_loop.simps [of ops'] split: if_split_asm)
  next
    case True
    obtain paused s1 where p: "wait_pause ops' opts (limit - now) polls s = (paused, s1)" by fastforce
    obtain nxt s2 where n: "op_now ops' s1 = (nxt, s2)" by fastforce
    have ok: "paused = W_ok" "nxt \<noteq> unavailable" "\<not> nxt < now"
      using "1.prems"(1) True p n by (auto simp: wait_loop.simps [of ops'] split: if_split_asm)
    have r: "readings s2 = readings s @ [nxt]"
      using pause_reading [of opts "limit - now" polls s] now_reading [of s1 nxt s2] p n ok(2) "1.prems"(2) by simp
    have "\<exists>new. readings s' = readings s2 @ new \<and> sorted (nxt # new) \<and> limit \<le> last (nxt # new) \<and>
      \<not> (wo_deadline_ns opts \<noteq> 0 \<and> wo_deadline_ns opts \<le> last (nxt # new))"
    proof (cases "nxt = now")
      case same: True
      have "\<not> stalled \<ge> wo_stalled_read_limit opts" "wait_loop ops' opts limit nxt (stalled + 1) (polls + 1) s2 = (W_ok, s')"
        using "1.prems"(1) True p n ok same by (auto simp: wait_loop.simps [of ops' opts limit now] split: if_split_asm)
      then show ?thesis
        using "1.IH"(1) [OF True p [symmetric] _ n [symmetric] _ same] ok "1.prems"(2) by simp
    next
      case later: False
      have "wait_loop ops' opts limit nxt 0 (polls + 1) s2 = (W_ok, s')"
        using "1.prems"(1) True p n ok later by (auto simp: wait_loop.simps [of ops' opts limit now] split: if_split_asm)
      then show ?thesis
        using "1.IH"(2) [OF True p [symmetric] _ n [symmetric] _ later] ok "1.prems"(2) by simp
    qed
    then obtain new where "readings s' = readings s2 @ new" "sorted (nxt # new)" "limit \<le> last (nxt # new)"
      "\<not> (wo_deadline_ns opts \<noteq> 0 \<and> wo_deadline_ns opts \<le> last (nxt # new))" by blast
    then show ?thesis using r ok(3) by (intro exI [of _ "nxt # new"]) auto
  qed
qed

lemma run_elapsed:
  assumes "wait_run ops opts s = (W_ok, s')"
  shows "elapsed (unat (wo_duration_ns opts)) (readings s) (readings s') \<and>
    (wo_deadline_ns opts = 0 \<or> last (readings s') < wo_deadline_ns opts)"
proof -
  obtain t s1 where n: "op_now ops s = (t, s1)" by fastforce
  define finish where "finish = t + wo_duration_ns opts"
  define limit where "limit = (if wo_deadline_ns opts = 0 then finish else min finish (wo_deadline_ns opts))"
  have run: "t \<noteq> unavailable" "\<not> unat t + unat (wo_duration_ns opts) \<ge> 2 ^ 64"
    "wait_loop ops opts limit t 0 0 s1 = (W_ok, s')"
    using assms n by (auto simp: wait_run_def Let_def limit_def finish_def split: if_split_asm)
  obtain new where l: "readings s' = readings s1 @ new" "sorted (t # new)" "limit \<le> last (t # new)"
    "\<not> (wo_deadline_ns opts \<noteq> 0 \<and> wo_deadline_ns opts \<le> last (t # new))"
    using loop_readings [OF run(3) refl] by blast
  have "finish \<le> last (t # new)" using l(3,4) by (auto simp: limit_def min_def split: if_split_asm)
  moreover have "unat finish = unat t + unat (wo_duration_ns opts)"
    using run(2) unfolding finish_def by (subst unat_add_nowrap) simp_all
  ultimately have "unat t + unat (wo_duration_ns opts) \<le> unat (last (t # new))" by (simp add: word_le_nat_alt)
  moreover have "readings s' = readings s @ t # new" using now_reading [OF n run(1)] l(1) by simp
  ultimately show ?thesis using l(2,4) by (auto simp: elapsed_def simp del: last.simps)
qed

end

interpretation rm_wait: policy_ops "rm_ops ctx handle" "\<lambda>call. c_readings (w_clock (snd call))"
  for ctx :: "'w wait_service" and handle
proof
  fix s s' :: "'w wait_call" and t n
  show "op_now (rm_ops ctx handle) s = (t, s') \<Longrightarrow> t \<noteq> unavailable \<Longrightarrow>
      c_readings (w_clock (snd s')) = c_readings (w_clock (snd s)) @ [t]"
    by (auto simp: rm_ops_def ops_now_def r4nv_clock_now_ns_def Let_def split: prod.split_asm option.split_asm if_split_asm)
  show "c_readings (w_clock (snd (snd (op_check_stop (rm_ops ctx handle) s)))) = c_readings (w_clock (snd s))"
    by (simp add: rm_ops_def ops_check_stop_def split: option.split)
  show "c_readings (w_clock (snd (snd (op_sleep_ticks (rm_ops ctx handle) n s)))) = c_readings (w_clock (snd s))"
    by (simp add: rm_ops_def ops_sleep_ticks_def Let_def split: prod.split)
  show "c_readings (w_clock (snd (op_relax (rm_ops ctx handle) s))) = c_readings (w_clock (snd s))"
    by (simp add: rm_ops_def ops_relax_def Let_def split: prod.split)
qed

section \<open>The provider's contract and the adapters\<close>

locale wait_provider =
  fixes wait_ns :: "NvU64 \<Rightarrow> NvU32 \<Rightarrow> 's \<Rightarrow> NvU32 \<times> 's"
    and fault :: "NvU32 \<Rightarrow> NvU32 \<Rightarrow> 's \<Rightarrow> stop \<times> 's"
    and readings :: "'s \<Rightarrow> NvU64 list"
    and latch :: "'s \<Rightarrow> NvU64"
  assumes waited: "wait_ns ns mode s = (0, s') \<Longrightarrow> elapsed (unat ns) (readings s) (readings s')"
    and fault_latches: "operation \<noteq> 0 \<Longrightarrow> latch (snd (fault operation result s)) \<noteq> 0"
begin

lemma delay_us_elapsed:
  assumes "os_delay_us wait_ns us s = (NV_OK, s')"
  shows "elapsed (unat us * 1000) (readings s) (readings s')"
proof -
  have "unat (ucast us * 1000 :: NvU64) = unat us * 1000"
    using unsigned_less [of us, where 'a = nat] unat_ucast_NvU32 [of us] by (subst unat_mult_nowrap) simp_all
  moreover have "wait_ns (ucast us * 1000) 0 s = (0, s')"
    using assms by (auto simp: os_delay_us_def wait_status_def split: prod.split_asm if_split_asm)
  ultimately show ?thesis using waited by metis
qed

lemma delay_elapsed:
  assumes "os_delay wait_ns ms s = (NV_OK, s')"
  shows "elapsed (unat ms * 1000000) (readings s) (readings s')"
proof -
  have "unat (ucast ms * 1000000 :: NvU64) = unat ms * 1000000"
    using unsigned_less [of ms, where 'a = nat] unat_ucast_NvU32 [of ms] by (subst unat_mult_nowrap) simp_all
  moreover have "wait_ns (ucast ms * 1000000) 1 s = (0, s')"
    using assms by (auto simp: os_delay_def wait_status_def split: prod.split_asm if_split_asm)
  ultimately show ?thesis using waited by metis
qed

lemma usleep_elapsed:
  assumes "nvkms_usleep wait_ns fault us s = (Returned (), s')"
  shows "elapsed (unat us * 1000) (readings s) (readings s')"
proof -
  have g: "\<not> us > 0xFFFFFFFFFFFFFFFF div 1000" and w: "wait_ns (us * 1000) (if us < 1000 then 0 else 2) s = (0, s')"
    using assms by (auto simp: nvkms_usleep_def Let_def split: prod.split_asm if_split_asm)
  have "unat us \<le> 18446744073709551"
    using g by (simp add: word_less_nat_alt unat_div_distrib)
  then have "unat (us * 1000 :: NvU64) = unat us * 1000" by (subst unat_mult_nowrap) simp_all
  then show ?thesis using waited [OF w] by simp
qed

lemma usleep_stopped: "nvkms_usleep wait_ns fault us s = (Stopped e, s') \<Longrightarrow> latch s' \<noteq> 0"
  using fault_latches [of R4NV_FAULT_WAIT]
  by (auto simp: nvkms_usleep_def Let_def split: prod.split_asm if_split_asm) (metis snd_conv zero_neq_numeral)+

end

text \<open>The Zig provider satisfies it with any kernel.\<close>

lemma snapshot_readings: "c_readings (snd (snapshot st)) = c_readings st"
  by (simp add: snapshot_def Let_def split: option.split prod.split)

lemma wait_finish_ok: "wait_finish r st = (0, st') \<longleftrightarrow> r = W_ok \<and> st' = st"
  by (cases r) (auto simp: wait_finish_def result_code_def)

text \<open>A wait that succeeds took its time and, outside an interrupt, ended before the invocation's deadline.\<close>

lemma wait_ns_success:
  assumes "r4nv_wait_ns ns mode st = (0, st')"
  obtains ctx d where "w_context st = Some ctx"
    "elapsed (unat ns) (c_readings (w_clock st)) (c_readings (w_clock st'))"
    "d = 0 \<or> last (c_readings (w_clock st')) < d"
    "\<not> ws_irq ctx (c_world (snd (snapshot (w_clock st)))) \<Longrightarrow>
       d = deadline_of ctx (wait_invocation ctx (st\<lparr>w_clock := snd (snapshot (w_clock st))\<rparr>))"
proof -
  obtain ctx m where c: "w_context st = Some ctx" "wait_mode_of mode = Some m"
    using assms by (auto simp: r4nv_wait_ns_def wait_finish_def result_code_def split: option.split_asm)
  obtain info c1 where s: "snapshot (w_clock st) = (Some info, c1)"
    using assms c by (cases "snapshot (w_clock st)")
      (auto simp: r4nv_wait_ns_def wait_finish_def result_code_def Let_def split: option.split_asm)
  define st1 where "st1 = st\<lparr>w_clock := c1\<rparr>"
  obtain handle opts result spins st2 where r: "wait_run (rm_ops ctx handle) opts (0, st1) = (result, spins, st2)"
    "wo_duration_ns opts = ns" "wait_finish result (st2\<lparr>w_spin_calls := w_spin_calls st2 + spins\<rparr>) = (0, st')"
    "wo_deadline_ns opts = deadline_of ctx (if ws_irq ctx (w_world st1) then None else wait_invocation ctx st1)"
  proof -
    let ?irq = "ws_irq ctx (w_world st1)"
    let ?opts = "\<lparr>wo_duration_ns = ns,
         wo_deadline_ns = deadline_of ctx (if ?irq then None else wait_invocation ctx st1),
         wo_mode = m, wo_frequency_hz = ws_frequency ctx (w_world st1), wo_sleepable = ws_sleepable ctx (w_world st1),
         wo_irq = ?irq, wo_free_running = (\<not> ci_periodic info), wo_stalled_read_limit = 1024 * 1024\<rparr>"
    let ?h = "if \<not> ?irq \<and> w_threads st1 then ws_current ctx (w_world st1) else 0"
    obtain result spins st2 where "wait_run (rm_ops ctx ?h) ?opts (0, st1) = (result, spins, st2)" by (metis prod_cases3)
    moreover from this have "wait_finish result (st2\<lparr>w_spin_calls := w_spin_calls st2 + spins\<rparr>) = (0, st')"
      using assms c s by (simp add: r4nv_wait_ns_def Let_def st1_def cong: if_cong)
    ultimately show thesis using that [of ?h ?opts result spins st2] by simp
  qed
  have "result = W_ok" "st' = st2\<lparr>w_spin_calls := w_spin_calls st2 + spins\<rparr>"
    using r(3) by (simp_all add: wait_finish_ok)
  then show thesis
    using rm_wait.run_elapsed [of ctx handle opts "(0, st1)" "(spins, st2)"] r(1,2,4)
      snapshot_readings [of "w_clock st"] s c(1)
    by (intro that [of ctx "wo_deadline_ns opts"]) (simp_all add: st1_def)
qed

interpretation rm_waiting: wait_provider r4nv_wait_ns wait_native_fault "\<lambda>st. c_readings (w_clock st)"
  "\<lambda>st. n_first_fault (w_native st)"
proof
  fix ns mode and s s' :: "'w wait_state" assume "r4nv_wait_ns ns mode s = (0, s')"
  then show "elapsed (unat ns) (c_readings (w_clock s)) (c_readings (w_clock s'))" by (rule wait_ns_success)
next
  fix operation result :: NvU32 and s :: "'w wait_state" assume "operation \<noteq> 0"
  then show "n_first_fault (w_native (snd (wait_native_fault operation result s))) \<noteq> 0"
    using fault_encoded_nonzero [of operation result]
    by (simp add: wait_native_fault_def r4nv_native_fault_def Let_def)
qed


section \<open>Properties\<close>

text \<open>
  C3: A delay that reports success took the time. When \<^verbatim>\<open>os_delay_us\<close>, \<^verbatim>\<open>os_delay\<close> or \<^verbatim>\<open>nvkms_usleep\<close> succeeds,
  the clock was read during the call, its readings did not go back, and the last one is at least the full
  interval after the first, without wrap-around, however the scheduler woke the caller, whatever the
  kernel's services returned; and a \<^verbatim>\<open>nvkms_usleep\<close> that cannot succeed does not return and latches the
  native fault.
\<close>

theorem delays_elapse:
  "(case os_delay_us r4nv_wait_ns us st of (status, st') \<Rightarrow>
      if status = NV_OK then elapsed (unat us * 1000) (c_readings (w_clock st)) (c_readings (w_clock st')) else True) \<and>
   (case os_delay r4nv_wait_ns ms st of (status, st') \<Rightarrow>
      if status = NV_OK then elapsed (unat ms * 1000000) (c_readings (w_clock st)) (c_readings (w_clock st')) else True) \<and>
   (case nvkms_usleep r4nv_wait_ns wait_native_fault usec st of
      (Returned _, st') \<Rightarrow> elapsed (unat usec * 1000) (c_readings (w_clock st)) (c_readings (w_clock st'))
    | (Stopped _, st') \<Rightarrow> n_first_fault (w_native st') \<noteq> 0)"
  using rm_waiting.delay_us_elapsed [of us st] rm_waiting.delay_elapsed [of ms st]
    rm_waiting.usleep_elapsed [of usec st] rm_waiting.usleep_stopped [of usec st]
  by (simp split: prod.split outcome.split)

subsection \<open>Waits end in success\<close>

text \<open>Operations over a clock that moves on below a bound and a scheduler that never interrupts.\<close>

definition ticking :: "'s wait_ops \<Rightarrow> ('s \<Rightarrow> NvU64) \<Rightarrow> NvU64 \<Rightarrow> bool" where
  "ticking ops stamp bound \<longleftrightarrow>
     (\<forall>s. case op_now ops s of (t, s') \<Rightarrow> t \<noteq> unavailable \<and> stamp s' = t \<and> (stamp s < bound \<longrightarrow> stamp s < t)) \<and>
     (\<forall>s. case op_check_stop ops s of (r, s') \<Rightarrow> r = W_ok \<and> stamp s' = stamp s) \<and>
     (\<forall>n s. case op_sleep_ticks ops n s of (r, s') \<Rightarrow> r = W_ok \<and> stamp s' = stamp s) \<and>
     (\<forall>s. stamp (op_relax ops s) = stamp s)"

lemma ticking_now: "ticking ops stamp bound \<Longrightarrow> op_now ops s = (t, s') \<Longrightarrow>
    t \<noteq> unavailable \<and> stamp s' = t \<and> (stamp s < bound \<longrightarrow> stamp s < t)"
  by (simp add: ticking_def split_beta) (metis fst_conv snd_conv)

lemma ticking_pause: "ticking ops stamp bound \<Longrightarrow> wait_pause ops opts remaining polls s = (r, s') \<Longrightarrow> r = W_ok \<and> stamp s' = stamp s"
  by (auto simp: ticking_def wait_pause_def Let_def split_beta split: if_split_asm prod.split_asm) (metis fst_conv snd_conv)+

lemma ticking_loop:
  assumes "ticking ops stamp bound" "limit \<le> bound" "stamp s = now"
  shows "fst (wait_loop ops opts limit now stalled polls s) \<in> {W_ok} \<union> {r. r = W_deadline \<and> wo_deadline_ns opts \<noteq> 0}"
  using assms
proof (induction ops opts limit now stalled polls s rule: wait_loop.induct)
  case (1 ops opts limit now stalled polls s)
  show ?case
  proof (cases "now < limit")
    case False
    then show ?thesis by (simp add: wait_loop.simps [of ops])
  next
    case True
    obtain r s1 where p: "wait_pause ops opts (limit - now) polls s = (r, s1)" by fastforce
    obtain t s2 where n: "op_now ops s1 = (t, s2)" by fastforce
    have r: "r = W_ok" "stamp s1 = now" using ticking_pause [OF "1.prems"(1) p] "1.prems"(3) by simp_all
    have t: "t \<noteq> unavailable" "stamp s2 = t" "now < t"
      using ticking_now [OF "1.prems"(1) n] r(2) True "1.prems"(2) by auto
    then have nt: "\<not> (t = unavailable \<or> t < now)" "t \<noteq> now" by auto
    have "fst (wait_loop ops opts limit t 0 (polls + 1) s2) \<in> {W_ok} \<union> {r. r = W_deadline \<and> wo_deadline_ns opts \<noteq> 0}"
      using "1.IH"(2) [OF True p [symmetric] _ n [symmetric] nt "1.prems"(1,2) t(2)] r(1) by simp
    then show ?thesis using True p n r(1) nt by (subst wait_loop.simps) (simp only: if_True if_False prod.case simp_thms)
  qed
qed

text \<open>What the policy refuses at its first reading, whatever the clock does later.\<close>

definition wait_refusal :: "wait_options \<Rightarrow> NvU64 \<Rightarrow> wait_result option" where
  "wait_refusal opts now =
     (if wo_mode opts = Sleep \<and> \<not> wo_sleepable opts \<or> wo_irq opts \<and> wo_duration_ns opts > 20000000 then Some W_context
      else if wo_deadline_ns opts \<noteq> 0 \<and> wo_deadline_ns opts \<le> now then Some W_deadline
      else if may_sleep opts \<and> wo_frequency_hz opts = 0 then Some W_clock
      else if wo_duration_ns opts \<noteq> 0 \<and> \<not> wo_sleepable opts \<and> \<not> wo_free_running opts then Some W_clock
      else None)"

text \<open>
  C31: How a wait ends over a clock that moves on (each reading after the first, while below a bound, is
  later than the one before) and a scheduler that neither cancels it nor fails, for an interval that ends
  at or below that bound, the bound being a reading the clock can show. It is refused as a context error
  when it must sleep and may not, or in an interrupt for more than 20 milliseconds; as past its deadline when
  the first reading is not before it; as a clock error when it may sleep and the timer has no frequency, or
  must spin for a time on a clock that does not run freely. Otherwise it returns success, after however
  many early wake-ups, or, only when it has a deadline, that it reached it. In particular every such wait without
  a deadline succeeds.
\<close>

theorem wait_succeeds:
  assumes "ticking ops stamp bound" "unat (fst (op_now ops s)) + unat (wo_duration_ns opts) \<le> unat bound" "bound < unavailable"
  shows "case wait_refusal opts (fst (op_now ops s)) of
      Some r \<Rightarrow> fst (wait_run ops opts s) = r
    | None \<Rightarrow> fst (wait_run ops opts s) = W_ok \<or> fst (wait_run ops opts s) = W_deadline \<and> wo_deadline_ns opts \<noteq> 0"
proof -
  obtain t s1 where n: "op_now ops s = (t, s1)" by fastforce
  have t: "t \<noteq> unavailable" "stamp s1 = t" using ticking_now [OF assms(1) n] by simp_all
  define finish where "finish = t + wo_duration_ns opts"
  define limit where "limit = (if wo_deadline_ns opts = 0 then finish else min finish (wo_deadline_ns opts))"
  have b: "unat t + unat (wo_duration_ns opts) \<le> unat bound" "unat bound < 2 ^ 64 - 1"
    using assms(2,3) n by (simp_all add: word_less_nat_alt)
  then have f: "unat finish = unat t + unat (wo_duration_ns opts)"
    unfolding finish_def by (subst unat_add_nowrap) simp_all
  then have e: "finish \<le> bound" "finish \<noteq> unavailable"
    using b assms(3) by (auto simp: word_le_nat_alt word_less_nat_alt)
  have l: "limit \<le> bound" using e(1) by (auto simp: limit_def min_def)
  have pos: "t < limit \<longleftrightarrow> wo_duration_ns opts \<noteq> 0" if "\<not> (wo_deadline_ns opts \<noteq> 0 \<and> wo_deadline_ns opts \<le> t)"
    using that f by (auto simp: limit_def min_def word_less_nat_alt word_le_nat_alt unat_eq_zero [symmetric] simp del: unat_eq_zero)
  have "wait_run ops opts s = (case wait_refusal opts t of
      Some r \<Rightarrow> (r, if r = W_context then s else s1) | None \<Rightarrow> wait_loop ops opts limit t 0 0 s1)"
    using n t(1) b e(2) pos
    by (auto simp: wait_run_def wait_refusal_def Let_def finish_def limit_def)
  then show ?thesis using ticking_loop [OF assms(1) l t(2), of opts 0 0] n by (auto split: option.split)
qed

text \<open>A clock that advances by five at each reading, and sleeps that end at once.\<close>

definition sample_ops :: "NvU64 wait_ops" where
  "sample_ops = \<lparr>op_now = (\<lambda>s. if s < 100000 then (s + 5, s + 5) else (100005, 100005)),
     op_check_stop = (\<lambda>s. (W_ok, s)), op_sleep_ticks = (\<lambda>n s. (W_ok, s)), op_relax = (\<lambda>s. s)\<rparr>"

lemma sample_ticking: "ticking sample_ops (\<lambda>s. s) 100000"
proof -
  have "s + 5 \<noteq> unavailable \<and> s < s + 5" if "s < 100000" for s :: NvU64
  proof -
    have "unat (s + 5) = unat s + 5" using that by (subst unat_add_nowrap) (simp_all add: word_less_nat_alt)
    then show ?thesis using that by (auto simp: word_less_nat_alt)
  qed
  then show ?thesis by (simp add: ticking_def sample_ops_def)
qed

theorem wait_succeeds_witness:
  "fst (wait_run sample_ops \<lparr>wo_duration_ns = 90000, wo_deadline_ns = 0, wo_mode = Adaptive, wo_frequency_hz = 1000000,
     wo_sleepable = True, wo_irq = False, wo_free_running = True, wo_stalled_read_limit = 8\<rparr> 0) = W_ok"
  using wait_succeeds [OF sample_ticking, of 0 "\<lparr>wo_duration_ns = 90000, wo_deadline_ns = 0, wo_mode = Adaptive,
     wo_frequency_hz = 1000000, wo_sleepable = True, wo_irq = False, wo_free_running = True, wo_stalled_read_limit = 8\<rparr>"]
  by (simp add: sample_ops_def word_less_nat_alt wait_refusal_def may_sleep_def)

end
