(* ===== verification/Rm_Invoke.thy ===== *)
theory Rm_Invoke
  imports Rm_Wait
begin
unbundle bit_operations_syntax

text \<open>
  The invocation of native callbacks, \<^verbatim>\<open>src/rm_native.zig\<close>: a caller fills an \<^verbatim>\<open>Invocation\<close>, \<^verbatim>\<open>start\<close> hands it to
  the kernel's thread service, the new Task begins in \<^verbatim>\<open>enter\<close>, which checks again, calls the handler and
  checks the deadline once more. The thread service and its constants are the kernel's and are
  parameters; a handler is any function on the state. The first part gives the functions as one call executes
  them alone. The Tasks run interleaved, though: the rest of the theory is a step relation with one access to
  the shared state per step, which composes to the functions when nothing intervenes.
\<close>

section \<open>Definitions\<close>

abbreviation (input) native_aborted :: NvU32 where "native_aborted \<equiv> - 76001"
abbreviation (input) deadline_exceeded :: NvU32 where "deadline_exceeded \<equiv> - 76002"
abbreviation (input) clock_unavailable :: NvU32 where "clock_unavailable \<equiv> - 76003"

record 'w invocation =
  iv_handler :: "NvU64 \<Rightarrow> 'w wait_state \<Rightarrow> NvU32 outcome \<times> 'w wait_state"
  iv_context :: NvU64
  iv_cleanup :: bool
  iv_deadline_ns :: NvU64

definition checkpoint :: "'w invocation \<Rightarrow> 'w wait_state \<Rightarrow> NvU32 \<times> 'w wait_state" where
  "checkpoint invocation st =
     (if iv_cleanup invocation \<and> iv_deadline_ns invocation = 0 then (0, st)
      else let (now, c) = r4nv_clock_now_ns (w_clock st); st = st\<lparr>w_clock := c\<rparr> in
        if now = unavailable then (clock_unavailable, st)
        else (if iv_deadline_ns invocation \<noteq> 0 \<and> now \<ge> iv_deadline_ns invocation then deadline_exceeded else 0, st))"

text \<open>An ordinary call is refused once a fault is latched or the clock is lost.\<close>

definition closed_for :: "'w invocation \<Rightarrow> 'w wait_state \<Rightarrow> bool" where
  "closed_for invocation st =
     (\<not> iv_cleanup invocation \<and> (n_first_fault (w_native st) \<noteq> 0 \<or> \<not> clock_available (w_clock st)))"

text \<open>What \<^verbatim>\<open>start\<close> hands to the kernel.\<close>

definition start_request :: "thread_abi \<Rightarrow> NvU64 \<Rightarrow> NvU32 \<Rightarrow> thread_request" where
  "start_request abi address flags =
     \<lparr>tr_handler = ta_enter abi, tr_context = address, tr_flags = flags OR ta_abortable abi\<rparr>"

text \<open>
  The two functions as a Task executes them alone. The result of \<^verbatim>\<open>start\<close> is the code and the caller's handle.
\<close>

definition native_start ::
  "thread_abi \<Rightarrow> 'w thread_service \<Rightarrow> NvU64 \<Rightarrow> 'w invocation \<Rightarrow> NvU32 \<Rightarrow> 'w wait_state \<Rightarrow> (NvU32 \<times> NvU64) \<times> 'w wait_state" where
  "native_start abi service address invocation flags st =
     (if \<not> n_threads (w_native st) then ((ta_err_no_fn abi, 0), st)
      else if closed_for invocation st then ((ta_closed abi, 0), st)
      else if \<not> iv_cleanup invocation \<and> iv_deadline_ns invocation = 0 then ((ta_invalid abi, 0), st)
      else let (checked, st) = checkpoint invocation st in
        if checked \<noteq> 0 then ((checked, 0), st)
        else let (started, w) = ts_start service (start_request abi address flags) (w_world st) in
          (started, set_w_world w st))"

text \<open>What \<^verbatim>\<open>enter\<close> does before the handler and after it.\<close>

definition enter_admit :: "thread_abi \<Rightarrow> 'w invocation \<Rightarrow> 'w wait_state \<Rightarrow> NvU32 \<times> 'w wait_state" where
  "enter_admit abi invocation st =
     (if closed_for invocation st then (ta_closed abi, st) else checkpoint invocation st)"

definition enter_leave :: "'w invocation \<Rightarrow> NvU32 \<Rightarrow> 'w wait_state \<Rightarrow> NvU32 \<times> 'w wait_state" where
  "enter_leave invocation result st = (if result \<noteq> 0 then (result, st) else checkpoint invocation st)"

definition native_enter :: "thread_abi \<Rightarrow> 'w invocation \<Rightarrow> 'w wait_state \<Rightarrow> NvU32 outcome \<times> 'w wait_state" where
  "native_enter abi invocation st =
     (let (checked, st) = enter_admit abi invocation st in
      if checked \<noteq> 0 then (Returned checked, st)
      else let (result, st) = iv_handler invocation (iv_context invocation) st in
        case result of
          Stopped s \<Rightarrow> (Stopped s, st)
        | Returned code \<Rightarrow> (let (code, st) = enter_leave invocation code st in (Returned code, st)))"

section \<open>Interleaved Tasks\<close>

text \<open>
  Other Tasks run between any two accesses to what the Tasks share: the latched fault, the count of
  faults, the clock's failure flag, the counters of the waits, the kernel. So a step of a Task is one such access,
  with the computation on its own values that follows it; a phase says which access is the next one.
  The bound services (\<^verbatim>\<open>threads\<close>, \<^verbatim>\<open>context\<close>) do not change while Tasks are there, and the invocation belongs to its
  Task, so reading them is no access. The accesses are taken in one order; the source makes them atomic.

  A stage is the function a Task is in: \<^verbatim>\<open>start\<close> (with its flags), \<^verbatim>\<open>enter\<close> before the handler, \<^verbatim>\<open>enter\<close> after it.
\<close>

datatype stage = Starting NvU32 | Entering | Leaving

text \<open>
  Before the load of the clock's flag of the admission, of the checkpoint, before the reading of the clock,
  before the store of the flag of a lost clock, before the call that hands the invocation over, handed
  over, in the handler, after the latch of a fault and after its count, ended. The first access of \<^verbatim>\<open>start\<close> and
  of \<^verbatim>\<open>enter\<close> is the load of the fault, made from \<open>Idle\<close> or \<open>Finished\<close> and from \<open>Queued\<close>. The caller owns an
  invocation until its Task has finished, so it is not started before that.
\<close>

datatype phase = Idle | Clock_load stage | Check_load stage | Check_read stage | Check_lose stage | Hand_over NvU32
  | Queued | Running | Fault_count | Fault_abort | Finished NvU32

datatype native_event =
    Started NvU64 | Refused NvU64 NvU32 | Began NvU64 | Stepped NvU64 | Faulted NvU64 NvU32 NvU32 | Ended NvU64 NvU32

text \<open>What follows a checkpoint of each stage when it passed, and when the stage returns an error.\<close>

definition stage_passed :: "NvU64 \<Rightarrow> stage \<Rightarrow> native_event \<times> phase" where
  "stage_passed a stage =
     (case stage of Starting flags \<Rightarrow> (Stepped a, Hand_over flags) | Entering \<Rightarrow> (Began a, Running) | Leaving \<Rightarrow> (Ended a 0, Finished 0))"

definition stage_failed :: "NvU64 \<Rightarrow> stage \<Rightarrow> NvU32 \<Rightarrow> native_event \<times> phase" where
  "stage_failed a stage c = (case stage of Starting flags \<Rightarrow> (Refused a c, Idle) | _ \<Rightarrow> (Ended a c, Finished c))"

definition to_checkpoint :: "NvU64 \<Rightarrow> 'w invocation \<Rightarrow> stage \<Rightarrow> native_event \<times> phase" where
  "to_checkpoint a invocation stage =
     (if iv_cleanup invocation \<and> iv_deadline_ns invocation = 0 then stage_passed a stage else (Stepped a, Check_load stage))"

text \<open>After the loads of the admission only \<^verbatim>\<open>start\<close> asks for the deadline.\<close>

definition after_loads :: "thread_abi \<Rightarrow> NvU64 \<Rightarrow> 'w invocation \<Rightarrow> stage \<Rightarrow> native_event \<times> phase" where
  "after_loads abi a invocation stage =
     (if (\<exists>flags. stage = Starting flags) \<and> \<not> iv_cleanup invocation \<and> iv_deadline_ns invocation = 0
      then stage_failed a stage (ta_invalid abi) else to_checkpoint a invocation stage)"

text \<open>The two loads of the admission check: the fault, then the clock's flag; a cleanup makes neither.\<close>

definition fault_load :: "thread_abi \<Rightarrow> NvU64 \<Rightarrow> 'w invocation \<Rightarrow> stage \<Rightarrow> 'w wait_state \<Rightarrow> native_event \<times> phase" where
  "fault_load abi a invocation stage st =
     (if iv_cleanup invocation then after_loads abi a invocation stage
      else if n_first_fault (w_native st) \<noteq> 0 then stage_failed a stage (ta_closed abi)
      else (Stepped a, Clock_load stage))"

definition clock_load :: "thread_abi \<Rightarrow> NvU64 \<Rightarrow> 'w invocation \<Rightarrow> stage \<Rightarrow> 'w wait_state \<Rightarrow> native_event \<times> phase" where
  "clock_load abi a invocation stage st =
     (if \<not> clock_available (w_clock st) then stage_failed a stage (ta_closed abi) else after_loads abi a invocation stage)"

text \<open>The reading of \<^verbatim>\<open>r4nv_clock_now_ns\<close> between its load and its store of the flag.\<close>

definition clock_read :: "'w clock_state \<Rightarrow> NvU64 \<times> 'w clock_state" where
  "clock_read st =
     (case c_context st of
        None \<Rightarrow> (unavailable, st)
      | Some ctx \<Rightarrow>
          if c_fast st then (let (t, w) = cs_now ctx (c_world st) in
            (t, st\<lparr>c_world := w, c_readings := c_readings st @ [t]\<rparr>))
          else (unavailable, st))"

definition check_reading :: "NvU64 \<Rightarrow> 'w invocation \<Rightarrow> stage \<Rightarrow> NvU64 \<Rightarrow> native_event \<times> phase" where
  "check_reading a invocation stage now =
     (if now = unavailable then (Stepped a, Check_lose stage)
      else if iv_deadline_ns invocation \<noteq> 0 \<and> now \<ge> iv_deadline_ns invocation then stage_failed a stage deadline_exceeded
      else stage_passed a stage)"

text \<open>The fault of a handler: the latch, then the count, then the kernel's abort.\<close>

definition fault_latch :: "NvU32 \<Rightarrow> NvU32 \<Rightarrow> native_state \<Rightarrow> native_state" where
  "fault_latch operation result st =
     st\<lparr>n_first_fault := (if n_first_fault st = 0 then push_bit 32 (ucast operation) OR ucast result else n_first_fault st)\<rparr>"

definition fault_count :: "native_state \<Rightarrow> native_state" where
  "fault_count st = st\<lparr>n_faults := n_faults st + 1\<rparr>"

text \<open>The next access of a Task where its code alone decides it.\<close>

fun task_step ::
  "thread_abi \<Rightarrow> 'w thread_service \<Rightarrow> NvU64 \<Rightarrow> 'w invocation \<Rightarrow> phase \<Rightarrow> 'w wait_state \<Rightarrow>
    ((native_event \<times> phase) \<times> 'w wait_state) option" where
  "task_step abi service a invocation (Clock_load stage) st = Some (clock_load abi a invocation stage st, st)"
| "task_step abi service a invocation (Check_load stage) st =
     Some (if clock_available (w_clock st) then (Stepped a, Check_read stage) else stage_failed a stage clock_unavailable, st)"
| "task_step abi service a invocation (Check_read stage) st =
     (let (now, c) = clock_read (w_clock st) in Some (check_reading a invocation stage now, st\<lparr>w_clock := c\<rparr>))"
| "task_step abi service a invocation (Check_lose stage) st =
     Some (stage_failed a stage clock_unavailable, st\<lparr>w_clock := clock_invalidate (w_clock st)\<rparr>)"
| "task_step abi service a invocation (Hand_over flags) st =
     (let ((c, h), w) = ts_start service (start_request abi a flags) (w_world st) in
      Some (if c = 0 then (Started a, Queued) else (Refused a c, Idle), set_w_world w st))"
| "task_step abi service a invocation Queued st = Some (fault_load abi a invocation Entering st, st)"
| "task_step abi service a invocation Fault_count st = Some ((Stepped a, Fault_abort), st\<lparr>w_native := fault_count (w_native st)\<rparr>)"
| "task_step abi service a invocation Fault_abort st =
     (if n_threads (w_native st) \<and> n_admitted (w_native st) then Some ((Ended a native_aborted, Finished native_aborted), st) else None)"
| "task_step abi service a invocation _ st = None"

definition start_call :: "thread_abi \<Rightarrow> NvU64 \<Rightarrow> 'w invocation \<Rightarrow> NvU32 \<Rightarrow> 'w wait_state \<Rightarrow> native_event \<times> phase" where
  "start_call abi a invocation flags st =
     (if \<not> n_threads (w_native st) then (Refused a (ta_err_no_fn abi), Idle) else fault_load abi a invocation (Starting flags) st)"

definition handler_return :: "NvU64 \<Rightarrow> 'w invocation \<Rightarrow> NvU32 \<Rightarrow> native_event \<times> phase" where
  "handler_return a invocation result = (if result \<noteq> 0 then (Ended a result, Finished result) else to_checkpoint a invocation Leaving)"

text \<open>
  What a handler can do to the shared state in one access, other than a fault: call the kernel, read the
  clock, lose it, count a sleep, a spin or a yield. These are all the updates in \<^verbatim>\<open>rm_clock.zig\<close>, \<^verbatim>\<open>rm_wait.zig\<close> and
  \<^verbatim>\<open>rm_native.zig\<close>, whose variables are private to them, outside the bindings, which are made and undone
  while there are no Tasks.
\<close>

inductive module_access :: "'w wait_state \<Rightarrow> 'w wait_state \<Rightarrow> bool" where
  kernel_call: "module_access st (set_w_world w st)"
| reading: "module_access st (st\<lparr>w_clock := snd (clock_read (w_clock st))\<rparr>)"
| losing: "module_access st (st\<lparr>w_clock := clock_invalidate (w_clock st)\<rparr>)"
| sleeping: "module_access st (st\<lparr>w_sleep_calls := w_sleep_calls st + 1\<rparr>)"
| spinning: "module_access st (st\<lparr>w_spin_calls := w_spin_calls st + n\<rparr>)"
| yielding: "module_access st (st\<lparr>w_yield_calls := w_yield_calls st + 1\<rparr>)"

record 'w native_system =
  sys_state :: "'w wait_state"
  sys_phase :: "NvU64 \<Rightarrow> phase"

definition set_phase :: "NvU64 \<Rightarrow> phase \<Rightarrow> 'w wait_state \<Rightarrow> 'w native_system \<Rightarrow> 'w native_system" where
  "set_phase a p st s = s\<lparr>sys_state := st, sys_phase := (sys_phase s)(a := p)\<rparr>"

definition retired :: "phase \<Rightarrow> bool" where
  "retired p = (case p of Idle \<Rightarrow> True | Finished c \<Rightarrow> True | _ \<Rightarrow> False)"

text \<open>
  A step of the system: a caller calls \<^verbatim>\<open>start\<close>, a Task makes its next access, a handler makes one, faults
  or returns. A fault of operation 0, or outside a Task the kernel can abort, traps: the machine stops and
  there is no further step.
\<close>

inductive native_step ::
  "thread_abi \<Rightarrow> 'w thread_service \<Rightarrow> (NvU64 \<Rightarrow> 'w invocation) \<Rightarrow> 'w native_system \<Rightarrow> native_event \<Rightarrow> 'w native_system \<Rightarrow> bool"
  for abi service objects where
  called: "retired (sys_phase s a) \<Longrightarrow> start_call abi a (objects a) flags (sys_state s) = (e, p) \<Longrightarrow>
    native_step abi service objects s e (set_phase a p (sys_state s) s)"
| moved: "task_step abi service a (objects a) (sys_phase s a) (sys_state s) = Some ((e, p), st) \<Longrightarrow>
    native_step abi service objects s e (set_phase a p st s)"
| worked: "sys_phase s a = Running \<Longrightarrow> module_access (sys_state s) st \<Longrightarrow>
    native_step abi service objects s (Stepped a) (set_phase a Running st s)"
| faulted: "sys_phase s a = Running \<Longrightarrow> operation \<noteq> 0 \<Longrightarrow>
    native_step abi service objects s (Faulted a operation result)
      (set_phase a Fault_count ((sys_state s)\<lparr>w_native := fault_latch operation result (w_native (sys_state s))\<rparr>) s)"
| returned: "sys_phase s a = Running \<Longrightarrow> handler_return a (objects a) result = (e, p) \<Longrightarrow>
    native_step abi service objects s e (set_phase a p (sys_state s) s)"

inductive native_run ::
  "thread_abi \<Rightarrow> 'w thread_service \<Rightarrow> (NvU64 \<Rightarrow> 'w invocation) \<Rightarrow> 'w native_system \<Rightarrow> native_event list \<Rightarrow> 'w native_system \<Rightarrow> bool"
  for abi service objects where
  stop: "native_run abi service objects s [] s"
| more: "native_run abi service objects s es s' \<Longrightarrow> native_step abi service objects s' e s'' \<Longrightarrow>
    native_run abi service objects s (es @ [e]) s''"

lemma set_phase_simps [simp]:
  "sys_state (set_phase a p st s) = st" "sys_phase (set_phase a p st s) = (sys_phase s)(a := p)"
  "set_phase a p st (set_phase a q st' s) = set_phase a p st s"
  by (simp_all add: set_phase_def)

lemmas stage_defs = start_call_def handler_return_def fault_load_def clock_load_def check_reading_def after_loads_def
  to_checkpoint_def stage_passed_def stage_failed_def

subsection \<open>The steps compose to the functions\<close>

text \<open>The accesses of one reading of the clock, and those of a fault.\<close>

lemma clock_now_accesses:
  "r4nv_clock_now_ns st =
     (if \<not> clock_available st then (unavailable, st)
      else let (now, st) = clock_read st in (now, if now = unavailable then clock_invalidate st else st))"
  by (auto simp: r4nv_clock_now_ns_def clock_read_def clock_available_def clock_invalidate_def Let_def split: option.split prod.split)

lemma native_fault_accesses:
  "operation \<noteq> 0 \<Longrightarrow> r4nv_native_fault operation result st =
     (if n_threads st \<and> n_admitted st then Aborted else Trapped, fault_count (fault_latch operation result st))"
  by (simp add: r4nv_native_fault_def fault_latch_def fault_count_def Let_def)

lemma native_run_append:
  "native_run abi service objects s' es' s'' \<Longrightarrow> native_run abi service objects s es s' \<Longrightarrow>
   native_run abi service objects s (es @ es') s''"
proof (induction rule: native_run.induct)
  case (more s1 es1 s2 e s3)
  then show ?case using native_run.more [of abi service objects s "es @ es1" s2 e s3] by simp
qed simp

lemma native_run_cons:
  "native_step abi service objects s e s' \<Longrightarrow> native_run abi service objects s' es s'' \<Longrightarrow>
   native_run abi service objects s (e # es) s''"
  using native_run_append [of abi service objects s' es s'' s "[e]"] native_run.more [OF native_run.stop, of abi service objects s e s']
  by simp

text \<open>A Task that runs on its own from one phase to another, the last event included.\<close>

definition runs_to ::
  "thread_abi \<Rightarrow> 'w thread_service \<Rightarrow> (NvU64 \<Rightarrow> 'w invocation) \<Rightarrow> NvU64 \<Rightarrow> 'w native_system \<Rightarrow>
    native_event \<times> phase \<Rightarrow> 'w wait_state \<Rightarrow> bool" where
  "runs_to abi service objects a s ep st \<longleftrightarrow>
     (\<exists>es. native_run abi service objects s (es @ [fst ep]) (set_phase a (snd ep) st s))"

lemma runs_to_step:
  "native_step abi service objects s (fst ep) (set_phase a (snd ep) st s) \<Longrightarrow> runs_to abi service objects a s ep st"
  using native_run.more [OF native_run.stop, of abi service objects s "fst ep"] unfolding runs_to_def by fastforce

lemma runs_to_trans:
  assumes "runs_to abi service objects a s (e, p) st" "runs_to abi service objects a (set_phase a p st s) ep st'"
  shows "runs_to abi service objects a s ep st'"
proof -
  obtain es es' where "native_run abi service objects s (es @ [e]) (set_phase a p st s)"
    "native_run abi service objects (set_phase a p st s) (es' @ [fst ep]) (set_phase a (snd ep) st' s)"
    using assms by (auto simp: runs_to_def)
  from native_run_append [OF this(2,1)] show ?thesis unfolding runs_to_def append_assoc [symmetric] by blast
qed

lemma runs_to_task:
  "task_step abi service a (objects a) (sys_phase s a) (sys_state s) = Some (ep, st) \<Longrightarrow> runs_to abi service objects a s ep st"
  by (rule runs_to_step) (simp add: native_step.moved)

definition stage_result :: "NvU64 \<Rightarrow> stage \<Rightarrow> NvU32 \<Rightarrow> native_event \<times> phase" where
  "stage_result a stage c = (if c = 0 then stage_passed a stage else stage_failed a stage c)"

lemma checkpoint_runs:
  assumes "sys_phase s a = Check_load stage" "\<not> (iv_cleanup (objects a) \<and> iv_deadline_ns (objects a) = 0)"
    "checkpoint (objects a) (sys_state s) = (c, st)"
  shows "runs_to abi service objects a s (stage_result a stage c) st"
proof (cases "clock_available (w_clock (sys_state s))")
  case False
  then show ?thesis
    using assms by (intro runs_to_task) (auto simp: checkpoint_def clock_now_accesses stage_result_def)
next
  case True
  let ?s1 = "set_phase a (Check_read stage) (sys_state s) s"
  obtain now cl where r: "clock_read (w_clock (sys_state s)) = (now, cl)" by fastforce
  have one: "runs_to abi service objects a s (Stepped a, Check_read stage) (sys_state s)"
    using assms(1) True by (intro runs_to_task) simp
  have two: "runs_to abi service objects a ?s1 (check_reading a (objects a) stage now) ((sys_state s)\<lparr>w_clock := cl\<rparr>)"
    by (rule runs_to_task) (simp add: r)
  show ?thesis
  proof (cases "now = unavailable")
    case False
    then have "check_reading a (objects a) stage now = stage_result a stage c" "st = (sys_state s)\<lparr>w_clock := cl\<rparr>"
      using assms(2,3) True r by (auto simp: checkpoint_def clock_now_accesses check_reading_def stage_result_def)
    then show ?thesis using runs_to_trans [OF one] two by simp
  next
    case lost: True
    let ?s2 = "set_phase a (Check_lose stage) ((sys_state s)\<lparr>w_clock := cl\<rparr>) s"
    have st: "c = clock_unavailable" "st = (sys_state s)\<lparr>w_clock := clock_invalidate cl\<rparr>"
      using assms(2,3) True r lost by (auto simp: checkpoint_def clock_now_accesses)
    have "runs_to abi service objects a ?s2 (stage_result a stage c) st"
      by (rule runs_to_task) (simp add: st stage_result_def)
    moreover have "runs_to abi service objects a s (Stepped a, Check_lose stage) ((sys_state s)\<lparr>w_clock := cl\<rparr>)"
      using runs_to_trans [OF one] two lost by (simp add: check_reading_def)
    ultimately show ?thesis by (rule runs_to_trans [rotated])
  qed
qed

text \<open>From an admission that is still open to the result of the checkpoint.\<close>

lemma to_checkpoint_runs:
  assumes "runs_to abi service objects a s (to_checkpoint a (objects a) stage) st" "checkpoint (objects a) st = (c, st')"
  shows "runs_to abi service objects a s (stage_result a stage c) st'"
proof (cases "iv_cleanup (objects a) \<and> iv_deadline_ns (objects a) = 0")
  case True
  then show ?thesis using assms by (simp add: to_checkpoint_def checkpoint_def stage_result_def)
next
  case False
  then have "runs_to abi service objects a s (Stepped a, Check_load stage) st" using assms(1) by (auto simp: to_checkpoint_def)
  then show ?thesis using checkpoint_runs [of "set_phase a (Check_load stage) st s" a stage objects c st'] False assms(2)
    by (auto intro: runs_to_trans)
qed

text \<open>The admission of either function: closed, or on to its next test.\<close>

lemma admission_runs:
  assumes "runs_to abi service objects a s (fault_load abi a (objects a) stage (sys_state s)) (sys_state s)"
  shows "runs_to abi service objects a s
    (if closed_for (objects a) (sys_state s) then stage_failed a stage (ta_closed abi) else after_loads abi a (objects a) stage)
    (sys_state s)"
proof (cases "iv_cleanup (objects a) \<or> n_first_fault (w_native (sys_state s)) \<noteq> 0")
  case True
  then show ?thesis using assms by (auto simp: fault_load_def closed_for_def)
next
  case False
  then have "runs_to abi service objects a s (Stepped a, Clock_load stage) (sys_state s)" using assms by (simp add: fault_load_def)
  moreover have "runs_to abi service objects a (set_phase a (Clock_load stage) (sys_state s) s)
      (clock_load abi a (objects a) stage (sys_state s)) (sys_state s)"
    by (rule runs_to_task) simp
  ultimately show ?thesis using False by (auto simp: clock_load_def closed_for_def intro: runs_to_trans)
qed

text \<open>The kernel's refusals are errors.\<close>

definition abi_errors :: "thread_abi \<Rightarrow> bool" where
  "abi_errors abi \<longleftrightarrow> ta_err_no_fn abi \<noteq> 0 \<and> ta_closed abi \<noteq> 0 \<and> ta_invalid abi \<noteq> 0"

text \<open>Run without interruption, the steps of a stage are the function as one call makes it.\<close>

lemma start_runs:
  assumes "retired (sys_phase s a)" "native_start abi service a (objects a) flags (sys_state s) = ((c, h), st)" "abi_errors abi"
  shows "runs_to abi service objects a s (if c = 0 then (Started a, Queued) else (Refused a c, Idle)) st"
proof -
  let ?st = "sys_state s"
  have first: "runs_to abi service objects a s (start_call abi a (objects a) flags ?st) ?st"
    by (rule runs_to_step) (simp add: native_step.called [OF assms(1)])
  show ?thesis
  proof (cases "n_threads (w_native ?st)")
    case False
    then show ?thesis using first assms(2,3) by (auto simp: start_call_def native_start_def abi_errors_def)
  next
    case True
    then have adm: "runs_to abi service objects a s
        (if closed_for (objects a) ?st then stage_failed a (Starting flags) (ta_closed abi) else after_loads abi a (objects a) (Starting flags)) ?st"
      using first by (intro admission_runs) (simp add: start_call_def)
    show ?thesis
    proof (cases "closed_for (objects a) ?st \<or> \<not> iv_cleanup (objects a) \<and> iv_deadline_ns (objects a) = 0")
      case True
      then show ?thesis using adm assms(2,3) \<open>n_threads (w_native ?st)\<close>
        by (auto simp: native_start_def abi_errors_def after_loads_def stage_failed_def split: if_split_asm)
    next
      case False
      obtain c1 st1 where cp: "checkpoint (objects a) ?st = (c1, st1)" by fastforce
      have "runs_to abi service objects a s (stage_result a (Starting flags) c1) st1"
        using adm False by (intro to_checkpoint_runs [where objects = objects and a = a, OF _ cp]) (auto simp: after_loads_def)
      moreover have "runs_to abi service objects a (set_phase a (Hand_over flags) st1 s)
          (if c = 0 then (Started a, Queued) else (Refused a c, Idle)) st" if "c1 = 0"
        using that False assms(2) cp \<open>n_threads (w_native ?st)\<close>
        by (intro runs_to_task) (auto simp: native_start_def split: prod.split_asm)
      moreover have "c = c1" "st = st1" if "c1 \<noteq> 0"
        using that False assms(2) cp \<open>n_threads (w_native ?st)\<close> by (auto simp: native_start_def)
      ultimately show ?thesis
        by (cases "c1 = 0") (auto simp: stage_result_def stage_passed_def stage_failed_def intro: runs_to_trans)
    qed
  qed
qed

text \<open>A handler whose work on the shared state is a sequence of module accesses takes the steps of the relation.\<close>

lemma work_runs:
  assumes "module_access\<^sup>*\<^sup>* st st'" "sys_phase s a = Running" "sys_state s = st"
  shows "\<exists>es. native_run abi service objects s es (set_phase a Running st' s)"
  using assms(1)
proof (induction rule: rtranclp_induct)
  case base
  have "set_phase a Running st s = s" using assms(2,3) by (auto simp: set_phase_def fun_upd_idem)
  then show ?case using native_run.stop by metis
next
  case (step st1 st2)
  then obtain es where "native_run abi service objects s es (set_phase a Running st1 s)" by blast
  moreover have "native_step abi service objects (set_phase a Running st1 s) (Stepped a) (set_phase a Running st2 s)"
    using native_step.worked [of "set_phase a Running st1 s" a st2] step.hyps(2) by simp
  ultimately show ?case by (blast intro: native_run.more)
qed

lemma enter_runs:
  assumes "sys_phase s a = Queued" "native_enter abi (objects a) (sys_state s) = (Returned c, st)" "abi_errors abi"
    "\<And>x st. module_access\<^sup>*\<^sup>* st (snd (iv_handler (objects a) x st))"
  shows "\<exists>es. native_run abi service objects s (es @ [Ended a c]) (set_phase a (Finished c) st s)"
proof -
  let ?st = "sys_state s"
  have adm: "runs_to abi service objects a s
      (if closed_for (objects a) ?st then stage_failed a Entering (ta_closed abi) else after_loads abi a (objects a) Entering) ?st"
    using assms(1) by (intro admission_runs runs_to_task) simp
  obtain c0 st0 where en: "enter_admit abi (objects a) ?st = (c0, st0)" by fastforce
  have ent: "runs_to abi service objects a s (stage_result a Entering c0) st0"
  proof (cases "closed_for (objects a) ?st")
    case True
    then show ?thesis using adm en assms(3) by (simp add: enter_admit_def stage_result_def abi_errors_def)
  next
    case False
    then have cp: "checkpoint (objects a) ?st = (c0, st0)" using en by (simp add: enter_admit_def)
    show ?thesis using adm False by (intro to_checkpoint_runs [where objects = objects and a = a, OF _ cp]) (simp add: after_loads_def)
  qed
  show ?thesis
  proof (cases "c0 = 0")
    case False
    then have "c0 = c" "st0 = st" using assms(2) en by (simp_all add: native_enter_def)
    then show ?thesis using ent False by (simp add: runs_to_def stage_result_def stage_failed_def)
  next
    case True
    let ?s0 = "set_phase a Running st0 s"
    obtain result st1 where h: "iv_handler (objects a) (iv_context (objects a)) st0 = (Returned result, st1)"
      and l: "enter_leave (objects a) result st1 = (c, st)"
      using assms(2) en True by (auto simp: native_enter_def Let_def split: prod.split_asm outcome.split_asm)
    obtain es where es: "native_run abi service objects s (es @ [Began a]) ?s0"
      using ent True by (auto simp: runs_to_def stage_result_def stage_passed_def)
    obtain ws where ws: "native_run abi service objects ?s0 ws (set_phase a Running st1 s)"
      using work_runs [of st0 st1 ?s0 a abi service objects] assms(4) [of st0 "iv_context (objects a)"] h by auto
    let ?s1 = "set_phase a Running st1 s"
    have ret: "runs_to abi service objects a ?s1 (handler_return a (objects a) result) st1"
      using native_step.returned [of ?s1 a objects result] by (intro runs_to_step) simp
    have "runs_to abi service objects a ?s1 (Ended a c, Finished c) st"
    proof (cases "result = 0")
      case True
      then have "runs_to abi service objects a ?s1 (stage_result a Leaving c) st"
        using ret l by (intro to_checkpoint_runs) (simp_all add: handler_return_def enter_leave_def)
      then show ?thesis by (simp add: stage_result_def stage_passed_def stage_failed_def split: if_split_asm)
    next
      case False
      then show ?thesis using ret l by (simp add: handler_return_def enter_leave_def)
    qed
    then obtain ls where "native_run abi service objects ?s1 (ls @ [Ended a c]) (set_phase a (Finished c) st s)"
      by (auto simp: runs_to_def)
    from native_run_append [OF native_run_append [OF this ws] es]
    show ?thesis unfolding append_assoc [symmetric] by blast
  qed
qed

text \<open>A handler that faults where the kernel can abort it ends with the abort's code.\<close>

lemma fault_runs:
  assumes "sys_phase s a = Running" "operation \<noteq> 0" "wait_native_fault operation result (sys_state s) = (Aborted, st)"
  shows "native_run abi service objects s [Faulted a operation result, Stepped a, Ended a native_aborted]
    (set_phase a (Finished native_aborted) st s)"
proof -
  let ?n = "w_native (sys_state s)"
  let ?st1 = "(sys_state s)\<lparr>w_native := fault_latch operation result ?n\<rparr>"
  have adm: "n_threads ?n \<and> n_admitted ?n" and st: "st = ?st1\<lparr>w_native := fault_count (w_native ?st1)\<rparr>"
    using assms(3) native_fault_accesses [OF assms(2), of result ?n]
    by (simp_all add: wait_native_fault_def split: if_split_asm)
  have "native_step abi service objects s (Faulted a operation result) (set_phase a Fault_count ?st1 s)"
    by (rule native_step.faulted [OF assms(1,2)])
  moreover have "native_step abi service objects (set_phase a Fault_count ?st1 s) (Stepped a) (set_phase a Fault_abort st s)"
    using native_step.moved [of abi service a objects "set_phase a Fault_count ?st1 s" "Stepped a" Fault_abort st] st by simp
  moreover have "native_step abi service objects (set_phase a Fault_abort st s) (Ended a native_aborted)
      (set_phase a (Finished native_aborted) st s)"
    using native_step.moved [of abi service a objects "set_phase a Fault_abort st s" "Ended a native_aborted" "Finished native_aborted" st]
      adm st by (simp add: fault_count_def fault_latch_def)
  ultimately show ?thesis by (blast intro: native_run_cons native_run.stop)
qed

subsection \<open>What the modelled adapters keep\<close>

text \<open>A property of the state that each operation of a wait keeps is kept by the wait.\<close>

locale kept_by_ops =
  fixes ops :: "'s wait_ops" and P :: "'s \<Rightarrow> bool"
  assumes now_kept: "P s \<Longrightarrow> P (snd (op_now ops s))"
    and stop_kept: "P s \<Longrightarrow> P (snd (op_check_stop ops s))"
    and sleep_kept: "P s \<Longrightarrow> P (snd (op_sleep_ticks ops n s))"
    and relax_kept: "P s \<Longrightarrow> P (op_relax ops s)"
begin

lemma pause_kept: "P s \<Longrightarrow> P (snd (wait_pause ops opts remaining polls s))"
  using stop_kept [of s] sleep_kept relax_kept
  by (auto simp: wait_pause_def Let_def split: prod.splits)

lemma loop_kept: "ops' = ops \<Longrightarrow> P s \<Longrightarrow> P (snd (wait_loop ops' opts limit now stalled polls s))"
proof (induction ops' opts limit now stalled polls s rule: wait_loop.induct)
  case (1 ops' opts limit now stalled polls s)
  obtain paused s1 where p: "wait_pause ops' opts (limit - now) polls s = (paused, s1)" by fastforce
  obtain nxt s2 where n: "op_now ops' s1 = (nxt, s2)" by fastforce
  have P1: "P s1" using pause_kept [OF "1.prems"(2), of opts "limit - now" polls] p "1.prems"(1) by simp
  have P2: "P s2" using now_kept [OF P1] n "1.prems"(1) by simp
  note again = "1.IH"(1) [OF _ p [symmetric] _ n [symmetric]] and later = "1.IH"(2) [OF _ p [symmetric] _ n [symmetric]]
  show ?case
    by (subst wait_loop.simps) (use P1 P2 again later "1.prems" p n in auto)
qed

lemma run_kept: "P s \<Longrightarrow> P (snd (wait_run ops opts s))"
proof -
  assume "P s"
  obtain t s1 where n: "op_now ops s = (t, s1)" by fastforce
  have P1: "P s1" using now_kept [OF \<open>P s\<close>] n by simp
  then have "P (snd (wait_loop ops opts limit t 0 0 s1))" for limit by (rule loop_kept [OF refl])
  then show ?thesis using \<open>P s\<close> P1 n by (simp add: wait_run_def Let_def)
qed

end

text \<open>
  A property of the modules' variables that their single updates keep is kept by the provider's waits and
  yields, whatever the kernel does.
\<close>

locale kept_by_provider =
  fixes P :: "'w wait_state \<Rightarrow> bool"
  assumes snapshot_kept: "P st \<Longrightarrow> P (st\<lparr>w_clock := snd (snapshot (w_clock st))\<rparr>)"
    and reading_kept: "P st \<Longrightarrow> P (st\<lparr>w_clock := snd (r4nv_clock_now_ns (w_clock st))\<rparr>)"
    and invalidate_kept: "P st \<Longrightarrow> P (st\<lparr>w_clock := clock_invalidate (w_clock st)\<rparr>)"
    and world_kept: "P st \<Longrightarrow> P (set_w_world w st)"
    and sleeps_kept: "P st \<Longrightarrow> P (st\<lparr>w_sleep_calls := w_sleep_calls st + 1\<rparr>)"
    and spins_kept: "P st \<Longrightarrow> P (st\<lparr>w_spin_calls := w_spin_calls st + n\<rparr>)"
    and yields_kept: "P st \<Longrightarrow> P (st\<lparr>w_yield_calls := w_yield_calls st + 1\<rparr>)"
begin

lemma finish_kept: "P st \<Longrightarrow> P (snd (wait_finish r st))"
  using invalidate_kept by (simp add: wait_finish_def)

lemma ops_now_kept: "P (snd call) \<Longrightarrow> P (snd (snd (ops_now call)))"
  using reading_kept [of "snd call"] by (simp add: ops_now_def split_beta)

lemma ops_sleep_kept:
  assumes "P (snd call)"
  shows "P (snd (snd (ops_sleep_ticks ctx handle ticks call)))"
  using sleeps_kept [OF assms] yields_kept [OF assms] world_kept [OF sleeps_kept [OF assms]] world_kept [OF yields_kept [OF assms]]
  by (auto simp: ops_sleep_ticks_def Let_def split_beta)

sublocale ops: kept_by_ops "rm_ops ctx handle" "\<lambda>call. P (snd call)" for ctx handle
proof
  fix call :: "'w wait_call" and n assume kept: "P (snd call)"
  show "P (snd (snd (op_now (rm_ops ctx handle) call)))" using ops_now_kept [OF kept] by (simp add: rm_ops_def)
  show "P (snd (snd (op_check_stop (rm_ops ctx handle) call)))"
    using kept by (simp add: rm_ops_def ops_check_stop_def split: option.split)
  show "P (snd (snd (op_sleep_ticks (rm_ops ctx handle) n call)))" using ops_sleep_kept [OF kept] by (simp add: rm_ops_def)
  show "P (snd (op_relax (rm_ops ctx handle) call))" using kept by (simp add: rm_ops_def ops_relax_def split_beta Let_def)
qed

lemma wait_ns_kept:
  assumes "P st"
  shows "P (snd (r4nv_wait_ns ns mode st))"
proof (cases "wait_mode_of mode = None \<or> w_context st = None")
  case True
  then show ?thesis using assms by (auto simp: r4nv_wait_ns_def intro: finish_kept split: option.split)
next
  case False
  then obtain ctx m where c: "w_context st = Some ctx" "wait_mode_of mode = Some m" by auto
  obtain source c1 where s: "snapshot (w_clock st) = (source, c1)" by fastforce
  have k: "P (st\<lparr>w_clock := c1\<rparr>)" using snapshot_kept [OF assms] s by simp
  have run: "P (snd (snd (wait_run (rm_ops ctx handle) opts (0, st\<lparr>w_clock := c1\<rparr>))))" for handle opts
    by (rule ops.run_kept) (simp add: k)
  show ?thesis
  proof (cases source)
    case None
    then show ?thesis using c s k by (simp add: r4nv_wait_ns_def finish_kept)
  next
    case (Some info)
    have "\<exists>handle opts. r4nv_wait_ns ns mode st =
      (case wait_run (rm_ops ctx handle) opts (0, st\<lparr>w_clock := c1\<rparr>) of (result, spins, st) \<Rightarrow>
         wait_finish result (st\<lparr>w_spin_calls := w_spin_calls st + spins\<rparr>))"
      using c s Some by (simp add: r4nv_wait_ns_def Let_def) blast
    then obtain handle opts where "r4nv_wait_ns ns mode st =
      (case wait_run (rm_ops ctx handle) opts (0, st\<lparr>w_clock := c1\<rparr>) of (result, spins, st) \<Rightarrow>
         wait_finish result (st\<lparr>w_spin_calls := w_spin_calls st + spins\<rparr>))" by blast
    then show ?thesis
      using run [of handle opts]
      by (cases "wait_run (rm_ops ctx handle) opts (0, st\<lparr>w_clock := c1\<rparr>)") (simp add: finish_kept spins_kept)
  qed
qed

lemma schedule_kept:
  assumes "P st"
  shows "P (snd (r4nv_schedule ticks st))"
proof (cases "w_context st")
  case None
  then show ?thesis using assms by (simp add: r4nv_schedule_def finish_kept)
next
  case (Some ctx)
  have one: "P (snd (snd (ops_now (0, st))))" using ops_now_kept [of "(0, st)"] assms by simp
  have two: "P (snd (snd (ops_sleep_ticks ctx handle 0 (snd (ops_now (0, st))))))" for handle
    by (rule ops_sleep_kept [OF one])
  have three: "P (snd (snd (ops_now (snd (ops_sleep_ticks ctx handle 0 (snd (ops_now (0, st))))))))" for handle
    by (rule ops_now_kept [OF two])
  show ?thesis
    using assms Some one two three wait_ns_kept [OF assms] by (simp add: r4nv_schedule_def Let_def split_beta finish_kept)
qed

end

text \<open>So a wait or a yield is a sequence of the accesses a handler may make, whatever the kernel does.\<close>

lemma reading_accesses: "module_access\<^sup>*\<^sup>* st (st\<lparr>w_clock := snd (r4nv_clock_now_ns (w_clock st))\<rparr>)"
proof (cases "clock_available (w_clock st)")
  case True
  let ?st1 = "st\<lparr>w_clock := snd (clock_read (w_clock st))\<rparr>"
  have "module_access st ?st1" "module_access ?st1 (?st1\<lparr>w_clock := clock_invalidate (w_clock ?st1)\<rparr>)"
    by (rule module_access.intros)+
  then show ?thesis using True
    by (auto simp: clock_now_accesses split_beta intro: rtranclp.rtrancl_into_rtrancl converse_rtranclp_into_rtranclp)
qed (simp add: clock_now_accesses)

lemma snapshot_accesses: "module_access\<^sup>*\<^sup>* st (st\<lparr>w_clock := snd (snapshot (w_clock st))\<rparr>)"
proof -
  have one: "module_access\<^sup>*\<^sup>* st (set_w_world w st)" for w by (rule r_into_rtranclp) (rule module_access.intros)
  have "module_access (set_w_world w st) ((set_w_world w st)\<lparr>w_clock := clock_invalidate (w_clock (set_w_world w st))\<rparr>)" for w
    by (rule module_access.intros)
  then have two: "module_access\<^sup>*\<^sup>* st (st\<lparr>w_clock := (w_clock st)\<lparr>c_world := w, c_failed := True\<rparr>\<rparr>)" for w
    using rtranclp.rtrancl_into_rtrancl [of module_access st "set_w_world w st"] one [of w] by (simp add: clock_invalidate_def)
  show ?thesis using one two by (auto simp: snapshot_def Let_def split: option.split prod.split)
qed

interpretation accesses_by_wait: kept_by_provider "module_access\<^sup>*\<^sup>* st" for st :: "'w wait_state"
  by unfold_locales
    (auto intro: rtranclp_trans [OF _ reading_accesses] rtranclp_trans [OF _ snapshot_accesses] module_access.intros
      rtranclp.rtrancl_into_rtrancl)

lemma wait_accesses:
  "module_access\<^sup>*\<^sup>* st (snd (r4nv_wait_ns ns mode st))" "module_access\<^sup>*\<^sup>* st (snd (r4nv_schedule ticks st))"
  by (rule accesses_by_wait.wait_ns_kept accesses_by_wait.schedule_kept, simp)+

lemma usleep_runs:
  assumes "sys_phase s a = Running"
    "nvkms_usleep r4nv_wait_ns wait_native_fault usec (sys_state s) = (Returned (), st)"
  shows "\<exists>es. native_run abi service objects s es (set_phase a Running st s)"
proof (rule work_runs [OF _ assms(1) refl])
  have "st = snd (r4nv_wait_ns (usec * 1000) (if usec < 1000 then 0 else 2) (sys_state s))"
    using assms(2) by (auto simp: nvkms_usleep_def Let_def split: prod.split_asm if_split_asm)
  then show "module_access\<^sup>*\<^sup>* (sys_state s) st" by (simp add: wait_accesses)
qed

subsection \<open>The latch through the steps\<close>

text \<open>A latched fault and a lost clock are not taken back: each access keeps them.\<close>

definition latch_kept :: "'w wait_state \<Rightarrow> 'w wait_state \<Rightarrow> bool" where
  "latch_kept st st' \<longleftrightarrow>
     (n_first_fault (w_native st) \<noteq> 0 \<longrightarrow> n_first_fault (w_native st') = n_first_fault (w_native st)) \<and>
     (\<not> clock_available (w_clock st) \<longrightarrow> \<not> clock_available (w_clock st'))"

lemma latch_kept_trans: "latch_kept a b \<Longrightarrow> latch_kept b c \<Longrightarrow> latch_kept a c"
  by (simp add: latch_kept_def)

lemma read_available: "clock_available (snd (clock_read c)) = clock_available c"
  by (simp add: clock_read_def clock_available_def Let_def split: option.split prod.split)

lemma invalidate_dead: "\<not> clock_available (clock_invalidate c)"
  by (simp add: clock_invalidate_def clock_available_def)

lemma world_available: "clock_available (c\<lparr>c_world := w\<rparr>) = clock_available c"
  by (simp add: clock_available_def)

lemma latch_kept_access: "module_access st st' \<Longrightarrow> latch_kept st st'"
  by (cases rule: module_access.cases) (auto simp: latch_kept_def read_available invalidate_dead world_available)

lemma latch_kept_task: "task_step abi service a call p st = Some (ep, st') \<Longrightarrow> latch_kept st st'"
  by (cases "(abi, service, a, call, p, st)" rule: task_step.cases)
    (auto simp: latch_kept_def invalidate_dead world_available fault_count_def split: prod.split_asm if_split_asm,
      metis read_available snd_conv)

lemma native_step_latch: "native_step abi service objects s e s' \<Longrightarrow> latch_kept (sys_state s) (sys_state s')"
  by (induction rule: native_step.induct)
    (auto intro: latch_kept_task latch_kept_access simp: latch_kept_def [of _ "w_native_update _ _"] fault_latch_def,
      simp_all add: latch_kept_def)

subsection \<open>Admission\<close>

text \<open>
  A failure: a latched fault or a lost clock. What an admission under way can still bring about after one: its
  Task has made the load that would have shown it. With the fault latched that is the load of the fault,
  after which the clock is still asked; with the clock lost it is the checkpoint's load.
\<close>

definition failed_state :: "'w wait_state \<Rightarrow> bool" where
  "failed_state st \<longleftrightarrow> n_first_fault (w_native st) \<noteq> 0 \<or> \<not> clock_available (w_clock st)"

definition check_window :: "'w wait_state \<Rightarrow> stage \<Rightarrow> phase \<Rightarrow> bool" where
  "check_window st stage p \<longleftrightarrow>
     p = Check_read stage \<or> (p = Clock_load stage \<or> p = Check_load stage) \<and> clock_available (w_clock st)"

definition entry_window :: "'w wait_state \<Rightarrow> phase \<Rightarrow> nat" where
  "entry_window st p = of_bool (check_window st Entering p)"

definition start_window :: "'w wait_state \<Rightarrow> phase \<Rightarrow> nat" where
  "start_window st p = of_bool (\<exists>flags. check_window st (Starting flags) p \<or> p = Hand_over flags)"

lemmas window_defs = entry_window_def start_window_def check_window_def

lemma failed_kept: "latch_kept st st' \<Longrightarrow> failed_state st \<Longrightarrow> failed_state st'"
  by (auto simp: latch_kept_def failed_state_def)

lemma window_shrinks:
  "latch_kept st st' \<Longrightarrow> entry_window st' p \<le> entry_window st p" "latch_kept st st' \<Longrightarrow> start_window st' p \<le> start_window st p"
  by (auto simp: window_defs latch_kept_def)

text \<open>In a failed state a step of an ordinary Task uses its window up when it begins or is handed over.\<close>

lemma task_window:
  assumes "task_step abi service a call p st = Some ((e, p'), st')" "\<not> iv_cleanup call" "failed_state st"
  shows "of_bool (e = Began a) + entry_window st' p' \<le> entry_window st p"
    "of_bool (e = Started a) + start_window st' p' \<le> start_window st p"
  using assms
  by (cases "(abi, service, a, call, p, st)" rule: task_step.cases;
      auto simp: stage_defs window_defs failed_state_def split: prod.split_asm if_split_asm stage.split_asm)+

lemma call_window:
  assumes "start_call abi a call flags st = (e, p')" "\<not> iv_cleanup call" "failed_state st" "retired p"
  shows "of_bool (e = Began a) + entry_window st p' \<le> entry_window st p"
    "of_bool (e = Started a) + start_window st p' \<le> start_window st p"
  using assms by (auto simp: stage_defs window_defs failed_state_def split: if_split_asm)

lemma return_window:
  assumes "handler_return a call result = (e, p')" "\<not> iv_cleanup call"
  shows "of_bool (e = Began a) + entry_window st p' \<le> entry_window st Running"
    "of_bool (e = Started a) + start_window st p' \<le> start_window st Running"
  using assms by (auto simp: stage_defs window_defs split: if_split_asm)

text \<open>Each event is one of the Task that moves.\<close>

definition event_task :: "native_event \<Rightarrow> NvU64" where
  "event_task e = (case e of Started a \<Rightarrow> a | Refused a _ \<Rightarrow> a | Began a \<Rightarrow> a | Stepped a \<Rightarrow> a | Faulted a _ _ \<Rightarrow> a | Ended a _ \<Rightarrow> a)"

lemma event_tasks:
  "start_call abi a call flags st = (e, p) \<Longrightarrow> event_task e = a"
  "handler_return a call result = (e, p) \<Longrightarrow> event_task e = a"
  "task_step abi service a call q st = Some ((e, p), st') \<Longrightarrow> event_task e = a"
  by (auto simp: stage_defs event_task_def split: if_split_asm stage.split_asm)
    (cases "(abi, service, a, call, q, st)" rule: task_step.cases;
      auto simp: stage_defs event_task_def split: if_split_asm stage.split_asm prod.split_asm)

lemma step_window:
  assumes "native_step abi service objects s e s'" "\<not> iv_cleanup (objects a)" "failed_state (sys_state s)"
  shows "of_bool (e = Began a) + entry_window (sys_state s') (sys_phase s' a) \<le> entry_window (sys_state s) (sys_phase s a) \<and>
    of_bool (e = Started a) + start_window (sys_state s') (sys_phase s' a) \<le> start_window (sys_state s) (sys_phase s a)"
proof -
  note kept = window_shrinks [OF native_step_latch [OF assms(1)]]
  have other: "?thesis" if "event_task e \<noteq> a" "sys_phase s' a = sys_phase s a"
    using that kept by (auto simp: event_task_def)
  from assms(1) show ?thesis
  proof (cases rule: native_step.cases)
    case (called b flags p)
    show ?thesis
    proof (cases "b = a")
      case True
      then show ?thesis using called call_window [of abi a "objects a" flags "sys_state s" e p "sys_phase s a"] assms(2,3) by simp
    qed (use called other event_tasks(1) [OF called(3)] in auto)
  next
    case (moved b p st)
    show ?thesis
    proof (cases "b = a")
      case True
      then show ?thesis using moved task_window [of abi service a "objects a" "sys_phase s a" "sys_state s" e p st] assms(2,3) by simp
    qed (use moved other event_tasks(3) [OF moved(2)] in auto)
  next
    case (worked b st)
    then show ?thesis by (auto simp: window_defs) (use kept in \<open>auto simp: window_defs split: if_split_asm\<close>)
  next
    case (faulted b operation result)
    then show ?thesis by (auto simp: window_defs)
  next
    case (returned b result p)
    show ?thesis
    proof (cases "b = a")
      case True
      then show ?thesis using returned return_window [of a "objects a" result e p "sys_state s"] assms(2) by simp
    qed (use returned other event_tasks(2) [OF returned(3)] in auto)
  qed
qed

section \<open>Properties\<close>

text \<open>
  C6: No ordinary callback is admitted after a failure. Take any state in which a native fault is latched or
  the clock is lost, and any interleaving of the Tasks from there, one access to the shared state at a
  time. An ordinary invocation begins in it at most once, and only if in that state its Task had already made the
  load of its entry check that would have shown the failure; it is handed to the kernel at most once, and only
  if the load of \<^verbatim>\<open>start\<close> had already been made. Queued ones and new ones are turned away. The latched fault stays
  the one it was and the clock stays lost, whatever the handlers do.
\<close>

theorem no_ordinary_call_after_failure:
  assumes "native_run abi service objects s es s'" "\<not> iv_cleanup (objects a)"
    "n_first_fault (w_native (sys_state s)) \<noteq> 0 \<or> \<not> clock_available (w_clock (sys_state s))"
  shows "count_list es (Began a) \<le> entry_window (sys_state s) (sys_phase s a) \<and>
    count_list es (Started a) \<le> start_window (sys_state s) (sys_phase s a) \<and>
    latch_kept (sys_state s) (sys_state s')"
proof -
  have "count_list es (Began a) + entry_window (sys_state s') (sys_phase s' a) \<le> entry_window (sys_state s) (sys_phase s a) \<and>
    count_list es (Started a) + start_window (sys_state s') (sys_phase s' a) \<le> start_window (sys_state s) (sys_phase s a) \<and>
    latch_kept (sys_state s) (sys_state s')"
    using assms
  proof (induction rule: native_run.induct)
    case (more s es s' e s'')
    then have IH: "latch_kept (sys_state s) (sys_state s')"
      "count_list es (Began a) + entry_window (sys_state s') (sys_phase s' a) \<le> entry_window (sys_state s) (sys_phase s a)"
      "count_list es (Started a) + start_window (sys_state s') (sys_phase s' a) \<le> start_window (sys_state s) (sys_phase s a)"
      by simp_all
    have "failed_state (sys_state s')" using failed_kept [OF IH(1)] more.prems(2) by (simp add: failed_state_def)
    from step_window [OF more.hyps(2) more.prems(1) this] IH latch_kept_trans [OF IH(1) native_step_latch [OF more.hyps(2)]]
    show ?case by (auto simp: of_bool_def split: if_split_asm)
  qed (simp add: latch_kept_def)
  then show ?thesis by simp
qed

definition sample_abi :: thread_abi where
  "sample_abi = \<lparr>ta_err_no_fn = 1, ta_closed = 2, ta_invalid = 3, ta_abortable = 8, ta_enter = 4096\<rparr>"

definition sample_threads :: "NvU64 thread_service" where
  "sample_threads = \<lparr>ts_current_request = (\<lambda>w. Some \<lparr>tr_handler = 4096, tr_context = 16, tr_flags = 8\<rparr>),
     ts_start = (\<lambda>request w. ((0, 5), w))\<rparr>"

text \<open>At 16 and at 48 an ordinary invocation, at 32 a cleanup.\<close>

definition sample_calls :: "NvU64 \<Rightarrow> NvU64 invocation" where
  "sample_calls a = \<lparr>iv_handler = (\<lambda>c st. (Returned 0, st)), iv_context = a, iv_cleanup = (a = 32),
     iv_deadline_ns = (if a = 32 then 0 else 50000)\<rparr>"

definition sample_native :: "NvU64 \<Rightarrow> NvU64 wait_state" where
  "sample_native fault = \<lparr>w_context = None, w_threads = True, w_sleep_calls = 0, w_spin_calls = 0, w_yield_calls = 0,
     w_clock = sample_clock, w_native = \<lparr>n_threads = True, n_admitted = True, n_first_fault = fault, n_faults = 1\<rparr>\<rparr>"

lemmas sample_native_defs = sample_native_def sample_calls_def sample_abi_def sample_threads_def sample_clock_def

text \<open>
  With a fault latched, the Task at 48 is past its loads and begins, the one at 16 is queued and is turned
  away, the cleanup at 32 begins.
\<close>

definition sample_failed :: "NvU64 native_system" where
  "sample_failed = \<lparr>sys_state = sample_native 0x400000001,
     sys_phase = (\<lambda>a. if a = 48 then Check_read Entering else if a = 16 \<or> a = 32 then Queued else Idle)\<rparr>"

theorem no_ordinary_call_after_failure_witness:
  "\<exists>s'. native_run sample_abi sample_threads sample_calls sample_failed [Ended 16 2, Began 48, Began 32] s' \<and>
    count_list [Ended 16 2, Began 48, Began 32] (Began 48) \<le> entry_window (sys_state sample_failed) (sys_phase sample_failed 48) \<and>
    entry_window (sys_state sample_failed) (sys_phase sample_failed 16) = 0 \<and>
    n_first_fault (w_native (sys_state s')) = 0x400000001"
proof -
  let ?st = "sample_native 0x400000001"
  let ?st2 = "?st\<lparr>w_clock := sample_clock\<lparr>c_world := 12500, c_readings := [10000]\<rparr>\<rparr>"
  let ?s1 = "set_phase 16 (Finished 2) ?st sample_failed"
  let ?s2 = "set_phase 48 Running ?st2 ?s1"
  let ?s3 = "set_phase 32 Running ?st2 ?s2"
  have one: "native_step sample_abi sample_threads sample_calls sample_failed (Ended 16 2) ?s1"
    by (rule native_step.moved) (simp add: sample_failed_def stage_defs sample_native_defs)
  have two: "native_step sample_abi sample_threads sample_calls ?s1 (Began 48) ?s2"
    by (rule native_step.moved) (simp add: sample_failed_def stage_defs clock_read_def sample_native_defs)
  have three: "native_step sample_abi sample_threads sample_calls ?s2 (Began 32) ?s3"
    by (rule native_step.moved) (simp add: sample_failed_def stage_defs sample_native_defs)
  have run: "native_run sample_abi sample_threads sample_calls sample_failed [Ended 16 2, Began 48, Began 32] ?s3"
    using native_run_cons [OF one native_run_cons [OF two native_run_cons [OF three native_run.stop]]] .
  from no_ordinary_call_after_failure [OF run, of 48] run show ?thesis
    by (intro exI [of _ ?s3]) (simp add: sample_failed_def window_defs sample_native_defs)
qed

text \<open>
  An ordinary call has its deadline once it is past the loads of \<^verbatim>\<open>start\<close>, was handed over before it is
  queued, and began before its handler runs or it leaves.
\<close>

definition stage_of :: "phase \<Rightarrow> stage option" where
  "stage_of p = (case p of Clock_load stage \<Rightarrow> Some stage | Check_load stage \<Rightarrow> Some stage | Check_read stage \<Rightarrow> Some stage
    | Check_lose stage \<Rightarrow> Some stage | _ \<Rightarrow> None)"

definition call_history :: "'w invocation \<Rightarrow> NvU64 \<Rightarrow> native_event list \<Rightarrow> phase \<Rightarrow> bool" where
  "call_history call a es p \<longleftrightarrow>
     (iv_cleanup call \<or> iv_deadline_ns call \<noteq> 0 \<or> retired p \<or> (\<exists>flags. p = Clock_load (Starting flags))) \<and>
     (p = Queued \<or> stage_of p = Some Entering \<longrightarrow> Started a \<in> set es) \<and>
     (p = Running \<or> p = Fault_count \<or> p = Fault_abort \<or> stage_of p = Some Leaving \<longrightarrow> Began a \<in> set es)"

lemmas history_defs = call_history_def stage_of_def retired_def

lemma task_history:
  assumes "task_step abi service a call p st = Some ((e, p'), st')" "call_history call a es p"
  shows "call_history call a (es @ [e]) p'"
  using assms
  by (cases "(abi, service, a, call, p, st)" rule: task_step.cases)
    (auto simp: stage_defs history_defs split: prod.split_asm if_split_asm stage.split_asm)

lemma step_history:
  assumes "native_step abi service objects s e s'" "call_history (objects a) a es (sys_phase s a)"
  shows "call_history (objects a) a (es @ [e]) (sys_phase s' a)"
proof -
  have more: "call_history (objects a) a (es @ [e]) (sys_phase s a)" using assms(2) by (auto simp: call_history_def)
  from assms(1) show ?thesis
  proof (cases rule: native_step.cases)
    case (moved b p st)
    then show ?thesis
      using more task_history [of abi service a "objects a" "sys_phase s a" "sys_state s" e p st es] assms(2) by (cases "b = a") simp_all
  qed (use more in \<open>auto simp: stage_defs history_defs split: if_split_asm stage.split_asm\<close>)
qed

lemma run_history:
  "native_run abi service objects s es s' \<Longrightarrow> sys_phase s a = Idle \<Longrightarrow> call_history (objects a) a es (sys_phase s' a)"
proof (induction rule: native_run.induct)
  case (more s es s' e s'')
  then show ?case by (blast intro: step_history)
qed (simp add: history_defs)

text \<open>Where a Task can begin or end with 0.\<close>

lemma passing_step:
  assumes "task_step abi service a call p st = Some ((e, p'), st')" "e = Began a \<or> e = Ended a 0" "\<not> iv_cleanup call" "abi_errors abi"
    "iv_deadline_ns call \<noteq> 0"
  shows "p = Check_read (if e = Began a then Entering else Leaving) \<and>
    (\<exists>t. c_readings (w_clock st') = c_readings (w_clock st) @ [t] \<and> t < iv_deadline_ns call)"
  using assms
  by (cases "(abi, service, a, call, p, st)" rule: task_step.cases)
    (auto simp: stage_defs abi_errors_def clock_read_def split: prod.split_asm if_split_asm stage.split_asm option.split_asm)

text \<open>
  C37: An ordinary callback works within its deadline. In every interleaving from a state without Tasks, one
  access to the shared state at a time, when an ordinary invocation begins, or ends with the code 0, it is
  in the checkpoint before or after its handler, the clock is read at that very step and the reading is before
  the invocation's deadline. One that begins had been handed to the kernel; one that ends with 0 had begun.
\<close>

theorem ordinary_call_in_time:
  assumes "native_run abi service objects s es s1" "\<forall>a. sys_phase s a = Idle" "abi_errors abi"
    "native_step abi service objects s1 e s2" "e = Began a \<or> e = Ended a 0" "\<not> iv_cleanup (objects a)"
  shows "(\<exists>t. c_readings (w_clock (sys_state s2)) = c_readings (w_clock (sys_state s1)) @ [t] \<and> t < iv_deadline_ns (objects a)) \<and>
    sys_phase s1 a = Check_read (if e = Began a then Entering else Leaving) \<and>
    (if e = Began a then Started a else Began a) \<in> set es"
proof -
  have h: "call_history (objects a) a es (sys_phase s1 a)" using run_history [OF assms(1)] assms(2) by blast
  have a: "event_task e = a" using assms(5) by (auto simp: event_task_def)
  from assms(4) obtain p st where step: "task_step abi service a (objects a) (sys_phase s1 a) (sys_state s1) = Some ((e, p), st)"
    "sys_state s2 = st"
  proof (cases rule: native_step.cases)
    case (called b flags p)
    have "b = a" using event_tasks(1) [OF called(3)] a by simp
    then show ?thesis using called(3) assms(5,6) by (auto simp: stage_defs split: if_split_asm)
  next
    case (moved b p st)
    then show ?thesis using that a event_tasks(3) [of abi service b "objects b" "sys_phase s1 b" "sys_state s1" e p st] by simp
  next
    case (returned b result p)
    have "b = a" using event_tasks(2) [OF returned(3)] a by simp
    then show ?thesis using returned(3) assms(5,6) by (auto simp: stage_defs split: if_split_asm)
  qed (use assms(5) in auto)
  have p: "\<not> retired (sys_phase s1 a)" "sys_phase s1 a \<noteq> Clock_load (Starting flags)" for flags
    using step(1) assms(3,5,6) by (auto simp: retired_def stage_defs split: phase.split_asm if_split_asm)
  then have "iv_deadline_ns (objects a) \<noteq> 0" using h assms(6) by (auto simp: call_history_def)
  note pass = passing_step [OF step(1) assms(5,6,3) this]
  then show ?thesis using h step(2) by (auto simp: history_defs)
qed

lemma sample_reading:
  "clock_read (sample_clock\<lparr>c_world := w, c_readings := rs\<rparr>) = (w, sample_clock\<lparr>c_world := w + 2500, c_readings := rs @ [w]\<rparr>)"
  by (simp add: clock_read_def sample_clock_def)

lemma sample_started:
  "\<exists>es. native_run sample_abi sample_threads sample_calls \<lparr>sys_state = sample_native 0, sys_phase = (\<lambda>a. Idle)\<rparr> (es @ [Started 16])
     (set_phase 16 Queued ((sample_native 0)\<lparr>w_clock := sample_clock\<lparr>c_world := 12500, c_readings := [10000]\<rparr>\<rparr>)
       \<lparr>sys_state = sample_native 0, sys_phase = (\<lambda>a. Idle)\<rparr>)"
proof -
  let ?s = "\<lparr>sys_state = sample_native 0, sys_phase = (\<lambda>a. Idle)\<rparr>"
  have "runs_to sample_abi sample_threads sample_calls 16 ?s (if (0 :: NvU32) = 0 then (Started 16, Queued) else (Refused 16 0, Idle))
      ((sample_native 0)\<lparr>w_clock := sample_clock\<lparr>c_world := 12500, c_readings := [10000]\<rparr>\<rparr>)"
    by (rule start_runs [where flags = 0 and h = 5])
      (simp_all add: retired_def native_start_def closed_for_def checkpoint_def r4nv_clock_now_ns_def clock_available_def
        abi_errors_def sample_native_defs)
  then show ?thesis by (simp add: runs_to_def)
qed

theorem ordinary_call_in_time_witness:
  "\<exists>t es s2. native_run sample_abi sample_threads sample_calls \<lparr>sys_state = sample_native 0, sys_phase = (\<lambda>a. Idle)\<rparr> (es @ [Began 16]) s2 \<and>
     c_readings (w_clock (sys_state s2)) = [10000, t] \<and> t < 50000 \<and> Started 16 \<in> set es"
proof -
  let ?s = "\<lparr>sys_state = sample_native 0, sys_phase = (\<lambda>a. Idle)\<rparr>"
  let ?st = "\<lambda>w rs. (sample_native 0)\<lparr>w_clock := sample_clock\<lparr>c_world := w, c_readings := rs\<rparr>\<rparr>"
  obtain es where es: "native_run sample_abi sample_threads sample_calls ?s (es @ [Started 16]) (set_phase 16 Queued (?st 12500 [10000]) ?s)"
    using sample_started by blast
  let ?q = "\<lambda>p. set_phase 16 p (?st 12500 [10000]) ?s"
  have a: "native_step sample_abi sample_threads sample_calls (?q Queued) (Stepped 16) (?q (Clock_load Entering))"
    "native_step sample_abi sample_threads sample_calls (?q (Clock_load Entering)) (Stepped 16) (?q (Check_load Entering))"
    "native_step sample_abi sample_threads sample_calls (?q (Check_load Entering)) (Stepped 16) (?q (Check_read Entering))"
    using native_step.moved [of sample_abi sample_threads 16 sample_calls "?q Queued" "Stepped 16" "Clock_load Entering"]
      native_step.moved [of sample_abi sample_threads 16 sample_calls "?q (Clock_load Entering)" "Stepped 16" "Check_load Entering"]
      native_step.moved [of sample_abi sample_threads 16 sample_calls "?q (Check_load Entering)" "Stepped 16" "Check_read Entering"]
    by (simp_all add: stage_defs clock_available_def sample_native_defs)
  have last: "native_step sample_abi sample_threads sample_calls (?q (Check_read Entering)) (Began 16)
      (set_phase 16 Running (?st 15000 [10000, 12500]) ?s)"
    using native_step.moved [of sample_abi sample_threads 16 sample_calls "?q (Check_read Entering)" "Began 16" Running "?st 15000 [10000, 12500]"]
    by (simp add: sample_reading stage_defs sample_calls_def sample_native_def)
  note run = native_run.more [OF native_run.more [OF native_run.more [OF es a(1)] a(2)] a(3)]
  note in_time = ordinary_call_in_time [OF run _ _ last, of 16]
  have "12500 < iv_deadline_ns (sample_calls 16) \<and> Started 16 \<in> set ((((es @ [Started 16]) @ [Stepped 16]) @ [Stepped 16]) @ [Stepped 16])"
    using in_time by (simp add: abi_errors_def sample_abi_def) (simp add: sample_calls_def)
  then show ?thesis
    using native_run.more [OF run last]
    by (intro exI [of _ 12500] exI [of _ "(((es @ [Started 16]) @ [Stepped 16]) @ [Stepped 16]) @ [Stepped 16]"]
        exI [of _ "set_phase 16 Running (?st 15000 [10000, 12500]) ?s"]) (simp add: sample_calls_def)
qed

text \<open>
  C38: A wait inside a native invocation ends before the invocation's deadline. When the kernel reports as the
  current Task's request the one that \<^verbatim>\<open>start\<close> made for the invocation at an address, and the wait is not
  in an interrupt, \<^verbatim>\<open>currentInvocation\<close>, as the wait calls it, finds that invocation; so a wait that reports success
  took its full time and its last reading is before the deadline in that invocation.
\<close>

theorem wait_within_invocation:
  assumes "r4nv_wait_ns ns mode st = (0, st')" "w_context st = Some ctx"
    "\<not> ws_irq ctx (c_world (snd (snapshot (w_clock st))))"
    "n_threads (w_native st)" "ta_abortable (ws_abi ctx) \<noteq> 0" "a \<noteq> 0"
    "ts_current_request (ws_native ctx) (c_world (snd (snapshot (w_clock st)))) = Some (start_request (ws_abi ctx) a flags)"
    "ws_deadline_at ctx a = iv_deadline_ns (objects a)" "iv_deadline_ns (objects a) \<noteq> 0"
  shows "wait_invocation ctx (st\<lparr>w_clock := snd (snapshot (w_clock st))\<rparr>) = Some a \<and>
    elapsed (unat ns) (c_readings (w_clock st)) (c_readings (w_clock st')) \<and>
    last (c_readings (w_clock st')) < iv_deadline_ns (objects a)"
proof -
  have "(flags OR ta_abortable (ws_abi ctx)) AND ta_abortable (ws_abi ctx) = ta_abortable (ws_abi ctx)"
    by (rule bit_word_eqI) (auto simp: bit_simps)
  then have found: "wait_invocation ctx (st\<lparr>w_clock := snd (snapshot (w_clock st))\<rparr>) = Some a"
    using assms(4-7) by (simp add: wait_invocation_def currentInvocation_def start_request_def)
  show ?thesis
  proof (rule wait_ns_success [OF assms(1)])
    fix ctx' d'
    assume *: "w_context st = Some ctx'" "elapsed (unat ns) (c_readings (w_clock st)) (c_readings (w_clock st'))"
      "d' = 0 \<or> last (c_readings (w_clock st')) < d'"
      "\<not> ws_irq ctx' (c_world (snd (snapshot (w_clock st)))) \<Longrightarrow>
         d' = deadline_of ctx' (wait_invocation ctx' (st\<lparr>w_clock := snd (snapshot (w_clock st))\<rparr>))"
    then have "d' = iv_deadline_ns (objects a)" using assms(2,3,8) found by (simp add: deadline_of_def)
    then show ?thesis using * assms(9) found by simp
  qed
qed

definition sample_waits :: "NvU64 wait_service" where
  "sample_waits = \<lparr>ws_frequency = (\<lambda>w. 1000), ws_irq = (\<lambda>w. False), ws_sleepable = (\<lambda>w. False), ws_current = (\<lambda>w. 0),
     ws_abi = sample_abi, ws_native = sample_threads, ws_deadline_at = (\<lambda>a. iv_deadline_ns (sample_calls a)),
     ws_stop_requested = (\<lambda>h w. Some False), ws_thread_sleep = (\<lambda>n w. (Slept, w)), ws_wait_ticks = (\<lambda>n w. w)\<rparr>"

theorem wait_within_invocation_witness:
  "\<exists>st'. r4nv_wait_ns 2000 0 ((sample_native 0)\<lparr>w_context := Some sample_waits\<rparr>) = (0, st') \<and>
     last (c_readings (w_clock st')) < iv_deadline_ns (sample_calls 16)"
proof -
  let ?st = "(sample_native 0)\<lparr>w_context := Some sample_waits\<rparr>"
  have "fst (r4nv_wait_ns 2000 0 ?st) = 0"
    by (simp add: r4nv_wait_ns_def wait_mode_of_def snapshot_def wait_run_def wait_loop.simps wait_pause_def wait_ticks_def
        may_sleep_def rm_ops_def ops_now_def ops_check_stop_def ops_relax_def r4nv_clock_now_ns_def wait_finish_def result_code_def
        wait_invocation_def currentInvocation_def deadline_of_def sample_native_defs sample_waits_def)
  then obtain st' where run: "r4nv_wait_ns 2000 0 ?st = (0, st')" by (metis prod.collapse)
  have "last (c_readings (w_clock st')) < iv_deadline_ns (sample_calls 16)"
    using wait_within_invocation [OF run, of sample_waits 16 0 sample_calls]
    by (simp add: snapshot_def start_request_def sample_native_defs sample_waits_def)
  then show ?thesis using run by blast
qed

end
