(* ===== verification/Rm_WaitProbe.thy ===== *)
theory Rm_WaitProbe
  imports Rm_Wait
begin

text \<open>
  The driver's runtime check of the waits, \<^verbatim>\<open>src/rm/wait_probe.c\<close>, on the models of the clock and the waits. Each
  of its four delays is timed with the clock around it. A check that fails ends the probe with its negated
  line.
\<close>

section \<open>Definitions\<close>

definition probe_now :: "'w wait_state \<Rightarrow> NvU64 \<times> 'w wait_state" where
  "probe_now st = (let (t, c) = r4nv_clock_now_ns (w_clock st) in (t, st\<lparr>w_clock := c\<rparr>))"

text \<open>A delay with a status between two readings, and one that returns nothing or does not return.\<close>

definition timed_delay ::
  "('w wait_state \<Rightarrow> NV_STATUS \<times> 'w wait_state) \<Rightarrow> NvU64 \<Rightarrow> int \<Rightarrow> int \<Rightarrow> ('w wait_state \<Rightarrow> int outcome \<times> 'w wait_state) \<Rightarrow>
    'w wait_state \<Rightarrow> int outcome \<times> 'w wait_state" where
  "timed_delay delay ns status_line time_line continue st =
     (let (start, st) = probe_now st; (status, st) = delay st in
      if status \<noteq> NV_OK then (Returned (- status_line), st)
      else let (now, st) = probe_now st in
        if now - start \<ge> ns then continue st else (Returned (- time_line), st))"

definition timed_sleep ::
  "('w wait_state \<Rightarrow> unit outcome \<times> 'w wait_state) \<Rightarrow> NvU64 \<Rightarrow> int \<Rightarrow> ('w wait_state \<Rightarrow> int outcome \<times> 'w wait_state) \<Rightarrow>
    'w wait_state \<Rightarrow> int outcome \<times> 'w wait_state" where
  "timed_sleep sleep ns time_line continue st =
     (let (start, st) = probe_now st; (e, st) = sleep st in
      (case e of
         Stopped s \<Rightarrow> (Stopped s, st)
       | Returned _ \<Rightarrow>
           let (now, st) = probe_now st in
           if now - start \<ge> ns then continue st else (Returned (- time_line), st)))"

definition probe_yields :: "'w wait_state \<Rightarrow> int outcome \<times> 'w wait_state" where
  "probe_yields st =
     (let (status, st) = os_schedule r4nv_schedule st in
      if status \<noteq> NV_OK then (Returned (- 23), st)
      else (case nvkms_yield r4nv_schedule wait_native_fault st of
          (Stopped s, st) \<Rightarrow> (Stopped s, st)
        | (Returned _, st) \<Rightarrow> (Returned 0, st)))"

definition r4nv_wait_probe_healthy :: "'w wait_state \<Rightarrow> int outcome \<times> 'w wait_state" where
  "r4nv_wait_probe_healthy =
     timed_delay (os_delay_us r4nv_wait_ns 250) 250000 11 12
       (timed_delay (os_delay r4nv_wait_ns 25) 25000000 14 15
         (timed_sleep (nvkms_usleep r4nv_wait_ns wait_native_fault 250) 250000 18
           (timed_sleep (nvkms_usleep r4nv_wait_ns wait_native_fault 4100000) 4100000000 22
             probe_yields)))"

text \<open>The callback that delays in a Task of its own and reports what it saw.\<close>

record WaitProbe =
  wp_milliseconds :: NvU32
  wp_expected :: NV_STATUS
  wp_returned :: NvU32
  wp_observed :: NV_STATUS

definition r4nv_wait_probe_delay :: "WaitProbe \<Rightarrow> 'w wait_state \<Rightarrow> int \<times> WaitProbe \<times> 'w wait_state" where
  "r4nv_wait_probe_delay s st =
     (let (result, st) = os_delay r4nv_wait_ns (wp_milliseconds s) st;
          s = s\<lparr>wp_observed := result\<rparr>;
          s = s\<lparr>wp_returned := 1\<rparr> in
      if result = wp_expected s then (0, s, st) else (- 33, s, st))"

section \<open>A timed delay passes its check\<close>

abbreviation readings :: "'w wait_state \<Rightarrow> NvU64 list" where
  "readings st \<equiv> c_readings (w_clock st)"

lemma dead_clock_waits: "\<not> clock_available (w_clock st) \<Longrightarrow> fst (r4nv_wait_ns ns mode st) \<noteq> 0"
  by (auto simp: r4nv_wait_ns_def wait_finish_def result_code_def snapshot_def clock_available_def Let_def split: option.split)

lemma probe_now_prefix: "probe_now st = (t, st') \<Longrightarrow> \<exists>new. readings st' = readings st @ new"
  by (auto simp: probe_now_def r4nv_clock_now_ns_def Let_def split: option.split_asm prod.split_asm if_split_asm)

lemma probe_now_reading:
  assumes "probe_now st = (t, st')"
  shows "t = unavailable \<and> \<not> clock_available (w_clock st') \<or> t \<noteq> unavailable \<and> readings st' = readings st @ [t]"
  using assms rm_clock.now_dead [of "w_clock st"]
  by (auto simp: probe_now_def r4nv_clock_now_ns_def clock_available_def Let_def split: option.split_asm prod.split_asm if_split_asm)

lemma le_unavailable: "t \<le> (unavailable :: NvU64)"
  using unat_lt_2p64 [of t] by (simp add: word_le_nat_alt)

text \<open>
  The first reading is not later than the delay's own, the second not earlier than its last, when the clock
  does not go back.
\<close>

lemma timed_enough:
  assumes "probe_now st = (start, st1)" "start \<noteq> unavailable" "elapsed (unat ns) (readings st1) (readings st2)"
    "probe_now st2 = (now, st3)" "sorted (readings st3)"
  shows "ns \<le> now - start"
proof -
  obtain t new where e: "readings st2 = readings st1 @ t # new" "unat t + unat ns \<le> unat (last (t # new))"
    using assms(3) by (auto simp: elapsed_def)
  have one: "readings st1 = readings st @ [start]" using probe_now_reading [OF assms(1)] assms(2) by blast
  have "sorted (readings st2)" using probe_now_prefix [OF assms(4)] assms(5) by (auto simp: sorted_append)
  then have "start \<le> t" unfolding e one by (simp add: sorted_append)
  moreover have "last (t # new) \<le> now"
  proof (cases "now = unavailable")
    case False
    then have "readings st3 = readings st2 @ [now]" using probe_now_reading [OF assms(4)] by blast
    moreover have "last (t # new) \<in> set (readings st2)" unfolding e by (simp only: set_append) (use last_in_set [of "t # new"] in auto)
    ultimately show ?thesis using assms(5) by (simp add: sorted_append)
  qed (simp add: le_unavailable)
  ultimately have "unat start + unat ns \<le> unat now" using e(2) by (simp add: word_le_nat_alt)
  then show ?thesis by (simp add: word_le_nat_alt unat_sub_nowrap)
qed

text \<open>What a step of the probe may end with, when the clock has not gone back by then.\<close>

definition ends_in :: "int set \<Rightarrow> ('w wait_state \<Rightarrow> int outcome \<times> 'w wait_state) \<Rightarrow> bool" where
  "ends_in codes f \<longleftrightarrow>
     (\<forall>st. case f st of (e, st') \<Rightarrow> sorted (readings st') \<longrightarrow>
        (case e of Returned r \<Rightarrow> r \<in> codes | Stopped s \<Rightarrow> n_first_fault (w_native st') \<noteq> 0))"

lemma ends_inD:
  "ends_in codes f \<Longrightarrow> f st = (e, st') \<Longrightarrow> sorted (readings st') \<Longrightarrow>
   (case e of Returned r \<Rightarrow> r \<in> codes | Stopped s \<Rightarrow> n_first_fault (w_native st') \<noteq> 0)"
  unfolding ends_in_def by (metis (mono_tags, lifting) case_prod_conv)

text \<open>A delay that succeeds needs a live clock and takes its time.\<close>

lemma timed_delay_ends:
  fixes delay :: "'w wait_state \<Rightarrow> NV_STATUS \<times> 'w wait_state"
  assumes "ends_in codes continue" "- a \<in> codes'" "codes \<subseteq> codes'"
    and "\<And>st st'. delay st = (NV_OK, st') \<Longrightarrow> clock_available (w_clock st) \<and> elapsed (unat ns) (readings st) (readings st')"
  shows "ends_in codes' (timed_delay delay ns a b continue)"
  unfolding ends_in_def
proof
  fix st :: "'w wait_state"
  obtain start st1 where s: "probe_now st = (start, st1)" by fastforce
  obtain status st2 where d: "delay st1 = (status, st2)" by fastforce
  obtain now st3 where n: "probe_now st2 = (now, st3)" by fastforce
  obtain e st4 where c: "continue st3 = (e, st4)" by fastforce
  show "case timed_delay delay ns a b continue st of (e, st') \<Rightarrow> sorted (readings st') \<longrightarrow>
      (case e of Returned r \<Rightarrow> r \<in> codes' | Stopped s \<Rightarrow> n_first_fault (w_native st') \<noteq> 0)"
  proof (cases "status = NV_OK")
    case False
    then show ?thesis using s d assms(2) by (simp add: timed_delay_def)
  next
    case True
    then have ok: "clock_available (w_clock st1)" "elapsed (unat ns) (readings st1) (readings st2)" using assms(4) d by blast+
    have start: "start \<noteq> unavailable" using probe_now_reading [OF s] ok(1) by blast
    have enough: "ns \<le> now - start" if "sorted (readings st3)" by (rule timed_enough [OF s start ok(2) n that])
    show ?thesis
    proof (cases "ns \<le> now - start")
      case pass: True
      have "sorted (readings st4) \<Longrightarrow> (case e of Returned r \<Rightarrow> r \<in> codes' | Stopped s \<Rightarrow> n_first_fault (w_native st4) \<noteq> 0)"
        using ends_inD [OF assms(1) c] assms(3) by (auto split: outcome.splits)
      then show ?thesis using True s d n c pass by (simp add: timed_delay_def)
    next
      case False
      then show ?thesis using True s d n enough by (auto simp: timed_delay_def)
    qed
  qed
qed

text \<open>The same for a sleep, which has latched the fault when it does not return.\<close>

lemma timed_sleep_ends:
  fixes sleep :: "'w wait_state \<Rightarrow> unit outcome \<times> 'w wait_state"
  assumes "ends_in codes continue"
    and "\<And>st st'. sleep st = (Returned (), st') \<Longrightarrow> clock_available (w_clock st) \<and> elapsed (unat ns) (readings st) (readings st')"
    and "\<And>st x st'. sleep st = (Stopped x, st') \<Longrightarrow> n_first_fault (w_native st') \<noteq> 0"
  shows "ends_in codes (timed_sleep sleep ns b continue)"
  unfolding ends_in_def
proof
  fix st :: "'w wait_state"
  obtain start st1 where s: "probe_now st = (start, st1)" by fastforce
  obtain r st2 where d: "sleep st1 = (r, st2)" by fastforce
  obtain now st3 where n: "probe_now st2 = (now, st3)" by fastforce
  obtain e st4 where c: "continue st3 = (e, st4)" by fastforce
  show "case timed_sleep sleep ns b continue st of (e, st') \<Rightarrow> sorted (readings st') \<longrightarrow>
      (case e of Returned r \<Rightarrow> r \<in> codes | Stopped s \<Rightarrow> n_first_fault (w_native st') \<noteq> 0)"
  proof (cases r)
    case (Stopped x)
    then show ?thesis using s d assms(3) by (simp add: timed_sleep_def)
  next
    case (Returned u)
    then have ok: "clock_available (w_clock st1)" "elapsed (unat ns) (readings st1) (readings st2)" using assms(2) d by simp_all
    have start: "start \<noteq> unavailable" using probe_now_reading [OF s] ok(1) by blast
    have enough: "ns \<le> now - start" if "sorted (readings st3)" by (rule timed_enough [OF s start ok(2) n that])
    show ?thesis
    proof (cases "ns \<le> now - start")
      case True
      then show ?thesis using Returned s d n c ends_inD [OF assms(1) c] by (simp add: timed_sleep_def)
    next
      case False
      then show ?thesis using Returned s d n enough by (auto simp: timed_sleep_def)
    qed
  qed
qed

text \<open>The adapters' delays.\<close>

lemma wait_ns_live: "r4nv_wait_ns ns mode st = (0, st') \<Longrightarrow> clock_available (w_clock st)"
  using dead_clock_waits [of st ns mode] by (metis fst_conv)

lemma delay_us_live: "os_delay_us r4nv_wait_ns us st = (NV_OK, st') \<Longrightarrow> clock_available (w_clock st)"
  by (auto simp: os_delay_us_def wait_status_def wait_ns_live split: prod.split_asm if_split_asm)

lemma delay_live: "os_delay r4nv_wait_ns ms st = (NV_OK, st') \<Longrightarrow> clock_available (w_clock st)"
  by (auto simp: os_delay_def wait_status_def wait_ns_live split: prod.split_asm if_split_asm)

lemma usleep_live: "nvkms_usleep r4nv_wait_ns wait_native_fault usec st = (Returned (), st') \<Longrightarrow> clock_available (w_clock st)"
  by (auto simp: nvkms_usleep_def Let_def wait_ns_live split: prod.split_asm if_split_asm)

lemma yields_end: "ends_in {0, - 23} probe_yields"
proof -
  have "n_first_fault (w_native (snd (wait_native_fault R4NV_FAULT_YIELD r st))) \<noteq> 0" for r and st :: "'a wait_state"
    by (rule rm_waiting.fault_latches) simp
  then show ?thesis
    by (auto simp: ends_in_def probe_yields_def nvkms_yield_def Let_def split_beta split: outcome.split)
qed

section \<open>Properties\<close>

text \<open>
  C39: The waits pass the driver's own check on every machine. Whatever the kernel's timer, scheduler and
  services do, \<^verbatim>\<open>r4nv_wait_probe_healthy\<close> never finds a delay too short: unless the clock went back while the probe
  ran, it ends with success, with the failed status of one of its two delays or of the yield, or inside a
  sleep or yield that cannot return, with the native fault latched; none of the four comparisons of the
  measured time with the interval asked for can fail, the one of four seconds that is longer than the upstream
  wrap-around among them.
\<close>

theorem wait_probe_never_short:
  assumes "r4nv_wait_probe_healthy st = (e, st')" "sorted (c_readings (w_clock st'))"
  shows "case e of Returned r \<Rightarrow> r \<in> {0, - 11, - 14, - 23} | Stopped s \<Rightarrow> n_first_fault (w_native st') \<noteq> 0"
proof -
  note sleeps = timed_sleep_ends [OF _ conjI [OF usleep_live] rm_waiting.usleep_stopped]
  have "ends_in {0, - 23} (timed_sleep (nvkms_usleep r4nv_wait_ns wait_native_fault 4100000) 4100000000 22 probe_yields)"
    by (rule sleeps [OF yields_end]) (use rm_waiting.usleep_elapsed [of 4100000] in simp_all)
  then have "ends_in {0, - 23} (timed_sleep (nvkms_usleep r4nv_wait_ns wait_native_fault 250) 250000 18
      (timed_sleep (nvkms_usleep r4nv_wait_ns wait_native_fault 4100000) 4100000000 22 probe_yields))"
    by (rule sleeps) (use rm_waiting.usleep_elapsed [of 250] in simp_all)
  then have "ends_in {0, - 14, - 23} (timed_delay (os_delay r4nv_wait_ns 25) 25000000 14 15
      (timed_sleep (nvkms_usleep r4nv_wait_ns wait_native_fault 250) 250000 18
      (timed_sleep (nvkms_usleep r4nv_wait_ns wait_native_fault 4100000) 4100000000 22 probe_yields)))"
    by (rule timed_delay_ends) (use rm_waiting.delay_elapsed [of 25] delay_live in auto)
  then have "ends_in {0, - 11, - 14, - 23} r4nv_wait_probe_healthy"
    unfolding r4nv_wait_probe_healthy_def
    by (rule timed_delay_ends) (use rm_waiting.delay_us_elapsed [of 250] delay_us_live in auto)
  then show ?thesis using assms by (rule ends_inD)
qed

text \<open>A machine whose clock advances by five seconds at each reading.\<close>

definition coarse_clock :: "NvU64 clock_state" where
  "coarse_clock = \<lparr>c_context = Some \<lparr>cs_info = (\<lambda>w. (\<lparr>ci_called = True, ci_version = 1, ci_size_ok = True, ci_flags_ok = True,
     ci_frequency_ok = True, ci_resolution_ns = 100, ci_instant_ns = w, ci_source_known = True, ci_periodic = False\<rparr>, w)),
     cs_now = (\<lambda>w. (w, w + 5000000000))\<rparr>, c_fast = True, c_failed = False, c_world = 1, c_readings = []\<rparr>"

definition coarse_waits :: "NvU64 wait_service" where
  "coarse_waits = \<lparr>ws_frequency = (\<lambda>w. 1000), ws_irq = (\<lambda>w. False), ws_sleepable = (\<lambda>w. True), ws_current = (\<lambda>w. 5),
     ws_abi = \<lparr>ta_err_no_fn = 1, ta_closed = 2, ta_invalid = 3, ta_abortable = 8, ta_enter = 4096\<rparr>,
     ws_native = \<lparr>ts_current_request = (\<lambda>w. None), ts_start = (\<lambda>request w. ((1, 0), w))\<rparr>, ws_deadline_at = (\<lambda>a. 0),
     ws_stop_requested = (\<lambda>h w. Some False), ws_thread_sleep = (\<lambda>n w. (Slept, w)),
     ws_wait_ticks = (\<lambda>n w. w)\<rparr>"

definition coarse_machine :: "NvU64 wait_state" where
  "coarse_machine = \<lparr>w_context = Some coarse_waits, w_threads = True, w_sleep_calls = 0, w_spin_calls = 0, w_yield_calls = 0,
     w_clock = coarse_clock, w_native = \<lparr>n_threads = True, n_admitted = True, n_first_fault = 0, n_faults = 0\<rparr>\<rparr>"

lemmas wait_defs = r4nv_wait_ns_def wait_mode_of_def snapshot_def wait_run_def wait_loop.simps wait_pause_def wait_ticks_def
  may_sleep_def rm_ops_def ops_now_def ops_check_stop_def ops_relax_def ops_sleep_ticks_def r4nv_clock_now_ns_def wait_finish_def
  result_code_def r4nv_schedule_def wait_invocation_def currentInvocation_def deadline_of_def

lemma coarse_machine_run:
  "\<exists>st'. r4nv_wait_probe_healthy coarse_machine = (Returned 0, st') \<and> sorted (c_readings (w_clock st'))"
  by (simp add: r4nv_wait_probe_healthy_def timed_delay_def timed_sleep_def probe_yields_def probe_now_def os_delay_us_def os_delay_def
      nvkms_usleep_def os_schedule_def nvkms_yield_def wait_status_def wait_defs coarse_machine_def coarse_clock_def coarse_waits_def
      word_less_nat_alt word_le_nat_alt)

theorem wait_probe_never_short_witness:
  "\<exists>r st'. r4nv_wait_probe_healthy coarse_machine = (Returned r, st') \<and> sorted (c_readings (w_clock st')) \<and> r \<in> {0, - 11, - 14, - 23}"
proof -
  obtain st' where run: "r4nv_wait_probe_healthy coarse_machine = (Returned 0, st')" "sorted (c_readings (w_clock st'))"
    using coarse_machine_run by blast
  then show ?thesis using wait_probe_never_short [OF run] by auto
qed

text \<open>The callback reports the status it got, and returns zero exactly when that is the expected one.\<close>

theorem wait_probe_delay_reports:
  "case r4nv_wait_probe_delay s st of (code, s', st') \<Rightarrow>
     wp_returned s' = 1 \<and> os_delay r4nv_wait_ns (wp_milliseconds s) st = (wp_observed s', st') \<and>
     (code = 0 \<longleftrightarrow> wp_observed s' = wp_expected s)"
  by (simp add: r4nv_wait_probe_delay_def Let_def split: prod.split)

end
