(* ===== verification/Rm_CpuProbe.thy ===== *)
theory Rm_CpuProbe
  imports Rm_Regions Rm_Clock
begin
unbundle bit_operations_syntax

text \<open>
  The driver's check of the memory, string and clock adapters, \<^verbatim>\<open>r4nv_cpu_probe\<close> of \<^verbatim>\<open>src/rm/cpu_probe.c\<close>: it
  allocates two blocks, fills, copies, moves and compares them, copies and compares strings on its stack,
  reads the clock and gives every block back. It is defined over the modelled adapters and providers, in five
  phases and the clean-up at \<^verbatim>\<open>done\<close>. What is proved is that on a kernel whose heap keeps its word the probe
  faults nowhere and can only fail where the kernel refuses memory or loses the clock.
\<close>

section \<open>Definitions\<close>

text \<open>
  The pointers of the probe with the states of the two providers, and the addresses of what the compiler
  places: the two buffers of 24 bytes on the stack and the three string constants.
\<close>

record ('h, 'c) probe_locals =
  l_left :: NvU64
  l_right :: NvU64
  l_empty :: NvU64
  l_huge :: NvU64
  l_heap :: "'h heap_state"
  l_clock :: "'c clock_state"

record probe_frame =
  pf_first :: NvU64
  pf_second :: NvU64
  pf_native :: NvU64
  pf_rm :: NvU64
  pf_rn :: NvU64

text \<open>The line of the check that failed, or 0, where control reaches \<^verbatim>\<open>done\<close>.\<close>

type_synonym ('h, 'c) probe_run = "(int \<times> ('h, 'c) probe_locals) option"

definition cpu_check :: "bool \<Rightarrow> int \<Rightarrow> ('h, 'c) probe_locals \<Rightarrow> ('h, 'c) probe_run \<Rightarrow> ('h, 'c) probe_run" where
  "cpu_check condition line l continue = (if condition then continue else Some (line, l))"

definition local_memory :: "('h, 'c) probe_locals \<Rightarrow> memory" where
  "local_memory l = h_memory (l_heap l)"

definition with_memory :: "memory \<Rightarrow> ('h, 'c) probe_locals \<Rightarrow> ('h, 'c) probe_locals" where
  "with_memory m l = l\<lparr>l_heap := (l_heap l)\<lparr>h_memory := m\<rparr>\<rparr>"

text \<open>A call that writes memory and must return its destination.\<close>

definition cpu_write ::
  "(memory \<times> NvU64) option \<Rightarrow> NvU64 \<Rightarrow> int \<Rightarrow> ('h, 'c) probe_locals \<Rightarrow> (('h, 'c) probe_locals \<Rightarrow> ('h, 'c) probe_run) \<Rightarrow> ('h, 'c) probe_run" where
  "cpu_write r destination line l continue = do {
     (m, p) \<leftarrow> r;
     let l = with_memory m l;
     cpu_check (p = destination) line l (continue l)
   }"

text \<open>Lines 51 to 60: the sizes at the ends of the range.\<close>

definition cpu_probe_sizes :: "('h, 'c) probe_locals \<Rightarrow> (('h, 'c) probe_locals \<Rightarrow> ('h, 'c) probe_run) \<Rightarrow> ('h, 'c) probe_run" where
  "cpu_probe_sizes l continue = do {
     (status, _, h) \<leftarrow> os_alloc_mem r4nv_heap_allocate False 1 (l_heap l);
     let l = l\<lparr>l_heap := h\<rparr>;
     cpu_check (status = NV_ERR_INVALID_ARGUMENT) 51 l (do {
       (status, out, h) \<leftarrow> os_alloc_mem r4nv_heap_allocate True 0xFFFFFFFFFFFFFFFF (l_heap l);
       huge \<leftarrow> out;
       let l = l\<lparr>l_heap := h, l_huge := huge\<rparr>;
       cpu_check (status = NV_ERR_NO_MEMORY \<and> huge = 0) 52 l (do {
         (p, h) \<leftarrow> nvkms_alloc r4nv_heap_allocate h_memory (\<lambda>m st. st\<lparr>h_memory := m\<rparr>) 0xFFFFFFFFFFFFFFFF False (l_heap l);
         let l = l\<lparr>l_heap := h\<rparr>;
         cpu_check (p = 0) 53 l (do {
           (status, out, h) \<leftarrow> os_alloc_mem r4nv_heap_allocate True 0 (l_heap l);
           empty \<leftarrow> out;
           let l = l\<lparr>l_heap := h, l_empty := empty\<rparr>;
           cpu_check (status = NV_OK \<and> empty \<noteq> 0) 54 l (do {
             h \<leftarrow> os_free_mem r4nv_heap_free (l_empty l) (l_heap l);
             (empty, h) \<leftarrow> nvkms_alloc r4nv_heap_allocate h_memory (\<lambda>m st. st\<lparr>h_memory := m\<rparr>) 0 True h;
             let l = l\<lparr>l_heap := h, l_empty := empty\<rparr>;
             cpu_check (empty \<noteq> 0) 58 l (do {
               h \<leftarrow> nvkms_free r4nv_heap_free (l_empty l) 0 (l_heap l);
               continue (l\<lparr>l_heap := h, l_empty := 0\<rparr>)
             })
           })
         })
       })
     })
   }"

text \<open>Lines 61 to 64: the two blocks; the loop over the zeroes of the second.\<close>

fun bytes_zero :: "nat \<Rightarrow> memory \<Rightarrow> NvU64 \<Rightarrow> bool option" where
  "bytes_zero 0 m p = Some True"
| "bytes_zero (Suc n) m p = do { b \<leftarrow> m p; if b = 0 then bytes_zero n m (p + 1) else Some False }"

definition cpu_probe_blocks :: "('h, 'c) probe_locals \<Rightarrow> (('h, 'c) probe_locals \<Rightarrow> ('h, 'c) probe_run) \<Rightarrow> ('h, 'c) probe_run" where
  "cpu_probe_blocks l continue = do {
     (status, out, h) \<leftarrow> os_alloc_mem r4nv_heap_allocate True 513 (l_heap l);
     left \<leftarrow> out;
     let l = l\<lparr>l_heap := h, l_left := left\<rparr>;
     cpu_check (status = NV_OK \<and> left \<noteq> 0) 61 l (do {
       (right, h) \<leftarrow> nvkms_alloc r4nv_heap_allocate h_memory (\<lambda>m st. st\<lparr>h_memory := m\<rparr>) 513 True (l_heap l);
       let l = l\<lparr>l_heap := h, l_right := right\<rparr>;
       cpu_check (right \<noteq> 0 \<and> l_left l AND 15 = 0 \<and> right AND 15 = 0) 63 l (do {
         zero \<leftarrow> bytes_zero 513 (local_memory l) right;
         cpu_check zero 64 l (continue l)
       })
     })
   }"

text \<open>Lines 65 to 75: fills, copies and moves; the loop of line 67 stores a pattern made of the seed.\<close>

definition pattern_byte :: "NvU32 \<Rightarrow> NvU64 \<Rightarrow> NvU8" where
  "pattern_byte seed i = ucast (i * ucast (seed OR 1) + 17)"

fun pattern_loop :: "nat \<Rightarrow> NvU32 \<Rightarrow> NvU64 \<Rightarrow> memory \<Rightarrow> NvU64 \<Rightarrow> memory option" where
  "pattern_loop 0 seed i m left = Some m"
| "pattern_loop (Suc n) seed i m left = do {
     m \<leftarrow> store_byte m (left + i) (pattern_byte seed i);
     pattern_loop n seed (i + 1) m left
   }"

definition cpu_probe_moves :: "('h, 'c) probe_locals \<Rightarrow> (('h, 'c) probe_locals \<Rightarrow> ('h, 'c) probe_run) \<Rightarrow> ('h, 'c) probe_run" where
  "cpu_probe_moves l continue =
     (let left = l_left l; right = l_right l in
      cpu_write (nvkms_memcpy (local_memory l) right left 513) right 71 l (\<lambda>l. do {
        c \<leftarrow> nvkms_memcmp (local_memory l) right left 513;
        cpu_check (c = 0) 71 l (
          cpu_write (nvkms_memmove (local_memory l) (right + 4) (right + 1) 508) (right + 4) 72 l (\<lambda>l. do {
            c \<leftarrow> nvkms_memcmp (local_memory l) (right + 4) (left + 1) 508;
            cpu_check (c = 0) 73 l (
              cpu_write (nvkms_memmove (local_memory l) (right + 1) (right + 4) 508) (right + 1) 74 l (\<lambda>l. do {
                c \<leftarrow> nvkms_memcmp (local_memory l) (right + 1) (left + 1) 508;
                cpu_check (c = 0) 75 l (do {
                  first \<leftarrow> local_memory l right;
                  cpu_check (first = 0xa5) 75 l (do {
                    final \<leftarrow> local_memory l (right + 512);
                    cpu_check (final = 0xa5) 75 l (continue l)
                  })
                })
              }))
          }))
      }))"

definition cpu_probe_fills ::
  "NvU32 \<Rightarrow> ('h, 'c) probe_locals \<Rightarrow> (('h, 'c) probe_locals \<Rightarrow> ('h, 'c) probe_run) \<Rightarrow> ('h, 'c) probe_run" where
  "cpu_probe_fills seed l continue =
     (let left = l_left l; right = l_right l in
      cpu_write (os_mem_set (local_memory l) left 0xa5 513) left 65 l (\<lambda>l.
      cpu_write (nvkms_memset (local_memory l) right 0x5a 513) right 66 l (\<lambda>l. do {
        m \<leftarrow> pattern_loop 511 seed 1 (local_memory l) left;
        let l = with_memory m l;
        cpu_write (os_mem_copy (local_memory l) (right + 1) (left + 1) 511) (right + 1) 68 l (\<lambda>l. do {
          c \<leftarrow> os_mem_cmp (local_memory l) (left + 1) (right + 1) 511;
          cpu_check (c = 0) 69 l (do {
            a \<leftarrow> local_memory l left;
            cpu_check (a = 0xa5) 70 l (do {
              b \<leftarrow> local_memory l (left + 512);
              cpu_check (b = 0xa5) 70 l (do {
                c \<leftarrow> local_memory l right;
                cpu_check (c = 0x5a) 70 l (do {
                  d \<leftarrow> local_memory l (right + 512);
                  cpu_check (d = 0x5a) 70 l (cpu_probe_moves l continue)
                })
              })
            })
          })
        })
      })))"

text \<open>Lines 76 to 82: the strings.\<close>

definition cpu_probe_strings ::
  "probe_frame \<Rightarrow> ('h, 'c) probe_locals \<Rightarrow> (('h, 'c) probe_locals \<Rightarrow> ('h, 'c) probe_run) \<Rightarrow> ('h, 'c) probe_run" where
  "cpu_probe_strings f l continue =
     cpu_write (os_string_copy (local_memory l) (pf_first f) (pf_native f)) (pf_first f) 76 l (\<lambda>l. do {
       n \<leftarrow> os_string_length (local_memory l) (pf_first f);
       cpu_check (n = 14) 77 l (do {
       c \<leftarrow> os_string_compare (local_memory l) (pf_first f) (pf_native f);
       cpu_check (c = 0) 77 l (do {
       c \<leftarrow> os_string_compare (local_memory l) (pf_rm f) (pf_rn f);
       cpu_check (c < 0) 78 l (do {
       c \<leftarrow> os_string_compare (local_memory l) (pf_rn f) (pf_rm f);
       cpu_check (c > 0) 78 l (
       cpu_write (nvkms_strncpy (local_memory l) (pf_second f) (pf_first f) 24) (pf_second f) 79 l (\<lambda>l. do {
       n \<leftarrow> nvkms_strlen (local_memory l) (pf_second f);
       cpu_check (n = 14) 80 l (do {
       c \<leftarrow> nvkms_strcmp (local_memory l) (pf_first f) (pf_second f);
       cpu_check (c = 0) 80 l (do {
       zero \<leftarrow> bytes_zero 10 (local_memory l) (pf_second f + 14);
       cpu_check zero 81 l (do {
       c \<leftarrow> nvkms_strcmp (local_memory l) (pf_rm f) (pf_rn f);
       cpu_check (c < 0) 82 l (do {
       c \<leftarrow> nvkms_strcmp (local_memory l) (pf_rn f) (pf_rm f);
       cpu_check (c > 0) 82 l (continue l) }) }) }) }) })) }) }) }) })"

text \<open>Lines 83 to 90: the clock.\<close>

definition cpu_probe_clock :: "('h, 'c) probe_locals \<Rightarrow> ('h, 'c) probe_run" where
  "cpu_probe_clock l =
     (let (before, c) = os_get_current_tick r4nv_clock_now_ns (l_clock l);
          (middle, c) = os_get_current_tick_hr r4nv_clock_now_ns c;
          (resolution, c) = os_get_tick_resolution r4nv_clock_resolution_ns c;
          (usec, c) = nvkms_get_usec r4nv_clock_now_ns c;
          (after, c) = os_get_current_tick r4nv_clock_now_ns c;
          l = l\<lparr>l_clock := c\<rparr> in
      cpu_check (before \<noteq> unavailable \<and> middle \<ge> before \<and> after \<ge> middle \<and> after \<noteq> unavailable) 88 l
        (cpu_check (resolution \<noteq> 0 \<and> resolution \<noteq> unavailable \<and> usec \<noteq> unavailable) 89 l
          (cpu_check (usec \<ge> middle div 1000 \<and> usec \<le> after div 1000) 90 l (Some (0, l)))))"

text \<open>Lines 91 to 96.\<close>

definition cpu_probe_done :: "('h, 'c) probe_locals \<Rightarrow> ('h, 'c) probe_locals option" where
  "cpu_probe_done l = do {
     h \<leftarrow> os_free_mem r4nv_heap_free (l_huge l) (l_heap l);
     h \<leftarrow> os_free_mem r4nv_heap_free (l_empty l) h;
     h \<leftarrow> os_free_mem r4nv_heap_free (l_left l) h;
     h \<leftarrow> nvkms_free r4nv_heap_free (l_right l) 513 h;
     Some (l\<lparr>l_heap := h\<rparr>)
   }"

definition r4nv_cpu_probe ::
  "probe_frame \<Rightarrow> NvU32 \<Rightarrow> 'h heap_state \<Rightarrow> 'c clock_state \<Rightarrow> (int \<times> 'h heap_state \<times> 'c clock_state) option" where
  "r4nv_cpu_probe f seed h c = do {
     let l = \<lparr>l_left = 0, l_right = 0, l_empty = 0, l_huge = 0, l_heap = h, l_clock = c\<rparr>;
     (result, l) \<leftarrow> cpu_probe_sizes l (\<lambda>l. cpu_probe_blocks l (\<lambda>l. cpu_probe_fills seed l (\<lambda>l.
       cpu_probe_strings f l cpu_probe_clock)));
     l \<leftarrow> cpu_probe_done l;
     Some (result, l_heap l, l_clock l)
   }"

section \<open>What the phases keep\<close>

text \<open>
  The constants and buffers of the frame as regions, and what the probe's memory looks like with both blocks:
  each is a region that begins with its prefix.
\<close>

abbreviation (input) native_text :: "NvU8 list" where
  "native_text \<equiv> [0x52, 0x34, 0x4F, 0x53, 0x20, 0x6E, 0x61, 0x74, 0x69, 0x76, 0x65, 0x20, 0x52, 0x4D]"

definition frame_regions :: "probe_frame \<Rightarrow> NvU8 list \<Rightarrow> NvU8 list \<Rightarrow> region list" where
  "frame_regions f fs ss =
     [(pf_first f, fs), (pf_second f, ss), (pf_native f, native_text @ [0]), (pf_rm f, [0x52, 0x4D, 0]), (pf_rn f, [0x52, 0x4E, 0])]"

definition frame_ok :: "'h kernel_view \<Rightarrow> probe_frame \<Rightarrow> memory \<Rightarrow> bool" where
  "frame_ok K f m \<longleftrightarrow> (\<exists>fs ss. length fs = 24 \<and> length ss = 24 \<and> layout m (frame_regions f fs ss) \<and>
     (\<forall>r. r \<in> set (frame_regions f fs ss) \<longrightarrow> region_span r \<subseteq> kv_resident K))"

definition pointers :: "('h, 'c) probe_locals \<Rightarrow> NvU64 list" where
  "pointers l = filter (\<lambda>p. p \<noteq> 0) [l_left l, l_right l]"

text \<open>What the clean-up needs at \<^verbatim>\<open>done\<close>.\<close>

definition ready :: "'h kernel_view \<Rightarrow> (NvU64 \<rightharpoonup> NvU64 set) \<Rightarrow> ('h, 'c) probe_locals \<Rightarrow> bool" where
  "ready K A l \<longleftrightarrow> l_huge l = 0 \<and> l_empty l = 0 \<and> h_context (l_heap l) = Some (kv_service K) \<and> owns K A (pointers l) (l_heap l)"

definition started :: "'h kernel_view \<Rightarrow> (NvU64 \<rightharpoonup> NvU64 set) \<Rightarrow> probe_frame \<Rightarrow> ('h, 'c) probe_locals \<Rightarrow> bool" where
  "started K A f l \<longleftrightarrow> l_left l = 0 \<and> l_right l = 0 \<and> ready K A l \<and> frame_ok K f (local_memory l)"

text \<open>A run that reaches \<^verbatim>\<open>done\<close> ready for it, with a line and a clock that satisfy \<open>P\<close>.\<close>

definition run_ok ::
  "'h kernel_view \<Rightarrow> (NvU64 \<rightharpoonup> NvU64 set) \<Rightarrow> (int \<Rightarrow> 'c clock_state \<Rightarrow> bool) \<Rightarrow> ('h, 'c) probe_run \<Rightarrow> bool" where
  "run_ok K A P r \<longleftrightarrow> (\<exists>line l. r = Some (line, l) \<and> ready K A l \<and> P line (l_clock l))"

lemma frame_ok_cong:
  assumes "frame_ok K f m" "\<And>x. x \<in> kv_resident K \<Longrightarrow> m' x = m x"
  shows "frame_ok K f m'"
proof -
  obtain fs ss where "length fs = 24" "length ss = 24" "layout m (frame_regions f fs ss)"
    "\<forall>r. r \<in> set (frame_regions f fs ss) \<longrightarrow> region_span r \<subseteq> kv_resident K"
    using assms(1) unfolding frame_ok_def by blast
  then show ?thesis
    using layout_cong [of m "frame_regions f fs ss" m'] assms(2) unfolding frame_ok_def by blast
qed

lemma resident_in_use: "x \<in> kv_resident K \<Longrightarrow> x \<in> in_use K w"
  by (simp add: in_use_def)

lemma ready_none:
  "l_left l = 0 \<Longrightarrow> l_right l = 0 \<Longrightarrow> l_huge l = 0 \<Longrightarrow> l_empty l = 0 \<Longrightarrow> h_context (l_heap l) = Some (kv_service K) \<Longrightarrow>
   grown K A (h_world (l_heap l)) \<Longrightarrow> ready K A l"
  by (simp add: ready_def pointers_def)

lemma huge_refused: "h_context st = Some ctx \<Longrightarrow> r4nv_heap_allocate 0xFFFFFFFFFFFFFFFF st = Some (0, st)"
proof -
  have "max (0xFFFFFFFFFFFFFFFF :: NvU64) 1 = 0xFFFFFFFFFFFFFFFF" by (simp add: max_def word_le_nat_alt)
  then show "h_context st = Some ctx \<Longrightarrow> r4nv_heap_allocate 0xFFFFFFFFFFFFFFFF st = Some (0, st)"
    by (simp add: r4nv_heap_allocate_def)
qed

text \<open>The sizes: only an allocation that the kernel refuses ends this phase.\<close>

lemma sizes_ok:
  assumes K: "kernel_heap_ok K" and l: "started K A f l" and P: "P 54 (l_clock l)" "P 58 (l_clock l)"
    and k: "\<And>l'. started K A f l' \<Longrightarrow> l_clock l' = l_clock l \<Longrightarrow> run_ok K A P (k l')"
  shows "run_ok K A P (cpu_probe_sizes l k)"
proof -
  have l0: "l_left l = 0" "l_right l = 0" "l_huge l = 0" "l_empty l = 0" and ctx: "h_context (l_heap l) = Some (kv_service K)"
    and own: "owns K A [] (l_heap l)" and fr: "frame_ok K f (h_memory (l_heap l))"
    using l by (auto simp: started_def ready_def pointers_def local_memory_def)
  show ?thesis
  proof (rule allocate_owned [OF K ctx own, of 1])
    fix p st1
    assume a1: "r4nv_heap_allocate 1 (l_heap l) = Some (p, st1)" "h_context st1 = Some (kv_service K)"
      "\<And>x. x \<in> in_use K (h_world (l_heap l)) \<Longrightarrow> h_memory st1 x = h_memory (l_heap l) x"
      "p = 0 \<Longrightarrow> owns K A [] st1" "p \<noteq> 0 \<Longrightarrow> owns K A ([] @ [p]) st1"
    have fr1: "frame_ok K f (h_memory st1)" using frame_ok_cong [OF fr] a1(3) resident_in_use by metis
    show ?thesis
    proof (cases "p = 0")
      case True
      then show ?thesis
        using a1 ctx l0 P huge_refused [OF ctx]
        by (simp add: ready_none cpu_probe_sizes_def os_alloc_mem_def nvkms_alloc_def cpu_check_def run_ok_def)
    next
      case False
      obtain st2 where a2: "r4nv_heap_free p st1 = Some st2" "h_context st2 = Some (kv_service K)" "owns K A [] st2"
        "\<And>x. x \<in> kv_resident K \<Longrightarrow> h_memory st2 x = h_memory st1 x"
        using release_honest [OF K a1(2), of A p "[]"] a1(5) [OF False] by (metis append_Nil)
      have fr2: "frame_ok K f (h_memory st2)" using frame_ok_cong [OF fr1] a2(4) by metis
      show ?thesis
      proof (rule allocate_owned [OF K a2(2,3), of 1])
        fix q st3
        assume a3: "r4nv_heap_allocate 1 st2 = Some (q, st3)" "h_context st3 = Some (kv_service K)"
          "\<And>x. x \<in> in_use K (h_world st2) \<Longrightarrow> h_memory st3 x = h_memory st2 x"
          "q = 0 \<Longrightarrow> owns K A [] st3" "q \<noteq> 0 \<Longrightarrow> owns K A ([] @ [q]) st3"
        have fr3: "frame_ok K f (h_memory st3)" using frame_ok_cong [OF fr2] a3(3) resident_in_use by metis
        have zero: "r4nv_set m x 0 0 = Some (m, x)" for m x by (simp add: r4nv_set_def)
        have body: "cpu_probe_sizes l k =
            cpu_check (q \<noteq> 0) 58 (l\<lparr>l_huge := 0, l_heap := st3, l_empty := q\<rparr>)
              (do { h \<leftarrow> nvkms_free r4nv_heap_free q 0 st3; k (l\<lparr>l_huge := 0, l_heap := h, l_empty := 0\<rparr>) })"
          using a1(1) a2(1) a3(1) ctx l0 False huge_refused [OF ctx]
          by (simp add: cpu_probe_sizes_def os_alloc_mem_def nvkms_alloc_def os_free_mem_def cpu_check_def zero)
        show ?thesis
        proof (cases "q = 0")
          case True
          then show ?thesis using body a3 l0 P by (simp add: ready_none cpu_check_def run_ok_def)
        next
          case qn: False
          obtain st4 where a4: "r4nv_heap_free q st3 = Some st4" "h_context st4 = Some (kv_service K)" "owns K A [] st4"
            "\<And>x. x \<in> kv_resident K \<Longrightarrow> h_memory st4 x = h_memory st3 x"
            using release_honest [OF K a3(2), of A q "[]"] a3(5) [OF qn] by (metis append_Nil)
          have "frame_ok K f (h_memory st4)" using frame_ok_cong [OF fr3] a4(4) by metis
          then have "started K A f (l\<lparr>l_huge := 0, l_heap := st4, l_empty := 0\<rparr>)"
            using a4 l0 by (simp add: ready_none started_def local_memory_def)
          then show ?thesis using body qn a4(1) k by (simp add: cpu_check_def nvkms_free_def)
        qed
      qed
    qed
  qed
qed

text \<open>The clean-up.\<close>

lemma done_ok:
  assumes K: "kernel_heap_ok K" and l: "ready K A l"
  obtains l' where "cpu_probe_done l = Some l'" "l_clock l' = l_clock l" "grown K A (h_world (l_heap l'))"
proof -
  have l0: "l_huge l = 0" "l_empty l = 0" "h_context (l_heap l) = Some (kv_service K)" "owns K A (pointers l) (l_heap l)"
    using l by (simp_all add: ready_def)
  have one: "\<exists>h'. os_free_mem r4nv_heap_free p h = Some h' \<and> h_context h' = Some (kv_service K) \<and> owns K A ps h'"
    if "owns K A (filter (\<lambda>p. p \<noteq> 0) [p] @ ps) h" "h_context h = Some (kv_service K)" for p ps h
  proof (cases "p = 0")
    case False
    then have "owns K A (p # ps) h" using that(1) by simp
    then show ?thesis using release_honest [OF K that(2)] False unfolding os_free_mem_def by metis
  qed (use that in \<open>simp add: os_free_mem_def\<close>)
  have p: "pointers l = filter (\<lambda>p. p \<noteq> 0) [l_left l] @ filter (\<lambda>p. p \<noteq> 0) [l_right l] @ []" by (simp add: pointers_def)
  obtain h1 where h1: "os_free_mem r4nv_heap_free (l_left l) (l_heap l) = Some h1" "h_context h1 = Some (kv_service K)"
    "owns K A (filter (\<lambda>p. p \<noteq> 0) [l_right l] @ []) h1"
    using one [OF l0(4) [unfolded p] l0(3)] by blast
  obtain h2 where "os_free_mem r4nv_heap_free (l_right l) h1 = Some h2" "owns K A [] h2"
    using one [OF h1(3,2)] by blast
  then show thesis
    using that [of "l\<lparr>l_heap := h2\<rparr>"] h1(1) l0(1,2) by (simp add: cpu_probe_done_def os_free_mem_def nvkms_free_def)
qed

section \<open>The blocks\<close>

text \<open>
  Both blocks, each behind the sixteen bytes of its prefix, and the frame: what memory holds between two
  calls of the probe.
\<close>

definition probe_regions ::
  "probe_frame \<Rightarrow> ('h, 'c) probe_locals \<Rightarrow> NvU8 list \<Rightarrow> NvU8 list \<Rightarrow> NvU8 list \<Rightarrow> NvU8 list \<Rightarrow> NvU8 list \<Rightarrow> NvU8 list \<Rightarrow> region list" where
  "probe_regions f l hl hr ls rs fs ss =
     (l_right l - 16, hr @ rs) # (l_left l - 16, hl @ ls) # frame_regions f fs ss"

definition view ::
  "'h kernel_view \<Rightarrow> (NvU64 \<rightharpoonup> NvU64 set) \<Rightarrow> probe_frame \<Rightarrow> NvU8 list \<Rightarrow> NvU8 list \<Rightarrow> ('h, 'c) probe_locals \<Rightarrow>
    NvU8 list \<Rightarrow> NvU8 list \<Rightarrow> NvU8 list \<Rightarrow> NvU8 list \<Rightarrow> bool" where
  "view K A f hl hr l ls rs fs ss \<longleftrightarrow>
     ready K A l \<and> l_left l \<noteq> 0 \<and> l_right l \<noteq> 0 \<and> length hl = 16 \<and> length hr = 16 \<and> length ls = 513 \<and> length rs = 513 \<and>
     length fs = 24 \<and> length ss = 24 \<and> unat (l_right l) + 513 < 2 ^ 64 \<and> 16 \<le> unat (l_right l) \<and>
     layout (local_memory l) (probe_regions f l hl hr ls rs fs ss)"

lemma with_memory_simps [simp]:
  "l_left (with_memory m l) = l_left l" "l_right (with_memory m l) = l_right l" "l_empty (with_memory m l) = l_empty l"
  "l_huge (with_memory m l) = l_huge l" "l_clock (with_memory m l) = l_clock l" "local_memory (with_memory m l) = m"
  "probe_regions f (with_memory m l) = probe_regions f l"
  by (simp_all add: with_memory_def local_memory_def probe_regions_def fun_eq_iff)

lemma view_memory:
  assumes "view K A f hl hr l ls rs fs ss" "layout m (probe_regions f l hl hr ls' rs' fs' ss')"
    and "length ls' = 513" "length rs' = 513" "length fs' = 24" "length ss' = 24"
  shows "view K A f hl hr (with_memory m l) ls' rs' fs' ss'"
proof -
  note v = assms(1) [unfolded view_def]
  have old: "holds (local_memory l) (l_right l - 16) (hr @ rs)" "holds (local_memory l) (l_left l - 16) (hl @ ls)"
    using layout_holds [of "local_memory l" "probe_regions f l hl hr ls rs fs ss" 0]
      layout_holds [of "local_memory l" "probe_regions f l hl hr ls rs fs ss" 1] v by (simp_all add: probe_regions_def)
  have new: "holds m (l_right l - 16) (hr @ rs')" "holds m (l_left l - 16) (hl @ ls')"
    using layout_holds [OF assms(2), of 0] layout_holds [OF assms(2), of 1] by (simp_all add: probe_regions_def)
  have same: "m x = h_memory (l_heap l) x" if "x \<in> span a 16" "holds (local_memory l) a hd" "holds m a hd" "length hd = 16" for x a hd
    using span_nth [OF that(1)] that(2-4) by (auto simp: holds_def local_memory_def)
  have "owns K A (pointers l) ((l_heap l)\<lparr>h_memory := m\<rparr>)"
  proof (rule owns_memory)
    show "owns K A (pointers l) (l_heap l)" using v by (simp add: ready_def)
    fix p x assume p: "p \<in> set (pointers l)" "x \<in> span (p - 16) 16"
    then have "p = l_left l \<or> p = l_right l" by (auto simp: pointers_def split: if_splits)
    then show "m x = h_memory (l_heap l) x"
    proof
      assume "p = l_left l"
      then show ?thesis using same [of x "p - 16" hl] p old(2) new(2) v unfolding holds_append by simp
    next
      assume "p = l_right l"
      then show ?thesis using same [of x "p - 16" hr] p old(1) new(1) v unfolding holds_append by simp
    qed
  qed
  then have "ready K A (with_memory m l)"
    using v by (simp add: ready_def pointers_def with_memory_def)
  then show ?thesis using v assms(2-6) by (simp add: view_def)
qed

lemma patch_behind: "length ds = n \<Longrightarrow> patch (n + k) cs (ds @ bs) = ds @ patch k cs bs"
  by (simp add: patch_def)

lemma user_address: "(p :: NvU64) - 16 + of_nat (16 + k) = p + of_nat k"
  by simp

text \<open>Writes into the four regions the probe writes.\<close>

lemma view_put:
  assumes v: "view K A f hl hr l ls rs fs ss"
  shows "k + length cs \<le> 513 \<Longrightarrow> view K A f hl hr (with_memory (put (local_memory l) (l_left l + of_nat k) cs) l) (patch k cs ls) rs fs ss"
    "k + length cs \<le> 513 \<Longrightarrow> view K A f hl hr (with_memory (put (local_memory l) (l_right l + of_nat k) cs) l) ls (patch k cs rs) fs ss"
    "k + length cs \<le> 24 \<Longrightarrow> view K A f hl hr (with_memory (put (local_memory l) (pf_first f + of_nat k) cs) l) ls rs (patch k cs fs) ss"
    "k + length cs \<le> 24 \<Longrightarrow> view K A f hl hr (with_memory (put (local_memory l) (pf_second f + of_nat k) cs) l) ls rs fs (patch k cs ss)"
proof -
  note u = v [unfolded view_def]
  have lay: "layout (local_memory l) (probe_regions f l hl hr ls rs fs ss)" using u by simp
  show "view K A f hl hr (with_memory (put (local_memory l) (l_left l + of_nat k) cs) l) (patch k cs ls) rs fs ss"
    if "k + length cs \<le> 513"
    using layout_put [OF lay, of 1 "l_left l - 16" "hl @ ls" "16 + k" cs] that u
    by (intro view_memory [OF v]) (simp_all add: probe_regions_def user_address patch_behind)
  show "view K A f hl hr (with_memory (put (local_memory l) (l_right l + of_nat k) cs) l) ls (patch k cs rs) fs ss"
    if "k + length cs \<le> 513"
    using layout_put [OF lay, of 0 "l_right l - 16" "hr @ rs" "16 + k" cs] that u
    by (intro view_memory [OF v]) (simp_all add: probe_regions_def user_address patch_behind)
  show "view K A f hl hr (with_memory (put (local_memory l) (pf_first f + of_nat k) cs) l) ls rs (patch k cs fs) ss"
    if "k + length cs \<le> 24"
    using layout_put [OF lay, of "Suc (Suc 0)" "pf_first f" fs k cs] that u
    by (intro view_memory [OF v]) (simp_all add: probe_regions_def frame_regions_def)
  show "view K A f hl hr (with_memory (put (local_memory l) (pf_second f + of_nat k) cs) l) ls rs fs (patch k cs ss)"
    if "k + length cs \<le> 24"
    using layout_put [OF lay, of "Suc (Suc (Suc 0))" "pf_second f" ss k cs] that u
    by (intro view_memory [OF v]) (simp_all add: probe_regions_def frame_regions_def)
qed

lemma view_holds:
  assumes v: "view K A f hl hr l ls rs fs ss"
  shows "holds (local_memory l) (l_left l) ls" "holds (local_memory l) (l_right l) rs"
    "holds (local_memory l) (pf_first f) fs" "holds (local_memory l) (pf_second f) ss"
    "holds (local_memory l) (pf_native f) (native_text @ [0])"
    "holds (local_memory l) (pf_rm f) [0x52, 0x4D, 0]" "holds (local_memory l) (pf_rn f) [0x52, 0x4E, 0]"
proof -
  have lay: "layout (local_memory l) (probe_regions f l hl hr ls rs fs ss)" and len: "length hl = 16" "length hr = 16"
    using v by (simp_all add: view_def)
  note h = layout_holds [OF lay]
  have "holds (local_memory l) (l_left l - 16) (hl @ ls)" "holds (local_memory l) (l_right l - 16) (hr @ rs)"
    using h [of 0] h [of 1] by (simp_all add: probe_regions_def)
  then show "holds (local_memory l) (l_left l) ls" "holds (local_memory l) (l_right l) rs"
    using len by (simp_all add: holds_append)
  show "holds (local_memory l) (pf_first f) fs" "holds (local_memory l) (pf_second f) ss"
    "holds (local_memory l) (pf_native f) (native_text @ [0])"
    "holds (local_memory l) (pf_rm f) [0x52, 0x4D, 0]" "holds (local_memory l) (pf_rn f) [0x52, 0x4E, 0]"
    using h [of "Suc (Suc 0)"] h [of "Suc (Suc (Suc 0))"] h [of "Suc (Suc (Suc (Suc 0)))"] h [of "Suc (Suc (Suc (Suc (Suc 0))))"]
      h [of "Suc (Suc (Suc (Suc (Suc (Suc 0)))))"] by (simp_all add: probe_regions_def frame_regions_def)
qed

text \<open>The two allocations give the view, the second block zeroed.\<close>

lemma bytes_zero_holds: "holds m p (replicate n 0) \<Longrightarrow> bytes_zero n m p = Some True"
proof (induction n arbitrary: p)
  case (Suc n)
  then have "holds m p [0]" "holds m (p + 1) (replicate n 0)" using holds_append [of m p "[0]" "replicate n 0"] by simp_all
  then show ?case using Suc.IH holds_nth [of m p "[0]" 0] by simp
qed simp

lemma blocks_view:
  assumes K: "kernel_heap_ok K" and l: "started K A f l"
    and one: "r4nv_heap_allocate 513 (l_heap l) = Some (p, st1)" "p \<noteq> 0" "owns K A [p] st1" "h_context st1 = Some (kv_service K)"
      "\<And>x. x \<in> in_use K (h_world (l_heap l)) \<Longrightarrow> h_memory st1 x = h_memory (l_heap l) x"
      "span (p - 16) 529 \<inter> in_use K (h_world (l_heap l)) = {}" "accessible (h_memory st1) (p - 16) 529"
      "span (p - 16) 529 \<subseteq> in_use K (h_world st1)"
    and two: "r4nv_heap_allocate 513 st1 = Some (q, st2)" "q \<noteq> 0" "owns K A ([p] @ [q]) st2" "h_context st2 = Some (kv_service K)"
      "\<And>x. x \<in> in_use K (h_world st1) \<Longrightarrow> h_memory st2 x = h_memory st1 x"
      "span (q - 16) 529 \<inter> in_use K (h_world st1) = {}" "accessible (h_memory st2) (q - 16) 529"
  obtains hl hr ls rs fs ss where "view K A f hl hr (l\<lparr>l_left := p, l_heap := st2, l_right := q\<rparr>) ls rs fs ss"
proof -
  have l0: "l_huge l = 0" "l_empty l = 0" using l by (simp_all add: started_def ready_def)
  obtain fs ss where fr: "length fs = 24" "length ss = 24" "layout (h_memory (l_heap l)) (frame_regions f fs ss)"
    "\<And>r. r \<in> set (frame_regions f fs ss) \<Longrightarrow> region_span r \<subseteq> kv_resident K"
    using l unfolding started_def frame_ok_def local_memory_def by blast
  have used: "region_span r \<subseteq> in_use K w" if "r \<in> set (frame_regions f fs ss)" for r w
    using fr(4) [OF that] by (auto simp: in_use_def)
  define bl where "bl = slice (h_memory st1) (p - 16) 529"
  define br where "br = slice (h_memory st2) (q - 16) 529"
  have len: "length bl = 529" "length br = 529" by (simp_all add: bl_def br_def)
  have hold: "holds (h_memory st1) (p - 16) bl" "holds (h_memory st2) (q - 16) br"
    using one(7) two(7) by (auto simp: bl_def br_def intro!: holdsI)
  have "layout (h_memory st1) ((p - 16, bl) # frame_regions f fs ss)"
  proof (rule layout_Cons [OF fr(3) hold(1)])
    fix r assume r: "r \<in> set (frame_regions f fs ss)"
    note u = used [OF this]
    show "span (p - 16) (length bl) \<inter> region_span r = {}" using one(6) len u by fastforce
    show "\<And>x. x \<in> region_span r \<Longrightarrow> h_memory st1 x = h_memory (l_heap l) x" using u one(5) by blast
  qed (simp add: len)
  then have lay: "layout (h_memory st2) ((q - 16, br) # (p - 16, bl) # frame_regions f fs ss)"
  proof (rule layout_Cons [OF _ hold(2)])
    fix r assume r: "r \<in> set ((p - 16, bl) # frame_regions f fs ss)"
    have sub: "region_span r \<subseteq> in_use K (h_world st1)"
    proof (cases "r = (p - 16, bl)")
      case True
      then show ?thesis using one(8) len by (simp add: region_span_def)
    qed (use r used in auto)
    then show "span (q - 16) (length br) \<inter> region_span r = {}" using two(6) len by auto
    show "\<And>x. x \<in> region_span r \<Longrightarrow> h_memory st2 x = h_memory st1 x" using sub two(5) by blast
  qed (simp add: len)
  have "ready K A (l\<lparr>l_left := p, l_heap := st2, l_right := q\<rparr>)"
    using one(2) two(2-4) l0 unfolding ready_def pointers_def by simp
  moreover have "max 513 1 = (513 :: NvU64)" by (simp add: max_def word_le_nat_alt)
  then have "unat q + 513 < 2 ^ 64" "16 \<le> unat q" using allocate_span [OF two(1,2)] by simp_all
  ultimately have "view K A f (take 16 bl) (take 16 br) (l\<lparr>l_left := p, l_heap := st2, l_right := q\<rparr>) (drop 16 bl) (drop 16 br) fs ss"
    using lay len fr(1,2) one(2) two(2) by (simp add: view_def probe_regions_def local_memory_def)
  then show thesis by (rule that)
qed

lemma blocks_ok:
  assumes K: "kernel_heap_ok K" and l: "started K A f l" and P: "P 61 (l_clock l)" "P 63 (l_clock l)"
    and k: "\<And>l' hl hr ls fs ss. view K A f hl hr l' ls (replicate 513 0) fs ss \<Longrightarrow> l_clock l' = l_clock l \<Longrightarrow> run_ok K A P (k l')"
  shows "run_ok K A P (cpu_probe_blocks l k)"
proof -
  have l0: "l_left l = 0" "l_right l = 0" "l_huge l = 0" "l_empty l = 0" and ctx: "h_context (l_heap l) = Some (kv_service K)"
    and own: "owns K A [] (l_heap l)"
    using l by (auto simp: started_def ready_def pointers_def)
  have size: "unat (max 513 (1 :: NvU64)) + 16 = 529" by (simp add: max_def word_le_nat_alt)
  show ?thesis
  proof (rule allocate_owned [OF K ctx own, of 513, unfolded size])
    fix p st1
    assume one: "r4nv_heap_allocate 513 (l_heap l) = Some (p, st1)" "h_context st1 = Some (kv_service K)"
      "\<And>x. x \<in> in_use K (h_world (l_heap l)) \<Longrightarrow> h_memory st1 x = h_memory (l_heap l) x"
      "p = 0 \<Longrightarrow> owns K A [] st1" "p \<noteq> 0 \<Longrightarrow> owns K A ([] @ [p]) st1"
      "p \<noteq> 0 \<Longrightarrow> span (p - 16) 529 \<inter> in_use K (h_world (l_heap l)) = {}" "p \<noteq> 0 \<Longrightarrow> accessible (h_memory st1) (p - 16) 529"
      "p \<noteq> 0 \<Longrightarrow> span (p - 16) 529 \<subseteq> in_use K (h_world st1)"
    show ?thesis
    proof (cases "p = 0")
      case True
      then show ?thesis
        using one l0 P by (simp add: ready_none cpu_probe_blocks_def os_alloc_mem_def cpu_check_def run_ok_def)
    next
      case p: False
      have ownp: "owns K A [p] st1" using one(5) [OF p] by (simp only: append_Nil)
      show ?thesis
      proof (rule allocate_owned [OF K one(2) ownp, of 513, unfolded size])
        fix q st2
        assume two: "r4nv_heap_allocate 513 st1 = Some (q, st2)" "h_context st2 = Some (kv_service K)"
          "\<And>x. x \<in> in_use K (h_world st1) \<Longrightarrow> h_memory st2 x = h_memory st1 x"
          "q = 0 \<Longrightarrow> owns K A [p] st2" "q \<noteq> 0 \<Longrightarrow> owns K A ([p] @ [q]) st2"
          "q \<noteq> 0 \<Longrightarrow> span (q - 16) 529 \<inter> in_use K (h_world st1) = {}" "q \<noteq> 0 \<Longrightarrow> accessible (h_memory st2) (q - 16) 529"
        show ?thesis
        proof (cases "q = 0")
          case True
          have "ready K A (l\<lparr>l_left := p, l_heap := st2, l_right := 0\<rparr>)"
            using two(2) two(4) [OF True] l0 p unfolding ready_def pointers_def by simp
          then show ?thesis
            using True one(1) two(1) p P
            by (simp add: cpu_probe_blocks_def os_alloc_mem_def nvkms_alloc_def cpu_check_def run_ok_def)
        next
          case q: False
          let ?l = "l\<lparr>l_left := p, l_heap := st2, l_right := q\<rparr>"
          obtain hl hr ls rs fs ss where v: "view K A f hl hr ?l ls rs fs ss"
            using blocks_view [OF K l one(1) p ownp one(2,3) one(6,7,8) [OF p] two(1) q two(5) [OF q] two(2,3) two(6,7) [OF q]] by metis
          define m where "m = put (h_memory st2) q (replicate 513 0)"
          have acc: "accessible (h_memory st2) q (unat (513 :: NvU64))"
            using two(7) [OF q] accessible_add [of "h_memory st2" "q - 16" 16 513] by simp
          have v': "view K A f hl hr (with_memory m ?l) ls (replicate 513 0) fs ss"
            using view_put(2) [OF v, of 0 "replicate 513 0"] v by (simp add: m_def patch_def view_def local_memory_def)
          have "bytes_zero 513 m q = Some True"
            using bytes_zero_holds [of m q 513] view_holds(2) [OF v'] by simp
          moreover have "with_memory m ?l = l\<lparr>l_left := p, l_heap := st2\<lparr>h_memory := m\<rparr>, l_right := q\<rparr>"
            by (cases l) (simp add: with_memory_def)
          ultimately have "cpu_probe_blocks l k = k (with_memory m ?l)"
            using one(1) two(1) p q r4nv_set_put [OF acc, of 0] allocate_span(1) [OF one(1) p] allocate_span(1) [OF two(1) q]
            by (simp add: cpu_probe_blocks_def os_alloc_mem_def nvkms_alloc_def cpu_check_def local_memory_def m_def)
          then show ?thesis using k [OF v'] by simp
        qed
      qed
    qed
  qed
qed

section \<open>Memory, strings and clock\<close>

lemma with_memory_again [simp]: "with_memory m (with_memory m' l) = with_memory m l"
  by (simp add: with_memory_def)

lemma cpu_write_done [simp]: "cpu_write (Some (m, d)) d line l k = k (with_memory m l)"
  by (simp add: cpu_write_def cpu_check_def)

lemma pattern_loop_put:
  "accessible m (left + i) n \<Longrightarrow> n < 2 ^ 64 \<Longrightarrow>
   pattern_loop n seed i m left = Some (put m (left + i) (map (\<lambda>j. pattern_byte seed (i + of_nat j)) [0..<n]))"
proof (induction n arbitrary: i m)
  case (Suc n)
  define m1 where "m1 = m(left + i \<mapsto> pattern_byte seed i)"
  have m: "m (left + i) \<noteq> None" "accessible m (left + (i + 1)) n" using Suc.prems(1) by (simp_all add: accessible_Suc add.assoc)
  then have acc: "accessible m1 (left + (i + 1)) n" by (auto simp: accessible_def m1_def)
  have "map (\<lambda>j. pattern_byte seed (i + of_nat j)) [0..<Suc n] =
      pattern_byte seed i # map (\<lambda>j. pattern_byte seed (i + 1 + of_nat j)) [0..<n]"
    by (rule nth_equalityI) (auto simp: nth_Cons simp del: upt_Suc split: nat.split simp add: add.assoc)
  moreover have "put m1 (left + (i + 1)) bs = put m (left + i) (pattern_byte seed i # bs)" if "length bs = n" for bs
    using put_append [of "[pattern_byte seed i]" bs m "left + i"] Suc.prems(2) that
    by (cases "bs = []") (simp_all add: put_singleton add.assoc m1_def)
  moreover have "pattern_loop n seed (i + 1) m1 left =
      Some (put m1 (left + (i + 1)) (map (\<lambda>j. pattern_byte seed (i + 1 + of_nat j)) [0..<n]))"
    by (rule Suc.IH [OF acc]) (use Suc.prems(2) in simp)
  moreover have "store_byte m (left + i) (pattern_byte seed i) = Some m1" using m(1) by (simp add: store_byte_def m1_def)
  ultimately show ?case by (simp del: upt_Suc)
qed simp

text \<open>The adapters on the two blocks.\<close>

lemma view_ops:
  assumes v: "view K A f hl hr l ls rs fs ss"
  shows "r4nv_set (local_memory l) (l_left l) c 513 = Some (put (local_memory l) (l_left l) (replicate 513 c), l_left l)"
    "r4nv_set (local_memory l) (l_right l) c 513 = Some (put (local_memory l) (l_right l) (replicate 513 c), l_right l)"
    "k + unat n \<le> 513 \<Longrightarrow> j + unat n \<le> 513 \<Longrightarrow> r4nv_copy (local_memory l) (l_right l + of_nat k) (l_left l + of_nat j) n =
       Some (put (local_memory l) (l_right l + of_nat k) (take (unat n) (drop j ls)), l_right l + of_nat k)"
    "k + unat n \<le> 513 \<Longrightarrow> j + unat n \<le> 513 \<Longrightarrow> nvkms_memmove (local_memory l) (l_right l + of_nat k) (l_right l + of_nat j) n =
       Some (put (local_memory l) (l_right l + of_nat k) (take (unat n) (drop j rs)), l_right l + of_nat k)"
proof -
  have lay: "layout (local_memory l) (probe_regions f l hl hr ls rs fs ss)"
    and len: "length hl = 16" "length hr = 16" "length ls = 513" "length rs = 513"
    and below: "unat (l_right l) + 513 < 2 ^ 64" "16 \<le> unat (l_right l)"
    using v by (simp_all add: view_def)
  have regs: "0 < length (probe_regions f l hl hr ls rs fs ss)" "1 < length (probe_regions f l hl hr ls rs fs ss)"
    "probe_regions f l hl hr ls rs fs ss ! 0 = (l_right l - 16, hr @ rs)"
    "probe_regions f l hl hr ls rs fs ss ! 1 = (l_left l - 16, hl @ ls)"
    by (simp_all add: probe_regions_def)
  show "r4nv_set (local_memory l) (l_left l) c 513 = Some (put (local_memory l) (l_left l) (replicate 513 c), l_left l)"
    using layout_set [OF lay regs(2,4), of 16 513 c] len by simp
  show "r4nv_set (local_memory l) (l_right l) c 513 = Some (put (local_memory l) (l_right l) (replicate 513 c), l_right l)"
    using layout_set [OF lay regs(1,3), of 16 513 c] len by simp
  show "r4nv_copy (local_memory l) (l_right l + of_nat k) (l_left l + of_nat j) n =
       Some (put (local_memory l) (l_right l + of_nat k) (take (unat n) (drop j ls)), l_right l + of_nat k)"
    if "k + unat n \<le> 513" "j + unat n \<le> 513"
    using layout_copy [OF lay regs(1,2) _ regs(3,4), of "16 + k" n "16 + j"] that len unfolding user_address by simp
  have "unat (l_right l - 16) = unat (l_right l) - 16" using below(2) by (subst unat_sub_nowrap) simp_all
  then show "nvkms_memmove (local_memory l) (l_right l + of_nat k) (l_right l + of_nat j) n =
       Some (put (local_memory l) (l_right l + of_nat k) (take (unat n) (drop j rs)), l_right l + of_nat k)"
    if "k + unat n \<le> 513" "j + unat n \<le> 513"
    using layout_move [OF lay regs(1,3), of "16 + k" n "16 + j"] that len below unfolding user_address by simp
qed

lemma patch_all: "length cs = length bs \<Longrightarrow> patch 0 cs bs = cs"
  by (simp add: patch_def)

lemma take_drop_patch: "k + length cs \<le> length bs \<Longrightarrow> take (length cs) (drop k (patch k cs bs)) = cs"
  by (simp add: patch_def)

text \<open>Lines 71 to 75, from blocks whose first and last bytes are the ones of the left.\<close>

lemma moves_ok:
  assumes v: "view K A f hl hr l ls rs fs ss" and ends: "ls ! 0 = 0xa5" "ls ! 512 = 0xa5"
    and k: "\<And>l' ls' rs'. view K A f hl hr l' ls' rs' fs ss \<Longrightarrow> l_clock l' = l_clock l \<Longrightarrow> run_ok K A P (k l')"
  shows "run_ok K A P (cpu_probe_moves l k)"
proof -
  define left right where "left = l_left l" and "right = l_right l"
  have len: "length ls = 513" "length rs = 513" using v by (simp_all add: view_def)
  define m1 where "m1 = put (local_memory l) right ls"
  have v1: "view K A f hl hr (with_memory m1 l) ls ls fs ss"
    using view_put(2) [OF v, of 0 ls] len by (simp add: m1_def right_def patch_all)
  have c1: "r4nv_copy (local_memory l) right left 513 = Some (m1, right)"
    using view_ops(3) [OF v, of 0 513 0] len by (simp add: m1_def left_def right_def)
  have e1: "r4nv_compare m1 right left 513 = Some 0"
    using layout_compare [OF view_holds(2) [OF v1] view_holds(1) [OF v1], of 0 513 0] len by (simp add: left_def right_def)
  define part where "part = take 508 (drop 1 ls)"
  have lp: "length part = 508" using len by (simp add: part_def)
  define r2 where "r2 = patch 4 part ls"
  have l2: "length r2 = 513" using len lp by (simp add: r2_def)
  define m2 where "m2 = put m1 (right + 4) part"
  have v2: "view K A f hl hr (with_memory m2 l) ls r2 fs ss"
    using view_put(2) [OF v1, of 4 part] lp by (simp add: m2_def right_def r2_def)
  have c2: "nvkms_memmove m1 (right + 4) (right + 1) 508 = Some (m2, right + 4)"
    using view_ops(4) [OF v1, of 4 508 1] by (simp add: m2_def right_def part_def)
  have t2: "take 508 (drop 4 r2) = part" using take_drop_patch [of 4 part ls] lp len by (simp add: r2_def)
  have e2: "r4nv_compare m2 (right + 4) (left + 1) 508 = Some 0"
    using layout_compare [OF view_holds(2) [OF v2] view_holds(1) [OF v2], of 4 508 1] len l2 t2
    by (simp add: left_def right_def part_def)
  define r3 where "r3 = patch 1 part r2"
  have l3: "length r3 = 513" using l2 lp by (simp add: r3_def)
  define m3 where "m3 = put m2 (right + 1) part"
  have v3: "view K A f hl hr (with_memory m3 l) ls r3 fs ss"
    using view_put(2) [OF v2, of 1 part] lp by (simp add: m3_def right_def r3_def)
  have c3: "nvkms_memmove m2 (right + 1) (right + 4) 508 = Some (m3, right + 1)"
    using view_ops(4) [OF v2, of 1 508 4] t2 by (simp add: m3_def right_def)
  have e3: "r4nv_compare m3 (right + 1) (left + 1) 508 = Some 0"
    using layout_compare [OF view_holds(2) [OF v3] view_holds(1) [OF v3], of 1 508 1] len l3
      take_drop_patch [of 1 part r2] lp l2
    by (simp add: left_def right_def r3_def part_def)
  have "r3 ! 0 = 0xa5" "r3 ! 512 = 0xa5"
    using ends len lp l2 by (simp_all add: r3_def r2_def nth_patch)
  then have b3: "m3 right = Some 0xa5" "m3 (right + 512) = Some 0xa5"
    using holds_nth [OF view_holds(2) [OF v3], of 0] holds_nth [OF view_holds(2) [OF v3], of 512] l3 by (simp_all add: right_def)
  have "cpu_probe_moves l k = k (with_memory m3 l)"
    unfolding cpu_probe_moves_def Let_def left_def [symmetric] right_def [symmetric]
    by (simp add: nvkms_memcpy_def nvkms_memcmp_def c1 e1 c2 e2 c3 e3 b3 cpu_check_def)
  then show ?thesis using k [OF v3] by simp
qed

lemma fills_ok:
  assumes v: "view K A f hl hr l ls rs fs ss"
    and k: "\<And>l' ls' rs'. view K A f hl hr l' ls' rs' fs ss \<Longrightarrow> l_clock l' = l_clock l \<Longrightarrow> run_ok K A P (k l')"
  shows "run_ok K A P (cpu_probe_fills seed l k)"
proof -
  define left right where "left = l_left l" and "right = l_right l"
  have len: "length ls = 513" "length rs = 513" using v by (simp_all add: view_def)
  define m1 where "m1 = put (local_memory l) left (replicate 513 0xa5)"
  have v1: "view K A f hl hr (with_memory m1 l) (replicate 513 0xa5) rs fs ss"
    using view_put(1) [OF v, of 0 "replicate 513 0xa5"] len by (simp add: m1_def left_def patch_all)
  have c1: "r4nv_set (local_memory l) left 0xa5 513 = Some (m1, left)" using view_ops(1) [OF v] by (simp add: m1_def left_def)
  define m2 where "m2 = put m1 right (replicate 513 0x5a)"
  have v2: "view K A f hl hr (with_memory m2 l) (replicate 513 0xa5) (replicate 513 0x5a) fs ss"
    using view_put(2) [OF v1, of 0 "replicate 513 0x5a"] len by (simp add: m2_def right_def patch_all)
  have c2: "r4nv_set m1 right 0x5a 513 = Some (m2, right)" using view_ops(2) [OF v1] by (simp add: m2_def right_def)
  define part where "part = map (\<lambda>j. pattern_byte seed (1 + of_nat j)) [0..<511]"
  have lp: "length part = 511" by (simp add: part_def)
  define l3 where "l3 = patch 1 part (replicate 513 0xa5)"
  have len3: "length l3 = 513" using lp by (simp add: l3_def)
  define m3 where "m3 = put m2 (left + 1) part"
  have v3: "view K A f hl hr (with_memory m3 l) l3 (replicate 513 0x5a) fs ss"
    using view_put(1) [OF v2, of 1 part] lp by (simp add: m3_def left_def l3_def)
  have c3: "pattern_loop 511 seed 1 m2 left = Some m3"
    using pattern_loop_put [of m2 left 1 511 seed] holds_accessible [OF view_holds(1) [OF v2], of 1 511]
    by (simp add: m3_def part_def left_def)
  have t3: "take 511 (drop 1 l3) = part" using take_drop_patch [of 1 part "replicate 513 0xa5"] lp by (simp add: l3_def)
  define r4 where "r4 = patch 1 part (replicate 513 0x5a)"
  have len4: "length r4 = 513" using lp by (simp add: r4_def)
  define m4 where "m4 = put m3 (right + 1) part"
  have v4: "view K A f hl hr (with_memory m4 l) l3 r4 fs ss"
    using view_put(2) [OF v3, of 1 part] lp by (simp add: m4_def right_def r4_def)
  have c4: "r4nv_copy m3 (right + 1) (left + 1) 511 = Some (m4, right + 1)"
    using view_ops(3) [OF v3, of 1 511 1] t3 by (simp add: m4_def left_def right_def)
  have t4: "take 511 (drop 1 r4) = part" using take_drop_patch [of 1 part "replicate 513 0x5a"] lp by (simp add: r4_def)
  have e4: "r4nv_compare m4 (left + 1) (right + 1) 511 = Some 0"
    using layout_compare [OF view_holds(1) [OF v4] view_holds(2) [OF v4], of 1 511 1] len3 len4 t3 t4
    by (simp add: left_def right_def)
  have ends: "l3 ! 0 = 0xa5" "l3 ! 512 = 0xa5" "r4 ! 0 = 0x5a" "r4 ! 512 = 0x5a"
    using lp by (simp_all add: l3_def r4_def nth_patch)
  then have b4: "m4 left = Some 0xa5" "m4 (left + 512) = Some 0xa5" "m4 right = Some 0x5a" "m4 (right + 512) = Some 0x5a"
    using holds_nth [OF view_holds(1) [OF v4], of 0] holds_nth [OF view_holds(1) [OF v4], of 512]
      holds_nth [OF view_holds(2) [OF v4], of 0] holds_nth [OF view_holds(2) [OF v4], of 512] len3 len4
    by (simp_all add: left_def right_def)
  have "cpu_probe_fills seed l k = cpu_probe_moves (with_memory m4 l) k"
    unfolding cpu_probe_fills_def Let_def left_def [symmetric] right_def [symmetric]
    by (simp add: os_mem_set_def nvkms_memset_def os_mem_copy_def os_mem_cmp_def c1 c2 c3 c4 e4 b4 cpu_check_def)
  then show ?thesis using moves_ok [OF v4 ends(1,2), of P k] k by simp
qed

text \<open>The strings.\<close>

lemma view_native:
  assumes v: "view K A f hl hr l ls rs fs ss"
  shows "cstring (local_memory l) (pf_native f) native_text" "cstring (local_memory l) (pf_rm f) [0x52, 0x4D]"
    "cstring (local_memory l) (pf_rn f) [0x52, 0x4E]"
  using holds_cstring [of "local_memory l" "pf_native f" native_text "[]"] holds_cstring [of "local_memory l" "pf_rm f" "[0x52, 0x4D]" "[]"]
    holds_cstring [of "local_memory l" "pf_rn f" "[0x52, 0x4E]" "[]"] view_holds [OF v] by simp_all

lemma name_order:
  assumes "cstring m p [0x52, 0x4D]" "cstring m q [0x52, 0x4E]"
  shows "\<exists>c d. r4nv_string_compare m p q = Some c \<and> c < 0 \<and> r4nv_string_compare m q p = Some d \<and> d > 0"
proof -
  obtain c where c: "r4nv_string_compare m p q = Some c" "compares [0x52, 0x4D] [0x52, 0x4E] c"
    using string_compare_compares [OF assms] by blast
  obtain d where d: "r4nv_string_compare m q p = Some d" "compares [0x52, 0x4E] [0x52, 0x4D] d"
    using string_compare_compares [OF assms(2,1)] by blast
  show ?thesis using c d by (auto simp: compares_def)
qed

lemma strings_ok:
  assumes v: "view K A f hl hr l ls rs fs ss"
    and k: "\<And>l' fs' ss'. view K A f hl hr l' ls rs fs' ss' \<Longrightarrow> l_clock l' = l_clock l \<Longrightarrow> run_ok K A P (k l')"
  shows "run_ok K A P (cpu_probe_strings f l k)"
proof -
  have len: "length fs = 24" "length ss = 24" using v by (simp_all add: view_def)
  have lay: "layout (local_memory l) (probe_regions f l hl hr ls rs fs ss)" using v by (simp add: view_def)
  have apart: "15 \<le> unat (pf_first f - pf_native f)"
    using layout_apart [OF lay, of "Suc (Suc 0)" "Suc (Suc (Suc (Suc 0)))" "pf_first f" fs "pf_native f" "native_text @ [0]" 0 0 15] len
    by (simp add: probe_regions_def frame_regions_def)
  have size: "Suc (length native_text) = 15" by simp
  define m1 where "m1 = put (local_memory l) (pf_first f) (native_text @ [0])"
  have v1: "view K A f hl hr (with_memory m1 l) ls rs (patch 0 (native_text @ [0]) fs) ss"
    using view_put(3) [OF v, of 0 "native_text @ [0]"] by (simp add: m1_def)
  have first: "patch 0 (native_text @ [0]) fs = native_text @ 0 # drop 15 fs" by (simp add: patch_def numeral_eq_Suc)
  have second: "replicate 10 0 = 0 # replicate 9 (0 :: NvU8)" by (simp add: numeral_eq_Suc)
  have c1: "os_string_copy (local_memory l) (pf_first f) (pf_native f) = Some (m1, pf_first f)"
    using string_copy_loop_put [OF view_native(1) [OF v], of "pf_first f", unfolded size] apart holds_accessible [OF view_holds(3) [OF v], of 0 15] len
    by (simp add: os_string_copy_def m1_def)
  have s1: "cstring m1 (pf_first f) native_text" "cstring m1 (pf_native f) native_text"
    using holds_cstring [of m1 "pf_first f" native_text "drop 15 fs"] view_holds(3) [OF v1, unfolded first] view_native(1) [OF v1]
    by simp_all
  have n1: "os_string_length m1 (pf_first f) = Some 14" "r4nv_string_compare m1 (pf_first f) (pf_native f) = Some 0"
    using r4nv_length_cstring [OF s1(1)] cstring_compare_eq [OF s1] by (simp_all add: os_string_length_def)
  obtain a b where o1: "r4nv_string_compare m1 (pf_rm f) (pf_rn f) = Some a" "a < 0" "r4nv_string_compare m1 (pf_rn f) (pf_rm f) = Some b" "b > 0"
    using name_order [OF view_native(2,3) [OF v1]] by auto
  have lay1: "layout m1 (probe_regions f l hl hr ls rs (patch 0 (native_text @ [0]) fs) ss)" using v1 by (simp add: view_def)
  have apart1: "24 \<le> unat (pf_second f - pf_first f)"
    using layout_apart [OF lay1, of "Suc (Suc (Suc 0))" "Suc (Suc 0)" "pf_second f" ss "pf_first f" "patch 0 (native_text @ [0]) fs" 0 0 24] len
    by (simp add: probe_regions_def frame_regions_def)
  define m2 where "m2 = put m1 (pf_second f) (native_text @ replicate 10 0)"
  have v2: "view K A f hl hr (with_memory m2 l) ls rs (patch 0 (native_text @ [0]) fs) (native_text @ replicate 10 0)"
    using view_put(4) [OF v1, of 0 "native_text @ replicate 10 0"] len by (simp add: m2_def patch_all)
  have c2: "nvkms_strncpy m1 (pf_second f) (pf_first f) 24 = Some (m2, pf_second f)"
    using nvkms_strncpy_put [OF s1(1), of "pf_second f" 24] apart1 holds_accessible [OF view_holds(4) [OF v1], of 0 24] len
    by (simp add: m2_def)
  have h2: "holds m2 (pf_second f) (native_text @ replicate 10 0)" using view_holds(4) [OF v2] by simp
  have s2: "cstring m2 (pf_first f) native_text" "cstring m2 (pf_second f) native_text"
    using holds_cstring [of m2 "pf_first f" native_text "drop 15 fs"] view_holds(3) [OF v2, unfolded first]
      holds_cstring [of m2 "pf_second f" native_text "replicate 9 0"] h2
    by (simp_all add: second)
  have n2: "r4nv_length m2 (pf_second f) = Some 14" "r4nv_string_compare m2 (pf_first f) (pf_second f) = Some 0"
    using r4nv_length_cstring [OF s2(2)] cstring_compare_eq [OF s2] by simp_all
  have z2: "bytes_zero 10 m2 (pf_second f + 14) = Some True"
    using h2 bytes_zero_holds [of m2 "pf_second f + 14" 10] holds_append [of m2 "pf_second f" native_text "replicate 10 0"] by simp
  obtain c d where o2: "r4nv_string_compare m2 (pf_rm f) (pf_rn f) = Some c" "c < 0" "r4nv_string_compare m2 (pf_rn f) (pf_rm f) = Some d" "d > 0"
    using name_order [OF view_native(2,3) [OF v2]] by auto
  have "cpu_probe_strings f l k = k (with_memory m2 l)"
    unfolding cpu_probe_strings_def
    by (simp add: os_string_compare_def nvkms_strcmp_def nvkms_strlen_def c1 n1 o1 c2 n2 z2 o2 cpu_check_def)
  then show ?thesis using k [OF v2] by simp
qed

text \<open>
  The clock: when it does not go back, only a clock that is lost on the way fails the probe, and it fails it
  at line 88.
\<close>

definition clock_verdict :: "int \<Rightarrow> 'c clock_state \<Rightarrow> bool" where
  "clock_verdict line c \<longleftrightarrow> line \<in> {0, 54, 58, 61, 63} \<or>
     line = 88 \<and> (\<not> clock_available c \<or> \<not> sorted (c_readings c)) \<or> line = 90 \<and> \<not> sorted (c_readings c)"

lemma now_cases:
  assumes "r4nv_clock_now_ns s = (t, s')"
  shows "t = unavailable \<and> \<not> clock_available s' \<or>
    t \<noteq> unavailable \<and> clock_available s \<and> clock_available s' \<and> c_readings s' = c_readings s @ [t]"
  using assms by (auto simp: r4nv_clock_now_ns_def clock_available_def Let_def split: option.split_asm prod.split_asm if_split_asm)

lemma resolution_cases:
  assumes "r4nv_clock_resolution_ns s = (t, s')"
  shows "t = unavailable \<and> \<not> clock_available s' \<or>
    t \<noteq> unavailable \<and> t \<noteq> 0 \<and> clock_available s \<and> clock_available s' \<and> c_readings s' = c_readings s"
  using assms
  by (auto simp: r4nv_clock_resolution_ns_def snapshot_def clock_available_def Let_def split: option.split_asm prod.split_asm if_split_asm)

lemma usec_mono: "(s :: NvU64) \<le> t \<Longrightarrow> s div 1000 \<le> t div 1000"
  by (simp add: word_le_nat_alt unat_div_distrib div_le_mono)

lemma clock_ok:
  assumes "ready K A l"
  shows "run_ok K A clock_verdict (cpu_probe_clock l)"
proof -
  obtain before c1 where s1: "r4nv_clock_now_ns (l_clock l) = (before, c1)" by fastforce
  obtain middle c2 where s2: "r4nv_clock_now_ns c1 = (middle, c2)" by fastforce
  obtain res c3 where s3: "r4nv_clock_resolution_ns c2 = (res, c3)" by fastforce
  obtain t c4 where s4: "r4nv_clock_now_ns c3 = (t, c4)" by fastforce
  obtain after c5 where s5: "r4nv_clock_now_ns c4 = (after, c5)" by fastforce
  define usec where "usec = (if t = unavailable then unavailable else t div 1000)"
  let ?l = "l\<lparr>l_clock := c5\<rparr>"
  have body: "cpu_probe_clock l =
      cpu_check (before \<noteq> unavailable \<and> middle \<ge> before \<and> after \<ge> middle \<and> after \<noteq> unavailable) 88 ?l
        (cpu_check (res \<noteq> 0 \<and> res \<noteq> unavailable \<and> usec \<noteq> unavailable) 89 ?l
          (cpu_check (usec \<ge> middle div 1000 \<and> usec \<le> after div 1000) 90 ?l (Some (0, ?l))))"
    by (simp add: cpu_probe_clock_def os_get_current_tick_def os_get_current_tick_hr_def os_get_tick_resolution_def nvkms_get_usec_def
        s1 s2 s3 s4 s5 usec_def Let_def)
  have rd: "ready K A ?l" using assms by (simp add: ready_def pointers_def)
  show ?thesis
  proof (cases "after = unavailable")
    case True
    then have "\<not> clock_available c5" using now_cases [OF s5] by simp
    then show ?thesis using True body rd by (simp add: run_ok_def cpu_check_def clock_verdict_def)
  next
    case False
    then have r5: "clock_available c4" "c_readings c5 = c_readings c4 @ [after]" using now_cases [OF s5] by auto
    then have r4: "t \<noteq> unavailable" "clock_available c3" "c_readings c4 = c_readings c3 @ [t]" using now_cases [OF s4] by auto
    then have r3: "res \<noteq> unavailable" "res \<noteq> 0" "clock_available c2" "c_readings c3 = c_readings c2" using resolution_cases [OF s3] by auto
    then have r2: "middle \<noteq> unavailable" "clock_available c1" "c_readings c2 = c_readings c1 @ [middle]" using now_cases [OF s2] by auto
    then have r1: "before \<noteq> unavailable" "c_readings c1 = c_readings (l_clock l) @ [before]" using now_cases [OF s1] by auto
    have usec: "usec = t div 1000" "usec \<noteq> unavailable"
      using r4(1) rm_clock.usec_unavailable [of c3] s4 by (simp_all add: usec_def nvkms_get_usec_def)
    have ordered: "before \<le> middle \<and> middle \<le> after \<and> middle \<le> t \<and> t \<le> after" if "sorted (c_readings c5)"
      using that unfolding r5(2) r4(3) r3(4) r2(3) r1(2) by (simp add: sorted_append)
    show ?thesis
    proof (cases "sorted (c_readings c5)")
      case True
      then show ?thesis
        using ordered usec_mono [of middle t] usec_mono [of t after] body rd r1(1) r3 usec False
        by (simp add: run_ok_def cpu_check_def clock_verdict_def)
    next
      case unsorted: False
      then show ?thesis
        using body rd r3 usec False by (auto simp: run_ok_def cpu_check_def clock_verdict_def)
    qed
  qed
qed

section \<open>Properties\<close>

text \<open>
  C10: The driver's own check of memory, strings and clock. On every kernel whose heap keeps its word, and for every
  seed, \<^verbatim>\<open>r4nv_cpu_probe\<close> returns without an access outside mapped memory; the only checks that can fail are the four
  on an allocation the kernel refused (lines 54, 58, 61 and 63), line 88 when the clock was lost or went back, and
  line 90 when it went back: no check of a fill, a copy, a move, a comparison or a string ever fails. Whichever
  way it ends, the blocks it allocated are given back: with a kernel that takes its blocks the set of granted
  blocks is what it was.
\<close>

theorem cpu_probe_sound:
  assumes "kernel_heap_ok K" "h_context h = Some (kv_service K)" "frame_ok K f (h_memory h)"
  shows "\<exists>line h' c'. r4nv_cpu_probe f seed h c = Some (line, h', c') \<and>
    (line \<in> {0, 54, 58, 61, 63} \<or> line = 88 \<and> (\<not> clock_available c' \<or> \<not> sorted (c_readings c')) \<or>
     line = 90 \<and> \<not> sorted (c_readings c')) \<and>
    kv_block K (h_world h) \<subseteq>\<^sub>m kv_block K (h_world h') \<and>
    (kernel_returns K \<longrightarrow> kv_block K (h_world h') = kv_block K (h_world h))"
proof -
  let ?A = "kv_block K (h_world h)"
  define l :: "('a, 'b) probe_locals" where
    "l = \<lparr>l_left = 0, l_right = 0, l_empty = 0, l_huge = 0, l_heap = h, l_clock = c\<rparr>"
  have start: "started K ?A f l"
    using assms(2,3) by (simp add: started_def ready_none l_def grown_def local_memory_def)
  have "run_ok K ?A clock_verdict (cpu_probe_strings f l' cpu_probe_clock)" if "view K ?A f hl hr l' ls rs fs ss"
    for l' :: "('a, 'b) probe_locals" and hl hr ls rs fs ss
    by (rule strings_ok [OF that]) (simp add: clock_ok view_def)
  then have "run_ok K ?A clock_verdict (cpu_probe_fills seed l' (\<lambda>l. cpu_probe_strings f l cpu_probe_clock))"
    if "view K ?A f hl hr l' ls rs fs ss" for l' :: "('a, 'b) probe_locals" and hl hr ls rs fs ss
    by (intro fills_ok [OF that])
  then have "run_ok K ?A clock_verdict (cpu_probe_blocks l' (\<lambda>l. cpu_probe_fills seed l (\<lambda>l. cpu_probe_strings f l cpu_probe_clock)))"
    if "started K ?A f l'" for l' :: "('a, 'b) probe_locals"
    by (intro blocks_ok [OF assms(1) that]) (simp_all add: clock_verdict_def)
  then have "run_ok K ?A clock_verdict (cpu_probe_sizes l (\<lambda>l. cpu_probe_blocks l (\<lambda>l. cpu_probe_fills seed l
      (\<lambda>l. cpu_probe_strings f l cpu_probe_clock))))"
    by (intro sizes_ok [OF assms(1) start]) (simp_all add: clock_verdict_def)
  then obtain line l1 where run: "cpu_probe_sizes l (\<lambda>l. cpu_probe_blocks l (\<lambda>l. cpu_probe_fills seed l
      (\<lambda>l. cpu_probe_strings f l cpu_probe_clock))) = Some (line, l1)" "ready K ?A l1" "clock_verdict line (l_clock l1)"
    by (auto simp: run_ok_def)
  obtain l2 where "cpu_probe_done l1 = Some l2" "l_clock l2 = l_clock l1" "grown K ?A (h_world (l_heap l2))"
    using done_ok [OF assms(1) run(2)] by blast
  then show ?thesis
    using run by (auto simp: r4nv_cpu_probe_def l_def [symmetric] clock_verdict_def grown_def)
qed

subsection \<open>A frame\<close>

text \<open>The frame at 4096.\<close>

definition sample_frame :: probe_frame where
  "sample_frame = \<lparr>pf_first = 4096, pf_second = 4128, pf_native = 4160, pf_rm = 4192, pf_rn = 4208\<rparr>"

definition frame_memory :: memory where
  "frame_memory = put (put (put (\<lambda>x. Some 0) 4160 (native_text @ [0])) 4192 [0x52, 0x4D, 0]) 4208 [0x52, 0x4E, 0]"

lemma sample_frame_ok: "frame_ok slot_view sample_frame frame_memory"
proof -
  have apart: "span a n \<inter> span b k = {}" "span b k \<inter> span a n = {}" if "unat a + n \<le> unat b" "unat b + k \<le> 2 ^ 64" for a b n k
    using span_before [OF that] by auto
  have zero: "holds (\<lambda>x. Some 0) a (replicate n 0)" for a n by (simp add: holds_def)
  have native: "holds (put (\<lambda>x. Some 0) 4160 (native_text @ [0])) 4160 (native_text @ [0])" by (rule holds_put_all) simp
  have "layout frame_memory (frame_regions sample_frame (replicate 24 0) (replicate 24 0))"
    unfolding layout_def frame_regions_def sample_frame_def frame_memory_def region_span_def
    using zero native holds_put_all
    by (simp add: All_less_Suc2 apart holds_put_other)
  moreover have "region_span r \<subseteq> kv_resident slot_view" if "r \<in> set (frame_regions sample_frame (replicate 24 0) (replicate 24 0))" for r
  proof
    fix x assume "x \<in> region_span r"
    moreover have "unat (fst r) + length (snd r) \<le> 2 ^ 32"
      using that by (auto simp: frame_regions_def sample_frame_def)
    ultimately have "unat x < 2 ^ 32" using span_bounds(2) [of x "fst r" "length (snd r)"] by (simp add: region_span_def)
    then show "x \<in> kv_resident slot_view" by (simp add: slot_view_def)
  qed
  ultimately show ?thesis unfolding frame_ok_def by (intro exI [of _ "replicate 24 0"]) simp
qed

theorem cpu_probe_sound_witness:
  "\<exists>line h' c'. r4nv_cpu_probe sample_frame 7
      \<lparr>h_context = Some slot_service, h_failed_releases = 0, h_world = [], h_memory = frame_memory\<rparr> sample_clock = Some (line, h', c') \<and>
    kv_block slot_view (h_world h') = kv_block slot_view []"
proof -
  let ?h = "\<lparr>h_context = Some slot_service, h_failed_releases = 0, h_world = [], h_memory = frame_memory\<rparr>"
  have "h_context ?h = Some (kv_service slot_view)" "frame_ok slot_view sample_frame (h_memory ?h)"
    using sample_frame_ok by (simp_all add: slot_view_def)
  from cpu_probe_sound [OF slot_kernel_ok this, of 7 sample_clock] slot_kernel_returns
  show ?thesis by auto
qed

end
