(* ===== verification/Rm_Format.thy ===== *)
theory Rm_Format
  imports Prelude "HOL-Library.Code_Target_Nat"
begin

text \<open>
  The integer formatter of \<^verbatim>\<open>src/rm/format.h\<close> and its four adapters in \<^verbatim>\<open>os_format.c\<close> and \<^verbatim>\<open>nvkms_format.c\<close>.

  A C string is the list of its bytes before the terminator, a pointer argument that may be null an
  option. The output buffer is a list, a write past its end is undefined behaviour (\<^const>\<open>None\<close>), and so is
  a variadic argument that is missing or of another type than the conversion reads. The \<^verbatim>\<open>unsigned\<close>
  counters are natural numbers: every addition to them is behind a guard that keeps it below \<^verbatim>\<open>INT_MAX\<close>.
  Buffer, format and text arguments do not overlap.
\<close>

section \<open>Definitions\<close>

abbreviation (input) R4NV_FORMAT_LIMIT :: nat where "R4NV_FORMAT_LIMIT \<equiv> 65536"
abbreviation (input) INT_MAX :: nat where "INT_MAX \<equiv> 2147483647"
abbreviation (input) NUL :: char where "NUL \<equiv> CHR 0x00"

datatype r4nv_fmt_length =
  R4NV_INT | R4NV_CHAR | R4NV_SHORT | R4NV_LONG | R4NV_LLONG | R4NV_SIZE | R4NV_PTRDIFF | R4NV_MAXINT

record r4nv_fmt_output =
  o_data :: string
  o_capacity :: nat
  o_used :: nat
  o_count :: nat
  o_failed :: bool

text \<open>
  The variadic arguments after default promotion: an \<^verbatim>\<open>int\<close>, a 64-bit integer, or a pointer with the bytes
  it points to.
\<close>

datatype fmt_arg = ArgInt NvU32 | ArgLong NvU64 | ArgPtr NvU64 string

subsection \<open>Output\<close>

definition room :: "r4nv_fmt_output \<Rightarrow> nat" where
  "room out = (if o_capacity out = 0 then 0 else o_capacity out - 1 - o_used out)"

text \<open>The common body of \<open>r4nv_fmt_repeat\<close> and \<open>r4nv_fmt_bytes\<close>: count everything, store what fits.\<close>

definition fmt_emit :: "r4nv_fmt_output \<Rightarrow> nat \<Rightarrow> (nat \<Rightarrow> string) \<Rightarrow> r4nv_fmt_output option" where
  "fmt_emit out n chars =
     (if o_failed out then Some out
      else if n > INT_MAX - o_count out then Some (out\<lparr>o_failed := True\<rparr>)
      else let copied = (if n < room out then n else room out) in
        if o_used out + copied \<le> length (o_data out)
        then Some (out\<lparr>o_count := o_count out + n,
               o_data := take (o_used out) (o_data out) @ chars copied @ drop (o_used out + copied) (o_data out),
               o_used := o_used out + copied\<rparr>)
        else None)"

definition r4nv_fmt_repeat :: "r4nv_fmt_output \<Rightarrow> char \<Rightarrow> nat \<Rightarrow> r4nv_fmt_output option" where
  "r4nv_fmt_repeat out ch n = fmt_emit out n (\<lambda>copied. replicate copied ch)"

definition r4nv_fmt_bytes :: "r4nv_fmt_output \<Rightarrow> string \<Rightarrow> nat \<Rightarrow> r4nv_fmt_output option" where
  "r4nv_fmt_bytes out txt n = (if n \<le> length txt then fmt_emit out n (\<lambda>copied. take copied txt) else None)"

subsection \<open>Arguments\<close>

definition is_digit :: "char \<Rightarrow> bool" where
  "is_digit c \<longleftrightarrow> (48 :: nat) \<le> of_char c \<and> of_char c \<le> (57 :: nat)"

definition is_alnum :: "char \<Rightarrow> bool" where
  "is_alnum c \<longleftrightarrow> ((65 :: nat) \<le> of_char c \<and> of_char c \<le> (90 :: nat)) \<or>
     ((97 :: nat) \<le> of_char c \<and> of_char c \<le> (122 :: nat)) \<or> is_digit c"

text \<open>The number read, none when it overflows; and the rest of the format.\<close>

fun r4nv_fmt_decimal :: "string \<Rightarrow> nat \<Rightarrow> nat option \<times> string" where
  "r4nv_fmt_decimal [] result = (Some result, [])"
| "r4nv_fmt_decimal (c # cs) result =
     (if is_digit c then
        (let digit = of_char c - 48 in
         if result > (INT_MAX - digit) div 10 then (None, c # cs)
         else r4nv_fmt_decimal cs (result * 10 + digit))
      else (Some result, c # cs))"

definition r4nv_fmt_unsigned :: "fmt_arg list \<Rightarrow> r4nv_fmt_length \<Rightarrow> (NvU64 \<times> fmt_arg list) option" where
  "r4nv_fmt_unsigned args len =
     (case args of
        ArgInt w # rest \<Rightarrow>
          (case len of
             R4NV_CHAR \<Rightarrow> Some (ucast (ucast w :: NvU8), rest)
           | R4NV_SHORT \<Rightarrow> Some (ucast (ucast w :: NvU16), rest)
           | R4NV_INT \<Rightarrow> Some (ucast w, rest)
           | _ \<Rightarrow> None)
      | ArgLong w # rest \<Rightarrow>
          (if len \<in> {R4NV_LONG, R4NV_LLONG, R4NV_SIZE, R4NV_PTRDIFF, R4NV_MAXINT} then Some (w, rest) else None)
      | _ \<Rightarrow> None)"

definition r4nv_fmt_signed :: "fmt_arg list \<Rightarrow> r4nv_fmt_length \<Rightarrow> (NvU64 \<times> fmt_arg list) option" where
  "r4nv_fmt_signed args len =
     (case args of
        ArgInt w # rest \<Rightarrow>
          (case len of
             R4NV_CHAR \<Rightarrow> Some (scast (ucast w :: NvU8), rest)
           | R4NV_SHORT \<Rightarrow> Some (scast (ucast w :: NvU16), rest)
           | R4NV_INT \<Rightarrow> Some (scast w, rest)
           | _ \<Rightarrow> None)
      | ArgLong w # rest \<Rightarrow>
          (if len \<in> {R4NV_LONG, R4NV_LLONG, R4NV_SIZE, R4NV_PTRDIFF, R4NV_MAXINT} then Some (w, rest) else None)
      | _ \<Rightarrow> None)"

definition va_int :: "fmt_arg list \<Rightarrow> (int \<times> fmt_arg list) option" where
  "va_int args = (case args of ArgInt w # rest \<Rightarrow> Some (sint w, rest) | _ \<Rightarrow> None)"

definition va_ptr :: "fmt_arg list \<Rightarrow> (NvU64 \<times> string \<times> fmt_arg list) option" where
  "va_ptr args = (case args of ArgPtr a txt # rest \<Rightarrow> Some (a, txt, rest) | _ \<Rightarrow> None)"

subsection \<open>Parsing a conversion\<close>

text \<open>The character at the format pointer; the terminator at the end.\<close>

definition peek :: "string \<Rightarrow> char" where
  "peek fs = (case fs of [] \<Rightarrow> NUL | c # _ \<Rightarrow> c)"

record fmt_spec =
  f_left :: bool
  f_plus :: bool
  f_space :: bool
  f_alternate :: bool
  f_zero :: bool
  f_width :: nat
  f_precise :: bool
  f_precision :: nat
  f_length :: r4nv_fmt_length

definition no_spec :: fmt_spec where
  "no_spec = \<lparr>f_left = False, f_plus = False, f_space = False, f_alternate = False, f_zero = False,
     f_width = 0, f_precise = False, f_precision = 0, f_length = R4NV_INT\<rparr>"

fun fmt_flags :: "string \<Rightarrow> fmt_spec \<Rightarrow> fmt_spec \<times> string" where
  "fmt_flags [] sp = (sp, [])"
| "fmt_flags (c # cs) sp =
     (if c = CHR ''-'' then fmt_flags cs (sp\<lparr>f_left := True\<rparr>)
      else if c = CHR ''+'' then fmt_flags cs (sp\<lparr>f_plus := True\<rparr>)
      else if c = CHR '' '' then fmt_flags cs (sp\<lparr>f_space := True\<rparr>)
      else if c = CHR ''#'' then fmt_flags cs (sp\<lparr>f_alternate := True\<rparr>)
      else if c = CHR ''0'' then fmt_flags cs (sp\<lparr>f_zero := True\<rparr>)
      else (sp, c # cs))"

text \<open>
  Each parsing step yields the new specification, or none for a failure of the format, with the rest
  of the format and of the arguments.
\<close>

type_synonym fmt_parse = "fmt_spec option \<times> string \<times> fmt_arg list"

definition fmt_width :: "fmt_spec \<Rightarrow> string \<Rightarrow> fmt_arg list \<Rightarrow> fmt_parse option" where
  "fmt_width sp fs args =
     (if peek fs = CHR ''*'' then do {
        (value, args) \<leftarrow> va_int args;
        let fs = tl fs;
        Some (if value = - 2147483648 then (None, fs, args)
              else if value < 0 then (Some (sp\<lparr>f_left := True, f_width := nat (- value)\<rparr>), fs, args)
              else (Some (sp\<lparr>f_width := nat value\<rparr>), fs, args))
      }
      else let (n, fs) = r4nv_fmt_decimal fs 0 in
        Some (map_option (\<lambda>n. sp\<lparr>f_width := n\<rparr>) n, fs, args))"

definition fmt_precision :: "fmt_spec \<Rightarrow> string \<Rightarrow> fmt_arg list \<Rightarrow> fmt_parse option" where
  "fmt_precision sp fs args =
     (if peek fs = CHR ''.'' then
        (let fs = tl fs; sp = sp\<lparr>f_precise := True\<rparr> in
         if peek fs = CHR ''*'' then do {
           (value, args) \<leftarrow> va_int args;
           let fs = tl fs;
           Some (Some (if value < 0 then sp\<lparr>f_precise := False\<rparr> else sp\<lparr>f_precision := nat value\<rparr>), fs, args)
         }
         else let (n, fs) = r4nv_fmt_decimal fs 0 in
           Some (map_option (\<lambda>n. sp\<lparr>f_precision := n\<rparr>) n, fs, args))
      else Some (Some sp, fs, args))"

definition fmt_length :: "fmt_spec \<Rightarrow> string \<Rightarrow> fmt_spec \<times> string" where
  "fmt_length sp fs =
     (if peek fs = CHR ''h'' then
        (if peek (tl fs) = CHR ''h'' then (sp\<lparr>f_length := R4NV_CHAR\<rparr>, tl (tl fs))
         else (sp\<lparr>f_length := R4NV_SHORT\<rparr>, tl fs))
      else if peek fs = CHR ''l'' then
        (if peek (tl fs) = CHR ''l'' then (sp\<lparr>f_length := R4NV_LLONG\<rparr>, tl (tl fs))
         else (sp\<lparr>f_length := R4NV_LONG\<rparr>, tl fs))
      else if peek fs = CHR ''z'' then (sp\<lparr>f_length := R4NV_SIZE\<rparr>, tl fs)
      else if peek fs = CHR ''t'' then (sp\<lparr>f_length := R4NV_PTRDIFF\<rparr>, tl fs)
      else if peek fs = CHR ''j'' then (sp\<lparr>f_length := R4NV_MAXINT\<rparr>, tl fs)
      else (sp, fs))"

subsection \<open>Conversions\<close>

text \<open>What a conversion writes, in order: runs of a character and spans of a text.\<close>

datatype piece = Repeat char nat | Bytes string nat

definition emit_piece :: "r4nv_fmt_output \<Rightarrow> piece \<Rightarrow> r4nv_fmt_output option" where
  "emit_piece out p = (case p of Repeat c n \<Rightarrow> r4nv_fmt_repeat out c n | Bytes txt n \<Rightarrow> r4nv_fmt_bytes out txt n)"

fun emit_pieces :: "r4nv_fmt_output \<Rightarrow> piece list \<Rightarrow> r4nv_fmt_output option" where
  "emit_pieces out [] = Some out"
| "emit_pieces out (p # ps) = do { out \<leftarrow> emit_piece out p; emit_pieces out ps }"

text \<open>
  The bounded scan of a text argument: the bytes to print, none when the scan limit is reached, and
  the bytes scanned so far in the whole call.
\<close>

fun text_scan :: "string \<Rightarrow> fmt_spec \<Rightarrow> nat \<Rightarrow> nat \<Rightarrow> nat option \<times> nat" where
  "text_scan [] sp bytes scanned =
     (if f_precise sp \<and> \<not> bytes < f_precision sp then (Some bytes, scanned)
      else if scanned = R4NV_FORMAT_LIMIT then (None, scanned)
      else (Some bytes, scanned + 1))"
| "text_scan (c # cs) sp bytes scanned =
     (if f_precise sp \<and> \<not> bytes < f_precision sp then (Some bytes, scanned)
      else if scanned = R4NV_FORMAT_LIMIT then (None, scanned)
      else if c = NUL then (Some bytes, scanned + 1)
      else text_scan cs sp (bytes + 1) (scanned + 1))"

definition text_pieces :: "fmt_spec \<Rightarrow> string \<Rightarrow> nat \<Rightarrow> piece list" where
  "text_pieces sp txt bytes =
     (let padding = (if f_width sp > bytes then f_width sp - bytes else 0) in
      (if f_left sp then [] else [Repeat (CHR '' '') padding]) @ [Bytes txt bytes] @
      (if f_left sp then [Repeat (CHR '' '') padding] else []))"

text \<open>
  The digits from the lowest; the array holds 64 of them, and storing one more would be undefined.
\<close>

fun digit_loop :: "nat \<Rightarrow> NvU64 \<Rightarrow> string \<Rightarrow> NvU64 \<Rightarrow> string option" where
  "digit_loop 0 radix alphabet value = None"
| "digit_loop (Suc space) radix alphabet value = do {
     let digit = alphabet ! unat (value mod radix);
     let value = value div radix;
     if value \<noteq> 0 then do { digits \<leftarrow> digit_loop space radix alphabet value; Some (digit # digits) }
     else Some [digit]
   }"

definition number_zeroes :: "fmt_spec \<Rightarrow> char \<Rightarrow> string \<Rightarrow> nat" where
  "number_zeroes sp conversion digits =
     (let digit_count = length digits;
          zeroes = (if f_precise sp \<and> f_precision sp > digit_count then f_precision sp - digit_count else 0) in
      if conversion = CHR ''o'' \<and> f_alternate sp \<and> zeroes = 0 \<and>
         (digit_count = 0 \<or> digits ! (digit_count - 1) \<noteq> CHR ''0'') then 1 else zeroes)"

definition number_layout :: "fmt_spec \<Rightarrow> char option \<Rightarrow> string \<Rightarrow> nat \<Rightarrow> nat \<Rightarrow> string \<Rightarrow> piece list" where
  "number_layout sp sign prefix padding zeroes digits =
     (let zero_fill = (f_zero sp \<and> \<not> f_precise sp) in
      (if \<not> f_left sp \<and> \<not> zero_fill then [Repeat (CHR '' '') padding] else []) @
      (case sign of None \<Rightarrow> [] | Some c \<Rightarrow> [Repeat c 1]) @
      [Bytes prefix (length prefix)] @
      (if \<not> f_left sp \<and> zero_fill then [Repeat (CHR ''0'') padding] else []) @
      [Repeat (CHR ''0'') zeroes] @
      map (\<lambda>d. Repeat d 1) (rev digits) @
      (if f_left sp then [Repeat (CHR '' '') padding] else []))"

definition number_pieces ::
  "fmt_spec \<Rightarrow> char \<Rightarrow> NvU64 \<Rightarrow> NvU64 \<Rightarrow> char option \<Rightarrow> string \<Rightarrow> (piece list option) option" where
  "number_pieces sp conversion radix value sign prefix = do {
     let alphabet = (if conversion = CHR ''X'' then ''0123456789ABCDEF'' else ''0123456789abcdef'');
     digits \<leftarrow> (if value \<noteq> 0 \<or> \<not> f_precise sp \<or> f_precision sp \<noteq> 0
                then digit_loop 64 radix alphabet value else Some []);
     let zeroes = number_zeroes sp conversion digits;
     let total = length digits + zeroes + length prefix + (if sign = None then 0 else 1);
     if total > INT_MAX then Some None
     else Some (Some (number_layout sp sign prefix (if f_width sp > total then f_width sp - total else 0) zeroes digits))
   }"

text \<open>
  A conversion character with its specification: the pieces, none for a failure, with the remaining
  format and arguments and the bytes scanned. The format passed is what follows the character.
\<close>

type_synonym fmt_result = "piece list option \<times> string \<times> fmt_arg list \<times> nat"

definition fmt_text_conversion :: "fmt_spec \<Rightarrow> char \<Rightarrow> string \<Rightarrow> fmt_arg list \<Rightarrow> nat \<Rightarrow> fmt_result option" where
  "fmt_text_conversion sp conversion fs args scanned =
     (if f_length sp \<noteq> R4NV_INT then Some (None, fs, args, scanned)
      else if conversion = CHR ''c'' then do {
        (value, args) \<leftarrow> va_int args;
        Some (Some (text_pieces sp [char_of (nat (value mod 256))] 1), fs, args, scanned)
      }
      else do {
        (address, txt, args) \<leftarrow> va_ptr args;
        let txt = (if address = 0 then ''(null)'' else txt);
        (case text_scan txt sp 0 scanned of
           (None, scanned) \<Rightarrow> Some (None, fs, args, scanned)
         | (Some bytes, scanned) \<Rightarrow> Some (Some (text_pieces sp txt bytes), fs, args, scanned))
      })"

definition fmt_conversion :: "fmt_spec \<Rightarrow> char \<Rightarrow> string \<Rightarrow> fmt_arg list \<Rightarrow> nat \<Rightarrow> fmt_result option" where
  "fmt_conversion sp conversion fs args scanned =
     (if conversion = CHR ''s'' \<or> conversion = CHR ''c'' then fmt_text_conversion sp conversion fs args scanned
      else if conversion = CHR ''p'' then
        (if f_length sp \<noteq> R4NV_INT \<or> is_alnum (peek fs) then Some (None, fs, args, scanned)
         else do {
           (value, _, args) \<leftarrow> va_ptr args;
           let prefix = (if f_alternate sp then ''0x'' else []);
           let sp = (if f_precise sp then sp else sp\<lparr>f_precise := True, f_precision := 16\<rparr>);
           ps \<leftarrow> number_pieces sp conversion 16 value None prefix;
           Some (ps, fs, args, scanned)
         })
      else if conversion = CHR ''d'' \<or> conversion = CHR ''i'' then do {
        (signed_value, args) \<leftarrow> r4nv_fmt_signed args (f_length sp);
        let (sign, value) =
          (if sint signed_value < 0 then (Some (CHR ''-''), 0 - signed_value)
           else (if f_plus sp then Some (CHR ''+'') else if f_space sp then Some (CHR '' '') else None, signed_value));
        ps \<leftarrow> number_pieces sp conversion 10 value sign [];
        Some (ps, fs, args, scanned)
      }
      else if conversion = CHR ''u'' \<or> conversion = CHR ''o'' \<or> conversion = CHR ''x'' \<or> conversion = CHR ''X'' then do {
        (value, args) \<leftarrow> r4nv_fmt_unsigned args (f_length sp);
        let radix = (if conversion = CHR ''o'' then 8 else if conversion = CHR ''u'' then 10 else 16);
        let prefix = (if (conversion = CHR ''x'' \<or> conversion = CHR ''X'') \<and> f_alternate sp \<and> value \<noteq> 0
                      then [CHR ''0'', conversion] else []);
        ps \<leftarrow> number_pieces sp conversion radix value None prefix;
        Some (ps, fs, args, scanned)
      }
      else Some (None, fs, args, scanned))"

text \<open>A directive after its percent sign.\<close>

definition fmt_directive :: "string \<Rightarrow> fmt_arg list \<Rightarrow> nat \<Rightarrow> fmt_result option" where
  "fmt_directive fs args scanned = do {
     let (sp, fs) = fmt_flags fs no_spec;
     (sp, fs, args) \<leftarrow> fmt_width sp fs args;
     (case sp of
        None \<Rightarrow> Some (None, fs, args, scanned)
      | Some sp \<Rightarrow> do {
          (sp, fs, args) \<leftarrow> fmt_precision sp fs args;
          (case sp of
             None \<Rightarrow> Some (None, fs, args, scanned)
           | Some sp \<Rightarrow> do {
               let (sp, fs) = fmt_length sp fs;
               if peek fs = NUL then Some (None, fs, args, scanned)
               else fmt_conversion sp (peek fs) (tl fs) args scanned
             })
        })
   }"

subsection \<open>The loop over the format\<close>

text \<open>Parsing only ever moves forward.\<close>

lemma r4nv_fmt_decimal_rest: "length (snd (r4nv_fmt_decimal fs n)) \<le> length fs"
  by (induction fs n rule: r4nv_fmt_decimal.induct) (auto simp: Let_def)

lemma fmt_flags_rest: "length (snd (fmt_flags fs sp)) \<le> length fs"
  by (induction fs sp rule: fmt_flags.induct) auto

lemma fmt_width_rest: "fmt_width sp fs args = Some (sp', fs', args') \<Longrightarrow> length fs' \<le> length fs"
  using r4nv_fmt_decimal_rest [of fs 0]
  by (auto simp: fmt_width_def Let_def va_int_def split: if_split_asm prod.split_asm list.split_asm fmt_arg.split_asm)

lemma fmt_precision_rest: "fmt_precision sp fs args = Some (sp', fs', args') \<Longrightarrow> length fs' \<le> length fs"
  using r4nv_fmt_decimal_rest [of "tl fs" 0]
  by (auto simp: fmt_precision_def Let_def va_int_def split: if_split_asm prod.split_asm list.split_asm fmt_arg.split_asm)

lemma fmt_length_rest: "fmt_length sp fs = (sp', fs') \<Longrightarrow> length fs' \<le> length fs"
  by (auto simp: fmt_length_def split: if_split_asm)

lemma fmt_conversion_rest: "fmt_conversion sp c fs args n = Some (ps, fs', args', n') \<Longrightarrow> fs' = fs"
  by (auto simp: fmt_conversion_def fmt_text_conversion_def Let_def
      split: if_split_asm option.split_asm prod.split_asm bind_split_asm)

lemma fmt_directive_rest:
  assumes "fmt_directive fs args n = Some (ps, fs', args', n')"
  shows "length fs' \<le> length fs"
proof -
  obtain sp1 fs1 where fl: "fmt_flags fs no_spec = (sp1, fs1)" by fastforce
  obtain sp2 fs2 args2 where w: "fmt_width sp1 fs1 args = Some (sp2, fs2, args2)"
    using assms by (auto simp: fmt_directive_def fl split: bind_split_asm)
  have l2: "length fs2 \<le> length fs" using fmt_width_rest [OF w] fmt_flags_rest [of fs no_spec] fl by simp
  show ?thesis
  proof (cases sp2)
    case None then show ?thesis using assms l2 by (simp add: fmt_directive_def fl w)
  next
    case (Some sp2')
    obtain sp3 fs3 args3 where p: "fmt_precision sp2' fs2 args2 = Some (sp3, fs3, args3)"
      using assms Some by (auto simp: fmt_directive_def fl w split: bind_split_asm)
    have l3: "length fs3 \<le> length fs" using fmt_precision_rest [OF p] l2 by simp
    show ?thesis
    proof (cases sp3)
      case None then show ?thesis using assms l3 Some by (simp add: fmt_directive_def fl w p)
    next
      case (Some sp3')
      obtain sp4 fs4 where l: "fmt_length sp3' fs3 = (sp4, fs4)" by fastforce
      have "length fs' \<le> length fs4"
        using assms Some \<open>sp2 = Some sp2'\<close> fmt_conversion_rest
        by (auto simp: fmt_directive_def fl w p l split: if_split_asm dest!: fmt_conversion_rest)
      then show ?thesis using fmt_length_rest [OF l] l3 by simp
    qed
  qed
qed

lemma peek_nonempty: "peek fs \<noteq> NUL \<Longrightarrow> 0 < length fs" "peek fs = CHR ''%'' \<Longrightarrow> 0 < length fs"
  by (cases fs; simp add: peek_def)+

lemma fmt_directive_less:
  "fmt_directive (tl fs) args n = Some (ps, fs', args', n') \<Longrightarrow> peek fs = CHR ''%'' \<Longrightarrow> length fs' < length fs"
  using fmt_directive_rest [of "tl fs" args n ps fs' args' n'] by (cases fs) (auto simp: peek_def)

function fmt_loop :: "r4nv_fmt_output \<Rightarrow> string \<Rightarrow> fmt_arg list \<Rightarrow> nat \<Rightarrow> r4nv_fmt_output option" where
  "fmt_loop out fs args scanned =
     (if peek fs = NUL \<or> o_failed out then Some out
      else if peek fs \<noteq> CHR ''%'' then do {
        out \<leftarrow> r4nv_fmt_repeat out (peek fs) 1;
        fmt_loop out (tl fs) args scanned
      }
      else if peek (tl fs) = CHR ''%'' then do {
        out \<leftarrow> r4nv_fmt_repeat out (CHR ''%'') 1;
        fmt_loop out (tl (tl fs)) args scanned
      }
      else
        (case fmt_directive (tl fs) args scanned of
           None \<Rightarrow> None
         | Some (None, fs, args, scanned) \<Rightarrow> Some (out\<lparr>o_failed := True\<rparr>)
         | Some (Some ps, fs, args, scanned) \<Rightarrow> do {
             out \<leftarrow> emit_pieces out ps;
             fmt_loop out fs args scanned
           }))"
  by pat_completeness auto

termination
  by (relation "measure (\<lambda>(out, fs, args, scanned). length fs)")
    (auto dest: fmt_directive_less peek_nonempty)

declare fmt_loop.simps [simp del]

definition r4nv_vformat :: "string option \<Rightarrow> NvU64 \<Rightarrow> string option \<Rightarrow> fmt_arg list \<Rightarrow> (int \<times> string option) option" where
  "r4nv_vformat buffer capacity format args =
     (if capacity \<noteq> 0 \<and> buffer = None then Some (- 1, buffer)
      else do {
        let data = (case buffer of None \<Rightarrow> [] | Some d \<Rightarrow> d);
        data \<leftarrow> (if capacity \<noteq> 0 then (if data = [] then None else Some (data[0 := NUL])) else Some data);
        let buffer = map_option (\<lambda>_. data) buffer;
        (case format of
           None \<Rightarrow> Some (- 1, buffer)
         | Some fs \<Rightarrow>
             if unat capacity > R4NV_FORMAT_LIMIT then Some (- 1, buffer)
             else let format_bytes = length (takeWhile (\<lambda>c. c \<noteq> NUL) fs) in
             if format_bytes \<ge> R4NV_FORMAT_LIMIT then Some (- 1, buffer)
             else do {
               out \<leftarrow> fmt_loop \<lparr>o_data = data, o_capacity = unat capacity, o_used = 0, o_count = 0, o_failed = False\<rparr>
                       fs args (format_bytes + 1);
               data \<leftarrow> (if capacity \<noteq> 0 then
                          (let i = (if o_failed out then 0 else o_used out) in
                           if i < length (o_data out) then Some ((o_data out)[i := NUL]) else None)
                        else Some (o_data out));
               Some (if o_failed out then - 1 else int (o_count out), map_option (\<lambda>_. data) buffer)
             })
      })"

text \<open>The adapters pass their arguments on; RM's sizes are 32 bits.\<close>

definition os_vsnprintf :: "string option \<Rightarrow> NvU32 \<Rightarrow> string option \<Rightarrow> fmt_arg list \<Rightarrow> (int \<times> string option) option" where
  "os_vsnprintf buffer bytes format args = r4nv_vformat buffer (ucast bytes) format args"

definition os_snprintf :: "string option \<Rightarrow> NvU32 \<Rightarrow> string option \<Rightarrow> fmt_arg list \<Rightarrow> (int \<times> string option) option" where
  "os_snprintf buffer bytes format args = os_vsnprintf buffer bytes format args"

definition nvkms_vsnprintf :: "string option \<Rightarrow> NvU64 \<Rightarrow> string option \<Rightarrow> fmt_arg list \<Rightarrow> (int \<times> string option) option" where
  "nvkms_vsnprintf buffer bytes format args = r4nv_vformat buffer bytes format args"

definition nvkms_snprintf :: "string option \<Rightarrow> NvU64 \<Rightarrow> string option \<Rightarrow> fmt_arg list \<Rightarrow> (int \<times> string option) option" where
  "nvkms_snprintf buffer bytes format args = nvkms_vsnprintf buffer bytes format args"

section \<open>The text a call stands for\<close>

text \<open>
  The specification: the whole text of a format and its arguments, without a buffer. The inner
  \<^const>\<open>None\<close> is a refused format or a text longer than \<^verbatim>\<open>INT_MAX\<close>.
\<close>

definition piece_text :: "piece \<Rightarrow> string" where
  "piece_text p = (case p of Repeat c n \<Rightarrow> replicate n c | Bytes txt n \<Rightarrow> take n txt)"

definition add_text :: "string option \<Rightarrow> string \<Rightarrow> string option" where
  "add_text L t = (case L of None \<Rightarrow> None | Some s \<Rightarrow> if length t > INT_MAX - length s then None else Some (s @ t))"

function fmt_text :: "string option \<Rightarrow> string \<Rightarrow> fmt_arg list \<Rightarrow> nat \<Rightarrow> string option option" where
  "fmt_text L fs args scanned =
     (if peek fs = NUL \<or> L = None then Some L
      else if peek fs \<noteq> CHR ''%'' then fmt_text (add_text L [peek fs]) (tl fs) args scanned
      else if peek (tl fs) = CHR ''%'' then fmt_text (add_text L ''%'') (tl (tl fs)) args scanned
      else
        (case fmt_directive (tl fs) args scanned of
           None \<Rightarrow> None
         | Some (None, fs, args, scanned) \<Rightarrow> Some None
         | Some (Some ps, fs, args, scanned) \<Rightarrow> fmt_text (foldl add_text L (map piece_text ps)) fs args scanned))"
  by pat_completeness auto

termination
  by (relation "measure (\<lambda>(out, fs, args, scanned). length fs)")
    (auto dest: fmt_directive_less peek_nonempty)

declare fmt_text.simps [simp del]

section \<open>The buffer holds a prefix of the text\<close>

text \<open>
  The state of the output after the text \<open>L\<close>, for a buffer \<open>data\<close> with room for \<open>cap\<close> bytes: everything is
  counted, the first \<open>cap - 1\<close> bytes are stored, the bytes behind them are untouched.
\<close>

definition holds :: "nat \<Rightarrow> string \<Rightarrow> r4nv_fmt_output \<Rightarrow> string option \<Rightarrow> bool" where
  "holds cap data out L \<longleftrightarrow>
     o_capacity out = cap \<and> length (o_data out) = length data \<and> drop cap (o_data out) = drop cap data \<and>
     (case L of
        None \<Rightarrow> o_failed out
      | Some s \<Rightarrow> \<not> o_failed out \<and> o_count out = length s \<and> length s \<le> INT_MAX \<and>
          o_used out = min (length s) (cap - 1) \<and>
          o_data out = take (cap - 1) s @ drop (o_used out) data)"

lemma take_min_length: "take (min (length s) k) s = take k s"
  by (simp add: min_def)

lemma holds_update:
  assumes "\<not> o_failed out" "o_capacity out = cap" "n = length s" "n \<le> INT_MAX" "u = min (length s) (cap - 1)"
    "d = take (cap - 1) s @ drop u data" "length d = length data" "drop cap d = drop cap data"
  shows "holds cap data (out\<lparr>o_count := n, o_data := d, o_used := u\<rparr>) (Some s)"
  using assms by (simp add: holds_def)

lemma fmt_emit_holds:
  assumes "holds cap data out L" "cap \<le> length data" "length t = n" "\<And>k. k \<le> n \<Longrightarrow> chars k = take k t"
  shows "\<exists>out'. fmt_emit out n chars = Some out' \<and> holds cap data out' (add_text L t)"
proof (cases L)
  case None
  then show ?thesis using assms(1) by (simp add: fmt_emit_def holds_def add_text_def)
next
  case (Some s)
  then have h: "\<not> o_failed out" "o_count out = length s" "length s \<le> INT_MAX" "o_capacity out = cap"
    "o_used out = min (length s) (cap - 1)" "o_data out = take (cap - 1) s @ drop (o_used out) data"
    "length (o_data out) = length data" "drop cap (o_data out) = drop cap data"
    using assms(1) unfolding holds_def Some option.case by blast+
  show ?thesis
  proof (cases "n > INT_MAX - length s")
    case True
    then show ?thesis using h Some assms(3) by (simp add: fmt_emit_def holds_def add_text_def)
  next
    case False
    define c where "c = (if n < room out then n else room out)"
    have used: "o_used out \<le> cap - 1" "o_used out + c = min (length (s @ t)) (cap - 1)"
      using h(4,5) assms(3) by (auto simp: c_def room_def)
    have ch: "chars c = take c t" using assms(4) [of c] by (simp add: c_def)
    have pre: "take (o_used out) (o_data out) = take (cap - 1) s"
      using h(5,6) take_min_length [of s "cap - 1"] by simp
    have new: "take (cap - 1) s @ take c t = take (cap - 1) (s @ t)"
    proof (cases "length s \<le> cap - 1")
      case True
      then have "c = min n (cap - 1 - length s)" using h(4,5) by (auto simp: c_def room_def)
      then show ?thesis using True assms(3) by (simp add: min_def)
    next
      case False
      then have "c = 0" using h(4,5) by (auto simp: c_def room_def)
      then show ?thesis using False by simp
    qed
    have fit: "o_used out + c \<le> length (o_data out)" using used h(7) assms(2) by simp
    have rest: "drop (o_used out + c) (o_data out) = drop (o_used out + c) data"
    proof -
      have "drop (o_used out) (o_data out) = drop (o_used out) data" using h(5,6) by simp
      then have "drop c (drop (o_used out) (o_data out)) = drop c (drop (o_used out) data)" by simp
      then show ?thesis by (simp add: add.commute)
    qed
    let ?d = "take (o_used out) (o_data out) @ chars c @ drop (o_used out + c) (o_data out)"
    have d: "?d = take (cap - 1) (s @ t) @ drop (o_used out + c) data"
      unfolding pre ch rest new [symmetric] by simp
    have tk: "length (take (cap - 1) (s @ t)) = o_used out + c" using used(2) by (simp only: length_take)
    then have len: "length ?d = length data"
      using fit h(7) unfolding d by (simp only: length_append length_drop le_add_diff_inverse)
    have tail: "drop cap ?d = drop cap data"
    proof -
      have "drop cap (u @ drop k data) = drop cap data" if "length u = k" "k \<le> cap" for u k
        using that by simp
      then show ?thesis using used tk unfolding d by (metis diff_le_self le_trans min.cobounded2)
    qed
    have "fmt_emit out n chars = Some (out\<lparr>o_count := length s + n, o_data := ?d, o_used := o_used out + c\<rparr>)"
      using False h(1,2) fit by (simp only: fmt_emit_def c_def [symmetric] Let_def if_False if_True)
    moreover have "holds cap data (out\<lparr>o_count := length s + n, o_data := ?d, o_used := o_used out + c\<rparr>) (add_text L t)"
    proof -
      have a: "add_text L t = Some (s @ t)" using False assms(3) by (simp add: add_text_def Some)
      have le: "length s + n \<le> INT_MAX" using False h(3) by simp
      show ?thesis
        unfolding a by (rule holds_update [OF h(1,4) _ _ used(2) d len tail]) (use le assms(3) in simp_all)
    qed
    ultimately show ?thesis by blast
  qed
qed


definition piece_ok :: "piece \<Rightarrow> bool" where
  "piece_ok p \<longleftrightarrow> (case p of Repeat c n \<Rightarrow> True | Bytes u n \<Rightarrow> n \<le> length u)"

lemma emit_piece_holds:
  assumes "holds cap data out L" "cap \<le> length data" "piece_ok p"
  shows "\<exists>out'. emit_piece out p = Some out' \<and> holds cap data out' (add_text L (piece_text p))"
proof (cases p)
  case (Repeat c n)
  have "\<exists>out'. fmt_emit out n (\<lambda>k. replicate k c) = Some out' \<and> holds cap data out' (add_text L (replicate n c))"
    by (rule fmt_emit_holds [OF assms(1,2)]) (simp_all add: min_absorb1)
  then show ?thesis by (simp only: Repeat emit_piece_def r4nv_fmt_repeat_def piece_text_def piece.case)
next
  case (Bytes u n)
  then have n: "n \<le> length u" using assms(3) by (simp add: piece_ok_def)
  have "\<exists>out'. fmt_emit out n (\<lambda>k. take k u) = Some out' \<and> holds cap data out' (add_text L (take n u))"
    by (rule fmt_emit_holds [OF assms(1,2)]) (use n in \<open>simp_all add: min_absorb1\<close>)
  then show ?thesis using n by (simp only: Bytes emit_piece_def r4nv_fmt_bytes_def piece_text_def piece.case if_True)
qed

lemma emit_pieces_holds:
  assumes "holds cap data out L" "cap \<le> length data" "list_all piece_ok ps"
  shows "\<exists>out'. emit_pieces out ps = Some out' \<and> holds cap data out' (foldl add_text L (map piece_text ps))"
  using assms
proof (induction ps arbitrary: out L)
  case (Cons p ps)
  obtain out' where "emit_piece out p = Some out'" "holds cap data out' (add_text L (piece_text p))"
    using emit_piece_holds [OF Cons.prems(1,2)] Cons.prems(3) by auto
  then show ?case using Cons.IH [of out'] Cons.prems by simp
qed simp

lemma text_scan_bound: "text_scan u sp b n = (Some r, n') \<Longrightarrow> r \<le> b + length u"
  by (induction u sp b n arbitrary: r n' rule: text_scan.induct) (fastforce split: if_split_asm)+

lemma text_pieces_ok: "n \<le> length u \<Longrightarrow> list_all piece_ok (text_pieces sp u n)"
  by (simp add: text_pieces_def Let_def piece_ok_def)

lemma number_layout_ok: "list_all piece_ok (number_layout sp sign prefix padding zeroes digits)"
  by (auto simp: number_layout_def Let_def piece_ok_def list_all_iff split: option.split)

text \<open>No result of parsing a directive asks for bytes behind a text.\<close>

definition result_ok :: "fmt_result option \<Rightarrow> bool" where
  "result_ok r \<longleftrightarrow> (\<forall>ps rest. r = Some (Some ps, rest) \<longrightarrow> list_all piece_ok ps)"

lemma result_ok_simps [simp]:
  "result_ok None" "result_ok (Some (None, rest))" "result_ok (Some (Some ps, rest)) \<longleftrightarrow> list_all piece_ok ps"
  by (cases rest, simp add: result_ok_def)+

lemma result_ok_bind: "(\<And>y. x = Some y \<Longrightarrow> result_ok (f y)) \<Longrightarrow> result_ok (x \<bind> f)"
  by (cases x) simp_all

lemma number_pieces_ok: "result_ok (number_pieces sp c radix v sign prefix \<bind> (\<lambda>ps. Some (ps, rest)))"
proof (rule result_ok_bind)
  fix ps assume "number_pieces sp c radix v sign prefix = Some ps"
  then show "result_ok (Some (ps, rest))"
    by (cases ps) (auto simp: number_pieces_def Let_def bind_eq_Some_conv number_layout_ok simp del: digit_loop.simps
        split: if_split_asm)
qed

lemma fmt_text_conversion_ok: "result_ok (fmt_text_conversion sp c fs args n)"
proof -
  have "result_ok (case text_scan u sp 0 n of (None, n) \<Rightarrow> Some (None, fs, args, n)
      | (Some bytes, n) \<Rightarrow> Some (Some (text_pieces sp u bytes), fs, args, n))" for u and args :: "fmt_arg list"
    using text_scan_bound [of u sp 0 n] by (simp add: text_pieces_ok split: prod.split option.split)
  then show ?thesis
    by (auto simp: fmt_text_conversion_def Let_def text_pieces_ok split: prod.split intro!: result_ok_bind)
qed

lemma fmt_conversion_ok: "result_ok (fmt_conversion sp c fs args n)"
proof -
  have p: "result_ok (va_ptr args \<bind> (\<lambda>(value, _, args). number_pieces sp' c 16 value None prefix \<bind>
      (\<lambda>ps. Some (ps, fs, args, n))))" for sp' prefix
    by (rule result_ok_bind) (simp add: number_pieces_ok split: prod.split)
  have d: "result_ok (r4nv_fmt_signed args (f_length sp) \<bind> (\<lambda>(v, args). case g v of (sign, value) \<Rightarrow>
      number_pieces sp c 10 value sign [] \<bind> (\<lambda>ps. Some (ps, fs, args, n))))" for g
    by (rule result_ok_bind) (simp add: number_pieces_ok split: prod.split)
  have u: "result_ok (r4nv_fmt_unsigned args (f_length sp) \<bind> (\<lambda>(value, args).
      number_pieces sp c radix value None (g value) \<bind> (\<lambda>ps. Some (ps, fs, args, n))))" for radix g
    by (rule result_ok_bind) (simp add: number_pieces_ok split: prod.split)
  show ?thesis
    unfolding fmt_conversion_def Let_def using p d u fmt_text_conversion_ok
    by (simp only: result_ok_simps if_split) blast
qed

lemma fmt_directive_ok: "result_ok (fmt_directive fs args n)"
  by (simp add: fmt_directive_def Let_def fmt_conversion_ok split: prod.split option.split bind_split)

lemma fmt_loop_holds:
  assumes "holds cap data out L" "cap \<le> length data"
  shows "case fmt_text L fs args n of
      None \<Rightarrow> fmt_loop out fs args n = None
    | Some L' \<Rightarrow> (\<exists>out'. fmt_loop out fs args n = Some out' \<and> holds cap data out' L')"
  using assms
proof (induction L fs args n arbitrary: out rule: fmt_text.induct)
  case (1 L fs args n)
  from "1.prems" have failed: "o_failed out \<longleftrightarrow> L = None"
    by (auto simp: holds_def split: option.split_asm)
  consider "peek fs = NUL \<or> L = None"
    | "\<not> (peek fs = NUL \<or> L = None)" "peek fs \<noteq> CHR ''%''"
    | "\<not> (peek fs = NUL \<or> L = None)" "\<not> peek fs \<noteq> CHR ''%''" "peek (tl fs) = CHR ''%''"
    | "\<not> (peek fs = NUL \<or> L = None)" "\<not> peek fs \<noteq> CHR ''%''" "peek (tl fs) \<noteq> CHR ''%''" by blast
  then show ?case
  proof cases
    case 1
    then show ?thesis using "1.prems" failed by (simp add: fmt_text.simps [of L] fmt_loop.simps [of out])
  next
    case 2
    obtain out' where e: "r4nv_fmt_repeat out (peek fs) 1 = Some out'" "holds cap data out' (add_text L [peek fs])"
      using emit_piece_holds [OF "1.prems", of "Repeat (peek fs) 1"] by (auto simp: emit_piece_def piece_text_def piece_ok_def)
    have "fmt_text L fs args n = fmt_text (add_text L [peek fs]) (tl fs) args n"
      "fmt_loop out fs args n = fmt_loop out' (tl fs) args n"
      using 2 failed e(1) by (auto simp: fmt_text.simps [of L fs] fmt_loop.simps [of out fs])
    then show ?thesis using "1.IH"(1) [OF 2 e(2) "1.prems"(2)] by (simp only:)
  next
    case 3
    obtain out' where e: "r4nv_fmt_repeat out (CHR ''%'') 1 = Some out'" "holds cap data out' (add_text L ''%'')"
      using emit_piece_holds [OF "1.prems", of "Repeat (CHR ''%'') 1"] by (auto simp: emit_piece_def piece_text_def piece_ok_def)
    have "fmt_text L fs args n = fmt_text (add_text L ''%'') (tl (tl fs)) args n"
      "fmt_loop out fs args n = fmt_loop out' (tl (tl fs)) args n"
      using 3 failed e(1) by (auto simp: fmt_text.simps [of L fs] fmt_loop.simps [of out fs])
    then show ?thesis using "1.IH"(2) [OF 3 e(2) "1.prems"(2)] by (simp only:)
  next
    case 4
    show ?thesis
    proof (cases "fmt_directive (tl fs) args n")
      case None
      then show ?thesis using 4 failed by (auto simp: fmt_text.simps [of L] fmt_loop.simps [of out])
    next
      case (Some r)
      obtain ps fs' args' n' where r: "r = (ps, fs', args', n')" by (cases r)
      show ?thesis
      proof (cases ps)
        case None
        then show ?thesis
          using "1.prems" Some r 4 failed
          by (auto simp: fmt_text.simps [of L] fmt_loop.simps [of out] holds_def)
      next
        case ps: (Some qs)
        obtain out' where e: "emit_pieces out qs = Some out'" "holds cap data out' (foldl add_text L (map piece_text qs))"
          using emit_pieces_holds [OF "1.prems", of qs] fmt_directive_ok [of "tl fs" args n] Some r ps by auto
        have "fmt_text L fs args n = fmt_text (foldl add_text L (map piece_text qs)) fs' args' n'"
          "fmt_loop out fs args n = fmt_loop out' fs' args' n'"
          using 4 failed e(1) Some r ps by (auto simp: fmt_text.simps [of L fs] fmt_loop.simps [of out fs])
        then show ?thesis using "1.IH"(3) [OF 4 Some r [symmetric] ps refl refl e(2) "1.prems"(2)] by (simp only:)
      qed
    qed
  qed
qed

section \<open>What a call returns\<close>

lemma fmt_text_run:
  assumes "cap \<le> length data"
  shows "case fmt_text (Some []) fs args n of
      None \<Rightarrow> fmt_loop \<lparr>o_data = data, o_capacity = cap, o_used = 0, o_count = 0, o_failed = False\<rparr> fs args n = None
    | Some L \<Rightarrow> (\<exists>out. fmt_loop \<lparr>o_data = data, o_capacity = cap, o_used = 0, o_count = 0, o_failed = False\<rparr> fs args n =
          Some out \<and> holds cap data out L)"
  by (rule fmt_loop_holds) (use assms in \<open>simp_all add: holds_def\<close>)

text \<open>The state of the buffer at the end of a call: a terminated prefix of the text.\<close>

definition buffer_after :: "nat \<Rightarrow> string \<Rightarrow> string \<Rightarrow> string" where
  "buffer_after cap data s =
     (if cap = 0 then data else take (cap - 1) s @ [NUL] @ drop (min (length s) (cap - 1) + 1) data)"

lemma holds_terminate:
  assumes h: "holds cap (data[0 := NUL]) out (Some s)" and cap: "0 < cap" "cap \<le> length data"
  shows "o_used out < length (o_data out)" "(o_data out)[o_used out := NUL] = buffer_after cap data s"
proof -
  have u: "o_used out = min (length s) (cap - 1)" "o_data out = take (cap - 1) s @ drop (o_used out) (data[0 := NUL])"
    using h unfolding holds_def option.case by blast+
  have len: "length (take (cap - 1) s) = o_used out" using u(1) by (simp only: length_take)
  have lt: "o_used out < length data" using cap u(1) by simp
  show "o_used out < length (o_data out)" using lt len unfolding u(2) by simp
  have "drop (o_used out) (data[0 := NUL]) = (data[0 := NUL]) ! o_used out # drop (o_used out + 1) (data[0 := NUL])"
    by (rule Cons_nth_drop_Suc [symmetric, unfolded Suc_eq_plus1]) (use lt in simp)
  moreover have "drop (o_used out + 1) (data[0 := NUL]) = drop (o_used out + 1) data" by simp
  ultimately have "o_data out = take (cap - 1) s @ (data[0 := NUL]) ! o_used out # drop (o_used out + 1) data"
    using u(2) by simp
  then show "(o_data out)[o_used out := NUL] = buffer_after cap data s"
    using len cap(1) u(1) by (simp add: buffer_after_def list_update_append)
qed

lemma vformat_text:
  assumes "unat capacity \<le> R4NV_FORMAT_LIMIT" "unat capacity \<le> length data"
    "length (takeWhile (\<lambda>c. c \<noteq> NUL) fs) < R4NV_FORMAT_LIMIT"
  shows "case fmt_text (Some []) fs args (length (takeWhile (\<lambda>c. c \<noteq> NUL) fs) + 1) of
      None \<Rightarrow> r4nv_vformat (Some data) capacity (Some fs) args = None
    | Some None \<Rightarrow> \<exists>data'. r4nv_vformat (Some data) capacity (Some fs) args = Some (- 1, Some data') \<and>
        length data' = length data \<and> drop (unat capacity) data' = drop (unat capacity) data \<and>
        (capacity = 0 \<or> data' ! 0 = NUL)
    | Some (Some s) \<Rightarrow> r4nv_vformat (Some data) capacity (Some fs) args =
        Some (int (length s), Some (buffer_after (unat capacity) data s))"
proof -
  define cap n where "cap = unat capacity" and "n = length (takeWhile (\<lambda>c. c \<noteq> NUL) fs)"
  define data' where "data' = (if capacity \<noteq> 0 then data[0 := NUL] else data)"
  define out0 where "out0 = \<lparr>o_data = data', o_capacity = cap, o_used = 0, o_count = 0, o_failed = False\<rparr>"
  have zero: "capacity = 0 \<longleftrightarrow> cap = 0" by (simp add: cap_def unat_eq_zero)
  have lens: "length data' = length data" "drop cap data' = drop cap data" "cap \<le> length data'"
    using assms(2) by (simp_all add: data'_def cap_def unat_gt_0)
  have ne: "data \<noteq> []" if "capacity \<noteq> 0"
  proof
    assume "data = []"
    then have "unat capacity = 0" using assms(2) by simp
    then show False using that by (simp add: unat_eq_zero)
  qed
  have start: "(if capacity \<noteq> 0 then (if data = [] then None else Some (data[0 := NUL])) else Some data) = Some data'"
    using ne by (simp add: data'_def)
  have v: "r4nv_vformat (Some data) capacity (Some fs) args =
      (case fmt_loop out0 fs args (n + 1) of None \<Rightarrow> None
       | Some out \<Rightarrow> (case (if capacity \<noteq> 0 then
                          (let i = (if o_failed out then 0 else o_used out) in
                           if i < length (o_data out) then Some ((o_data out)[i := NUL]) else None)
                        else Some (o_data out)) of None \<Rightarrow> None
          | Some d \<Rightarrow> Some (if o_failed out then - 1 else int (o_count out), Some d)))"
    using assms(1,3) start
    by (simp add: r4nv_vformat_def out0_def n_def cap_def Let_def split: option.split bind_split)
  note run = fmt_text_run [OF lens(3), of fs args "n + 1", folded out0_def]
  have "case fmt_text (Some []) fs args (n + 1) of
      None \<Rightarrow> r4nv_vformat (Some data) capacity (Some fs) args = None
    | Some None \<Rightarrow> \<exists>data'. r4nv_vformat (Some data) capacity (Some fs) args = Some (- 1, Some data') \<and>
        length data' = length data \<and> drop cap data' = drop cap data \<and> (capacity = 0 \<or> data' ! 0 = NUL)
    | Some (Some s) \<Rightarrow> r4nv_vformat (Some data) capacity (Some fs) args =
        Some (int (length s), Some (buffer_after cap data s))"
  proof (cases "fmt_text (Some []) fs args (n + 1)")
    case None
    then show ?thesis using run v by simp
  next
    case (Some L)
    then obtain out where out: "fmt_loop out0 fs args (n + 1) = Some out" "holds cap data' out L"
      using run by auto
    note out_v = v [unfolded out(1) option.case]
    show ?thesis
    proof (cases L)
      case None
      then have f: "o_failed out" "length (o_data out) = length data" "drop cap (o_data out) = drop cap data"
        using out(2) lens by (simp_all add: holds_def)
      show ?thesis
      proof (cases "capacity = 0")
        case True
        then show ?thesis using out_v f Some None by simp
      next
        case False
        then have "0 < cap" "0 < length (o_data out)" using zero ne f by auto
        then show ?thesis using out_v f Some None False by (simp add: Let_def)
      qed
    next
      case s: (Some s)
      then have f: "\<not> o_failed out" "o_count out = length s" "o_used out = min (length s) (cap - 1)"
        "o_data out = take (cap - 1) s @ drop (o_used out) data'"
        using out(2) unfolding holds_def s option.case by blast+
      show ?thesis
      proof (cases "capacity = 0")
        case True
        then show ?thesis using out_v f Some s zero by (simp add: buffer_after_def data'_def)
      next
        case False
        then have "0 < cap" "cap \<le> length data" "holds cap (data[0 := NUL]) out (Some s)"
          using zero assms(2) out(2) s by (simp_all add: cap_def data'_def)
        note e = holds_terminate [OF this(3,1,2)]
        show ?thesis using out_v f(1,2) Some s False e by (simp only: option.case Let_def if_True if_False simp_thms not_False_eq_True)
      qed
    qed
  qed
  then show ?thesis unfolding n_def cap_def .
qed

text \<open>
  C2: For a buffer of at least \<^verbatim>\<open>capacity\<close> bytes and a format within the limits, a call of
  \<^verbatim>\<open>r4nv_vformat\<close> refines the text of the format: it has undefined behaviour only when the arguments do
  not match the conversions; a refused format returns -1 with an empty string in the buffer; every other
  call returns the length of the whole text and leaves its first \<^verbatim>\<open>capacity - 1\<close> bytes, terminated.
  Bytes at and behind the capacity are not written, whatever the format says.
\<close>

theorem vformat_refines_text:
  assumes "unat capacity \<le> R4NV_FORMAT_LIMIT" "unat capacity \<le> length data"
    "length (takeWhile (\<lambda>c. c \<noteq> NUL) fs) < R4NV_FORMAT_LIMIT"
  shows "case fmt_text (Some []) fs args (length (takeWhile (\<lambda>c. c \<noteq> NUL) fs) + 1) of
      None \<Rightarrow> r4nv_vformat (Some data) capacity (Some fs) args = None
    | Some None \<Rightarrow> \<exists>data'. r4nv_vformat (Some data) capacity (Some fs) args = Some (- 1, Some data') \<and>
        length data' = length data \<and> drop (unat capacity) data' = drop (unat capacity) data \<and>
        (capacity = 0 \<or> data' ! 0 = NUL)
    | Some (Some s) \<Rightarrow> r4nv_vformat (Some data) capacity (Some fs) args =
        Some (int (length s), Some (buffer_after (unat capacity) data s))"
  by (rule vformat_text [OF assms])

theorem vformat_refines_text_witness:
  "fmt_text (Some []) ''%08x'' [ArgInt 5] 5 = Some (Some ''00000005'') \<and>
   r4nv_vformat (Some (replicate 7 (CHR ''z''))) 5 (Some ''%08x'') [ArgInt 5] = Some (8, Some (''0000'' @ [NUL] @ ''zz''))"
proof -
  have "fmt_text (Some []) ''%08x'' [ArgInt 5] 5 = Some (Some ''00000005'')" by code_simp
  moreover have "buffer_after 5 (replicate 7 (CHR ''z'')) ''00000005'' = ''0000'' @ [NUL] @ ''zz''" by code_simp
  moreover have "length (takeWhile (\<lambda>c. c \<noteq> NUL) ''%08x'') + 1 = 5" by code_simp
  moreover have "length (replicate 7 (CHR ''z'')) = 7" "unat (5 :: NvU64) = 5" by simp_all
  ultimately show ?thesis
    using vformat_refines_text [of 5 "replicate 7 (CHR ''z'')" "''%08x''" "[ArgInt 5]"] by (simp only: option.case) simp
qed

section \<open>Numbers\<close>

text \<open>The value of digits from the lowest, as the array of the formatter holds them.\<close>

definition digit_value :: "char \<Rightarrow> nat" where
  "digit_value c = (if is_digit c then of_char c - 48 else if of_char c < (97 :: nat) then of_char c - 55 else of_char c - 87)"

fun digits_value :: "nat \<Rightarrow> string \<Rightarrow> nat" where
  "digits_value radix [] = 0"
| "digits_value radix (d # ds) = digit_value d + radix * digits_value radix ds"

lemma digit_value_alphabet:
  assumes "d < 16" "alphabet = ''0123456789abcdef'' \<or> alphabet = ''0123456789ABCDEF''"
  shows "digit_value (alphabet ! d) = d" "alphabet ! d = CHR ''0'' \<longleftrightarrow> d = 0"
    "is_digit (alphabet ! d) \<longleftrightarrow> d < 10"
proof -
  have "d \<in> set [0..<16]" using assms(1) by simp
  then show "digit_value (alphabet ! d) = d" "alphabet ! d = CHR ''0'' \<longleftrightarrow> d = 0"
    "is_digit (alphabet ! d) \<longleftrightarrow> d < 10"
    using assms(2) by (auto simp: upt_rec digit_value_def is_digit_def)
qed

lemma digit_loop_correct:
  assumes "2 \<le> unat radix" "unat radix \<le> 16"
    "alphabet = ''0123456789abcdef'' \<or> alphabet = ''0123456789ABCDEF''"
    "unat v < 2 ^ space" "0 < space"
  shows "\<exists>ds. digit_loop space radix alphabet v = Some ds \<and> digits_value (unat radix) ds = unat v \<and>
      ds \<noteq> [] \<and> length ds \<le> space \<and> (last ds = CHR ''0'' \<longleftrightarrow> v = 0) \<and>
      (unat radix \<le> 10 \<longrightarrow> list_all is_digit ds)"
  using assms(4,5)
proof (induction space arbitrary: v)
  case (Suc space)
  define q where "q = v div radix"
  define d where "d = unat (v mod radix)"
  have d: "d = unat v mod unat radix" and q: "unat q = unat v div unat radix"
    by (simp_all add: d_def q_def unat_mod_distrib unat_div_distrib)
  have lt: "d < unat radix" "d < 16" using assms(1,2) by (simp_all add: d less_le_trans [OF mod_less_divisor])
  note a = digit_value_alphabet [OF lt(2) assms(3)]
  have sum: "d + unat radix * unat q = unat v" by (simp add: d q)
  have loop: "digit_loop (Suc space) radix alphabet v =
      (if q = 0 then Some [alphabet ! d] else map_option (Cons (alphabet ! d)) (digit_loop space radix alphabet q))"
    by (simp add: d_def q_def Let_def map_conv_bind_option comp_def)
  show ?case
  proof (cases "q = 0")
    case True
    then have "unat v = d" using sum by simp
    then have "v = 0 \<longleftrightarrow> d = 0" using unat_eq_zero [of v] by simp
    with True a lt(1) \<open>unat v = d\<close> show ?thesis
      by (simp add: loop del: digit_loop.simps)
  next
    case False
    have "unat q \<le> unat v div 2" unfolding q by (rule div_le_mono2) (use assms(1) in simp_all)
    then have "unat q < 2 ^ space" using Suc.prems(1) by simp
    moreover have "0 < space"
    proof (rule ccontr)
      assume "\<not> 0 < space"
      then have "unat q < 1" using calculation by simp
      then show False using False by (simp add: unat_eq_zero)
    qed
    ultimately obtain ds where ds: "digit_loop space radix alphabet q = Some ds"
      "digits_value (unat radix) ds = unat q" "ds \<noteq> []" "length ds \<le> space" "last ds \<noteq> CHR ''0''"
      "unat radix \<le> 10 \<longrightarrow> list_all is_digit ds"
      using Suc.IH [of q] False by blast
    have "v \<noteq> 0" using False by (auto simp: q_def)
    then show ?thesis
      using False ds a lt(1) sum by (simp add: loop del: digit_loop.simps)
  qed
qed simp

text \<open>The formatter's own decimal parser reads such digits back.\<close>

lemma r4nv_fmt_decimal_fold:
  assumes "list_all is_digit cs" "n \<le> INT_MAX"
  shows "fst (r4nv_fmt_decimal cs n) =
    (if foldl (\<lambda>n c. n * 10 + digit_value c) n cs \<le> INT_MAX then Some (foldl (\<lambda>n c. n * 10 + digit_value c) n cs) else None)"
  using assms
proof (induction cs n rule: r4nv_fmt_decimal.induct)
  case (2 c cs n)
  let ?d = "of_char c - 48 :: nat"
  have c: "is_digit c" "digit_value c = ?d" "?d \<le> 9" using "2.prems"(1) by (auto simp: digit_value_def is_digit_def)
  have mono: "m \<le> foldl (\<lambda>n c. n * 10 + digit_value c) m us" for m us
    by (induction us arbitrary: m) (simp, metis (no_types, lifting) foldl_Cons le_trans le_add1 mult_le_mono2 nat_mult_1_right one_le_numeral)
  show ?case
  proof (cases "n > (INT_MAX - ?d) div 10")
    case True
    then have "n * 10 + ?d > INT_MAX" using c(3) by linarith
    then have "\<not> foldl (\<lambda>n c. n * 10 + digit_value c) n (c # cs) \<le> INT_MAX"
      using mono [of "n * 10 + ?d" cs] c(2) by simp
    then show ?thesis using True c by (simp add: Let_def)
  next
    case False
    then have "n * 10 + ?d \<le> INT_MAX" using c(3) by linarith
    then show ?thesis using False c "2.IH" [OF c(1) refl] "2.prems" by (simp add: Let_def)
  qed
qed simp

lemma digits_value_fold: "digits_value 10 ds = foldl (\<lambda>n c. n * 10 + digit_value c) 0 (rev ds)"
  by (induction ds) (simp_all add: mult.commute)


text \<open>Text is appended piece by piece as long as the whole stays within \<^verbatim>\<open>INT_MAX\<close>.\<close>

lemma foldl_add_text: "length s + length (concat ts) \<le> INT_MAX \<Longrightarrow> foldl add_text (Some s) ts = Some (s @ concat ts)"
  by (induction ts arbitrary: s) (auto simp: add_text_def)

text \<open>A plain number: no flags, no width, no precision.\<close>

lemma plain_number:
  assumes "f_left sp = False" "f_zero sp = False" "f_precise sp = False" "f_width sp = 0" "f_alternate sp = False"
    and r: "2 \<le> unat radix" "unat radix \<le> 10"
  shows "\<exists>ps t. number_pieces sp conversion radix v sign [] = Some (Some ps) \<and>
    concat (map piece_text ps) = (case sign of None \<Rightarrow> [] | Some c \<Rightarrow> [c]) @ t \<and>
    list_all is_digit t \<and> digits_value (unat radix) (rev t) = unat v \<and> 0 < length t \<and> length t \<le> 64"
proof -
  define alphabet where "alphabet = (if conversion = CHR ''X'' then ''0123456789ABCDEF'' else ''0123456789abcdef'')"
  have "alphabet = ''0123456789abcdef'' \<or> alphabet = ''0123456789ABCDEF''" by (simp add: alphabet_def)
  then obtain ds where ds: "digit_loop 64 radix alphabet v = Some ds"
    "digits_value (unat radix) ds = unat v" "length ds \<le> 64" "list_all is_digit ds" "ds \<noteq> []"
    using digit_loop_correct [of radix alphabet v 64] r unsigned_less [of v, where 'a = nat] by auto
  have one: "concat (map (piece_text \<circ> (\<lambda>d. Repeat d 1)) us) = us" for us
    by (induction us) (simp_all add: piece_text_def)
  show ?thesis
    using assms(1-5) ds one [of "rev ds"] unfolding alphabet_def
    by (intro exI [of _ "number_layout sp sign [] 0 0 ds"] exI [of _ "rev ds"])
      (auto simp: number_pieces_def number_zeroes_def number_layout_def Let_def piece_text_def list_all_iff
        simp del: digit_loop.simps split: option.split)
qed


lemma fmt_text_plain:
  assumes "fmt_directive [c] args n = Some (Some ps, [], args', n')" "c \<noteq> CHR ''%''"
    "length (concat (map piece_text ps)) \<le> INT_MAX"
  shows "fmt_text (Some []) [CHR ''%'', c] args n = Some (Some (concat (map piece_text ps)))"
  using assms foldl_add_text [of "[]" "map piece_text ps"]
  by (simp add: fmt_text.simps [of "Some []"] fmt_text.simps [of "Some (concat (map piece_text ps))"] peek_def)

lemma sint_NvU32_range: "- 2147483648 \<le> sint (w :: NvU32)" "sint (w :: NvU32) < 2147483648"
  using sint_greater_eq [of w] sint_less [of w] by simp_all

lemma scast_NvU32: "sint (scast (w :: NvU32) :: NvU64) = sint w"
  using sint_NvU32_range [of w] by (simp add: signed_scast_eq signed_take_bit_int_eq_self)

lemma scast_magnitude:
  "unat (if sint (w :: NvU32) < 0 then 0 - (scast w :: NvU64) else scast w) = nat \<bar>sint w\<bar>"
proof -
  have s: "(scast w :: NvU64) = word_of_int (sint w)" by simp
  have u: "unat (word_of_int k :: NvU64) = nat k" if "0 \<le> k" "k < 2147483649" for k
    using that by (simp add: unsigned_of_int take_bit_int_eq_self)
  have n: "0 - (scast w :: NvU64) = word_of_int (- sint w)" by (simp only: s of_int_minus diff_0)
  show ?thesis
  proof (cases "sint w < 0")
    case True
    then have "unat (word_of_int (- sint w) :: NvU64) = nat \<bar>sint w\<bar>" using u [of "- sint w"] sint_NvU32_range [of w] by simp
    then show ?thesis using True by (simp only: n if_True)
  next
    case False
    then have "unat (word_of_int (sint w) :: NvU64) = nat \<bar>sint w\<bar>" using u [of "sint w"] sint_NvU32_range [of w] by simp
    then show ?thesis using False by (simp only: s if_False)
  qed
qed

text \<open>
  C26: Printed numbers read back. The text of \<^verbatim>\<open>%u\<close> is read by the formatter's own decimal parser as the
  printed value whenever that fits an \<^verbatim>\<open>int\<close>, and is refused as an overflow otherwise; the text of \<^verbatim>\<open>%d\<close> is
  a minus sign exactly for negative values, then the digits of the magnitude, \<^verbatim>\<open>INT_MIN\<close> included.
\<close>

theorem decimal_roundtrip:
  "(\<exists>t. fmt_text (Some []) ''%u'' [ArgInt w] n = Some (Some t) \<and>
      fst (r4nv_fmt_decimal t 0) = (if unat w \<le> INT_MAX then Some (unat w) else None)) \<and>
   (\<exists>t. fmt_text (Some []) ''%d'' [ArgInt w] n = Some (Some ((if sint w < 0 then ''-'' else []) @ t)) \<and>
      list_all is_digit t \<and> digits_value 10 (rev t) = nat \<bar>sint w\<bar>)"
proof
  define spec where "spec = no_spec\<lparr>f_width := 0\<rparr>"
  have parse: "fmt_directive [c] args n = fmt_conversion spec c [] args n"
    if "c = CHR ''u'' \<or> c = CHR ''d''" for c args
  proof -
    have "fmt_flags [c] no_spec = (no_spec, [c])" "r4nv_fmt_decimal [c] 0 = (Some 0, [c])"
      using that by (auto simp: is_digit_def)
    moreover have "c \<noteq> CHR ''*'' \<and> c \<noteq> CHR ''.'' \<and> c \<noteq> NUL" using that by (elim disjE) simp_all
    moreover have "fmt_length spec [c] = (spec, [c])" using that by (elim disjE) (simp_all add: fmt_length_def peek_def)
    ultimately show ?thesis
      by (simp add: fmt_directive_def fmt_width_def fmt_precision_def peek_def spec_def)
  qed
  have spec: "f_left spec = False" "f_zero spec = False" "f_precise spec = False" "f_width spec = 0"
    "f_alternate spec = False" "f_length spec = R4NV_INT" "f_plus spec = False" "f_space spec = False"
    by (simp_all add: spec_def no_spec_def)
  obtain ps t where u: "number_pieces spec (CHR ''u'') 10 (ucast w) None [] = Some (Some ps)"
    "concat (map piece_text ps) = t" "list_all is_digit t" "digits_value 10 (rev t) = unat (ucast w :: NvU64)"
    "length t \<le> 64"
    using plain_number [OF spec(1-5), of 10 "CHR ''u''" "ucast w" None] by auto
  have "fmt_directive ''u'' [ArgInt w] n = Some (Some ps, [], [], n)"
    using u(1) spec parse [of "CHR ''u''"] by (simp add: fmt_conversion_def r4nv_fmt_unsigned_def)
  then have "fmt_text (Some []) ''%u'' [ArgInt w] n = Some (Some t)"
    using fmt_text_plain [of "CHR ''u''" "[ArgInt w]" n ps "[]" n] u(2,5) by simp
  moreover have "foldl (\<lambda>n c. n * 10 + digit_value c) 0 t = unat w"
    using u(4) digits_value_fold [of "rev t"] by (simp add: unat_ucast_NvU32)
  ultimately show "\<exists>t. fmt_text (Some []) ''%u'' [ArgInt w] n = Some (Some t) \<and>
      fst (r4nv_fmt_decimal t 0) = (if unat w \<le> INT_MAX then Some (unat w) else None)"
    using r4nv_fmt_decimal_fold [OF u(3), of 0] by simp
  define sign where "sign = (if sint w < 0 then Some (CHR ''-'') else None)"
  define mag where "mag = (if sint w < 0 then 0 - (scast w :: NvU64) else scast w)"
  obtain qs t' where d: "number_pieces spec (CHR ''d'') 10 mag sign [] = Some (Some qs)"
    "concat (map piece_text qs) = (case sign of None \<Rightarrow> [] | Some c \<Rightarrow> [c]) @ t'" "list_all is_digit t'"
    "digits_value 10 (rev t') = unat mag" "length t' \<le> 64"
    using plain_number [OF spec(1-5), of 10 "CHR ''d''" mag sign] by auto
  have s64: "sint (scast w :: NvU64) = sint w" by (rule scast_NvU32)
  have mag: "unat mag = nat \<bar>sint w\<bar>" using scast_magnitude [of w] by (simp add: mag_def)
  have "fmt_directive ''d'' [ArgInt w] n = Some (Some qs, [], [], n)"
    using d(1) spec parse [of "CHR ''d''"] s64
    by (simp add: fmt_conversion_def r4nv_fmt_signed_def mag_def sign_def split: if_split_asm)
  then have "fmt_text (Some []) ''%d'' [ArgInt w] n = Some (Some ((case sign of None \<Rightarrow> [] | Some c \<Rightarrow> [c]) @ t'))"
    using fmt_text_plain [of "CHR ''d''" "[ArgInt w]" n qs "[]" n] d(2,5) by (simp split: option.split)
  then show "\<exists>t. fmt_text (Some []) ''%d'' [ArgInt w] n = Some (Some ((if sint w < 0 then ''-'' else []) @ t)) \<and>
      list_all is_digit t \<and> digits_value 10 (rev t) = nat \<bar>sint w\<bar>"
    using d(3,4) mag by (intro exI [of _ t']) (simp add: sign_def)
qed

section \<open>Literal text and texts of strings\<close>

lemma fmt_text_literal:
  assumes "CHR ''%'' \<notin> set p" "NUL \<notin> set p" "length s + length p \<le> INT_MAX"
  shows "fmt_text (Some s) (p @ fs) args n = fmt_text (Some (s @ p)) fs args n"
  using assms
proof (induction p arbitrary: s)
  case (Cons c p)
  have "c \<noteq> NUL" "c \<noteq> CHR ''%''" "add_text (Some s) [c] = Some (s @ [c])"
    using Cons.prems by (auto simp: add_text_def)
  then have "fmt_text (Some s) ((c # p) @ fs) args n = fmt_text (Some (s @ [c])) (p @ fs) args n"
    by (simp add: fmt_text.simps [of "Some s"] peek_def)
  then show ?case using Cons.IH [of "s @ [c]"] Cons.prems by simp
qed simp

lemma text_scan_plain:
  assumes "\<not> f_precise sp" "NUL \<notin> set u"
  shows "text_scan u sp b n =
    (if n + length u < R4NV_FORMAT_LIMIT then (Some (b + length u), n + length u + 1)
     else if n > R4NV_FORMAT_LIMIT then (Some (b + length u), n + length u + 1) else (None, R4NV_FORMAT_LIMIT))"
  using assms by (induction u sp b n rule: text_scan.induct) auto

text \<open>The directive \<^verbatim>\<open>%s\<close> without flags, within the scan limit.\<close>

lemma fmt_text_string:
  assumes "NUL \<notin> set u" "a \<noteq> 0" "n + length u < R4NV_FORMAT_LIMIT" "length s + length u \<le> INT_MAX"
  shows "fmt_text (Some s) (''%s'' @ fs) (ArgPtr a u # args) n = fmt_text (Some (s @ u)) fs args (n + length u + 1)"
proof -
  have "fmt_directive (CHR ''s'' # fs) (ArgPtr a u # args) n =
      Some (Some (text_pieces no_spec u (length u)), fs, args, n + length u + 1)"
    using assms(1-3) text_scan_plain [of no_spec u 0 n]
    by (simp add: fmt_directive_def fmt_width_def fmt_precision_def fmt_length_def peek_def is_digit_def no_spec_def
        fmt_conversion_def fmt_text_conversion_def va_ptr_def)
  moreover have "map piece_text (text_pieces no_spec u (length u)) = [[], u]"
    by (simp add: text_pieces_def no_spec_def piece_text_def)
  moreover have "foldl add_text (Some s) [[], u] = Some (s @ u)"
    using foldl_add_text [of s "[[], u]"] assms(4) by simp
  ultimately show ?thesis by (simp add: fmt_text.simps [of "Some s"] peek_def)
qed

lemma fmt_text_string_refused:
  assumes "NUL \<notin> set u" "a \<noteq> 0" "n \<le> R4NV_FORMAT_LIMIT" "R4NV_FORMAT_LIMIT \<le> n + length u"
  shows "fmt_text (Some s) (''%s'' @ fs) (ArgPtr a u # args) n = Some None"
proof -
  have "fmt_directive (CHR ''s'' # fs) (ArgPtr a u # args) n = Some (None, fs, args, R4NV_FORMAT_LIMIT)"
    using assms text_scan_plain [of no_spec u 0 n]
    by (simp add: fmt_directive_def fmt_width_def fmt_precision_def fmt_length_def peek_def is_digit_def no_spec_def
        fmt_conversion_def fmt_text_conversion_def va_ptr_def)
  then show ?thesis by (simp add: fmt_text.simps [of "Some s"] peek_def)
qed

text \<open>
  The calls the formatter refuses. A buffer or format that is null, a capacity above the limit and a
  format of 65536 bytes or more return -1 without reading an argument, a non-empty buffer being left
  with an empty string; and a format that reaches \<^verbatim>\<open>%n\<close> after any literal text returns -1 whatever its
  arguments are, so nothing is ever written through an argument.
\<close>

theorem format_refused:
  assumes "CHR ''%'' \<notin> set p" "NUL \<notin> set p" "length p \<le> 65000" "data \<noteq> []"
  shows "r4nv_vformat None 1 format args = Some (- 1, None) \<and>
    r4nv_vformat (Some data) 1 None args = Some (- 1, Some (data[0 := NUL])) \<and>
    r4nv_vformat (Some data) 65537 format args = Some (- 1, Some (data[0 := NUL])) \<and>
    r4nv_vformat (Some data) 1 (Some (replicate 65536 (CHR ''a'') @ rest)) args = Some (- 1, Some (data[0 := NUL])) \<and>
    (\<exists>data'. r4nv_vformat (Some data) 1 (Some (p @ ''%n'')) args = Some (- 1, Some data') \<and> data' ! 0 = NUL)"
proof (intro conjI)
  have "CHR ''n'' \<noteq> NUL" by simp
  have tw: "takeWhile (\<lambda>c. c \<noteq> NUL) (p @ ''%n'') = p @ ''%n''" using assms(2) by (auto simp: takeWhile_append)
  have "fmt_directive ''n'' args m = Some (None, [], args, m)" for m
    by (simp add: fmt_directive_def fmt_width_def fmt_precision_def fmt_length_def peek_def is_digit_def no_spec_def
        fmt_conversion_def)
  then have "fmt_text (Some []) (p @ ''%n'') args (length (takeWhile (\<lambda>c. c \<noteq> NUL) (p @ ''%n'')) + 1) = Some None"
    using fmt_text_literal [of p "[]" "''%n''" args] assms by (simp add: fmt_text.simps [of "Some p"] peek_def)
  moreover have "unat (1 :: NvU64) \<le> length data" using assms(4) by (cases data) simp_all
  ultimately show "\<exists>data'. r4nv_vformat (Some data) 1 (Some (p @ ''%n'')) args = Some (- 1, Some data') \<and> data' ! 0 = NUL"
    using vformat_text [of 1 data "p @ ''%n''" args] tw assms(3) by auto
  have "takeWhile (\<lambda>c. c \<noteq> NUL) (replicate 65536 (CHR ''a'') @ rest) =
      replicate 65536 (CHR ''a'') @ takeWhile (\<lambda>c. c \<noteq> NUL) rest"
    by (subst takeWhile_append2) auto
  then show "r4nv_vformat (Some data) 1 (Some (replicate 65536 (CHR ''a'') @ rest)) args = Some (- 1, Some (data[0 := NUL]))"
    using assms(4) by (simp add: r4nv_vformat_def del: takeWhile_append2)
  show "r4nv_vformat (Some data) 65537 format args = Some (- 1, Some (data[0 := NUL]))"
    using assms(4) by (cases format) (simp_all add: r4nv_vformat_def)
qed (use assms(4) in \<open>simp_all add: r4nv_vformat_def\<close>)

theorem format_refused_witness:
  "\<exists>data'. r4nv_vformat (Some ''zz'') 1 (Some (''ab'' @ ''%n'')) [ArgPtr 64 []] = Some (- 1, Some data') \<and> data' ! 0 = NUL"
  using format_refused [of "''ab''" "''zz''" None "[ArgPtr 64 []]" "[]"] by simp

end
