(* ===== verification/Rm_Log.thy ===== *)
theory Rm_Log
  imports Rm_Format
begin
unbundle bit_operations_syntax

text \<open>
  The log transport of the RM source port: \<^verbatim>\<open>src/rm/log.h\<close>, \<^verbatim>\<open>os_log.c\<close>, \<^verbatim>\<open>nvkms_log.c\<close> and the provider
  \<^verbatim>\<open>r4nv_log\<close> of \<^verbatim>\<open>src/rm_log.zig\<close>. The kernel's three log functions are external: the model keeps the list
  of the records passed to them. A stack buffer that is not initialised is an argument, its contents
  unknown; the four entry points format into it.
\<close>

section \<open>Definitions\<close>

abbreviation (input) R4NV_LOG_INFO :: NvU32 where "R4NV_LOG_INFO \<equiv> 0"
abbreviation (input) R4NV_LOG_WARN :: NvU32 where "R4NV_LOG_WARN \<equiv> 1"
abbreviation (input) R4NV_LOG_ERROR :: NvU32 where "R4NV_LOG_ERROR \<equiv> 2"
abbreviation (input) R4NV_LOG_BYTES :: nat where "R4NV_LOG_BYTES \<equiv> 512"

abbreviation (input) NV_DBG_USERERRORS :: NvU32 where "NV_DBG_USERERRORS \<equiv> 2"
abbreviation (input) NV_DBG_WARNINGS :: NvU32 where "NV_DBG_WARNINGS \<equiv> 3"
abbreviation (input) NV_DBG_ERRORS :: NvU32 where "NV_DBG_ERRORS \<equiv> 4"

text \<open>
  The module's state: whether the driver API is bound, the count of records, what was submitted since
  the binding (the newest last) and RM's debug level.
\<close>

record log_state =
  l_api :: bool
  l_records :: NvU64
  l_sent :: "(NvU32 \<times> string) list"
  l_debug_level :: NvU32

definition log_bind :: "log_state \<Rightarrow> log_state" where
  "log_bind st = st\<lparr>l_api := True, l_records := 0, l_sent := []\<rparr>"

definition log_unbind :: "log_state \<Rightarrow> log_state" where
  "log_unbind st = st\<lparr>l_api := False\<rparr>"

definition overwrite :: "string \<Rightarrow> nat \<Rightarrow> string \<Rightarrow> string" where
  "overwrite buffer start u = take start buffer @ u @ drop (start + length u) buffer"

definition r4nv_log :: "log_state \<Rightarrow> NvU32 \<Rightarrow> string option \<Rightarrow> int \<times> log_state" where
  "r4nv_log st severity text =
     (if \<not> l_api st then (- 1, st)
      else (case text of
          None \<Rightarrow> (- 1, st)
        | Some input \<Rightarrow>
            if severity > 2 then (- 1, st)
            else let
              buffer = take 512 (takeWhile (\<lambda>c. c \<noteq> NUL) input);
              len = length buffer;
              buffer = (if len = 512 then overwrite buffer (512 - length '' [truncated]'') '' [truncated]'' else buffer)
            in (int len, st\<lparr>l_sent := l_sent st @ [(severity, buffer)], l_records := l_records st + 1\<rparr>)))"

definition r4nv_log_finish :: "string \<Rightarrow> int \<Rightarrow> string" where
  "r4nv_log_finish buffer formatted =
     (if formatted < 0 then overwrite buffer 0 (''NVIDIA native log: invalid or unsupported format'' @ [NUL])
      else if formatted \<ge> int R4NV_LOG_BYTES then
        (let marker = '' [truncated]'' @ [NUL] in overwrite buffer (R4NV_LOG_BYTES - length marker) marker)
      else buffer)"

subsection \<open>\<^verbatim>\<open>os_log.c\<close>\<close>

definition severity :: "NvU32 \<Rightarrow> NvU32" where
  "severity level =
     (if level \<ge> NV_DBG_ERRORS \<or> level = NV_DBG_USERERRORS then R4NV_LOG_ERROR
      else if level = NV_DBG_WARNINGS then R4NV_LOG_WARN
      else R4NV_LOG_INFO)"

definition os_dbg_set_level :: "log_state \<Rightarrow> NvU32 \<Rightarrow> log_state" where
  "os_dbg_set_level st value = st\<lparr>l_debug_level := value\<rparr>"

definition nv_printf ::
  "string \<Rightarrow> log_state \<Rightarrow> NvU32 \<Rightarrow> string option \<Rightarrow> fmt_arg list \<Rightarrow> (int \<times> log_state) option" where
  "nv_printf buffer st level format args =
     (if level < (drop_bit 4 (l_debug_level st) AND 3) then Some (0, st)
      else do {
        (count, buffer) \<leftarrow> os_vsnprintf (Some buffer) 512 format args;
        let buffer = map_option (\<lambda>b. r4nv_log_finish b count) buffer;
        let (logged, st) = r4nv_log st (if count < 0 then R4NV_LOG_ERROR else severity level) buffer;
        Some (if count < 0 \<or> logged < 0 then - 1 else logged, st)
      })"

definition out_string :: "log_state \<Rightarrow> string option \<Rightarrow> log_state" where
  "out_string st text = snd (r4nv_log st R4NV_LOG_INFO text)"

definition os_log_error :: "string \<Rightarrow> log_state \<Rightarrow> string option \<Rightarrow> fmt_arg list \<Rightarrow> log_state option" where
  "os_log_error buffer st format args = do {
     (count, buffer) \<leftarrow> os_vsnprintf (Some buffer) 512 format args;
     let buffer = map_option (\<lambda>b. r4nv_log_finish b count) buffer;
     Some (snd (r4nv_log st R4NV_LOG_ERROR buffer))
   }"

subsection \<open>\<^verbatim>\<open>nvkms_log.c\<close>\<close>

abbreviation (input) NVKMS_LOG_LEVEL_WARN :: int where "NVKMS_LOG_LEVEL_WARN \<equiv> 1"
abbreviation (input) NVKMS_LOG_LEVEL_ERROR :: int where "NVKMS_LOG_LEVEL_ERROR \<equiv> 2"

text \<open>The string arguments are an address with the bytes there; literals have addresses of their own.\<close>

definition nvkms_log ::
  "string \<Rightarrow> log_state \<Rightarrow> int \<Rightarrow> string option \<Rightarrow> string option \<Rightarrow> log_state option" where
  "nvkms_log buffer st level gpu_prefix message = do {
     (count, buffer) \<leftarrow> nvkms_snprintf (Some buffer) 512 (Some ''NVIDIA modeset: %s%s'')
        [ArgPtr 1 (case gpu_prefix of None \<Rightarrow> [] | Some p \<Rightarrow> p),
         ArgPtr 1 (case message of None \<Rightarrow> ''(null)'' | Some m \<Rightarrow> m)];
     let buffer = map_option (\<lambda>b. r4nv_log_finish b count) buffer;
     let severity = R4NV_LOG_INFO;
     let severity = (if level = NVKMS_LOG_LEVEL_WARN then R4NV_LOG_WARN else severity);
     let severity = (if level = NVKMS_LOG_LEVEL_ERROR \<or> count < 0 then R4NV_LOG_ERROR else severity);
     Some (snd (r4nv_log st severity buffer))
   }"

section \<open>The record of a message\<close>

text \<open>
  What a formatted message becomes: its C string, with a marker in place of its end when it does not
  fit, or a fixed message when the format is refused.
\<close>

definition log_refused :: string where
  "log_refused = ''NVIDIA native log: invalid or unsupported format''"

definition log_text :: "string \<Rightarrow> string" where
  "log_text s = takeWhile (\<lambda>c. c \<noteq> NUL) (if length s < R4NV_LOG_BYTES then s else take 499 s @ '' [truncated]'')"

definition log_record :: "string option \<Rightarrow> string" where
  "log_record L = (case L of None \<Rightarrow> log_refused | Some s \<Rightarrow> log_text s)"

definition submit :: "log_state \<Rightarrow> NvU32 \<Rightarrow> string \<Rightarrow> log_state" where
  "submit st sev t = st\<lparr>l_sent := l_sent st @ [(sev, t)], l_records := l_records st + 1\<rparr>"

lemma takeWhile_NUL: "takeWhile (\<lambda>c. c \<noteq> NUL) (u @ NUL # v) = takeWhile (\<lambda>c. c \<noteq> NUL) u"
  by (simp add: takeWhile_tail)

lemma takeWhile_no_NUL: "NUL \<notin> set (takeWhile (\<lambda>c. c \<noteq> NUL) u)"
  by (auto dest: set_takeWhileD)

lemma log_text_length: "length (log_text s) < R4NV_LOG_BYTES"
proof -
  have "length (log_text s) \<le> length (if length s < R4NV_LOG_BYTES then s else take 499 s @ '' [truncated]'')"
    unfolding log_text_def by (rule length_takeWhile_le)
  also have "\<dots> < R4NV_LOG_BYTES" by simp
  finally show ?thesis .
qed

lemma log_record_length: "length (log_record L) < R4NV_LOG_BYTES"
  using log_text_length by (auto simp: log_record_def log_refused_def split: option.split)

lemma log_record_no_NUL: "NUL \<notin> set (log_record L)"
  by (auto simp: log_record_def log_refused_def log_text_def dest: set_takeWhileD split: option.split)

lemma log_finish_refused:
  "formatted < 0 \<Longrightarrow> takeWhile (\<lambda>c. c \<noteq> NUL) (r4nv_log_finish buffer formatted) = log_refused"
  by (simp add: r4nv_log_finish_def overwrite_def log_refused_def)

lemma log_finish_text:
  assumes "length buffer = R4NV_LOG_BYTES"
  shows "takeWhile (\<lambda>c. c \<noteq> NUL) (r4nv_log_finish (buffer_after R4NV_LOG_BYTES buffer s) (int (length s))) = log_text s"
proof (cases "length s < R4NV_LOG_BYTES")
  case True
  then show ?thesis by (simp add: r4nv_log_finish_def buffer_after_def log_text_def takeWhile_NUL)
next
  case False
  then have t: "take 499 (buffer_after R4NV_LOG_BYTES buffer s) = take 499 s"
    by (simp add: buffer_after_def min_def)
  have "r4nv_log_finish (buffer_after R4NV_LOG_BYTES buffer s) (int (length s)) =
      (take 499 s @ '' [truncated]'') @ NUL # drop 512 (buffer_after R4NV_LOG_BYTES buffer s)"
    using False by (simp add: r4nv_log_finish_def overwrite_def t Let_def)
  then show ?thesis using False by (simp only: takeWhile_NUL log_text_def if_False)
qed

lemma format_log_record:
  assumes "length buffer = R4NV_LOG_BYTES" "length (takeWhile (\<lambda>c. c \<noteq> NUL) fs) < R4NV_FORMAT_LIMIT"
  shows "case fmt_text (Some []) fs args (length (takeWhile (\<lambda>c. c \<noteq> NUL) fs) + 1) of
      None \<Rightarrow> r4nv_vformat (Some buffer) 512 (Some fs) args = None
    | Some L \<Rightarrow> \<exists>count b. r4nv_vformat (Some buffer) 512 (Some fs) args = Some (count, Some b) \<and>
        (count < 0 \<longleftrightarrow> L = None) \<and> takeWhile (\<lambda>c. c \<noteq> NUL) (r4nv_log_finish b count) = log_record L"
proof -
  have u: "unat (512 :: NvU64) = 512" by simp
  note r = vformat_text [of 512 buffer fs args, unfolded u, OF _ _ assms(2)]
  show ?thesis
  proof (cases "fmt_text (Some []) fs args (length (takeWhile (\<lambda>c. c \<noteq> NUL) fs) + 1)")
    case None
    then show ?thesis using r assms(1) by simp
  next
    case (Some L)
    then show ?thesis
      using r assms(1) log_finish_refused [of "- 1"] log_finish_text [OF assms(1)]
      by (cases L) (fastforce simp: log_record_def)+
  qed
qed

lemma format_log_recordE:
  assumes "length buffer = R4NV_LOG_BYTES" "length (takeWhile (\<lambda>c. c \<noteq> NUL) fs) < R4NV_FORMAT_LIMIT"
    "fmt_text (Some []) fs args (length (takeWhile (\<lambda>c. c \<noteq> NUL) fs) + 1) = Some L"
  obtains count b where "r4nv_vformat (Some buffer) 512 (Some fs) args = Some (count, Some b)"
    "count < 0 \<longleftrightarrow> L = None" "takeWhile (\<lambda>c. c \<noteq> NUL) (r4nv_log_finish b count) = log_record L"
  using format_log_record [OF assms(1,2), of args] assms(3) by auto

lemma r4nv_log_submit:
  assumes "l_api st" "sev \<le> 2" "length (takeWhile (\<lambda>c. c \<noteq> NUL) b) < R4NV_LOG_BYTES"
  shows "r4nv_log st sev (Some b) =
    (int (length (takeWhile (\<lambda>c. c \<noteq> NUL) b)), submit st sev (takeWhile (\<lambda>c. c \<noteq> NUL) b))"
  using assms by (simp add: r4nv_log_def submit_def Let_def not_le)


text \<open>Submitting what the formatter left in the buffer.\<close>

lemma log_formatted:
  assumes "l_api st" "sev \<le> 2" "takeWhile (\<lambda>c. c \<noteq> NUL) b = log_record L"
  shows "r4nv_log st sev (Some b) = (int (length (log_record L)), submit st sev (log_record L))"
  using r4nv_log_submit [OF assms(1,2), of b] assms(3) log_record_length [of L] by simp

lemma severity_le: "severity level \<le> 2"
  by (simp add: severity_def)

text \<open>
  C27: A message at or above the debug threshold becomes one record: the formatted text, cut behind 499
  bytes with a marker when it is 512 bytes or longer, under the severity of its level, and the return
  value is the number of bytes submitted; a refused format becomes a fixed error record and the call
  returns -1. A message below the threshold changes nothing and returns 0. What the stack buffer held
  before does not matter.
\<close>

theorem nv_printf_correct:
  assumes "l_api st" "length buffer = R4NV_LOG_BYTES" "length (takeWhile (\<lambda>c. c \<noteq> NUL) fs) < R4NV_FORMAT_LIMIT"
  shows "nv_printf buffer st level (Some fs) args =
    (if level < (drop_bit 4 (l_debug_level st) AND 3) then Some (0, st)
     else case fmt_text (Some []) fs args (length (takeWhile (\<lambda>c. c \<noteq> NUL) fs) + 1) of
         None \<Rightarrow> None
       | Some None \<Rightarrow> Some (- 1, submit st R4NV_LOG_ERROR log_refused)
       | Some (Some s) \<Rightarrow> Some (int (length (log_text s)), submit st (severity level) (log_text s)))"
proof (cases "fmt_text (Some []) fs args (length (takeWhile (\<lambda>c. c \<noteq> NUL) fs) + 1)")
  case None
  then show ?thesis
    using format_log_record [OF assms(2,3), of args] by (simp add: nv_printf_def os_vsnprintf_def)
next
  case (Some L)
  then obtain count b where f: "r4nv_vformat (Some buffer) 512 (Some fs) args = Some (count, Some b)"
    "count < 0 \<longleftrightarrow> L = None" "takeWhile (\<lambda>c. c \<noteq> NUL) (r4nv_log_finish b count) = log_record L"
    using format_log_recordE [OF assms(2,3)] by blast
  show ?thesis
    using Some f(1,2) log_formatted [OF assms(1) _ f(3)] severity_le [of level]
    by (cases L) (simp_all add: nv_printf_def os_vsnprintf_def log_record_def)
qed

theorem nv_printf_correct_witness:
  "nv_printf (replicate 512 (CHR ''z'')) \<lparr>l_api = True, l_records = 4, l_sent = [], l_debug_level = 0\<rparr> 4 (Some ''gpu %s'')
     [ArgPtr 64 ''lost''] =
   Some (8, \<lparr>l_api = True, l_records = 5, l_sent = [(2, ''gpu lost'')], l_debug_level = 0\<rparr>)"
proof -
  have "fmt_text (Some []) ''gpu %s'' [ArgPtr 64 ''lost''] (length (takeWhile (\<lambda>c. c \<noteq> NUL) ''gpu %s'') + 1) =
      Some (Some ''gpu lost'')"
    by code_simp
  moreover have "log_text ''gpu lost'' = ''gpu lost''" by code_simp
  ultimately show ?thesis
    using nv_printf_correct [of "\<lparr>l_api = True, l_records = 4, l_sent = [], l_debug_level = 0\<rparr>"
        "replicate 512 (CHR ''z'')" "''gpu %s''" 4 "[ArgPtr 64 ''lost'']"]
    by (simp add: submit_def severity_def)
qed


text \<open>
  A modeset message becomes one record: the prefix, the GPU prefix and the message in order, an
  absent prefix empty and an absent message \<^verbatim>\<open>(null)\<close>, cut with the marker when it is too long, under the
  severity of its level; texts past the formatter's scan limit become the fixed error record.
\<close>

theorem nvkms_log_correct:
  assumes "l_api st" "length buffer = R4NV_LOG_BYTES" "NUL \<notin> set p" "NUL \<notin> set m" "length p < 60000"
  shows "nvkms_log buffer st level (Some p) (Some m) =
    Some (if length p + length m < 65514
          then submit st (if level = 2 then R4NV_LOG_ERROR else if level = 1 then R4NV_LOG_WARN else R4NV_LOG_INFO)
                 (log_text (''NVIDIA modeset: '' @ p @ m))
          else submit st R4NV_LOG_ERROR log_refused) \<and>
    nvkms_log buffer st level None None =
    Some (submit st (if level = 2 then R4NV_LOG_ERROR else if level = 1 then R4NV_LOG_WARN else R4NV_LOG_INFO)
       ''NVIDIA modeset: (null)'')"
proof -
  let ?fs = "''NVIDIA modeset: %s%s''"
  have tw: "length (takeWhile (\<lambda>c. c \<noteq> NUL) ?fs) + 1 = 21" "length (takeWhile (\<lambda>c. c \<noteq> NUL) ?fs) < R4NV_FORMAT_LIMIT"
    by code_simp+
  have start: "fmt_text (Some []) ?fs [ArgPtr 1 q, ArgPtr 1 r] 21 =
      fmt_text (Some (''NVIDIA modeset: '' @ q)) ''%s'' [ArgPtr 1 r] (22 + length q)"
    if "NUL \<notin> set q" "length q < 60000" for q r
    using fmt_text_literal [of "''NVIDIA modeset: ''" "[]" "''%s%s''" "[ArgPtr 1 q, ArgPtr 1 r]" 21]
      fmt_text_string [of q 1 21 "''NVIDIA modeset: ''" "''%s''" "[ArgPtr 1 r]"] that by simp
  have good: "fmt_text (Some []) ?fs [ArgPtr 1 q, ArgPtr 1 r] 21 = Some (Some (''NVIDIA modeset: '' @ q @ r))"
    if "NUL \<notin> set q" "NUL \<notin> set r" "length q < 60000" "length q + length r < 65514" for q r
    using start [OF that(1,3), of r] fmt_text_string [of r 1 "22 + length q" "''NVIDIA modeset: '' @ q" "[]" "[]"] that
    by (simp add: fmt_text.simps [of _ "[]"] peek_def)
  have bad: "fmt_text (Some []) ?fs [ArgPtr 1 q, ArgPtr 1 r] 21 = Some None"
    if "NUL \<notin> set q" "NUL \<notin> set r" "length q < 60000" "\<not> length q + length r < 65514" for q r
    using start [OF that(1,3), of r] fmt_text_string_refused [of r 1 "22 + length q" "''NVIDIA modeset: '' @ q" "[]" "[]"] that
    by simp
  have run: "nvkms_log buffer st level gp ms =
      (case L of None \<Rightarrow> Some (submit st 2 log_refused)
       | Some s \<Rightarrow> Some (submit st (if level = 2 then 2 else if level = 1 then 1 else 0) (log_text s)))"
    if "fmt_text (Some []) ?fs [ArgPtr 1 (case gp of None \<Rightarrow> [] | Some p \<Rightarrow> p),
         ArgPtr 1 (case ms of None \<Rightarrow> ''(null)'' | Some m \<Rightarrow> m)] 21 = Some L" for gp ms L
  proof -
    note that' = that [folded tw(1)]
    obtain count b where f: "r4nv_vformat (Some buffer) 512 (Some ?fs)
        [ArgPtr 1 (case gp of None \<Rightarrow> [] | Some p \<Rightarrow> p), ArgPtr 1 (case ms of None \<Rightarrow> ''(null)'' | Some m \<Rightarrow> m)] =
        Some (count, Some b)"
      "count < 0 \<longleftrightarrow> L = None" "takeWhile (\<lambda>c. c \<noteq> NUL) (r4nv_log_finish b count) = log_record L"
      using format_log_recordE [OF assms(2) tw(2) that'] by blast
    show ?thesis
      using f(1,2) log_formatted [OF assms(1) _ f(3)]
      by (cases L) (simp_all add: nvkms_log_def nvkms_snprintf_def nvkms_vsnprintf_def log_record_def)
  qed
  have null: "log_text ''NVIDIA modeset: (null)'' = ''NVIDIA modeset: (null)''" by code_simp
  show ?thesis
    using run [of "Some p" "Some m"] run [of None None] good [of p m] bad [of p m] good [of "[]" "''(null)''"] assms null
    by auto
qed


theorem nvkms_log_correct_witness:
  "nvkms_log (replicate 512 (CHR ''z'')) \<lparr>l_api = True, l_records = 4, l_sent = [], l_debug_level = 0\<rparr> 1
     (Some ''GPU-check: '') (Some ''native'') =
   Some \<lparr>l_api = True, l_records = 5, l_sent = [(1, ''NVIDIA modeset: GPU-check: native'')], l_debug_level = 0\<rparr>"
proof -
  have "log_text (''NVIDIA modeset: '' @ ''GPU-check: '' @ ''native'') = ''NVIDIA modeset: GPU-check: native''" by code_simp
  then show ?thesis
    using nvkms_log_correct [of "\<lparr>l_api = True, l_records = 4, l_sent = [], l_debug_level = 0\<rparr>"
        "replicate 512 (CHR ''z'')" "''GPU-check: ''" "''native''" 1]
    by (simp add: submit_def)
qed

section \<open>Runs\<close>

text \<open>Any sequence of the module's operations, with any arguments and any stack contents.\<close>

inductive log_step :: "log_state \<Rightarrow> log_state \<Rightarrow> bool" where
  bind: "log_step st (log_bind st)"
| unbind: "log_step st (log_unbind st)"
| set_level: "log_step st (os_dbg_set_level st value)"
| printf: "nv_printf buffer st level format args = Some (r, st') \<Longrightarrow> log_step st st'"
| literal: "log_step st (out_string st msg)"
| error: "os_log_error buffer st format args = Some st' \<Longrightarrow> log_step st st'"
| modeset: "nvkms_log buffer st klevel gpu_prefix message = Some st' \<Longrightarrow> log_step st st'"

definition log_start :: log_state where
  "log_start = \<lparr>l_api = False, l_records = 0, l_sent = [], l_debug_level = 0xffffffff\<rparr>"

definition log_ok :: "log_state \<Rightarrow> bool" where
  "log_ok st \<longleftrightarrow> l_records st = of_nat (length (l_sent st)) \<and>
     list_all (\<lambda>(sev, t). sev \<le> 2 \<and> length t \<le> R4NV_LOG_BYTES \<and> NUL \<notin> set t) (l_sent st)"

text \<open>Whatever text it is given, the provider adds at most one well-formed record.\<close>

lemma r4nv_log_ok:
  assumes "log_ok st" shows "log_ok (snd (r4nv_log st sev msg))"
proof (cases "l_api st \<and> \<not> sev > 2 \<and> msg \<noteq> None")
  case True
  then obtain input where t: "msg = Some input" by auto
  define b where "b = take 512 (takeWhile (\<lambda>c. c \<noteq> NUL) input)"
  define r where "r = (if length b = 512 then overwrite b (512 - length '' [truncated]'') '' [truncated]'' else b)"
  have "NUL \<notin> set b" unfolding b_def by (auto dest!: in_set_takeD set_takeWhileD)
  then have "NUL \<notin> set r" by (auto simp: r_def overwrite_def dest: in_set_takeD in_set_dropD)
  moreover have "length r \<le> 512"
  proof -
    have "length b \<le> 512" by (simp add: b_def)
    then show ?thesis by (simp add: r_def overwrite_def)
  qed
  moreover have "snd (r4nv_log st sev msg) = st\<lparr>l_sent := l_sent st @ [(sev, r)], l_records := l_records st + 1\<rparr>"
    using True t by (simp add: r4nv_log_def Let_def r_def b_def)
  ultimately show ?thesis using assms True by (simp add: log_ok_def not_less add.commute)
next
  case False
  then have "snd (r4nv_log st sev msg) = st" by (cases msg) (auto simp: r4nv_log_def)
  then show ?thesis using assms by simp
qed

lemma log_step_ok: "log_step st st' \<Longrightarrow> log_ok st \<Longrightarrow> log_ok st'"
proof (induction rule: log_step.induct)
  case (printf buffer st level format args r st')
  then show ?case
    using r4nv_log_ok [OF printf.prems]
    by (auto simp: nv_printf_def Let_def split: if_split_asm bind_split_asm prod.split_asm) (metis snd_conv)+
next
  case (literal st msg)
  then show ?case using r4nv_log_ok by (simp add: out_string_def)
next
  case (error buffer st format args st')
  then show ?case using r4nv_log_ok by (auto simp: os_log_error_def split: bind_split_asm)
next
  case (modeset buffer st klevel gpu_prefix message st')
  then show ?case using r4nv_log_ok by (auto simp: nvkms_log_def Let_def split: bind_split_asm)
qed (simp_all add: log_ok_def log_bind_def log_unbind_def os_dbg_set_level_def)

text \<open>
  C28: In every state the module can reach, whatever is printed, every record passed to the kernel is at
  most 512 bytes long, holds no terminator and has one of the three severities, and the record counter
  counts them, modulo its 64 bits.
\<close>

theorem log_records_bounded:
  assumes "log_step\<^sup>*\<^sup>* log_start st"
  shows "log_ok st"
  using assms
proof (induction rule: rtranclp_induct)
  case base
  show ?case by (simp add: log_start_def log_ok_def)
next
  case (step st st')
  then show ?case by (blast intro: log_step_ok)
qed

theorem log_records_bounded_witness:
  "log_ok (out_string (log_bind log_start) (Some ''literal=100% complete''))"
proof (rule log_records_bounded)
  show "log_step\<^sup>*\<^sup>* log_start (out_string (log_bind log_start) (Some ''literal=100% complete''))"
    by (rule converse_rtranclp_into_rtranclp, rule log_step.bind, rule r_into_rtranclp, rule log_step.literal)
qed

end
