(* ===== verification/Rm_FormatProbe.thy ===== *)
theory Rm_FormatProbe
  imports Rm_Log Rm_Regions
begin

text \<open>
  The driver's check of the formatter and the log, \<^verbatim>\<open>r4nv_format_probe\<close> of \<^verbatim>\<open>src/rm/cpu_probe.c\<close>: five formatted prints
  into a buffer on its stack, compared with the strings they must give, and a message through each of the four
  entry points of the log. It is defined over the modelled adapters. What is proved is that it passes for every
  seed whatever its buffers held, fails only when the log is not bound, and which records it leaves.
\<close>

section \<open>Definitions\<close>

text \<open>The addresses of what the compiler places: the buffer, the integer behind \<^verbatim>\<open>%n\<close> and the four expected strings.\<close>

record format_frame =
  ff_data :: NvU64
  ff_preserved :: NvU64
  ff_limits :: NvU64
  ff_cut :: NvU64
  ff_sizes :: NvU64
  ff_signed :: NvU64

text \<open>The formatter works on characters, memory holds bytes.\<close>

definition text_bytes :: "string \<Rightarrow> NvU8 list" where
  "text_bytes s = map (\<lambda>c. of_nat (of_char c)) s"

definition bytes_text :: "NvU8 list \<Rightarrow> string" where
  "bytes_text bs = map (\<lambda>b. char_of (unat b)) bs"

text \<open>A print into the buffer of 96 bytes at \<open>data\<close>.\<close>

definition into_buffer :: "NvU64 \<Rightarrow> (string option \<Rightarrow> (int \<times> string option) option) \<Rightarrow> memory \<Rightarrow> (int \<times> memory) option" where
  "into_buffer data print m = do {
     bytes \<leftarrow> load_bytes m data 96;
     (n, out) \<leftarrow> print (Some (bytes_text bytes));
     text \<leftarrow> out;
     m \<leftarrow> store_bytes m data (text_bytes text);
     Some (n, m)
   }"

type_synonym format_run = "(int \<times> memory \<times> log_state) option"

text \<open>A print whose count and text are checked.\<close>

definition format_check ::
  "(int \<times> memory) option \<Rightarrow> int \<Rightarrow> (memory \<Rightarrow> int option) \<Rightarrow> int \<Rightarrow> log_state \<Rightarrow> (memory \<Rightarrow> format_run) \<Rightarrow> format_run" where
  "format_check r expected compare line st continue = do {
     (n, m) \<leftarrow> r;
     if n \<noteq> expected then Some (- line, m, st)
     else do {
       c \<leftarrow> compare m;
       if c \<noteq> 0 then Some (- line, m, st) else continue m
     }
   }"

text \<open>The three functions of the probe with a variable list of arguments.\<close>

definition probe_os_v :: "string option \<Rightarrow> NvU32 \<Rightarrow> string option \<Rightarrow> fmt_arg list \<Rightarrow> (int \<times> string option) option" where
  "probe_os_v data bytes format args = os_vsnprintf data bytes format args"

definition probe_kms_v :: "string option \<Rightarrow> NvU64 \<Rightarrow> string option \<Rightarrow> fmt_arg list \<Rightarrow> (int \<times> string option) option" where
  "probe_kms_v data bytes format args = nvkms_vsnprintf data bytes format args"

definition probe_error :: "string \<Rightarrow> log_state \<Rightarrow> string option \<Rightarrow> fmt_arg list \<Rightarrow> log_state option" where
  "probe_error buffer st format args = os_log_error buffer st format args"

text \<open>Lines 35 to 40: the messages. The buffers are the ones on the stack of the three log functions that format.\<close>

definition probe_messages :: "string \<Rightarrow> string \<Rightarrow> string \<Rightarrow> NvU32 \<Rightarrow> memory \<Rightarrow> log_state \<Rightarrow> format_run" where
  "probe_messages b1 b2 b3 seed m st = do {
     let st = os_dbg_set_level st 0;
     (n, st) \<leftarrow> nv_printf b1 st 0 (Some ''NVIDIA native-log-check: context=%u value=%016llx'') [ArgInt seed, ArgLong 0xfedcba9876543210];
     if n \<le> 0 then Some (- 36, m, st)
     else do {
       let st = out_string st (Some ''NVIDIA native-log-check: literal=100% complete'');
       st \<leftarrow> probe_error b2 st (Some ''NVIDIA native-log-check: severity=error context=%u'') [ArgInt seed];
       st \<leftarrow> nvkms_log b3 st 1 (Some ''GPU-check: '') (Some ''native-log-check severity=warning'');
       Some (0, m, st)
     }
   }"

text \<open>Line 34: the refused \<^verbatim>\<open>%n\<close>.\<close>

definition probe_percent_n :: "format_frame \<Rightarrow> string \<Rightarrow> string \<Rightarrow> string \<Rightarrow> NvU32 \<Rightarrow> memory \<Rightarrow> log_state \<Rightarrow> format_run" where
  "probe_percent_n f b1 b2 b3 seed m st = do {
     (n, m) \<leftarrow> into_buffer (ff_data f) (\<lambda>d. os_snprintf d 96 (Some ''%n'') [ArgPtr (ff_preserved f) ''O'']) m;
     if n \<noteq> - 1 then Some (- 34, m, st)
     else do {
       first \<leftarrow> m (ff_data f);
       if first \<noteq> 0 then Some (- 34, m, st)
       else do {
         preserved \<leftarrow> load_bytes m (ff_preserved f) 4;
         if preserved \<noteq> [79, 0, 0, 0] then Some (- 34, m, st)
         else probe_messages b1 b2 b3 seed m st
       }
     }
   }"

definition r4nv_format_probe ::
  "format_frame \<Rightarrow> string \<Rightarrow> string \<Rightarrow> string \<Rightarrow> NvU32 \<Rightarrow> memory \<Rightarrow> log_state \<Rightarrow> format_run" where
  "r4nv_format_probe f b1 b2 b3 seed m st = do {
     m \<leftarrow> store_bytes m (ff_preserved f) [79, 0, 0, 0];
     let data = ff_data f;
     format_check (into_buffer data (\<lambda>d. os_snprintf d 96 (Some ''%lld/%#llx'') [ArgLong 0x8000000000000000, ArgLong 0xfedcba9876543210]) m)
       39 (\<lambda>m. os_string_compare m data (ff_limits f)) 29 st (\<lambda>m.
     format_check (into_buffer data (\<lambda>d. probe_os_v d 5 (Some ''%08x'') [ArgInt 0x79]) m)
       8 (\<lambda>m. os_string_compare m data (ff_cut f)) 30 st (\<lambda>m.
     format_check (into_buffer data (\<lambda>d. nvkms_snprintf d 96 (Some ''%zu/%hhu/%.*s'') [ArgLong 0x100000001, ArgInt 255, ArgInt 3, ArgPtr 1 ''abcde'']) m)
       18 (\<lambda>m. nvkms_strcmp m data (ff_sizes f)) 32 st (\<lambda>m.
     format_check (into_buffer data (\<lambda>d. probe_kms_v d 96 (Some ''%*.*d'') [ArgInt (- 8), ArgInt 4, ArgInt (- 12)]) m)
       8 (\<lambda>m. nvkms_strcmp m data (ff_signed f)) 33 st (\<lambda>m. probe_percent_n f b1 b2 b3 seed m st))))
   }"

section \<open>Prints into the buffer\<close>

abbreviation (input) limits_text :: string where "limits_text \<equiv> ''-9223372036854775808/0xfedcba9876543210''"
abbreviation (input) sizes_text :: string where "sizes_text \<equiv> ''4294967297/255/abc''"

definition format_regions :: "format_frame \<Rightarrow> NvU8 list \<Rightarrow> NvU8 list \<Rightarrow> region list" where
  "format_regions f ds ps =
     [(ff_data f, ds), (ff_preserved f, ps), (ff_limits f, text_bytes limits_text @ [0]), (ff_cut f, text_bytes ''0000'' @ [0]),
      (ff_sizes f, text_bytes sizes_text @ [0]), (ff_signed f, text_bytes ''-0012   '' @ [0])]"

definition format_frame_ok :: "format_frame \<Rightarrow> memory \<Rightarrow> bool" where
  "format_frame_ok f m \<longleftrightarrow> (\<exists>ds ps. length ds = 96 \<and> length ps = 4 \<and> layout m (format_regions f ds ps))"

lemma text_bytes_simps [simp]:
  "length (text_bytes s) = length s" "length (bytes_text bs) = length bs" "text_bytes [] = []"
  "text_bytes (c # s) = of_nat (of_char c) # text_bytes s" "text_bytes (s @ t) = text_bytes s @ text_bytes t"
  by (simp_all add: text_bytes_def bytes_text_def)

lemma char_byte_eq_0: "of_nat (of_char c) = (0 :: NvU8) \<longleftrightarrow> c = NUL"
proof -
  have "of_char c < (256 :: nat)" by (rule nat_of_char_less_256)
  then have "of_nat (of_char c) = (0 :: NvU8) \<longleftrightarrow> of_char c = (0 :: nat)"
    by (simp add: word_unat_eq_iff unat_of_nat)
  also have "\<dots> \<longleftrightarrow> c = NUL" using of_char_eq_iff [of c NUL, where ?'a = nat] by simp
  finally show ?thesis .
qed

lemma text_bytes_zero: "0 \<notin> set (text_bytes s) \<longleftrightarrow> NUL \<notin> set s"
  using char_byte_eq_0 by (induction s) auto

lemma into_buffer_prints:
  assumes "layout m (format_regions f ds ps)" "length ds = 96"
    and "print (Some (bytes_text ds)) = Some (n, Some d)" "length d = 96"
  obtains m' where "into_buffer (ff_data f) print m = Some (n, m')" "layout m' (format_regions f (text_bytes d) ps)"
proof -
  have data: "Rm_Regions.holds m (ff_data f) ds"
    by (rule layout_holds [OF assms(1), of 0]) (simp_all add: format_regions_def)
  have acc: "accessible m (ff_data f) 96" and sl: "slice m (ff_data f) 96 = ds"
    using holds_accessible [OF data, where k = 0 and n = 96] holds_slice [OF data, where k = 0 and n = 96] assms(2) by simp_all
  have "layout (put m (ff_data f + of_nat 0) (text_bytes d)) ((format_regions f ds ps)[0 := (ff_data f, patch 0 (text_bytes d) ds)])"
    by (rule layout_put [OF assms(1)]) (use assms(2,4) in \<open>simp_all add: format_regions_def\<close>)
  moreover have "patch 0 (text_bytes d) ds = text_bytes d" using assms(2,4) by (simp add: patch_def)
  ultimately have "layout (put m (ff_data f) (text_bytes d)) (format_regions f (text_bytes d) ps)"
    by (simp add: format_regions_def)
  moreover have "into_buffer (ff_data f) print m = Some (n, put m (ff_data f) (text_bytes d))"
    using assms(3,4) acc by (simp add: into_buffer_def load_bytes_slice sl store_bytes_put)
  ultimately show thesis by (rule that [rotated])
qed

text \<open>A print of a known text passes the check against the region that holds its prefix.\<close>

lemma format_check_passes:
  assumes "layout m (format_regions f ds ps)" "length ds = 96"
    and prints: "fmt_text (Some []) fs args (length (takeWhile (\<lambda>c. c \<noteq> NUL) fs) + 1) = Some (Some s)" "NUL \<notin> set s"
    and cap: "0 < capacity" "unat capacity \<le> 96" "length (takeWhile (\<lambda>c. c \<noteq> NUL) fs) < R4NV_FORMAT_LIMIT"
    and expected: "i < 6" "format_regions f [] [] ! i = (a, text_bytes (take (unat capacity - 1) s) @ [0])" "2 \<le> i"
    and n: "n = int (length s)"
  obtains m' ds' where "\<And>line st continue. format_check (into_buffer (ff_data f) (\<lambda>d. r4nv_vformat d capacity (Some fs) args) m) n (\<lambda>m. r4nv_string_compare m (ff_data f) a) line st continue = continue m'"
    "layout m' (format_regions f ds' ps)" "length ds' = 96"
proof -
  let ?print = "\<lambda>d. r4nv_vformat d capacity (Some fs) args"
  let ?d = "buffer_after (unat capacity) (bytes_text ds) s"
  let ?t = "text_bytes (take (unat capacity - 1) s)"
  have pos: "0 < unat capacity" using cap(1) by (simp add: unat_gt_0 word_greater_zero_iff)
  have d: "length ?d = 96" using assms(2) cap(2) pos by (simp add: buffer_after_def)
  have "?print (Some (bytes_text ds)) = Some (n, Some ?d)"
    using vformat_text [OF _ _ cap(3), of capacity "bytes_text ds" args] prints cap(2) assms(2) n by simp
  then obtain m' where m': "into_buffer (ff_data f) ?print m = Some (n, m')" "layout m' (format_regions f (text_bytes ?d) ps)"
    using into_buffer_prints [OF assms(1,2), of ?print, OF _ d] by blast
  have t0: "0 \<notin> set ?t" using prints(2) set_take_subset [of "unat capacity - 1" s] by (auto simp: text_bytes_zero)
  have "text_bytes ?d = ?t @ 0 # text_bytes (drop (min (length s) (unat capacity - 1) + 1) (bytes_text ds))"
    using pos by (simp add: buffer_after_def)
  then have "cstring m' (ff_data f) ?t"
    using layout_holds [OF m'(2), of 0 "ff_data f" "text_bytes ?d"] holds_cstring [OF _ t0] by (simp add: format_regions_def)
  moreover have "format_regions f (text_bytes ?d) ps ! i = (a, ?t @ [0])"
    using expected by (auto simp: format_regions_def less_Suc_eq numeral_eq_Suc)
  then have "Rm_Regions.holds m' a (?t @ [0])"
    using layout_holds [OF m'(2), of i] expected(1) by (simp add: format_regions_def)
  then have "cstring m' a ?t" using holds_cstring [OF _ t0, of m' a "[]"] by simp
  ultimately have "r4nv_string_compare m' (ff_data f) a = Some 0" by (rule cstring_compare_eq)
  then have "format_check (into_buffer (ff_data f) (\<lambda>d. r4nv_vformat d capacity (Some fs) args) m) n (\<lambda>m. r4nv_string_compare m (ff_data f) a) line st continue = continue m'" for line st continue
    by (simp add: format_check_def m'(1))
  then show thesis using that m'(2) d by (metis text_bytes_simps(1))
qed

text \<open>The texts of the four prints.\<close>

lemma print_limits:
  "fmt_text (Some []) ''%lld/%#llx'' [ArgLong 0x8000000000000000, ArgLong 0xfedcba9876543210]
     (length (takeWhile (\<lambda>c. c \<noteq> NUL) ''%lld/%#llx'') + 1) = Some (Some limits_text)"
  by code_simp

lemma print_cut:
  "fmt_text (Some []) ''%08x'' [ArgInt 0x79] (length (takeWhile (\<lambda>c. c \<noteq> NUL) ''%08x'') + 1) = Some (Some ''00000079'')"
  by code_simp

lemma print_sizes:
  "fmt_text (Some []) ''%zu/%hhu/%.*s'' [ArgLong 0x100000001, ArgInt 255, ArgInt 3, ArgPtr 1 ''abcde'']
     (length (takeWhile (\<lambda>c. c \<noteq> NUL) ''%zu/%hhu/%.*s'') + 1) = Some (Some sizes_text)"
  by code_simp

lemma print_signed:
  "fmt_text (Some []) ''%*.*d'' [ArgInt (- 8), ArgInt 4, ArgInt (- 12)]
     (length (takeWhile (\<lambda>c. c \<noteq> NUL) ''%*.*d'') + 1) = Some (Some ''-0012   '')"
  by code_simp

lemmas print_texts = print_limits print_cut print_sizes print_signed

text \<open>The print of \<^verbatim>\<open>%n\<close> is refused: the buffer is emptied and nothing is written behind the pointer.\<close>

lemma percent_n_refused:
  assumes "length d = 96"
  obtains d' where "os_snprintf (Some d) 96 (Some ''%n'') [ArgPtr a u] = Some (- 1, Some d')" "length d' = 96" "d' ! 0 = NUL"
proof -
  have "fmt_directive ''n'' args n = Some (None, [], args, n)" for args n
    by (simp add: fmt_directive_def fmt_width_def fmt_precision_def fmt_length_def peek_def is_digit_def no_spec_def
        fmt_conversion_def)
  then have "fmt_text (Some []) ''%n'' [ArgPtr a u] n = Some None" for n
    by (simp add: fmt_text.simps [of "Some []"] peek_def)
  then show thesis
    using vformat_text [of 96 d "''%n''" "[ArgPtr a u]"] assms that by (auto simp: os_snprintf_def os_vsnprintf_def)
qed

section \<open>The messages\<close>

text \<open>A number in the middle of a format: its digits are appended.\<close>

lemma fmt_text_unsigned:
  obtains t where "list_all is_digit t" "digits_value 10 (rev t) = unat (w :: NvU32)" "length t \<le> 64"
    "\<And>s fs args n. length s + 64 \<le> INT_MAX \<Longrightarrow>
       fmt_text (Some s) (''%u'' @ fs) (ArgInt w # args) n = fmt_text (Some (s @ t)) fs args n"
proof -
  define spec where "spec = no_spec\<lparr>f_width := 0\<rparr>"
  have spec: "f_left spec = False" "f_zero spec = False" "f_precise spec = False" "f_width spec = 0"
    "f_alternate spec = False" "f_length spec = R4NV_INT"
    by (simp_all add: spec_def no_spec_def)
  obtain ps t where u: "number_pieces spec (CHR ''u'') 10 (ucast w) None [] = Some (Some ps)"
    "concat (map piece_text ps) = t" "list_all is_digit t" "digits_value 10 (rev t) = unat (ucast w :: NvU64)"
    "length t \<le> 64"
    using plain_number [OF spec(1-5), of 10 "CHR ''u''" "ucast w" None] by auto
  have "fmt_directive (CHR ''u'' # fs) args n = fmt_conversion spec (CHR ''u'') fs args n" for fs args n
    by (simp add: fmt_directive_def fmt_width_def fmt_precision_def fmt_length_def peek_def is_digit_def no_spec_def spec_def)
  then have "fmt_directive (CHR ''u'' # fs) (ArgInt w # args) n = Some (Some ps, fs, args, n)" for fs args n
    using u(1) spec by (simp add: fmt_conversion_def r4nv_fmt_unsigned_def)
  then have "fmt_text (Some s) (''%u'' @ fs) (ArgInt w # args) n = fmt_text (Some (s @ t)) fs args n"
    if "length s + 64 \<le> INT_MAX" for s fs args n
    using foldl_add_text [of s "map piece_text ps"] u(2,5) that by (simp add: fmt_text.simps [of "Some s"] peek_def)
  then show thesis using that u(3-5) by (simp add: unat_ucast_NvU32)
qed

lemma value_directive: "map_option (\<lambda>(ps, rest). (map_option (\<lambda>ps. concat (map piece_text ps)) ps, rest))
    (fmt_directive ''016llx'' [ArgLong 0xfedcba9876543210] 50) = Some (Some ''fedcba9876543210'', [], [], 50)"
  by code_simp

lemma fmt_text_value:
  assumes "length s \<le> 1000"
  shows "fmt_text (Some s) ''%016llx'' [ArgLong 0xfedcba9876543210] 50 = Some (Some (s @ ''fedcba9876543210''))"
proof -
  obtain ps where ps: "fmt_directive ''016llx'' [ArgLong 0xfedcba9876543210] 50 = Some (Some ps, [], [], 50)"
    "concat (map piece_text ps) = ''fedcba9876543210''"
    using value_directive by (auto simp del: map_append concat_append)
  have "foldl add_text (Some s) (map piece_text ps) = Some (s @ ''fedcba9876543210'')"
    using foldl_add_text [of s "map piece_text ps"] assms ps(2) by simp
  then show ?thesis
    using ps(1) by (simp add: fmt_text.simps [of "Some s"] fmt_text.simps [of "Some (_ @ _)"] peek_def)
qed

lemma is_digit_no_NUL: "list_all is_digit t \<Longrightarrow> NUL \<notin> set t"
  by (auto simp: list_all_iff is_digit_def)

lemma log_text_short: "NUL \<notin> set s \<Longrightarrow> length s < 512 \<Longrightarrow> log_text s = s"
  by (simp add: log_text_def takeWhile_eq_all_conv) metis

text \<open>The records of the probe, with the digits of the seed.\<close>

definition probe_records :: "string \<Rightarrow> (NvU32 \<times> string) list" where
  "probe_records t =
     [(0, ''NVIDIA native-log-check: context='' @ t @ '' value=fedcba9876543210''),
      (0, ''NVIDIA native-log-check: literal=100% complete''),
      (2, ''NVIDIA native-log-check: severity=error context='' @ t),
      (1, ''NVIDIA modeset: GPU-check: native-log-check severity=warning'')]"

definition logged :: "log_state \<Rightarrow> (NvU32 \<times> string) list \<Rightarrow> log_state" where
  "logged st rs = st\<lparr>l_sent := l_sent st @ rs, l_records := l_records st + of_nat (length rs)\<rparr>"

lemma submit_logged: "submit (logged st rs) sev t = logged st (rs @ [(sev, t)])" "logged st [] = st"
  by (simp_all add: submit_def logged_def)

text \<open>What the two formatting entry points do with a text that fits.\<close>

lemma printed_record:
  assumes "length b = 512" "length (takeWhile (\<lambda>c. c \<noteq> NUL) fs) < R4NV_FORMAT_LIMIT"
    "fmt_text (Some []) fs args (length (takeWhile (\<lambda>c. c \<noteq> NUL) fs) + 1) = Some (Some s)" "NUL \<notin> set s" "length s < 512"
  shows "l_api st \<Longrightarrow> l_debug_level st = 0 \<Longrightarrow> nv_printf b st 0 (Some fs) args = Some (int (length s), submit st 0 s)"
    "\<not> l_api st \<Longrightarrow> l_debug_level st = 0 \<Longrightarrow> nv_printf b st 0 (Some fs) args = Some (- 1, st)"
    "l_api st \<Longrightarrow> os_log_error b st (Some fs) args = Some (submit st 2 s)"
proof -
  obtain count d where f: "r4nv_vformat (Some b) 512 (Some fs) args = Some (count, Some d)"
    "count < 0 \<longleftrightarrow> Some s = None" "takeWhile (\<lambda>c. c \<noteq> NUL) (r4nv_log_finish d count) = log_record (Some s)"
    using format_log_recordE [OF assms(1-3)] by blast
  have r: "log_record (Some s) = s" using log_text_short [OF assms(4,5)] by (simp add: log_record_def)
  note sent = log_formatted [OF _ _ f(3), unfolded r]
  show "l_api st \<Longrightarrow> l_debug_level st = 0 \<Longrightarrow> nv_printf b st 0 (Some fs) args = Some (int (length s), submit st 0 s)"
    using f(1,2) sent [of st 0] by (simp add: nv_printf_def os_vsnprintf_def severity_def)
  show "\<not> l_api st \<Longrightarrow> l_debug_level st = 0 \<Longrightarrow> nv_printf b st 0 (Some fs) args = Some (- 1, st)"
    using f(1,2) by (simp add: nv_printf_def os_vsnprintf_def r4nv_log_def)
  show "l_api st \<Longrightarrow> os_log_error b st (Some fs) args = Some (submit st 2 s)"
    using f(1,2) sent [of st 2] by (simp add: os_log_error_def os_vsnprintf_def)
qed

lemma probe_messages_sent:
  assumes "length b1 = 512" "length b2 = 512" "length b3 = 512"
  obtains t where "list_all is_digit t" "digits_value 10 (rev t) = unat seed"
    "probe_messages b1 b2 b3 seed m st =
       Some (if l_api st then 0 else - 36, m, logged (st\<lparr>l_debug_level := 0\<rparr>) (if l_api st then probe_records t else []))"
proof -
  obtain t where t: "list_all is_digit t" "digits_value 10 (rev t) = unat seed" "length t \<le> 64"
    and u: "\<And>s fs args n. length s + 64 \<le> INT_MAX \<Longrightarrow>
       fmt_text (Some s) (''%u'' @ fs) (ArgInt seed # args) n = fmt_text (Some (s @ t)) fs args n"
    using fmt_text_unsigned [of seed] by blast
  define st0 where "st0 = st\<lparr>l_debug_level := 0\<rparr>"
  have st0: "l_debug_level st0 = 0" "l_api st0 = l_api st" by (simp_all add: st0_def)
  let ?p = "''NVIDIA native-log-check: context=''" and ?e = "''NVIDIA native-log-check: severity=error context=''"
  have p: "fmt_text (Some []) (?p @ ''%u'' @ '' value='' @ ''%016llx'') [ArgInt seed, ArgLong 0xfedcba9876543210] 50 =
      Some (Some (?p @ t @ '' value=fedcba9876543210''))"
    using fmt_text_literal [of ?p "[]" "''%u'' @ '' value='' @ ''%016llx''" "[ArgInt seed, ArgLong 0xfedcba9876543210]" 50]
      u [of ?p "'' value='' @ ''%016llx''" "[ArgLong 0xfedcba9876543210]" 50]
      fmt_text_literal [of "'' value=''" "?p @ t" "''%016llx''" "[ArgLong 0xfedcba9876543210]" 50]
      fmt_text_value [of "?p @ t @ '' value=''"] t(3)
    by simp
  have e: "fmt_text (Some []) (?e @ ''%u'') [ArgInt seed] 51 = Some (Some (?e @ t))"
    using fmt_text_literal [of ?e "[]" "''%u''" "[ArgInt seed]" 51] u [of ?e "[]" "[]" 51]
    by (simp add: fmt_text.simps [of _ "[]"] peek_def)
  have no: "NUL \<notin> set (?p @ t @ '' value=fedcba9876543210'')" "NUL \<notin> set (?e @ t)"
    using is_digit_no_NUL [OF t(1)] by auto
  let ?pf = "''NVIDIA native-log-check: context=%u value=%016llx''" and ?ef = "''NVIDIA native-log-check: severity=error context=%u''"
  have len: "length (takeWhile (\<lambda>c. c \<noteq> NUL) ?pf) = 49" "length (takeWhile (\<lambda>c. c \<noteq> NUL) ?ef) = 50" by simp_all
  have "fmt_text (Some []) ?pf [ArgInt seed, ArgLong 0xfedcba9876543210] (length (takeWhile (\<lambda>c. c \<noteq> NUL) ?pf) + 1) =
      Some (Some (?p @ t @ '' value=fedcba9876543210''))"
    using p unfolding len by simp
  then have first: "l_api st0 \<Longrightarrow> nv_printf b1 st0 0 (Some ?pf) [ArgInt seed, ArgLong 0xfedcba9876543210] =
        Some (int (length (?p @ t @ '' value=fedcba9876543210'')), submit st0 0 (?p @ t @ '' value=fedcba9876543210''))"
      "\<not> l_api st0 \<Longrightarrow> nv_printf b1 st0 0 (Some ?pf) [ArgInt seed, ArgLong 0xfedcba9876543210] = Some (- 1, st0)"
    using printed_record(1,2) [OF assms(1) _ _ no(1), of ?pf "[ArgInt seed, ArgLong 0xfedcba9876543210]" st0] len(1) st0(1) t(3)
    by simp_all
  have "fmt_text (Some []) ?ef [ArgInt seed] (length (takeWhile (\<lambda>c. c \<noteq> NUL) ?ef) + 1) = Some (Some (?e @ t))"
    using e unfolding len by simp
  then have error: "os_log_error b2 st' (Some ?ef) [ArgInt seed] = Some (submit st' 2 (?e @ t))" if "l_api st'" for st'
    using printed_record(3) [OF assms(2) _ _ no(2), of ?ef "[ArgInt seed]" st'] len(2) t(3) that by simp
  show thesis
  proof (cases "l_api st")
    case False
    then have "probe_messages b1 b2 b3 seed m st = Some (- 36, m, st0)"
      using first(2) st0
      by (simp add: probe_messages_def os_dbg_set_level_def st0_def)
    then show ?thesis using that [OF t(1,2)] False by (simp add: submit_logged st0_def)
  next
    case True
    have o: "out_string st' (Some ''NVIDIA native-log-check: literal=100% complete'') =
        submit st' 0 ''NVIDIA native-log-check: literal=100% complete''" if "l_api st'" for st'
      using r4nv_log_submit [OF that, of 0 "''NVIDIA native-log-check: literal=100% complete''"] by (simp add: out_string_def)
    have w: "nvkms_log b3 st' 1 (Some ''GPU-check: '') (Some ''native-log-check severity=warning'') =
        Some (submit st' 1 ''NVIDIA modeset: GPU-check: native-log-check severity=warning'')" if "l_api st'" for st'
      using nvkms_log_correct [OF that assms(3), of "''GPU-check: ''" "''native-log-check severity=warning''" 1]
        log_text_short [of "''NVIDIA modeset: GPU-check: native-log-check severity=warning''"] by simp
    have api: "l_api (submit st' sev s) = l_api st'" for st' sev s by (simp add: submit_def)
    have "probe_messages b1 b2 b3 seed m st =
        Some (0, m, submit (submit (submit (submit st0 0 (?p @ t @ '' value=fedcba9876543210'')) 0
          ''NVIDIA native-log-check: literal=100% complete'') 2 (?e @ t)) 1 ''NVIDIA modeset: GPU-check: native-log-check severity=warning'')"
      using True st0
      by (simp add: probe_messages_def probe_error_def os_dbg_set_level_def st0_def [symmetric] first(1) o error w api)
    also have "submit (submit (submit (submit st0 0 (?p @ t @ '' value=fedcba9876543210'')) 0
          ''NVIDIA native-log-check: literal=100% complete'') 2 (?e @ t)) 1 ''NVIDIA modeset: GPU-check: native-log-check severity=warning'' =
        logged st0 (probe_records t)"
      by (subst submit_logged(2) [of st0, symmetric]) (simp add: submit_logged(1) probe_records_def)
    finally show ?thesis using that [OF t(1,2)] True by (simp add: st0_def)
  qed
qed

section \<open>The whole probe\<close>

lemma preserved_stored:
  assumes "layout m (format_regions f ds ps)" "length ps = 4" "length bs = 4"
  obtains m' where "store_bytes m (ff_preserved f) bs = Some m'" "layout m' (format_regions f ds bs)"
proof -
  have p: "Rm_Regions.holds m (ff_preserved f) ps"
    by (rule layout_holds [OF assms(1), of 1]) (simp_all add: format_regions_def)
  have "layout (put m (ff_preserved f + of_nat 0) bs) ((format_regions f ds ps)[1 := (ff_preserved f, patch 0 bs ps)])"
    by (rule layout_put [OF assms(1)]) (use assms(2,3) in \<open>simp_all add: format_regions_def\<close>)
  moreover have "patch 0 bs ps = bs" using assms(2,3) by (simp add: patch_def)
  ultimately have "layout (put m (ff_preserved f) bs) (format_regions f ds bs)" by (simp add: format_regions_def)
  moreover have "store_bytes m (ff_preserved f) bs = Some (put m (ff_preserved f) bs)"
    using holds_accessible [OF p, where k = 0 and n = 4] assms(2,3) by (simp add: store_bytes_put)
  ultimately show thesis by (rule that [rotated])
qed

lemma percent_n_passes:
  assumes "layout m (format_regions f ds [79, 0, 0, 0])" "length ds = 96" "length b1 = 512" "length b2 = 512" "length b3 = 512"
  obtains m' t where "list_all is_digit t" "digits_value 10 (rev t) = unat seed" "probe_percent_n f b1 b2 b3 seed m st =
       Some (if l_api st then 0 else - 36, m', logged (st\<lparr>l_debug_level := 0\<rparr>) (if l_api st then probe_records t else []))"
proof -
  obtain d where d: "os_snprintf (Some (bytes_text ds)) 96 (Some ''%n'') [ArgPtr (ff_preserved f) ''O''] = Some (- 1, Some d)"
    "length d = 96" "d ! 0 = NUL"
    using percent_n_refused [of "bytes_text ds"] assms(2) by auto
  obtain m' where m': "into_buffer (ff_data f) (\<lambda>d. os_snprintf d 96 (Some ''%n'') [ArgPtr (ff_preserved f) ''O'']) m = Some (- 1, m')"
    "layout m' (format_regions f (text_bytes d) [79, 0, 0, 0])"
    using into_buffer_prints [OF assms(1,2), of "\<lambda>d. os_snprintf d 96 (Some ''%n'') [ArgPtr (ff_preserved f) ''O'']", OF d(1,2)] by blast
  have "Rm_Regions.holds m' (ff_data f) (text_bytes d)"
    by (rule layout_holds [OF m'(2), of 0]) (simp_all add: format_regions_def)
  then have "m' (ff_data f) = Some 0"
    using holds_nth [of m' "ff_data f" "text_bytes d" 0] d(2,3) by (simp add: text_bytes_def)
  moreover have p: "Rm_Regions.holds m' (ff_preserved f) [79, 0, 0, 0]"
    by (rule layout_holds [OF m'(2), of 1]) (simp_all add: format_regions_def)
  then have "load_bytes m' (ff_preserved f) 4 = Some [79, 0, 0, 0]"
    using load_bytes_slice holds_accessible [OF p, where k = 0 and n = 4] holds_slice [OF p, where k = 0 and n = 4] by simp
  ultimately have "probe_percent_n f b1 b2 b3 seed m st = probe_messages b1 b2 b3 seed m' st"
    by (simp add: probe_percent_n_def m'(1))
  then show thesis using probe_messages_sent [OF assms(3-5), of seed m' st] that by metis
qed

lemmas print_adapters =
  os_snprintf_def os_vsnprintf_def nvkms_snprintf_def nvkms_vsnprintf_def probe_os_v_def probe_kms_v_def
  os_string_compare_def nvkms_strcmp_def

text \<open>
  C12: The driver's check of the formatter and the log. Whatever the buffers on the stack held and whatever the
  seed is, \<^verbatim>\<open>r4nv_format_probe\<close> touches only its own memory, and every formatter check passes: the most negative 64-bit
  integer, a truncated field, sizes and a bounded string, a star width and precision, and \<^verbatim>\<open>%n\<close>, which is refused without
  a write behind its pointer. With the log bound it returns 0 and has sent exactly four records in order, with the
  digits of the seed; without, it returns the line of the first message and sends nothing.
\<close>

theorem format_probe_sound:
  assumes "format_frame_ok f m" "length b1 = 512" "length b2 = 512" "length b3 = 512"
  shows "\<exists>m' t. list_all is_digit t \<and> digits_value 10 (rev t) = unat seed \<and>
    r4nv_format_probe f b1 b2 b3 seed m st =
      Some (if l_api st then 0 else - 36, m', logged (st\<lparr>l_debug_level := 0\<rparr>) (if l_api st then probe_records t else []))"
proof -
  obtain ds ps where ds: "length ds = 96" "length ps = 4" "layout m (format_regions f ds ps)"
    using assms(1) by (auto simp: format_frame_ok_def)
  obtain m0 where m0: "store_bytes m (ff_preserved f) [79, 0, 0, 0] = Some m0" "layout m0 (format_regions f ds [79, 0, 0, 0])"
    by (rule preserved_stored [OF ds(3,2), of "[79, 0, 0, 0]"]) simp_all
  obtain m1 ds1 where m1: "\<And>line st continue. format_check
      (into_buffer (ff_data f) (\<lambda>d. r4nv_vformat d 96 (Some ''%lld/%#llx'') [ArgLong 0x8000000000000000, ArgLong 0xfedcba9876543210]) m0) 39
      (\<lambda>m. r4nv_string_compare m (ff_data f) (ff_limits f)) line st continue = continue m1"
    "layout m1 (format_regions f ds1 [79, 0, 0, 0])" "length ds1 = 96"
    by (rule format_check_passes [OF m0(2) ds(1) print_texts(1), where capacity = 96 and i = 2 and a = "ff_limits f" and n = 39]) (simp_all add: format_regions_def)
  obtain m2 ds2 where m2: "\<And>line st continue. format_check
      (into_buffer (ff_data f) (\<lambda>d. r4nv_vformat d 5 (Some ''%08x'') [ArgInt 0x79]) m1) 8
      (\<lambda>m. r4nv_string_compare m (ff_data f) (ff_cut f)) line st continue = continue m2"
    "layout m2 (format_regions f ds2 [79, 0, 0, 0])" "length ds2 = 96"
    by (rule format_check_passes [OF m1(2,3) print_texts(2), where capacity = 5 and i = 3 and a = "ff_cut f" and n = 8]) (simp_all add: format_regions_def)
  obtain m3 ds3 where m3: "\<And>line st continue. format_check
      (into_buffer (ff_data f) (\<lambda>d. r4nv_vformat d 96 (Some ''%zu/%hhu/%.*s'') [ArgLong 0x100000001, ArgInt 255, ArgInt 3, ArgPtr 1 ''abcde'']) m2) 18
      (\<lambda>m. r4nv_string_compare m (ff_data f) (ff_sizes f)) line st continue = continue m3"
    "layout m3 (format_regions f ds3 [79, 0, 0, 0])" "length ds3 = 96"
    by (rule format_check_passes [OF m2(2,3) print_texts(3), where capacity = 96 and i = 4 and a = "ff_sizes f" and n = 18]) (simp_all add: format_regions_def)
  obtain m4 ds4 where m4: "\<And>line st continue. format_check
      (into_buffer (ff_data f) (\<lambda>d. r4nv_vformat d 96 (Some ''%*.*d'') [ArgInt (- 8), ArgInt 4, ArgInt (- 12)]) m3) 8
      (\<lambda>m. r4nv_string_compare m (ff_data f) (ff_signed f)) line st continue = continue m4"
    "layout m4 (format_regions f ds4 [79, 0, 0, 0])" "length ds4 = 96"
    by (rule format_check_passes [OF m3(2,3) print_texts(4), where capacity = 96 and i = 5 and a = "ff_signed f" and n = 8]) (simp_all add: format_regions_def)
  obtain m5 t where t: "list_all is_digit t" "digits_value 10 (rev t) = unat seed" "probe_percent_n f b1 b2 b3 seed m4 st =
       Some (if l_api st then 0 else - 36, m5, logged (st\<lparr>l_debug_level := 0\<rparr>) (if l_api st then probe_records t else []))"
    using percent_n_passes [OF m4(2,3) assms(2-4)] by metis
  have "r4nv_format_probe f b1 b2 b3 seed m st = probe_percent_n f b1 b2 b3 seed m4 st"
    by (simp add: r4nv_format_probe_def print_adapters Let_def m0(1) m1(1) m2(1) m3(1) m4(1) del: store_bytes.simps)
  then show ?thesis using t by auto
qed


text \<open>The frame at 4096.\<close>

definition sample_format_frame :: format_frame where
  "sample_format_frame = \<lparr>ff_data = 4096, ff_preserved = 4192, ff_limits = 4224, ff_cut = 4272, ff_sizes = 4288, ff_signed = 4320\<rparr>"

definition sample_format_memory :: memory where
  "sample_format_memory = put (put (put (put (\<lambda>x. Some 0) 4224 (text_bytes limits_text @ [0])) 4272 (text_bytes ''0000'' @ [0]))
     4288 (text_bytes sizes_text @ [0])) 4320 (text_bytes ''-0012   '' @ [0])"

lemma sample_format_frame_ok: "format_frame_ok sample_format_frame sample_format_memory"
proof -
  have apart: "span a n \<inter> span b k = {}" "span b k \<inter> span a n = {}" if "unat a + n \<le> unat b" "unat b + k \<le> 2 ^ 64" for a b n k
    using span_before [OF that] by auto
  have zero: "Rm_Regions.holds (\<lambda>x. Some 0) a (replicate n 0)" for a n by (simp add: Rm_Regions.holds_def)
  have "layout sample_format_memory (format_regions sample_format_frame (replicate 96 0) (replicate 4 0))"
    unfolding layout_def format_regions_def sample_format_frame_def sample_format_memory_def region_span_def
    using zero holds_put_all
    by (simp add: All_less_Suc2 apart holds_put_other)
  then show ?thesis unfolding format_frame_ok_def by (intro exI [of _ "replicate 96 0"] exI [of _ "replicate 4 0"]) simp
qed

theorem format_probe_sound_witness:
  "\<exists>m' t. list_all is_digit t \<and> digits_value 10 (rev t) = 7 \<and>
    r4nv_format_probe sample_format_frame (replicate 512 (CHR ''z'')) (replicate 512 (CHR ''y'')) (replicate 512 (CHR ''x'')) 7 sample_format_memory
      \<lparr>l_api = True, l_records = 0, l_sent = [], l_debug_level = 0xFFFFFFFF\<rparr> =
      Some (0, m', \<lparr>l_api = True, l_records = 4, l_sent = probe_records t, l_debug_level = 0\<rparr>)"
  using format_probe_sound [OF sample_format_frame_ok, of "replicate 512 (CHR ''z'')" "replicate 512 (CHR ''y'')" "replicate 512 (CHR ''x'')" 7
      "\<lparr>l_api = True, l_records = 0, l_sent = [], l_debug_level = 0xFFFFFFFF\<rparr>"]
  by (simp add: logged_def probe_records_def)

end
