(* ===== verification/Nv_Bits.thy ===== *)
theory Nv_Bits
  imports Prelude
begin
unbundle bit_operations_syntax

text \<open>
  The bit tricks of NVIDIA's \<^verbatim>\<open>nvmisc.h\<close>, which every file of the resource manager and of the compression
  generator includes: population counts, bit positions, powers of two, the walk over a mask, alignment.
  Each is compared with what it computes. Shifts by the width of the type or more are undefined in C; the
  statements keep below it.
\<close>

section \<open>Definitions\<close>

definition NVBIT64 :: "nat \<Rightarrow> NvU64" where
  "NVBIT64 b = push_bit b 1"

definition NV_CONCAT_32_TO_64 :: "NvU32 \<Rightarrow> NvU32 \<Rightarrow> NvU64" where
  "NV_CONCAT_32_TO_64 hi lo = push_bit 32 (ucast hi) OR ucast lo"

text \<open>Channel masks: an array of 32-bit elements.\<close>

definition NV_BITMASK32_IDX :: "NvU32 \<Rightarrow> NvU32" where
  "NV_BITMASK32_IDX chId = drop_bit 5 (chId AND NOT 0x1F)"

definition NV_BITMASK32_OFFSET :: "NvU32 \<Rightarrow> NvU32" where
  "NV_BITMASK32_OFFSET chId = chId AND 0x1F"

definition NV_BITMASK32_SET :: "NvU32 list \<Rightarrow> NvU32 \<Rightarrow> NvU32 list" where
  "NV_BITMASK32_SET msk chId =
     (let i = unat (NV_BITMASK32_IDX chId) in msk[i := msk ! i OR push_bit (unat (NV_BITMASK32_OFFSET chId)) 1])"

definition NV_BITMASK32_GET :: "NvU32 list \<Rightarrow> NvU32 \<Rightarrow> NvU32" where
  "NV_BITMASK32_GET msk chId = msk ! unat (NV_BITMASK32_IDX chId) AND push_bit (unat (NV_BITMASK32_OFFSET chId)) 1"

definition BIT_IDX_32 :: "NvU32 \<Rightarrow> NvU32" where
  "BIT_IDX_32 n =
     (if n AND 0xFFFF0000 \<noteq> 0 then 0x10 else 0) OR (if n AND 0xFF00FF00 \<noteq> 0 then 0x08 else 0) OR
     (if n AND 0xF0F0F0F0 \<noteq> 0 then 0x04 else 0) OR (if n AND 0xCCCCCCCC \<noteq> 0 then 0x02 else 0) OR
     (if n AND 0xAAAAAAAA \<noteq> 0 then 0x01 else 0)"

definition BIT_IDX_64 :: "NvU64 \<Rightarrow> NvU32" where
  "BIT_IDX_64 n =
     (if n AND 0xFFFFFFFF00000000 \<noteq> 0 then 0x20 else 0) OR (if n AND 0xFFFF0000FFFF0000 \<noteq> 0 then 0x10 else 0) OR
     (if n AND 0xFF00FF00FF00FF00 \<noteq> 0 then 0x08 else 0) OR (if n AND 0xF0F0F0F0F0F0F0F0 \<noteq> 0 then 0x04 else 0) OR
     (if n AND 0xCCCCCCCCCCCCCCCC \<noteq> 0 then 0x02 else 0) OR (if n AND 0xAAAAAAAAAAAAAAAA \<noteq> 0 then 0x01 else 0)"

definition NV_TWO_N_MINUS_ONE :: "nat \<Rightarrow> NvU64" where
  "NV_TWO_N_MINUS_ONE n = push_bit ((n + 1) div 2) (push_bit (n div 2) 1) - 1"

definition NV_BITMASK64 :: "int \<Rightarrow> NvU64" where
  "NV_BITMASK64 n = (if n < 1 then 0 else drop_bit (if n > 64 then 0 else nat (64 - n)) 0xFFFFFFFFFFFFFFFF)"

definition LOWESTBIT :: "'a::len word \<Rightarrow> 'a word" where
  "LOWESTBIT x = x AND ((x - 1) XOR x)"

definition LOWESTBITIDX_32 :: "NvU32 \<Rightarrow> NvU32" where
  "LOWESTBITIDX_32 n32 = BIT_IDX_32 (LOWESTBIT n32)"

definition LOWESTBITIDX_64 :: "NvU64 \<Rightarrow> NvU32" where
  "LOWESTBITIDX_64 n64 = BIT_IDX_64 (LOWESTBIT n64)"

text \<open>The loop of \<^verbatim>\<open>HIGHESTBITIDX_32\<close>: shift until nothing is left.\<close>

function highest_loop :: "NvU32 \<Rightarrow> NvU32 \<Rightarrow> NvU32" where
  "highest_loop n32 count = (let n32 = drop_bit 1 n32 in if n32 \<noteq> 0 then highest_loop n32 (count + 1) else count)"
  by pat_completeness auto

termination
proof (relation "measure (\<lambda>(n32, count). unat n32)", goal_cases)
  case (2 n32 count x)
  have "n32 \<noteq> 0" using 2 by auto
  then have "unat n32 \<noteq> 0" by (simp add: unat_eq_zero_iff)
  then show ?case using 2 by (simp add: unat_drop_bit_eq drop_bit_eq_div)
qed simp

declare highest_loop.simps [simp del]

definition HIGHESTBITIDX_32 :: "NvU32 \<Rightarrow> NvU32" where
  "HIGHESTBITIDX_32 n32 = highest_loop n32 0"

definition HIGHESTBIT :: "NvU32 \<Rightarrow> NvU32" where
  "HIGHESTBIT n32 = push_bit (unat (HIGHESTBITIDX_32 n32)) 1"

definition nvPopCount32 :: "NvU32 \<Rightarrow> NvU32" where
  "nvPopCount32 x =
     (let temp = x;
          temp = temp - (drop_bit 1 temp AND 0x55555555);
          temp = (temp AND 0x33333333) + (drop_bit 2 temp AND 0x33333333);
          temp = drop_bit 24 (((temp + drop_bit 4 temp) AND 0x0F0F0F0F) * 0x01010101)
      in temp)"

definition nvPopCount64 :: "NvU64 \<Rightarrow> NvU32" where
  "nvPopCount64 x =
     (let temp = x;
          temp = temp - (drop_bit 1 temp AND 0x5555555555555555);
          temp = (temp AND 0x3333333333333333) + (drop_bit 2 temp AND 0x3333333333333333);
          temp = (temp + drop_bit 4 temp) AND 0x0F0F0F0F0F0F0F0F;
          temp = drop_bit 56 (temp * 0x0101010101010101)
      in ucast temp)"

definition nvMaskPos32 :: "NvU32 \<Rightarrow> NvU32 \<Rightarrow> NvU32" where
  "nvMaskPos32 msk bitIdx = nvPopCount32 (msk AND (push_bit (unat bitIdx) 1 - 1))"

definition nvNextPow2_U32 :: "NvU32 \<Rightarrow> NvU32" where
  "nvNextPow2_U32 x =
     (let y = x - 1; y = y OR drop_bit 1 y; y = y OR drop_bit 2 y; y = y OR drop_bit 4 y; y = y OR drop_bit 8 y;
          y = y OR drop_bit 16 y in y + 1)"

definition nvPrevPow2_U32 :: "NvU32 \<Rightarrow> NvU32" where
  "nvPrevPow2_U32 x =
     (let y = x; y = y OR drop_bit 1 y; y = y OR drop_bit 2 y; y = y OR drop_bit 4 y; y = y OR drop_bit 8 y;
          y = y OR drop_bit 16 y in y - drop_bit 1 y)"

definition nvPrevPow2_U64 :: "NvU64 \<Rightarrow> NvU64" where
  "nvPrevPow2_U64 x =
     (let y = x; y = y OR drop_bit 1 y; y = y OR drop_bit 2 y; y = y OR drop_bit 4 y; y = y OR drop_bit 8 y;
          y = y OR drop_bit 16 y; y = y OR drop_bit 32 y in y - drop_bit 1 y)"

definition ROUNDUP_POW2_U64 :: "NvU64 \<Rightarrow> NvU64" where
  "ROUNDUP_POW2_U64 n64 =
     (let n = n64 - 1; n = n OR drop_bit 1 n; n = n OR drop_bit 2 n; n = n OR drop_bit 4 n; n = n OR drop_bit 8 n;
          n = n OR drop_bit 16 n; n = n OR drop_bit 32 n in n + 1)"

text \<open>
  \<^verbatim>\<open>FOR_EACH_INDEX_IN_MASK\<close>: the body runs with each index whose bit is set. It is a function from the index
  and the state to a result, when it leaves the loop, or the new state.
\<close>

function for_each_index :: "(nat \<Rightarrow> 's \<Rightarrow> 'r + 's) \<Rightarrow> nat \<Rightarrow> 'a::len word \<Rightarrow> 's \<Rightarrow> 'r + 's" where
  "for_each_index body index lclMsk s =
     (if lclMsk \<noteq> 0 then
        (case (if 1 AND lclMsk = 0 then Inr s else body index s) of
           Inl r \<Rightarrow> Inl r
         | Inr s \<Rightarrow> for_each_index body (index + 1) (drop_bit 1 lclMsk) s)
      else Inr s)"
  by pat_completeness auto

termination
proof (relation "measure (\<lambda>(body, index, lclMsk, s). unat lclMsk)", goal_cases)
  case (2 body index lclMsk s x)
  have "unat lclMsk \<noteq> 0" using 2 by (simp add: unat_eq_zero_iff)
  then show ?case using 2 by (simp add: unat_drop_bit_eq drop_bit_eq_div)
qed simp

declare for_each_index.simps [simp del]

definition nvGetNthSetBitIndex32 :: "NvU32 \<Rightarrow> NvU32 \<Rightarrow> int" where
  "nvGetNthSetBitIndex32 msk n =
     (case for_each_index (\<lambda>index seen. if seen = n then Inl (int index) else Inr (seen + 1)) 0 msk (0 :: NvU32) of
        Inl index \<Rightarrow> index
      | Inr seen \<Rightarrow> - 1)"

section \<open>Numbers as rows of fields\<close>

text \<open>A number whose \<open>k\<close>-bit fields are the given ones, the lowest first.\<close>

primrec fields :: "nat \<Rightarrow> nat list \<Rightarrow> nat" where
  "fields k [] = 0"
| "fields k (c # cs) = c + 2 ^ k * fields k cs"

fun evens :: "nat list \<Rightarrow> nat list" where
  "evens (x # y # zs) = x # evens zs"
| "evens xs = xs"

fun odds :: "nat list \<Rightarrow> nat list" where
  "odds (x # y # zs) = y # odds zs"
| "odds xs = []"

fun pair_sums :: "nat list \<Rightarrow> nat list" where
  "pair_sums (x # y # zs) = (x + y) # pair_sums zs"
| "pair_sums xs = xs"

fun neighbours :: "nat list \<Rightarrow> nat list" where
  "neighbours (x # y # zs) = (x + y) # neighbours (y # zs)"
| "neighbours xs = xs"

lemma fields_lt: "list_all (\<lambda>c. c < 2 ^ k) cs \<Longrightarrow> fields k cs < 2 ^ (k * length cs)"
proof (induction cs)
  case (Cons c cs)
  then have "fields k cs + 1 \<le> 2 ^ (k * length cs)" "c < 2 ^ k" by auto
  then have "2 ^ k * (fields k cs + 1) \<le> 2 ^ k * 2 ^ (k * length cs)" by (intro mult_le_mono2)
  with \<open>c < 2 ^ k\<close> show ?case by (simp add: power_add algebra_simps)
qed simp

text \<open>Bitwise conjunction field by field.\<close>

lemma and_fields:
  fixes a b x y :: nat
  assumes "a < 2 ^ k" "b < 2 ^ k"
  shows "(a + 2 ^ k * x) AND (b + 2 ^ k * y) = (a AND b) + 2 ^ k * (x AND y)"
proof -
  have split: "c + 2 ^ k * z = push_bit k z OR take_bit k c" if "c < 2 ^ k" for c z :: nat
  proof -
    have "push_bit k z + take_bit k c = push_bit k z OR take_bit k c"
      by (rule disjunctive_add) (simp add: bit_simps)
    then show ?thesis using that by (simp add: push_bit_eq_mult take_bit_nat_eq_self mult.commute add.commute)
  qed
  have "a AND b < 2 ^ k" 
    using assms by (metis take_bit_and take_bit_nat_eq_self take_bit_nat_less_exp)
  then show ?thesis
    unfolding split [OF assms(1)] split [OF assms(2)] split [OF \<open>a AND b < 2 ^ k\<close>]
    by (intro bit_eqI) (auto simp: bit_simps)
qed

text \<open>The mask that keeps every other field.\<close>

abbreviation every_other :: "nat \<Rightarrow> nat \<Rightarrow> nat" where
  "every_other k n \<equiv> fields (2 * k) (replicate n (2 ^ k - 1))"

lemma power_double: "(2 :: nat) ^ (2 * k) = 2 ^ k * 2 ^ k"
  by (simp add: mult_2 power_add)

lemma fields_pair: "fields k (c # d # cs) = (c + 2 ^ k * d) + 2 ^ (2 * k) * fields k cs"
  unfolding power_double by (simp add: algebra_simps)

lemma low_field: "c < 2 ^ k \<Longrightarrow> (c + 2 ^ k * d) AND (2 ^ k - 1) = (c :: nat)"
  unfolding mask_eq_exp_minus_1 [symmetric] take_bit_eq_mask [symmetric] by (simp add: take_bit_eq_mod)

lemma pair_lt: "c < 2 ^ k \<Longrightarrow> d < 2 ^ k \<Longrightarrow> c + 2 ^ k * d < (2 :: nat) ^ (2 * k)"
  using fields_lt [of k "[c, d]"] by (simp add: mult_2)

lemma mask_lt: "2 ^ k - 1 < (2 :: nat) ^ (2 * k)"
proof -
  have "(2 :: nat) ^ k \<le> 2 ^ (2 * k)" by (rule power_increasing) simp_all
  then show ?thesis using zero_less_power [of "2 :: nat" k] by linarith
qed

lemma and_even_fields:
  "length cs = 2 * n \<Longrightarrow> list_all (\<lambda>c. c < 2 ^ k) cs \<Longrightarrow> fields k cs AND every_other k n = fields (2 * k) (evens cs)"
proof (induction cs arbitrary: n rule: evens.induct)
  case (1 c d cs)
  then obtain m where n: "n = Suc m" "length cs = 2 * m" by (cases n) auto
  have "fields k (c # d # cs) AND every_other k n =
      ((c + 2 ^ k * d) AND (2 ^ k - 1)) + 2 ^ (2 * k) * (fields k cs AND every_other k m)"
    unfolding fields_pair n(1) replicate_Suc fields.simps(2) [of "2 * k"] using 1(3) by (intro and_fields pair_lt mask_lt) auto
  also have "(c + 2 ^ k * d) AND (2 ^ k - 1) = c" using 1(3) by (intro low_field) simp
  finally show ?case using 1 n by simp
qed auto

lemma drop_field: "c < 2 ^ k \<Longrightarrow> drop_bit k (fields k (c # cs)) = fields k cs"
  by (simp add: drop_bit_eq_div)

lemma and_odd_fields:
  "length cs = 2 * n \<Longrightarrow> list_all (\<lambda>c. c < 2 ^ k) cs \<Longrightarrow>
   drop_bit k (fields k cs) AND every_other k n = fields (2 * k) (odds cs)"
proof (induction cs arbitrary: n rule: odds.induct)
  case (1 c d cs)
  then obtain m where n: "n = Suc m" "length cs = 2 * m" by (cases n) auto
  have rest: "fields k cs = fields k cs mod 2 ^ k + 2 ^ k * drop_bit k (fields k cs)"
    by (simp add: drop_bit_eq_div)
  have "drop_bit k (fields k (c # d # cs)) = d + 2 ^ k * fields k cs" using 1(3) by (subst drop_field) auto
  also have "\<dots> = (d + 2 ^ k * (fields k cs mod 2 ^ k)) + 2 ^ (2 * k) * drop_bit k (fields k cs)"
    unfolding power_double by (subst rest) (simp add: algebra_simps)
  finally have "drop_bit k (fields k (c # d # cs)) AND every_other k n =
      ((d + 2 ^ k * (fields k cs mod 2 ^ k)) AND (2 ^ k - 1)) + 2 ^ (2 * k) * (drop_bit k (fields k cs) AND every_other k m)"
    unfolding n(1) replicate_Suc fields.simps(2) [of "2 * k"] using 1(3) by (simp only:) (intro and_fields pair_lt mask_lt, auto)
  also have "(d + 2 ^ k * (fields k cs mod 2 ^ k)) AND (2 ^ k - 1) = d" using 1(3) by (intro low_field) simp
  finally show ?case using 1 n by simp
qed auto

lemma fields_evens_odds: "even (length cs) \<Longrightarrow> fields k cs = fields (2 * k) (evens cs) + 2 ^ k * fields (2 * k) (odds cs)"
proof (induction cs rule: evens.induct)
  case (1 c d cs)
  then show ?case unfolding evens.simps odds.simps fields.simps power_double by (simp add: algebra_simps)
qed auto

lemma fields_pair_sums: "even (length cs) \<Longrightarrow> fields k (evens cs) + fields k (odds cs) = fields k (pair_sums cs)"
  by (induction cs rule: pair_sums.induct) (auto simp: distrib_left [symmetric])

lemma pair_sums_facts:
  "even (length cs) \<Longrightarrow> length (pair_sums cs) = length cs div 2" "sum_list (pair_sums cs) = sum_list cs"
  "list_all (\<lambda>c. c \<le> b) cs \<Longrightarrow> list_all (\<lambda>c. c \<le> 2 * b) (pair_sums cs)"
  by (induction cs rule: pair_sums.induct) auto

lemma fields_neighbours:
  "list_all (\<lambda>c. c < 2 ^ k) cs \<Longrightarrow> fields k (neighbours cs) = fields k cs + drop_bit k (fields k cs)"
proof (induction cs rule: neighbours.induct)
  case (1 c d cs)
  have "drop_bit k (fields k (c # d # cs)) = fields k (d # cs)" using 1(2) by (intro drop_field) simp
  moreover have "drop_bit k (fields k (d # cs)) = fields k cs" using 1(2) by (intro drop_field) simp
  ultimately show ?case using 1 by (simp only: neighbours.simps) (simp add: algebra_simps)
qed (auto simp: drop_bit_eq_div)

lemma neighbours_facts:
  "length (neighbours cs) = length cs" "even (length cs) \<Longrightarrow> evens (neighbours cs) = pair_sums cs"
  "list_all (\<lambda>c. c \<le> b) cs \<Longrightarrow> list_all (\<lambda>c. c \<le> 2 * b) (neighbours cs)"
proof -
  show "length (neighbours cs) = length cs" by (induction cs rule: neighbours.induct) auto
  show "list_all (\<lambda>c. c \<le> b) cs \<Longrightarrow> list_all (\<lambda>c. c \<le> 2 * b) (neighbours cs)"
    by (induction cs rule: neighbours.induct) auto
  show "even (length cs) \<Longrightarrow> evens (neighbours cs) = pair_sums cs"
  proof (induction cs rule: pair_sums.induct)
    case (1 x y zs)
    then show ?case by (cases zs) auto
  qed auto
qed

section \<open>Population counts\<close>

text \<open>The specification: how many bits are set.\<close>

definition popcount :: "'a::len word \<Rightarrow> nat" where
  "popcount x = card {i. bit x i}"

definition word_bits :: "'a::len word \<Rightarrow> nat list" where
  "word_bits x = map (\<lambda>i. of_bool (bit x i)) [0..<LENGTH('a)]"

lemma unat_fields: "unat (x :: 'a::len word) = fields 1 (word_bits x)"
proof -
  have "fields 1 (map (\<lambda>i. of_bool (P i)) is) = horner_sum of_bool 2 (map P is)" for P and "is" :: "nat list"
    by (induction "is") auto
  then have "fields 1 (word_bits x) = horner_sum of_bool 2 (map (bit x) [0..<LENGTH('a)])" by (simp add: word_bits_def)
  also have "map (bit x) [0..<LENGTH('a)] = map (bit (unat x)) [0..<LENGTH('a)]" by (simp add: bit_unsigned_iff)
  also have "horner_sum of_bool 2 (map (bit (unat x)) [0..<LENGTH('a)]) = take_bit LENGTH('a) (unat x)"
    by (rule horner_sum_bit_eq_take_bit)
  finally show ?thesis by (simp add: take_bit_nat_eq_self)
qed

lemma word_bits_facts:
  "length (word_bits (x :: 'a::len word)) = LENGTH('a)" "list_all (\<lambda>c. c \<le> 1) (word_bits x)"
  "sum_list (word_bits x) = popcount x"
proof -
  have "sum_list (word_bits x) = (\<Sum>i \<in> {0..<LENGTH('a)}. of_bool (bit x i))"
    by (simp add: word_bits_def interv_sum_list_conv_sum_set_nat)
  also have "\<dots> = card ({0..<LENGTH('a)} \<inter> {i. bit x i})" by (simp add: sum_of_bool_eq)
  also have "{0..<LENGTH('a)} \<inter> {i. bit x i} = {i. bit x i}" by (auto dest: bit_imp_le_length)
  finally show "sum_list (word_bits x) = popcount x" by (simp add: popcount_def)
qed (simp_all add: word_bits_def list_all_iff)

lemma popcount_le: "popcount (x :: 'a::len word) \<le> LENGTH('a)"
proof -
  have "{i. bit x i} \<subseteq> {..<LENGTH('a)}" by (auto dest: bit_imp_le_length)
  then show ?thesis using card_mono [of "{..<LENGTH('a)}"] by (simp add: popcount_def)
qed

text \<open>Three rounds: the fields of twice the width hold the sums of two neighbours.\<close>

lemma le_lt_fields: "list_all (\<lambda>c. c \<le> b) cs \<Longrightarrow> b < 2 ^ k \<Longrightarrow> list_all (\<lambda>c. c < 2 ^ k) cs" for b :: nat
  by (auto simp: list_all_iff intro: le_less_trans)

lemma round_one:
  assumes "length cs = 2 * n" "list_all (\<lambda>c. c \<le> 1) cs"
  shows "drop_bit 1 (fields 1 cs) AND every_other 1 n \<le> fields 1 cs"
    "fields 1 cs - (drop_bit 1 (fields 1 cs) AND every_other 1 n) = fields 2 (pair_sums cs)"
proof -
  have o: "drop_bit 1 (fields 1 cs) AND every_other 1 n = fields 2 (odds cs)"
    using and_odd_fields [of cs n 1] assms le_lt_fields [of 1 cs 1] by simp
  have f: "fields 1 cs = fields 2 (evens cs) + 2 * fields 2 (odds cs)"
    using fields_evens_odds [of cs 1] assms(1) by simp
  show "drop_bit 1 (fields 1 cs) AND every_other 1 n \<le> fields 1 cs" unfolding o by (subst f) simp
  show "fields 1 cs - (drop_bit 1 (fields 1 cs) AND every_other 1 n) = fields 2 (pair_sums cs)"
    using fields_pair_sums [of cs 2] assms(1) unfolding o by (subst f) simp
qed

lemma round_two:
  assumes "length cs = 2 * n" "list_all (\<lambda>c. c \<le> 2) cs"
  shows "(fields 2 cs AND every_other 2 n) + (drop_bit 2 (fields 2 cs) AND every_other 2 n) = fields 4 (pair_sums cs)"
  using and_even_fields [of cs n 2] and_odd_fields [of cs n 2] fields_pair_sums [of cs 4] assms le_lt_fields [of 2 cs 2]
  by simp

lemma round_three:
  assumes "length cs = 2 * n" "list_all (\<lambda>c. c \<le> 4) cs"
  shows "(fields 4 cs + drop_bit 4 (fields 4 cs)) AND every_other 4 n = fields 8 (pair_sums cs)"
proof -
  have "list_all (\<lambda>c. c < 2 ^ 4) cs" "list_all (\<lambda>c. c < 2 ^ 4) (neighbours cs)"
    using le_lt_fields [OF assms(2), of 4] le_lt_fields [OF neighbours_facts(3) [OF assms(2)], of 4] by simp_all
  then show ?thesis
    using and_even_fields [of "neighbours cs" n 4] fields_neighbours [of 4 cs] neighbours_facts(1,2) [of cs] assms(1) by simp
qed

lemma fields_double: "fields j (replicate (n + n) c) = fields j (replicate n c) * (1 + 2 ^ (j * n))"
proof -
  have "fields j (xs @ ys) = fields j xs + 2 ^ (j * length xs) * fields j ys" for xs ys
    by (induction xs) (auto simp: power_add algebra_simps)
  then show ?thesis by (simp only: replicate_add length_replicate) (simp add: algebra_simps)
qed

lemma fields_two: "fields j (replicate 2 c) = c * (1 + 2 ^ j)"
  by (simp add: numeral_2_eq_2)

lemmas fields_doubles = fields_two fields_double [of _ 2, simplified]
  fields_double [of _ 4, simplified] fields_double [of _ 8, simplified] fields_double [of _ 16, simplified]

lemma every_other_masks:
  "every_other 1 16 = 0x55555555" "every_other 2 8 = 0x33333333" "every_other 4 4 = 0x0F0F0F0F"
  "every_other 1 32 = 0x5555555555555555" "every_other 2 16 = 0x3333333333333333" "every_other 4 8 = 0x0F0F0F0F0F0F0F0F"
  by (simp_all add: fields_doubles)

text \<open>The sum of the byte fields lands in the top byte of the product.\<close>

lemma top_byte_32:
  assumes "length cs = 4" "sum_list cs < 256"
  shows "fields 8 cs * 0x01010101 mod 2 ^ 32 div 2 ^ 24 = sum_list cs"
proof -
  obtain a b c d where cs: "cs = [a, b, c, d]" using assms(1) by (auto simp: length_Suc_conv numeral_eq_Suc)
  define low where "low = a + 2 ^ 8 * (a + b) + 2 ^ 16 * (a + b + c)"
  define high where "high = b + c + d + 2 ^ 8 * (c + d) + 2 ^ 16 * d"
  have "fields 8 cs * 0x01010101 = low + 2 ^ 24 * sum_list cs + 2 ^ 32 * high"
    by (simp add: cs low_def high_def algebra_simps)
  then have "fields 8 cs * 0x01010101 mod 2 ^ 32 = (low + 2 ^ 24 * sum_list cs) mod 2 ^ 32" by simp
  moreover have "low < 2 ^ 24" using assms(2) by (simp add: cs low_def)
  moreover have "low + 2 ^ 24 * sum_list cs < 2 ^ 32" using assms(2) \<open>low < 2 ^ 24\<close> by simp
  ultimately show ?thesis by simp
qed

lemma top_byte_64:
  assumes "length cs = 8" "sum_list cs < 256"
  shows "fields 8 cs * 0x0101010101010101 mod 2 ^ 64 div 2 ^ 56 = sum_list cs"
proof -
  obtain a b c d e f g h where cs: "cs = [a, b, c, d, e, f, g, h]"
    using assms(1) by (auto simp: length_Suc_conv numeral_eq_Suc)
  define low where "low = a + 2 ^ 8 * (a + b) + 2 ^ 16 * (a + b + c) + 2 ^ 24 * (a + b + c + d) +
    2 ^ 32 * (a + b + c + d + e) + 2 ^ 40 * (a + b + c + d + e + f) + 2 ^ 48 * (a + b + c + d + e + f + g)"
  define high where "high = b + c + d + e + f + g + h + 2 ^ 8 * (c + d + e + f + g + h) + 2 ^ 16 * (d + e + f + g + h) +
    2 ^ 24 * (e + f + g + h) + 2 ^ 32 * (f + g + h) + 2 ^ 40 * (g + h) + 2 ^ 48 * h"
  have "fields 8 cs * 0x0101010101010101 = low + 2 ^ 56 * sum_list cs + 2 ^ 64 * high"
    by (simp add: cs low_def high_def algebra_simps)
  then have "fields 8 cs * 0x0101010101010101 mod 2 ^ 64 = (low + 2 ^ 56 * sum_list cs) mod 2 ^ 64" by simp
  moreover have "low < 2 ^ 56" using assms(2) by (simp add: cs low_def)
  moreover have "low + 2 ^ 56 * sum_list cs < 2 ^ 64" using assms(2) \<open>low < 2 ^ 56\<close> by simp
  ultimately show ?thesis by simp
qed

text \<open>The three rounds on a word of either width leave the sums of its bytes.\<close>

lemma popcount_rounds:
  fixes x :: "'a::len word"
  assumes n: "LENGTH('a) = 8 * n"
    and m: "unat m1 = every_other 1 (4 * n)" "unat m2 = every_other 2 (2 * n)" "unat m3 = every_other 4 n"
    and t: "t1 = x - (drop_bit 1 x AND m1)" "t2 = (t1 AND m2) + (drop_bit 2 t1 AND m2)" "t3 = (t2 + drop_bit 4 t2) AND m3"
  obtains cs where "unat t3 = fields 8 cs" "length cs = n" "sum_list cs = popcount x"
proof -
  define cs where "cs = word_bits x"
  have l: "length cs = 2 * (4 * n)" and b: "list_all (\<lambda>c. c \<le> 1) cs" and s: "sum_list cs = popcount x"
    unfolding cs_def using word_bits_facts [of x] n by simp_all
  define c1 where "c1 = pair_sums cs"
  define c2 where "c2 = pair_sums c1"
  define c3 where "c3 = pair_sums c2"
  note p = pair_sums_facts
  have l1: "length c1 = 2 * (2 * n)" "length c2 = 2 * n" "length c3 = n" using l by (simp_all add: c1_def c2_def c3_def p)
  have b1: "list_all (\<lambda>c. c \<le> 2) c1" using p(3) [OF b] by (simp add: c1_def)
  have b2: "list_all (\<lambda>c. c \<le> 4) c2" using p(3) [OF b1] by (simp add: c2_def)
  have w: "(2 :: nat) ^ LENGTH('a) = 2 ^ (4 * length c2)" using n l1 by simp
  note u = unsigned_and_eq [where 'a = nat] unat_drop_bit_eq
  have x: "unat x = fields 1 cs" by (simp add: cs_def unat_fields)
  have r1: "unat (drop_bit 1 x AND m1) \<le> unat x" "unat x - unat (drop_bit 1 x AND m1) = fields 2 c1"
    using round_one [OF l b] unfolding m u x c1_def by simp_all
  then have t1: "unat t1 = fields 2 c1" unfolding t by (simp add: unat_sub_nowrap word_le_nat_alt)
  have f2: "unat (t1 AND m2) + unat (drop_bit 2 t1 AND m2) = fields 4 c2"
    using round_two [OF l1(1) b1] unfolding m u t1 c2_def by simp
  have "fields 4 c2 < 2 ^ LENGTH('a)" using fields_lt [OF le_lt_fields [OF b2]] unfolding w by simp
  then have t2: "unat t2 = fields 4 c2" unfolding t(2) using f2 by (subst unat_add_nowrap) simp_all
  have "fields 4 (neighbours c2) < 2 ^ LENGTH('a)"
    using fields_lt [OF le_lt_fields [OF neighbours_facts(3) [OF b2]]] unfolding w neighbours_facts(1) by simp
  then have "unat (t2 + drop_bit 4 t2) = fields 4 c2 + drop_bit 4 (fields 4 c2)"
    using fields_neighbours [OF le_lt_fields [OF b2], of 4] t2 by (subst unat_add_nowrap) (simp_all add: u)
  then have "unat t3 = fields 8 c3"
    using round_three [OF l1(2) b2] unfolding t(3) u m c3_def by simp
  moreover have "sum_list c3 = popcount x" by (simp add: c1_def c2_def c3_def p s)
  ultimately show thesis using l1(3) by (intro that [of c3])
qed

lemma unat_small_nat: "i < 2 ^ LENGTH('a) \<Longrightarrow> unat (of_nat i :: 'a::len word) = i"
  unfolding unat_of_nat by simp

lemma unat_mult_mod: "unat (a * b) = unat a * unat b mod 2 ^ LENGTH('a)" for a b :: "'a::len word"
  unfolding word_arith_nat_mult [of a b] unat_of_nat ..

lemma nvPopCount32_popcount: "unat (nvPopCount32 x) = popcount x"
proof -
  define t1 where "t1 = x - (drop_bit 1 x AND 0x55555555)"
  define t2 where "t2 = (t1 AND 0x33333333) + (drop_bit 2 t1 AND 0x33333333)"
  define t3 where "t3 = (t2 + drop_bit 4 t2) AND 0x0F0F0F0F"
  obtain cs where t3: "unat t3 = fields 8 cs" and cs: "length cs = 4" "sum_list cs = popcount x"
    by (rule popcount_rounds [OF _ _ _ _ t1_def t2_def t3_def, of 4]) (simp_all add: every_other_masks [simplified])
  have "nvPopCount32 x = drop_bit 24 (t3 * 0x01010101)"
    unfolding nvPopCount32_def Let_def t1_def [symmetric] t2_def [symmetric] t3_def [symmetric] ..
  then have "unat (nvPopCount32 x) = fields 8 cs * 0x01010101 mod 2 ^ 32 div 2 ^ 24"
    by (simp only: unat_drop_bit_eq unat_mult_mod t3) (simp add: drop_bit_eq_div)
  then show ?thesis using top_byte_32 [OF cs(1)] cs(2) popcount_le [of x] by simp
qed

lemma nvPopCount64_popcount: "unat (nvPopCount64 x) = popcount x"
proof -
  define t1 where "t1 = x - (drop_bit 1 x AND 0x5555555555555555)"
  define t2 where "t2 = (t1 AND 0x3333333333333333) + (drop_bit 2 t1 AND 0x3333333333333333)"
  define t3 where "t3 = (t2 + drop_bit 4 t2) AND 0x0F0F0F0F0F0F0F0F"
  obtain cs where t3: "unat t3 = fields 8 cs" and cs: "length cs = 8" "sum_list cs = popcount x"
    by (rule popcount_rounds [OF _ _ _ _ t1_def t2_def t3_def, of 8]) (simp_all add: every_other_masks [simplified])
  have "nvPopCount64 x = ucast (drop_bit 56 (t3 * 0x0101010101010101))"
    unfolding nvPopCount64_def Let_def t1_def [symmetric] t2_def [symmetric] t3_def [symmetric] ..
  moreover have "unat (drop_bit 56 (t3 * 0x0101010101010101)) = popcount x"
    using top_byte_64 [OF cs(1)] cs(2) popcount_le [of x] by (simp only: unat_drop_bit_eq unat_mult_mod t3) (simp add: drop_bit_eq_div)
  ultimately show ?thesis using popcount_le [of x] by (simp add: unsigned_ucast_eq take_bit_nat_eq_self)
qed

section \<open>Powers of two\<close>

text \<open>The highest set bit of a number.\<close>

lemma highest_bit:
  fixes x :: "'a::len word"
  assumes "x \<noteq> 0"
  obtains h where "h < LENGTH('a)" "bit x h" "\<And>j. bit x j \<Longrightarrow> j \<le> h" "2 ^ h \<le> unat x" "unat x < 2 ^ (h + 1)"
proof -
  have "1 \<le> unat x" using assms by (simp add: Suc_le_eq unat_gt_0)
  then obtain h where h: "2 ^ h \<le> unat x" "unat x < 2 ^ (h + 1)" using ex_power_ivl1 [of 2 "unat x"] by auto
  have "unat x div 2 ^ h = 1" using h by (simp add: div_nat_eqI)
  then have "bit (unat x) h" by (simp add: bit_iff_odd)
  then have b: "bit x h" by (simp add: bit_unsigned_iff)
  moreover have "j \<le> h" if "bit x j" for j
  proof (rule ccontr)
    assume "\<not> j \<le> h"
    then have "(2 :: nat) ^ (h + 1) \<le> 2 ^ j" by (intro power_increasing) auto
    then have "unat x div 2 ^ j = 0" using h(2) by simp
    moreover have "bit (unat x) j" using that by (simp add: bit_unsigned_iff bit_imp_le_length)
    ultimately show False by (simp add: bit_iff_odd)
  qed
  ultimately show thesis using h bit_imp_le_length [OF b] that by blast
qed

text \<open>Each step doubles how far a set bit reaches downwards.\<close>

definition reaches :: "nat \<Rightarrow> 'a::len word \<Rightarrow> 'a word \<Rightarrow> bool" where
  "reaches m x y \<longleftrightarrow> (\<forall>i. bit y i \<longleftrightarrow> (\<exists>j. i \<le> j \<and> j < i + m \<and> bit x j))"

lemma reaches_start: "reaches 1 x x"
  unfolding reaches_def by (metis add.commute less_Suc_eq_le order_antisym order_refl plus_1_eq_Suc)

lemma reaches_step:
  assumes "reaches m x y" "n = 2 * m"
  shows "reaches n x (y OR drop_bit m y)"
proof -
  have y: "bit y i \<longleftrightarrow> (\<exists>j. i \<le> j \<and> j < i + m \<and> bit x j)" for i using assms(1) by (simp add: reaches_def)
  have "bit (y OR drop_bit m y) i \<longleftrightarrow> (\<exists>j. i \<le> j \<and> j < i + n \<and> bit x j)" for i
  proof
    assume "bit (y OR drop_bit m y) i"
    then have "bit y i \<or> bit y (m + i)" by (simp add: bit_or_iff bit_drop_bit_eq)
    then obtain j where "i \<le> j \<and> j < i + m \<or> m + i \<le> j \<and> j < m + i + m" "bit x j" unfolding y by blast
    then show "\<exists>j. i \<le> j \<and> j < i + n \<and> bit x j" using assms(2) by (intro exI [of _ j]) auto
  next
    assume "\<exists>j. i \<le> j \<and> j < i + n \<and> bit x j"
    then obtain j where j: "i \<le> j" "j < i + n" "bit x j" by blast
    show "bit (y OR drop_bit m y) i"
    proof (cases "j < i + m")
      case True then show ?thesis using j y by (auto simp: bit_or_iff)
    next
      case False
      then have "bit y (m + i)" using j assms(2) unfolding y by (intro exI [of _ j]) auto
      then show ?thesis by (simp add: bit_or_iff bit_drop_bit_eq)
    qed
  qed
  then show ?thesis by (simp add: reaches_def)
qed

lemma reaches_all: "reaches LENGTH('a) x y \<Longrightarrow> bit y i \<longleftrightarrow> (\<exists>j \<ge> i. bit x j)" for x :: "'a::len word"
  unfolding reaches_def by (metis bit_imp_le_length trans_less_add2)

definition smear32 :: "NvU32 \<Rightarrow> NvU32" where
  "smear32 y =
     (let y = y OR drop_bit 1 y; y = y OR drop_bit 2 y; y = y OR drop_bit 4 y; y = y OR drop_bit 8 y in y OR drop_bit 16 y)"

definition smear64 :: "NvU64 \<Rightarrow> NvU64" where
  "smear64 y =
     (let y = y OR drop_bit 1 y; y = y OR drop_bit 2 y; y = y OR drop_bit 4 y; y = y OR drop_bit 8 y; y = y OR drop_bit 16 y in
      y OR drop_bit 32 y)"

lemma bit_smear32: "bit (smear32 x) i \<longleftrightarrow> (\<exists>j \<ge> i. bit x j)"
proof (rule reaches_all)
  show "reaches LENGTH(32) x (smear32 x)"
    unfolding smear32_def Let_def
    by (rule reaches_step [of 16], rule reaches_step [of 8], rule reaches_step [of 4], rule reaches_step [of 2],
        rule reaches_step [of 1], rule reaches_start) simp_all
qed

lemma bit_smear64: "bit (smear64 x) i \<longleftrightarrow> (\<exists>j \<ge> i. bit x j)"
proof (rule reaches_all)
  show "reaches LENGTH(64) x (smear64 x)"
    unfolding smear64_def Let_def
    by (rule reaches_step [of 32], rule reaches_step [of 16], rule reaches_step [of 8], rule reaches_step [of 4],
        rule reaches_step [of 2], rule reaches_step [of 1], rule reaches_start) simp_all
qed

text \<open>So the smeared number is the mask up to its highest bit.\<close>

lemma smeared_mask:
  fixes x y :: "'a::len word"
  assumes "\<And>i. bit y i \<longleftrightarrow> (\<exists>j \<ge> i. bit x j)" "h < LENGTH('a)" "bit x h" "\<And>j. bit x j \<Longrightarrow> j \<le> h"
  shows "y = mask (Suc h)" "unat y = 2 ^ (h + 1) - 1" "unat (drop_bit 1 y) = 2 ^ h - 1"
proof -
  show y: "y = mask (Suc h)"
  proof (rule bit_word_eqI)
    fix n assume "n < LENGTH('a)"
    moreover have "bit y n \<longleftrightarrow> n \<le> h" using assms by (meson le_trans)
    ultimately show "bit y n \<longleftrightarrow> bit (mask (Suc h) :: 'a word) n" by (auto simp: bit_mask_iff)
  qed
  have m: "unat (mask k :: 'a word) = 2 ^ k - 1" if "k \<le> LENGTH('a)" for k
  proof -
    have "unat (mask k :: 'a word) = mask k"
      using that by (intro bit_eqI) (auto simp: bit_unsigned_iff bit_mask_iff)
    then show ?thesis by (simp add: mask_eq_exp_minus_1)
  qed
  show "unat y = 2 ^ (h + 1) - 1" using m [of "Suc h"] assms(2) y by simp
  have "drop_bit 1 y = mask h" unfolding y using assms(2) by (intro bit_word_eqI) (auto simp: bit_simps)
  then show "unat (drop_bit 1 y) = 2 ^ h - 1" using m [of h] assms(2) by simp
qed

lemma smeared_prev:
  fixes x y :: "'a::len word"
  assumes "\<And>i. bit y i \<longleftrightarrow> (\<exists>j \<ge> i. bit x j)" "x \<noteq> 0"
  shows "\<exists>k. unat (y - drop_bit 1 y) = 2 ^ k \<and> 2 ^ k \<le> unat x \<and> unat x < 2 * 2 ^ k"
proof (rule highest_bit [OF assms(2)])
  fix h assume h: "h < LENGTH('a)" "bit x h" "\<And>j. bit x j \<Longrightarrow> j \<le> h" "2 ^ h \<le> unat x" "unat x < 2 ^ (h + 1)"
  note y = smeared_mask [OF assms(1) h(1-3)]
  have "unat (y - drop_bit 1 y) = (2 ^ (h + 1) - 1) - (2 ^ h - 1)"
    using y(2,3) by (subst unat_sub_nowrap) (simp_all add: word_le_nat_alt)
  also have "\<dots> = 2 ^ h" by simp
  finally show ?thesis using h(4,5) by auto
qed

lemma smeared_next:
  fixes x y :: "'a::len word"
  assumes "\<And>i. bit y i \<longleftrightarrow> (\<exists>j \<ge> i. bit (x - 1) j)" "0 < unat x" "unat x \<le> 2 ^ (LENGTH('a) - 1)"
  shows "\<exists>k. unat (y + 1) = 2 ^ k \<and> unat x \<le> 2 ^ k \<and> 2 ^ k < 2 * unat x"
proof (cases "x = 1")
  case True
  then have "y = 0" using assms(1) by (intro bit_word_eqI) simp
  then show ?thesis using True by (intro exI [of _ 0]) simp
next
  case False
  then have "x - 1 \<noteq> 0" by simp
  then show ?thesis
  proof (rule highest_bit)
    fix h assume h: "h < LENGTH('a)" "bit (x - 1) h" "\<And>j. bit (x - 1) j \<Longrightarrow> j \<le> h"
      "2 ^ h \<le> unat (x - 1)" "unat (x - 1) < 2 ^ (h + 1)"
    have u: "unat (x - 1) = unat x - 1" using assms(2) by (subst unat_sub_nowrap) (simp_all add: word_le_nat_alt)
    then have "(2 :: nat) ^ h < 2 ^ (LENGTH('a) - 1)" using h(4) assms(2,3) by linarith
    then have "h < LENGTH('a) - 1" by (simp add: power_strict_increasing_iff)
    then have "(2 :: nat) ^ (h + 1) < 2 ^ LENGTH('a)" by (intro power_strict_increasing) auto
    then have "unat (y + 1) = 2 ^ (h + 1)"
      using smeared_mask(2) [OF assms(1) h(1-3)] by (subst unat_add_nowrap) simp_all
    then show ?thesis using h(4,5) u assms(2) by (intro exI [of _ "h + 1"]) auto
  qed
qed

text \<open>Outside the range the sum wraps to zero.\<close>

lemma smeared_wraps:
  fixes x y :: "'a::len word"
  assumes "\<And>i. bit y i \<longleftrightarrow> (\<exists>j \<ge> i. bit (x - 1) j)" "unat x = 0 \<or> 2 ^ (LENGTH('a) - 1) < unat x"
  shows "y + 1 = 0"
proof -
  have "2 ^ (LENGTH('a) - 1) \<le> unat (x - 1)"
  proof (cases "x = 0")
    case True
    have "(2 :: nat) ^ LENGTH('a) = 2 * 2 ^ (LENGTH('a) - 1)" using len_gt_0 [where 'a = 'a] by (cases "LENGTH('a)") auto
    moreover have "0 < (2 :: nat) ^ (LENGTH('a) - 1)" by simp
    ultimately show ?thesis using True by (simp add: unsigned_minus_1_eq_mask mask_eq_exp_minus_1)
  next
    case False
    then have "unat (x - 1) = unat x - 1" by (subst unat_sub_nowrap) (simp_all add: word_le_nat_alt Suc_le_eq unat_gt_0)
    then show ?thesis using assms(2) False by (simp add: unat_eq_zero_iff)
  qed
  then have "x - 1 \<noteq> 0" by auto
  then show ?thesis
  proof (rule highest_bit)
    fix h assume h: "h < LENGTH('a)" "bit (x - 1) h" "\<And>j. bit (x - 1) j \<Longrightarrow> j \<le> h" "unat (x - 1) < 2 ^ (h + 1)"
    then have "(2 :: nat) ^ (LENGTH('a) - 1) < 2 ^ (h + 1)" using \<open>2 ^ (LENGTH('a) - 1) \<le> unat (x - 1)\<close> by linarith
    then have "LENGTH('a) - 1 < h + 1" by (simp only: power_strict_increasing_iff [of "2 :: nat"])
    then have "Suc h = LENGTH('a)" using h(1) by linarith
    then have "y = mask LENGTH('a)" using smeared_mask(1) [OF assms(1) h(1-3)] by simp
    then show ?thesis by (simp add: mask_eq_exp_minus_1)
  qed
qed

section \<open>Bit positions\<close>

lemma bit_less_one:
  fixes x :: "'a::len word"
  assumes "bit x l" "\<And>j. bit x j \<Longrightarrow> l \<le> j"
  shows "bit (x - 1) i \<longleftrightarrow> i < l \<or> l < i \<and> bit x i"
proof -
  define q where "q = unat x div 2 ^ (l + 1)"
  have l: "l < LENGTH('a)" using assms(1) by (rule bit_imp_le_length)
  have odd: "odd (unat x div 2 ^ l)" using assms(1) l by (simp add: bit_unsigned_iff flip: bit_iff_odd)
  have "take_bit l (unat x) = 0"
    using assms(2) by (intro bit_eqI) (auto simp: bit_take_bit_iff bit_unsigned_iff dest: leD)
  then have "unat x = 2 ^ l * (unat x div 2 ^ l)" by (simp add: take_bit_eq_mod) (metis mult_div_mod_eq add.right_neutral)
  moreover have "q = unat x div 2 ^ l div 2" by (simp add: q_def div_mult2_eq mult.commute [of 2])
  then have "unat x div 2 ^ l = 2 * q + 1" using odd_two_times_div_two_succ [OF odd] by simp
  ultimately have x: "unat x = (2 ^ l + 2 ^ (l + 1) * q)" by (simp add: algebra_simps)
  have "(1 :: nat) \<le> 2 ^ l" by simp
  then have "1 \<le> unat x" unfolding x by (rule trans_le_add1)
  then have "unat (x - 1) = unat x - 1" by (subst unat_sub_nowrap) (simp_all add: word_le_nat_alt)
  then have "unat (x - 1) = 2 ^ (l + 1) * q + (2 ^ l - 1)" using x by simp
  also have "\<dots> = push_bit (l + 1) q + mask l" by (simp add: push_bit_eq_mult mask_eq_exp_minus_1 mult.commute)
  also have "\<dots> = push_bit (l + 1) q OR mask l" by (rule disjunctive_add) (auto simp: bit_push_bit_iff bit_mask_iff)
  finally have "bit (unat (x - 1)) i \<longleftrightarrow> l + 1 \<le> i \<and> bit q (i - (l + 1)) \<or> i < l"
    by (simp only: bit_or_iff bit_push_bit_iff bit_mask_iff) simp
  moreover have "bit q (i - (l + 1)) \<longleftrightarrow> bit (unat x) i" if "l + 1 \<le> i"
    using that by (simp only: q_def drop_bit_eq_div [symmetric] bit_drop_bit_eq) simp
  ultimately have "bit (unat (x - 1)) i \<longleftrightarrow> i < l \<or> l < i \<and> bit (unat x) i" by auto
  then show ?thesis using l by (cases "i < LENGTH('a)") (auto simp: bit_unsigned_iff dest: bit_imp_le_length)
qed

lemma LOWESTBIT_least:
  fixes x :: "'a::len word"
  assumes "bit x l" "\<And>j. bit x j \<Longrightarrow> l \<le> j"
  shows "LOWESTBIT x = push_bit l 1"
proof (rule bit_word_eqI)
  fix n assume "n < LENGTH('a)"
  then show "bit (LOWESTBIT x) n \<longleftrightarrow> bit (push_bit l 1 :: 'a word) n"
    using bit_less_one [OF assms, of n] assms
    by (auto simp: LOWESTBIT_def bit_simps dest: le_antisym)
qed

lemma BIT_IDX_32_bit: "i < 32 \<Longrightarrow> BIT_IDX_32 (push_bit i 1) = of_nat i"
proof -
  have "\<forall>i \<in> set [0..<32]. BIT_IDX_32 (push_bit i 1) = of_nat i" by code_simp
  then show "i < 32 \<Longrightarrow> ?thesis" by simp
qed

lemma BIT_IDX_64_bit: "i < 64 \<Longrightarrow> BIT_IDX_64 (push_bit i 1) = of_nat i"
proof -
  have "\<forall>i \<in> set [0..<64]. BIT_IDX_64 (push_bit i 1) = of_nat i"
    by (simp add: upt_rec BIT_IDX_64_def)
  then show "i < 64 \<Longrightarrow> ?thesis" by simp
qed

lemma highest_loop_value: "2 ^ h \<le> unat n \<Longrightarrow> unat n < 2 ^ (h + 1) \<Longrightarrow> highest_loop n c = c + of_nat h"
proof (induction h arbitrary: n c)
  case 0
  then have "unat (drop_bit 1 n) = 0" by (simp add: unat_drop_bit_eq drop_bit_eq_div)
  then show ?case by (subst highest_loop.simps) (simp add: unat_eq_zero_iff)
next
  case (Suc h)
  have "unat (drop_bit 1 n) = unat n div 2" by (simp add: unat_drop_bit_eq drop_bit_eq_div)
  then have "2 ^ h \<le> unat (drop_bit 1 n)" "unat (drop_bit 1 n) < 2 ^ (h + 1)" using Suc.prems by auto
  moreover from this have "drop_bit 1 n \<noteq> 0" by (metis unat_0 le_zero_eq power_not_zero zero_neq_numeral)
  ultimately show ?case by (subst highest_loop.simps) (simp add: Suc.IH)
qed

section \<open>Walking a mask\<close>

definition set_bits_of :: "'a::len word \<Rightarrow> nat list" where
  "set_bits_of m = filter (bit m) [0..<LENGTH('a)]"

primrec each_index :: "(nat \<Rightarrow> 's \<Rightarrow> 'r + 's) \<Rightarrow> nat list \<Rightarrow> 's \<Rightarrow> 'r + 's" where
  "each_index body [] s = Inr s"
| "each_index body (i # is) s = (case body i s of Inl r \<Rightarrow> Inl r | Inr s \<Rightarrow> each_index body is s)"

lemma set_bits_of_step:
  "set_bits_of m = (if bit m 0 then [0] else []) @ map Suc (set_bits_of (drop_bit 1 m))" for m :: "'a::len word"
proof -
  obtain n where n: "LENGTH('a) = Suc n" using len_gt_0 [where 'a = 'a] by (cases "LENGTH('a)") auto
  have "\<not> bit m (Suc n)" using bit_imp_le_length [of m "Suc n"] n by auto
  then have "set_bits_of (drop_bit 1 m) = filter (\<lambda>i. bit m (Suc i)) [0..<n]"
    by (simp add: set_bits_of_def n bit_drop_bit_eq comp_def)
  moreover have "[0..<Suc n] = 0 # map Suc [0..<n]" by (simp add: upt_conv_Cons map_Suc_upt del: upt_Suc)
  then have "set_bits_of m = (if bit m 0 then [0] else []) @ map Suc (filter (\<lambda>i. bit m (Suc i)) [0..<n])"
    by (simp add: set_bits_of_def n filter_map comp_def del: upt_Suc)
  ultimately show ?thesis by simp
qed

lemma for_each_index_each:
  "for_each_index body k m s = each_index body (map ((+) k) (set_bits_of m)) s" for m :: "'a::len word"
proof (induction body k m s rule: for_each_index.induct)
  case (1 body k m s)
  show ?case
  proof (cases "m = 0")
    case True
    then show ?thesis by (simp add: for_each_index.simps [of body k] set_bits_of_def)
  next
    case False
    have shift: "map ((+) k) (set_bits_of m) =
        (if bit m 0 then [k] else []) @ map ((+) (k + 1)) (set_bits_of (drop_bit 1 m))"
      by (subst set_bits_of_step) (simp add: comp_def)
    have low: "1 AND m = 0 \<longleftrightarrow> \<not> bit m 0" by (simp add: one_and_eq bit_0 even_iff_mod_2_eq_zero)
    show ?thesis
      unfolding shift using "1.IH" [OF False] False
      by (subst for_each_index.simps) (auto simp: low simp del: One_nat_def add_Suc add_Suc_right split: sum.split)
  qed
qed

lemma set_bits_of_facts:
  "set (set_bits_of m) = {i. bit m i}" "sorted_wrt (<) (set_bits_of m)" "length (set_bits_of m) = popcount m"
proof -
  show set: "set (set_bits_of m) = {i. bit m i}" by (auto simp: set_bits_of_def dest: bit_imp_le_length)
  show "sorted_wrt (<) (set_bits_of m)" unfolding set_bits_of_def by (rule sorted_wrt_filter) simp
  have "distinct (set_bits_of m)" by (simp add: set_bits_of_def)
  then show "length (set_bits_of m) = popcount m" by (simp add: popcount_def flip: set distinct_card)
qed

lemma set_bits_of_nth:
  assumes "n < popcount m"
  shows "bit m (set_bits_of m ! n)" "card {j. j < set_bits_of m ! n \<and> bit m j} = n"
proof -
  define xs where "xs = set_bits_of m"
  have n: "n < length xs" and set: "set xs = {i. bit m i}" and srt: "sorted_wrt (<) xs"
    unfolding xs_def using assms set_bits_of_facts [of m] by simp_all
  show "bit m (set_bits_of m ! n)" using nth_mem [OF n] set unfolding xs_def by blast
  have less: "xs ! i < xs ! j" if "i < j" "j < length xs" for i j using sorted_wrt_nth_less [OF srt] that by blast
  have "{j. j < xs ! n \<and> bit m j} = (!) xs ` {..<n}"
  proof (intro equalityI subsetI)
    fix j assume "j \<in> {j. j < xs ! n \<and> bit m j}"
    then have "j \<in> set xs" "j < xs ! n" using set by auto
    then obtain i where "i < length xs" "j = xs ! i" "xs ! i < xs ! n" by (auto simp: in_set_conv_nth)
    then show "j \<in> (!) xs ` {..<n}" using less [of n i] by (cases i n rule: linorder_cases) auto
  next
    fix j assume "j \<in> (!) xs ` {..<n}"
    then show "j \<in> {j. j < xs ! n \<and> bit m j}" using less n set nth_mem [of _ xs] by auto
  qed
  moreover have "inj_on ((!) xs) {..<n}"
    using n set_bits_of_facts(2) [of m] unfolding xs_def by (simp add: inj_on_nth strict_sorted_iff)
  ultimately show "card {j. j < set_bits_of m ! n \<and> bit m j} = n" by (simp add: card_image flip: xs_def)
qed

lemma count_to:
  "unat s + k = unat n \<Longrightarrow>
   each_index (\<lambda>index seen. if seen = n then Inl (int index) else Inr (seen + 1)) xs s =
   (if k < length xs then Inl (int (xs ! k)) else Inr (s + of_nat (length xs)))" for s n :: NvU32
proof (induction xs arbitrary: s k)
  case (Cons x xs)
  show ?case
  proof (cases k)
    case 0
    then have "s = n" using Cons.prems by (simp add: word_unat_eq_iff)
    then show ?thesis using 0 by simp
  next
    case (Suc k')
    then have "unat s < unat n" using Cons.prems by simp
    moreover have "unat n < 2 ^ 32" using unsigned_less [of n] by simp
    ultimately have "unat (s + 1) + k' = unat n" "s \<noteq> n" using Cons.prems Suc by (auto simp: unat_add_nowrap)
    then show ?thesis using Suc Cons.IH [of "s + 1" k'] by (simp add: algebra_simps)
  qed
qed simp

lemma nvGetNthSetBitIndex32_nth:
  "nvGetNthSetBitIndex32 m n = (if unat n < popcount m then int (set_bits_of m ! unat n) else - 1)"
proof -
  have "map ((+) 0) (set_bits_of m) = set_bits_of m" by (rule map_idI) simp
  then show ?thesis
    unfolding nvGetNthSetBitIndex32_def for_each_index_each using count_to [of 0 "unat n" n "set_bits_of m"]
    by (simp add: set_bits_of_facts(3))
qed

lemma nvMaskPos32_card:
  assumes "unat i < 32"
  shows "unat (nvMaskPos32 m i) = card {j. j < unat i \<and> bit m j}"
proof -
  have "bit (m AND (push_bit (unat i) 1 - 1)) j \<longleftrightarrow> j < unat i \<and> bit m j" for j
    using assms by (auto simp: bit_and_iff push_bit_of_1 bit_mask_iff simp flip: mask_eq_exp_minus_1 dest: bit_imp_le_length)
  then show ?thesis by (simp add: nvMaskPos32_def nvPopCount32_popcount popcount_def)
qed

section \<open>Channel masks\<close>

lemma bitmask_places:
  "unat (NV_BITMASK32_IDX c) = unat c div 32" "unat (NV_BITMASK32_OFFSET c) = unat c mod 32"
proof -
  have "NV_BITMASK32_OFFSET c = take_bit 5 c" by (simp add: NV_BITMASK32_OFFSET_def take_bit_eq_mask mask_eq_exp_minus_1)
  then show "unat (NV_BITMASK32_OFFSET c) = unat c mod 32" by (simp add: unsigned_take_bit_eq take_bit_eq_mod)
  have "NV_BITMASK32_IDX c = drop_bit 5 c"
  proof (rule bit_word_eqI)
    fix n assume "n < LENGTH(32)"
    have "(0x1F :: NvU32) = mask 5" by (simp add: mask_eq_exp_minus_1)
    then have "NV_BITMASK32_IDX c = drop_bit 5 (c AND NOT (mask 5))" by (simp only: NV_BITMASK32_IDX_def)
    then show "bit (NV_BITMASK32_IDX c) n \<longleftrightarrow> bit (drop_bit 5 c) n"
      using bit_imp_le_length [of c "5 + n"] by (simp only: bit_drop_bit_eq comp_apply bit_and_iff bit_not_iff bit_mask_iff) auto
  qed
  then show "unat (NV_BITMASK32_IDX c) = unat c div 32" by (simp add: unat_drop_bit_eq drop_bit_eq_div)
qed

lemma bitmask_get: "NV_BITMASK32_GET msk c \<noteq> 0 \<longleftrightarrow> bit (msk ! (unat c div 32)) (unat c mod 32)"
  unfolding NV_BITMASK32_GET_def bitmask_places
  by (metis and_exp_eq_0_iff_not_bit push_bit_of_1)

text \<open>
  Setting a channel's bit in a mask that has a word for it sets that channel and no other.
\<close>

lemma bitmask_set_get:
  assumes "unat c div 32 < length msk" "unat d div 32 < length msk"
  shows "NV_BITMASK32_GET (NV_BITMASK32_SET msk c) d \<noteq> 0 \<longleftrightarrow> d = c \<or> NV_BITMASK32_GET msk d \<noteq> 0"
proof -
  have "d = c \<longleftrightarrow> unat d div 32 = unat c div 32 \<and> unat d mod 32 = unat c mod 32"
    by (metis div_mod_decomp word_unat_eq_iff)
  then show ?thesis
    unfolding bitmask_get NV_BITMASK32_SET_def Let_def bitmask_places
    using assms by (cases "unat d div 32 = unat c div 32") (auto simp: bit_or_iff bit_exp_iff push_bit_of_1)
qed

section \<open>Masks\<close>

text \<open>Both ways to write a mask of ones agree, and neither overflows at the width of the type.\<close>

lemma ones_masks:
  "n \<le> 64 \<Longrightarrow> NV_TWO_N_MINUS_ONE n = mask n" "NV_BITMASK64 k = mask (nat (min 64 k))"
proof -
  show "NV_TWO_N_MINUS_ONE n = mask n" if "n \<le> 64"
  proof -
    have "n div 2 + (n + 1) div 2 = n" by presburger
    then have "push_bit ((n + 1) div 2) (push_bit (n div 2) 1) = (push_bit n 1 :: NvU64)"
      unfolding push_bit_push_bit by (simp only: add.commute)
    then show ?thesis unfolding NV_TWO_N_MINUS_ONE_def mask_eq_exp_minus_1 by (simp only: push_bit_of_1)
  qed
  have "drop_bit (64 - m) (0xFFFFFFFFFFFFFFFF :: NvU64) = mask m" if "m \<le> 64" for m
  proof -
    have "drop_bit (64 - m) (- 1 :: NvU64) = mask m"
      using that by (intro bit_word_eqI) (simp add: bit_drop_bit_eq bit_mask_iff less_diff_conv)
    moreover have "(0xFFFFFFFFFFFFFFFF :: NvU64) = - 1" by simp
    ultimately show ?thesis by (simp only:)
  qed
  from this [of "nat (min 64 k)"] show "NV_BITMASK64 k = mask (nat (min 64 k))"
    by (auto simp: NV_BITMASK64_def nat_diff_distrib min_def)
qed

lemma unat_concat: "unat (NV_CONCAT_32_TO_64 hi lo) = 2 ^ 32 * unat hi + unat lo"
proof -
  have sum: "push_bit 32 (ucast hi) OR ucast lo = (push_bit 32 (ucast hi) + ucast lo :: NvU64)"
    by (rule disjunctive_add [symmetric]) (auto simp: bit_push_bit_iff bit_unsigned_iff dest: bit_imp_le_length)
  have "unat hi < 2 ^ 32" "unat lo < 2 ^ 32" using unsigned_less [of hi] unsigned_less [of lo] by simp_all
  moreover from this have u: "unat (ucast hi :: NvU64) = unat hi" "unat (ucast lo :: NvU64) = unat lo"
    by (simp_all add: unsigned_ucast_eq take_bit_nat_eq_self)
  moreover from \<open>unat hi < 2 ^ 32\<close> have "unat (push_bit 32 (ucast hi) :: NvU64) = 2 ^ 32 * unat hi"
    unfolding push_bit_eq_mult unat_mult_mod u by simp
  ultimately show ?thesis unfolding NV_CONCAT_32_TO_64_def sum by (subst unat_add_nowrap) simp_all
qed

section \<open>Properties\<close>

lemma next_pow2_smear: "nvNextPow2_U32 x = smear32 (x - 1) + 1" "ROUNDUP_POW2_U64 y = smear64 (y - 1) + 1"
  unfolding nvNextPow2_U32_def ROUNDUP_POW2_U64_def smear32_def smear64_def Let_def by (rule refl)+

lemma prev_pow2_smear:
  "nvPrevPow2_U32 x = smear32 x - drop_bit 1 (smear32 x)" "nvPrevPow2_U64 y = smear64 y - drop_bit 1 (smear64 y)"
  unfolding nvPrevPow2_U32_def nvPrevPow2_U64_def smear32_def smear64_def Let_def by (rule refl)+

text \<open>The power of two a rounding yields, between half and all of the number or between it and its double.\<close>

definition rounds_up :: "'a::len word \<Rightarrow> 'a word \<Rightarrow> bool" where
  "rounds_up x y \<longleftrightarrow>
     (if 0 < unat x \<and> unat x \<le> 2 ^ (LENGTH('a) - 1) then \<exists>k. unat y = 2 ^ k \<and> unat x \<le> 2 ^ k \<and> 2 ^ k < 2 * unat x
      else y = 0)"

definition rounds_down :: "'a::len word \<Rightarrow> 'a word \<Rightarrow> bool" where
  "rounds_down x y \<longleftrightarrow> (if x = 0 then y = 0 else \<exists>k. unat y = 2 ^ k \<and> 2 ^ k \<le> unat x \<and> unat x < 2 * 2 ^ k)"

text \<open>
  Rounding to a power of two, on every word of either width. Up: from 1 to half the range the result is the
  least power of two that is not below the number, and for zero or above half the range it wraps to zero. Down:
  the result is the greatest power of two that is not above the number, and zero for zero.
\<close>

theorem power_of_two_rounding:
  "rounds_up x (nvNextPow2_U32 x) \<and> rounds_up y (ROUNDUP_POW2_U64 y) \<and>
   rounds_down x (nvPrevPow2_U32 x) \<and> rounds_down y (nvPrevPow2_U64 y)"
proof -
  have "rounds_up x (nvNextPow2_U32 x)" unfolding rounds_up_def next_pow2_smear
    using smeared_next [OF bit_smear32, of x] smeared_wraps [OF bit_smear32, of x] by (auto simp: not_le)
  moreover have "rounds_up y (ROUNDUP_POW2_U64 y)" unfolding rounds_up_def next_pow2_smear
    using smeared_next [OF bit_smear64, of y] smeared_wraps [OF bit_smear64, of y] by (auto simp: not_le)
  moreover have "rounds_down x (nvPrevPow2_U32 x)" unfolding rounds_down_def prev_pow2_smear
    using smeared_prev [OF bit_smear32, of x] by (simp add: smear32_def)
  moreover have "rounds_down y (nvPrevPow2_U64 y)" unfolding rounds_down_def prev_pow2_smear
    using smeared_prev [OF bit_smear64, of y] by (simp add: smear64_def)
  ultimately show ?thesis by blast
qed

lemma lowest_bit:
  fixes x :: "'a::len word"
  assumes "x \<noteq> 0"
  obtains l where "l < LENGTH('a)" "LOWESTBIT x = push_bit l 1" "Min {i. bit x i} = l"
proof -
  have fin: "finite {i. bit x i}" by (rule finite_subset [of _ "{..<LENGTH('a)}"]) (auto dest: bit_imp_le_length)
  obtain h where "bit x h" using highest_bit [OF assms] by metis
  then have "Min {i. bit x i} \<in> {i. bit x i}" using fin by (intro Min_in) auto
  then show thesis
    using fin by (intro that [of "Min {i. bit x i}"] LOWESTBIT_least) (auto dest: bit_imp_le_length)
qed

text \<open>
  The position macros name the bit they mean: of a number that is not zero, \<^verbatim>\<open>LOWESTBITIDX_32\<close> and
  \<^verbatim>\<open>LOWESTBITIDX_64\<close> yield the least position that is set, and the loop of \<^verbatim>\<open>HIGHESTBITIDX_32\<close> ends with the
  greatest, which \<^verbatim>\<open>HIGHESTBIT\<close> turns back into the bit; of zero all yield zero or bit zero.
\<close>

theorem bit_positions:
  "(if x = 0 then LOWESTBITIDX_32 x = 0 \<and> HIGHESTBITIDX_32 x = 0
    else unat (LOWESTBITIDX_32 x) = Min {i. bit x i} \<and> unat (HIGHESTBITIDX_32 x) = Max {i. bit x i}) \<and>
   (if y = 0 then LOWESTBITIDX_64 y = 0 else unat (LOWESTBITIDX_64 y) = Min {i. bit y i}) \<and>
   HIGHESTBIT x = (if x = 0 then 1 else push_bit (Max {i. bit x i}) 1)"
proof -
  have z: "LOWESTBITIDX_32 0 = 0" "HIGHESTBITIDX_32 0 = 0" "LOWESTBITIDX_64 0 = 0"
    by (simp_all add: LOWESTBITIDX_32_def LOWESTBITIDX_64_def HIGHESTBITIDX_32_def LOWESTBIT_def BIT_IDX_32_def
        BIT_IDX_64_def highest_loop.simps)
  have low: "unat (LOWESTBITIDX_32 x) = Min {i. bit x i}" if "x \<noteq> 0"
    using that by (rule lowest_bit) (simp add: LOWESTBITIDX_32_def BIT_IDX_32_bit unat_small_nat del: push_bit_of_1)
  have low64: "unat (LOWESTBITIDX_64 y) = Min {i. bit y i}" if "y \<noteq> 0"
    using that by (rule lowest_bit) (simp add: LOWESTBITIDX_64_def BIT_IDX_64_bit unat_small_nat del: push_bit_of_1)
  have high: "unat (HIGHESTBITIDX_32 x) = Max {i. bit x i}" if "x \<noteq> 0"
  proof (rule highest_bit [OF that])
    fix h assume h: "h < LENGTH(32)" "bit x h" "\<And>j. bit x j \<Longrightarrow> j \<le> h" "2 ^ h \<le> unat x" "unat x < 2 ^ (h + 1)"
    have "finite {i. bit x i}" by (rule finite_subset [of _ "{..h}"]) (auto dest: h(3))
    then have "Max {i. bit x i} = h" using h(2,3) by (intro Max_eqI) auto
    then show ?thesis using highest_loop_value [OF h(4,5), of 0] h(1) by (simp add: HIGHESTBITIDX_32_def unat_small_nat)
  qed
  show ?thesis using z low low64 high by (cases "x = 0"; cases "y = 0") (simp_all add: HIGHESTBIT_def)
qed

lemma nth_set_bit:
  "if unat n < popcount m
   then \<exists>i. i < 32 \<and> nvGetNthSetBitIndex32 m n = int i \<and> bit m i \<and> card {j. j < i \<and> bit m j} = unat n \<and>
          nvMaskPos32 m (of_nat i) = n
   else nvGetNthSetBitIndex32 m n = - 1"
proof (cases "unat n < popcount m")
  case True
  define i where "i = set_bits_of m ! unat n"
  have b: "bit m i" and c: "card {j. j < i \<and> bit m j} = unat n" using set_bits_of_nth [OF True] by (simp_all add: i_def)
  have i: "i < 32" using bit_imp_le_length [OF b] by simp
  then have u: "unat (of_nat i :: NvU32) = i" by (simp add: unat_small_nat)
  have "unat (nvMaskPos32 m (of_nat i)) = unat n" using nvMaskPos32_card [of "of_nat i" m] c i unfolding u by simp
  then have "nvMaskPos32 m (of_nat i) = n" by (simp add: word_unat_eq_iff)
  then show ?thesis using True b c i by (auto simp: nvGetNthSetBitIndex32_nth i_def)
qed (simp add: nvGetNthSetBitIndex32_nth)

text \<open>
  C35: Counting set bits. The two branch-free population counts of \<^verbatim>\<open>nvmisc.h\<close> return the number of set bits of every
  32-bit and every 64-bit word. \<^verbatim>\<open>nvGetNthSetBitIndex32\<close> walks the mask and returns the position of a set bit
  that has exactly \<open>n\<close> set bits below it, the one to which \<^verbatim>\<open>nvMaskPos32\<close> gives the number \<open>n\<close> back; when the mask
  has \<open>n\<close> bits or fewer it returns minus one.
\<close>

theorem set_bit_counting:
  "unat (nvPopCount32 x) = popcount x \<and> unat (nvPopCount64 y) = popcount y \<and>
   (if unat n < popcount m
    then \<exists>i. i < 32 \<and> nvGetNthSetBitIndex32 m n = int i \<and> bit m i \<and> card {j. j < i \<and> bit m j} = unat n \<and>
           nvMaskPos32 m (of_nat i) = n
    else nvGetNthSetBitIndex32 m n = - 1)"
  by (intro conjI nvPopCount32_popcount nvPopCount64_popcount nth_set_bit)

end
