(* ===== verification/Nv_Drf.thy ===== *)
theory Nv_Drf
  imports Nv_Bits
begin
unbundle bit_operations_syntax

text \<open>
  The register-field macros of \<^verbatim>\<open>nvmisc.h\<close>: a field is a range of bits written \<^verbatim>\<open>high:low\<close>; there are macros
  that read, shift in place, set and test a field of a 32-bit register, of a 64-bit one, of an array of 32-bit
  words (where a read may span two words) and of a stream of bytes. What they all promise, that a field set is
  read back and every other bit is kept, is one interface, which the three writable forms implement. The forms
  with an index argument (\<^verbatim>\<open>DRF_IDX_...\<close>, \<^verbatim>\<open>FLD_IDX_...\<close>) are these at the field of that index, and the forms by
  full name (\<^verbatim>\<open>REF_...\<close>) differ in the spelling of the field only, except where \<^verbatim>\<open>REF_DEF\<close> masks its constant.
\<close>

section \<open>Definitions\<close>

record drf_field =
  drf_high :: nat
  drf_low :: nat

text \<open>A field of a 32-bit register.\<close>

definition DRF_SHIFT :: "drf_field \<Rightarrow> nat" where
  "DRF_SHIFT drf = drf_low drf mod 32"

definition DRF_SHIFT_RT :: "drf_field \<Rightarrow> nat" where
  "DRF_SHIFT_RT drf = drf_high drf mod 32"

definition DRF_SIZE :: "drf_field \<Rightarrow> nat" where
  "DRF_SIZE drf = drf_high drf - drf_low drf + 1"

definition DRF_MASK :: "drf_field \<Rightarrow> NvU32" where
  "DRF_MASK drf = drop_bit (31 - DRF_SHIFT_RT drf + DRF_SHIFT drf) 0xFFFFFFFF"

definition DRF_SHIFTMASK :: "drf_field \<Rightarrow> NvU32" where
  "DRF_SHIFTMASK drf = push_bit (DRF_SHIFT drf) (DRF_MASK drf)"

definition DRF_DEF :: "drf_field \<Rightarrow> NvU32 \<Rightarrow> NvU32" where
  "DRF_DEF drf c = push_bit (DRF_SHIFT drf) c"

definition DRF_NUM :: "drf_field \<Rightarrow> NvU32 \<Rightarrow> NvU32" where
  "DRF_NUM drf n = push_bit (DRF_SHIFT drf) (n AND DRF_MASK drf)"

definition DRF_VAL :: "drf_field \<Rightarrow> NvU32 \<Rightarrow> NvU32" where
  "DRF_VAL drf v = drop_bit (DRF_SHIFT drf) v AND DRF_MASK drf"

definition DRF_VAL_SIGNED :: "drf_field \<Rightarrow> NvU32 \<Rightarrow> NvU32" where
  "DRF_VAL_SIGNED drf v = (DRF_VAL drf v XOR push_bit (DRF_SIZE drf - 1) 1) - push_bit (DRF_SIZE drf - 1) 1"

definition FLD_SET_DRF :: "drf_field \<Rightarrow> NvU32 \<Rightarrow> NvU32 \<Rightarrow> NvU32" where
  "FLD_SET_DRF drf c v = (v AND NOT (DRF_SHIFTMASK drf)) OR DRF_DEF drf c"

definition FLD_SET_DRF_NUM :: "drf_field \<Rightarrow> NvU32 \<Rightarrow> NvU32 \<Rightarrow> NvU32" where
  "FLD_SET_DRF_NUM drf n v = (v AND NOT (DRF_SHIFTMASK drf)) OR DRF_NUM drf n"

definition FLD_TEST_DRF :: "drf_field \<Rightarrow> NvU32 \<Rightarrow> NvU32 \<Rightarrow> bool" where
  "FLD_TEST_DRF drf c v \<longleftrightarrow> DRF_VAL drf v = c"

definition REF_DEF :: "drf_field \<Rightarrow> NvU32 \<Rightarrow> NvU32" where
  "REF_DEF drf d = push_bit (DRF_SHIFT drf) (d AND DRF_MASK drf)"

text \<open>The loop of \<^verbatim>\<open>FLD_IDX_OR_DRF_DEF\<close> over the fields of index zero to the one before \<open>s\<close>.\<close>

fun or_fields :: "(nat \<Rightarrow> drf_field) \<Rightarrow> NvU32 \<Rightarrow> nat \<Rightarrow> nat \<Rightarrow> NvU32 \<Rightarrow> NvU32" where
  "or_fields drf c idx 0 v = v"
| "or_fields drf c idx (Suc rest) v = or_fields drf c (idx + 1) rest (v OR DRF_DEF (drf idx) c)"

definition FLD_IDX_OR_DRF_DEF :: "(nat \<Rightarrow> drf_field) \<Rightarrow> NvU32 \<Rightarrow> nat \<Rightarrow> NvU32 \<Rightarrow> NvU32" where
  "FLD_IDX_OR_DRF_DEF drf c s v = or_fields drf c 0 s v"

text \<open>A field of a 64-bit register.\<close>

definition DRF_SHIFT64 :: "drf_field \<Rightarrow> nat" where
  "DRF_SHIFT64 drf = drf_low drf mod 64"

definition DRF_MASK64 :: "drf_field \<Rightarrow> NvU64" where
  "DRF_MASK64 drf = drop_bit (63 - drf_high drf mod 64 + drf_low drf mod 64) 0xFFFFFFFFFFFFFFFF"

definition DRF_SHIFTMASK64 :: "drf_field \<Rightarrow> NvU64" where
  "DRF_SHIFTMASK64 drf = push_bit (DRF_SHIFT64 drf) (DRF_MASK64 drf)"

definition DRF_DEF64 :: "drf_field \<Rightarrow> NvU64 \<Rightarrow> NvU64" where
  "DRF_DEF64 drf c = push_bit (DRF_SHIFT64 drf) c"

definition DRF_NUM64 :: "drf_field \<Rightarrow> NvU64 \<Rightarrow> NvU64" where
  "DRF_NUM64 drf n = push_bit (DRF_SHIFT64 drf) (n AND DRF_MASK64 drf)"

definition DRF_VAL64 :: "drf_field \<Rightarrow> NvU64 \<Rightarrow> NvU64" where
  "DRF_VAL64 drf v = drop_bit (DRF_SHIFT64 drf) v AND DRF_MASK64 drf"

definition DRF_VAL_SIGNED64 :: "drf_field \<Rightarrow> NvU64 \<Rightarrow> NvU64" where
  "DRF_VAL_SIGNED64 drf v = (DRF_VAL64 drf v XOR NVBIT64 (DRF_SIZE drf - 1)) - NVBIT64 (DRF_SIZE drf - 1)"

definition FLD_SET_DRF64 :: "drf_field \<Rightarrow> NvU64 \<Rightarrow> NvU64 \<Rightarrow> NvU64" where
  "FLD_SET_DRF64 drf c v = (v AND NOT (DRF_SHIFTMASK64 drf)) OR DRF_DEF64 drf c"

definition FLD_SET_DRF_NUM64 :: "drf_field \<Rightarrow> NvU64 \<Rightarrow> NvU64 \<Rightarrow> NvU64" where
  "FLD_SET_DRF_NUM64 drf n v = (v AND NOT (DRF_SHIFTMASK64 drf)) OR DRF_NUM64 drf n"

text \<open>
  \<^verbatim>\<open>REF_NUM64\<close> as it is compiled under the strict checking rules, where the field's ends are taken modulo 63.
\<close>

definition REF_NUM64_strict :: "drf_field \<Rightarrow> NvU64 \<Rightarrow> NvU64" where
  "REF_NUM64_strict drf n =
     push_bit (drf_low drf mod 63) (n AND drop_bit (63 - drf_high drf mod 63 + drf_low drf mod 63) 0xFFFFFFFFFFFFFFFF)"

definition REF_NUM64 :: "drf_field \<Rightarrow> NvU64 \<Rightarrow> NvU64" where
  "REF_NUM64 drf n = push_bit (DRF_SHIFT64 drf) (n AND DRF_MASK64 drf)"

text \<open>A field of an array of 32-bit words.\<close>

definition DRF_WORD_MW :: "drf_field \<Rightarrow> nat" where
  "DRF_WORD_MW drf = drf_low drf div 32"

definition DRF_BASE_MW :: "drf_field \<Rightarrow> nat" where
  "DRF_BASE_MW drf = drf_low drf mod 32"

definition DRF_EXTENT_MW :: "drf_field \<Rightarrow> nat" where
  "DRF_EXTENT_MW drf = drf_high drf mod 32"

definition DRF_SHIFT_MW :: "drf_field \<Rightarrow> nat" where
  "DRF_SHIFT_MW drf = drf_low drf mod 32"

definition DRF_MASK_MW :: "drf_field \<Rightarrow> NvU32" where
  "DRF_MASK_MW drf = drop_bit ((31 - DRF_EXTENT_MW drf + DRF_BASE_MW drf) mod 32) 0xFFFFFFFF"

definition DRF_SHIFTMASK_MW :: "drf_field \<Rightarrow> NvU32" where
  "DRF_SHIFTMASK_MW drf = push_bit (DRF_SHIFT_MW drf) (DRF_MASK_MW drf)"

definition DRF_DEF_MW :: "drf_field \<Rightarrow> NvU32 \<Rightarrow> NvU32" where
  "DRF_DEF_MW drf c = push_bit (DRF_SHIFT_MW drf) c"

definition DRF_NUM_MW :: "drf_field \<Rightarrow> NvU32 \<Rightarrow> NvU32" where
  "DRF_NUM_MW drf n = push_bit (DRF_SHIFT_MW drf) (n AND DRF_MASK_MW drf)"

definition DRF_VAL_MW_1WORD :: "drf_field \<Rightarrow> NvU32 list \<Rightarrow> NvU32" where
  "DRF_VAL_MW_1WORD drf v = drop_bit (DRF_SHIFT_MW drf) (v ! DRF_WORD_MW drf) AND DRF_MASK_MW drf"

definition DRF_SPANS :: "drf_field \<Rightarrow> bool" where
  "DRF_SPANS drf \<longleftrightarrow> drf_low drf div 32 \<noteq> drf_high drf div 32"

definition DRF_WORD_MW_LOW :: "drf_field \<Rightarrow> nat" where
  "DRF_WORD_MW_LOW drf = drf_low drf div 32"

definition DRF_WORD_MW_HIGH :: "drf_field \<Rightarrow> nat" where
  "DRF_WORD_MW_HIGH drf = drf_high drf div 32"

definition DRF_MASK_MW_LOW :: "drf_field \<Rightarrow> NvU32" where
  "DRF_MASK_MW_LOW drf = 0xFFFFFFFF"

definition DRF_MASK_MW_HIGH :: "drf_field \<Rightarrow> NvU32" where
  "DRF_MASK_MW_HIGH drf = drop_bit (31 - DRF_EXTENT_MW drf) 0xFFFFFFFF"

definition DRF_SHIFT_MW_LOW :: "drf_field \<Rightarrow> nat" where
  "DRF_SHIFT_MW_LOW drf = drf_low drf mod 32"

definition DRF_SHIFT_MW_HIGH :: "drf_field \<Rightarrow> nat" where
  "DRF_SHIFT_MW_HIGH drf = 0"

definition DRF_MERGE_SHIFT :: "drf_field \<Rightarrow> nat" where
  "DRF_MERGE_SHIFT drf = (32 - drf_low drf mod 32) mod 32"

text \<open>What both spanning reads do with the two words.\<close>

definition merge_words :: "drf_field \<Rightarrow> NvU32 \<Rightarrow> NvU32 \<Rightarrow> NvU32" where
  "merge_words drf low high =
     (drop_bit (DRF_SHIFT_MW_LOW drf) low AND DRF_MASK_MW_LOW drf) OR
     push_bit (DRF_MERGE_SHIFT drf) (drop_bit (DRF_SHIFT_MW_HIGH drf) high AND DRF_MASK_MW_HIGH drf)"

definition DRF_VAL_MW_2WORD :: "drf_field \<Rightarrow> NvU32 list \<Rightarrow> NvU32" where
  "DRF_VAL_MW_2WORD drf v = merge_words drf (v ! DRF_WORD_MW_LOW drf) (v ! DRF_WORD_MW_HIGH drf)"

definition DRF_VAL_MW :: "drf_field \<Rightarrow> NvU32 list \<Rightarrow> NvU32" where
  "DRF_VAL_MW drf v = (if DRF_SPANS drf then DRF_VAL_MW_2WORD drf v else DRF_VAL_MW_1WORD drf v)"

definition FLD_MERGE_MW :: "drf_field \<Rightarrow> NvU32 \<Rightarrow> NvU32 list \<Rightarrow> NvU32" where
  "FLD_MERGE_MW drf n v = (v ! DRF_WORD_MW drf AND NOT (DRF_SHIFTMASK_MW drf)) OR n"

definition FLD_ASSIGN_MW :: "drf_field \<Rightarrow> NvU32 \<Rightarrow> NvU32 list \<Rightarrow> NvU32 list" where
  "FLD_ASSIGN_MW drf n v = v[DRF_WORD_MW drf := FLD_MERGE_MW drf n v]"

definition FLD_SET_DRF_NUM_MW :: "drf_field \<Rightarrow> NvU32 \<Rightarrow> NvU32 list \<Rightarrow> NvU32 list" where
  "FLD_SET_DRF_NUM_MW drf n v = FLD_ASSIGN_MW drf (DRF_NUM_MW drf n) v"

definition FLD_SET_DRF_DEF_MW :: "drf_field \<Rightarrow> NvU32 \<Rightarrow> NvU32 list \<Rightarrow> NvU32 list" where
  "FLD_SET_DRF_DEF_MW drf c v = FLD_ASSIGN_MW drf (DRF_DEF_MW drf c) v"

text \<open>
  A field of a stream of bytes. A read past the end of the stream, which may fault, is \<open>None\<close>.
\<close>

definition stream_byte :: "NvU8 list \<Rightarrow> nat \<Rightarrow> NvU8 option" where
  "stream_byte v k = (if k < length v then Some (v ! k) else None)"

definition or_byte :: "NvU32 option \<Rightarrow> NvU8 list \<Rightarrow> nat \<Rightarrow> nat \<Rightarrow> NvU32 option" where
  "or_byte acc v k shift =
     (case acc of
        None \<Rightarrow> None
      | Some a \<Rightarrow> (case stream_byte v k of None \<Rightarrow> None | Some b \<Rightarrow> Some (a OR push_bit shift (ucast b))))"

definition read_1byte :: "nat \<Rightarrow> NvU8 list \<Rightarrow> NvU32 option" where
  "read_1byte word v = map_option ucast (stream_byte v (word * 4))"

definition read_2byte :: "nat \<Rightarrow> NvU8 list \<Rightarrow> NvU32 option" where
  "read_2byte word v = or_byte (read_1byte word v) v (word * 4 + 1) 8"

definition read_3byte :: "nat \<Rightarrow> NvU8 list \<Rightarrow> NvU32 option" where
  "read_3byte word v = or_byte (read_2byte word v) v (word * 4 + 2) 16"

definition read_4byte :: "nat \<Rightarrow> NvU8 list \<Rightarrow> NvU32 option" where
  "read_4byte word v = or_byte (read_3byte word v) v (word * 4 + 3) 24"

definition DRF_READ_4BYTE_BS :: "drf_field \<Rightarrow> NvU8 list \<Rightarrow> NvU32 option" where
  "DRF_READ_4BYTE_BS drf v = read_4byte (DRF_WORD_MW drf) v"

text \<open>As many bytes of the word as the field's upper end needs.\<close>

definition read_word :: "nat \<Rightarrow> nat \<Rightarrow> NvU8 list \<Rightarrow> NvU32 option" where
  "read_word extent word v =
     (if extent < 8 then read_1byte word v
      else if extent < 16 then read_2byte word v
      else if extent < 24 then read_3byte word v
      else read_4byte word v)"

definition DRF_READ_1WORD_BS :: "drf_field \<Rightarrow> NvU8 list \<Rightarrow> NvU32 option" where
  "DRF_READ_1WORD_BS drf v = read_word (DRF_EXTENT_MW drf) (DRF_WORD_MW drf) v"

definition DRF_READ_1WORD_BS_HIGH :: "drf_field \<Rightarrow> NvU8 list \<Rightarrow> NvU32 option" where
  "DRF_READ_1WORD_BS_HIGH drf v = read_word (DRF_EXTENT_MW drf) (DRF_WORD_MW_HIGH drf) v"

definition DRF_VAL_BS_1WORD :: "drf_field \<Rightarrow> NvU8 list \<Rightarrow> NvU32 option" where
  "DRF_VAL_BS_1WORD drf v = map_option (\<lambda>w. drop_bit (DRF_SHIFT_MW drf) w AND DRF_MASK_MW drf) (DRF_READ_1WORD_BS drf v)"

definition DRF_VAL_BS_2WORD :: "drf_field \<Rightarrow> NvU8 list \<Rightarrow> NvU32 option" where
  "DRF_VAL_BS_2WORD drf v =
     (case DRF_READ_4BYTE_BS drf v of
        None \<Rightarrow> None
      | Some low \<Rightarrow> map_option (merge_words drf low) (DRF_READ_1WORD_BS_HIGH drf v))"

definition DRF_VAL_BS :: "drf_field \<Rightarrow> NvU8 list \<Rightarrow> NvU32 option" where
  "DRF_VAL_BS drf v = (if DRF_SPANS drf then DRF_VAL_BS_2WORD drf v else DRF_VAL_BS_1WORD drf v)"

section \<open>The interface of a writable field\<close>

definition in_field :: "drf_field \<Rightarrow> nat \<Rightarrow> bool" where
  "in_field drf j \<longleftrightarrow> drf_low drf \<le> j \<and> j \<le> drf_high drf"

definition apart :: "drf_field \<Rightarrow> drf_field \<Rightarrow> bool" where
  "apart f g \<longleftrightarrow> drf_high f < drf_low g \<or> drf_high g < drf_low f"

text \<open>
  A store of bits with a reader and a writer of its fields: \<open>fits\<close> says which fields the store has, \<open>bit_at\<close> what it
  holds, and two stores of one shape with the same bits are the same.
\<close>

locale field_store =
  fixes fits :: "drf_field \<Rightarrow> 's \<Rightarrow> bool"
    and bit_at :: "'s \<Rightarrow> nat \<Rightarrow> bool"
    and shape :: "'s \<Rightarrow> nat"
    and val :: "drf_field \<Rightarrow> 's \<Rightarrow> 'w::len word"
    and put :: "drf_field \<Rightarrow> 'w word \<Rightarrow> 's \<Rightarrow> 's"
  assumes fits_order: "fits f s \<Longrightarrow> drf_low f \<le> drf_high f"
    and val_bit: "fits f s \<Longrightarrow> bit (val f s) i \<longleftrightarrow> i < DRF_SIZE f \<and> bit_at s (drf_low f + i)"
    and put_bit: "fits f s \<Longrightarrow> bit_at (put f n s) j \<longleftrightarrow> (if in_field f j then bit n (j - drf_low f) else bit_at s j)"
    and put_shape: "fits f s \<Longrightarrow> shape (put f n s) = shape s"
    and fits_shape: "shape s = shape t \<Longrightarrow> fits f s \<Longrightarrow> fits f t"
    and same_bits: "shape s = shape t \<Longrightarrow> (\<And>j. bit_at s j \<longleftrightarrow> bit_at t j) \<Longrightarrow> s = t"
begin

lemma put_fits: "fits f s \<Longrightarrow> fits g s \<Longrightarrow> fits g (put f n s)"
  using fits_shape [of s "put f n s" g] put_shape by simp

lemma in_own_field: "fits f s \<Longrightarrow> in_field f (drf_low f + i) \<longleftrightarrow> i < DRF_SIZE f"
  using fits_order [of f s] by (auto simp: in_field_def DRF_SIZE_def)

lemma read_back: "fits f s \<Longrightarrow> val f (put f n s) = take_bit (DRF_SIZE f) n"
  by (rule bit_word_eqI) (simp add: val_bit put_bit put_fits in_own_field bit_take_bit_iff)

lemma read_other:
  assumes "fits f s" "fits g s" "apart f g"
  shows "val g (put f n s) = val g s"
proof (rule bit_word_eqI)
  fix i
  have "i < DRF_SIZE g \<Longrightarrow> \<not> in_field f (drf_low g + i)"
    using assms fits_order [of g s] by (auto simp: apart_def in_field_def DRF_SIZE_def)
  then show "bit (val g (put f n s)) i \<longleftrightarrow> bit (val g s) i" using assms by (auto simp: val_bit put_bit put_fits)
qed

lemma put_read: "fits f s \<Longrightarrow> put f (val f s) s = s"
  by (rule same_bits) (auto simp: put_shape put_bit val_bit in_field_def DRF_SIZE_def)

lemma put_twice: "fits f s \<Longrightarrow> put f m (put f n s) = put f m s"
  by (rule same_bits) (auto simp: put_shape put_bit put_fits)

lemma put_commute:
  assumes "fits f s" "fits g s" "apart f g"
  shows "put f m (put g n s) = put g n (put f m s)"
proof (rule same_bits)
  have "\<not> (in_field f j \<and> in_field g j)" for j using assms(3) by (auto simp: apart_def in_field_def)
  then show "bit_at (put f m (put g n s)) j \<longleftrightarrow> bit_at (put g n (put f m s)) j" for j
    using assms by (auto simp: put_bit put_fits)
qed (simp add: put_shape put_fits assms)

end

section \<open>The three stores\<close>

text \<open>A mask of ones shifted down leaves the ones of the field.\<close>

lemma ones_shifted:
  fixes w :: "'a::len word"
  assumes "w = - 1" "l \<le> h" "h < LENGTH('a)"
  shows "bit (drop_bit (LENGTH('a) - 1 - h + l) w) i \<longleftrightarrow> i < h - l + 1"
  using assms(2,3) unfolding assms(1) bit_drop_bit_eq comp_apply bit_minus_1_iff possible_bit_word by linarith

lemma all_ones: "(0xFFFFFFFF :: NvU32) = - 1" "(0xFFFFFFFFFFFFFFFF :: NvU64) = - 1"
  by simp_all

definition fits32 :: "drf_field \<Rightarrow> NvU32 \<Rightarrow> bool" where
  "fits32 f v \<longleftrightarrow> drf_low f \<le> drf_high f \<and> drf_high f < 32"

definition fits64 :: "drf_field \<Rightarrow> NvU64 \<Rightarrow> bool" where
  "fits64 f v \<longleftrightarrow> drf_low f \<le> drf_high f \<and> drf_high f < 64"

definition fits_words :: "drf_field \<Rightarrow> NvU32 list \<Rightarrow> bool" where
  "fits_words f v \<longleftrightarrow> drf_low f \<le> drf_high f \<and> \<not> DRF_SPANS f \<and> drf_high f div 32 < length v"

text \<open>The bits of an array of words, none beyond its end.\<close>

definition words_bit :: "NvU32 list \<Rightarrow> nat \<Rightarrow> bool" where
  "words_bit v j \<longleftrightarrow> j div 32 < length v \<and> bit (v ! (j div 32)) (j mod 32)"

text \<open>Replacing the bits of a field in one word, whatever the width.\<close>

lemma set_field_bit:
  fixes v n :: "'a::len word"
  assumes "\<And>i. bit msk i \<longleftrightarrow> i < h - l + 1" "l \<le> h" "h < LENGTH('a)"
  shows "bit ((v AND NOT (push_bit l msk)) OR push_bit l (n AND msk)) j \<longleftrightarrow>
    (if l \<le> j \<and> j \<le> h then bit n (j - l) else bit v j)"
proof (cases "j < LENGTH('a)")
  case True
  then have "bit (push_bit l x) j \<longleftrightarrow> l \<le> j \<and> bit x (j - l)" for x :: "'a word" by (simp add: bit_push_bit_iff)
  moreover have "bit (v AND NOT x) j \<longleftrightarrow> bit v j \<and> \<not> bit x j" for x :: "'a word"
    using True by (simp add: bit_and_iff bit_not_iff)
  moreover have "j - l < h - l + 1 \<longleftrightarrow> j \<le> h" if "l \<le> j" using that assms(2) by linarith
  ultimately show ?thesis unfolding bit_or_iff by (auto simp: bit_and_iff assms(1))
next
  case False
  then have "\<not> (l \<le> j \<and> j \<le> h)" using assms(3) by simp
  then show ?thesis using False by (auto simp: not_less dest: bit_imp_le_length)
qed

lemma DRF_MASK_bit: "fits32 f v \<Longrightarrow> bit (DRF_MASK f) i \<longleftrightarrow> i < DRF_SIZE f"
  using ones_shifted [OF all_ones(1), of "drf_low f" "drf_high f" i]
  by (simp add: fits32_def DRF_MASK_def DRF_SHIFT_RT_def DRF_SHIFT_def DRF_SIZE_def)

lemma DRF_MASK64_bit: "fits64 f v \<Longrightarrow> bit (DRF_MASK64 f) i \<longleftrightarrow> i < DRF_SIZE f"
  using ones_shifted [OF all_ones(2), of "drf_low f" "drf_high f" i]
  by (simp add: fits64_def DRF_MASK64_def DRF_SIZE_def)

interpretation reg32: field_store fits32 bit "\<lambda>v. 0" DRF_VAL FLD_SET_DRF_NUM
proof
  fix f s n i j
  assume f: "fits32 f s"
  then show "drf_low f \<le> drf_high f" by (simp add: fits32_def)
  have sh: "DRF_SHIFT f = drf_low f" using f by (simp add: DRF_SHIFT_def fits32_def)
  show "bit (DRF_VAL f s) i \<longleftrightarrow> i < DRF_SIZE f \<and> bit s (drf_low f + i)"
    by (auto simp: DRF_VAL_def sh bit_and_iff bit_drop_bit_eq DRF_MASK_bit [OF f])
  show "bit (FLD_SET_DRF_NUM f n s) j \<longleftrightarrow> (if in_field f j then bit n (j - drf_low f) else bit s j)"
    unfolding FLD_SET_DRF_NUM_def DRF_SHIFTMASK_def DRF_NUM_def sh in_field_def
    using f by (intro set_field_bit) (simp_all add: DRF_MASK_bit [OF f] fits32_def DRF_SIZE_def)
qed (auto simp: fits32_def intro: bit_eqI)

interpretation reg64: field_store fits64 bit "\<lambda>v. 0" DRF_VAL64 FLD_SET_DRF_NUM64
proof
  fix f s n i j
  assume f: "fits64 f s"
  then show "drf_low f \<le> drf_high f" by (simp add: fits64_def)
  have sh: "DRF_SHIFT64 f = drf_low f" using f by (simp add: DRF_SHIFT64_def fits64_def)
  show "bit (DRF_VAL64 f s) i \<longleftrightarrow> i < DRF_SIZE f \<and> bit s (drf_low f + i)"
    by (auto simp: DRF_VAL64_def sh bit_and_iff bit_drop_bit_eq DRF_MASK64_bit [OF f])
  show "bit (FLD_SET_DRF_NUM64 f n s) j \<longleftrightarrow> (if in_field f j then bit n (j - drf_low f) else bit s j)"
    unfolding FLD_SET_DRF_NUM64_def DRF_SHIFTMASK64_def DRF_NUM64_def sh in_field_def
    using f by (intro set_field_bit) (simp_all add: DRF_MASK64_bit [OF f] fits64_def DRF_SIZE_def)
qed (auto simp: fits64_def intro: bit_eqI)

lemma place_32: "c < 32 \<Longrightarrow> (32 * q + c) div 32 = q" "c < 32 \<Longrightarrow> (32 * q + c) mod 32 = c" for c q :: nat
  by simp_all

text \<open>The word that holds a field which does not span, and the field's place in it.\<close>

lemma in_one_word:
  assumes "drf_low f \<le> drf_high f" "\<not> DRF_SPANS f"
  shows "drf_low f mod 32 \<le> drf_high f mod 32" "drf_high f mod 32 - drf_low f mod 32 = drf_high f - drf_low f"
    "in_field f j \<longleftrightarrow> j div 32 = drf_low f div 32 \<and> drf_low f mod 32 \<le> j mod 32 \<and> j mod 32 \<le> drf_high f mod 32"
    "i < DRF_SIZE f \<Longrightarrow> (drf_low f + i) div 32 = drf_low f div 32 \<and> (drf_low f + i) mod 32 = drf_low f mod 32 + i"
proof -
  define q a b where "q = drf_low f div 32" and "a = drf_low f mod 32" and "b = drf_high f mod 32"
  have l: "drf_low f = 32 * q + a" and h: "drf_high f = 32 * q + b" and ab: "a < 32" "b < 32"
    using assms(2) div_mult_mod_eq [of "drf_low f" 32] div_mult_mod_eq [of "drf_high f" 32]
    by (simp_all add: q_def a_def b_def DRF_SPANS_def)
  show "drf_low f mod 32 \<le> drf_high f mod 32" "drf_high f mod 32 - drf_low f mod 32 = drf_high f - drf_low f"
    using assms(1) ab by (simp_all add: l h)
  define r c where "r = j div 32" and "c = j mod 32"
  have j: "j = 32 * r + c" "c < 32" by (simp_all add: r_def c_def)
  have "32 * q + a \<le> 32 * r + c \<and> 32 * r + c \<le> 32 * q + b \<longleftrightarrow> r = q \<and> a \<le> c \<and> c \<le> b"
    using ab j(2) by (cases r q rule: linorder_cases) auto
  then show "in_field f j \<longleftrightarrow> j div 32 = drf_low f div 32 \<and> drf_low f mod 32 \<le> j mod 32 \<and> j mod 32 \<le> drf_high f mod 32"
    using ab by (simp add: in_field_def l h j)
  show "(drf_low f + i) div 32 = drf_low f div 32 \<and> (drf_low f + i) mod 32 = drf_low f mod 32 + i" if "i < DRF_SIZE f"
  proof -
    have "a + i < 32" using that ab assms(1) by (simp add: DRF_SIZE_def l h)
    then show ?thesis using place_32 [of "a + i" q] ab by (simp add: l add.assoc)
  qed
qed

lemma DRF_MASK_MW_bit:
  assumes "drf_low f \<le> drf_high f" "\<not> DRF_SPANS f"
  shows "bit (DRF_MASK_MW f) i \<longleftrightarrow> i < DRF_SIZE f"
proof -
  note w = in_one_word(1,2) [OF assms]
  have "(31 - DRF_EXTENT_MW f + DRF_BASE_MW f) mod 32 = 31 - drf_high f mod 32 + drf_low f mod 32"
    using w(1) mod_less_divisor [of 32 "drf_high f"] by (simp add: DRF_EXTENT_MW_def DRF_BASE_MW_def)
  then show ?thesis
    using ones_shifted [OF all_ones(1), of "drf_low f mod 32" "drf_high f mod 32" i] w
    unfolding DRF_MASK_MW_def by (simp only: DRF_SIZE_def len_of_numeral_defs) simp
qed

lemma word_field_bit:
  assumes "drf_low f \<le> drf_high f" "\<not> DRF_SPANS f"
  shows "bit (drop_bit (DRF_SHIFT_MW f) w AND DRF_MASK_MW f) i \<longleftrightarrow> i < DRF_SIZE f \<and> bit w ((drf_low f + i) mod 32)"
  using DRF_MASK_MW_bit [OF assms] in_one_word(4) [OF assms] by (auto simp: bit_and_iff bit_drop_bit_eq DRF_SHIFT_MW_def)

interpretation regs: field_store fits_words words_bit length DRF_VAL_MW FLD_SET_DRF_NUM_MW
proof
  fix f s n i j
  assume "fits_words f s"
  then show le: "drf_low f \<le> drf_high f" by (simp add: fits_words_def)
  have ns: "\<not> DRF_SPANS f" and len: "drf_low f div 32 < length s"
    using \<open>fits_words f s\<close> by (auto simp: fits_words_def DRF_SPANS_def)
  show "bit (DRF_VAL_MW f s) i \<longleftrightarrow> i < DRF_SIZE f \<and> words_bit s (drf_low f + i)"
    unfolding DRF_VAL_MW_def DRF_VAL_MW_1WORD_def DRF_WORD_MW_def
    using len ns in_one_word(4) [OF le ns, of i] by (auto simp: word_field_bit [OF le ns] words_bit_def)
  show "length (FLD_SET_DRF_NUM_MW f n s) = length s" by (simp add: FLD_SET_DRF_NUM_MW_def FLD_ASSIGN_MW_def)
  define k where "k = drf_low f div 32"
  have w: "bit (FLD_MERGE_MW f (DRF_NUM_MW f n) s) i \<longleftrightarrow>
      (if drf_low f mod 32 \<le> i \<and> i \<le> drf_high f mod 32 then bit n (i - drf_low f mod 32) else bit (s ! k) i)" for i
    unfolding FLD_MERGE_MW_def DRF_NUM_MW_def DRF_SHIFTMASK_MW_def DRF_SHIFT_MW_def DRF_WORD_MW_def k_def
    using in_one_word(1,2) [OF le ns] by (intro set_field_bit) (simp_all add: DRF_MASK_MW_bit [OF le ns] DRF_SIZE_def)
  have sub: "j - drf_low f = j mod 32 - drf_low f mod 32" if "j div 32 = k"
    using that div_mult_mod_eq [of j 32] div_mult_mod_eq [of "drf_low f" 32] unfolding k_def by linarith
  show "words_bit (FLD_SET_DRF_NUM_MW f n s) j \<longleftrightarrow> (if in_field f j then bit n (j - drf_low f) else words_bit s j)"
    using len sub unfolding in_one_word(3) [OF le ns] FLD_SET_DRF_NUM_MW_def FLD_ASSIGN_MW_def words_bit_def DRF_WORD_MW_def
    by (cases "j div 32 = k") (auto simp: w k_def)
next
  fix s t :: "NvU32 list"
  assume len: "length s = length t" and b: "\<And>j. words_bit s j \<longleftrightarrow> words_bit t j"
  show "s = t"
  proof (intro nth_equalityI len bit_word_eqI)
    fix k i assume "k < length s" "i < LENGTH(32)"
    then show "bit (s ! k) i \<longleftrightarrow> bit (t ! k) i" using b [of "32 * k + i"] len by (simp add: words_bit_def)
  qed
qed (auto simp: fits_words_def)

section \<open>Reads that span two words\<close>

lemma merge_words_bit:
  assumes "DRF_SPANS f" "drf_low f \<le> drf_high f" "DRF_SIZE f \<le> 32"
  shows "bit (merge_words f lo hi) i \<longleftrightarrow>
    i < DRF_SIZE f \<and> bit (if (drf_low f + i) div 32 = drf_low f div 32 then lo else hi) ((drf_low f + i) mod 32)"
    "drf_high f div 32 = drf_low f div 32 + 1"
    "i < DRF_SIZE f \<Longrightarrow> (drf_low f + i) div 32 = drf_low f div 32 \<or> (drf_low f + i) div 32 = drf_high f div 32"
proof -
  define q a b where "q = drf_low f div 32" and "a = drf_low f mod 32" and "b = drf_high f mod 32"
  have l: "drf_low f = 32 * q + a" and a: "a < 32" "b < 32" by (simp_all add: q_def a_def b_def)
  have "drf_high f div 32 * 32 + b = drf_high f" by (simp add: b_def)
  moreover have "drf_high f div 32 \<noteq> q" using assms(1) by (simp add: DRF_SPANS_def q_def)
  ultimately have hq: "drf_high f div 32 = q + 1" using assms(2,3) l a by (simp add: DRF_SIZE_def)
  then show "drf_high f div 32 = drf_low f div 32 + 1" by (simp add: q_def)
  have h: "drf_high f = 32 * q + 32 + b" using hq by (simp add: b_def) (metis add.commute add.left_commute hq mod_mult_div_eq mult_Suc_right)
  have a0: "0 < a" "b < a" using assms(3) l h by (simp_all add: DRF_SIZE_def)
  have size: "DRF_SIZE f = 32 - a + (b + 1)" using l h a a0 by (simp add: DRF_SIZE_def)
  have m: "bit (merge_words f lo hi) i \<longleftrightarrow> bit lo (a + i) \<or> 32 - a \<le> i \<and> i < 32 \<and> bit hi (i - (32 - a)) \<and> i - (32 - a) \<le> b"
  proof -
    have "bit (DRF_MASK_MW_HIGH f) k \<longleftrightarrow> k \<le> b" for k
      using ones_shifted [OF all_ones(1), of 0 b k] a unfolding DRF_MASK_MW_HIGH_def DRF_EXTENT_MW_def b_def [symmetric]
      by (simp only: len_of_numeral_defs) (simp add: less_Suc_eq_le)
    moreover have "DRF_MERGE_SHIFT f = 32 - a" using a0 by (simp add: DRF_MERGE_SHIFT_def flip: a_def)
    moreover have "DRF_MASK_MW_LOW f = - 1" by (simp add: DRF_MASK_MW_LOW_def)
    ultimately show ?thesis
      unfolding merge_words_def DRF_SHIFT_MW_LOW_def DRF_SHIFT_MW_HIGH_def a_def [symmetric]
      by (auto simp: bit_or_iff bit_and_iff bit_push_bit_iff bit_drop_bit_eq)
  qed
  show "bit (merge_words f lo hi) i \<longleftrightarrow>
    i < DRF_SIZE f \<and> bit (if (drf_low f + i) div 32 = drf_low f div 32 then lo else hi) ((drf_low f + i) mod 32)"
  proof (cases "i < 32 - a")
    case True
    then have "drf_low f + i = 32 * q + (a + i)" "a + i < 32" by (simp_all add: l)
    moreover from this have "i < 32 - a + (b + 1)" by linarith
    ultimately show ?thesis using True unfolding m size q_def [symmetric] by (simp only: place_32) simp
  next
    case False
    define c where "c = i - (32 - a)"
    have i: "i = 32 - a + c" using False by (simp add: c_def)
    then have low: "drf_low f + i = 32 * (q + 1) + c" using a by (simp add: l)
    have lo: "\<not> bit lo (a + i)" using bit_imp_le_length [of lo "a + i"] False a by auto
    have lt: "i < 32 - a + (b + 1) \<longleftrightarrow> c \<le> b" unfolding i by linarith
    show ?thesis
    proof (cases "c \<le> b")
      case True
      then have "c < 32" "i < 32" using a a0 i by linarith+
      then show ?thesis using True False lo unfolding m size q_def [symmetric] lt low c_def [symmetric] by (simp only: place_32) simp
    next
      case False
      then show ?thesis using lo unfolding m size lt c_def [symmetric] by simp
    qed
  qed
  show "(drf_low f + i) div 32 = drf_low f div 32 \<or> (drf_low f + i) div 32 = drf_high f div 32" if "i < DRF_SIZE f"
    using that a l h assms(3) by (auto simp: DRF_SIZE_def)
qed

lemma DRF_VAL_MW_bits:
  assumes "drf_low f \<le> drf_high f" "DRF_SIZE f \<le> 32" "drf_high f div 32 < length v"
  shows "bit (DRF_VAL_MW f v) i \<longleftrightarrow> i < DRF_SIZE f \<and> words_bit v (drf_low f + i)"
proof (cases "DRF_SPANS f")
  case True
  note m = merge_words_bit [OF True assms(1,2)]
  show ?thesis
    using True assms(3) m(2) m(3) [of i]
    by (auto simp: DRF_VAL_MW_def DRF_VAL_MW_2WORD_def m(1) words_bit_def DRF_WORD_MW_LOW_def DRF_WORD_MW_HIGH_def)
next
  case False
  then show ?thesis using assms by (intro regs.val_bit) (simp add: fits_words_def)
qed

section \<open>Byte streams\<close>

definition stream_bit :: "NvU8 list \<Rightarrow> nat \<Rightarrow> bool" where
  "stream_bit v j \<longleftrightarrow> j div 8 < length v \<and> bit (v ! (j div 8)) (j mod 8)"

text \<open>A read of some bytes of a word: it needs those bytes only and yields their bits.\<close>

definition reads_bytes :: "nat \<Rightarrow> nat \<Rightarrow> NvU8 list \<Rightarrow> NvU32 option \<Rightarrow> bool" where
  "reads_bytes word n v r \<longleftrightarrow>
     (\<exists>w. r = Some w \<and> (\<forall>i. bit w i \<longleftrightarrow> i < 8 * n \<and> stream_bit v (32 * word + i)))"

lemma stream_bit_place: "b < 8 \<Longrightarrow> stream_bit v (32 * word + (8 * k + b)) \<longleftrightarrow> word * 4 + k < length v \<and> bit (v ! (word * 4 + k)) b"
proof -
  assume "b < 8"
  then have "(8 * q + b) div 8 = q" "(8 * q + b) mod 8 = b" for q by simp_all
  moreover have "32 * word + (8 * k + b) = 8 * (word * 4 + k) + b" by simp
  ultimately show ?thesis unfolding stream_bit_def by (simp only:)
qed

lemma read_1byte_reads: "word * 4 < length v \<Longrightarrow> reads_bytes word 1 v (read_1byte word v)"
  using stream_bit_place [where k = 0 and word = word and v = v] bit_imp_le_length [of "v ! (word * 4)"]
  by (force simp: reads_bytes_def read_1byte_def stream_byte_def bit_unsigned_iff)

lemma or_byte_reads:
  assumes "reads_bytes word k v r" "word * 4 + k < length v" "0 < k" "k < 4" "p = word * 4 + k" "sh = 8 * k"
  shows "reads_bytes word (k + 1) v (or_byte r v p sh)"
proof -
  obtain w where r: "r = Some w" and w: "\<And>i. bit w i \<longleftrightarrow> i < 8 * k \<and> stream_bit v (32 * word + i)"
    using assms(1) by (auto simp: reads_bytes_def)
  define x where "x = v ! (word * 4 + k)"
  have "bit (w OR push_bit (8 * k) (ucast x)) i \<longleftrightarrow> i < 8 * (k + 1) \<and> stream_bit v (32 * word + i)" for i
  proof (cases "8 * k \<le> i")
    case True
    define b where "b = i - 8 * k"
    have i: "i = 8 * k + b" using True by (simp add: b_def)
    show ?thesis
    proof (cases "b < 8")
      case True
      then show ?thesis using assms(2,4) stream_bit_place [OF True, of v word k] unfolding i
        by (simp add: bit_or_iff w bit_push_bit_iff bit_unsigned_iff x_def)
    next
      case False
      then show ?thesis using bit_imp_le_length [of x b] unfolding i
        by (auto simp: bit_or_iff w bit_push_bit_iff bit_unsigned_iff)
    qed
  qed (auto simp: bit_or_iff w bit_push_bit_iff)
  then show ?thesis using assms(2) unfolding reads_bytes_def or_byte_def r assms(5,6) stream_byte_def x_def by simp
qed

lemma more_bytes_read:
  "word * 4 + 1 < length v \<Longrightarrow> reads_bytes word 2 v (read_2byte word v)"
  "word * 4 + 2 < length v \<Longrightarrow> reads_bytes word 3 v (read_3byte word v)"
  "word * 4 + 3 < length v \<Longrightarrow> reads_bytes word 4 v (read_4byte word v)"
proof -
  show two: "reads_bytes word 2 v (read_2byte word v)" if "word * 4 + 1 < length v"
    using or_byte_reads [OF read_1byte_reads, of word v "word * 4 + 1" 8] that unfolding read_2byte_def by (simp add: numeral_2_eq_2)
  show three: "reads_bytes word 3 v (read_3byte word v)" if "word * 4 + 2 < length v"
    using or_byte_reads [OF two, of "word * 4 + 2" 16] that unfolding read_3byte_def by simp
  show "reads_bytes word 4 v (read_4byte word v)" if "word * 4 + 3 < length v"
    using or_byte_reads [OF three, of "word * 4 + 3" 24] that unfolding read_4byte_def by simp
qed

text \<open>The byte that holds the upper end of the field is the last one read.\<close>

lemma read_word_reads:
  assumes "word * 4 + extent div 8 < length v" "extent < 32"
  obtains w where "read_word extent word v = Some w" "\<And>i. i \<le> extent \<Longrightarrow> bit w i \<longleftrightarrow> stream_bit v (32 * word + i)"
proof -
  define n where "n = extent div 8 + 1"
  have len: "word * 4 + n \<le> length v" using assms(1) by (simp add: n_def)
  consider "extent < 8" "n = 1" | "8 \<le> extent" "extent < 16" "n = 2" | "16 \<le> extent" "extent < 24" "n = 3" | "24 \<le> extent" "n = 4"
    using assms(2) unfolding n_def by linarith
  then have "reads_bytes word n v (read_word extent word v)"
    using len read_1byte_reads [of word v] more_bytes_read [of word v] by cases (simp_all add: read_word_def)
  moreover have "i < 8 * n" if "i \<le> extent" for i using that unfolding n_def by presburger
  ultimately show thesis using that unfolding reads_bytes_def by blast
qed

lemma byte_in_word: "n div 32 * 4 + n mod 32 div 8 = n div 8" for n :: nat
proof -
  define q e where "q = n div 32" and "e = n mod 32"
  have "n = 32 * q + e" by (simp add: q_def e_def)
  then have "n div 8 = (8 * (4 * q) + e) div 8" by simp
  also have "\<dots> = 4 * q + e div 8" by (rule div_mult_self4) simp
  finally show ?thesis by (simp add: q_def e_def)
qed

lemma DRF_VAL_BS_bits:
  assumes "drf_low f \<le> drf_high f" "DRF_SIZE f \<le> 32" "drf_high f div 8 < length v"
  obtains w where "DRF_VAL_BS f v = Some w" "\<And>i. bit w i \<longleftrightarrow> i < DRF_SIZE f \<and> stream_bit v (drf_low f + i)"
proof -
  define e where "e = drf_high f mod 32"
  have e: "drf_high f = 32 * (drf_high f div 32) + e" "e < 32" by (simp_all add: e_def)
  have "drf_high f div 32 * 4 + e div 8 = drf_high f div 8" unfolding e_def by (rule byte_in_word)
  then obtain hi where hi: "read_word e (drf_high f div 32) v = Some hi"
      "\<And>i. i \<le> e \<Longrightarrow> bit hi i \<longleftrightarrow> stream_bit v (32 * (drf_high f div 32) + i)"
    using read_word_reads [of "drf_high f div 32" e v] assms(3) e(2) by auto
  have top: "bit hi ((drf_low f + i) mod 32) \<longleftrightarrow> stream_bit v (drf_low f + i)"
    if "i < DRF_SIZE f" "(drf_low f + i) div 32 = drf_high f div 32" for i
  proof -
    have j: "32 * (drf_high f div 32) + (drf_low f + i) mod 32 = drf_low f + i" using that(2) by (metis mult_div_mod_eq)
    moreover have "drf_low f + i \<le> drf_high f" using that(1) assms(1) by (simp add: DRF_SIZE_def)
    ultimately have "(drf_low f + i) mod 32 \<le> e" using e(1) by linarith
    then show ?thesis using hi(2) j by simp
  qed
  show thesis
  proof (cases "DRF_SPANS f")
    case False
    then have same: "drf_low f div 32 = drf_high f div 32" by (simp add: DRF_SPANS_def)
    then have "DRF_VAL_BS f v = Some (drop_bit (DRF_SHIFT_MW f) hi AND DRF_MASK_MW f)"
      using False hi(1) by (simp add: DRF_VAL_BS_def DRF_VAL_BS_1WORD_def DRF_READ_1WORD_BS_def DRF_EXTENT_MW_def DRF_WORD_MW_def e_def)
    moreover have "bit (drop_bit (DRF_SHIFT_MW f) hi AND DRF_MASK_MW f) i \<longleftrightarrow> i < DRF_SIZE f \<and> stream_bit v (drf_low f + i)" for i
      using word_field_bit [OF assms(1) False] top [of i] in_one_word(4) [OF assms(1) False, of i] same by auto
    ultimately show thesis by (rule that)
  next
    case True
    note m = merge_words_bit [OF True assms(1,2)]
    define q where "q = drf_low f div 32"
    have "q * 4 + 3 < length v" using m(2) e assms(3) unfolding q_def [symmetric] by linarith
    then obtain lo where lo: "read_4byte q v = Some lo" "\<And>i. bit lo i \<longleftrightarrow> i < 32 \<and> stream_bit v (32 * q + i)"
      using more_bytes_read(3) [of q v] by (auto simp: reads_bytes_def)
    have "DRF_VAL_BS f v = Some (merge_words f lo hi)"
      using True lo(1) hi(1) by (simp add: DRF_VAL_BS_def DRF_VAL_BS_2WORD_def DRF_READ_4BYTE_BS_def DRF_READ_1WORD_BS_HIGH_def
          DRF_EXTENT_MW_def DRF_WORD_MW_def DRF_WORD_MW_HIGH_def e_def q_def)
    moreover have "bit (merge_words f lo hi) i \<longleftrightarrow> i < DRF_SIZE f \<and> stream_bit v (drf_low f + i)" for i
    proof (cases "(drf_low f + i) div 32 = q")
      case True
      then have "32 * q + (drf_low f + i) mod 32 = drf_low f + i" by (metis mult_div_mod_eq)
      then show ?thesis using True unfolding m(1) q_def [symmetric] by (simp add: lo(2))
    next
      case False
      then show ?thesis using m(3) [of i] top [of i] unfolding m(1) q_def [symmetric] by auto
    qed
    ultimately show thesis by (rule that)
  qed
qed

text \<open>And a stream that ends before that byte is not read.\<close>

lemma read_word_short:
  assumes "length v \<le> word * 4 + extent div 8" "extent < 32"
  shows "read_word extent word v = None"
proof -
  have short: "or_byte r v k sh = None" if "length v \<le> k" for r k sh
    using that by (simp add: or_byte_def stream_byte_def split: option.split)
  consider "extent < 8" "extent div 8 = 0" | "8 \<le> extent" "extent < 16" "extent div 8 = 1"
    | "16 \<le> extent" "extent < 24" "extent div 8 = 2" | "24 \<le> extent" "extent div 8 = 3" using assms(2) by linarith
  then show ?thesis
    using assms(1) short
    by cases (simp_all add: read_word_def read_1byte_def read_2byte_def read_3byte_def read_4byte_def stream_byte_def)
qed

lemma DRF_VAL_BS_short:
  assumes "length v \<le> drf_high f div 8"
  shows "DRF_VAL_BS f v = None"
proof -
  have "drf_high f div 32 * 4 + drf_high f mod 32 div 8 = drf_high f div 8" by (rule byte_in_word)
  then have "read_word (drf_high f mod 32) (drf_high f div 32) v = None" using assms by (intro read_word_short) simp_all
  then show ?thesis
    by (auto simp: DRF_VAL_BS_def DRF_VAL_BS_1WORD_def DRF_VAL_BS_2WORD_def DRF_READ_1WORD_BS_def DRF_READ_1WORD_BS_HIGH_def
        DRF_EXTENT_MW_def DRF_WORD_MW_def DRF_WORD_MW_HIGH_def DRF_SPANS_def split: option.split)
qed

section \<open>Constants, signed reads and indexed fields\<close>

text \<open>A constant that fits its field needs no mask, so the two setters agree on it and the test finds it.\<close>

lemma set_constant:
  assumes "fits32 f v" "take_bit (DRF_SIZE f) c = c"
  shows "FLD_SET_DRF f c v = FLD_SET_DRF_NUM f c v" "FLD_TEST_DRF f c (FLD_SET_DRF f c v)" "REF_DEF f c = DRF_DEF f c"
proof -
  have "c AND DRF_MASK f = take_bit (DRF_SIZE f) c"
    by (rule bit_word_eqI) (auto simp: bit_and_iff bit_take_bit_iff DRF_MASK_bit [OF assms(1)])
  then have c: "c AND DRF_MASK f = c" using assms(2) by simp
  then show "FLD_SET_DRF f c v = FLD_SET_DRF_NUM f c v"
    by (simp add: FLD_SET_DRF_def FLD_SET_DRF_NUM_def DRF_DEF_def DRF_NUM_def)
  then show "FLD_TEST_DRF f c (FLD_SET_DRF f c v)" using reg32.read_back [OF assms(1), of c] assms(2) by (simp add: FLD_TEST_DRF_def)
  show "REF_DEF f c = DRF_DEF f c" using c by (simp add: REF_DEF_def DRF_DEF_def)
qed

lemma set_constant64:
  assumes "fits64 f v" "take_bit (DRF_SIZE f) c = c"
  shows "FLD_SET_DRF64 f c v = FLD_SET_DRF_NUM64 f c v"
proof -
  have "c AND DRF_MASK64 f = take_bit (DRF_SIZE f) c"
    by (rule bit_word_eqI) (auto simp: bit_and_iff bit_take_bit_iff DRF_MASK64_bit [OF assms(1)])
  then show ?thesis using assms(2) by (simp add: FLD_SET_DRF64_def FLD_SET_DRF_NUM64_def DRF_DEF64_def DRF_NUM64_def)
qed

lemma set_constant_words:
  assumes "fits_words f v" "take_bit (DRF_SIZE f) c = c"
  shows "FLD_SET_DRF_DEF_MW f c v = FLD_SET_DRF_NUM_MW f c v"
proof -
  have "c AND DRF_MASK_MW f = take_bit (DRF_SIZE f) c"
    using assms(1) DRF_MASK_MW_bit [of f] by (intro bit_word_eqI) (auto simp: bit_and_iff bit_take_bit_iff fits_words_def)
  then show ?thesis using assms(2) by (simp add: FLD_SET_DRF_DEF_MW_def FLD_SET_DRF_NUM_MW_def DRF_DEF_MW_def DRF_NUM_MW_def)
qed

text \<open>Flipping the sign bit and subtracting it extends the sign.\<close>

lemma flip_and_subtract:
  fixes x :: "'a::len word"
  assumes "\<And>i. bit x i \<Longrightarrow> i < n + 1" "n < LENGTH('a)"
  shows "(x XOR 2 ^ n) - 2 ^ n = signed_take_bit n x"
proof -
  have p: "bit (2 ^ n :: 'a word) i \<longleftrightarrow> i = n" for i using assms(2) by (auto simp: bit_exp_iff)
  show ?thesis
  proof (cases "bit x n")
    case True
    have "x XOR 2 ^ n = take_bit n x"
      using True assms(1) by (intro bit_word_eqI) (auto simp: bit_xor_iff p bit_take_bit_iff less_Suc_eq)
    moreover have "take_bit n x + NOT (mask n) = take_bit n x OR NOT (mask n)"
      by (rule disjunctive_add) (auto simp: bit_take_bit_iff bit_not_iff bit_mask_iff)
    moreover have "- (2 ^ n :: 'a word) = NOT (mask n)" by (simp add: minus_exp_eq_not_mask)
    ultimately show ?thesis using True by (simp add: signed_take_bit_eq_if_negative) (metis diff_conv_add_uminus)
  next
    case False
    then have below: "i < n" if "bit x i" for i using that assms(1) [OF that] by (cases "i = n") auto
    then have "x XOR 2 ^ n = x OR 2 ^ n" "take_bit n x = x"
      using False by (auto intro!: bit_word_eqI simp: bit_xor_iff bit_or_iff p bit_take_bit_iff)
    moreover have "x + 2 ^ n = x OR 2 ^ n" by (rule disjunctive_add) (use False in \<open>auto simp: p\<close>)
    ultimately have "(x XOR 2 ^ n) - 2 ^ n = x" by (metis add_diff_cancel_right')
    then show ?thesis using False \<open>take_bit n x = x\<close> by (simp add: signed_take_bit_eq_if_positive)
  qed
qed

lemma signed_reads:
  "fits32 f v \<Longrightarrow> DRF_VAL_SIGNED f v = signed_take_bit (DRF_SIZE f - 1) (DRF_VAL f v)"
  "fits64 f w \<Longrightarrow> DRF_VAL_SIGNED64 f w = signed_take_bit (DRF_SIZE f - 1) (DRF_VAL64 f w)"
proof -
  show "DRF_VAL_SIGNED f v = signed_take_bit (DRF_SIZE f - 1) (DRF_VAL f v)" if "fits32 f v"
    unfolding DRF_VAL_SIGNED_def push_bit_of_1 using that
    by (intro flip_and_subtract) (auto simp: reg32.val_bit fits32_def DRF_SIZE_def)
  show "DRF_VAL_SIGNED64 f w = signed_take_bit (DRF_SIZE f - 1) (DRF_VAL64 f w)" if "fits64 f w"
    unfolding DRF_VAL_SIGNED64_def NVBIT64_def push_bit_of_1 using that
    by (intro flip_and_subtract) (auto simp: reg64.val_bit fits64_def DRF_SIZE_def)
qed

lemma or_fields_bit:
  "bit (or_fields drf c idx s v) j \<longleftrightarrow> bit v j \<or> (\<exists>k < s. bit (DRF_DEF (drf (idx + k)) c) j)"
proof (induction s arbitrary: idx v)
  case (Suc s)
  have "(\<exists>k < Suc s. P k) \<longleftrightarrow> P 0 \<or> (\<exists>k < s. P (Suc k))" for P :: "nat \<Rightarrow> bool" by (auto simp: less_Suc_eq_0_disj)
  then show ?case by (simp add: Suc.IH bit_or_iff disj_assoc)
qed simp

text \<open>The loop over the indexed fields sets the constant in each and clears nothing.\<close>

lemma FLD_IDX_OR_DRF_DEF_bit:
  "bit (FLD_IDX_OR_DRF_DEF drf c s v) j \<longleftrightarrow> bit v j \<or> (\<exists>idx < s. bit (DRF_DEF (drf idx) c) j)"
  unfolding FLD_IDX_OR_DRF_DEF_def or_fields_bit by simp

text \<open>
  Under the strict rules the place of a field that ends at bit 63 is lost: the remainder is taken by 63, not 64.
\<close>

lemma REF_NUM64_strict_wrong:
  "REF_NUM64_strict \<lparr>drf_high = 63, drf_low = 63\<rparr> 1 = 1" "REF_NUM64 \<lparr>drf_high = 63, drf_low = 63\<rparr> 1 = 2 ^ 63"
  "drf_low f \<le> drf_high f \<Longrightarrow> drf_high f < 63 \<Longrightarrow> REF_NUM64_strict f n = REF_NUM64 f n"
  by (simp_all add: REF_NUM64_strict_def REF_NUM64_def DRF_SHIFT64_def DRF_MASK64_def)

section \<open>Properties\<close>

text \<open>The number whose bits are those the field names.\<close>

definition field_of :: "drf_field \<Rightarrow> (nat \<Rightarrow> bool) \<Rightarrow> NvU32" where
  "field_of f P = horner_sum of_bool 2 (map (\<lambda>i. P (drf_low f + i)) [0..<DRF_SIZE f])"

lemma field_ofI: "DRF_SIZE f \<le> 32 \<Longrightarrow> (\<And>i. bit w i \<longleftrightarrow> i < DRF_SIZE f \<and> P (drf_low f + i)) \<Longrightarrow> w = field_of f P"
proof (rule bit_word_eqI)
  fix n assume "n < LENGTH(32)"
  assume "\<And>i. bit w i \<longleftrightarrow> i < DRF_SIZE f \<and> P (drf_low f + i)"
  then show "bit w n \<longleftrightarrow> bit (field_of f P) n"
    using \<open>n < LENGTH(32)\<close> unfolding field_of_def bit_horner_sum_bit_word_iff by (cases "n < DRF_SIZE f") simp_all
qed

text \<open>
  C33: A field read spans two words or two bytes as it needs to: of a field of at most 32 bits, \<^verbatim>\<open>DRF_VAL_MW\<close> on an
  array of words and \<^verbatim>\<open>DRF_VAL_BS\<close> on a stream of bytes return exactly the bits the field names, wherever it lies.
  The read of the stream stays within it when the byte that holds the field's upper end is the last one, and a
  stream that ends before that byte is not enough: no byte beyond the field is read.
\<close>

theorem spanning_reads:
  assumes "drf_low f \<le> drf_high f" "DRF_SIZE f \<le> 32" "drf_high f div 32 < length words"
  shows "DRF_VAL_MW f words = field_of f (words_bit words) \<and>
    DRF_VAL_BS f bytes = (if drf_high f div 8 < length bytes then Some (field_of f (stream_bit bytes)) else None)"
proof (intro conjI)
  show "DRF_VAL_MW f words = field_of f (words_bit words)"
    using DRF_VAL_MW_bits [OF assms] by (intro field_ofI assms(2))
  show "DRF_VAL_BS f bytes = (if drf_high f div 8 < length bytes then Some (field_of f (stream_bit bytes)) else None)"
  proof (cases "drf_high f div 8 < length bytes")
    case True
    then obtain w where "DRF_VAL_BS f bytes = Some w" "\<And>i. bit w i \<longleftrightarrow> i < DRF_SIZE f \<and> stream_bit bytes (drf_low f + i)"
      by (rule DRF_VAL_BS_bits [OF assms(1,2)]) blast
    then show ?thesis using True field_ofI [OF assms(2)] by simp
  qed (simp add: DRF_VAL_BS_short)
qed

theorem spanning_reads_witness:
  "DRF_VAL_MW \<lparr>drf_high = 39, drf_low = 28\<rparr> [0xA0000000, 0x5C] = 0x5CA \<and>
   DRF_VAL_BS \<lparr>drf_high = 39, drf_low = 28\<rparr> [0, 0, 0, 0xA0, 0x5C] = Some 0x5CA"
proof -
  have "field_of \<lparr>drf_high = 39, drf_low = 28\<rparr> (words_bit [0xA0000000, 0x5C]) = 0x5CA"
    "field_of \<lparr>drf_high = 39, drf_low = 28\<rparr> (stream_bit [0, 0, 0, 0xA0, 0x5C]) = 0x5CA"
    by (simp_all add: field_of_def DRF_SIZE_def words_bit_def stream_bit_def upt_rec)
  then show ?thesis
    using spanning_reads [of "\<lparr>drf_high = 39, drf_low = 28\<rparr>" "[0xA0000000, 0x5C]" "[0, 0, 0, 0xA0, 0x5C]"]
    by (simp add: DRF_SIZE_def)
qed

text \<open>
  C34: Setting a field and reading fields, of a 32-bit register, a 64-bit one and an array of words: the field set is
  read back, cut to its width; a field apart from it is read as before; writing back what was read changes
  nothing; and two fields that are apart may be set in either order.
\<close>

theorem fields_read_back:
  assumes "apart f g"
  shows "(fits32 f v \<and> fits32 g v \<longrightarrow>
      DRF_VAL f (FLD_SET_DRF_NUM f n v) = take_bit (DRF_SIZE f) n \<and> DRF_VAL g (FLD_SET_DRF_NUM f n v) = DRF_VAL g v \<and>
      FLD_SET_DRF_NUM f (DRF_VAL f v) v = v \<and>
      FLD_SET_DRF_NUM f n (FLD_SET_DRF_NUM g m v) = FLD_SET_DRF_NUM g m (FLD_SET_DRF_NUM f n v)) \<and>
    (fits64 f w \<and> fits64 g w \<longrightarrow>
      DRF_VAL64 f (FLD_SET_DRF_NUM64 f k w) = take_bit (DRF_SIZE f) k \<and> DRF_VAL64 g (FLD_SET_DRF_NUM64 f k w) = DRF_VAL64 g w \<and>
      FLD_SET_DRF_NUM64 f (DRF_VAL64 f w) w = w \<and>
      FLD_SET_DRF_NUM64 f k (FLD_SET_DRF_NUM64 g l w) = FLD_SET_DRF_NUM64 g l (FLD_SET_DRF_NUM64 f k w)) \<and>
    (fits_words f vs \<and> fits_words g vs \<longrightarrow>
      DRF_VAL_MW f (FLD_SET_DRF_NUM_MW f n vs) = take_bit (DRF_SIZE f) n \<and> DRF_VAL_MW g (FLD_SET_DRF_NUM_MW f n vs) = DRF_VAL_MW g vs \<and>
      FLD_SET_DRF_NUM_MW f (DRF_VAL_MW f vs) vs = vs \<and>
      FLD_SET_DRF_NUM_MW f n (FLD_SET_DRF_NUM_MW g m vs) = FLD_SET_DRF_NUM_MW g m (FLD_SET_DRF_NUM_MW f n vs))"
  using assms reg32.put_commute [of f v g n m] reg64.put_commute [of f w g k l] regs.put_commute [of f vs g n m]
  by (simp add: reg32.read_back reg32.read_other reg32.put_read reg64.read_back reg64.read_other reg64.put_read
      regs.read_back regs.read_other regs.put_read)

theorem fields_read_back_witness:
  "DRF_VAL \<lparr>drf_high = 31, drf_low = 28\<rparr> (FLD_SET_DRF_NUM \<lparr>drf_high = 31, drf_low = 28\<rparr> 0x1F 0x1234) = 0xF \<and>
   DRF_VAL \<lparr>drf_high = 27, drf_low = 0\<rparr> (FLD_SET_DRF_NUM \<lparr>drf_high = 31, drf_low = 28\<rparr> 0x1F 0x1234) = 0x1234"
proof -
  have "apart \<lparr>drf_high = 31, drf_low = 28\<rparr> \<lparr>drf_high = 27, drf_low = 0\<rparr>" by (simp add: apart_def)
  moreover have "fits32 \<lparr>drf_high = 31, drf_low = 28\<rparr> 0x1234" "fits32 \<lparr>drf_high = 27, drf_low = 0\<rparr> 0x1234"
    by (simp_all add: fits32_def)
  moreover have "DRF_VAL \<lparr>drf_high = 27, drf_low = 0\<rparr> 0x1234 = 0x1234"
    by (simp add: DRF_VAL_def DRF_SHIFT_def DRF_MASK_def DRF_SHIFT_RT_def)
  ultimately show ?thesis
    using fields_read_back [of "\<lparr>drf_high = 31, drf_low = 28\<rparr>" "\<lparr>drf_high = 27, drf_low = 0\<rparr>" "0x1234" "0x1F" 0]
    by (simp add: DRF_SIZE_def)
qed

end
