(* ===== verification/Nv_Arith.thy ===== *)
theory Nv_Arith
  imports Nv_Bits Rm_Memory
begin
unbundle bit_operations_syntax

text \<open>
  The rest of the computing macros and functions of NVIDIA's \<^verbatim>\<open>nvmisc.h\<close> and \<^verbatim>\<open>nvtypes.h\<close>: 64-bit numbers kept as
  two 32-bit halves, rounding divisions and shifts, alignment to a power of two, the bits of a pair of words,
  and the byte loops for memory and strings. The loops are what the port's own string instructions
  (\<open>Rm_Memory\<close>) are compared with.
\<close>

section \<open>Definitions\<close>

definition NvU64_HI32 :: "NvU64 \<Rightarrow> NvU32" where
  "NvU64_HI32 n = ucast (drop_bit 32 n AND 0xffffffff)"

definition NvU64_LO32 :: "NvU64 \<Rightarrow> NvU32" where
  "NvU64_LO32 n = ucast (n AND 0xffffffff)"

record NvU64_ALIGN32 =
  al_lo :: NvU32
  al_hi :: NvU32

definition NvU64_ALIGN32_PACK :: "NvU64 \<Rightarrow> NvU64_ALIGN32" where
  "NvU64_ALIGN32_PACK src = \<lparr>al_lo = NvU64_LO32 src, al_hi = NvU64_HI32 src\<rparr>"

definition NvU64_ALIGN32_VAL :: "NvU64_ALIGN32 \<Rightarrow> NvU64" where
  "NvU64_ALIGN32_VAL src = ucast (al_lo src) OR push_bit 32 (ucast (al_hi src))"

definition NvU64_ALIGN32_UNPACK :: "NvU64_ALIGN32 \<Rightarrow> NvU64" where
  "NvU64_ALIGN32_UNPACK src = NvU64_ALIGN32_VAL src"

definition NvU64_ALIGN32_IS_ZERO :: "NvU64_ALIGN32 \<Rightarrow> bool" where
  "NvU64_ALIGN32_IS_ZERO src \<longleftrightarrow> al_lo src = 0 \<and> al_hi src = 0"

definition NvU64_ALIGN32_ADD :: "NvU64_ALIGN32 \<Rightarrow> NvU64_ALIGN32 \<Rightarrow> NvU64_ALIGN32" where
  "NvU64_ALIGN32_ADD src1 src2 =
     (let s1 = NvU64_ALIGN32_UNPACK src1; s2 = NvU64_ALIGN32_UNPACK src2; dst = s1 + s2 in NvU64_ALIGN32_PACK dst)"

definition NvU64_ALIGN32_SUB :: "NvU64_ALIGN32 \<Rightarrow> NvU64_ALIGN32 \<Rightarrow> NvU64_ALIGN32" where
  "NvU64_ALIGN32_SUB src1 src2 =
     (let s1 = NvU64_ALIGN32_UNPACK src1; s2 = NvU64_ALIGN32_UNPACK src2; dst = s1 - s2 in NvU64_ALIGN32_PACK dst)"

text \<open>Rounding. A division by zero has no result.\<close>

definition NV_UNSIGNED_ROUNDED_DIV :: "NvU32 \<Rightarrow> NvU32 \<Rightarrow> NvU32 option" where
  "NV_UNSIGNED_ROUNDED_DIV a b = c_div (a + b div 2) b"

definition NV_UNSIGNED_DIV_CEIL :: "NvU32 \<Rightarrow> NvU32 \<Rightarrow> NvU32 option" where
  "NV_UNSIGNED_DIV_CEIL a b = c_div (a + (b - 1)) b"

definition NV_SUBTRACT_NO_UNDERFLOW :: "NvU32 \<Rightarrow> NvU32 \<Rightarrow> NvU32" where
  "NV_SUBTRACT_NO_UNDERFLOW a b = (if a > b then a - b else 0)"

definition NV_RIGHT_SHIFT_ROUNDED :: "NvU32 \<Rightarrow> nat \<Rightarrow> NvU32" where
  "NV_RIGHT_SHIFT_ROUNDED a shift =
     drop_bit shift a + (if push_bit (shift - 1) 1 AND a = push_bit (shift - 1) 1 then 1 else 0)"

text \<open>Alignment, of a value and a granularity of one type.\<close>

definition NV_ALIGN_DOWN :: "'a::len word \<Rightarrow> 'a word \<Rightarrow> 'a word" where
  "NV_ALIGN_DOWN v gran = v AND NOT (v - v + gran - 1)"

definition NV_ALIGN_UP :: "'a::len word \<Rightarrow> 'a word \<Rightarrow> 'a word" where
  "NV_ALIGN_UP v gran = (v + (gran - 1)) AND NOT (v - v + gran - 1)"

definition NV_IS_ALIGNED :: "'a::len word \<Rightarrow> 'a word \<Rightarrow> bool" where
  "NV_IS_ALIGNED v gran \<longleftrightarrow> 0 = v AND (gran - 1)"

text \<open>Bit \<open>n\<close> of the 128 that two words hold.\<close>

definition NV_BIT_GET :: "nat \<Rightarrow> NvU64 \<Rightarrow> NvU64" where
  "NV_BIT_GET k x = drop_bit k x AND 1"

definition NV_BIT_GET_128 :: "nat \<Rightarrow> NvU64 \<Rightarrow> NvU64 \<Rightarrow> NvU64" where
  "NV_BIT_GET_128 n lo hi = (if n < 64 then NV_BIT_GET n lo else NV_BIT_GET (n - 64) hi)"

definition NV_BIT_SET_128 :: "nat \<Rightarrow> NvU64 \<times> NvU64 \<Rightarrow> NvU64 \<times> NvU64" where
  "NV_BIT_SET_128 b lohi =
     (let (lo, hi) = lohi in if b < 64 then (lo OR NVBIT64 b, hi) else (lo, hi OR NVBIT64 (b AND 0x3F)))"

definition NV_BIT_CLEAR_128 :: "nat \<Rightarrow> NvU64 \<times> NvU64 \<Rightarrow> NvU64 \<times> NvU64" where
  "NV_BIT_CLEAR_128 b lohi =
     (let (lo, hi) = lohi in if b < 64 then (lo AND NOT (NVBIT64 b), hi) else (lo, hi AND NOT (NVBIT64 (b AND 0x3F))))"

text \<open>The byte loops; the first argument of each counts the steps that are left.\<close>

fun memset_loop :: "nat \<Rightarrow> memory \<Rightarrow> NvU64 \<Rightarrow> NvU8 \<Rightarrow> NvU64 \<Rightarrow> memory option" where
  "memset_loop 0 m b c i = Some m"
| "memset_loop (Suc n) m b c i = do { m \<leftarrow> store_byte m (b + i) c; memset_loop n m b c (i + 1) }"

definition NVMISC_MEMSET :: "memory \<Rightarrow> NvU64 \<Rightarrow> NvU8 \<Rightarrow> NvU64 \<Rightarrow> (memory \<times> NvU64) option" where
  "NVMISC_MEMSET m s c n = do { m \<leftarrow> memset_loop (unat n) m s c 0; Some (m, s) }"

fun memcpy_loop :: "nat \<Rightarrow> memory \<Rightarrow> NvU64 \<Rightarrow> NvU64 \<Rightarrow> NvU64 \<Rightarrow> memory option" where
  "memcpy_loop 0 m dest src i = Some m"
| "memcpy_loop (Suc n) m dest src i = do {
     c \<leftarrow> m (src + i);
     m \<leftarrow> store_byte m (dest + i) c;
     memcpy_loop n m dest src (i + 1)
   }"

definition NVMISC_MEMCPY :: "memory \<Rightarrow> NvU64 \<Rightarrow> NvU64 \<Rightarrow> NvU64 \<Rightarrow> (memory \<times> NvU64) option" where
  "NVMISC_MEMCPY m dest src n = do { m \<leftarrow> memcpy_loop (unat n) m dest src 0; Some (m, dest) }"

text \<open>The copying loop stops at the terminator it has copied, with the steps that are left and the index there.\<close>

fun strcpy_loop :: "nat \<Rightarrow> memory \<Rightarrow> NvU64 \<Rightarrow> NvU64 \<Rightarrow> NvU64 \<Rightarrow> (memory \<times> nat \<times> NvU64) option" where
  "strcpy_loop 0 m dest src i = Some (m, 0, i)"
| "strcpy_loop (Suc n) m dest src i = do {
     c \<leftarrow> m (src + i);
     m \<leftarrow> store_byte m (dest + i) c;
     c \<leftarrow> m (src + i);
     if c = 0 then Some (m, Suc n, i) else strcpy_loop n m dest src (i + 1)
   }"

definition NVMISC_STRNCPY :: "memory \<Rightarrow> NvU64 \<Rightarrow> NvU64 \<Rightarrow> NvU64 \<Rightarrow> (memory \<times> NvU64) option" where
  "NVMISC_STRNCPY m dest src n = do {
     (m, left, i) \<leftarrow> strcpy_loop (unat n) m dest src 0;
     m \<leftarrow> memset_loop left m dest 0 i;
     Some (m, dest)
   }"

section \<open>Halves\<close>

lemma pack_unpack: "NvU64_ALIGN32_VAL (NvU64_ALIGN32_PACK n) = n"
proof (rule bit_word_eqI)
  fix i assume "i < LENGTH(64)"
  have ones: "(0xffffffff :: NvU64) = mask 32" by (simp add: mask_eq_exp_minus_1)
  show "bit (NvU64_ALIGN32_VAL (NvU64_ALIGN32_PACK n)) i \<longleftrightarrow> bit n i"
    using \<open>i < LENGTH(64)\<close>
    unfolding NvU64_ALIGN32_VAL_def NvU64_ALIGN32_PACK_def NvU64_LO32_def NvU64_HI32_def ones
    by (cases "i < 32") (auto simp: bit_or_iff bit_push_bit_iff bit_unsigned_iff bit_and_iff bit_mask_iff bit_drop_bit_eq)
qed

lemma unpack_pack: "NvU64_ALIGN32_PACK (NvU64_ALIGN32_VAL a) = a"
proof -
  have ones: "(0xffffffff :: NvU64) = mask 32" by (simp add: mask_eq_exp_minus_1)
  have "NvU64_LO32 (NvU64_ALIGN32_VAL a) = al_lo a"
    unfolding NvU64_ALIGN32_VAL_def NvU64_LO32_def ones
    by (rule bit_word_eqI) (simp add: bit_or_iff bit_push_bit_iff bit_unsigned_iff bit_and_iff bit_mask_iff)
  moreover have "NvU64_HI32 (NvU64_ALIGN32_VAL a) = al_hi a"
    unfolding NvU64_ALIGN32_VAL_def NvU64_HI32_def ones
    by (rule bit_word_eqI) (auto simp: bit_or_iff bit_push_bit_iff bit_unsigned_iff bit_and_iff bit_mask_iff bit_drop_bit_eq
        dest: bit_imp_le_length)
  ultimately show ?thesis by (simp add: NvU64_ALIGN32_PACK_def)
qed

lemma align32_refines:
  "NvU64_ALIGN32_VAL (NvU64_ALIGN32_ADD a b) = NvU64_ALIGN32_VAL a + NvU64_ALIGN32_VAL b"
  "NvU64_ALIGN32_VAL (NvU64_ALIGN32_SUB a b) = NvU64_ALIGN32_VAL a - NvU64_ALIGN32_VAL b"
  "NvU64_ALIGN32_IS_ZERO a \<longleftrightarrow> NvU64_ALIGN32_VAL a = 0"
proof -
  show "NvU64_ALIGN32_VAL (NvU64_ALIGN32_ADD a b) = NvU64_ALIGN32_VAL a + NvU64_ALIGN32_VAL b"
    "NvU64_ALIGN32_VAL (NvU64_ALIGN32_SUB a b) = NvU64_ALIGN32_VAL a - NvU64_ALIGN32_VAL b"
    by (simp_all add: NvU64_ALIGN32_ADD_def NvU64_ALIGN32_SUB_def NvU64_ALIGN32_UNPACK_def pack_unpack)
  have "NvU64_ALIGN32_PACK 0 = \<lparr>al_lo = 0, al_hi = 0\<rparr>"
    by (simp add: NvU64_ALIGN32_PACK_def NvU64_LO32_def NvU64_HI32_def)
  then have "a = \<lparr>al_lo = 0, al_hi = 0\<rparr> \<longleftrightarrow> NvU64_ALIGN32_VAL a = 0" by (metis pack_unpack unpack_pack)
  then show "NvU64_ALIGN32_IS_ZERO a \<longleftrightarrow> NvU64_ALIGN32_VAL a = 0" by (cases a) (simp add: NvU64_ALIGN32_IS_ZERO_def)
qed

section \<open>Alignment and rounding\<close>

lemma unat_take_bit: "unat (take_bit k v) = unat v mod 2 ^ k" for v :: "'a::len word"
  unfolding unsigned_take_bit_eq by (rule take_bit_eq_mod)

lemma unat_shift_right: "unat (drop_bit k v) = unat v div 2 ^ k" for v :: "'a::len word"
  unfolding unat_drop_bit_eq by (rule drop_bit_eq_div)

lemma and_power_eq: "j < LENGTH('a) \<Longrightarrow> 2 ^ j AND a = 2 ^ j \<longleftrightarrow> bit a j" for a :: "'a::len word"
proof -
  assume j: "j < LENGTH('a)"
  have "bit (2 ^ j AND a) i \<longleftrightarrow> i = j \<and> bit a j" for i using j by (auto simp: bit_and_iff bit_exp_iff)
  moreover have "bit (2 ^ j :: 'a word) i \<longleftrightarrow> i = j" for i using j by (auto simp: bit_exp_iff)
  ultimately show ?thesis by (metis bit_word_eqI)
qed

lemma unat_clear_low: "unat (v AND NOT (mask k)) = unat v div 2 ^ k * 2 ^ k" for v :: "'a::len word"
proof -
  have "v AND NOT (mask k) = v AND NOT (take_bit k v)"
    by (rule bit_word_eqI) (auto simp: bit_and_iff bit_not_iff bit_mask_iff bit_take_bit_iff)
  also have "\<dots> = v - take_bit k v" by (rule disjunctive_diff [symmetric]) (simp add: bit_take_bit_iff)
  finally have "unat (v AND NOT (mask k)) = unat v - unat v mod 2 ^ k"
    by (simp add: unat_sub_nowrap unat_take_bit)
  then show ?thesis by (simp add: minus_mod_eq_div_mult)
qed

lemma unat_pow2: "k < LENGTH('a) \<Longrightarrow> unat (2 ^ k :: 'a::len word) = 2 ^ k"
  using unat_small_nat [of "2 ^ k", where 'a = 'a] power_strict_increasing [of k "LENGTH('a)" "2 :: nat"] by simp

lemma align_mask: "v - v + 2 ^ k - 1 = (mask k :: 'a::len word)"
  by (simp add: mask_eq_exp_minus_1)

lemma align_down_div: "unat (NV_ALIGN_DOWN v (2 ^ k)) = unat v div 2 ^ k * 2 ^ k"
  unfolding NV_ALIGN_DOWN_def align_mask by (rule unat_clear_low)

lemma align_up_div:
  fixes v :: "'a::len word"
  assumes "k < LENGTH('a)"
  shows "unat (NV_ALIGN_UP v (2 ^ k)) =
    (if unat v + 2 ^ k \<le> 2 ^ LENGTH('a) then (unat v + (2 ^ k - 1)) div 2 ^ k * 2 ^ k else 0)"
proof -
  have p: "(2 :: nat) ^ k < 2 ^ LENGTH('a)" "(1 :: nat) \<le> 2 ^ k" using assms by simp_all
  have v: "unat v < 2 ^ LENGTH('a)" by (rule unsigned_less)
  have "(1 :: 'a word) \<le> 2 ^ k" using assms by (simp add: word_le_nat_alt unat_pow2)
  then have u: "unat (2 ^ k - 1 :: 'a word) = 2 ^ k - 1" using assms by (simp add: unat_sub_nowrap word_le_nat_alt unat_pow2)
  show ?thesis
  proof (cases "unat v + 2 ^ k \<le> 2 ^ LENGTH('a)")
    case True
    then have "unat (v + (2 ^ k - 1)) = unat v + (2 ^ k - 1)" using p u by (subst unat_add_nowrap) linarith+
    then show ?thesis using True unfolding NV_ALIGN_UP_def align_mask unat_clear_low by simp
  next
    case False
    have "unat (v + (2 ^ k - 1)) = (unat v + (2 ^ k - 1)) mod 2 ^ LENGTH('a)" by (simp add: unat_word_ariths u)
    also have "\<dots> = unat v + (2 ^ k - 1) - 2 ^ LENGTH('a)"
      using False p v by (subst le_mod_geq, linarith, intro mod_less) linarith
    finally have "unat (v + (2 ^ k - 1)) < 2 ^ k" using False p v by linarith
    then show ?thesis using False unfolding NV_ALIGN_UP_def align_mask unat_clear_low by simp
  qed
qed

lemma is_aligned_dvd: "NV_IS_ALIGNED v (2 ^ k) \<longleftrightarrow> 2 ^ k dvd unat v" for v :: "'a::len word"
proof -
  have "v AND (2 ^ k - 1) = take_bit k v" by (simp add: take_bit_eq_mask mask_eq_exp_minus_1)
  then have "NV_IS_ALIGNED v (2 ^ k) \<longleftrightarrow> unat (take_bit k v) = 0" by (auto simp: NV_IS_ALIGNED_def unat_eq_zero_iff)
  then show ?thesis by (simp add: unat_take_bit dvd_eq_mod_eq_0)
qed

text \<open>The rounding shift adds the bit below the point: it rounds to the nearest, halves upwards.\<close>

lemma right_shift_rounded:
  assumes "0 < k" "k < 32"
  shows "unat (NV_RIGHT_SHIFT_ROUNDED a k) = (unat a + 2 ^ (k - 1)) div 2 ^ k"
proof -
  define p q r where "p = (2 :: nat) ^ (k - 1)" and "q = unat a div (2 * p)" and "r = unat a mod (2 * p)"
  have k: "(2 :: nat) ^ k = 2 * p" using assms(1) by (cases k) (simp_all add: p_def)
  have p0: "0 < p" by (simp add: p_def)
  have a: "unat a = 2 * p * q + r" and r: "r < 2 * p" using p0 by (simp_all add: q_def r_def)
  have "bit a (k - 1) \<longleftrightarrow> odd (unat a div p)" using assms unfolding p_def
    by (simp add: bit_unsigned_iff flip: bit_iff_odd)
  also have "unat a div p = 2 * q + r div p" using p0 unfolding a by (simp add: div_add1_eq mult.assoc mult.left_commute [of p])
  also have "odd \<dots> \<longleftrightarrow> p \<le> r"
  proof -
    have "r div p < 2" using r p0 by (simp add: less_mult_imp_div_less)
    moreover have "0 < r div p \<longleftrightarrow> p \<le> r" using p0 by (simp add: div_greater_zero_iff)
    ultimately show ?thesis by (cases "r div p") auto
  qed
  finally have b: "push_bit (k - 1) 1 AND a = push_bit (k - 1) 1 \<longleftrightarrow> p \<le> r"
    using assms by (simp add: push_bit_of_1 and_power_eq)
  have "q < 2 ^ 31" using unat_lt_2p32 [of a] p0 by (simp add: q_def less_mult_imp_div_less)
  then have "unat (NV_RIGHT_SHIFT_ROUNDED a k) = q + (if p \<le> r then 1 else 0)"
    unfolding NV_RIGHT_SHIFT_ROUNDED_def b by (subst unat_add_nowrap) (simp_all add: unat_shift_right k q_def)
  also have "\<dots> = (2 * p * q + (r + p)) div (2 * p)"
  proof (cases "p \<le> r")
    case True
    then have "2 * p * q + (r + p) = 2 * p * (q + 1) + (r - p)" by (simp add: algebra_simps)
    moreover have "(2 * p * (q + 1) + (r - p)) div (2 * p) = q + 1 + (r - p) div (2 * p)" by (rule div_mult_self4) (use p0 in simp)
    ultimately show ?thesis using True r by (simp only:) simp
  next
    case False
    moreover have "(2 * p * q + (r + p)) div (2 * p) = q + (r + p) div (2 * p)" by (rule div_mult_self4) (use p0 in simp)
    ultimately show ?thesis by simp
  qed
  finally show ?thesis unfolding a k p_def [symmetric] by (simp only: add.assoc)
qed

lemma div_round_up: "unat a + unat b \<le> 2 ^ 32 \<Longrightarrow> 0 < unat b \<Longrightarrow>
    map_option unat (NV_UNSIGNED_DIV_CEIL a b) = Some ((unat a + (unat b - 1)) div unat b)"
proof -
  assume b: "unat a + unat b \<le> 2 ^ 32" "0 < unat b"
  then have "1 \<le> b" "b \<noteq> 0" by (auto simp: word_le_nat_alt)
  moreover from this have "unat (b - 1) = unat b - 1" by (simp add: unat_sub_nowrap word_le_nat_alt)
  ultimately show ?thesis using b unfolding NV_UNSIGNED_DIV_CEIL_def by (simp add: unat_add_nowrap)
qed

section \<open>The bits of two words\<close>

lemma bit_get: "NV_BIT_GET k x = of_bool (bit x k)"
  unfolding NV_BIT_GET_def and_one_eq by (simp add: bit_iff_odd_drop_bit mod_2_eq_odd)

lemma and_63: "b AND 0x3F = b mod 64" for b :: nat
proof -
  have "(0x3F :: nat) = mask 6" by (simp add: mask_eq_exp_minus_1)
  then have "b AND 0x3F = take_bit 6 b" by (simp only: take_bit_eq_mask)
  then show ?thesis by (simp add: take_bit_eq_mod)
qed

lemma bits_128:
  assumes "b < 128" "n < 128"
  shows "(case NV_BIT_SET_128 b (lo, hi) of (lo', hi') \<Rightarrow> NV_BIT_GET_128 n lo' hi') = (if n = b then 1 else NV_BIT_GET_128 n lo hi)"
    "(case NV_BIT_CLEAR_128 b (lo, hi) of (lo', hi') \<Rightarrow> NV_BIT_GET_128 n lo' hi') = (if n = b then 0 else NV_BIT_GET_128 n lo hi)"
proof -
  have high: "k mod 64 = k - 64" if "\<not> k < 64" "k < 128" for k :: nat using that by (simp add: le_mod_geq)
  have one: "bit (NVBIT64 j) i \<longleftrightarrow> i = j" if "j < 64" for i j
    using that by (auto simp: NVBIT64_def push_bit_of_1 bit_exp_iff)
  have put: "bit (x OR NVBIT64 j) i \<longleftrightarrow> i = j \<or> bit x i" "bit (x AND NOT (NVBIT64 j)) i \<longleftrightarrow> i \<noteq> j \<and> bit x i" if "j < 64" for x i j
    using bit_imp_le_length [of x i] by (cases "bit x i"; simp add: bit_or_iff bit_and_iff bit_not_iff one [OF that])+
  have same: "n - 64 = b - 64 \<longleftrightarrow> n = b" if "\<not> n < 64" "\<not> b < 64" using that by linarith
  show "(case NV_BIT_SET_128 b (lo, hi) of (lo', hi') \<Rightarrow> NV_BIT_GET_128 n lo' hi') = (if n = b then 1 else NV_BIT_GET_128 n lo hi)"
    "(case NV_BIT_CLEAR_128 b (lo, hi) of (lo', hi') \<Rightarrow> NV_BIT_GET_128 n lo' hi') = (if n = b then 0 else NV_BIT_GET_128 n lo hi)"
    using assms same high [of b] put [of "b - 64"] put [of b]
    by (cases "b < 64"; cases "n < 64";
        simp add: NV_BIT_SET_128_def NV_BIT_CLEAR_128_def NV_BIT_GET_128_def bit_get and_63; fail)+
qed

section \<open>The byte loops and the string instructions\<close>

lemma memset_loop_stos: "memset_loop n m b c i = map_option fst (rep_stos [c] n m (b + i))"
proof (induction n arbitrary: m i)
  case (Suc n)
  then show ?case by (cases "store_byte m (b + i) c") (simp_all add: add.assoc)
qed simp

lemma memcpy_loop_movs: "memcpy_loop n m d s i = map_option fst (rep_movs 1 n m (d + i) (s + i))"
proof (induction n arbitrary: m i)
  case (Suc n)
  show ?case
  proof (cases "m (s + i)")
    case (Some c)
    then show ?thesis by (cases "store_byte m (d + i) c") (simp_all add: Suc add.assoc)
  qed simp
qed simp

lemma memset_loop_put:
  assumes "accessible m (b + i) n" "n \<le> 2 ^ 64"
  shows "memset_loop n m b c i = Some (put m (b + i) (replicate n c))"
proof -
  have "concat (replicate n [c]) = replicate n c" by (induction n) simp_all
  then show ?thesis using rep_stos_put [of m "b + i" n "[c]"] assms by (simp add: memset_loop_stos)
qed

lemma NVMISC_MEMSET_put:
  "accessible m s (unat n) \<Longrightarrow> NVMISC_MEMSET m s c n = Some (put m s (replicate (unat n) c), s)"
  using memset_loop_put [of m s 0 "unat n" c] unat_lt_64 [of n] by (simp add: NVMISC_MEMSET_def)

lemma NVMISC_MEMCPY_put:
  assumes "accessible m s (unat n)" "accessible m d (unat n)" "unat n \<le> unat (d - s)"
  shows "NVMISC_MEMCPY m d s n = Some (put m d (slice m s (unat n)), d)"
  using rep_movs_put [of m s "unat n" 1 d] assms by (simp add: NVMISC_MEMCPY_def memcpy_loop_movs)

text \<open>
  The header's copying loop also copies the terminator, which the padding writes again.
\<close>

lemma strcpy_loop_strncpy:
  assumes "strncpy_loop k m d s i = Some (m', j)" "accessible m (d + i) k"
  shows "\<exists>m'' left. strcpy_loop k m d s i = Some (m'', left, j) \<and> j = i + of_nat (k - left) \<and> left \<le> k \<and>
    accessible m' (d + j) left \<and> m'' = (if left = 0 then m' else m'(d + j \<mapsto> 0))"
  using assms
proof (induction k arbitrary: m i)
  case (Suc k)
  obtain c where c: "m (s + i) = Some c" using Suc.prems(1) by (auto split: bind_splits)
  obtain v where v: "m (d + i) = Some v" using Suc.prems(2) by (auto simp: accessible_Suc)
  have st: "store_byte m (d + i) c = Some (m(d + i \<mapsto> c))" using v by (simp add: store_byte_def)
  have again: "(m(d + i \<mapsto> c)) (s + i) = Some c" using c by simp
  show ?case
  proof (cases "c = 0")
    case True
    then show ?thesis using Suc.prems c st again by simp
  next
    case False
    have acc: "accessible (m(d + i \<mapsto> c)) (d + (i + 1)) k"
      using Suc.prems(2) by (auto simp: accessible_Suc accessible_def add.assoc)
    have "strncpy_loop k (m(d + i \<mapsto> c)) d s (i + 1) = Some (m', j)" using Suc.prems(1) c st False by simp
    then obtain m'' left where "strcpy_loop k (m(d + i \<mapsto> c)) d s (i + 1) = Some (m'', left, j)"
        "j = i + 1 + of_nat (k - left)" "left \<le> k" "accessible m' (d + j) left" "m'' = (if left = 0 then m' else m'(d + j \<mapsto> 0))"
      using Suc.IH acc by blast
    then show ?thesis using c st again False by (auto simp: Suc_diff_le)
  qed
qed simp

lemma NVMISC_STRNCPY_put:
  assumes "cstring m s bs" "accessible m d (unat n)" "unat n \<le> unat (d - s)"
  shows "NVMISC_STRNCPY m d s n = nvkms_strncpy m d s n"
proof -
  let ?j = "of_nat (min (unat n) (length bs)) :: NvU64"
  have loop: "strncpy_loop (unat n) m d s 0 = Some (put m d (take (unat n) bs), ?j)"
    using strncpy_loop_put [OF assms, of "unat n" 0] by simp
  then obtain m'' left where l: "strcpy_loop (unat n) m d s 0 = Some (m'', left, ?j)"
      "?j = of_nat (unat n - left)" "left \<le> unat n" "accessible (put m d (take (unat n) bs)) (d + ?j) left"
      "m'' = (if left = 0 then put m d (take (unat n) bs) else (put m d (take (unat n) bs))(d + ?j \<mapsto> 0))"
    using strcpy_loop_strncpy [OF loop] assms(2) by auto
  have lt: "unat n < 2 ^ 64" by (rule unat_lt_64)
  have "unat n - left = min (unat n) (length bs)"
    using arg_cong [OF l(2), of unat] lt unat_of_nat_64 [of "unat n - left"] unat_of_nat_64 [of "min (unat n) (length bs)"]
    by linarith
  then have left: "left = unat n - length bs" using l(3) by linarith
  have "memset_loop left m'' d 0 ?j = Some (put m d (take (unat n) bs @ replicate left 0))"
  proof (cases "left = 0")
    case False
    have len: "length (take (unat n) bs) = min (unat n) (length bs)" by simp
    have "accessible m'' (d + ?j) left" using l(4,5) by (auto simp: accessible_def)
    then have "memset_loop left m'' d 0 ?j = Some (put m'' (d + ?j) (replicate left 0))"
      using lt l(3) by (intro memset_loop_put) linarith+
    also have "put m'' (d + ?j) (replicate left 0) = put (put m d (take (unat n) bs)) (d + ?j) (replicate left 0)"
      using False l(5) by (auto simp: put_def fun_eq_iff unat_eq_zero_iff)
    also have "\<dots> = put m d (take (unat n) bs @ replicate left 0)"
      using put_append [of "take (unat n) bs" "replicate left 0" m d] False lt left unfolding len by simp
    finally show ?thesis .
  qed (use l(5) in simp)
  then show ?thesis using nvkms_strncpy_put [OF assms] l(1) by (simp add: NVMISC_STRNCPY_def left)
qed

section \<open>Properties\<close>

text \<open>
  A 64-bit number kept as two halves loses nothing: packing and reading give each other back, and the sum,
  the difference and the zero test on halves are those of the 64-bit numbers, wrap-around included.
\<close>

theorem halves_refine_64:
  "NvU64_ALIGN32_VAL (NvU64_ALIGN32_PACK n) = n \<and> NvU64_ALIGN32_PACK (NvU64_ALIGN32_VAL a) = a \<and>
   NvU64_ALIGN32_VAL (NvU64_ALIGN32_ADD a b) = NvU64_ALIGN32_VAL a + NvU64_ALIGN32_VAL b \<and>
   NvU64_ALIGN32_VAL (NvU64_ALIGN32_SUB a b) = NvU64_ALIGN32_VAL a - NvU64_ALIGN32_VAL b \<and>
   (NvU64_ALIGN32_IS_ZERO a \<longleftrightarrow> NvU64_ALIGN32_VAL a = 0)"
  using pack_unpack unpack_pack align32_refines by blast

text \<open>
  C36: The port's string instructions, which move eight bytes at a time, agree with the byte loops of
  \<^verbatim>\<open>nvmisc.h\<close>: \<open>nvkms_memset\<close> with \<^verbatim>\<open>NVMISC_MEMSET\<close>, \<open>nvkms_memcpy\<close> with \<^verbatim>\<open>NVMISC_MEMCPY\<close> and \<open>nvkms_strncpy\<close>
  with \<^verbatim>\<open>NVMISC_STRNCPY\<close>, on spans that can be accessed and, for the copies, when the destination does not
  start within the span that is read.
\<close>

theorem adapters_match_nvmisc:
  assumes "accessible m d (unat n)" "accessible m s (unat n)" "unat n \<le> unat (d - s)" "cstring m t bs" "unat n \<le> unat (d - t)"
  shows "nvkms_memset m d c n = NVMISC_MEMSET m d c n \<and> nvkms_memcpy m d s n = NVMISC_MEMCPY m d s n \<and>
    nvkms_strncpy m d t n = NVMISC_STRNCPY m d t n"
  using assms by (simp add: nvkms_memset_def nvkms_memcpy_def r4nv_set_put r4nv_copy_put NVMISC_MEMSET_put NVMISC_MEMCPY_put
      NVMISC_STRNCPY_put)

theorem adapters_match_nvmisc_witness:
  "nvkms_memset sample_memory 4096 7 6 = NVMISC_MEMSET sample_memory 4096 7 6 \<and>
   nvkms_memcpy sample_memory 4096 4148 6 = NVMISC_MEMCPY sample_memory 4096 4148 6 \<and>
   nvkms_strncpy sample_memory 4096 4156 6 = NVMISC_STRNCPY sample_memory 4096 4156 6"
  using adapters_match_nvmisc [of sample_memory 4096 6 4148 4156 "[61, 62, 63]" 7] sample_cstring
  by (simp add: sample_accessible)

text \<open>
  Alignment to a power of two on words of any width: down is the greatest multiple not above the value, up the
  least not below it, or zero when that multiple is the end of the type's range or beyond, and the test holds
  exactly for the multiples.
\<close>

theorem alignment_correct:
  fixes v :: "'a::len word"
  assumes "k < LENGTH('a)"
  shows "unat (NV_ALIGN_DOWN v (2 ^ k)) = unat v div 2 ^ k * 2 ^ k \<and>
    unat (NV_ALIGN_UP v (2 ^ k)) =
      (if unat v + 2 ^ k \<le> 2 ^ LENGTH('a) then (unat v + (2 ^ k - 1)) div 2 ^ k * 2 ^ k else 0) \<and>
    (NV_IS_ALIGNED v (2 ^ k) \<longleftrightarrow> 2 ^ k dvd unat v)"
  using align_down_div align_up_div [OF assms] is_aligned_dvd by blast

theorem alignment_correct_witness:
  "unat (NV_ALIGN_UP (0x12345 :: NvU64) (2 ^ 12)) = 0x13000 \<and> unat (NV_ALIGN_UP (0xFFFFF001 :: NvU32) (2 ^ 12)) = 0"
  using alignment_correct [of 12 "0x12345 :: NvU64"] alignment_correct [of 12 "0xFFFFF001 :: NvU32"] by simp

end
