(* ===== verification/Nv_Access.thy ===== *)
theory Nv_Access
  imports Prelude
begin
unbundle bit_operations_syntax

text \<open>
  Two small headers of the resource manager with code in them: ranges of memory (\<^verbatim>\<open>nv_memory_area.h\<close>) and sets of access
  rights as bit masks (\<^verbatim>\<open>rs_access.h\<close>). Ranges behave as sets of addresses as long as they do not wrap; the masks behave
  as sets of rights with the one limb they are compiled with.
\<close>

section \<open>Ranges of memory\<close>

record MemoryRange =
  mr_start :: NvU64
  mr_size :: NvU64

text \<open>An area is an array of ranges with their number.\<close>

record MemoryArea =
  ma_pRanges :: "MemoryRange list"
  ma_numRanges :: NvU64

text \<open>The loop over the ranges; reading past the array is undefined.\<close>

fun memarea_size_loop :: "nat \<Rightarrow> NvU64 \<Rightarrow> MemoryRange list \<Rightarrow> NvU64 \<Rightarrow> NvU64 option" where
  "memarea_size_loop 0 idx ranges sz = Some sz"
| "memarea_size_loop (Suc n) idx ranges sz = do {
     r \<leftarrow> c_nth ranges (unat idx);
     memarea_size_loop n (idx + 1) ranges (sz + mr_size r)
   }"

definition memareaSize :: "MemoryArea \<Rightarrow> NvU64 option" where
  "memareaSize memArea = memarea_size_loop (unat (ma_numRanges memArea)) 0 (ma_pRanges memArea) 0"

definition mrangeMake :: "NvU64 \<Rightarrow> NvU64 \<Rightarrow> MemoryRange" where
  "mrangeMake start sz = \<lparr>mr_start = start, mr_size = sz\<rparr>"

definition mrangeLimit :: "MemoryRange \<Rightarrow> NvU64" where
  "mrangeLimit a = mr_start a + mr_size a"

definition mrangeIntersects :: "MemoryRange \<Rightarrow> MemoryRange \<Rightarrow> bool" where
  "mrangeIntersects a b \<longleftrightarrow>
     mr_start a \<ge> mr_start b \<and> mr_start a < mrangeLimit b \<or> mr_start b \<ge> mr_start a \<and> mr_start b < mrangeLimit a"

definition mrangeContains :: "MemoryRange \<Rightarrow> MemoryRange \<Rightarrow> bool" where
  "mrangeContains outer inner \<longleftrightarrow> mr_start inner \<ge> mr_start outer \<and> mrangeLimit inner \<le> mrangeLimit outer"

definition mrangeOffset :: "MemoryRange \<Rightarrow> NvU64 \<Rightarrow> MemoryRange" where
  "mrangeOffset r amt = r\<lparr>mr_start := mr_start r + amt\<rparr>"

section \<open>Access rights\<close>

record RS_ACCESS_MASK =
  am_limbs :: "NvU32 list"

abbreviation (input) RS_ACCESS_COUNT :: nat where "RS_ACCESS_COUNT \<equiv> 4"
abbreviation (input) SDK_RS_ACCESS_LIMB_BITS :: nat where "SDK_RS_ACCESS_LIMB_BITS \<equiv> 32"
abbreviation (input) SDK_RS_ACCESS_MAX_LIMBS :: nat where "SDK_RS_ACCESS_MAX_LIMBS \<equiv> 1"

definition SDK_RS_ACCESS_LIMB_INDEX :: "nat \<Rightarrow> nat" where
  "SDK_RS_ACCESS_LIMB_INDEX index = index div SDK_RS_ACCESS_LIMB_BITS"

definition SDK_RS_ACCESS_LIMB_POS :: "nat \<Rightarrow> nat" where
  "SDK_RS_ACCESS_LIMB_POS index = index mod SDK_RS_ACCESS_LIMB_BITS"

definition SDK_RS_ACCESS_LIMB_ELT :: "RS_ACCESS_MASK \<Rightarrow> nat \<Rightarrow> NvU32 option" where
  "SDK_RS_ACCESS_LIMB_ELT m index = c_nth (am_limbs m) (SDK_RS_ACCESS_LIMB_INDEX index)"

text \<open>The same element as the target of an assignment.\<close>

definition set_limb_elt :: "RS_ACCESS_MASK \<Rightarrow> nat \<Rightarrow> NvU32 \<Rightarrow> RS_ACCESS_MASK" where
  "set_limb_elt m index v = m\<lparr>am_limbs := (am_limbs m)[SDK_RS_ACCESS_LIMB_INDEX index := v]\<rparr>"

definition SDK_RS_ACCESS_OFFSET_MASK :: "nat \<Rightarrow> NvU32" where
  "SDK_RS_ACCESS_OFFSET_MASK index = push_bit (SDK_RS_ACCESS_LIMB_POS index) 1"

definition RS_ACCESS_BOUNDS_CHECK :: "nat \<Rightarrow> bool" where
  "RS_ACCESS_BOUNDS_CHECK accessRight \<longleftrightarrow> accessRight < RS_ACCESS_COUNT"

definition RS_ACCESS_MASK_TEST :: "RS_ACCESS_MASK \<Rightarrow> nat \<Rightarrow> bool option" where
  "RS_ACCESS_MASK_TEST m index =
     (if \<not> RS_ACCESS_BOUNDS_CHECK index then Some False
      else do { l \<leftarrow> SDK_RS_ACCESS_LIMB_ELT m index; Some (l AND SDK_RS_ACCESS_OFFSET_MASK index \<noteq> 0) })"

definition RS_ACCESS_MASK_ADD :: "RS_ACCESS_MASK \<Rightarrow> nat \<Rightarrow> RS_ACCESS_MASK option" where
  "RS_ACCESS_MASK_ADD m index =
     (if RS_ACCESS_BOUNDS_CHECK index
      then do { l \<leftarrow> SDK_RS_ACCESS_LIMB_ELT m index; Some (set_limb_elt m index (l OR SDK_RS_ACCESS_OFFSET_MASK index)) }
      else Some m)"

definition RS_ACCESS_MASK_REMOVE :: "RS_ACCESS_MASK \<Rightarrow> nat \<Rightarrow> RS_ACCESS_MASK option" where
  "RS_ACCESS_MASK_REMOVE m index =
     (if RS_ACCESS_BOUNDS_CHECK index
      then do { l \<leftarrow> SDK_RS_ACCESS_LIMB_ELT m index; Some (set_limb_elt m index (l AND NOT (SDK_RS_ACCESS_OFFSET_MASK index))) }
      else Some m)"

text \<open>
  The loops of union and subtraction, over \<open>n\<close> limbs from \<open>limb\<close>; the element of a limb is looked up as if the limb
  were a right.
\<close>

fun access_limb_loop :: "(NvU32 \<Rightarrow> NvU32 \<Rightarrow> NvU32) \<Rightarrow> nat \<Rightarrow> nat \<Rightarrow> RS_ACCESS_MASK \<Rightarrow> RS_ACCESS_MASK \<Rightarrow> RS_ACCESS_MASK option" where
  "access_limb_loop f 0 limb out inp = Some out"
| "access_limb_loop f (Suc n) limb out inp = do {
     a \<leftarrow> SDK_RS_ACCESS_LIMB_ELT out limb;
     b \<leftarrow> SDK_RS_ACCESS_LIMB_ELT inp limb;
     access_limb_loop f n (limb + 1) (set_limb_elt out limb (f a b)) inp
   }"

definition RS_ACCESS_MASK_UNION :: "RS_ACCESS_MASK \<Rightarrow> RS_ACCESS_MASK \<Rightarrow> RS_ACCESS_MASK option" where
  "RS_ACCESS_MASK_UNION out inp = access_limb_loop (\<lambda>a b. a OR b) SDK_RS_ACCESS_MAX_LIMBS 0 out inp"

definition RS_ACCESS_MASK_SUBTRACT :: "RS_ACCESS_MASK \<Rightarrow> RS_ACCESS_MASK \<Rightarrow> RS_ACCESS_MASK option" where
  "RS_ACCESS_MASK_SUBTRACT out inp = access_limb_loop (\<lambda>a b. a AND NOT b) SDK_RS_ACCESS_MAX_LIMBS 0 out inp"

text \<open>\<^verbatim>\<open>portMemSet\<close> is not in the repository: it is an argument, a function of the bytes of an object and a value.\<close>

definition RS_ACCESS_MASK_CLEAR :: "(NvU32 list \<Rightarrow> NvU8 \<Rightarrow> NvU32 list) \<Rightarrow> RS_ACCESS_MASK \<Rightarrow> RS_ACCESS_MASK" where
  "RS_ACCESS_MASK_CLEAR portMemSet m = m\<lparr>am_limbs := portMemSet (am_limbs m) 0\<rparr>"

definition RS_ACCESS_MASK_FILL :: "(NvU32 list \<Rightarrow> NvU8 \<Rightarrow> NvU32 list) \<Rightarrow> RS_ACCESS_MASK \<Rightarrow> RS_ACCESS_MASK" where
  "RS_ACCESS_MASK_FILL portMemSet m = m\<lparr>am_limbs := portMemSet (am_limbs m) 0xff\<rparr>"

section \<open>Ranges are sets of addresses\<close>

definition addresses :: "MemoryRange \<Rightarrow> nat set" where
  "addresses r = {unat (mr_start r) ..< unat (mr_start r) + unat (mr_size r)}"

text \<open>A range that does not reach the end of the address space; the code relies on it and does not check it.\<close>

definition unwrapped :: "MemoryRange \<Rightarrow> bool" where
  "unwrapped r \<longleftrightarrow> unat (mr_start r) + unat (mr_size r) < 2 ^ 64"

lemma limit_unwrapped: "unwrapped r \<Longrightarrow> unat (mrangeLimit r) = unat (mr_start r) + unat (mr_size r)"
  unfolding mrangeLimit_def unwrapped_def by (rule unat_add_nowrap) simp

lemma offset_addresses:
  assumes "unat (mr_start r) + unat amt < 2 ^ 64"
  shows "addresses (mrangeOffset r amt) = (\<lambda>x. x + unat amt) ` addresses r"
proof -
  have "unat (mr_start r + amt) = unat (mr_start r) + unat amt" by (rule unat_add_nowrap) (use assms in simp)
  then show ?thesis by (simp add: addresses_def mrangeOffset_def image_add_atLeastLessThan' add_ac)
qed

lemma memarea_size_sum:
  "unat idx + n \<le> length rs \<Longrightarrow> unat idx + n < 2 ^ 64 \<Longrightarrow>
   memarea_size_loop n idx rs sz = Some (sz + sum_list (map mr_size (take n (drop (unat idx) rs))))"
proof (induction n arbitrary: idx sz)
  case (Suc n)
  have i: "unat (idx + 1) = unat idx + 1" using Suc.prems(2) by (subst unat_add_nowrap) simp_all
  have "drop (unat idx) rs = rs ! unat idx # drop (Suc (unat idx)) rs" using Suc.prems(1) by (simp add: Cons_nth_drop_Suc)
  then show ?case using Suc.IH [of "idx + 1" "sz + mr_size (rs ! unat idx)"] Suc.prems i by (simp add: add.assoc)
qed simp

text \<open>
  Ranges that are not empty and do not wrap: the tests of the header decide whether their addresses meet and
  whether the one covers the other, and a shift that does not wrap moves the addresses. An area of as many
  ranges as it says has the sum of their sizes, modulo the word.
\<close>

theorem memory_ranges_are_sets:
  assumes "unwrapped a" "unwrapped b" "0 < mr_size a" "0 < mr_size b"
  shows "(mrangeIntersects a b \<longleftrightarrow> addresses a \<inter> addresses b \<noteq> {}) \<and>
    (mrangeContains a b \<longleftrightarrow> addresses b \<subseteq> addresses a)"
proof -
  have pos: "0 < unat (mr_size a)" "0 < unat (mr_size b)" using assms(3,4) by (simp_all add: word_less_nat_alt)
  note lim = limit_unwrapped [OF assms(1)] limit_unwrapped [OF assms(2)]
  have "addresses a \<inter> addresses b \<noteq> {} \<longleftrightarrow>
      max (unat (mr_start a)) (unat (mr_start b)) < min (unat (mr_start a) + unat (mr_size a)) (unat (mr_start b) + unat (mr_size b))"
    by (auto simp: addresses_def)
  moreover have "addresses b \<subseteq> addresses a \<longleftrightarrow> unat (mr_start a) \<le> unat (mr_start b) \<and>
      unat (mr_start b) + unat (mr_size b) \<le> unat (mr_start a) + unat (mr_size a)"
    using pos(2) by (simp add: addresses_def atLeastLessThan_subset_iff)
  ultimately show ?thesis
    using pos by (auto simp: mrangeIntersects_def mrangeContains_def word_less_nat_alt word_le_nat_alt lim)
qed

section \<open>Masks are sets of rights\<close>

definition rights :: "RS_ACCESS_MASK \<Rightarrow> nat set" where
  "rights m = {i. RS_ACCESS_MASK_TEST m i = Some True}"

definition one_limb :: "RS_ACCESS_MASK \<Rightarrow> bool" where
  "one_limb m \<longleftrightarrow> length (am_limbs m) = SDK_RS_ACCESS_MAX_LIMBS"

lemma one_limbE:
  assumes "one_limb m"
  obtains l where "am_limbs m = [l]"
  using assms by (auto simp: one_limb_def length_Suc_conv)

lemma rights_bits:
  assumes "am_limbs m = [l]"
  shows "rights m = {i. i < RS_ACCESS_COUNT \<and> bit l i}"
proof -
  have "l AND push_bit i 1 \<noteq> 0 \<longleftrightarrow> bit l i" for i
    using and_exp_eq_0_iff_not_bit [of l i] by (simp add: push_bit_eq_mult)
  then show ?thesis
    by (auto simp: rights_def RS_ACCESS_MASK_TEST_def RS_ACCESS_BOUNDS_CHECK_def SDK_RS_ACCESS_LIMB_ELT_def
        SDK_RS_ACCESS_LIMB_INDEX_def SDK_RS_ACCESS_OFFSET_MASK_def SDK_RS_ACCESS_LIMB_POS_def assms)
qed

text \<open>
  With the one limb the header is compiled with, a mask is a set of the four rights: every operation returns a mask
  of one limb, adding and removing change exactly the named right and ignore a right that does not exist, and
  union and subtraction are those of sets.
\<close>

theorem access_masks_are_sets:
  assumes "one_limb m" "one_limb k"
  shows "(\<exists>m'. RS_ACCESS_MASK_ADD m i = Some m' \<and> one_limb m' \<and> rights m' = rights m \<union> ({i} \<inter> {..<RS_ACCESS_COUNT})) \<and>
    (\<exists>m'. RS_ACCESS_MASK_REMOVE m i = Some m' \<and> one_limb m' \<and> rights m' = rights m - {i}) \<and>
    (\<exists>m'. RS_ACCESS_MASK_UNION m k = Some m' \<and> one_limb m' \<and> rights m' = rights m \<union> rights k) \<and>
    (\<exists>m'. RS_ACCESS_MASK_SUBTRACT m k = Some m' \<and> one_limb m' \<and> rights m' = rights m - rights k)"
proof -
  obtain l where l: "am_limbs m = [l]" using one_limbE [OF assms(1)] .
  obtain j where j: "am_limbs k = [j]" using one_limbE [OF assms(2)] .
  note defs = one_limb_def set_limb_elt_def SDK_RS_ACCESS_LIMB_ELT_def SDK_RS_ACCESS_LIMB_INDEX_def
    SDK_RS_ACCESS_OFFSET_MASK_def SDK_RS_ACCESS_LIMB_POS_def RS_ACCESS_BOUNDS_CHECK_def
  have set: "rights (m\<lparr>am_limbs := [v]\<rparr>) = {i. i < RS_ACCESS_COUNT \<and> bit v i}" for v by (rule rights_bits) simp
  note bits = rights_bits [OF l] rights_bits [OF j] set bit_or_iff bit_and_iff bit_not_iff bit_exp_iff
  have "\<exists>m'. RS_ACCESS_MASK_ADD m i = Some m' \<and> one_limb m' \<and> rights m' = rights m \<union> ({i} \<inter> {..<RS_ACCESS_COUNT})"
    using l by (auto simp: RS_ACCESS_MASK_ADD_def defs bits)
  moreover have "\<exists>m'. RS_ACCESS_MASK_REMOVE m i = Some m' \<and> one_limb m' \<and> rights m' = rights m - {i}"
    using l by (auto simp: RS_ACCESS_MASK_REMOVE_def defs bits)
  moreover have "\<exists>m'. RS_ACCESS_MASK_UNION m k = Some m' \<and> one_limb m' \<and> rights m' = rights m \<union> rights k"
    using l j by (auto simp: RS_ACCESS_MASK_UNION_def defs bits)
  moreover have "\<exists>m'. RS_ACCESS_MASK_SUBTRACT m k = Some m' \<and> one_limb m' \<and> rights m' = rights m - rights k"
    using l j by (auto simp: RS_ACCESS_MASK_SUBTRACT_def defs bits)
  ultimately show ?thesis by blast
qed

text \<open>
  With more limbs the loops would be wrong: the element of a limb is looked up as the element of a right, so up to
  32 limbs all lie in the first one, and the others are neither read nor written.
\<close>

theorem later_limbs_ignored:
  assumes "2 \<le> length (am_limbs m)" "length (am_limbs k) = length (am_limbs m)" "length (am_limbs m) \<le> 32"
  shows "\<exists>m'. access_limb_loop (\<lambda>a b. a OR b) (length (am_limbs m)) 0 m k = Some m' \<and> tl (am_limbs m') = tl (am_limbs m)"
proof -
  have "\<exists>m'. access_limb_loop f n i x k = Some m' \<and> tl (am_limbs m') = tl (am_limbs x)"
    if "n + i \<le> 32" "am_limbs x \<noteq> []" for f n i x
    using that
  proof (induction n arbitrary: i x)
    case (Suc n)
    have z: "i div 32 = 0" using Suc.prems(1) by simp
    have "am_limbs k \<noteq> []" using assms(1,2) by auto
    then obtain a b where e: "SDK_RS_ACCESS_LIMB_ELT x i = Some a" "SDK_RS_ACCESS_LIMB_ELT k i = Some b"
      using Suc.prems(2) z by (simp add: SDK_RS_ACCESS_LIMB_ELT_def SDK_RS_ACCESS_LIMB_INDEX_def c_nth_Some)
    have "tl (am_limbs (set_limb_elt x i (f a b))) = tl (am_limbs x)" "am_limbs (set_limb_elt x i (f a b)) \<noteq> []"
      using Suc.prems(2) z by (cases "am_limbs x"; simp add: set_limb_elt_def SDK_RS_ACCESS_LIMB_INDEX_def)+
    then show ?case using Suc.IH [of "i + 1" "set_limb_elt x i (f a b)"] Suc.prems(1) e by simp
  qed simp
  then show ?thesis using assms by (metis add.right_neutral le_zero_eq list.size(3) not_numeral_le_zero)
qed

end
