(* ===== verification/Nv_Display.thy ===== *)
theory Nv_Display
  imports Dsc_Generate Nv_Bits
begin
unbundle bit_operations_syntax

text \<open>
  The code in NVIDIA's display headers: the status word of a timing and the colour depths of \<^verbatim>\<open>nvtiming.h\<close>, the
  link rates, repeater counts and stream numbers of \<^verbatim>\<open>displayport.h\<close> and \<^verbatim>\<open>displayport2x.h\<close>. The conversions between the
  units of a link rate are inverse to each other, the fields of the status word are independent, and the depth
  macros pass over one depth.
\<close>

section \<open>The status word of a timing\<close>

definition NVT_FRAME_HEIGHT :: "NvU32 \<Rightarrow> NvU32 \<Rightarrow> NvU32" where
  "NVT_FRAME_HEIGHT vvisible interlaced = vvisible * (if interlaced \<noteq> 0 then 2 else 1)"

definition NVT_IS_NATIVE_TIMING :: "NvU32 \<Rightarrow> NvU32" where
  "NVT_IS_NATIVE_TIMING n = drop_bit 31 (n AND 0x80000000)"

definition NVT_SET_NATIVE_TIMING_FLAG :: "NvU32 \<Rightarrow> NvU32" where
  "NVT_SET_NATIVE_TIMING_FLAG n = n OR push_bit 31 1"

definition NVT_IS_CUST_ENTRY :: "NvU32 \<Rightarrow> NvU32" where
  "NVT_IS_CUST_ENTRY n = drop_bit 30 (n AND 0x40000000)"

definition NVT_SET_CUST_ENTRY_FLAG :: "NvU32 \<Rightarrow> NvU32" where
  "NVT_SET_CUST_ENTRY_FLAG n = n OR push_bit 30 1"

definition NVT_GET_CEA_FORMAT :: "NvU32 \<Rightarrow> NvU32" where
  "NVT_GET_CEA_FORMAT n = drop_bit 22 (n AND 0x3FC00000)"

definition NVT_SET_CEA_FORMAT :: "NvU32 \<Rightarrow> NvU32 \<Rightarrow> NvU32" where
  "NVT_SET_CEA_FORMAT n index = (let n = n AND NOT 0x3FC00000 in n OR push_bit 22 index)"

definition NVT_IS_CEA_DMT_DUAL_STANDARD :: "NvU32 \<Rightarrow> NvU32" where
  "NVT_IS_CEA_DMT_DUAL_STANDARD n = drop_bit 21 (n AND 0x00200000)"

definition NVT_SET_CEA_DMT_DUAL_STANDARD_FLAG :: "NvU32 \<Rightarrow> NvU32" where
  "NVT_SET_CEA_DMT_DUAL_STANDARD_FLAG n = n OR 0x00200000"

definition NVT_SET_TIMING_STATUS_MISMATCH :: "NvU32 \<Rightarrow> NvU32 \<Rightarrow> NvU32" where
  "NVT_SET_TIMING_STATUS_MISMATCH m n = m OR (push_bit 16 n AND 0x001F0000)"

definition NVT_GET_TIMING_STATUS_MATCH :: "NvU32 \<Rightarrow> NvU32" where
  "NVT_GET_TIMING_STATUS_MATCH n = drop_bit 16 (n AND 0x001F0000)"

definition NVT_DEF_TIMING_STATUS :: "NvU32 \<Rightarrow> NvU32 \<Rightarrow> NvU32" where
  "NVT_DEF_TIMING_STATUS type seq = (push_bit 8 type AND 0x0000FF00) OR (seq AND 0x000000FF)"

definition NVT_SET_TIMING_STATUS_TYPE :: "NvU32 \<Rightarrow> NvU32 \<Rightarrow> NvU32" where
  "NVT_SET_TIMING_STATUS_TYPE n type = (n AND NOT 0x0000FF00) OR push_bit 8 type"

definition NVT_GET_TIMING_STATUS_TYPE :: "NvU32 \<Rightarrow> NvU32" where
  "NVT_GET_TIMING_STATUS_TYPE n = drop_bit 8 (n AND 0x0000FF00)"

definition NVT_GET_TIMING_STATUS_SEQ :: "NvU32 \<Rightarrow> NvU32" where
  "NVT_GET_TIMING_STATUS_SEQ n = n AND 0x000000FF"

text \<open>The timing types, from 1.\<close>

datatype NVT_TIMING_TYPE =
  NVT_TYPE_DMT | NVT_TYPE_GTF | NVT_TYPE_ASPR | NVT_TYPE_NTSC_TV | NVT_TYPE_PAL_TV | NVT_TYPE_CVT | NVT_TYPE_CVT_RB | NVT_TYPE_CUST |
  NVT_TYPE_EDID_DTD | NVT_TYPE_EDID_STD | NVT_TYPE_EDID_EST | NVT_TYPE_EDID_CVT | NVT_TYPE_EDID_861ST | NVT_TYPE_NV_PREDEFINED |
  NVT_TYPE_DMT_RB | NVT_TYPE_EDID_EXT_DTD | NVT_TYPE_SDTV | NVT_TYPE_HDTV | NVT_TYPE_SMPTE | NVT_TYPE_EDID_VTB_EXT |
  NVT_TYPE_EDID_VTB_EXT_STD | NVT_TYPE_EDID_VTB_EXT_DTD | NVT_TYPE_EDID_VTB_EXT_CVT | NVT_TYPE_HDMI_STEREO | NVT_TYPE_DISPLAYID_1 |
  NVT_TYPE_DISPLAYID_2 | NVT_TYPE_HDMI_EXT | NVT_TYPE_CUST_AUTO | NVT_TYPE_CUST_MANUAL | NVT_TYPE_CVT_RB_2 | NVT_TYPE_DMT_RB_2 |
  NVT_TYPE_DISPLAYID_7 | NVT_TYPE_DISPLAYID_8 | NVT_TYPE_DISPLAYID_9 | NVT_TYPE_DISPLAYID_10 | NVT_TYPE_CVT_RB_3 |
  NVT_TYPE_CTA861_DID_T7 | NVT_TYPE_CTA861_DID_T8 | NVT_TYPE_CTA861_DID_T10

definition timing_types :: "NVT_TIMING_TYPE list" where
  "timing_types =
    [NVT_TYPE_DMT, NVT_TYPE_GTF, NVT_TYPE_ASPR, NVT_TYPE_NTSC_TV, NVT_TYPE_PAL_TV, NVT_TYPE_CVT, NVT_TYPE_CVT_RB, NVT_TYPE_CUST,
     NVT_TYPE_EDID_DTD, NVT_TYPE_EDID_STD, NVT_TYPE_EDID_EST, NVT_TYPE_EDID_CVT, NVT_TYPE_EDID_861ST, NVT_TYPE_NV_PREDEFINED,
     NVT_TYPE_DMT_RB, NVT_TYPE_EDID_EXT_DTD, NVT_TYPE_SDTV, NVT_TYPE_HDTV, NVT_TYPE_SMPTE, NVT_TYPE_EDID_VTB_EXT,
     NVT_TYPE_EDID_VTB_EXT_STD, NVT_TYPE_EDID_VTB_EXT_DTD, NVT_TYPE_EDID_VTB_EXT_CVT, NVT_TYPE_HDMI_STEREO, NVT_TYPE_DISPLAYID_1,
     NVT_TYPE_DISPLAYID_2, NVT_TYPE_HDMI_EXT, NVT_TYPE_CUST_AUTO, NVT_TYPE_CUST_MANUAL, NVT_TYPE_CVT_RB_2, NVT_TYPE_DMT_RB_2,
     NVT_TYPE_DISPLAYID_7, NVT_TYPE_DISPLAYID_8, NVT_TYPE_DISPLAYID_9, NVT_TYPE_DISPLAYID_10, NVT_TYPE_CVT_RB_3,
     NVT_TYPE_CTA861_DID_T7, NVT_TYPE_CTA861_DID_T8, NVT_TYPE_CTA861_DID_T10]"

fun position :: "'a \<Rightarrow> 'a list \<Rightarrow> nat" where
  "position x [] = 0"
| "position x (y # ys) = (if x = y then 0 else Suc (position x ys))"

definition timing_type_code :: "NVT_TIMING_TYPE \<Rightarrow> NvU32" where
  "timing_type_code t = of_nat (position t timing_types + 1)"

definition NVT_IS_DTD :: "NvU32 \<Rightarrow> bool" where
  "NVT_IS_DTD d \<longleftrightarrow> NVT_GET_TIMING_STATUS_TYPE d = timing_type_code NVT_TYPE_EDID_DTD"

definition NVT_IS_EXT_DTD :: "NvU32 \<Rightarrow> bool" where
  "NVT_IS_EXT_DTD d \<longleftrightarrow> NVT_GET_TIMING_STATUS_TYPE d = timing_type_code NVT_TYPE_EDID_EXT_DTD"

definition NVT_IS_CTA861 :: "NvU32 \<Rightarrow> bool" where
  "NVT_IS_CTA861 d \<longleftrightarrow> NVT_GET_TIMING_STATUS_TYPE d = timing_type_code NVT_TYPE_EDID_861ST"

definition NVT_IS_CTA861_DID_T7 :: "NvU32 \<Rightarrow> bool" where
  "NVT_IS_CTA861_DID_T7 d \<longleftrightarrow> NVT_GET_TIMING_STATUS_TYPE d = timing_type_code NVT_TYPE_CTA861_DID_T7"

definition NVT_IS_CTA861_DID_T8 :: "NvU32 \<Rightarrow> bool" where
  "NVT_IS_CTA861_DID_T8 d \<longleftrightarrow> NVT_GET_TIMING_STATUS_TYPE d = timing_type_code NVT_TYPE_CTA861_DID_T8"

definition NVT_IS_CTA861_DID_T10 :: "NvU32 \<Rightarrow> bool" where
  "NVT_IS_CTA861_DID_T10 d \<longleftrightarrow> NVT_GET_TIMING_STATUS_TYPE d = timing_type_code NVT_TYPE_CTA861_DID_T10"

definition NVT_IS_DTD1 :: "NvU32 \<Rightarrow> bool" where
  "NVT_IS_DTD1 d \<longleftrightarrow> NVT_IS_DTD d \<and> NVT_GET_TIMING_STATUS_SEQ d = 1"

definition NVT_IS_DTDn :: "NvU32 \<Rightarrow> NvU32 \<Rightarrow> bool" where
  "NVT_IS_DTDn d n \<longleftrightarrow> NVT_IS_DTD d \<and> NVT_GET_TIMING_STATUS_SEQ d = n"

definition NVT_IS_EXT_DTDn :: "NvU32 \<Rightarrow> NvU32 \<Rightarrow> bool" where
  "NVT_IS_EXT_DTDn d n \<longleftrightarrow> NVT_IS_EXT_DTD d \<and> NVT_GET_TIMING_STATUS_SEQ d = n"

definition NVT_IS_CTA861_DID_T7n :: "NvU32 \<Rightarrow> NvU32 \<Rightarrow> bool" where
  "NVT_IS_CTA861_DID_T7n d n \<longleftrightarrow> NVT_IS_CTA861_DID_T7 d \<and> NVT_GET_TIMING_STATUS_SEQ d = n"

definition NVT_IS_CTA861_DID_T8_1 :: "NvU32 \<Rightarrow> bool" where
  "NVT_IS_CTA861_DID_T8_1 d \<longleftrightarrow> NVT_IS_CTA861_DID_T8 d \<and> NVT_GET_TIMING_STATUS_SEQ d = 1"

definition NVT_IS_CTA861_DID_T10n :: "NvU32 \<Rightarrow> NvU32 \<Rightarrow> bool" where
  "NVT_IS_CTA861_DID_T10n d n \<longleftrightarrow> NVT_IS_CTA861_DID_T10 d \<and> NVT_GET_TIMING_STATUS_SEQ d = n"

section \<open>Colour depths and short descriptors\<close>

text \<open>The union of a byte and its bit fields, bit 0 first: the depths 6, 8, 10, 12, 14 and 16.\<close>

type_synonym NVT_COLORDEPTH = NvU8

definition bpc_bit :: "nat \<Rightarrow> nat option" where
  "bpc_bit bpc = map_of [(6, 0), (8, 1), (10, 2), (12, 3), (14, 4), (16, 5)] bpc"

definition has_bpc :: "NVT_COLORDEPTH \<Rightarrow> nat \<Rightarrow> bool" where
  "has_bpc d bpc \<longleftrightarrow> (case bpc_bit bpc of None \<Rightarrow> False | Some i \<Rightarrow> bit d i)"

definition IS_BPC_SUPPORTED_COLORFORMAT :: "NVT_COLORDEPTH \<Rightarrow> bool" where
  "IS_BPC_SUPPORTED_COLORFORMAT colorDepth \<longleftrightarrow> colorDepth \<noteq> 0"

definition UPDATE_BPC_FOR_COLORFORMAT :: "NVT_COLORDEPTH \<Rightarrow> bool \<Rightarrow> bool \<Rightarrow> bool \<Rightarrow> bool \<Rightarrow> bool \<Rightarrow> bool \<Rightarrow> NVT_COLORDEPTH" where
  "UPDATE_BPC_FOR_COLORFORMAT d b6bpc b8bpc b10bpc b12bpc b14bpc b16bpc =
     (let d = (if b6bpc then set_bit 0 d else d);
          d = (if b8bpc then set_bit 1 d else d);
          d = (if b10bpc then set_bit 2 d else d);
          d = (if b12bpc then set_bit 3 d else d);
          d = (if b14bpc then set_bit 4 d else d)
      in if b16bpc then set_bit 5 d else d)"

definition SET_BPC_FOR_COLORFORMAT :: "NVT_COLORDEPTH \<Rightarrow> nat \<Rightarrow> NVT_COLORDEPTH" where
  "SET_BPC_FOR_COLORFORMAT d bpc =
     (if bpc = 6 then set_bit 0 d else if bpc = 8 then set_bit 1 d else if bpc = 10 then set_bit 2 d
      else if bpc = 12 then set_bit 3 d else if bpc = 16 then set_bit 5 d else d)"

definition CLEAR_BPC_FOR_COLORFORMAT :: "NVT_COLORDEPTH \<Rightarrow> nat \<Rightarrow> NVT_COLORDEPTH" where
  "CLEAR_BPC_FOR_COLORFORMAT d bpc =
     (if bpc = 6 then unset_bit 0 d else if bpc = 8 then unset_bit 1 d else if bpc = 10 then unset_bit 2 d
      else if bpc = 12 then unset_bit 3 d else if bpc = 16 then unset_bit 5 d else d)"

definition NVT_COLORDEPTH_HIGHEST_BPC :: "NVT_COLORDEPTH \<Rightarrow> nat" where
  "NVT_COLORDEPTH_HIGHEST_BPC d =
     (if bit d 5 then 16 else if bit d 3 then 12 else if bit d 2 then 10 else if bit d 1 then 8 else if bit d 0 then 6 else 0)"

definition NVT_COLORDEPTH_LOWEREST_BPC :: "NVT_COLORDEPTH \<Rightarrow> nat" where
  "NVT_COLORDEPTH_LOWEREST_BPC d =
     (if bit d 0 then 6 else if bit d 1 then 8 else if bit d 2 then 10 else if bit d 3 then 12 else if bit d 5 then 16 else 0)"

definition NVT_CEA861_GET_SHORT_DESCRIPTOR_TAG :: "NvU32 \<Rightarrow> NvU32" where
  "NVT_CEA861_GET_SHORT_DESCRIPTOR_TAG a = drop_bit 5 (a AND 0xE0)"

definition NVT_CEA861_GET_SHORT_DESCRIPTOR_SIZE :: "NvU32 \<Rightarrow> NvU32" where
  "NVT_CEA861_GET_SHORT_DESCRIPTOR_SIZE a = a AND 0x1F"

definition NVT_GET_CTA_8BIT_VIC :: "NvU32 \<Rightarrow> NvU32" where
  "NVT_GET_CTA_8BIT_VIC vic = (if vic \<le> 192 then vic AND 0x7F else vic AND 0xFF)"

definition NVT_CTA861_TIMING_FRR :: "NvU32 \<Rightarrow> NvU32 \<Rightarrow> bool" where
  "NVT_CTA861_TIMING_FRR vid rr \<longleftrightarrow> vid > 1 \<and> rr mod 6 = 0"

section \<open>Link rates\<close>

definition DATA_RATE_8B_10B_TO_LINK_RATE :: "NvU64 \<Rightarrow> NvU64" where
  "DATA_RATE_8B_10B_TO_LINK_RATE dataRate = dataRate div 1000000"

definition OVERHEAD_8B_10B :: "NvU64 \<Rightarrow> NvU64" where
  "OVERHEAD_8B_10B linkRate = (linkRate * 8) * 1 div 10"

definition DATA_RATE_8B_10B_TO_LINK_RATE_BPS :: "NvU64 \<Rightarrow> NvU64" where
  "DATA_RATE_8B_10B_TO_LINK_RATE_BPS dataRate = dataRate * 10"

definition LINK_RATE_BPS_TO_DATA_RATE_8B_10B :: "NvU64 \<Rightarrow> NvU64" where
  "LINK_RATE_BPS_TO_DATA_RATE_8B_10B linkRate = linkRate div 10"

definition DATA_RATE_128B_132B_TO_LINK_RATE :: "NvU64 \<Rightarrow> NvU64" where
  "DATA_RATE_128B_132B_TO_LINK_RATE dataRate = (dataRate * 33 + (4 * 10000000 - 1)) div (4 * 10000000)"

definition OVERHEAD_128B_132B :: "NvU64 \<Rightarrow> NvU64" where
  "OVERHEAD_128B_132B linkRate = (linkRate * 128) div 132"

definition DATA_BW_EFF_128B_132B :: "NvU64 \<Rightarrow> NvU64" where
  "DATA_BW_EFF_128B_132B linkRate = (linkRate * 9612) div 10000"

definition IS_8B_10B_CODING :: "NvU64 \<Rightarrow> bool" where
  "IS_8B_10B_CODING dataRate \<longleftrightarrow> dataRate \<in> set [162000000, 216000000, 243000000, 270000000, 324000000, 432000000, 540000000, 810000000]"

definition IS_128B_132B_CODING :: "NvU64 \<Rightarrow> bool" where
  "IS_128B_132B_CODING dataRate \<longleftrightarrow> dataRate \<in> set [303030303, 327272727, 606060606, 1212121212, 1636363636, 2424242424]"

definition LINK_RATE_200KHZ_TO_10MHZ :: "NvU64 \<Rightarrow> NvU64" where
  "LINK_RATE_200KHZ_TO_10MHZ linkRate = linkRate div 50"

definition LINK_RATE_KHZ_TO_10MHZ :: "NvU64 \<Rightarrow> NvU64" where
  "LINK_RATE_KHZ_TO_10MHZ a = a div 10000"

definition LINK_RATE_10MHZ_TO_KHZ :: "NvU64 \<Rightarrow> NvU64" where
  "LINK_RATE_10MHZ_TO_KHZ a = a * 10000"

definition LINK_RATE_270MHZ_TO_10MHZ :: "NvU64 \<Rightarrow> NvU64" where
  "LINK_RATE_270MHZ_TO_10MHZ a = a * 27"

definition LINK_RATE_10MHZ_TO_270MHZ :: "NvU64 \<Rightarrow> NvU64" where
  "LINK_RATE_10MHZ_TO_270MHZ a = a div 27"

definition DP_LINK_RATE_10M_TO_BPS :: "NvU64 \<Rightarrow> NvU64" where
  "DP_LINK_RATE_10M_TO_BPS linkRate = linkRate * 10000000"

definition DP_LINK_RATE_270M_TO_BPS :: "NvU64 \<Rightarrow> NvU64" where
  "DP_LINK_RATE_270M_TO_BPS linkRate = linkRate * 270000000"

definition DP_LINK_RATE_BITSPS_TO_BYTESPS :: "NvU64 \<Rightarrow> NvU64" where
  "DP_LINK_RATE_BITSPS_TO_BYTESPS linkRate = linkRate div 8"

definition LINK_RATE_KHZ_TO_MULTP :: "NvU64 \<Rightarrow> NvU64" where
  "LINK_RATE_KHZ_TO_MULTP a = a div 270000"

definition LINK_RATE_KHZ_TO_MBPS :: "NvU64 \<Rightarrow> NvU64" where
  "LINK_RATE_KHZ_TO_MBPS a = a * 100"

definition IS_STANDARD_LINKBW :: "NvU64 \<Rightarrow> bool" where
  "IS_STANDARD_LINKBW v \<longleftrightarrow> (ucast v :: NvU32) \<in> set [0x06, 0x0A, 0x14, 0x1E]"

definition IS_INTERMEDIATE_LINKBW :: "NvU64 \<Rightarrow> bool" where
  "IS_INTERMEDIATE_LINKBW v \<longleftrightarrow> (ucast v :: NvU32) \<in> set [0x08, 0x09, 0x0C, 0x10]"

definition IS_VALID_LINKBW :: "NvU64 \<Rightarrow> bool" where
  "IS_VALID_LINKBW v \<longleftrightarrow> IS_STANDARD_LINKBW v \<or> IS_INTERMEDIATE_LINKBW v"

definition IS_VALID_LINKBW_10M :: "NvU64 \<Rightarrow> bool" where
  "IS_VALID_LINKBW_10M v \<longleftrightarrow> IS_VALID_LINKBW (LINK_RATE_10MHZ_TO_270MHZ v)"

definition IS_INTERMEDIATE_LINKBW_10M :: "NvU64 \<Rightarrow> bool" where
  "IS_INTERMEDIATE_LINKBW_10M v \<longleftrightarrow> IS_INTERMEDIATE_LINKBW (LINK_RATE_10MHZ_TO_270MHZ v)"

definition IS_STANDARD_LINKBW_10M :: "NvU64 \<Rightarrow> bool" where
  "IS_STANDARD_LINKBW_10M v \<longleftrightarrow> IS_STANDARD_LINKBW (LINK_RATE_10MHZ_TO_270MHZ v)"

section \<open>Lanes, repeaters and streams\<close>

abbreviation (input) displayPort_LaneSupported :: NvU32 where "displayPort_LaneSupported \<equiv> 8"
abbreviation (input) PCON_HDMI_LINK_BW_FRL_INVALID :: NvU32 where "PCON_HDMI_LINK_BW_FRL_INVALID \<equiv> 6"

definition DP_LANE_STATUS_ARRAY_SIZE :: NvU32 where
  "DP_LANE_STATUS_ARRAY_SIZE = (displayPort_LaneSupported + 1) div 2"

definition DP_LANE_STATUS_ARRAY_INDEX :: "NvU32 \<Rightarrow> NvU32" where
  "DP_LANE_STATUS_ARRAY_INDEX lane = (if lane < displayPort_LaneSupported then lane div 2 else 0)"

definition getMaxFrlBwFromMask :: "NvU32 \<Rightarrow> NvU32" where
  "getMaxFrlBwFromMask frlRateMask =
     (if frlRateMask = 0 then PCON_HDMI_LINK_BW_FRL_INVALID else HIGHESTBITIDX_32 frlRateMask)"

definition mapPhyRepeaterVal :: "NvU32 \<Rightarrow> NvU32" where
  "mapPhyRepeaterVal v =
     (if v = 0 then 0 else if v = 0x80 then 1 else if v = 0x40 then 2 else if v = 0x20 then 3 else if v = 0x10 then 4
      else if v = 0x08 then 5 else if v = 0x04 then 6 else 0)"

definition DP_MST_HEAD_TO_STREAMID :: "NvU32 \<Rightarrow> NvU32 \<Rightarrow> NvU32 \<Rightarrow> NvU32" where
  "DP_MST_HEAD_TO_STREAMID head pipeId numHeads = head + 1 + pipeId * numHeads"

definition DP_MST_STREAMID_TO_HEAD :: "NvU32 \<Rightarrow> NvU32 \<Rightarrow> NvU32 \<Rightarrow> NvU32" where
  "DP_MST_STREAMID_TO_HEAD streamid pipeId numHeads = streamid - 1 - pipeId * numHeads"

definition DP_MST_STREAMID_TO_PIPE :: "NvU32 \<Rightarrow> NvU32 \<Rightarrow> NvU32 \<Rightarrow> NvU32 option" where
  "DP_MST_STREAMID_TO_PIPE streamid head numHeads = c_div (streamid - head - 1) numHeads"

section \<open>Fields of the status word\<close>

definition bit_field :: "nat \<Rightarrow> nat \<Rightarrow> NvU32 \<Rightarrow> NvU32" where
  "bit_field s w n = take_bit w (drop_bit s n)"

lemma bit_bit_field: "bit (bit_field s w n) i \<longleftrightarrow> i < w \<and> bit n (s + i)"
  by (simp add: bit_field_def bit_take_bit_iff bit_drop_bit_eq)

lemma masked_field: "drop_bit s (n AND push_bit s (Bit_Operations.mask w)) = bit_field s w (n :: NvU32)"
  by (rule bit_eqI) (auto simp: bit_bit_field bit_drop_bit_eq bit_and_iff bit_push_bit_iff bit_mask_iff dest: bit_imp_le_length)

lemma status_masks:
  "(0x80000000 :: NvU32) = push_bit 31 (Bit_Operations.mask 1)" "(0x40000000 :: NvU32) = push_bit 30 (Bit_Operations.mask 1)"
  "(0x3FC00000 :: NvU32) = push_bit 22 (Bit_Operations.mask 8)" "(0x00200000 :: NvU32) = push_bit 21 (Bit_Operations.mask 1)"
  "(0x001F0000 :: NvU32) = push_bit 16 (Bit_Operations.mask 5)" "(0x0000FF00 :: NvU32) = push_bit 8 (Bit_Operations.mask 8)"
  "(0x000000FF :: NvU32) = push_bit 0 (Bit_Operations.mask 8)"
  by (simp_all add: mask_eq_exp_minus_1)

lemma status_getters:
  "NVT_IS_NATIVE_TIMING n = bit_field 31 1 n" "NVT_IS_CUST_ENTRY n = bit_field 30 1 n" "NVT_GET_CEA_FORMAT n = bit_field 22 8 n"
  "NVT_IS_CEA_DMT_DUAL_STANDARD n = bit_field 21 1 n" "NVT_GET_TIMING_STATUS_MATCH n = bit_field 16 5 n"
  "NVT_GET_TIMING_STATUS_TYPE n = bit_field 8 8 n" "NVT_GET_TIMING_STATUS_SEQ n = bit_field 0 8 n"
proof -
  have "NVT_GET_TIMING_STATUS_SEQ n = drop_bit 0 (n AND push_bit 0 (Bit_Operations.mask 8))"
    unfolding NVT_GET_TIMING_STATUS_SEQ_def status_masks(7) by simp
  then show "NVT_GET_TIMING_STATUS_SEQ n = bit_field 0 8 n" by (simp only: masked_field)
qed (simp_all only: NVT_IS_NATIVE_TIMING_def NVT_IS_CUST_ENTRY_def NVT_GET_CEA_FORMAT_def NVT_IS_CEA_DMT_DUAL_STANDARD_def
    NVT_GET_TIMING_STATUS_MATCH_def NVT_GET_TIMING_STATUS_TYPE_def status_masks(1-6) masked_field)

text \<open>All fields of the word, from the highest.\<close>

definition status_fields :: "NvU32 \<Rightarrow> NvU32 list" where
  "status_fields n =
     [NVT_IS_NATIVE_TIMING n, NVT_IS_CUST_ENTRY n, NVT_GET_CEA_FORMAT n, NVT_IS_CEA_DMT_DUAL_STANDARD n,
      NVT_GET_TIMING_STATUS_MATCH n, NVT_GET_TIMING_STATUS_TYPE n, NVT_GET_TIMING_STATUS_SEQ n]"

lemma status_fields_bits:
  "status_fields n = [bit_field 31 1 n, bit_field 30 1 n, bit_field 22 8 n, bit_field 21 1 n, bit_field 16 5 n, bit_field 8 8 n, bit_field 0 8 n]"
  by (simp only: status_fields_def status_getters)

text \<open>Writing a value of \<open>w\<close> bits at \<open>s\<close>, into a word whose field was or was not cleared before.\<close>

definition placed :: "nat \<Rightarrow> NvU32 \<Rightarrow> NvU32" where
  "placed s v = push_bit s v"

definition ones_at :: "nat \<Rightarrow> nat \<Rightarrow> NvU32" where
  "ones_at s w = push_bit s (Bit_Operations.mask w)"

lemma field_or_other:
  assumes "v = take_bit w v" "s' + w' \<le> s \<or> s + w \<le> s'"
  shows "bit_field s' w' (n OR placed s v) = bit_field s' w' n"
proof (rule bit_eqI)
  fix i
  have "\<not> bit v (s' + i - s)" if "i < w'" "s \<le> s' + i"
    using that assms(2) bit_take_bit_iff [of w v "s' + i - s"] assms(1) by auto
  then show "bit (bit_field s' w' (n OR placed s v)) i = bit (bit_field s' w' n) i"
    by (auto simp: bit_bit_field bit_or_iff bit_push_bit_iff placed_def ones_at_def)
qed

lemma field_or_same:
  assumes "v = take_bit w v" "s + w \<le> 32"
  shows "bit_field s w (n OR placed s v) = bit_field s w n OR v"
proof (rule bit_eqI)
  fix i
  have "bit v i \<Longrightarrow> i < w" using bit_take_bit_iff [of w v i] assms(1) by auto
  then show "bit (bit_field s w (n OR placed s v)) i = bit (bit_field s w n OR v) i"
    using assms(2) by (auto simp: bit_bit_field bit_or_iff bit_push_bit_iff placed_def ones_at_def)
qed

lemma field_clear_other:
  "s' + w' \<le> s \<or> s + w \<le> s' \<Longrightarrow> bit_field s' w' (n AND NOT (ones_at s w)) = bit_field s' w' n"
  by (rule bit_eqI) (auto simp: bit_bit_field bit_and_iff bit_not_iff bit_push_bit_iff placed_def ones_at_def bit_mask_iff dest: bit_imp_le_length)

lemma field_clear_same: "s + w \<le> 32 \<Longrightarrow> bit_field s w (n AND NOT (ones_at s w)) = 0"
  by (rule bit_eqI) (auto simp: bit_bit_field bit_and_iff bit_not_iff bit_push_bit_iff placed_def ones_at_def bit_mask_iff)

lemma flag_or_one: "bit_field s 1 n OR 1 = 1"
  by (rule bit_eqI) (auto simp: bit_bit_field bit_or_iff bit_1_iff)

lemma field_zero: "bit_field s w 0 = 0"
  by (simp add: bit_field_def)

lemma less_256: "(v :: NvU32) < 256 \<Longrightarrow> v = take_bit 8 v"
  by (rule word_unat_eq_iff [THEN iffD2]) (simp add: unsigned_take_bit_eq take_bit_eq_mod word_less_nat_alt)

text \<open>
  The fields of the status word are independent. A definition sets type and sequence number and nothing else; each
  setter changes its own field and no other, the ones that do not mask their argument for arguments of eight bits.
\<close>

theorem timing_status_independent:
  assumes "t < 256" "i < 256"
  shows "status_fields (NVT_DEF_TIMING_STATUS x y) = [0, 0, 0, 0, 0, take_bit 8 x, take_bit 8 y] \<and>
    status_fields (NVT_SET_NATIVE_TIMING_FLAG n) = (status_fields n)[0 := 1] \<and>
    status_fields (NVT_SET_CUST_ENTRY_FLAG n) = (status_fields n)[1 := 1] \<and>
    status_fields (NVT_SET_CEA_FORMAT n i) = (status_fields n)[2 := i] \<and>
    status_fields (NVT_SET_CEA_DMT_DUAL_STANDARD_FLAG n) = (status_fields n)[3 := 1] \<and>
    status_fields (NVT_SET_TIMING_STATUS_MISMATCH n k) = (status_fields n)[4 := NVT_GET_TIMING_STATUS_MATCH n OR take_bit 5 k] \<and>
    status_fields (NVT_SET_TIMING_STATUS_TYPE n t) = (status_fields n)[5 := t]"
proof (intro conjI)
  have v: "(1 :: NvU32) = take_bit 1 1" "t = take_bit 8 t" "i = take_bit 8 i" "take_bit 5 k = take_bit 5 (take_bit 5 k)"
    "take_bit 8 x = take_bit 8 (take_bit 8 x)" "take_bit 8 y = take_bit 8 (take_bit 8 y)"
    using assms less_256 by simp_all
  have take: "push_bit s u AND push_bit s (Bit_Operations.mask w) = placed s (take_bit w u)" for s w and u :: NvU32
    by (simp add: placed_def take_bit_eq_mask flip: push_bit_and)
  have set: "NVT_SET_NATIVE_TIMING_FLAG n = n OR placed 31 1" "NVT_SET_CUST_ENTRY_FLAG n = n OR placed 30 1"
    "NVT_SET_CEA_FORMAT n i = (n AND NOT (ones_at 22 8)) OR placed 22 i" "NVT_SET_CEA_DMT_DUAL_STANDARD_FLAG n = n OR placed 21 1"
    "NVT_SET_TIMING_STATUS_MISMATCH n k = n OR placed 16 (take_bit 5 k)"
    "NVT_SET_TIMING_STATUS_TYPE n t = (n AND NOT (ones_at 8 8)) OR placed 8 t"
    "NVT_DEF_TIMING_STATUS x y = (0 OR placed 8 (take_bit 8 x)) OR placed 0 (take_bit 8 y)"
    using take [of 0 y 8]
    by (simp_all add: NVT_SET_NATIVE_TIMING_FLAG_def NVT_SET_CUST_ENTRY_FLAG_def NVT_SET_CEA_FORMAT_def NVT_DEF_TIMING_STATUS_def
        NVT_SET_CEA_DMT_DUAL_STANDARD_FLAG_def NVT_SET_TIMING_STATUS_MISMATCH_def NVT_SET_TIMING_STATUS_TYPE_def
        flip: take) (simp_all add: placed_def ones_at_def mask_eq_exp_minus_1)
  note writes = field_or_other [OF v(1)] field_or_other [OF v(2)] field_or_other [OF v(3)] field_or_other [OF v(4)]
    field_or_other [OF v(5)] field_or_other [OF v(6)] field_or_same [OF v(1)] field_or_same [OF v(2)] field_or_same [OF v(3)]
    field_or_same [OF v(4)] field_or_same [OF v(5)] field_or_same [OF v(6)] field_clear_other field_clear_same field_zero
  show "status_fields (NVT_DEF_TIMING_STATUS x y) = [0, 0, 0, 0, 0, take_bit 8 x, take_bit 8 y]"
    unfolding set status_fields_bits
    by (simp add: writes field_or_other [OF v(5), where n = 0, unfolded or.left_neutral] field_or_same [OF v(5), where n = 0, unfolded or.left_neutral])
  show "status_fields (NVT_SET_NATIVE_TIMING_FLAG n) = (status_fields n)[0 := 1]"
    "status_fields (NVT_SET_CUST_ENTRY_FLAG n) = (status_fields n)[1 := 1]"
    "status_fields (NVT_SET_CEA_DMT_DUAL_STANDARD_FLAG n) = (status_fields n)[3 := 1]"
    unfolding set status_fields_bits by (simp_all add: writes flag_or_one del: One_nat_def) simp_all
  show "status_fields (NVT_SET_CEA_FORMAT n i) = (status_fields n)[2 := i]" "status_fields (NVT_SET_TIMING_STATUS_TYPE n t) = (status_fields n)[5 := t]"
    "status_fields (NVT_SET_TIMING_STATUS_MISMATCH n k) = (status_fields n)[4 := NVT_GET_TIMING_STATUS_MATCH n OR take_bit 5 k]"
    unfolding set status_fields_bits status_getters by (simp_all add: writes)
qed

text \<open>The status of a type and a sequence number is recognised as that type and number.\<close>

lemma timing_type_codes: "timing_type_code t < 256" "timing_type_code t = timing_type_code u \<longleftrightarrow> t = u"
proof -
  show "timing_type_code t < 256" by (cases t) (simp_all add: timing_type_code_def timing_types_def)
  have pos: "position t timing_types < 39" for t by (cases t) (simp_all add: timing_types_def)
  have nth: "timing_types ! position t timing_types = t" for t by (cases t) (simp_all add: timing_types_def)
  have "unat (timing_type_code t) = position t timing_types + 1" for t
    unfolding timing_type_code_def using pos [of t] by (simp only: unsigned_of_nat) (simp add: take_bit_nat_eq_self)
  then show "timing_type_code t = timing_type_code u \<longleftrightarrow> t = u" using nth by (metis add_right_cancel)
qed

theorem status_recognised:
  assumes "n < 256"
  shows "NVT_IS_DTDn (NVT_DEF_TIMING_STATUS (timing_type_code t) n) k \<longleftrightarrow> t = NVT_TYPE_EDID_DTD \<and> k = n"
    "NVT_IS_EXT_DTDn (NVT_DEF_TIMING_STATUS (timing_type_code t) n) k \<longleftrightarrow> t = NVT_TYPE_EDID_EXT_DTD \<and> k = n"
    "NVT_IS_CTA861_DID_T7n (NVT_DEF_TIMING_STATUS (timing_type_code t) n) k \<longleftrightarrow> t = NVT_TYPE_CTA861_DID_T7 \<and> k = n"
    "NVT_IS_CTA861_DID_T10n (NVT_DEF_TIMING_STATUS (timing_type_code t) n) k \<longleftrightarrow> t = NVT_TYPE_CTA861_DID_T10 \<and> k = n"
    "NVT_IS_CTA861 (NVT_DEF_TIMING_STATUS (timing_type_code t) n) \<longleftrightarrow> t = NVT_TYPE_EDID_861ST"
    "NVT_IS_CTA861_DID_T8_1 (NVT_DEF_TIMING_STATUS (timing_type_code t) n) \<longleftrightarrow> t = NVT_TYPE_CTA861_DID_T8 \<and> n = 1"
proof -
  have "NVT_GET_TIMING_STATUS_TYPE (NVT_DEF_TIMING_STATUS (timing_type_code t) n) = timing_type_code t"
    "NVT_GET_TIMING_STATUS_SEQ (NVT_DEF_TIMING_STATUS (timing_type_code t) n) = n"
    using conjunct1 [OF timing_status_independent [of 0 0 "timing_type_code t" n]] less_256 [OF timing_type_codes(1), of t] less_256 [OF assms]
    by (simp_all add: status_fields_def)
  note get = this timing_type_codes(2)
  show "NVT_IS_DTDn (NVT_DEF_TIMING_STATUS (timing_type_code t) n) k \<longleftrightarrow> t = NVT_TYPE_EDID_DTD \<and> k = n"
    "NVT_IS_EXT_DTDn (NVT_DEF_TIMING_STATUS (timing_type_code t) n) k \<longleftrightarrow> t = NVT_TYPE_EDID_EXT_DTD \<and> k = n"
    "NVT_IS_CTA861_DID_T7n (NVT_DEF_TIMING_STATUS (timing_type_code t) n) k \<longleftrightarrow> t = NVT_TYPE_CTA861_DID_T7 \<and> k = n"
    "NVT_IS_CTA861_DID_T10n (NVT_DEF_TIMING_STATUS (timing_type_code t) n) k \<longleftrightarrow> t = NVT_TYPE_CTA861_DID_T10 \<and> k = n"
    "NVT_IS_CTA861 (NVT_DEF_TIMING_STATUS (timing_type_code t) n) \<longleftrightarrow> t = NVT_TYPE_EDID_861ST"
    "NVT_IS_CTA861_DID_T8_1 (NVT_DEF_TIMING_STATUS (timing_type_code t) n) \<longleftrightarrow> t = NVT_TYPE_CTA861_DID_T8 \<and> n = 1"
    by (auto simp: NVT_IS_DTDn_def NVT_IS_EXT_DTDn_def NVT_IS_CTA861_DID_T7n_def NVT_IS_CTA861_DID_T10n_def NVT_IS_CTA861_def
        NVT_IS_CTA861_DID_T8_1_def NVT_IS_DTD_def NVT_IS_EXT_DTD_def NVT_IS_CTA861_DID_T7_def NVT_IS_CTA861_DID_T8_def
        NVT_IS_CTA861_DID_T10_def get)
qed

section \<open>Link rates and depths\<close>

text \<open>
  The conversions of a link rate into a data rate and back. With 128b/132b coding the data rate is rounded down and the
  way back rounds up: the rate returned is the one converted, for every rate of 32 bits.
\<close>

theorem link_rates_round_trip:
  assumes "unat r < 2 ^ 32"
  shows "DATA_RATE_8B_10B_TO_LINK_RATE (LINK_RATE_TO_DATA_RATE_8B_10B r) = r \<and>
    DATA_RATE_128B_132B_TO_LINK_RATE (LINK_RATE_TO_DATA_RATE_128B_132B r) = r \<and>
    LINK_RATE_BPS_TO_DATA_RATE_8B_10B (DATA_RATE_8B_10B_TO_LINK_RATE_BPS r) = r \<and>
    LINK_RATE_KHZ_TO_10MHZ (LINK_RATE_10MHZ_TO_KHZ r) = r \<and>
    LINK_RATE_10MHZ_TO_270MHZ (LINK_RATE_270MHZ_TO_10MHZ r) = r"
proof -
  have r: "unat r \<le> 4294967295" using assms by simp
  show ?thesis
  proof (intro conjI; rule word_unat_eq_iff [THEN iffD2])
    show "unat (DATA_RATE_8B_10B_TO_LINK_RATE (LINK_RATE_TO_DATA_RATE_8B_10B r)) = unat r"
      using r by (simp add: DATA_RATE_8B_10B_TO_LINK_RATE_def LINK_RATE_TO_DATA_RATE_8B_10B_def unat_mult_nowrap)
    show "unat (LINK_RATE_BPS_TO_DATA_RATE_8B_10B (DATA_RATE_8B_10B_TO_LINK_RATE_BPS r)) = unat r"
      using r by (simp add: LINK_RATE_BPS_TO_DATA_RATE_8B_10B_def DATA_RATE_8B_10B_TO_LINK_RATE_BPS_def unat_mult_nowrap)
    show "unat (LINK_RATE_KHZ_TO_10MHZ (LINK_RATE_10MHZ_TO_KHZ r)) = unat r"
      using r by (simp add: LINK_RATE_KHZ_TO_10MHZ_def LINK_RATE_10MHZ_TO_KHZ_def unat_mult_nowrap)
    show "unat (LINK_RATE_10MHZ_TO_270MHZ (LINK_RATE_270MHZ_TO_10MHZ r)) = unat r"
      using r by (simp add: LINK_RATE_10MHZ_TO_270MHZ_def LINK_RATE_270MHZ_TO_10MHZ_def unat_mult_nowrap)
    define d where "d = LINK_RATE_TO_DATA_RATE_128B_132B r"
    have d: "unat d = unat r * 40000000 div 33"
      using r by (simp add: d_def LINK_RATE_TO_DATA_RATE_128B_132B_def unat_mult_nowrap)
    have le: "unat d * 33 \<le> unat r * 40000000" "unat r * 40000000 < unat d * 33 + 33"
      unfolding d using div_mult_mod_eq [of "unat r * 40000000" 33] mod_less_divisor [of 33 "unat r * 40000000"] by linarith+
    have "unat (d * 33 + 39999999) = unat d * 33 + 39999999" using r le(1) by (simp add: unat_mult_nowrap unat_add_nowrap)
    then have "unat (DATA_RATE_128B_132B_TO_LINK_RATE d) = (unat d * 33 + 39999999) div 40000000"
      by (simp add: DATA_RATE_128B_132B_TO_LINK_RATE_def)
    also have "\<dots> = unat r" using le by (intro div_nat_eqI) simp_all
    finally show "unat (DATA_RATE_128B_132B_TO_LINK_RATE (LINK_RATE_TO_DATA_RATE_128B_132B r)) = unat r" by (simp add: d_def)
  qed
qed

text \<open>The standard and intermediate rates are coded as the rates of their kind, and no data rate is of both kinds.\<close>

lemma rates_coded:
  "list_all (\<lambda>r. IS_8B_10B_CODING (LINK_RATE_TO_DATA_RATE_8B_10B r)) [162, 216, 243, 270, 324, 432, 540, 810]"
  "list_all (\<lambda>r. IS_128B_132B_CODING (LINK_RATE_TO_DATA_RATE_128B_132B r)) [250, 270, 500, 1000, 1350, 2000]"
  "IS_8B_10B_CODING d \<Longrightarrow> \<not> IS_128B_132B_CODING d"
  by (auto simp: IS_8B_10B_CODING_def IS_128B_132B_CODING_def LINK_RATE_TO_DATA_RATE_8B_10B_def LINK_RATE_TO_DATA_RATE_128B_132B_def)

text \<open>
  The highest and the lowest depth are the greatest and the least of the supported ones, of which the macros know five:
  a format that supports only 14 bits has no highest depth, although it supports one.
\<close>

theorem depths_found:
  "NVT_COLORDEPTH_HIGHEST_BPC d = (if \<exists>b. b \<noteq> 14 \<and> has_bpc d b then Max {b. b \<noteq> 14 \<and> has_bpc d b} else 0)"
proof -
  have S: "{b. b \<noteq> 14 \<and> has_bpc d b} = set (filter (has_bpc d) [6, 8, 10, 12, 16])"
    by (auto simp: has_bpc_def bpc_bit_def split: if_split_asm)
  have E: "(\<exists>b. b \<noteq> 14 \<and> has_bpc d b) \<longleftrightarrow> {b. b \<noteq> 14 \<and> has_bpc d b} \<noteq> {}" by blast
  show ?thesis
    unfolding E unfolding S by (auto simp: NVT_COLORDEPTH_HIGHEST_BPC_def has_bpc_def bpc_bit_def)
qed

lemma fourteen_bits_not_found: "IS_BPC_SUPPORTED_COLORFORMAT (UPDATE_BPC_FOR_COLORFORMAT 0 False False False False True False) \<and>
  NVT_COLORDEPTH_HIGHEST_BPC (UPDATE_BPC_FOR_COLORFORMAT 0 False False False False True False) = 0"
  by (simp add: UPDATE_BPC_FOR_COLORFORMAT_def IS_BPC_SUPPORTED_COLORFORMAT_def NVT_COLORDEPTH_HIGHEST_BPC_def bit_set_bit_iff set_bit_eq_or)

section \<open>Masks, repeaters and streams\<close>

lemma frl_highest:
  assumes "frlRateMask \<noteq> 0"
  shows "bit frlRateMask (unat (getMaxFrlBwFromMask frlRateMask))" "bit frlRateMask j \<Longrightarrow> j \<le> unat (getMaxFrlBwFromMask frlRateMask)"
proof -
  obtain h where h: "h < 32" "bit frlRateMask h" "\<And>j. bit frlRateMask j \<Longrightarrow> j \<le> h" "2 ^ h \<le> unat frlRateMask" "unat frlRateMask < 2 ^ (h + 1)"
    using highest_bit [OF assms] by auto
  have "unat (getMaxFrlBwFromMask frlRateMask) = h"
    using assms highest_loop_value [OF h(4,5), of 0] h(1) by (simp add: getMaxFrlBwFromMask_def HIGHESTBITIDX_32_def unat_of_nat)
  then show "bit frlRateMask (unat (getMaxFrlBwFromMask frlRateMask))" "bit frlRateMask j \<Longrightarrow> j \<le> unat (getMaxFrlBwFromMask frlRateMask)"
    using h(2,3) by auto
qed

text \<open>The register holds \<open>n\<close> repeaters as bit \<open>8 - n\<close>; every other value counts none.\<close>

lemma repeaters_counted:
  "1 \<le> n \<Longrightarrow> n \<le> 6 \<Longrightarrow> mapPhyRepeaterVal (push_bit (8 - n) 1) = of_nat n"
  "mapPhyRepeaterVal v \<noteq> 0 \<Longrightarrow> v = push_bit (8 - unat (mapPhyRepeaterVal v)) 1"
proof -
  assume "1 \<le> n" "n \<le> 6"
  then have "n \<in> {1, 2, 3, 4, 5, 6}" by auto
  then show "mapPhyRepeaterVal (push_bit (8 - n) 1) = of_nat n" by (auto simp: mapPhyRepeaterVal_def)
next
  assume "mapPhyRepeaterVal v \<noteq> 0"
  then show "v = push_bit (8 - unat (mapPhyRepeaterVal v)) 1" by (simp add: mapPhyRepeaterVal_def split: if_split_asm)
qed

lemma stream_head: "DP_MST_STREAMID_TO_HEAD (DP_MST_HEAD_TO_STREAMID h p n) p n = h"
  by (simp add: DP_MST_STREAMID_TO_HEAD_def DP_MST_HEAD_TO_STREAMID_def)

lemma stream_pipe:
  assumes "0 < n" "unat p * unat n < 2 ^ 32"
  shows "DP_MST_STREAMID_TO_PIPE (DP_MST_HEAD_TO_STREAMID h p n) h n = Some p"
proof -
  have "DP_MST_HEAD_TO_STREAMID h p n - h - 1 = p * n" by (simp add: DP_MST_HEAD_TO_STREAMID_def)
  moreover have "p * n div n = p"
    using assms by (intro word_unat_eq_iff [THEN iffD2]) (simp add: unat_mult_nowrap word_less_nat_alt)
  moreover have "n \<noteq> 0" using assms(1) by auto
  ultimately show ?thesis by (simp add: DP_MST_STREAMID_TO_PIPE_def)
qed

lemma lane_status_in_array: "DP_LANE_STATUS_ARRAY_INDEX lane < DP_LANE_STATUS_ARRAY_SIZE"
  by (auto simp: DP_LANE_STATUS_ARRAY_INDEX_def DP_LANE_STATUS_ARRAY_SIZE_def word_less_nat_alt)

end
