(* ===== verification/Spec2Isabelle.thy ===== *)
theory Spec2Isabelle
  imports Dsc_Admission Dsc_Search Rm_Probe Rm_Invoke Rm_WaitProbe Rm_CpuProbe Rm_FormatProbe Nv_Drf Nv_Arith Nv_Access Nv_Display
begin

text \<open>
  \<^bold>\<open>Verification of the C code of the R4OS NVIDIA driver.\<close>

  \<^bold>\<open>The program.\<close> The driver is written in Zig over the kernel's driver interface; the parts in C, under
  \<^verbatim>\<open>src/dsc\<close> and \<^verbatim>\<open>src/rm\<close>, are what this library models, with the small Zig modules that provide the
  functions the C code imports or call it. There are three groups.

  \<^item> Display Stream Compression. \<^verbatim>\<open>dsc/Original/.../nvt_dsc_pps.c\<close> computes the picture parameter set of a
    compressed display link from the capabilities of sink and GPU, the mode and the bandwidth.
    \<^verbatim>\<open>dsc/pps.c\<close> is the driver's entry to it, called by \<^verbatim>\<open>gsp_dsc.zig\<close> between the admission of the request and
    the checks of the result; the capabilities in a request come from the decoders of \<^verbatim>\<open>gsp_link_caps.zig\<close>.
  \<^item> The operating system layer of NVIDIA's resource manager and modeset sources: memory and strings, heap,
    formatted printing, logging, semaphores, clock and waits. Each is a pair of C files with the
    declarations of the two upstream headers (\<^verbatim>\<open>os_*.c\<close> for RM, \<^verbatim>\<open>nvkms_*.c\<close> for modeset) over a private
    header and a Zig provider (\<^verbatim>\<open>rm_*.zig\<close>), which calls services of the kernel. A C function without a
    result that cannot do its work calls \<^verbatim>\<open>r4nv_native_fault\<close>, which ends the Task and does not return.
    Calls into this layer run as invocations of \<^verbatim>\<open>rm_native.zig\<close>, which refuses them after a fault.
  \<^item> NVIDIA's utility headers \<^verbatim>\<open>nvmisc.h\<close> and \<^verbatim>\<open>nvtypes.h\<close>: bits, register fields, alignment, halves of words; and the
    code in the headers of memory areas, access rights, timings and DisplayPort links.

  \<^bold>\<open>The theories.\<close> \<open>Prelude\<close> has the machine integers, the C macros of \<^verbatim>\<open>nvmisc.h\<close> and of the generator, the
  error monad with undefined behaviour, and the arithmetic of words without wrap-around.

  \<^item> \<open>Dsc_Types\<close>, \<open>Dsc_Tables\<close>: status codes, structures at their widths, the quantisation tables.
  \<^item> \<open>Dsc_Rate\<close>: rate alignment, initial values of rate control, first line and slice offsets, scale
    interval, extra bits, \<^verbatim>\<open>DSC_PpsCheckSliceHeight\<close>. No division by zero; fields in range; the closed
    form of the extra bits equals the counting loop.
  \<^item> \<open>Dsc_RcParam\<close>: \<^verbatim>\<open>DSC_PpsCalcRcParam\<close>; the columns read are inside the tables, and which rates leave them.
  \<^item> \<open>Dsc_Slices\<close>: slice count masks, minimum and next slice counts, throughput, slice parameters; each
    search finds the least count.
  \<^item> \<open>Dsc_Pps\<close>: base values, the searches for a slice height, \<^verbatim>\<open>DSC_PpsCalc\<close>; the searches end and the output
    is consistent with geometry and rate.
  \<^item> \<open>Dsc_Codec\<close>: packing into the 32 dwords of the parameter set, the bytes of the plan, and a decoder that
    inverts them. What \<^verbatim>\<open>DSC_PpsCalc\<close> computes fits, but for a chunk size of 65536, of which two bytes keep the low
    16 bits (\<open>packed\<close>).
  \<^item> \<open>Dsc_Generate\<close>: validation, format, workarounds, the rate of the link and \<^verbatim>\<open>DSC_GeneratePPS\<close>; for admitted
    requests no undefined behaviour, nothing written on failure, the request's geometry on success, the rate
    within the bandwidth; and where validation is too weak.
  \<^item> \<open>Dsc_Search\<close>: \<^verbatim>\<open>DSC_GeneratePPSWithSliceCountMask\<close>, the mask it reports.
  \<^item> \<open>Dsc_Companion\<close>: \<^verbatim>\<open>r4os_dsc_generate\<close>, its soundness for admitted requests, and the parameter sets of the
    two golden fixtures, computed.
  \<^item> \<open>Dsc_Admission\<close>: the capability decoders and \<^verbatim>\<open>generate\<close> of \<^verbatim>\<open>gsp_dsc.zig\<close>, admission, companion and checks
    composed. Sums, products, remainders and conversions that Zig checks are operations with an optional result
    (\<open>zig_add\<close>, \<open>zig_mul\<close>, \<open>zig_sub\<close>, \<open>zig_cast\<close>), and a failed check ends the call with \<open>Panic\<close>. No request ends so:
    each ends in an error or in a plan within the limits of sink, encoder and link; the driver's header check
    accepts what the companion generates; which monitor bytes stop the decoder. The clock and payload
    arithmetic of the EDID package is the parameter \<open>links_package\<close>, with \<open>links_ok\<close> what its documentation promises.
  \<^item> \<open>Rm_Memory\<close>: \<^verbatim>\<open>memory.h\<close>, \<^verbatim>\<open>os_memory.c\<close> and \<^verbatim>\<open>nvkms_memory.c\<close> on a byte memory in which an access outside the
    mapped addresses has no result; moves with overlaps, fills, comparisons, string copies.
  \<^item> \<open>Rm_Native\<close>: status codes, outcomes of functions that may not return, the fault latch and
    \<^verbatim>\<open>currentInvocation\<close> of \<^verbatim>\<open>rm_native.zig\<close>.
  \<^item> \<open>Rm_Heap\<close>: \<^verbatim>\<open>rm_heap.zig\<close> and the allocation adapters. The locale \<open>heap_provider\<close> is what the adapters rely
    on, interpreted by the provider for every kernel service; a pointer is returned exactly for a usable grant,
    with the prefix written in front of it, which leads a release back to the granted handle.
  \<^item> \<open>Rm_Format\<close>: \<^verbatim>\<open>format.h\<close> and its adapters. \<open>fmt_text\<close> is the text of a format without a buffer; the formatter
    refines it for every capacity. Numbers read back.
  \<^item> \<open>Rm_Log\<close>: \<^verbatim>\<open>log.h\<close>, \<^verbatim>\<open>os_log.c\<close>, \<^verbatim>\<open>nvkms_log.c\<close>, \<^verbatim>\<open>rm_log.zig\<close>; the record of each message, and a step relation
    over all operations with its invariant.
  \<^item> \<open>Rm_Semaphore\<close>: \<^verbatim>\<open>rm_semaphore.zig\<close>, \<^verbatim>\<open>os_semaphore.c\<close>, \<^verbatim>\<open>nvkms_semaphore.c\<close>. The locale \<open>semaphore_provider\<close> and its
    interpretation: no adapter returns without the provider's success; the refinement to a counter over a
    kernel that counts; a semaphore is destroyed once.
  \<^item> \<open>Rm_Clock\<close>: \<^verbatim>\<open>rm_clock.zig\<close> and the clock adapters; the locale \<open>latching_clock\<close>, a lost clock stays lost.
  \<^item> \<open>Rm_Wait\<close>: \<^verbatim>\<open>wait_policy.zig\<close>, \<^verbatim>\<open>rm_wait.zig\<close>, \<^verbatim>\<open>os_wait.c\<close>, \<^verbatim>\<open>nvkms_wait.c\<close>. The locales \<open>policy_ops\<close> and \<open>wait_provider\<close>:
    a delay that reports success took the time; how a wait ends over a clock that moves on. The
    deadline of a wait is that of the invocation \<^verbatim>\<open>currentInvocation\<close> finds.
  \<^item> \<open>Rm_Invoke\<close>: \<^verbatim>\<open>start\<close>, \<^verbatim>\<open>enter\<close> and \<^verbatim>\<open>checkpoint\<close> of \<^verbatim>\<open>rm_native.zig\<close>, as one call executes them and as steps of
    interleaved Tasks, one access to the shared variables or the kernel per step; the steps compose to the
    functions. The locales \<open>kept_by_ops\<close> and \<open>kept_by_provider\<close> carry a relation between states through a wait:
    every wait is a sequence of the accesses a handler may make. After a failure an ordinary call is admitted
    only if its Task had already made the load that would show it, and calls and waits end before their deadline.
  \<^item> \<open>Rm_WaitProbe\<close>: \<^verbatim>\<open>wait_probe.c\<close>; no measured delay is short, on any kernel.
  \<^item> \<open>Rm_Regions\<close>: byte regions that do not overlap, what the memory adapters do to one of them, and the record
    \<open>kernel_view\<close> of a kernel heap with \<open>kernel_heap_ok\<close>, what its service documents; allocations and releases of
    the provider over such a kernel.
  \<^item> \<open>Rm_CpuProbe\<close>: \<^verbatim>\<open>r4nv_cpu_probe\<close> of \<^verbatim>\<open>cpu_probe.c\<close> over the heap, memory, string and clock models; it accesses
    only mapped memory, fails only where the kernel refuses memory or loses the clock, and returns its blocks.
  \<^item> \<open>Rm_FormatProbe\<close>: \<^verbatim>\<open>r4nv_format_probe\<close> of \<^verbatim>\<open>cpu_probe.c\<close> over the formatter, the string and the log models; every
    check of the formatter passes, and the records it sends.
  \<^item> \<open>Rm_Probe\<close>: \<^verbatim>\<open>semaphore_probe.c\<close>; the healthy probe passes on a kernel that counts, a free the kernel refuses leaves
    the callback, and the block of the concurrent probe is found intact, over \<open>sema_quiet\<close> kernels, whose semaphore
    operations touch no memory in use.
  \<^item> \<open>Nv_Bits\<close>, \<open>Nv_Drf\<close>, \<open>Nv_Arith\<close>: population counts, bit positions, powers of two and mask iteration; register
    fields, with the locale \<open>field_store\<close> interpreted by 32-bit registers, 64-bit registers and arrays of words,
    and reads that span words or bytes; 64-bit values in halves, rounding, alignment, and the byte loops the
    memory adapters replace.
  \<^item> \<open>Nv_Access\<close>: \<^verbatim>\<open>nv_memory_area.h\<close> and the masks of \<^verbatim>\<open>rs_access.h\<close>; ranges that do not wrap are sets of addresses,
    masks are sets of rights.
  \<^item> \<open>Nv_Display\<close>: the macros and inline functions of \<^verbatim>\<open>nvtiming.h\<close>, \<^verbatim>\<open>displayport.h\<close> and \<^verbatim>\<open>displayport2x.h\<close> beside the
    generator; the fields of a timing's status are independent, link rates convert to data rates and back.

  \<^bold>\<open>Conventions.\<close> Machine integers are words and wrap. A C structure is a record, an output parameter a
  component of the result. Undefined behaviour (a division by zero, an access outside an array or the
  mapped memory) is \<^const>\<open>None\<close> of an option, an error code a value, so the safety theorems say that
  \<^const>\<open>None\<close> is not reached. The kernel's services are fields of the module's state, arbitrary functions on the
  kernel's state and memory; a theorem that needs more of the kernel says so in a hypothesis, and its
  witness is a concrete kernel. Stack buffers are arguments of unknown contents.

  \<^bold>\<open>Loops.\<close> All loops of the generator are bounded by their data and are structural recursions or carry a
  measure; the scans for a string terminator, which C lets run off, are partial functions into the option
  type. The formatter recurses on the format. The wait loop terminates for every clock, by the remaining
  time and then by the count of equal readings. The iteration over a mask ends by the mask. No theorem uses
  fuel.

  \<^bold>\<open>Not modelled.\<close> The GSP, display and memory modules in Zig over the kernel's driver interface, whose
  package is not in the repository; the vendored NVIDIA headers beyond the declarations the code uses and the
  macros and inline functions listed above: the rest declares types, register constants and functions that are
  not in the repository, which the engine access macros of \<^verbatim>\<open>nvmisc.h\<close> call; host tools,
  tests, firmware and build scripts. Invocations of native callbacks interleave as steps, in a sequentially consistent order; within one modelled wait or adapter call concurrency appears as kernel
  services that change state and memory arbitrarily while the call waits.
\<close>

end
